(* ===== verification/Prelude.thy ===== *)
theory Prelude
  imports Main "HOL-Library.Word" "HOL-Library.AList"
begin

text \<open>
  What every component of the model shares: the machine integers and byte strings of the Rust
  code, the little-endian and big-endian encodings of the \<open>bytes\<close> crate, saturating
  and checked arithmetic, results with typed errors, and the association lists that stand for
  its hash tables. The lemma collections at the end carry the proofs of the components.
\<close>

unbundle bit_operations_syntax

named_theorems wire_simps \<open>encoding and decoding of fixed-width fields\<close>
named_theorems table_simps \<open>lookups after updates and removals of a table\<close>

section \<open>Machine integers and byte strings\<close>

type_synonym u8 = "8 word"
type_synonym u16 = "16 word"
type_synonym u32 = "32 word"
type_synonym u64 = "64 word"
type_synonym bytes = "u8 list"

text \<open>
  A \<open>Duration\<close> is a number of nanoseconds. Rust's durations are bounded by
  \<open>2\<^sup>6\<^sup>4\<close> seconds, which none of the modelled operations can reach: they only
  subtract, compare, and take constants.
\<close>

type_synonym duration = nat

definition from_millis :: "nat \<Rightarrow> duration" where
  "from_millis n = n * 1000000"

definition from_secs :: "nat \<Rightarrow> duration" where
  "from_secs n = n * 1000000000"

definition as_millis :: "duration \<Rightarrow> nat" where
  "as_millis d = d div 1000000"

definition sat_add :: "'a::len word \<Rightarrow> 'a word \<Rightarrow> 'a word" where
  "sat_add a b = (if unat a + unat b < 2 ^ LENGTH('a) then a + b else - 1)"

definition sat_sub :: "'a::len word \<Rightarrow> 'a word \<Rightarrow> 'a word" where
  "sat_sub a b = (if b \<le> a then a - b else 0)"

text \<open>\<open>u16::try_from(n)\<close> and \<open>u16::try_from(n).unwrap_or(u16::MAX)\<close> on a \<open>usize\<close>.\<close>

definition u16_try_from :: "nat \<Rightarrow> u16 option" where
  "u16_try_from n = (if n < 2 ^ 16 then Some (of_nat n) else None)"

definition u16_or_max :: "nat \<Rightarrow> u16" where
  "u16_or_max n = (case u16_try_from n of Some w \<Rightarrow> w | None \<Rightarrow> 0xFFFF)"

definition u8_or_max :: "nat \<Rightarrow> u8" where
  "u8_or_max n = (if n < 2 ^ 8 then of_nat n else 0xFF)"

section \<open>Fields on the wire\<close>

definition le16 :: "u16 \<Rightarrow> bytes" where
  "le16 w = [ucast w, ucast (drop_bit 8 w)]"

definition from_le16 :: "u8 \<Rightarrow> u8 \<Rightarrow> u16" where
  "from_le16 a b = ucast a OR push_bit 8 (ucast b)"

definition from_be16 :: "u8 \<Rightarrow> u8 \<Rightarrow> u16" where
  "from_be16 a b = push_bit 8 (ucast a) OR ucast b"

definition from_be32 :: "u8 \<Rightarrow> u8 \<Rightarrow> u8 \<Rightarrow> u8 \<Rightarrow> u32" where
  "from_be32 a b c d =
     push_bit 24 (ucast a) OR push_bit 16 (ucast b) OR push_bit 8 (ucast c) OR ucast d"

text \<open>Reading the 16-bit field at offset \<open>i\<close>, for offsets the caller has checked.\<close>

definition u16_at :: "bytes \<Rightarrow> nat \<Rightarrow> u16" where
  "u16_at bs i = from_le16 (bs ! i) (bs ! Suc i)"

lemma length_le16 [simp]: "length (le16 w) = 2"
  by (simp add: le16_def)

lemma le16_not_Nil [simp]: "le16 w \<noteq> []"
  by (simp add: le16_def)

lemma from_le16_le16 [simp]: "from_le16 (ucast w) (ucast (drop_bit 8 w)) = w"
  by (rule bit_word_eqI) (auto simp: from_le16_def bit_simps)

lemma from_le16_split:
  "ucast (from_le16 a b) = a" "ucast (drop_bit 8 (from_le16 a b)) = b"
  by (rule bit_word_eqI; auto simp: from_le16_def bit_simps dest: bit_imp_le_length)+

lemma le16_from_le16 [simp]: "le16 (from_le16 a b) = [a, b]"
  by (simp add: le16_def from_le16_split)

lemma le16_inject [simp]: "le16 v = le16 w \<longleftrightarrow> v = w"
  by (metis from_le16_le16 le16_def list.inject)

lemma u16_at_le16 [wire_simps]:
  "u16_at (le16 w @ bs) 0 = w"
  "2 \<le> i \<Longrightarrow> u16_at (le16 w @ bs) i = u16_at bs (i - 2)"
  by (auto simp: u16_at_def le16_def nth_Cons' numeral_2_eq_2 simp flip: Suc_diff_Suc)

lemma u16_try_from_unat [simp]: "u16_try_from (unat w) = Some (w :: u16)"
  using unsigned_less [of w] by (simp add: u16_try_from_def)

lemma u16_try_from_eq_Some:
  "u16_try_from n = Some w \<longleftrightarrow> n < 2 ^ 16 \<and> w = of_nat n"
  by (auto simp: u16_try_from_def)

lemma unat_of_nat16 [simp]: "n < 65536 \<Longrightarrow> unat (of_nat n :: u16) = n"
  by (simp add: unat_of_nat take_bit_eq_mod)

lemma unat_of_nat8 [simp]: "n < 256 \<Longrightarrow> unat (of_nat n :: u8) = n"
  by (simp add: unat_of_nat take_bit_eq_mod)

lemma bit_below: "\<lbrakk>unat w < 2 ^ k; bit w n\<rbrakk> \<Longrightarrow> n < k"
proof -
  assume "unat w < 2 ^ k" "bit w n"
  then have "take_bit k (unat w) = unat w" "bit (unat w) n"
    by (simp_all add: take_bit_nat_eq_self bit_simps)
  then show "n < k" by (metis bit_take_bit_iff)
qed

section \<open>Saturating arithmetic\<close>

lemma unat_sat_add:
  "unat (sat_add a b :: 'a::len word) = min (unat a + unat b) (2 ^ LENGTH('a) - 1)"
  by (auto simp: sat_add_def unat_word_ariths unsigned_minus_1_eq_mask mask_eq_exp_minus_1)

lemma sat_add_ge: "a \<le> sat_add a (b :: 'a::len word)"
proof -
  have "unat a < 2 ^ LENGTH('a)" by (rule unsigned_less)
  then show ?thesis unfolding word_le_nat_alt unat_sat_add by linarith
qed

lemma unat_sat_sub: "unat (sat_sub a b :: 'a::len word) = unat a - unat b"
  by (auto simp: sat_sub_def unat_sub word_le_nat_alt)

section \<open>Results\<close>

text \<open>
  A \<open>Result<T, E>\<close> is a value of \<open>'e + 't\<close>, \<open>Inl\<close> the error. \<open>bindE\<close> is the \<open>?\<close>
  operator: the first error ends the computation.
\<close>

definition bindE :: "'e + 'a \<Rightarrow> ('a \<Rightarrow> 'e + 'b) \<Rightarrow> 'e + 'b" where
  "bindE r f = (case r of Inl e \<Rightarrow> Inl e | Inr a \<Rightarrow> f a)"

lemma bindE_simps [simp]:
  "bindE (Inl e) f = Inl e"
  "bindE (Inr a) f = f a"
  by (simp_all add: bindE_def)

lemma bindE_eq_Inr: "bindE r f = Inr b \<longleftrightarrow> (\<exists>a. r = Inr a \<and> f a = Inr b)"
  by (cases r) auto

text \<open>
  A method that takes \<open>&mut self\<close> and returns a \<open>Result\<close> keeps what it changed when it
  fails, so it is a function from the state to a result and the state after it.
  \<open>bindS\<close> is \<open>?\<close> for these.
\<close>

type_synonym ('s, 'e, 'a) meth = "'s \<Rightarrow> ('e + 'a) \<times> 's"

definition bindS :: "('s, 'e, 'a) meth \<Rightarrow> ('a \<Rightarrow> ('s, 'e, 'b) meth) \<Rightarrow> ('s, 'e, 'b) meth" where
  "bindS m f s = (case m s of (Inl e, s') \<Rightarrow> (Inl e, s') | (Inr a, s') \<Rightarrow> f a s')"

definition returnS :: "'a \<Rightarrow> ('s, 'e, 'a) meth" where
  "returnS a s = (Inr a, s)"

definition failS :: "'e \<Rightarrow> ('s, 'e, 'a) meth" where
  "failS e s = (Inl e, s)"

definition liftS :: "'e + 'a \<Rightarrow> ('s, 'e, 'a) meth" where
  "liftS r s = (r, s)"

lemmas method_defs = bindS_def returnS_def failS_def liftS_def

section \<open>Tables\<close>

text \<open>
  A \<open>HashMap\<close> is an association list. Its order is the order in which the code iterates over
  the table, which Rust leaves open; a theorem over all tables is a theorem over all orders.
  \<open>tbl_keys\<close> are its keys and \<open>tbl_ok\<close> says that no key occurs twice.
\<close>

type_synonym ('k, 'v) tbl = "('k \<times> 'v) list"

abbreviation tbl_get :: "('k, 'v) tbl \<Rightarrow> 'k \<Rightarrow> 'v option" where
  "tbl_get t k \<equiv> map_of t k"

abbreviation tbl_put :: "'k \<Rightarrow> 'v \<Rightarrow> ('k, 'v) tbl \<Rightarrow> ('k, 'v) tbl" where
  "tbl_put k v t \<equiv> AList.update k v t"

abbreviation tbl_del :: "'k \<Rightarrow> ('k, 'v) tbl \<Rightarrow> ('k, 'v) tbl" where
  "tbl_del k t \<equiv> AList.delete k t"

abbreviation tbl_ok :: "('k, 'v) tbl \<Rightarrow> bool" where
  "tbl_ok t \<equiv> distinct (map fst t)"

lemma tbl_get_put [table_simps]: "tbl_get (tbl_put k v t) k' = (if k' = k then Some v else tbl_get t k')"
  by (simp add: update_conv')

lemma tbl_get_del [table_simps]: "tbl_get (tbl_del k t) k' = (if k' = k then None else tbl_get t k')"
  by (simp add: delete_conv')

lemma tbl_ok_put [table_simps]: "tbl_ok t \<Longrightarrow> tbl_ok (tbl_put k v t)"
  by (rule distinct_update)

lemma tbl_ok_del [table_simps]: "tbl_ok t \<Longrightarrow> tbl_ok (tbl_del k t)"
  by (rule distinct_delete)

lemma tbl_ok_filter [table_simps]: "tbl_ok t \<Longrightarrow> tbl_ok (filter P t)"
  by (metis distinct_map_filter)

lemma tbl_get_filter:
  "tbl_ok t \<Longrightarrow> tbl_get (filter P t) k =
     (case tbl_get t k of None \<Rightarrow> None | Some v \<Rightarrow> if P (k, v) then Some v else None)"
  by (induction t) (auto split: option.splits simp: rev_image_eqI map_of_eq_None_iff)

lemma tbl_get_mem: "tbl_ok t \<Longrightarrow> tbl_get t k = Some v \<longleftrightarrow> (k, v) \<in> set t"
  by (simp add: map_of_eq_Some_iff)

text \<open>Every entry of a table satisfies \<open>P\<close>, and no key occurs twice.\<close>

definition tbl_all :: "('k \<Rightarrow> 'v \<Rightarrow> bool) \<Rightarrow> ('k, 'v) tbl \<Rightarrow> bool" where
  "tbl_all P t \<longleftrightarrow> tbl_ok t \<and> (\<forall>(k, v)\<in>set t. P k v)"

named_theorems table_intros \<open>what keeps every entry of a table well formed\<close>

lemma tbl_all_Nil [simp]: "tbl_all P []"
  by (simp add: tbl_all_def)

lemma tbl_all_get: "\<lbrakk>tbl_all P t; tbl_get t k = Some v\<rbrakk> \<Longrightarrow> P k v"
  by (auto simp: tbl_all_def dest!: map_of_SomeD)

lemma tbl_put_subset: "set (tbl_put k v t) \<subseteq> insert (k, v) (set t)"
  by (induction t) auto

lemma tbl_all_put [table_intros]: "\<lbrakk>tbl_all P t; P k v\<rbrakk> \<Longrightarrow> tbl_all P (tbl_put k v t)"
  using tbl_put_subset [of k v t] by (auto simp: tbl_all_def distinct_update)

lemma tbl_all_del [table_intros]: "tbl_all P t \<Longrightarrow> tbl_all P (tbl_del k t)"
  by (auto simp: tbl_all_def AList.delete_eq distinct_map_filter)

lemma tbl_all_filter [table_intros]: "tbl_all P t \<Longrightarrow> tbl_all P (filter Q t)"
  by (auto simp: tbl_all_def distinct_map_filter)

lemma tbl_all_map [table_intros]:
  "\<lbrakk>tbl_all P t; \<And>k v. P k v \<Longrightarrow> P k (f v)\<rbrakk> \<Longrightarrow> tbl_all P (map (\<lambda>(k, v). (k, f v)) t)"
  by (auto simp: tbl_all_def comp_def case_prod_beta)

section \<open>Streams of encoded items\<close>

text \<open>
  The contract of a decoder that reads one item after the other: nothing is left to read in an
  empty buffer, and an encoded item in front of the rest is read first. It is all a client
  needs to know that any number of items packed together comes out whole.
\<close>

locale stream_codec =
  fixes enc :: "'a \<Rightarrow> bytes"
    and wf :: "'a \<Rightarrow> bool"
    and dec :: "bytes \<Rightarrow> 'e + 'a list"
  assumes dec_Nil: "dec [] = Inr []"
    and dec_step: "wf a \<Longrightarrow> dec (enc a @ rest) = bindE (dec rest) (\<lambda>as. Inr (a # as))"
begin

lemma dec_append: "list_all wf as \<Longrightarrow> dec (concat (map enc as) @ rest) = bindE (dec rest) (\<lambda>bs. Inr (as @ bs))"
proof (induction as)
  case Nil
  then show ?case by (cases "dec rest") simp_all
next
  case (Cons a as)
  then show ?case by (cases "dec rest") (simp_all add: dec_step)
qed

lemma dec_all: "list_all wf as \<Longrightarrow> dec (concat (map enc as)) = Inr as"
  using dec_append [of as "[]"] by (simp add: dec_Nil)

end

section \<open>Components as machines\<close>

text \<open>
  A component whose every operation keeps an invariant, whatever it is asked: then any sequence
  of operations does. \<open>simulation\<close> adds an abstract component that each operation implements.
\<close>

locale machine =
  fixes step :: "'i \<Rightarrow> 's \<Rightarrow> 's"
    and ok :: "'s \<Rightarrow> bool"
  assumes step_ok: "ok s \<Longrightarrow> ok (step i s)"
begin

lemma run_ok: "ok s \<Longrightarrow> ok (fold step is s)"
  by (induction "is" arbitrary: s) (simp_all add: step_ok)

end

locale simulation = machine step ok
  for step :: "'i \<Rightarrow> 's \<Rightarrow> 's" and ok :: "'s \<Rightarrow> bool" +
  fixes view :: "'s \<Rightarrow> 'a"
    and astep :: "'i \<Rightarrow> 'a \<Rightarrow> 'a"
  assumes step_sim: "ok s \<Longrightarrow> view (step i s) = astep i (view s)"
begin

lemma run_sim: "ok s \<Longrightarrow> view (fold step is s) = fold astep is (view s)"
  by (induction "is" arbitrary: s) (simp_all add: step_ok step_sim)

end

end
