(* ===== verification/L2cap_Pdu.thy ===== *)
theory L2cap_Pdu
  imports Prelude
begin

text \<open>
  Channel identifiers, service multiplexers and basic-mode PDUs of
  \<^verbatim>\<open>crates/substrate-l2cap/src/pdu.rs\<close>, and the crate's error type. A \<open>Cid\<close> is its raw
  number; a \<open>Psm\<close> is a raw number that \<open>psm_new\<close> has accepted.
\<close>

type_synonym cid = u16
type_synonym psm = u16

datatype l2cap_error =
    Truncated string nat nat
  | TooLong nat nat
  | InvalidPsm u16
  | UnknownSignalingCode u8
  | UnknownChannel cid
  | WrongState cid string string
  | ConnectionRefused u16 string
  | OutOfCids
  | BadFcs cid u16 u16
  | UnsupportedMode cid u8

definition cid_null :: cid where "cid_null = 0x0000"

definition cid_signaling :: cid where "cid_signaling = 0x0001"

definition cid_connectionless :: cid where "cid_connectionless = 0x0002"

definition dynamic_start :: u16 where "dynamic_start = 0x0040"

definition is_dynamic :: "cid \<Rightarrow> bool" where
  "is_dynamic c \<longleftrightarrow> dynamic_start \<le> c"

text \<open>The odd/bit-8 rule of \<open>Psm::new\<close>.\<close>

definition psm_new :: "u16 \<Rightarrow> l2cap_error + psm" where
  "psm_new raw =
     (if raw AND 0x0001 = 0 \<or> raw AND 0x0100 \<noteq> 0 then Inl (InvalidPsm raw) else Inr raw)"

definition psm_name :: "psm \<Rightarrow> string option" where
  "psm_name p =
     (if p = 0x0001 then Some ''sdp''
      else if p = 0x0003 then Some ''rfcomm''
      else if p = 0x0017 then Some ''avctp''
      else if p = 0x0019 then Some ''avdtp''
      else if p = 0x001B then Some ''avctp-browsing''
      else None)"

record l2cap_pdu =
  pdu_cid :: cid
  pdu_payload :: bytes

definition pdu_header_len :: nat where "pdu_header_len = 4"

definition pdu_encode :: "l2cap_pdu \<Rightarrow> l2cap_error + bytes" where
  "pdu_encode p =
     (case u16_try_from (length (pdu_payload p)) of
        None \<Rightarrow> Inl (TooLong (length (pdu_payload p)) 65535)
      | Some len \<Rightarrow> Inr (le16 len @ le16 (pdu_cid p) @ pdu_payload p))"

definition pdu_decode :: "bytes \<Rightarrow> l2cap_error + l2cap_pdu" where
  "pdu_decode bs =
     (if length bs < pdu_header_len then Inl (Truncated ''l2cap header'' pdu_header_len (length bs))
      else
        let len = unat (u16_at bs 0);
            c = u16_at bs 2;
            body = drop pdu_header_len bs
        in if length body < len then Inl (Truncated ''l2cap payload'' len (length body))
           else Inr \<lparr>pdu_cid = c, pdu_payload = take len body\<rparr>)"

section \<open>Framing is lossless and self-delimiting\<close>

lemma psm_new_valid: "psm_new raw = Inr p \<longleftrightarrow> p = raw \<and> odd raw \<and> \<not> bit raw 8"
proof -
  have "raw AND 1 = 0 \<longleftrightarrow> even raw"
    by (simp add: and_one_eq even_iff_mod_2_eq_zero)
  moreover have "raw AND 0x0100 \<noteq> 0 \<longleftrightarrow> bit raw 8"
    using and_exp_eq_0_iff_not_bit [of raw 8] by simp
  ultimately show ?thesis by (auto simp: psm_new_def)
qed

lemma pdu_decode_header:
  "pdu_decode (le16 len @ le16 c @ body) =
     (if length body < unat len then Inl (Truncated ''l2cap payload'' (unat len) (length body))
      else Inr \<lparr>pdu_cid = c, pdu_payload = take (unat len) body\<rparr>)"
  by (simp add: pdu_decode_def pdu_header_len_def wire_simps Let_def)

lemma pdu_encode_eq_Inr:
  "pdu_encode p = Inr bs \<longleftrightarrow>
     length (pdu_payload p) < 65536 \<and>
     bs = le16 (of_nat (length (pdu_payload p))) @ le16 (pdu_cid p) @ pdu_payload p"
  by (auto simp: pdu_encode_def u16_try_from_def split: option.splits)

text \<open>
  Decoding an encoded PDU, with any bytes after it, gives the PDU back: the length field counts
  the payload alone.
\<close>

lemma pdu_roundtrip: "pdu_encode p = Inr bs \<Longrightarrow> pdu_decode (bs @ rest) = Inr p"
  by (auto simp: pdu_encode_eq_Inr pdu_decode_header)

end
