(* ===== verification/Ertm_Frame.thy ===== *)
theory Ertm_Frame
  imports L2cap_Pdu
begin

text \<open>
  The codec half of \<^verbatim>\<open>crates/substrate-l2cap/src/ertm.rs\<close>: channel modes, the
  Retransmission and Flow Control option, the frame check sequence, and the frames of
  Enhanced Retransmission Mode with their two-byte control field.
\<close>

section \<open>Modes and options\<close>

datatype channel_mode = Basic | EnhancedRetransmission | OtherMode u8

fun mode_bits :: "channel_mode \<Rightarrow> u8" where
  "mode_bits Basic = 0x00"
| "mode_bits EnhancedRetransmission = 0x03"
| "mode_bits (OtherMode raw) = raw"

definition mode_from_bits :: "u8 \<Rightarrow> channel_mode" where
  "mode_from_bits raw =
     (if raw = 0x00 then Basic
      else if raw = 0x03 then EnhancedRetransmission
      else OtherMode raw)"

definition default_tx_window :: u8 where "default_tx_window = 32"
definition default_max_transmit :: u8 where "default_max_transmit = 3"
definition default_retransmission_timeout :: duration where
  "default_retransmission_timeout = from_millis 2000"
definition default_monitor_timeout :: duration where
  "default_monitor_timeout = from_millis 12000"
definition max_overhead :: nat where "max_overhead = 6"

record retransmission_config =
  rc_mode :: channel_mode
  rc_tx_window :: u8
  rc_max_transmit :: u8
  rc_retransmission_timeout_ms :: u16
  rc_monitor_timeout_ms :: u16
  rc_mps :: u16

definition rc_len :: nat where "rc_len = 9"

definition rc_basic :: retransmission_config where
  "rc_basic = \<lparr>rc_mode = Basic, rc_tx_window = 0, rc_max_transmit = 0,
     rc_retransmission_timeout_ms = 0, rc_monitor_timeout_ms = 0, rc_mps = 0\<rparr>"

definition rc_ertm :: "u16 \<Rightarrow> retransmission_config" where
  "rc_ertm mps = \<lparr>rc_mode = EnhancedRetransmission, rc_tx_window = default_tx_window,
     rc_max_transmit = default_max_transmit,
     rc_retransmission_timeout_ms = 0, rc_monitor_timeout_ms = 0, rc_mps = mps\<rparr>"

definition rc_encode :: "retransmission_config \<Rightarrow> bytes" where
  "rc_encode c =
     [mode_bits (rc_mode c), rc_tx_window c, rc_max_transmit c]
     @ le16 (rc_retransmission_timeout_ms c) @ le16 (rc_monitor_timeout_ms c) @ le16 (rc_mps c)"

definition rc_decode :: "bytes \<Rightarrow> l2cap_error + retransmission_config" where
  "rc_decode body =
     (if length body < rc_len
      then Inl (Truncated ''retransmission and flow control option'' rc_len (length body))
      else Inr \<lparr>rc_mode = mode_from_bits (body ! 0), rc_tx_window = body ! 1,
             rc_max_transmit = body ! 2,
             rc_retransmission_timeout_ms = from_le16 (body ! 3) (body ! 4),
             rc_monitor_timeout_ms = from_le16 (body ! 5) (body ! 6),
             rc_mps = from_le16 (body ! 7) (body ! 8)\<rparr>)"

datatype fcs_type = NoFcs | Crc16 | OtherFcs u8

fun fcs_bits :: "fcs_type \<Rightarrow> u8" where
  "fcs_bits NoFcs = 0x00"
| "fcs_bits Crc16 = 0x01"
| "fcs_bits (OtherFcs raw) = raw"

definition fcs_from_bits :: "u8 \<Rightarrow> fcs_type" where
  "fcs_from_bits raw =
     (if raw = 0x00 then NoFcs else if raw = 0x01 then Crc16 else OtherFcs raw)"

definition fcs_is_present :: "fcs_type \<Rightarrow> bool" where
  "fcs_is_present f \<longleftrightarrow> f \<noteq> NoFcs"

section \<open>Frames\<close>

datatype supervisory =
    ReceiverReady | Reject | ReceiverNotReady | SelectiveReject | OtherSupervisory u8

fun supervisory_bits :: "supervisory \<Rightarrow> u8" where
  "supervisory_bits ReceiverReady = 0"
| "supervisory_bits Reject = 1"
| "supervisory_bits ReceiverNotReady = 2"
| "supervisory_bits SelectiveReject = 3"
| "supervisory_bits (OtherSupervisory raw) = raw AND 0x03"

definition supervisory_from_bits :: "u8 \<Rightarrow> supervisory" where
  "supervisory_from_bits raw =
     (let b = raw AND 0x03 in
      if b = 0 then ReceiverReady else if b = 1 then Reject
      else if b = 2 then ReceiverNotReady else SelectiveReject)"

datatype segmentation = Unsegmented | Start | Continuation | End

fun segmentation_bits :: "segmentation \<Rightarrow> u16" where
  "segmentation_bits Unsegmented = 0"
| "segmentation_bits Start = 1"
| "segmentation_bits End = 2"
| "segmentation_bits Continuation = 3"

definition segmentation_from_bits :: "u16 \<Rightarrow> segmentation" where
  "segmentation_from_bits raw =
     (let b = raw AND 0x03 in
      if b = 0 then Unsegmented else if b = 1 then Start
      else if b = 2 then End else Continuation)"

text \<open>
  An I-frame is \<open>Information tx_seq req_seq final_bit sar sdu_len payload\<close>, an S-frame
  \<open>Supervisory function req_seq poll final_bit\<close>.
\<close>

datatype frame =
    Information u8 u8 bool segmentation "u16 option" bytes
  | Supervisory supervisory u8 bool bool

fun frame_req_seq :: "frame \<Rightarrow> u8" where
  "frame_req_seq (Information _ req_seq _ _ _ _) = req_seq"
| "frame_req_seq (Supervisory _ req_seq _ _) = req_seq"

fun frame_final_bit :: "frame \<Rightarrow> bool" where
  "frame_final_bit (Information _ _ final_bit _ _ _) = final_bit"
| "frame_final_bit (Supervisory _ _ _ final_bit) = final_bit"

definition ctrl_frame_type_s :: u16 where "ctrl_frame_type_s = 0x0001"
definition ctrl_tx_seq :: u16 where "ctrl_tx_seq = 0x007E"
definition ctrl_supervisory :: u16 where "ctrl_supervisory = 0x000C"
definition ctrl_poll :: u16 where "ctrl_poll = 0x0010"
definition ctrl_final :: u16 where "ctrl_final = 0x0080"
definition ctrl_req_seq :: u16 where "ctrl_req_seq = 0x3F00"
definition ctrl_sar :: u16 where "ctrl_sar = 0xC000"

lemmas ctrl_defs = ctrl_frame_type_s_def ctrl_tx_seq_def ctrl_supervisory_def ctrl_poll_def
  ctrl_final_def ctrl_req_seq_def ctrl_sar_def

section \<open>The frame check sequence\<close>

text \<open>CRC-16/ARC: one bit of the reflected polynomial, eight bits of a byte, all bytes.\<close>

definition crc16_bit :: "u16 \<Rightarrow> u16" where
  "crc16_bit crc =
     (if crc AND 1 \<noteq> 0 then drop_bit 1 crc XOR 0xA001 else drop_bit 1 crc)"

definition crc16_byte :: "u16 \<Rightarrow> u8 \<Rightarrow> u16" where
  "crc16_byte crc b = (crc16_bit ^^ 8) (crc XOR ucast b)"

definition crc16 :: "bytes \<Rightarrow> u16" where
  "crc16 bs = foldl crc16_byte 0 bs"

section \<open>Encoding and decoding\<close>

definition i_control :: "u8 \<Rightarrow> u8 \<Rightarrow> bool \<Rightarrow> segmentation \<Rightarrow> u16" where
  "i_control tx_seq req_seq final_bit sar =
     (push_bit 1 (ucast tx_seq) AND ctrl_tx_seq)
     OR (push_bit 8 (ucast req_seq) AND ctrl_req_seq)
     OR (push_bit 14 (segmentation_bits sar) AND ctrl_sar)
     OR (if final_bit then ctrl_final else 0)"

definition s_control :: "supervisory \<Rightarrow> u8 \<Rightarrow> bool \<Rightarrow> bool \<Rightarrow> u16" where
  "s_control fn req_seq poll final_bit =
     ctrl_frame_type_s
     OR (push_bit 2 (ucast (supervisory_bits fn)) AND ctrl_supervisory)
     OR (push_bit 8 (ucast req_seq) AND ctrl_req_seq)
     OR (if poll then ctrl_poll else 0)
     OR (if final_bit then ctrl_final else 0)"

fun frame_body :: "frame \<Rightarrow> bytes" where
  "frame_body (Information tx_seq req_seq final_bit sar sdu_len payload) =
     le16 (i_control tx_seq req_seq final_bit sar)
     @ (if sar = Start then le16 (case sdu_len of Some n \<Rightarrow> n | None \<Rightarrow> 0) else [])
     @ payload"
| "frame_body (Supervisory fn req_seq poll final_bit) =
     le16 (s_control fn req_seq poll final_bit)"

text \<open>The checksum covers the basic L2CAP header in front of the bytes it protects.\<close>

definition frame_fcs :: "nat \<Rightarrow> cid \<Rightarrow> bytes \<Rightarrow> u16" where
  "frame_fcs n c body = crc16 (le16 (u16_or_max n) @ le16 c @ body)"

definition frame_encode :: "frame \<Rightarrow> cid \<Rightarrow> fcs_type \<Rightarrow> bytes" where
  "frame_encode f c fcs =
     (let body = frame_body f in
      if \<not> fcs_is_present fcs then body
      else body @ le16 (frame_fcs (length body + 2) c body))"

definition frame_check :: "bytes \<Rightarrow> cid \<Rightarrow> fcs_type \<Rightarrow> l2cap_error + bytes" where
  "frame_check payload c fcs =
     (if fcs_is_present fcs then
        if length payload < 4
        then Inl (Truncated ''ertm frame with fcs'' 4 (length payload))
        else
          let split = length payload - 2;
              claimed = u16_at payload split;
              computed = frame_fcs (length payload) c (take split payload)
          in if computed \<noteq> claimed then Inl (BadFcs c computed claimed)
             else Inr (take split payload)
      else Inr payload)"

definition frame_parse :: "bytes \<Rightarrow> l2cap_error + frame" where
  "frame_parse body =
     (if length body < 2 then Inl (Truncated ''ertm control field'' 2 (length body))
      else
        let control = u16_at body 0;
            req_seq = ucast (drop_bit 8 (control AND ctrl_req_seq)) :: u8;
            final_bit = (control AND ctrl_final \<noteq> 0)
        in
          if control AND ctrl_frame_type_s \<noteq> 0 then
            Inr (Supervisory
              (supervisory_from_bits (ucast (drop_bit 2 (control AND ctrl_supervisory))))
              req_seq (control AND ctrl_poll \<noteq> 0) final_bit)
          else
            let sar = segmentation_from_bits (drop_bit 14 (control AND ctrl_sar));
                tx_seq = ucast (drop_bit 1 (control AND ctrl_tx_seq)) :: u8;
                rest = drop 2 body
            in
              if sar = Start then
                if length rest < 2 then Inl (Truncated ''ertm sdu length'' 2 (length rest))
                else Inr (Information tx_seq req_seq final_bit sar (Some (u16_at rest 0))
                       (drop 2 rest))
              else Inr (Information tx_seq req_seq final_bit sar None rest))"

definition frame_decode :: "bytes \<Rightarrow> cid \<Rightarrow> fcs_type \<Rightarrow> l2cap_error + frame" where
  "frame_decode payload c fcs = bindE (frame_check payload c fcs) frame_parse"

section \<open>The control field\<close>

lemma less_64_bits: "(w :: u8) < 64 \<Longrightarrow> bit w n \<Longrightarrow> n < 6"
  by (rule bit_below [of w]) (simp_all add: word_less_nat_alt)
lemma ctrl_masks:
  "ctrl_tx_seq = push_bit 1 (mask 6)"
  "ctrl_supervisory = push_bit 2 (mask 2)"
  "ctrl_req_seq = push_bit 8 (mask 6)"
  "ctrl_sar = push_bit 14 (mask 2)"
  "ctrl_frame_type_s = 1"
  "ctrl_poll = push_bit 4 1"
  "ctrl_final = push_bit 7 1"
  by (simp_all add: ctrl_defs mask_eq_exp_minus_1)

lemma bit_times_2: "bit (w * 2 :: 'a::len word) n \<longleftrightarrow> 0 < n \<and> n < LENGTH('a) \<and> bit w (n - 1)"
  using bit_double_iff [of w n] by (auto simp: mult.commute)

lemma bit_i_control:
  "bit (i_control tx req f sar) n \<longleftrightarrow>
     (1 \<le> n \<and> n < 7 \<and> bit tx (n - 1)) \<or> (8 \<le> n \<and> n < 14 \<and> bit req (n - 8))
     \<or> (14 \<le> n \<and> n < 16 \<and> bit (segmentation_bits sar) (n - 14)) \<or> (f \<and> n = 7)"
proof -
  consider "n = 0" | "0 < n \<and> n < 7" | "n = 7" | "8 \<le> n \<and> n < 14" | "14 \<le> n \<and> n < 16" | "16 \<le> n"
    by linarith
  then show ?thesis
    by cases (auto simp add: i_control_def ctrl_masks bit_simps bit_times_2 simp del: push_bit_of_1 dest: bit_imp_le_length)
qed
lemma bit_s_control:
  "bit (s_control fn req p f) n \<longleftrightarrow>
     n = 0 \<or> (2 \<le> n \<and> n < 4 \<and> bit (supervisory_bits fn) (n - 2)) \<or> (8 \<le> n \<and> n < 14 \<and> bit req (n - 8))
     \<or> (p \<and> n = 4) \<or> (f \<and> n = 7)"
proof -
  consider "n = 0" | "n = 1" | "2 \<le> n \<and> n < 4" | "n = 4" | "4 < n \<and> n < 7" | "n = 7" | "8 \<le> n \<and> n < 14" | "14 \<le> n \<and> n < 16" | "16 \<le> n"
    by linarith
  then show ?thesis
    by cases (auto simp add: s_control_def ctrl_masks bit_simps simp del: push_bit_of_1 dest: bit_imp_le_length)
qed

lemma and_push1: "w AND push_bit n 1 \<noteq> 0 \<longleftrightarrow> bit (w :: u16) n"
  by (metis and_exp_eq_0_iff_not_bit push_bit_of_1)

lemma seg_bits_small: "bit (segmentation_bits sar) n \<Longrightarrow> n < 2"
proof -
  have "take_bit 2 (segmentation_bits sar) = segmentation_bits sar" by (cases sar) simp_all
  then show "bit (segmentation_bits sar) n \<Longrightarrow> n < 2" by (metis bit_take_bit_iff)
qed

lemma i_control_fields:
  "\<not> bit (i_control tx req f sar) 0"
  "i_control tx req f sar AND ctrl_final \<noteq> 0 \<longleftrightarrow> f"
  "tx < 64 \<Longrightarrow> ucast (drop_bit 1 (i_control tx req f sar AND ctrl_tx_seq)) = tx"
  "req < 64 \<Longrightarrow> ucast (drop_bit 8 (i_control tx req f sar AND ctrl_req_seq)) = req"
  "drop_bit 14 (i_control tx req f sar AND ctrl_sar) = segmentation_bits sar"
  apply (simp add: bit_i_control)
  apply (simp add: bit_i_control ctrl_masks and_push1 del: push_bit_of_1)
  apply (rule bit_word_eqI; auto simp: bit_simps bit_i_control ctrl_masks bit_times_2 dest: less_64_bits; fail)
  apply (rule bit_word_eqI; auto simp: bit_simps bit_i_control ctrl_masks bit_times_2 dest: less_64_bits; fail)
  apply (rule bit_word_eqI; auto simp: bit_simps bit_i_control ctrl_masks bit_times_2 dest: seg_bits_small; fail)
  done

lemma supervisory_small: "take_bit 2 (supervisory_bits fn) = supervisory_bits fn"
  by (cases fn) (simp_all add: take_bit_eq_mask mask_eq_exp_minus_1 and.assoc)

lemma s_control_fields:
  "bit (s_control fn req p f) 0"
  "s_control fn req p f AND ctrl_final \<noteq> 0 \<longleftrightarrow> f"
  "s_control fn req p f AND ctrl_poll \<noteq> 0 \<longleftrightarrow> p"
  "req < 64 \<Longrightarrow> ucast (drop_bit 8 (s_control fn req p f AND ctrl_req_seq)) = req"
  "ucast (drop_bit 2 (s_control fn req p f AND ctrl_supervisory)) = supervisory_bits fn"
  apply (simp add: bit_s_control)
  apply (simp add: bit_s_control ctrl_masks and_push1 del: push_bit_of_1)
  apply (simp add: bit_s_control ctrl_masks and_push1 del: push_bit_of_1)
  apply (rule bit_word_eqI; auto simp: bit_simps bit_s_control ctrl_masks dest: less_64_bits; fail)
  apply (subst supervisory_small [symmetric], rule bit_word_eqI; auto simp: bit_simps bit_s_control ctrl_masks; fail)
  done

section \<open>The checksum is injective in each byte and in each 16-bit field\<close>

lemma xor_cancel: "v XOR u = w XOR (u :: 'a::len word) \<Longrightarrow> v = w"
proof -
  assume "v XOR u = w XOR u"
  then have "(v XOR u) XOR u = (w XOR u) XOR u" by simp
  then show "v = w" by (simp add: xor.assoc)
qed

lemma ucast_u8_u16_eq: "(ucast (b :: u8) :: u16) = ucast c \<Longrightarrow> b = c"
proof (rule bit_word_eqI)
  fix n assume "(ucast b :: u16) = ucast c" and n: "n < LENGTH(8)"
  then have "bit (ucast b :: u16) n = bit (ucast c :: u16) n" by simp
  with n show "bit b n = bit c n" by (simp add: bit_simps)
qed

lemma crc16_bit_eq: "crc16_bit v = crc16_bit w \<Longrightarrow> v = w"
proof (rule bit_word_eqI)
  fix n assume eq: "crc16_bit v = crc16_bit w" and n: "n < LENGTH(16)"
  have top: "bit (crc16_bit u) 15 = bit u 0" for u
    using bit_imp_le_length [of u 16]
    by (auto simp: crc16_bit_def and_one_eq bit_simps bit_0 odd_iff_mod_2_eq_one)
  have b0: "bit v 0 = bit w 0" using top [of v] top [of w] eq by simp
  show "bit v n = bit w n"
  proof (cases n)
    case 0 with b0 show ?thesis by simp
  next
    case (Suc m)
    have "drop_bit 1 v = drop_bit 1 w"
      using eq b0 by (auto simp: crc16_bit_def and_one_eq bit_0 odd_iff_mod_2_eq_one split: if_splits dest: xor_cancel)
    then have "bit (drop_bit 1 v) m = bit (drop_bit 1 w) m" by simp
    with Suc show ?thesis by (simp add: bit_simps)
  qed
qed

lemma crc16_bits_eq: "(crc16_bit ^^ n) v = (crc16_bit ^^ n) w \<Longrightarrow> v = w"
  by (induction n) (auto dest: crc16_bit_eq)

lemma crc16_byte_eq_crc: "crc16_byte v b = crc16_byte w b \<Longrightarrow> v = w"
  unfolding crc16_byte_def by (drule crc16_bits_eq) (rule xor_cancel)

lemma crc16_byte_eq_byte: "crc16_byte v b = crc16_byte v c \<Longrightarrow> b = c"
  unfolding crc16_byte_def
  by (drule crc16_bits_eq) (auto simp: xor.commute [of v] dest: xor_cancel ucast_u8_u16_eq)

lemma crc16_foldl_eq: "foldl crc16_byte v bs = foldl crc16_byte w bs \<Longrightarrow> v = w"
  by (induction bs arbitrary: v w) (auto dest: crc16_byte_eq_crc)

lemma crc16_bit_xor: "crc16_bit (v XOR w) = crc16_bit v XOR crc16_bit w"
proof -
  have par: "(v XOR w) AND 1 \<noteq> 0 \<longleftrightarrow> (v AND 1 \<noteq> 0) \<noteq> (w AND 1 \<noteq> 0)"
    by (simp add: and_one_eq even_xor_iff flip: even_iff_mod_2_eq_zero odd_iff_mod_2_eq_one)
  show ?thesis
    by (cases "v AND 1 = 0"; cases "w AND 1 = 0")
      (use par in \<open>simp_all add: crc16_bit_def xor.assoc xor.commute xor.left_commute\<close>)
qed

lemma crc16_bits_xor: "(crc16_bit ^^ n) (v XOR w) = (crc16_bit ^^ n) v XOR (crc16_bit ^^ n) w"
  by (induction n) (simp_all add: crc16_bit_xor)

lemma bit_ucast_push: "bit (push_bit k (ucast (b :: u8)) :: u16) i \<longleftrightarrow> i < 16 \<and> k \<le> i \<and> i - k < 8 \<and> bit b (i - k)"
  by (auto simp: bit_simps dest: bit_imp_le_length)

lemma crc16_bits_high: "n \<le> 8 \<Longrightarrow> (crc16_bit ^^ n) (push_bit 8 (ucast (b :: u8))) = push_bit (8 - n) (ucast b)"
proof (induction n)
  case (Suc n)
  then have "push_bit (8 - n) (ucast b) AND (1 :: u16) = 0"
    by (intro bit_word_eqI) (auto simp: bit_simps)
  moreover have "drop_bit 1 (push_bit (8 - n) (ucast b)) = (push_bit (8 - Suc n) (ucast b) :: u16)"
  proof (rule bit_word_eqI)
    fix i
    have "Suc i - (8 - n) = i - (8 - Suc n)" if "8 - n \<le> Suc i" using that Suc.prems by linarith
    then show "bit (drop_bit 1 (push_bit (8 - n) (ucast b)) :: u16) i =
        bit (push_bit (8 - Suc n) (ucast b) :: u16) i"
      using Suc.prems unfolding bit_drop_bit_eq comp_def bit_ucast_push by auto
  qed
  ultimately show ?case using Suc by (simp add: crc16_bit_def)
qed simp

lemma crc16_le16:
  "crc16_byte (crc16_byte v (ucast w)) (ucast (drop_bit 8 w)) = (crc16_bit ^^ 16) (v XOR w)"
proof -
  have w: "w = ucast (ucast w :: u8) XOR push_bit 8 (ucast (ucast (drop_bit 8 w) :: u8))" for w :: u16
    by (rule bit_word_eqI) (auto simp: bit_simps)
  have "(crc16_bit ^^ 16) (v XOR w) = (crc16_bit ^^ 8) ((crc16_bit ^^ 8) (v XOR w))"
    by (simp flip: funpow_add [THEN fun_cong, simplified comp_def])
  also have "(crc16_bit ^^ 8) (v XOR w) =
      (crc16_bit ^^ 8) (v XOR ucast (ucast w :: u8)) XOR ucast (ucast (drop_bit 8 w) :: u8)"
    by (subst w) (simp only: xor.assoc [symmetric] crc16_bits_xor crc16_bits_high [of 8, simplified])
  finally show ?thesis by (simp add: crc16_byte_def)
qed

section \<open>Round trips\<close>

lemma seg_from_bits [simp]: "segmentation_from_bits (segmentation_bits sar) = sar"
  by (cases sar) (simp_all add: segmentation_from_bits_def)

lemma mode_from_bits_mode_bits:
  "mode_from_bits (mode_bits m) = m \<longleftrightarrow> m \<noteq> OtherMode 0 \<and> m \<noteq> OtherMode 3"
  by (cases m) (auto simp: mode_from_bits_def)

lemma mode_bits_mode_from_bits [simp]: "mode_bits (mode_from_bits b) = b"
  by (simp add: mode_from_bits_def)

lemma rc_decode_encode:
  assumes "mode_from_bits (mode_bits (rc_mode c)) = rc_mode c"
  shows "rc_decode (rc_encode c @ rest) = Inr c"
  using assms by (simp add: rc_decode_def rc_encode_def rc_len_def le16_def)

text \<open>
  The frames the engine builds: sequence numbers of six bits, an SDU length exactly on a
  start frame, and one of the four supervisory functions.
\<close>

fun frame_wf :: "frame \<Rightarrow> bool" where
  "frame_wf (Information tx_seq req_seq _ sar sdu_len _) \<longleftrightarrow>
     tx_seq < 64 \<and> req_seq < 64 \<and> (sdu_len \<noteq> None \<longleftrightarrow> sar = Start)"
| "frame_wf (Supervisory fn req_seq _ _) \<longleftrightarrow>
     req_seq < 64 \<and> (\<forall>raw. fn \<noteq> OtherSupervisory raw)"

lemma sup_from_bits: "(\<forall>raw. fn \<noteq> OtherSupervisory raw) \<Longrightarrow> supervisory_from_bits (supervisory_bits fn) = fn"
  by (cases fn) (simp_all add: supervisory_from_bits_def)

lemma and_type_s: "w AND ctrl_frame_type_s \<noteq> 0 \<longleftrightarrow> bit w 0"
  by (simp add: ctrl_masks and_one_eq bit_0 odd_iff_mod_2_eq_one)

lemma u16_at_le16_alone [simp]: "u16_at (le16 w) 0 = w"
  using u16_at_le16(1) [of w "[]"] by simp

lemma frame_parse_body: "frame_wf f \<Longrightarrow> frame_parse (frame_body f) = Inr f"
proof (cases f)
  case (Information tx req fin sar len payload)
  assume wf: "frame_wf f"
  have d: "drop 2 (le16 w @ xs) = xs" for w xs by (simp add: le16_def)
  show ?thesis
  proof (cases "sar = Start")
    case True
    with wf Information show ?thesis
      by (auto simp: frame_parse_def Let_def u16_at_le16 d and_type_s i_control_fields simp del: drop_bit_and One_nat_def segmentation_bits.simps)
  next
    case False
    with wf Information show ?thesis
      by (auto simp: frame_parse_def Let_def u16_at_le16 d and_type_s i_control_fields simp del: drop_bit_and One_nat_def segmentation_bits.simps)
  qed
next
  case (Supervisory fn req p fin)
  assume "frame_wf f"
  with Supervisory show ?thesis
    by (simp add: frame_parse_def Let_def and_type_s s_control_fields sup_from_bits del: drop_bit_and)
qed

lemma u16_at_end: "u16_at (xs @ le16 w) (length xs) = w"
  by (simp add: u16_at_def le16_def nth_append)

lemma length_frame_body: "2 \<le> length (frame_body f)"
  by (cases f) simp_all

lemma frame_check_encode: "frame_check (frame_encode f c fcs) c fcs = Inr (frame_body f)"
  using length_frame_body [of f]
  by (simp add: frame_check_def frame_encode_def Let_def u16_at_end)

text \<open>
  C5. A frame the sender can build decodes on the other side to the frame that was encoded,
  with the frame check sequence and without it, whatever the channel.
\<close>

theorem frame_roundtrip:
  "frame_wf f \<Longrightarrow> frame_decode (frame_encode f c fcs) c fcs = Inr f"
  by (simp add: frame_decode_def frame_check_encode frame_parse_body)

theorem frame_roundtrip_witness:
  "frame_decode (frame_encode (Information 63 5 True Start (Some 700) [1, 2, 3]) 0x41 Crc16) 0x41 Crc16
     = Inr (Information 63 5 True Start (Some 700) [1, 2, 3])"
  by (rule frame_roundtrip) simp

section \<open>What the checksum catches\<close>

lemma crc16_update_eq:
  assumes "i < length bs" "crc16 (bs[i := x]) = crc16 bs"
  shows "bs[i := x] = bs"
proof -
  have "foldl crc16_byte 0 (take i bs @ x # drop (Suc i) bs) = foldl crc16_byte 0 (take i bs @ bs ! i # drop (Suc i) bs)"
    using assms by (simp add: crc16_def upd_conv_take_nth_drop id_take_nth_drop [symmetric])
  then have "crc16_byte (foldl crc16_byte 0 (take i bs)) x = crc16_byte (foldl crc16_byte 0 (take i bs)) (bs ! i)"
    by (auto dest: crc16_foldl_eq)
  then show ?thesis by (auto dest: crc16_byte_eq_byte)
qed

lemma frame_fcs_update_eq:
  "\<lbrakk>i < length body; frame_fcs n c (body[i := x]) = frame_fcs n c body\<rbrakk> \<Longrightarrow> body[i := x] = body"
  unfolding frame_fcs_def
  using crc16_update_eq [of "4 + i" "le16 (u16_or_max n) @ le16 c @ body" x]
  by (simp add: list_update_append)

lemma u16_at_update:
  "\<lbrakk>Suc i < length bs; j = i \<or> j = Suc i; u16_at (bs[j := x]) i = u16_at bs i\<rbrakk> \<Longrightarrow> x = bs ! j"
  unfolding u16_at_def using le16_from_le16 [of "bs[j := x] ! i" "bs[j := x] ! Suc i"]
  by (auto simp: nth_list_update simp del: le16_from_le16 split: if_splits) (metis le16_from_le16 list.inject)+

text \<open>
  C6. On a channel with a frame check sequence, a frame of which one byte changed on the way,
  a byte of the checksum included, is refused as corrupt. It is never taken for another frame.
\<close>

theorem frame_corruption_detected:
  assumes "fcs_is_present fcs" and i: "i < length (frame_encode f c fcs)"
    and x: "x \<noteq> frame_encode f c fcs ! i"
  shows "\<exists>computed claimed. frame_decode ((frame_encode f c fcs)[i := x]) c fcs = Inl (BadFcs c computed claimed)"
proof -
  define b where "b = frame_body f"
  define w where "w = frame_fcs (length b + 2) c b"
  have e: "frame_encode f c fcs = b @ le16 w"
    using assms(1) by (simp add: frame_encode_def Let_def b_def w_def)
  have l: "2 \<le> length b" unfolding b_def by (rule length_frame_body)
  let ?p = "(b @ le16 w)[i := x]"
  have "frame_fcs (length b + 2) c (take (length b) ?p) \<noteq> u16_at ?p (length b)"
  proof (cases "i < length b")
    case True
    then have "frame_fcs (length b + 2) c (b[i := x]) \<noteq> w"
      using x frame_fcs_update_eq [of i b "length b + 2" c x] unfolding w_def e
      by (metis nth_append nth_list_update_eq)
    with True show ?thesis by (simp add: list_update_append u16_at_end [of "b[i := x]", simplified])
  next
    case False
    then have j: "i = length b \<or> i = Suc (length b)" using i e by auto
    have "u16_at ?p (length b) \<noteq> u16_at (b @ le16 w) (length b)"
      using u16_at_update [of "length b" "b @ le16 w" i x] j x e by auto
    with False show ?thesis by (simp add: u16_at_end list_update_append w_def)
  qed
  with l show ?thesis using assms(1)
    by (simp add: frame_decode_def frame_check_def Let_def e)
qed

theorem frame_corruption_detected_witness:
  "\<exists>computed claimed. frame_decode
     ((frame_encode (Supervisory ReceiverReady 5 True False) 0x41 Crc16)[0 := 0x51]) 0x41 Crc16
     = Inl (BadFcs 0x41 computed claimed)"
  by (rule frame_corruption_detected)
    (simp_all add: fcs_is_present_def frame_encode_def Let_def le16_def s_control_def ctrl_defs)

text \<open>
  The checksum covers the channel: a frame that arrives on another channel than it was
  encoded for is refused, so a frame delivered to the wrong identifier is never acted on.
\<close>

theorem frame_wrong_channel:
  assumes "fcs_is_present fcs" "c' \<noteq> c"
  shows "\<exists>computed claimed. frame_decode (frame_encode f c fcs) c' fcs = Inl (BadFcs c' computed claimed)"
proof -
  define b where "b = frame_body f"
  have l: "2 \<le> length b" unfolding b_def by (rule length_frame_body)
  have "frame_fcs n c' b \<noteq> frame_fcs n c b" for n
  proof
    assume "frame_fcs n c' b = frame_fcs n c b"
    then have "(crc16_bit ^^ 16) (v XOR c') = (crc16_bit ^^ 16) (v XOR c)"
      if "v = foldl crc16_byte 0 (le16 (u16_or_max n))" for v
      using that by (auto simp: frame_fcs_def crc16_def le16_def crc16_le16 dest!: crc16_foldl_eq)
    then have "foldl crc16_byte 0 (le16 (u16_or_max n)) XOR c' = foldl crc16_byte 0 (le16 (u16_or_max n)) XOR c"
      by (blast dest: crc16_bits_eq)
    then show False using assms(2) by (metis xor.commute xor_cancel)
  qed
  with l show ?thesis using assms(1)
    by (simp add: frame_decode_def frame_check_def frame_encode_def Let_def b_def u16_at_end)
qed

theorem frame_wrong_channel_witness:
  "\<exists>computed claimed. frame_decode
     (frame_encode (Supervisory ReceiverReady 5 True False) 0x41 Crc16) 0x42 Crc16
     = Inl (BadFcs 0x42 computed claimed)"
  by (rule frame_wrong_channel) (simp_all add: fcs_is_present_def)

end
