(* ===== verification/Ertm_Engine.thy ===== *)
theory Ertm_Engine
  imports Ertm_Frame
begin

text \<open>
  The engine half of \<^verbatim>\<open>crates/substrate-l2cap/src/ertm.rs\<close>: one channel of Enhanced
  Retransmission Mode. Its transmit side segments SDUs, numbers the segments modulo 64, keeps
  what is unacknowledged and retransmits it; its receive side acknowledges, asks for missing
  frames once, and puts SDUs back together.
\<close>

section \<open>State\<close>

record ertm_parameters =
  ep_local_cid :: cid
  ep_remote_cid :: cid
  ep_fcs :: fcs_type
  ep_send_mps :: u16
  ep_send_window :: u8
  ep_max_transmit :: u8
  ep_retransmission_timeout :: duration
  ep_monitor_timeout :: duration
  ep_local_mtu :: u16

record ertm_output =
  out_frames :: "bytes list"
  out_sdus :: "bytes list"
  out_failed :: bool

definition out_default :: ertm_output where
  "out_default = \<lparr>out_frames = [], out_sdus = [], out_failed = False\<rparr>"

definition out_is_empty :: "ertm_output \<Rightarrow> bool" where
  "out_is_empty out \<longleftrightarrow> out_frames out = [] \<and> out_sdus out = [] \<and> \<not> out_failed out"

definition push_frame :: "bytes \<Rightarrow> ertm_output \<Rightarrow> ertm_output" where
  "push_frame p out = out\<lparr>out_frames := out_frames out @ [p]\<rparr>"

definition push_sdu :: "bytes \<Rightarrow> ertm_output \<Rightarrow> ertm_output" where
  "push_sdu p out = out\<lparr>out_sdus := out_sdus out @ [p]\<rparr>"

record unacked =
  un_tx_seq :: u8
  un_sar :: segmentation
  un_sdu_len :: "u16 option"
  un_payload :: bytes
  un_transmissions :: u8

record reassembly =
  re_expected :: nat
  re_buffer :: bytes

record ertm =
  e_params :: ertm_parameters
  e_next_tx_seq :: u8
  e_unacked :: "unacked list"
  e_queued :: "unacked list"
  e_remote_busy :: bool
  e_polls :: u8
  e_waiting_for_final :: bool
  e_retransmission_timer :: "duration option"
  e_monitor_timer :: "duration option"
  e_expected_tx_seq :: u8
  e_rejected :: bool
  e_reassembly :: "reassembly option"
  e_discarded :: u32

definition ertm_new :: "ertm_parameters \<Rightarrow> ertm" where
  "ertm_new params = \<lparr>e_params = params, e_next_tx_seq = 0, e_unacked = [], e_queued = [],
     e_remote_busy = False, e_polls = 0, e_waiting_for_final = False,
     e_retransmission_timer = None, e_monitor_timer = None, e_expected_tx_seq = 0,
     e_rejected = False, e_reassembly = None, e_discarded = 0\<rparr>"

definition seq_modulo :: u8 where "seq_modulo = 64"

definition next_seq :: "u8 \<Rightarrow> u8" where
  "next_seq s = (s + 1) mod seq_modulo"

definition distance :: "u8 \<Rightarrow> u8 \<Rightarrow> u8" where
  "distance a b = (b + seq_modulo - a) mod seq_modulo"

section \<open>Transmit side\<close>

definition encode_information :: "ertm \<Rightarrow> unacked \<Rightarrow> bool \<Rightarrow> bytes" where
  "encode_information e f final_bit =
     frame_encode (Information (un_tx_seq f) (e_expected_tx_seq e) final_bit (un_sar f)
       (un_sdu_len f) (un_payload f)) (ep_remote_cid (e_params e)) (ep_fcs (e_params e))"

definition e_supervisory :: "ertm \<Rightarrow> supervisory \<Rightarrow> bool \<Rightarrow> bool \<Rightarrow> bytes" where
  "e_supervisory e fn poll final_bit =
     frame_encode (Supervisory fn (e_expected_tx_seq e) poll final_bit)
       (ep_remote_cid (e_params e)) (ep_fcs (e_params e))"

definition arm_timers :: "ertm \<Rightarrow> ertm" where
  "arm_timers e =
     (if e_unacked e = [] then e\<lparr>e_retransmission_timer := None\<rparr>
      else if e_retransmission_timer e = None \<and> e_monitor_timer e = None
      then e\<lparr>e_retransmission_timer := Some (ep_retransmission_timeout (e_params e))\<rparr>
      else e)"

text \<open>The loop of \<open>pump\<close>: number, send and remember frames while the window has room.\<close>

function pump_loop :: "ertm \<Rightarrow> ertm_output \<Rightarrow> ertm \<times> ertm_output" where
  "pump_loop e out =
     (if length (e_unacked e) < unat (ep_send_window (e_params e)) then
        case e_queued e of
          [] \<Rightarrow> (e, out)
        | f # queued \<Rightarrow>
            let f = f\<lparr>un_tx_seq := e_next_tx_seq e, un_transmissions := 1\<rparr>;
                e = e\<lparr>e_queued := queued, e_next_tx_seq := next_seq (e_next_tx_seq e)\<rparr>;
                out = push_frame (encode_information e f False) out
            in pump_loop (e\<lparr>e_unacked := e_unacked e @ [f]\<rparr>) out
      else (e, out))"
  by pat_completeness auto
termination by (relation "measure (\<lambda>(e, _). length (e_queued e))") auto

declare pump_loop.simps [simp del]

definition pump :: "ertm \<Rightarrow> ertm_output \<Rightarrow> ertm \<times> ertm_output" where
  "pump e out =
     (if e_remote_busy e \<or> e_waiting_for_final e then (e, out)
      else case pump_loop e out of (e, out) \<Rightarrow> (arm_timers e, out))"

text \<open>
  The segments of an SDU longer than one frame: the ones after the first, from \<open>offset\<close>, and
  all of them. \<open>send\<close> treats an MPS of zero as one.
\<close>

definition effective_mps :: "u16 \<Rightarrow> nat" where
  "effective_mps send_mps = max (unat send_mps) 1"

definition segment :: "segmentation \<Rightarrow> u16 option \<Rightarrow> bytes \<Rightarrow> unacked" where
  "segment sar sdu_len payload = \<lparr>un_tx_seq = 0, un_sar = sar, un_sdu_len = sdu_len,
     un_payload = payload, un_transmissions = 0\<rparr>"

function segments_from :: "u16 \<Rightarrow> bytes \<Rightarrow> nat \<Rightarrow> unacked list" where
  "segments_from send_mps sdu offset =
     (if offset < length sdu then
        let stop = min (offset + effective_mps send_mps) (length sdu);
            sar = (if stop = length sdu then End else Continuation)
        in segment sar None (take (stop - offset) (drop offset sdu)) # segments_from send_mps sdu stop
      else [])"
  by pat_completeness auto
termination
  by (relation "measure (\<lambda>(_, sdu, offset). length sdu - offset)") (auto simp: effective_mps_def)

declare segments_from.simps [simp del]

definition segments :: "u16 \<Rightarrow> bytes \<Rightarrow> u16 \<Rightarrow> unacked list" where
  "segments send_mps sdu sdu_total =
     (let mps = effective_mps send_mps in
      if length sdu \<le> mps then [segment Unsegmented None sdu]
      else
        let offset = min (max (mps - 2) 1) (length sdu)
        in segment Start (Some sdu_total) (take offset sdu) # segments_from send_mps sdu offset)"

definition send :: "bytes \<Rightarrow> (ertm, l2cap_error, ertm_output) meth" where
  "send sdu e =
     (case u16_try_from (length sdu) of
        None \<Rightarrow> (Inl (TooLong (length sdu) 65535), e)
      | Some sdu_total \<Rightarrow>
          (case pump (e\<lparr>e_queued := e_queued e @ segments (ep_send_mps (e_params e)) sdu sdu_total\<rparr>)
                  out_default of
             (e, out) \<Rightarrow> (Inr out, e)))"

section \<open>Retransmission\<close>

fun set_transmissions :: "u8 \<Rightarrow> u8 \<Rightarrow> unacked list \<Rightarrow> unacked list" where
  "set_transmissions tx_seq n [] = []"
| "set_transmissions tx_seq n (f # fs) =
     (if un_tx_seq f = tx_seq then f\<lparr>un_transmissions := n\<rparr> # fs
      else f # set_transmissions tx_seq n fs)"

definition retransmit :: "unacked \<Rightarrow> ertm \<times> ertm_output \<Rightarrow> ertm \<times> ertm_output" where
  "retransmit f s =
     (case s of (e, out) \<Rightarrow>
        let attempts = sat_add (un_transmissions f) 1 in
        if ep_max_transmit (e_params e) < attempts then (e, out\<lparr>out_failed := True\<rparr>)
        else
          let e = e\<lparr>e_unacked := set_transmissions (un_tx_seq f) attempts (e_unacked e)\<rparr>;
              out = push_frame (encode_information e f False) out
          in (e\<lparr>e_retransmission_timer := Some (ep_retransmission_timeout (e_params e))\<rparr>, out))"

definition retransmit_all :: "ertm \<times> ertm_output \<Rightarrow> ertm \<times> ertm_output" where
  "retransmit_all s = fold retransmit (e_unacked (fst s)) s"

definition retransmit_one :: "u8 \<Rightarrow> ertm \<times> ertm_output \<Rightarrow> ertm \<times> ertm_output" where
  "retransmit_one tx_seq s =
     (case find (\<lambda>f. un_tx_seq f = tx_seq) (e_unacked (fst s)) of
        Some f \<Rightarrow> retransmit f s
      | None \<Rightarrow> s)"

section \<open>Receive side\<close>

definition acknowledged :: "u8 \<Rightarrow> unacked \<Rightarrow> bool" where
  "acknowledged req_seq f \<longleftrightarrow>
     \<not> (distance (un_tx_seq f) req_seq = 0 \<or> seq_modulo div 2 < distance (un_tx_seq f) req_seq)"

definition acknowledge :: "u8 \<Rightarrow> ertm \<Rightarrow> ertm" where
  "acknowledge req_seq e =
     (let e = e\<lparr>e_unacked := dropWhile (acknowledged req_seq) (e_unacked e)\<rparr>
      in if e_unacked e = [] then e\<lparr>e_retransmission_timer := None\<rparr> else e)"

definition on_supervisory ::
    "supervisory \<Rightarrow> u8 \<Rightarrow> bool \<Rightarrow> ertm \<times> ertm_output \<Rightarrow> ertm \<times> ertm_output" where
  "on_supervisory fn req_seq poll s =
     (let (e, out) =
        (case fn of
           ReceiverNotReady \<Rightarrow> (fst s\<lparr>e_remote_busy := True\<rparr>, snd s)
         | ReceiverReady \<Rightarrow> (fst s\<lparr>e_remote_busy := False\<rparr>, snd s)
         | Reject \<Rightarrow> retransmit_all (fst s\<lparr>e_remote_busy := False\<rparr>, snd s)
         | SelectiveReject \<Rightarrow> retransmit_one req_seq (fst s\<lparr>e_remote_busy := False\<rparr>, snd s)
         | OtherSupervisory _ \<Rightarrow> s)
      in if poll then (e, push_frame (e_supervisory e ReceiverReady False True) out)
         else (e, out))"

definition discard :: "ertm \<Rightarrow> ertm" where
  "discard e = e\<lparr>e_discarded := sat_add (e_discarded e) 1\<rparr>"

text \<open>What \<open>on_information\<close> does with the payload of a frame that is in sequence.\<close>

definition reassemble ::
    "segmentation \<Rightarrow> u16 option \<Rightarrow> bytes \<Rightarrow> ertm \<times> ertm_output \<Rightarrow> ertm \<times> ertm_output" where
  "reassemble sar sdu_len payload s =
     (case s of (e, out) \<Rightarrow>
        if sar = Unsegmented then (e\<lparr>e_reassembly := None\<rparr>, push_sdu payload out)
        else if sar = Start then
          let expected = (case sdu_len of Some n \<Rightarrow> unat n | None \<Rightarrow> 0) in
          if unat (ep_local_mtu (e_params e)) < expected
          then ((discard e)\<lparr>e_reassembly := None\<rparr>, out)
          else (e\<lparr>e_reassembly := Some \<lparr>re_expected = expected, re_buffer = payload\<rparr>\<rparr>, out)
        else
          case e_reassembly e of
            None \<Rightarrow> (discard e, out)
          | Some st \<Rightarrow>
              let st = st\<lparr>re_buffer := re_buffer st @ payload\<rparr> in
              if sar = End then
                let e = e\<lparr>e_reassembly := None\<rparr> in
                if length (re_buffer st) = re_expected st
                then (e, push_sdu (re_buffer st) out)
                else (discard e, out)
              else (e\<lparr>e_reassembly := Some st\<rparr>, out))"

definition on_information ::
    "u8 \<Rightarrow> segmentation \<Rightarrow> u16 option \<Rightarrow> bytes \<Rightarrow> ertm \<times> ertm_output \<Rightarrow> ertm \<times> ertm_output" where
  "on_information tx_seq sar sdu_len payload s =
     (case s of (e, out) \<Rightarrow>
        if tx_seq \<noteq> e_expected_tx_seq e then
          if \<not> e_rejected e \<and> distance (e_expected_tx_seq e) tx_seq < seq_modulo div 2
          then let e = e\<lparr>e_rejected := True\<rparr>
               in (e, push_frame (e_supervisory e Reject False False) out)
          else (e, push_frame (e_supervisory e ReceiverReady False False) out)
        else
          let e = e\<lparr>e_rejected := False, e_expected_tx_seq := next_seq (e_expected_tx_seq e)\<rparr>;
              (e, out) = reassemble sar sdu_len payload (e, out)
          in (e, push_frame (e_supervisory e ReceiverReady False False) out))"

definition names_its_own :: "frame \<Rightarrow> bool" where
  "names_its_own f \<longleftrightarrow>
     (case f of Supervisory fn _ _ _ \<Rightarrow> fn = Reject \<or> fn = SelectiveReject
      | Information _ _ _ _ _ _ \<Rightarrow> False)"

text \<open>The final bit of a frame ends the wait for the answer to our poll.\<close>

definition take_final :: "frame \<Rightarrow> ertm \<times> ertm_output \<Rightarrow> ertm \<times> ertm_output" where
  "take_final f s =
     (case s of (e, out) \<Rightarrow>
        if frame_final_bit f \<and> e_waiting_for_final e then
          let e = e\<lparr>e_waiting_for_final := False, e_monitor_timer := None, e_polls := 0\<rparr>
          in if names_its_own f then (e, out) else retransmit_all (e, out)
        else (e, out))"

definition dispatch :: "frame \<Rightarrow> ertm \<times> ertm_output \<Rightarrow> ertm \<times> ertm_output" where
  "dispatch f s =
     (case f of
        Supervisory fn req_seq poll _ \<Rightarrow> on_supervisory fn req_seq poll s
      | Information tx_seq _ _ sar sdu_len payload \<Rightarrow> on_information tx_seq sar sdu_len payload s)"

definition handle_frame :: "frame \<Rightarrow> ertm \<Rightarrow> ertm \<times> ertm_output" where
  "handle_frame f e =
     (case dispatch f (take_final f (acknowledge (frame_req_seq f) e, out_default)) of
        (e, out) \<Rightarrow> (case pump e out of (e, out) \<Rightarrow> (arm_timers e, out)))"

definition receive :: "bytes \<Rightarrow> (ertm, l2cap_error, ertm_output) meth" where
  "receive payload e =
     (case frame_decode payload (ep_local_cid (e_params e)) (ep_fcs (e_params e)) of
        Inl (BadFcs _ _ _) \<Rightarrow> (Inr out_default, discard e)
      | Inl other \<Rightarrow> (Inl other, e)
      | Inr f \<Rightarrow> (case handle_frame f e of (e, out) \<Rightarrow> (Inr out, e)))"

section \<open>Time\<close>

definition poll :: "ertm \<times> ertm_output \<Rightarrow> ertm \<times> ertm_output" where
  "poll s =
     (case s of (e, out) \<Rightarrow>
        let e = e\<lparr>e_polls := sat_add (e_polls e) 1, e_waiting_for_final := True,
                  e_monitor_timer := Some (ep_monitor_timeout (e_params e)),
                  e_retransmission_timer := None\<rparr>
        in (e, push_frame (e_supervisory e ReceiverReady True False) out))"

definition tick :: "duration \<Rightarrow> ertm \<Rightarrow> ertm \<times> ertm_output" where
  "tick elapsed e =
     (let out = out_default in
      case e_monitor_timer e of
        Some remaining \<Rightarrow>
          let left = remaining - elapsed in
          if left = 0 then
            let e = e\<lparr>e_monitor_timer := None\<rparr> in
            if ep_max_transmit (e_params e) \<le> e_polls e then (e, out\<lparr>out_failed := True\<rparr>)
            else case poll (e, out) of (e, out) \<Rightarrow> pump e out
          else (e\<lparr>e_monitor_timer := Some left\<rparr>, out)
      | None \<Rightarrow>
          (case e_retransmission_timer e of
             None \<Rightarrow> (e, out)
           | Some remaining \<Rightarrow>
               let left = remaining - elapsed in
               if left = 0 then
                 case poll (e\<lparr>e_retransmission_timer := None\<rparr>, out) of (e, out) \<Rightarrow>
                   if out_is_empty out then (e, out) else pump e out
               else (e\<lparr>e_retransmission_timer := Some left\<rparr>, out)))"

definition next_timeout :: "ertm \<Rightarrow> duration option" where
  "next_timeout e =
     (case e_monitor_timer e of Some t \<Rightarrow> Some t | None \<Rightarrow> e_retransmission_timer e)"

section \<open>Sequence numbers\<close>

definition seq_of :: "nat \<Rightarrow> u8" where
  "seq_of n = of_nat (n mod 64)"

lemma unat_seq_of [simp]: "unat (seq_of n) = n mod 64"
  by (simp add: seq_of_def unat_of_nat take_bit_eq_mod)

lemma seq_of_less [simp]: "seq_of n < 64"
  by (simp add: word_less_nat_alt)

lemma seq_of_0 [simp]: "seq_of 0 = 0"
  by (simp add: seq_of_def)

lemma seq_of_eq_iff: "seq_of a = seq_of b \<longleftrightarrow> a mod 64 = b mod 64"
  by (metis unat_seq_of word_unat_eq_iff)

lemma next_seq_of [simp]: "next_seq (seq_of n) = seq_of (Suc n)"
proof (rule word_unat_eq_iff [THEN iffD2])
  have "n mod 64 < 64" by simp
  then have "unat (seq_of n + 1) = n mod 64 + 1" by (simp add: unat_word_ariths)
  then show "unat (next_seq (seq_of n)) = unat (seq_of (Suc n))"
    by (simp add: next_seq_def seq_modulo_def unat_mod_distrib mod_simps)
qed

lemma unat_distance: "unat (distance (seq_of a) (seq_of b)) = (b + 64 - a mod 64) mod 64"
proof -
  have "a mod 64 < 64" "b mod 64 < 64" by simp_all
  then have "unat (seq_of b + seq_modulo - seq_of a) = b mod 64 + 64 - a mod 64"
    by (simp add: seq_modulo_def unat_word_ariths unat_sub word_le_nat_alt)
  moreover have "(b mod 64 + 64 - a mod 64) mod 64 = (b + 64 - a mod 64) mod 64"
    using \<open>a mod 64 < 64\<close> by (metis Nat.add_diff_assoc less_imp_le mod_add_left_eq)
  ultimately show ?thesis
    by (simp add: distance_def seq_modulo_def unat_mod_distrib)
qed

lemma unat_distance_fwd: "\<lbrakk>a \<le> b; b < a + 64\<rbrakk> \<Longrightarrow> unat (distance (seq_of a) (seq_of b)) = b - a"
proof -
  assume *: "a \<le> b" "b < a + 64"
  have "b + 64 - a mod 64 = (b - a) + 64 * (a div 64 + 1)"
    using * by (simp add: algebra_simps minus_mod_eq_mult_div [symmetric])
  then have "(b + 64 - a mod 64) mod 64 = (b - a) mod 64" by (metis mod_mult_self2)
  with * show ?thesis by (simp add: unat_distance)
qed

lemma unat_distance_back: "\<lbrakk>b < a; a < b + 64\<rbrakk> \<Longrightarrow> unat (distance (seq_of a) (seq_of b)) = 64 - (a - b)"
proof -
  assume *: "b < a" "a < b + 64"
  then have "unat (distance (seq_of a) (seq_of (b + 64))) = b + 64 - a"
    by (intro unat_distance_fwd) simp_all
  moreover have "seq_of (b + 64) = seq_of b" by (simp add: seq_of_eq_iff)
  ultimately show ?thesis using * by simp
qed

lemma acknowledged_iff:
  assumes "un_tx_seq f = seq_of n" "n \<le> r + 31" "r \<le> n + 32"
  shows "acknowledged (seq_of r) f \<longleftrightarrow> n < r"
proof -
  have "acknowledged (seq_of r) f \<longleftrightarrow>
      0 < unat (distance (seq_of n) (seq_of r)) \<and> unat (distance (seq_of n) (seq_of r)) \<le> 32"
    unfolding acknowledged_def assms(1) by (auto simp: word_less_nat_alt word_unat_eq_iff seq_modulo_def)
  also have "\<dots> \<longleftrightarrow> n < r"
    using assms(2,3) by (cases "n \<le> r") (auto simp add: unat_distance_fwd unat_distance_back)
  finally show ?thesis .
qed

section \<open>Numbering\<close>

fun numbered :: "u8 \<Rightarrow> unacked list \<Rightarrow> unacked list" where
  "numbered s [] = []"
| "numbered s (f # fs) = f\<lparr>un_tx_seq := s, un_transmissions := 1\<rparr> # numbered (next_seq s) fs"

lemma length_numbered [simp]: "length (numbered s fs) = length fs"
  by (induction s fs rule: numbered.induct) simp_all

definition room :: "ertm \<Rightarrow> nat" where
  "room e = unat (ep_send_window (e_params e)) - length (e_unacked e)"

lemma pump_loop_eq:
  "pump_loop e out =
     (let fs = numbered (e_next_tx_seq e) (take (room e) (e_queued e)) in
      (e\<lparr>e_queued := drop (room e) (e_queued e), e_unacked := e_unacked e @ fs,
         e_next_tx_seq := (next_seq ^^ length fs) (e_next_tx_seq e)\<rparr>,
       out\<lparr>out_frames := out_frames out @ map (\<lambda>f. encode_information e f False) fs\<rparr>))"
proof (induction e out rule: pump_loop.induct)
  case (1 e out)
  show ?case
  proof (cases "length (e_unacked e) < unat (ep_send_window (e_params e))")
    case False
    then have "room e = 0" by (simp add: room_def)
    with False show ?thesis by (simp add: pump_loop.simps [of e])
  next
    case True
    show ?thesis
    proof (cases "e_queued e")
      case Nil
      then show ?thesis by (simp add: pump_loop.simps [of e] True)
    next
      case (Cons f queued)
      define f' where "f' = f\<lparr>un_tx_seq := e_next_tx_seq e, un_transmissions := 1\<rparr>"
      define e' where "e' = e\<lparr>e_queued := queued, e_next_tx_seq := next_seq (e_next_tx_seq e), e_unacked := e_unacked e @ [f']\<rparr>"
      have r: "room e = Suc (room e')" using True by (simp add: room_def e'_def)
      have "pump_loop e out = pump_loop e' (push_frame (encode_information e' f' False) out)"
        by (simp add: pump_loop.simps [of e] True Cons Let_def e'_def f'_def encode_information_def)
      also have "\<dots> = (let fs = numbered (e_next_tx_seq e') (take (room e') (e_queued e')) in
          (e'\<lparr>e_queued := drop (room e') (e_queued e'), e_unacked := e_unacked e' @ fs,
             e_next_tx_seq := (next_seq ^^ length fs) (e_next_tx_seq e')\<rparr>,
           (push_frame (encode_information e' f' False) out)\<lparr>out_frames := out_frames (push_frame (encode_information e' f' False) out) @
             map (\<lambda>f. encode_information e' f False) fs\<rparr>))"
        using 1 [OF True Cons refl refl refl] by (simp add: e'_def f'_def encode_information_def)
      finally show ?thesis
        by (simp add: r Cons Let_def e'_def f'_def encode_information_def push_frame_def funpow_swap1)
    qed
  qed
qed

lemma funpow_next_seq [simp]: "(next_seq ^^ k) (seq_of n) = seq_of (n + k)"
  by (induction k) simp_all

lemma numbered_seq_of: "map un_tx_seq (numbered (seq_of n) fs) = map seq_of [n..<n + length fs]"
  proof (induction fs arbitrary: n)
  case (Cons f fs)
  then show ?case using upt_conv_Cons [of n "n + length (f # fs)"] by simp
qed simp

section \<open>What retransmission changes\<close>

text \<open>A frame without its count of transmissions.\<close>

definition frame_of :: "unacked \<Rightarrow> unacked" where
  "frame_of f = f\<lparr>un_transmissions := 0\<rparr>"

lemma set_transmissions_frame_of [simp]:
  "map frame_of (set_transmissions s n fs) = map frame_of fs"
  by (induction fs) (simp_all add: frame_of_def)

lemma set_transmissions_subset:
  "f \<in> set (set_transmissions s n fs) \<Longrightarrow> f \<in> set fs \<or> un_transmissions f = n"
  by (induction fs) (auto split: if_splits)

definition resends :: "u8 \<Rightarrow> unacked list \<Rightarrow> unacked list" where
  "resends m fs = filter (\<lambda>f. sat_add (un_transmissions f) 1 \<le> m) fs"

definition bump :: "unacked list \<Rightarrow> unacked list \<Rightarrow> unacked list" where
  "bump fs us = fold (\<lambda>f. set_transmissions (un_tx_seq f) (sat_add (un_transmissions f) 1)) fs us"

lemma map_frame_of_bump [simp]: "map frame_of (bump fs us) = map frame_of us"
  unfolding bump_def by (induction fs arbitrary: us) simp_all

lemma bump_subset:
  "f \<in> set (bump fs us) \<Longrightarrow> f \<in> set us \<or> (\<exists>g\<in>set fs. un_transmissions f = sat_add (un_transmissions g) 1)"
  unfolding bump_def
proof (induction fs arbitrary: us)
  case (Cons g fs)
  from Cons.IH [OF Cons.prems [simplified]] show ?case
    by (auto dest: set_transmissions_subset)
qed simp

lemma resends_Nil_Cons:
  "resends m [] = []"
  "resends m (f # fs) = (if m < sat_add (un_transmissions f) 1 then resends m fs else f # resends m fs)"
  by (simp_all add: resends_def not_less)

lemma resends_neq_Cons [simp]: "resends m fs \<noteq> f # fs"
proof
  assume "resends m fs = f # fs"
  then have "length (resends m fs) = Suc (length fs)" by simp
  then show False using length_filter_le [of "\<lambda>f. sat_add (un_transmissions f) 1 \<le> m" fs]
    by (simp add: resends_def)
qed

lemma retransmit_fold:
  "fold retransmit fs (e, out) =
     (let rs = resends (ep_max_transmit (e_params e)) fs in
      (e\<lparr>e_unacked := bump rs (e_unacked e),
         e_retransmission_timer := if rs = [] then e_retransmission_timer e
           else Some (ep_retransmission_timeout (e_params e))\<rparr>,
       out\<lparr>out_frames := out_frames out @ map (\<lambda>f. encode_information e f False) rs,
           out_failed := out_failed out \<or> rs \<noteq> fs\<rparr>))"
  by (induction fs arbitrary: e out)
    (simp_all add: resends_Nil_Cons bump_def retransmit_def push_frame_def Let_def encode_information_def)

lemma retransmit_all_eq:
  "retransmit_all (e, out) =
     (let rs = resends (ep_max_transmit (e_params e)) (e_unacked e) in
      (e\<lparr>e_unacked := bump rs (e_unacked e),
         e_retransmission_timer := if rs = [] then e_retransmission_timer e
           else Some (ep_retransmission_timeout (e_params e))\<rparr>,
       out\<lparr>out_frames := out_frames out @ map (\<lambda>f. encode_information e f False) rs,
           out_failed := out_failed out \<or> rs \<noteq> e_unacked e\<rparr>))"
  by (simp add: retransmit_all_def retransmit_fold)

lemma retransmit_one_eq:
  "retransmit_one s (e, out) = fold retransmit
     (case find (\<lambda>f. un_tx_seq f = s) (e_unacked e) of Some f \<Rightarrow> [f] | None \<Rightarrow> []) (e, out)"
  by (simp add: retransmit_one_def split: option.split)

section \<open>The invariant of one engine\<close>

text \<open>
  \<open>window_at B N e\<close>: the unacknowledged frames are the ones numbered \<open>B\<close> to \<open>N - 1\<close> of all the
  frames ever sent, and the next one is the \<open>N\<close>-th.
\<close>

definition window_at :: "nat \<Rightarrow> nat \<Rightarrow> ertm \<Rightarrow> bool" where
  "window_at B N e \<longleftrightarrow> B \<le> N \<and> map un_tx_seq (e_unacked e) = map seq_of [B..<N]
     \<and> e_next_tx_seq e = seq_of N"

definition segment_ok :: "unacked \<Rightarrow> bool" where
  "segment_ok f \<longleftrightarrow> (un_sdu_len f = None \<longleftrightarrow> un_sar f \<noteq> Start)"

definition budget_ok :: "u8 \<Rightarrow> unacked \<Rightarrow> bool" where
  "budget_ok m f \<longleftrightarrow> 1 \<le> un_transmissions f \<and> un_transmissions f \<le> max 1 m"

definition core_ok :: "ertm \<Rightarrow> bool" where
  "core_ok e \<longleftrightarrow> (\<exists>B N. window_at B N e)
     \<and> length (e_unacked e) \<le> unat (ep_send_window (e_params e))
     \<and> e_expected_tx_seq e < 64
     \<and> (\<forall>f\<in>set (e_unacked e). segment_ok f \<and> budget_ok (ep_max_transmit (e_params e)) f)
     \<and> (\<forall>f\<in>set (e_queued e). segment_ok f)"

definition timers_ok :: "ertm \<Rightarrow> bool" where
  "timers_ok e \<longleftrightarrow> (e_waiting_for_final e \<longleftrightarrow> e_monitor_timer e \<noteq> None)
     \<and> (\<not> e_waiting_for_final e \<longrightarrow> e_polls e = 0)
     \<and> e_polls e \<le> max 1 (ep_max_transmit (e_params e))"

definition armed :: "ertm \<Rightarrow> bool" where
  "armed e \<longleftrightarrow> (e_unacked e \<noteq> [] \<longrightarrow> e_retransmission_timer e \<noteq> None \<or> e_monitor_timer e \<noteq> None)"

definition drained :: "ertm \<Rightarrow> bool" where
  "drained e \<longleftrightarrow> e_remote_busy e \<or> e_waiting_for_final e \<or> e_queued e = []
     \<or> length (e_unacked e) = unat (ep_send_window (e_params e))"

definition ertm_inv :: "ertm \<Rightarrow> bool" where
  "ertm_inv e \<longleftrightarrow> core_ok e \<and> timers_ok e \<and> armed e \<and> drained e"

lemma window_at_length: "window_at B N e \<Longrightarrow> length (e_unacked e) = N - B"
  by (auto simp: window_at_def dest: arg_cong [of _ _ length])

lemma window_at_pump_loop:
  assumes "window_at B N e" and p: "pump_loop e out = (e', out')"
  shows "\<exists>N'. window_at B N' e' \<and> N \<le> N'"
proof -
  let ?fs = "take (room e) (e_queued e)"
  have e': "e_unacked e' = e_unacked e @ numbered (seq_of N) ?fs"
      "e_next_tx_seq e' = seq_of (N + length ?fs)"
    using p assms(1) by (auto simp: pump_loop_eq Let_def window_at_def simp del: length_take)
  have "[B..<N + length ?fs] = [B..<N] @ [N..<N + length ?fs]"
    using assms(1) by (intro upt_add_eq_append) (simp add: window_at_def)
  then have "map un_tx_seq (e_unacked e') = map seq_of [B..<N + length ?fs]"
    using assms(1) unfolding e' map_append numbered_seq_of by (simp only: window_at_def map_append)
  then have "window_at B (N + length ?fs) e'"
    using assms(1) e'(2) unfolding window_at_def by linarith
  then show ?thesis by (metis le_add1)
qed

lemma seq_of_frame_of: "map frame_of us = map frame_of vs \<Longrightarrow> map un_tx_seq us = map un_tx_seq vs"
proof -
  assume "map frame_of us = map frame_of vs"
  then have "map un_tx_seq (map frame_of us) = map un_tx_seq (map frame_of vs)" by simp
  then show ?thesis by (simp add: frame_of_def comp_def)
qed

lemma map_un_tx_seq_bump [simp]: "map un_tx_seq (bump rs us) = map un_tx_seq us"
  by (rule seq_of_frame_of) simp

lemma length_bump [simp]: "length (bump rs us) = length us"
proof -
  have "length (map frame_of (bump rs us)) = length (map frame_of us)" by (simp only: map_frame_of_bump)
  then show ?thesis by (simp only: length_map)
qed

lemma segment_ok_frame_of [simp]: "segment_ok (frame_of f) = segment_ok f"
  by (simp add: segment_ok_def frame_of_def)

lemma segment_ok_bump: "(\<forall>f\<in>set (bump rs us). segment_ok f) \<longleftrightarrow> (\<forall>f\<in>set us. segment_ok f)"
proof -
  have "(\<forall>f\<in>set vs. segment_ok f) \<longleftrightarrow> (\<forall>f\<in>set (map frame_of vs). segment_ok f)" for vs by simp
  from this [of us] this [of "bump rs us"] show ?thesis by (simp only: map_frame_of_bump)
qed

lemma budget_bump:
  assumes "\<forall>f\<in>set us. budget_ok m f"
  shows "\<forall>f\<in>set (bump (resends m fs) us). budget_ok m f"
proof
  fix f assume "f \<in> set (bump (resends m fs) us)"
  then consider "f \<in> set us" | g where "g \<in> set (resends m fs)" "un_transmissions f = sat_add (un_transmissions g) 1"
    by (auto dest: bump_subset)
  then show "budget_ok m f"
  proof cases
    case 1 with assms show ?thesis by simp
  next
    case 2
    then have "un_transmissions f \<le> m" by (simp add: resends_def)
    moreover have "1 \<le> un_transmissions f"
      using 2(2) by (simp add: word_le_nat_alt unat_sat_add)
    ultimately show ?thesis by (auto simp add: budget_ok_def intro: max.coboundedI2)
  qed
qed

lemma core_ok_retransmits:
  "core_ok e \<Longrightarrow> core_ok (fst (fold retransmit fs (e, out)))"
  using budget_bump [of "e_unacked e" "ep_max_transmit (e_params e)" fs]
  by (auto simp: core_ok_def retransmit_fold Let_def window_at_def ball_conj_distrib segment_ok_bump)

lemma core_ok_retransmit_all: "core_ok (fst s) \<Longrightarrow> core_ok (fst (retransmit_all s))"
  unfolding retransmit_all_def by (cases s) (simp add: core_ok_retransmits)

lemma core_ok_retransmit_one: "core_ok (fst s) \<Longrightarrow> core_ok (fst (retransmit_one q s))"
  by (cases s) (simp add: retransmit_one_eq core_ok_retransmits)

lemma numbered_set: "f \<in> set (numbered s fs) \<Longrightarrow> budget_ok m f \<and> (\<exists>g\<in>set fs. segment_ok f = segment_ok g)"
  by (induction s fs rule: numbered.induct) (auto simp: budget_ok_def segment_ok_def)

lemma core_ok_pump_loop: "core_ok e \<Longrightarrow> core_ok (fst (pump_loop e out))"
proof -
  assume ok: "core_ok e"
  then obtain B N where w: "window_at B N e" by (auto simp: core_ok_def)
  obtain e' out' where p: "pump_loop e out = (e', out')" by (cases "pump_loop e out")
  have "\<exists>B N. window_at B N e'" using window_at_pump_loop [OF w p] by blast
  moreover have "length (e_unacked e') \<le> unat (ep_send_window (e_params e'))"
    using p ok by (auto simp: pump_loop_eq Let_def core_ok_def room_def)
  moreover have "segment_ok f \<and> budget_ok (ep_max_transmit (e_params e')) f" if "f \<in> set (e_unacked e')" for f
    using that p ok
    by (auto simp: pump_loop_eq Let_def core_ok_def
        dest!: in_set_takeD numbered_set [where m = "ep_max_transmit (e_params e)"])
  moreover have "segment_ok f" if "f \<in> set (e_queued e')" for f
    using that p ok by (auto simp: pump_loop_eq Let_def core_ok_def dest!: in_set_dropD)
  moreover have "e_expected_tx_seq e' < 64" using p ok by (auto simp: pump_loop_eq Let_def core_ok_def)
  ultimately show ?thesis by (simp add: core_ok_def p)
qed

lemma core_ok_timers:
  "core_ok (e\<lparr>e_retransmission_timer := t\<rparr>) = core_ok e"
  "core_ok (e\<lparr>e_monitor_timer := t\<rparr>) = core_ok e"
  "core_ok (e\<lparr>e_waiting_for_final := b\<rparr>) = core_ok e"
  "core_ok (e\<lparr>e_polls := k\<rparr>) = core_ok e"
  "core_ok (e\<lparr>e_remote_busy := b\<rparr>) = core_ok e"
  "core_ok (e\<lparr>e_reassembly := r\<rparr>) = core_ok e"
  "core_ok (e\<lparr>e_discarded := d\<rparr>) = core_ok e"
  "core_ok (e\<lparr>e_rejected := b\<rparr>) = core_ok e"
  by (simp_all add: core_ok_def window_at_def)

lemma core_ok_arm_timers: "core_ok e \<Longrightarrow> core_ok (arm_timers e)"
  by (simp add: arm_timers_def core_ok_timers)

lemma core_ok_pump: "core_ok e \<Longrightarrow> core_ok (fst (pump e out))"
  using core_ok_pump_loop [of e out] by (auto simp: pump_def core_ok_arm_timers split: prod.splits)

lemma window_at_drop:
  assumes "window_at B N e" "k \<le> N - B"
  shows "map un_tx_seq (drop k (e_unacked e)) = map seq_of [B + k..<N]"
proof -
  have "map un_tx_seq (drop k (e_unacked e)) = drop k (map seq_of [B..<N])"
    using assms by (simp add: window_at_def drop_map [symmetric])
  then show ?thesis by (simp add: drop_map)
qed

lemma e_unacked_acknowledge:
  "e_unacked (acknowledge r e) = dropWhile (acknowledged r) (e_unacked e)"
  by (simp add: acknowledge_def Let_def)

lemma window_at_acknowledge:
  assumes "window_at B N e"
  shows "\<exists>B'. B \<le> B' \<and> window_at B' N (acknowledge r e)"
proof -
  let ?k = "length (takeWhile (acknowledged r) (e_unacked e))"
  have k: "?k \<le> N - B"
    using window_at_length [OF assms] length_takeWhile_le [of "acknowledged r" "e_unacked e"] by simp
  have "map un_tx_seq (e_unacked (acknowledge r e)) = map seq_of [B + ?k..<N]"
    unfolding e_unacked_acknowledge dropWhile_eq_drop by (rule window_at_drop [OF assms k])
  moreover have "e_next_tx_seq (acknowledge r e) = seq_of N" "B \<le> N"
    using assms by (simp_all add: window_at_def acknowledge_def Let_def)
  ultimately have "window_at (B + ?k) N (acknowledge r e)"
    unfolding window_at_def using k by linarith
  then show ?thesis by (metis le_add1)
qed

lemma core_ok_acknowledge: "core_ok e \<Longrightarrow> core_ok (acknowledge r e)"
proof -
  assume ok: "core_ok e"
  then have "\<exists>B N. window_at B N (acknowledge r e)"
    using window_at_acknowledge by (metis core_ok_def)
  then show ?thesis using ok length_dropWhile_le [of "acknowledged r" "e_unacked e"]
    by (auto simp: core_ok_def acknowledge_def Let_def dest: set_dropWhileD split: if_splits)
qed

lemma next_seq_less [simp]: "next_seq s < 64"
  by (simp add: next_seq_def seq_modulo_def word_less_nat_alt unat_mod_distrib)

lemma core_ok_reassemble: "core_ok (fst (reassemble sar len payload s)) = core_ok (fst s)"
  by (auto simp: reassemble_def discard_def Let_def core_ok_timers split: prod.split option.split)

lemma core_ok_in_sequence:
  "core_ok e \<Longrightarrow> core_ok (fst (reassemble sar len payload
     (e\<lparr>e_rejected := False, e_expected_tx_seq := next_seq (e_expected_tx_seq e)\<rparr>, out)))"
  unfolding core_ok_reassemble by (simp add: core_ok_def window_at_def)

lemma core_ok_on_information:
  "core_ok (fst s) \<Longrightarrow> core_ok (fst (on_information q sar len payload s))"
  using core_ok_in_sequence [of "fst s" sar len payload "snd s"]
  by (cases s) (auto simp: on_information_def Let_def core_ok_timers split: prod.split)

lemma core_ok_on_supervisory:
  "core_ok (fst s) \<Longrightarrow> core_ok (fst (on_supervisory fn q p s))"
  using core_ok_retransmit_all [of "(fst s\<lparr>e_remote_busy := False\<rparr>, snd s)"]
    core_ok_retransmit_one [of "(fst s\<lparr>e_remote_busy := False\<rparr>, snd s)" q]
  by (cases fn) (auto simp: on_supervisory_def Let_def core_ok_timers split: prod.splits)

lemma core_ok_take_final: "core_ok (fst s) \<Longrightarrow> core_ok (fst (take_final f s))"
  by (cases s) (auto simp: take_final_def Let_def core_ok_timers intro!: core_ok_retransmit_all)

lemma core_ok_dispatch: "core_ok (fst s) \<Longrightarrow> core_ok (fst (dispatch f s))"
  by (cases f) (simp_all add: dispatch_def core_ok_on_information core_ok_on_supervisory)

lemma handle_frame_eq:
  "handle_frame f e =
     (let s = dispatch f (take_final f (acknowledge (frame_req_seq f) e, out_default));
          r = pump (fst s) (snd s)
      in (arm_timers (fst r), snd r))"
  by (simp add: handle_frame_def Let_def case_prod_beta)

lemma arm_timers_fields [simp]:
  "e_params (arm_timers e) = e_params e"
  "e_unacked (arm_timers e) = e_unacked e"
  "e_queued (arm_timers e) = e_queued e"
  "e_remote_busy (arm_timers e) = e_remote_busy e"
  "e_waiting_for_final (arm_timers e) = e_waiting_for_final e"
  "e_polls (arm_timers e) = e_polls e"
  "e_next_tx_seq (arm_timers e) = e_next_tx_seq e"
  "e_expected_tx_seq (arm_timers e) = e_expected_tx_seq e"
  "e_reassembly (arm_timers e) = e_reassembly e"
  "e_monitor_timer (arm_timers e) = e_monitor_timer e"
  by (simp_all add: arm_timers_def)

lemma core_ok_handle_frame: "core_ok e \<Longrightarrow> core_ok (fst (handle_frame f e))"
proof -
  assume "core_ok e"
  then have "core_ok (fst (dispatch f (take_final f (acknowledge (frame_req_seq f) e, out_default))))"
    by (intro core_ok_dispatch core_ok_take_final) (simp add: core_ok_acknowledge)
  then show ?thesis
    by (simp add: handle_frame_eq Let_def core_ok_arm_timers core_ok_pump)
qed

lemma core_ok_discard [simp]: "core_ok (discard e) = core_ok e"
  by (simp add: discard_def core_ok_timers)

lemma core_ok_receive: "core_ok e \<Longrightarrow> core_ok (snd (receive p e))"
  using core_ok_handle_frame [of e]
  by (auto simp: receive_def split: sum.split l2cap_error.split prod.split) (metis fst_conv)+

lemma segment_ok_segment [simp]: "segment_ok (segment sar len payload) = (len = None \<longleftrightarrow> sar \<noteq> Start)"
  by (simp add: segment_ok_def segment_def)

lemma segments_from_ok: "\<forall>f\<in>set (segments_from m sdu k). segment_ok f"
proof (induction m sdu k rule: segments_from.induct)
  case (1 m sdu k)
  show ?case
  proof (cases "k < length sdu")
    case True
    with 1 [OF True refl refl] show ?thesis by (subst segments_from.simps) (simp add: Let_def)
  next
    case False
    then show ?thesis by (subst segments_from.simps) simp
  qed
qed

lemma segments_ok: "\<forall>f\<in>set (segments m sdu n). segment_ok f"
  using segments_from_ok [of m sdu] by (auto simp: segments_def Let_def)

lemma core_ok_send: "core_ok e \<Longrightarrow> core_ok (snd (send sdu e))"
proof -
  assume ok: "core_ok e"
  have "core_ok (e\<lparr>e_queued := e_queued e @ segments (ep_send_mps (e_params e)) sdu n\<rparr>)" for n
    using ok segments_ok [of "ep_send_mps (e_params e)" sdu n] by (auto simp: core_ok_def window_at_def)
  then show ?thesis using ok
    by (auto simp: send_def split: option.split prod.split) (metis core_ok_pump fst_conv)
qed

lemma core_ok_poll: "core_ok (fst (poll s)) = core_ok (fst s)"
  by (simp add: poll_def Let_def core_ok_timers split: prod.split)

lemma core_ok_tick: "core_ok e \<Longrightarrow> core_ok (fst (tick d e))"
  using core_ok_poll [of "(e\<lparr>e_monitor_timer := None\<rparr>, out_default)"]
    core_ok_poll [of "(e\<lparr>e_retransmission_timer := None\<rparr>, out_default)"]
  by (auto simp: tick_def Let_def core_ok_timers split: option.split prod.split)
    (metis core_ok_pump fst_conv)+

lemma core_ok_new: "core_ok (ertm_new p)"
  by (auto simp: core_ok_def ertm_new_def window_at_def intro: exI [of _ 0])

section \<open>Timers\<close>

lemma sat_add_1_le: "k < m \<Longrightarrow> sat_add k 1 \<le> (m :: u8)"
  by (simp add: word_le_nat_alt word_less_nat_alt unat_sat_add)

lemma timers_ok_fields:
  "timers_ok (e\<lparr>e_unacked := u, e_retransmission_timer := t\<rparr>) = timers_ok e"
  "timers_ok (e\<lparr>e_retransmission_timer := t\<rparr>) = timers_ok e"
  "timers_ok (e\<lparr>e_unacked := u\<rparr>) = timers_ok e"
  "timers_ok (e\<lparr>e_queued := q\<rparr>) = timers_ok e"
  "timers_ok (e\<lparr>e_next_tx_seq := n\<rparr>) = timers_ok e"
  "timers_ok (e\<lparr>e_expected_tx_seq := n\<rparr>) = timers_ok e"
  "timers_ok (e\<lparr>e_remote_busy := b\<rparr>) = timers_ok e"
  "timers_ok (e\<lparr>e_reassembly := r\<rparr>) = timers_ok e"
  "timers_ok (e\<lparr>e_discarded := d\<rparr>) = timers_ok e"
  "timers_ok (e\<lparr>e_rejected := b\<rparr>) = timers_ok e"
  by (simp_all add: timers_ok_def)

lemma timers_ok_retransmits: "timers_ok (fst (fold retransmit fs (e, out))) = timers_ok e"
  by (simp add: retransmit_fold Let_def timers_ok_fields)

lemma timers_ok_retransmit_all: "timers_ok (fst (retransmit_all s)) = timers_ok (fst s)"
  unfolding retransmit_all_def by (cases s) (simp add: timers_ok_retransmits)

lemma timers_ok_retransmit_one: "timers_ok (fst (retransmit_one q s)) = timers_ok (fst s)"
  by (cases s) (simp add: retransmit_one_eq timers_ok_retransmits)

lemma timers_ok_arm_timers: "timers_ok (arm_timers e) = timers_ok e"
  by (simp add: arm_timers_def timers_ok_fields)

lemma timers_ok_pump: "timers_ok (fst (pump e out)) = timers_ok e"
  by (simp add: pump_def pump_loop_eq Let_def timers_ok_arm_timers timers_ok_fields)

lemma timers_ok_acknowledge: "timers_ok (acknowledge r e) = timers_ok e"
  by (simp add: acknowledge_def Let_def timers_ok_fields)

lemma timers_ok_reassemble: "timers_ok (fst (reassemble sar len payload s)) = timers_ok (fst s)"
  by (auto simp: reassemble_def discard_def Let_def timers_ok_fields split: prod.split option.split)

lemma timers_ok_on_information:
  "timers_ok (fst (on_information q sar len payload s)) = timers_ok (fst s)"
  using timers_ok_reassemble [of sar len payload "(fst s\<lparr>e_rejected := False, e_expected_tx_seq := next_seq (e_expected_tx_seq (fst s))\<rparr>, snd s)"]
  by (cases s) (auto simp: on_information_def Let_def timers_ok_fields split: prod.split)

lemma timers_ok_on_supervisory:
  "timers_ok (fst (on_supervisory fn q p s)) = timers_ok (fst s)"
  using timers_ok_retransmit_all [of "(fst s\<lparr>e_remote_busy := False\<rparr>, snd s)"]
    timers_ok_retransmit_one [of q "(fst s\<lparr>e_remote_busy := False\<rparr>, snd s)"]
  by (cases fn) (auto simp: on_supervisory_def Let_def timers_ok_fields split: prod.splits)

lemma timers_ok_take_final: "timers_ok (fst s) \<Longrightarrow> timers_ok (fst (take_final f s))"
proof -
  have "timers_ok (e\<lparr>e_waiting_for_final := False, e_monitor_timer := None, e_polls := 0\<rparr>)" for e
    by (simp add: timers_ok_def)
  then show "timers_ok (fst s) \<Longrightarrow> timers_ok (fst (take_final f s))"
    by (simp add: take_final_def Let_def timers_ok_retransmit_all case_prod_beta)
qed

lemma timers_ok_dispatch: "timers_ok (fst (dispatch f s)) = timers_ok (fst s)"
  by (cases f) (simp_all add: dispatch_def timers_ok_on_information timers_ok_on_supervisory)

lemma timers_ok_handle_frame: "timers_ok e \<Longrightarrow> timers_ok (fst (handle_frame f e))"
proof -
  assume "timers_ok e"
  then have "timers_ok (fst (dispatch f (take_final f (acknowledge (frame_req_seq f) e, out_default))))"
    unfolding timers_ok_dispatch by (intro timers_ok_take_final) (simp add: timers_ok_acknowledge)
  then show ?thesis
    by (simp add: handle_frame_eq Let_def timers_ok_arm_timers timers_ok_pump)
qed

text \<open>
  After \<open>arm_timers\<close> something is running for every unacknowledged frame. A frame the window
  has room for is only left in the queue when the peer is busy or owes us an answer.
\<close>

lemma armed_arm_timers: "armed (arm_timers e)"
  by (simp add: armed_def arm_timers_def)

lemma drained_arm_timers: "drained (arm_timers e) = drained e"
  by (simp add: drained_def arm_timers_def)

lemma drained_pump:
  assumes "length (e_unacked e) \<le> unat (ep_send_window (e_params e))"
  shows "drained (fst (pump e out))"
  using assms
  by (cases "length (e_queued e) \<le> room e")
    (auto simp: pump_def pump_loop_eq Let_def drained_def drained_arm_timers room_def)

lemma armed_pump:
  assumes "timers_ok e" "armed e"
  shows "armed (fst (pump e out))"
  using assms by (auto simp: pump_def armed_arm_timers split: prod.split)

lemma ertm_inv_pumped:
  assumes "core_ok e" "timers_ok e"
  shows "ertm_inv (arm_timers (fst (pump e out)))"
proof -
  have "drained (fst (pump e out))" using assms(1) by (intro drained_pump) (simp add: core_ok_def)
  then show ?thesis using assms
    by (simp add: ertm_inv_def core_ok_arm_timers core_ok_pump timers_ok_arm_timers timers_ok_pump
      armed_arm_timers drained_arm_timers)
qed

lemma ertm_inv_handle_frame:
  assumes "ertm_inv e" shows "ertm_inv (fst (handle_frame f e))"
proof -
  let ?s = "dispatch f (take_final f (acknowledge (frame_req_seq f) e, out_default))"
  have "core_ok (fst ?s)" using assms
    by (intro core_ok_dispatch core_ok_take_final) (simp add: core_ok_acknowledge ertm_inv_def)
  moreover have "timers_ok (fst ?s)" using assms
    unfolding timers_ok_dispatch
    by (intro timers_ok_take_final) (simp add: timers_ok_acknowledge ertm_inv_def)
  ultimately have "ertm_inv (arm_timers (fst (pump (fst ?s) (snd ?s))))" by (rule ertm_inv_pumped)
  then show ?thesis by (simp add: handle_frame_eq Let_def)
qed

lemma ertm_inv_discard: "ertm_inv (discard e) = ertm_inv e"
  by (simp add: ertm_inv_def timers_ok_fields discard_def core_ok_timers armed_def drained_def)

lemma ertm_inv_receive: "ertm_inv e \<Longrightarrow> ertm_inv (snd (receive p e))"
  using ertm_inv_handle_frame [of e]
  by (auto simp: receive_def ertm_inv_discard split: sum.split l2cap_error.split prod.split)
    (metis fst_conv)+

lemma ertm_inv_pump:
  assumes "core_ok e" "timers_ok e" "armed e"
  shows "ertm_inv (fst (pump e out))"
proof -
  have "drained (fst (pump e out))" using assms(1) by (intro drained_pump) (simp add: core_ok_def)
  then show ?thesis using assms by (simp add: ertm_inv_def core_ok_pump timers_ok_pump armed_pump)
qed

lemma ertm_inv_send: "ertm_inv e \<Longrightarrow> ertm_inv (snd (send sdu e))"
proof -
  assume inv: "ertm_inv e"
  have "core_ok (e\<lparr>e_queued := e_queued e @ segments (ep_send_mps (e_params e)) sdu n\<rparr>)" for n
    using inv segments_ok [of "ep_send_mps (e_params e)" sdu n]
    by (auto simp: ertm_inv_def core_ok_def window_at_def)
  then have "ertm_inv (fst (pump (e\<lparr>e_queued := e_queued e @ segments (ep_send_mps (e_params e)) sdu n\<rparr>) out_default))" for n
    using inv by (intro ertm_inv_pump) (auto simp: ertm_inv_def timers_ok_fields armed_def)
  then show ?thesis using inv
    by (simp add: send_def case_prod_beta split: option.split)
qed

lemma pump_waiting: "e_waiting_for_final e \<Longrightarrow> pump e out = (e, out)"
  by (simp add: pump_def)

lemma ertm_inv_poll:
  assumes "core_ok e" "e_polls e < max 1 (ep_max_transmit (e_params e))"
  shows "ertm_inv (fst (poll (e, out)))"
  using assms core_ok_poll [of "(e, out)"]
  by (auto simp: ertm_inv_def poll_def Let_def timers_ok_def armed_def drained_def sat_add_1_le)

lemma tick_eq:
  "tick d e =
     (case e_monitor_timer e of
        Some remaining \<Rightarrow>
          if d < remaining then (e\<lparr>e_monitor_timer := Some (remaining - d)\<rparr>, out_default)
          else if ep_max_transmit (e_params e) \<le> e_polls e
          then (e\<lparr>e_monitor_timer := None\<rparr>, out_default\<lparr>out_failed := True\<rparr>)
          else poll (e\<lparr>e_monitor_timer := None\<rparr>, out_default)
      | None \<Rightarrow>
          (case e_retransmission_timer e of
             None \<Rightarrow> (e, out_default)
           | Some remaining \<Rightarrow>
               if d < remaining then (e\<lparr>e_retransmission_timer := Some (remaining - d)\<rparr>, out_default)
               else poll (e\<lparr>e_retransmission_timer := None\<rparr>, out_default)))"
  by (auto simp: tick_def Let_def poll_def pump_def split: option.split)

lemma ertm_inv_tick: "\<lbrakk>ertm_inv e; \<not> out_failed (snd (tick d e))\<rbrakk> \<Longrightarrow> ertm_inv (fst (tick d e))"
  by (auto simp: tick_eq ertm_inv_def [of e] timers_ok_def not_le core_ok_timers less_max_iff_disj
      split: option.splits if_splits intro!: ertm_inv_poll)
    (auto simp: ertm_inv_def timers_ok_def armed_def drained_def core_ok_timers)

end
