(* ===== verification/Ertm_Run.thy ===== *)
theory Ertm_Run
  imports Ertm_Engine
begin

text \<open>
  What the ERTM engine guarantees over whole runs: the window and the retransmission budget,
  that it neither stalls nor polls a silent peer for ever, that its receive half refines an
  abstract in-order receiver, and that segmentation and reassembly are inverse.
\<close>

section \<open>Runs of one engine\<close>

text \<open>
  The channel is torn down when a call reports failure, so a run goes on only after calls
  that did not.
\<close>

datatype ertm_event = SendSdu bytes | ReceivePayload bytes | Elapsed duration

fun ertm_apply :: "ertm_event \<Rightarrow> (ertm, l2cap_error, ertm_output) meth" where
  "ertm_apply (SendSdu sdu) e = send sdu e"
| "ertm_apply (ReceivePayload p) e = receive p e"
| "ertm_apply (Elapsed d) e = (case tick d e of (e, out) \<Rightarrow> (Inr out, e))"

definition reports_failure :: "l2cap_error + ertm_output \<Rightarrow> bool" where
  "reports_failure r \<longleftrightarrow> (case r of Inl _ \<Rightarrow> False | Inr out \<Rightarrow> out_failed out)"

inductive ertm_run :: "ertm_parameters \<Rightarrow> ertm \<Rightarrow> bool" for p where
  ertm_start: "ertm_run p (ertm_new p)"
| ertm_step: "\<lbrakk>ertm_run p e; ertm_apply ev e = (r, e'); \<not> reports_failure r\<rbrakk> \<Longrightarrow> ertm_run p e'"

lemma ertm_inv_new: "ertm_inv (ertm_new p)"
  by (simp add: ertm_inv_def core_ok_new) (simp add: timers_ok_def armed_def drained_def ertm_new_def)

lemma ertm_inv_apply:
  "\<lbrakk>ertm_inv e; ertm_apply ev e = (r, e'); \<not> reports_failure r\<rbrakk> \<Longrightarrow> ertm_inv e'"
  using ertm_inv_send [of e] ertm_inv_receive [of e] ertm_inv_tick [of e]
  by (cases ev) (auto simp: reports_failure_def split: prod.splits, (metis snd_conv fst_conv)+)

lemma ertm_run_inv: "ertm_run p e \<Longrightarrow> ertm_inv e"
  by (induction rule: ertm_run.induct) (auto intro: ertm_inv_new ertm_inv_apply)

lemma params_retransmit_all: "e_params (fst (retransmit_all s)) = e_params (fst s)"
  by (cases s) (simp add: retransmit_all_eq Let_def)

lemma params_retransmit_one: "e_params (fst (retransmit_one q s)) = e_params (fst s)"
  by (cases s) (simp add: retransmit_one_eq retransmit_fold Let_def)

lemma params_pump [simp]: "e_params (fst (pump e out)) = e_params e"
  by (simp add: pump_def pump_loop_eq Let_def)

lemma params_acknowledge [simp]: "e_params (acknowledge r e) = e_params e"
  by (simp add: acknowledge_def Let_def)

lemma params_reassemble: "e_params (fst (reassemble sar len payload s)) = e_params (fst s)"
  by (auto simp: reassemble_def discard_def Let_def split: prod.split option.split)

lemma params_dispatch: "e_params (fst (dispatch f s)) = e_params (fst s)"
proof (cases f)
  case (Information q r b sar len payload)
  then show ?thesis
    using params_reassemble [of sar len payload]
    by (simp add: dispatch_def on_information_def Let_def case_prod_beta)
next
  case (Supervisory fn q p b)
  then show ?thesis
    by (cases fn) (simp_all add: dispatch_def on_supervisory_def Let_def case_prod_beta
        params_retransmit_all params_retransmit_one)
qed

lemma params_take_final: "e_params (fst (take_final f s)) = e_params (fst s)"
  by (simp add: take_final_def Let_def case_prod_beta params_retransmit_all)

lemma params_handle_frame [simp]: "e_params (fst (handle_frame f e)) = e_params e"
  by (simp add: handle_frame_eq Let_def params_dispatch params_take_final)

lemma params_apply: "ertm_apply ev e = (r, e') \<Longrightarrow> e_params e' = e_params e"
proof (cases ev)
  case (SendSdu sdu)
  then show "ertm_apply ev e = (r, e') \<Longrightarrow> e_params e' = e_params e"
    by (auto simp: send_def case_prod_beta split: option.splits)
next
  case (ReceivePayload p)
  then show "ertm_apply ev e = (r, e') \<Longrightarrow> e_params e' = e_params e"
    by (auto simp: receive_def discard_def case_prod_beta split: sum.splits l2cap_error.splits)
next
  case (Elapsed d)
  then show "ertm_apply ev e = (r, e') \<Longrightarrow> e_params e' = e_params e"
    by (auto simp: tick_eq poll_def Let_def split: prod.splits option.splits if_splits)
qed

lemma ertm_run_params: "ertm_run p e \<Longrightarrow> e_params e = p"
  by (induction rule: ertm_run.induct) (auto simp: ertm_new_def dest: params_apply)

text \<open>
  C4. In every state a channel reaches through any sequence of sends, received payloads
  (well formed or not) and ticks, the unacknowledged frames carry consecutive sequence numbers
  modulo 64, end just below the number the next frame gets, and are never more than the window
  the peer granted.
\<close>

theorem ertm_window:
  assumes "ertm_run p e"
  shows "\<exists>B N. B \<le> N \<and> N - B \<le> unat (ep_send_window p)
    \<and> map un_tx_seq (e_unacked e) = map seq_of [B..<N] \<and> e_next_tx_seq e = seq_of N"
proof -
  from ertm_run_inv [OF assms] have "core_ok e" by (simp add: ertm_inv_def)
  then obtain B N where w: "window_at B N e" by (auto simp: core_ok_def)
  from \<open>core_ok e\<close> have "N - B \<le> unat (ep_send_window p)"
    using window_at_length [OF w] ertm_run_params [OF assms] by (simp add: core_ok_def)
  with w show ?thesis unfolding window_at_def by blast
qed

text \<open>
  No frame is transmitted more often than the peer's \<open>max_transmit\<close> allows (a frame
  is always transmitted once).
\<close>

theorem ertm_transmissions_bounded:
  assumes "ertm_run p e" "f \<in> set (e_unacked e)"
  shows "1 \<le> un_transmissions f \<and> un_transmissions f \<le> max 1 (ep_max_transmit p)"
  using ertm_run_inv [OF assms(1)] ertm_run_params [OF assms(1)] assms(2)
  by (auto simp: ertm_inv_def core_ok_def budget_ok_def)

text \<open>
  A channel with work to do asks to be woken: when frames are unacknowledged, or
  queued towards a peer that has not declared itself busy, \<open>next_timeout\<close> is a deadline.
\<close>

theorem ertm_never_stalls:
  assumes "ertm_run p e" "0 < ep_send_window p"
    and "e_unacked e \<noteq> [] \<or> e_queued e \<noteq> [] \<and> \<not> e_remote_busy e"
  shows "next_timeout e \<noteq> None"
  using ertm_run_inv [OF assms(1)] ertm_run_params [OF assms(1)] assms(2,3)
  by (auto simp: ertm_inv_def drained_def armed_def timers_ok_def next_timeout_def
      word_less_nat_alt split: option.splits)

fun expiries :: "nat \<Rightarrow> ertm \<Rightarrow> ertm \<times> ertm_output" where
  "expiries 0 e = (e, out_default)"
| "expiries (Suc n) e =
     (case tick (the (next_timeout e)) e of (e', out) \<Rightarrow>
        if out_failed out then (e', out) else expiries n e')"

definition poll_budget :: "ertm \<Rightarrow> nat" where
  "poll_budget e = unat (ep_max_transmit (e_params e)) - unat (e_polls e)"

lemma expiries_waiting:
  "\<lbrakk>timers_ok e; e_waiting_for_final e\<rbrakk> \<Longrightarrow> out_failed (snd (expiries n e)) \<longleftrightarrow> poll_budget e < n"
proof (induction n arbitrary: e)
  case (Suc n)
  then obtain t where m: "e_monitor_timer e = Some t" by (auto simp: timers_ok_def)
  show ?case
  proof (cases "ep_max_transmit (e_params e) \<le> e_polls e")
    case True
    then show ?thesis by (simp add: m tick_eq next_timeout_def out_default_def poll_budget_def word_le_nat_alt)
  next
    case False
    define e' where "e' = fst (poll (e\<lparr>e_monitor_timer := None\<rparr>, out_default))"
    have lt: "unat (ep_max_transmit (e_params e)) < 2 ^ LENGTH(8)" by (rule unsigned_less)
    have t: "fst (tick t e) = e'" "\<not> out_failed (snd (tick t e))"
      using False by (simp_all add: m tick_eq e'_def poll_def Let_def push_frame_def out_default_def)
    have "timers_ok e'" "e_waiting_for_final e'"
      using False by (simp_all add: e'_def poll_def Let_def timers_ok_def sat_add_1_le max.coboundedI2)
    moreover have "Suc (poll_budget e') = poll_budget e"
      using False lt
      by (simp add: e'_def poll_def Let_def poll_budget_def unat_sat_add word_le_nat_alt)
    ultimately show ?thesis using Suc.IH [of e'] t
      by (simp add: m next_timeout_def case_prod_beta) linarith
  qed
qed (simp add: out_default_def)

text \<open>
  C7. A peer that falls silent is noticed in a bounded number of timeouts, exactly: with
  frames outstanding and no poll on the way, driving the engine by its own deadlines reports
  failure at timeout \<open>max_transmit + 1\<close> and at none before (a \<open>max_transmit\<close> of zero counts
  as one).
\<close>

theorem ertm_silent_peer:
  assumes "ertm_run p e" "e_unacked e \<noteq> []" "\<not> e_waiting_for_final e"
  shows "out_failed (snd (expiries n e)) \<longleftrightarrow> max 1 (unat (ep_max_transmit p)) < n"
proof (cases n)
  case 0
  then show ?thesis by (simp add: out_default_def)
next
  case (Suc k)
  have ok: "timers_ok e" "armed e" using ertm_run_inv [OF assms(1)] by (simp_all add: ertm_inv_def)
  then obtain t where m: "e_monitor_timer e = None" "e_retransmission_timer e = Some t"
    using assms(2,3) by (auto simp: timers_ok_def armed_def)
  define e' where "e' = fst (poll (e\<lparr>e_retransmission_timer := None\<rparr>, out_default))"
  have t: "fst (tick t e) = e'" "\<not> out_failed (snd (tick t e))"
    by (simp_all add: m tick_eq e'_def poll_def Let_def push_frame_def out_default_def)
  have p: "e_polls e = 0" using ok assms(3) by (simp add: timers_ok_def)
  then have "timers_ok e'" "e_waiting_for_final e'"
    by (simp_all add: e'_def poll_def Let_def timers_ok_def sat_add_def)
  moreover have "poll_budget e' = unat (ep_max_transmit p) - 1"
    using p ertm_run_params [OF assms(1)] by (simp add: e'_def poll_def Let_def poll_budget_def unat_sat_add)
  ultimately show ?thesis using expiries_waiting [of e' k] t Suc
    by (auto simp add: m next_timeout_def case_prod_beta)
qed

section \<open>The receive half on its own\<close>

text \<open>
  What the receive half is: the number it expects and the SDU it is putting together. A frame
  acts on it whatever the transmit half is doing.
\<close>

type_synonym rx_state = "u8 \<times> reassembly option"

definition rx_of :: "ertm \<Rightarrow> rx_state" where
  "rx_of e = (e_expected_tx_seq e, e_reassembly e)"

definition rx_segment ::
    "u16 \<Rightarrow> segmentation \<Rightarrow> u16 option \<Rightarrow> bytes \<Rightarrow> reassembly option \<Rightarrow> reassembly option \<times> bytes list" where
  "rx_segment mtu sar sdu_len payload re =
     (case sar of
        Unsegmented \<Rightarrow> (None, [payload])
      | Start \<Rightarrow>
          let expected = (case sdu_len of Some n \<Rightarrow> unat n | None \<Rightarrow> 0) in
          if unat mtu < expected then (None, [])
          else (Some \<lparr>re_expected = expected, re_buffer = payload\<rparr>, [])
      | Continuation \<Rightarrow>
          (map_option (\<lambda>st. st\<lparr>re_buffer := re_buffer st @ payload\<rparr>) re, [])
      | End \<Rightarrow>
          (None, case re of None \<Rightarrow> []
             | Some st \<Rightarrow> if length (re_buffer st @ payload) = re_expected st
                 then [re_buffer st @ payload] else []))"

fun rx_frame :: "u16 \<Rightarrow> frame \<Rightarrow> rx_state \<Rightarrow> rx_state \<times> bytes list" where
  "rx_frame mtu (Supervisory _ _ _ _) st = (st, [])"
| "rx_frame mtu (Information tx_seq _ _ sar sdu_len payload) (expected, re) =
     (if tx_seq = expected
      then case rx_segment mtu sar sdu_len payload re of (re', sdus) \<Rightarrow> ((next_seq expected, re'), sdus)
      else ((expected, re), []))"

lemma rx_of_fields:
  "rx_of (e\<lparr>e_unacked := u\<rparr>) = rx_of e"
  "rx_of (e\<lparr>e_queued := u\<rparr>) = rx_of e"
  "rx_of (e\<lparr>e_next_tx_seq := n\<rparr>) = rx_of e"
  "rx_of (e\<lparr>e_remote_busy := b\<rparr>) = rx_of e"
  "rx_of (e\<lparr>e_polls := n\<rparr>) = rx_of e"
  "rx_of (e\<lparr>e_waiting_for_final := b\<rparr>) = rx_of e"
  "rx_of (e\<lparr>e_retransmission_timer := t\<rparr>) = rx_of e"
  "rx_of (e\<lparr>e_monitor_timer := t\<rparr>) = rx_of e"
  "rx_of (e\<lparr>e_rejected := b\<rparr>) = rx_of e"
  "rx_of (e\<lparr>e_discarded := d\<rparr>) = rx_of e"
  by (simp_all add: rx_of_def)

lemma rx_of_acknowledge: "rx_of (acknowledge r e) = rx_of e"
  by (simp add: acknowledge_def Let_def rx_of_fields)

lemma rx_of_arm_timers: "rx_of (arm_timers e) = rx_of e"
  by (simp add: rx_of_def)

lemma rx_of_pump: "rx_of (fst (pump e out)) = rx_of e" "out_sdus (snd (pump e out)) = out_sdus out"
  by (simp_all add: pump_def pump_loop_eq Let_def rx_of_arm_timers rx_of_fields)

lemma rx_of_retransmits:
  "rx_of (fst (fold retransmit fs (e, out))) = rx_of e"
  "out_sdus (snd (fold retransmit fs (e, out))) = out_sdus out"
  by (simp_all add: retransmit_fold Let_def rx_of_fields)

lemma rx_of_retransmit_all:
  "rx_of (fst (retransmit_all s)) = rx_of (fst s)" "out_sdus (snd (retransmit_all s)) = out_sdus (snd s)"
  by (cases s; simp add: retransmit_all_def rx_of_retransmits)+

lemma rx_of_retransmit_one:
  "rx_of (fst (retransmit_one q s)) = rx_of (fst s)" "out_sdus (snd (retransmit_one q s)) = out_sdus (snd s)"
  by (cases s; simp add: retransmit_one_eq rx_of_retransmits)+

lemma rx_of_take_final:
  "rx_of (fst (take_final f s)) = rx_of (fst s)" "out_sdus (snd (take_final f s)) = out_sdus (snd s)"
  by (simp_all add: take_final_def Let_def case_prod_beta rx_of_retransmit_all rx_of_fields)

lemma rx_of_on_supervisory:
  "rx_of (fst (on_supervisory fn q p s)) = rx_of (fst s)"
  "out_sdus (snd (on_supervisory fn q p s)) = out_sdus (snd s)"
  by (cases fn; simp add: on_supervisory_def Let_def case_prod_beta rx_of_retransmit_all
      rx_of_retransmit_one rx_of_fields push_frame_def)+

lemma reassemble_rx:
  "e_expected_tx_seq (fst (reassemble sar len payload (e, out))) = e_expected_tx_seq e"
  "e_reassembly (fst (reassemble sar len payload (e, out))) =
     fst (rx_segment (ep_local_mtu (e_params e)) sar len payload (e_reassembly e))"
  "out_sdus (snd (reassemble sar len payload (e, out))) = out_sdus out @
     snd (rx_segment (ep_local_mtu (e_params e)) sar len payload (e_reassembly e))"
  by (cases sar; cases "e_reassembly e";
    simp add: reassemble_def rx_segment_def discard_def push_sdu_def Let_def)+

lemma on_information_rx:
  "rx_of (fst (on_information q sar len payload (e, out))) =
     fst (rx_frame (ep_local_mtu (e_params e)) (Information q r b sar len payload) (rx_of e))"
  "out_sdus (snd (on_information q sar len payload (e, out))) = out_sdus out @
     snd (rx_frame (ep_local_mtu (e_params e)) (Information q r b sar len payload) (rx_of e))"
  by (simp_all add: on_information_def Let_def rx_of_def reassemble_rx push_frame_def case_prod_beta)

lemma dispatch_rx:
  "rx_of (fst (dispatch f (e, out))) = fst (rx_frame (ep_local_mtu (e_params e)) f (rx_of e))"
  "out_sdus (snd (dispatch f (e, out))) = out_sdus out @ snd (rx_frame (ep_local_mtu (e_params e)) f (rx_of e))"
  by (cases f; simp add: dispatch_def rx_of_on_supervisory on_information_rx del: rx_frame.simps(2); simp)+

lemma handle_frame_rx:
  "rx_of (fst (handle_frame f e)) = fst (rx_frame (ep_local_mtu (e_params e)) f (rx_of e))"
  "out_sdus (snd (handle_frame f e)) = snd (rx_frame (ep_local_mtu (e_params e)) f (rx_of e))"
proof -
  define s where "s = take_final f (acknowledge (frame_req_seq f) e, out_default)"
  have s: "rx_of (fst s) = rx_of e" "out_sdus (snd s) = []" "e_params (fst s) = e_params e"
    by (simp_all add: s_def rx_of_take_final rx_of_acknowledge params_take_final out_default_def)
  show "rx_of (fst (handle_frame f e)) = fst (rx_frame (ep_local_mtu (e_params e)) f (rx_of e))"
    "out_sdus (snd (handle_frame f e)) = snd (rx_frame (ep_local_mtu (e_params e)) f (rx_of e))"
    using dispatch_rx [of f "fst s" "snd s"] s
    by (simp_all add: handle_frame_eq Let_def rx_of_arm_timers rx_of_pump flip: s_def)
qed

text \<open>
  C3. The receive half is independent of the transmit half: whatever is queued,
  unacknowledged or timed, one received payload changes the expected sequence number and the
  SDU under reassembly, and delivers SDUs, exactly as the abstract receiver \<open>rx_frame\<close> does
  with the decoded frame; a payload that does not decode changes neither.
\<close>

theorem receive_half_refines:
  assumes "receive payload e = (Inr out, e')"
  shows "(case frame_decode payload (ep_local_cid (e_params e)) (ep_fcs (e_params e)) of
      Inl _ \<Rightarrow> rx_of e' = rx_of e \<and> out_sdus out = []
    | Inr f \<Rightarrow> (rx_of e', out_sdus out) = rx_frame (ep_local_mtu (e_params e)) f (rx_of e))"
  using assms
  by (auto simp: receive_def discard_def rx_of_fields out_default_def prod_eq_iff
      case_prod_beta handle_frame_rx split: sum.splits l2cap_error.splits)

section \<open>Segmentation\<close>

definition segment_end :: "u16 \<Rightarrow> bytes \<Rightarrow> nat \<Rightarrow> nat" where
  "segment_end m sdu k = min (k + effective_mps m) (length sdu)"

lemma effective_mps_pos: "0 < effective_mps m"
  by (simp add: effective_mps_def)

lemma segments_from_less:
  "k < length sdu \<Longrightarrow> segments_from m sdu k =
     segment (if segment_end m sdu k = length sdu then End else Continuation) None
       (take (segment_end m sdu k - k) (drop k sdu)) # segments_from m sdu (segment_end m sdu k)"
  by (subst segments_from.simps) (simp add: Let_def segment_end_def)

lemma segments_from_ge: "length sdu \<le> k \<Longrightarrow> segments_from m sdu k = []"
  by (subst segments_from.simps) simp

lemma segment_end_bounds:
  "k < length sdu \<Longrightarrow> k < segment_end m sdu k"
  "segment_end m sdu k \<le> length sdu"
  "segment_end m sdu k - k \<le> effective_mps m"
  using effective_mps_pos [of m] by (auto simp: segment_end_def)

lemma take_segment_end:
  "k < length sdu \<Longrightarrow> take k sdu @ take (segment_end m sdu k - k) (drop k sdu) = take (segment_end m sdu k) sdu"
  using segment_end_bounds(1) [of k sdu m] by (simp add: take_add [symmetric])

lemma segments_from_induct [consumes 0, case_names more finished]:
  assumes "\<And>k. \<lbrakk>k < length sdu; P (segment_end m sdu k)\<rbrakk> \<Longrightarrow> P k" "\<And>k. length sdu \<le> k \<Longrightarrow> P k"
  shows "P k"
proof (induction "length sdu - k" arbitrary: k rule: less_induct)
  case less
  then show ?case
    using assms segment_end_bounds(1) [of k sdu m] by (cases "k < length sdu") auto
qed

lemma segments_from_payloads: "concat (map un_payload (segments_from m sdu k)) = drop k sdu"
proof (induction k rule: segments_from_induct [where m = m and sdu = sdu])
  case (more k)
  then have "take k sdu @ concat (map un_payload (segments_from m sdu k)) = sdu"
    using take_segment_end [of k sdu m]
    by (simp add: segments_from_less segment_def flip: append_assoc)
  then show ?case by (metis append_eq_conv_conj append_take_drop_id same_append_eq)
qed (simp add: segments_from_ge)

lemma segments_payloads: "concat (map un_payload (segments m sdu n)) = sdu"
  by (simp add: segments_def Let_def segments_from_payloads segment_def)

definition wire_len :: "unacked \<Rightarrow> nat" where
  "wire_len f = (if un_sar f = Start then 2 else 0) + length (un_payload f)"

lemma segments_from_wire_len:
  "\<forall>f\<in>set (segments_from m sdu k). wire_len f \<le> effective_mps m"
proof (induction k rule: segments_from_induct [where m = m and sdu = sdu])
  case (more k)
  then show ?case using segment_end_bounds(3) [of m sdu k]
    by (auto simp: segments_from_less segment_def wire_len_def)
qed (simp add: segments_from_ge)

lemma segments_wire_len:
  "f \<in> set (segments m sdu n) \<Longrightarrow> wire_len f \<le> max 3 (effective_mps m)"
proof -
  have w: "wire_len (segment sar len p) = (if sar = Start then 2 else 0) + length p" for sar len p
    by (simp add: wire_len_def segment_def)
  assume "f \<in> set (segments m sdu n)"
  then consider "wire_len f \<le> effective_mps m" | "wire_len f \<le> 2 + max (effective_mps m - 2) 1"
    using segments_from_wire_len [of m sdu]
    by (fastforce simp: segments_def Let_def w split: if_splits)
  then show ?thesis by cases auto
qed

lemma length_encode_information:
  "length (encode_information e f b) = 2 + wire_len f + (if fcs_is_present (ep_fcs (e_params e)) then 2 else 0)"
  by (simp add: encode_information_def frame_encode_def Let_def wire_len_def)

text \<open>
  A segment of an SDU fits the negotiated MPS: the frame that carries it is at most
  the MPS plus the control field and the checksum, the two bytes of SDU length on a start
  frame included (for an MPS of at least three bytes).
\<close>

theorem segment_frames_fit:
  assumes "f \<in> set (segments m sdu n)" "3 \<le> m"
  shows "length (encode_information e f b) \<le> unat m + max_overhead - 2"
  using segments_wire_len [OF assms(1)] assms(2)
  by (simp add: length_encode_information effective_mps_def max_overhead_def word_le_nat_alt)

fun rx_frames :: "u16 \<Rightarrow> frame list \<Rightarrow> rx_state \<Rightarrow> rx_state \<times> bytes list" where
  "rx_frames mtu [] st = (st, [])"
| "rx_frames mtu (f # fs) st =
     (case rx_frame mtu f st of (st, sdus) \<Rightarrow>
      case rx_frames mtu fs st of (st, sdus') \<Rightarrow> (st, sdus @ sdus'))"

text \<open>The segments, as what reassembly sees of them.\<close>

fun rx_segments :: "u16 \<Rightarrow> unacked list \<Rightarrow> reassembly option \<Rightarrow> reassembly option \<times> bytes list" where
  "rx_segments mtu [] re = (re, [])"
| "rx_segments mtu (f # fs) re =
     (case rx_segment mtu (un_sar f) (un_sdu_len f) (un_payload f) re of (re, sdus) \<Rightarrow>
      case rx_segments mtu fs re of (re, sdus') \<Rightarrow> (re, sdus @ sdus'))"

lemma rx_segments_append:
  "rx_segments mtu (fs @ gs) re =
     (case rx_segments mtu fs re of (re, sdus) \<Rightarrow>
      case rx_segments mtu gs re of (re, sdus') \<Rightarrow> (re, sdus @ sdus'))"
  by (induction fs arbitrary: re) (simp_all add: case_prod_beta)

lemma rx_segments_from:
  "k < length sdu \<Longrightarrow> rx_segments mtu (segments_from m sdu k)
     (Some \<lparr>re_expected = length sdu, re_buffer = take k sdu\<rparr>) = (None, [sdu])"
proof (induction k rule: segments_from_induct [where m = m and sdu = sdu])
  case (more k)
  note e = segments_from_less [OF more(1), of m]
  show ?case
  proof (cases "segment_end m sdu k = length sdu")
    case True
    with take_segment_end [OF more(1), of m] show ?thesis
      by (simp add: e segments_from_ge rx_segment_def segment_def)
  next
    case False
    then have lt: "segment_end m sdu k < length sdu"
      using segment_end_bounds(2) [of m sdu k] by simp
    from more(2) [OF lt] False take_segment_end [OF more(1), of m] show ?thesis
      by (simp add: e rx_segment_def segment_def)
  qed
qed simp

lemma rx_segments_sdu:
  assumes "length sdu < 2 ^ 16" "length sdu \<le> unat mtu"
  shows "rx_segments mtu (segments m sdu (of_nat (length sdu))) re = (None, [sdu])"
proof (cases "length sdu \<le> effective_mps m")
  case True
  then show ?thesis by (simp add: segments_def rx_segment_def segment_def)
next
  case False
  let ?k = "min (max (effective_mps m - 2) 1) (length sdu)"
  have "?k < length sdu" using False effective_mps_pos [of m] by auto
  from rx_segments_from [OF this, of mtu m] False assms show ?thesis
    by (simp add: segments_def Let_def rx_segment_def segment_def del: min_less_iff_conj)
qed

section \<open>From one engine to the other\<close>

definition same_link :: "ertm_parameters \<Rightarrow> ertm_parameters \<Rightarrow> bool" where
  "same_link p q \<longleftrightarrow> ep_remote_cid p = ep_local_cid q \<and> ep_fcs p = ep_fcs q"

definition information_of :: "ertm \<Rightarrow> unacked \<Rightarrow> bool \<Rightarrow> frame" where
  "information_of e f b = Information (un_tx_seq f) (e_expected_tx_seq e) b (un_sar f) (un_sdu_len f) (un_payload f)"

lemma receive_encoded:
  assumes "same_link (e_params a) (e_params b)" "frame_wf f"
  shows "receive (frame_encode f (ep_remote_cid (e_params a)) (ep_fcs (e_params a))) b =
    (Inr (snd (handle_frame f b)), fst (handle_frame f b))"
  using assms by (simp add: receive_def same_link_def frame_decode_def frame_check_encode
      frame_parse_body case_prod_beta)

lemma frame_wf_information_of:
  "\<lbrakk>un_tx_seq f < 64; e_expected_tx_seq e < 64; segment_ok f\<rbrakk> \<Longrightarrow> frame_wf (information_of e f b)"
  by (auto simp: information_of_def segment_ok_def)

lemma encode_information_eq:
  "encode_information e f b = frame_encode (information_of e f b) (ep_remote_cid (e_params e)) (ep_fcs (e_params e))"
  by (simp add: encode_information_def information_of_def)

fun receive_all :: "bytes list \<Rightarrow> ertm \<Rightarrow> bytes list \<times> ertm" where
  "receive_all [] e = ([], e)"
| "receive_all (p # ps) e =
     (case receive p e of (r, e) \<Rightarrow>
      case receive_all ps e of (sdus, e) \<Rightarrow>
        ((case r of Inl _ \<Rightarrow> [] | Inr out \<Rightarrow> out_sdus out) @ sdus, e))"

lemma receive_all_segments:
  assumes "same_link (e_params a) (e_params b)" "e_expected_tx_seq a < 64"
    "e_expected_tx_seq b < 64" "\<forall>f\<in>set fs. segment_ok f"
  shows "fst (receive_all (map (\<lambda>f. encode_information a f False) (numbered (e_expected_tx_seq b) fs)) b) =
    snd (rx_segments (ep_local_mtu (e_params b)) fs (e_reassembly b))"
  using assms
proof (induction fs arbitrary: b)
  case (Cons f fs)
  define g where "g = f\<lparr>un_tx_seq := e_expected_tx_seq b, un_transmissions := 1\<rparr>"
  define I where "I = information_of a g False"
  define b' where "b' = fst (handle_frame I b)"
  have wf: "frame_wf I" using Cons.prems unfolding I_def
    by (intro frame_wf_information_of) (simp_all add: g_def segment_ok_def)
  have r: "receive (encode_information a g False) b = (Inr (snd (handle_frame I b)), b')"
    unfolding encode_information_eq I_def [symmetric] b'_def
    by (rule receive_encoded [OF Cons.prems(1) wf])
  have rx: "rx_of b' = (next_seq (e_expected_tx_seq b),
      fst (rx_segment (ep_local_mtu (e_params b)) (un_sar f) (un_sdu_len f) (un_payload f) (e_reassembly b)))"
    "out_sdus (snd (handle_frame I b)) =
      snd (rx_segment (ep_local_mtu (e_params b)) (un_sar f) (un_sdu_len f) (un_payload f) (e_reassembly b))"
    using handle_frame_rx [of I b]
    by (simp_all add: b'_def I_def information_of_def g_def rx_of_def case_prod_beta)
  have b': "e_expected_tx_seq b' = next_seq (e_expected_tx_seq b)"
    "e_reassembly b' = fst (rx_segment (ep_local_mtu (e_params b)) (un_sar f) (un_sdu_len f) (un_payload f) (e_reassembly b))"
    "e_params b' = e_params b"
    using rx(1) by (simp_all add: rx_of_def b'_def)
  have "fst (receive_all (map (\<lambda>f. encode_information a f False) (numbered (e_expected_tx_seq b') fs)) b') =
      snd (rx_segments (ep_local_mtu (e_params b')) fs (e_reassembly b'))"
    using Cons.prems b' by (intro Cons.IH) simp_all
  with r rx b' show ?case by (simp add: g_def case_prod_beta)
qed simp

text \<open>
  C1. An SDU of up to 65535 bytes that the receiver's MTU admits, segmented for any MPS,
  numbered from what the receiver expects and encoded by the sending engine, comes out of the
  receiving engine exactly once and unchanged, from any state either engine can reach.
\<close>

theorem sdu_delivered:
  assumes "ertm_run p a" "ertm_run q b" "same_link p q"
    and "length sdu < 2 ^ 16" "length sdu \<le> unat (ep_local_mtu q)"
  shows "fst (receive_all (map (\<lambda>f. encode_information a f False)
      (numbered (e_expected_tx_seq b) (segments m sdu (of_nat (length sdu))))) b) = [sdu]"
proof -
  have "e_expected_tx_seq a < 64" "e_expected_tx_seq b < 64"
    using ertm_run_inv [OF assms(1)] ertm_run_inv [OF assms(2)] by (simp_all add: ertm_inv_def core_ok_def)
  then show ?thesis
    using assms(3-5) receive_all_segments [of a b] segments_ok
    by (simp add: ertm_run_params [OF assms(1)] ertm_run_params [OF assms(2)] rx_segments_sdu)
qed

section \<open>A run to apply the theorems to\<close>

definition sample_parameters :: ertm_parameters where
  "sample_parameters = \<lparr>ep_local_cid = 0x40, ep_remote_cid = 0x40, ep_fcs = Crc16,
     ep_send_mps = 4, ep_send_window = 2, ep_max_transmit = 3,
     ep_retransmission_timeout = default_retransmission_timeout,
     ep_monitor_timeout = default_monitor_timeout, ep_local_mtu = 672\<rparr>"

definition sample_ertm :: ertm where
  "sample_ertm = snd (send [1, 2, 3, 4, 5, 6, 7, 8, 9, 10, 11] (ertm_new sample_parameters))"

lemma sample_send:
  "\<exists>out. send [1, 2, 3, 4, 5, 6, 7, 8, 9, 10, 11] (ertm_new sample_parameters) = (Inr out, sample_ertm)
     \<and> \<not> out_failed out"
  by (simp add: sample_ertm_def send_def u16_try_from_def pump_def pump_loop_eq Let_def ertm_new_def
      out_default_def case_prod_beta)

lemma sample_run: "ertm_run sample_parameters sample_ertm"
proof -
  obtain out where "send [1, 2, 3, 4, 5, 6, 7, 8, 9, 10, 11] (ertm_new sample_parameters) = (Inr out, sample_ertm)"
    "\<not> out_failed out" using sample_send by blast
  then show ?thesis
    using ertm_step [OF ertm_start, of "SendSdu [1, 2, 3, 4, 5, 6, 7, 8, 9, 10, 11]"]
    by (auto simp: reports_failure_def)
qed

text \<open>Four segments, of which the window of two lets two out.\<close>

lemma sample_segments:
  "segments 4 [1, 2, 3, 4, 5, 6, 7, 8, 9, 10, 11] 11 =
     [segment Start (Some 11) [1, 2], segment Continuation None [3, 4, 5, 6],
      segment Continuation None [7, 8, 9, 10], segment End None [11]]"
  by (simp add: segments_def Let_def effective_mps_def segments_from_less segments_from_ge segment_end_def)

lemma sample_fields:
  "e_unacked sample_ertm =
     [(segment Start (Some 11) [1, 2])\<lparr>un_transmissions := 1\<rparr>,
      (segment Continuation None [3, 4, 5, 6])\<lparr>un_tx_seq := 1, un_transmissions := 1\<rparr>]"
  "\<not> e_waiting_for_final sample_ertm"
  by (simp_all add: sample_ertm_def send_def u16_try_from_def pump_def pump_loop_eq Let_def ertm_new_def
      case_prod_beta sample_parameters_def sample_segments room_def segment_def
      next_seq_def seq_modulo_def)

theorem ertm_window_witness:
  "\<exists>B N. B \<le> N \<and> N - B \<le> unat (ep_send_window sample_parameters)
    \<and> map un_tx_seq (e_unacked sample_ertm) = map seq_of [B..<N] \<and> e_next_tx_seq sample_ertm = seq_of N"
  by (rule ertm_window [OF sample_run])

theorem ertm_transmissions_bounded_witness:
  "un_transmissions (hd (e_unacked sample_ertm)) \<le> max 1 (ep_max_transmit sample_parameters)"
  using ertm_transmissions_bounded [OF sample_run, of "hd (e_unacked sample_ertm)"]
  by (simp add: sample_fields)

theorem ertm_never_stalls_witness: "next_timeout sample_ertm \<noteq> None"
  by (rule ertm_never_stalls [OF sample_run]) (simp_all add: sample_fields sample_parameters_def)

theorem ertm_silent_peer_witness:
  "out_failed (snd (expiries 4 sample_ertm)) \<and> \<not> out_failed (snd (expiries 3 sample_ertm))"
  using ertm_silent_peer [OF sample_run, of 4] ertm_silent_peer [OF sample_run, of 3]
  by (simp add: sample_fields) (simp add: sample_parameters_def)

theorem receive_half_refines_witness:
  "rx_frame 672 (Information 0 0 False Unsegmented None [9]) (rx_of (ertm_new (sample_parameters\<lparr>ep_fcs := NoFcs\<rparr>)))
     = ((1, None), [[9]]) \<and>
   rx_of (snd (receive [0, 0, 9] (ertm_new (sample_parameters\<lparr>ep_fcs := NoFcs\<rparr>)))) = (1, None)"
proof -
  define e where "e = ertm_new (sample_parameters\<lparr>ep_fcs := NoFcs\<rparr>)"
  have d: "frame_decode [0, 0, 9] (ep_local_cid (e_params e)) (ep_fcs (e_params e))
      = Inr (Information 0 0 False Unsegmented None [9])"
    by (simp add: e_def ertm_new_def sample_parameters_def frame_decode_def frame_check_def
        fcs_is_present_def frame_parse_def u16_at_def from_le16_def Let_def segmentation_from_bits_def)
  have "receive [0, 0, 9] e = (Inr (snd (handle_frame (Information 0 0 False Unsegmented None [9]) e)),
      snd (receive [0, 0, 9] e))"
    using d by (simp add: receive_def case_prod_beta)
  from receive_half_refines [OF this] d show ?thesis
    unfolding e_def [symmetric]
    by (simp add: rx_of_def rx_segment_def prod_eq_iff)
      (simp add: e_def ertm_new_def next_seq_def seq_modulo_def sample_parameters_def)
qed

theorem segment_frames_fit_witness:
  "length (encode_information sample_ertm (segment Start (Some 11) [1, 2]) False)
     \<le> unat (4 :: u16) + max_overhead - 2"
  by (rule segment_frames_fit [of _ 4 "[1, 2, 3, 4, 5, 6, 7, 8, 9, 10, 11]" 11])
    (simp_all add: sample_segments)

theorem sdu_delivered_witness:
  "fst (receive_all (map (\<lambda>f. encode_information sample_ertm f False)
      (numbered (e_expected_tx_seq sample_ertm) (segments 4 [1, 2, 3, 4, 5, 6] (of_nat (length [1, 2, 3, 4, 5, 6 :: u8])))))
      sample_ertm) = [[1, 2, 3, 4, 5, 6]]"
  by (rule sdu_delivered [OF sample_run sample_run])
    (simp_all add: same_link_def sample_parameters_def)

end
