(* ===== verification/Signaling.thy ===== *)
theory Signaling
  imports Ertm_Frame
begin

text \<open>
  \<^verbatim>\<open>crates/substrate-l2cap/src/signaling.rs\<close>: the commands of the signaling channel and
  their options, how they are encoded, and the two decoders of a C-frame. \<open>signals_decode_all\<close>
  fails on the first bad command, \<open>decode_frame\<close> keeps what parses and says what the peer is
  owed a rejection for.
\<close>

section \<open>Results\<close>

datatype connection_result =
    ConnSuccess | ConnPending | PsmNotSupported | SecurityBlock | NoResources | ConnOther u16

fun conn_bits :: "connection_result \<Rightarrow> u16" where
  "conn_bits ConnSuccess = 0x0000"
| "conn_bits ConnPending = 0x0001"
| "conn_bits PsmNotSupported = 0x0002"
| "conn_bits SecurityBlock = 0x0003"
| "conn_bits NoResources = 0x0004"
| "conn_bits (ConnOther raw) = raw"

definition conn_from_bits :: "u16 \<Rightarrow> connection_result" where
  "conn_from_bits raw =
     (if raw = 0x0000 then ConnSuccess else if raw = 0x0001 then ConnPending
      else if raw = 0x0002 then PsmNotSupported else if raw = 0x0003 then SecurityBlock
      else if raw = 0x0004 then NoResources else ConnOther raw)"

fun conn_reason :: "connection_result \<Rightarrow> string" where
  "conn_reason ConnSuccess = ''success''"
| "conn_reason ConnPending = ''pending''"
| "conn_reason PsmNotSupported = ''psm not supported''"
| "conn_reason SecurityBlock = ''security block''"
| "conn_reason NoResources = ''no resources''"
| "conn_reason (ConnOther _) = ''unknown result''"

datatype config_result =
    CfgSuccess | Unacceptable | Rejected | UnknownOptions | CfgPending | CfgOther u16

fun cfg_bits :: "config_result \<Rightarrow> u16" where
  "cfg_bits CfgSuccess = 0x0000"
| "cfg_bits Unacceptable = 0x0001"
| "cfg_bits Rejected = 0x0002"
| "cfg_bits UnknownOptions = 0x0003"
| "cfg_bits CfgPending = 0x0004"
| "cfg_bits (CfgOther raw) = raw"

definition cfg_from_bits :: "u16 \<Rightarrow> config_result" where
  "cfg_from_bits raw =
     (if raw = 0x0000 then CfgSuccess else if raw = 0x0001 then Unacceptable
      else if raw = 0x0002 then Rejected else if raw = 0x0003 then UnknownOptions
      else if raw = 0x0004 then CfgPending else CfgOther raw)"

section \<open>Configuration options\<close>

datatype config_option =
    Mtu u16
  | FlushTimeout u16
  | Retransmission retransmission_config
  | Fcs fcs_type
  | ExtendedWindowSize u16
  | UnknownOption u8 bool bytes

definition opt_mtu :: u8 where "opt_mtu = 0x01"
definition opt_flush_timeout :: u8 where "opt_flush_timeout = 0x02"
definition opt_retransmission :: u8 where "opt_retransmission = 0x04"
definition opt_fcs :: u8 where "opt_fcs = 0x05"
definition opt_extended_window_size :: u8 where "opt_extended_window_size = 0x07"
definition opt_hint_bit :: u8 where "opt_hint_bit = 0x80"

lemmas opt_defs = opt_mtu_def opt_flush_timeout_def opt_retransmission_def opt_fcs_def
  opt_extended_window_size_def opt_hint_bit_def

fun is_ignorable :: "config_option \<Rightarrow> bool" where
  "is_ignorable (Mtu _) = True"
| "is_ignorable (FlushTimeout _) = True"
| "is_ignorable (Retransmission _) = True"
| "is_ignorable (Fcs _) = True"
| "is_ignorable (ExtendedWindowSize _) = True"
| "is_ignorable (UnknownOption _ hint _) = hint"

fun option_encode :: "config_option \<Rightarrow> bytes" where
  "option_encode (Mtu mtu) = [opt_mtu, 2] @ le16 mtu"
| "option_encode (FlushTimeout t) = [opt_flush_timeout, 2] @ le16 t"
| "option_encode (Retransmission c) =
     (let body = rc_encode c in [opt_retransmission, u8_or_max (length body)] @ body)"
| "option_encode (Fcs fcs) = [opt_fcs, 1, fcs_bits fcs]"
| "option_encode (ExtendedWindowSize n) = [opt_extended_window_size, 2] @ le16 n"
| "option_encode (UnknownOption kind hint data) =
     [kind OR (if hint then opt_hint_bit else 0), u8_or_max (length data)] @ data"

definition option_of :: "u8 \<Rightarrow> bytes \<Rightarrow> l2cap_error + config_option" where
  "option_of raw_kind body =
     (let len = length body;
          hint = (raw_kind AND opt_hint_bit \<noteq> 0);
          kind = raw_kind AND NOT opt_hint_bit
      in
        if kind = opt_mtu \<and> len = 2 then Inr (Mtu (u16_at body 0))
        else if kind = opt_flush_timeout \<and> len = 2 then Inr (FlushTimeout (u16_at body 0))
        else if kind = opt_retransmission \<and> len = rc_len
        then bindE (rc_decode body) (\<lambda>c. Inr (Retransmission c))
        else if kind = opt_fcs \<and> len = 1 then Inr (Fcs (fcs_from_bits (body ! 0)))
        else if kind = opt_extended_window_size \<and> len = 2
        then Inr (ExtendedWindowSize (u16_at body 0))
        else Inr (UnknownOption kind hint body))"

function options_decode_all :: "bytes \<Rightarrow> l2cap_error + config_option list" where
  "options_decode_all buf =
     (if buf = [] then Inr []
      else if length buf < 2 then Inl (Truncated ''config option header'' 2 (length buf))
      else
        let raw_kind = buf ! 0; len = unat (buf ! 1) in
        if length buf < 2 + len
        then Inl (Truncated ''config option body'' (2 + len) (length buf))
        else
          bindE (option_of raw_kind (take len (drop 2 buf))) (\<lambda>opt.
          bindE (options_decode_all (drop (2 + len) buf)) (\<lambda>opts. Inr (opt # opts))))"
  by pat_completeness auto
termination by (relation "measure length") auto

declare options_decode_all.simps [simp del]

section \<open>Commands\<close>

definition not_understood :: u16 where "not_understood = 0x0000"
definition mtu_exceeded :: u16 where "mtu_exceeded = 0x0001"
definition invalid_cid :: u16 where "invalid_cid = 0x0002"

text \<open>
  The first argument of every command is its identifier. The others are, in the order of the
  source: \<open>CommandReject id reason data\<close>, \<open>ConnectionRequest id psm source_cid\<close>,
  \<open>ConnectionResponse id dest_cid source_cid result status\<close>,
  \<open>ConfigurationRequest id dest_cid flags options\<close>,
  \<open>ConfigurationResponse id source_cid flags result options\<close>,
  \<open>DisconnectionRequest id dest_cid source_cid\<close> and its response,
  \<open>InformationRequest id info_type\<close> and \<open>InformationResponse id info_type result data\<close>.
\<close>

datatype signal =
    CommandReject u8 u16 bytes
  | ConnectionRequest u8 psm cid
  | ConnectionResponse u8 cid cid connection_result u16
  | ConfigurationRequest u8 cid u16 "config_option list"
  | ConfigurationResponse u8 cid u16 config_result "config_option list"
  | DisconnectionRequest u8 cid cid
  | DisconnectionResponse u8 cid cid
  | EchoRequest u8 bytes
  | EchoResponse u8 bytes
  | InformationRequest u8 u16
  | InformationResponse u8 u16 u16 bytes

fun signal_id :: "signal \<Rightarrow> u8" where
  "signal_id (CommandReject i _ _) = i"
| "signal_id (ConnectionRequest i _ _) = i"
| "signal_id (ConnectionResponse i _ _ _ _) = i"
| "signal_id (ConfigurationRequest i _ _ _) = i"
| "signal_id (ConfigurationResponse i _ _ _ _) = i"
| "signal_id (DisconnectionRequest i _ _) = i"
| "signal_id (DisconnectionResponse i _ _) = i"
| "signal_id (EchoRequest i _) = i"
| "signal_id (EchoResponse i _) = i"
| "signal_id (InformationRequest i _) = i"
| "signal_id (InformationResponse i _ _ _) = i"

fun answers :: "signal \<Rightarrow> u8 option" where
  "answers (CommandReject i _ _) = Some i"
| "answers (ConnectionResponse i _ _ _ _) = Some i"
| "answers (ConfigurationResponse i _ _ _ _) = Some i"
| "answers (DisconnectionResponse i _ _) = Some i"
| "answers (EchoResponse i _) = Some i"
| "answers (InformationResponse i _ _ _) = Some i"
| "answers (ConnectionRequest _ _ _) = None"
| "answers (ConfigurationRequest _ _ _ _) = None"
| "answers (DisconnectionRequest _ _ _) = None"
| "answers (EchoRequest _ _) = None"
| "answers (InformationRequest _ _) = None"

fun signal_code :: "signal \<Rightarrow> u8" where
  "signal_code (CommandReject _ _ _) = 0x01"
| "signal_code (ConnectionRequest _ _ _) = 0x02"
| "signal_code (ConnectionResponse _ _ _ _ _) = 0x03"
| "signal_code (ConfigurationRequest _ _ _ _) = 0x04"
| "signal_code (ConfigurationResponse _ _ _ _ _) = 0x05"
| "signal_code (DisconnectionRequest _ _ _) = 0x06"
| "signal_code (DisconnectionResponse _ _ _) = 0x07"
| "signal_code (EchoRequest _ _) = 0x08"
| "signal_code (EchoResponse _ _) = 0x09"
| "signal_code (InformationRequest _ _) = 0x0A"
| "signal_code (InformationResponse _ _ _ _) = 0x0B"

fun signal_body :: "signal \<Rightarrow> bytes" where
  "signal_body (CommandReject _ reason data) = le16 reason @ data"
| "signal_body (ConnectionRequest _ p source_cid) = le16 p @ le16 source_cid"
| "signal_body (ConnectionResponse _ dest_cid source_cid result status) =
     le16 dest_cid @ le16 source_cid @ le16 (conn_bits result) @ le16 status"
| "signal_body (ConfigurationRequest _ dest_cid flags options) =
     le16 dest_cid @ le16 flags @ concat (map option_encode options)"
| "signal_body (ConfigurationResponse _ source_cid flags result options) =
     le16 source_cid @ le16 flags @ le16 (cfg_bits result) @ concat (map option_encode options)"
| "signal_body (DisconnectionRequest _ dest_cid source_cid) = le16 dest_cid @ le16 source_cid"
| "signal_body (DisconnectionResponse _ dest_cid source_cid) = le16 dest_cid @ le16 source_cid"
| "signal_body (EchoRequest _ data) = data"
| "signal_body (EchoResponse _ data) = data"
| "signal_body (InformationRequest _ info_type) = le16 info_type"
| "signal_body (InformationResponse _ info_type result data) = le16 info_type @ le16 result @ data"

definition signal_encode :: "signal \<Rightarrow> l2cap_error + bytes" where
  "signal_encode s =
     (let body = signal_body s in
      case u16_try_from (length body) of
        None \<Rightarrow> Inl (TooLong (length body) 65535)
      | Some len \<Rightarrow> Inr ([signal_code s, signal_id s] @ le16 len @ body))"

definition need :: "bytes \<Rightarrow> nat \<Rightarrow> l2cap_error + 'a \<Rightarrow> l2cap_error + 'a" where
  "need body n r =
     (if length body < n then Inl (Truncated ''signaling command'' n (length body)) else r)"

definition decode_one :: "u8 \<Rightarrow> u8 \<Rightarrow> bytes \<Rightarrow> l2cap_error + signal" where
  "decode_one code i body =
     (if code = 0x01 then need body 2 (Inr (CommandReject i (u16_at body 0) (drop 2 body)))
      else if code = 0x02 then
        need body 4 (bindE (psm_new (u16_at body 0)) (\<lambda>p. Inr (ConnectionRequest i p (u16_at body 2))))
      else if code = 0x03 then
        need body 8 (Inr (ConnectionResponse i (u16_at body 0) (u16_at body 2)
          (conn_from_bits (u16_at body 4)) (u16_at body 6)))
      else if code = 0x04 then
        need body 4 (bindE (options_decode_all (drop 4 body)) (\<lambda>options.
          Inr (ConfigurationRequest i (u16_at body 0) (u16_at body 2) options)))
      else if code = 0x05 then
        need body 6 (bindE (options_decode_all (drop 6 body)) (\<lambda>options.
          Inr (ConfigurationResponse i (u16_at body 0) (u16_at body 2)
            (cfg_from_bits (u16_at body 4)) options)))
      else if code = 0x06 then
        need body 4 (Inr (DisconnectionRequest i (u16_at body 0) (u16_at body 2)))
      else if code = 0x07 then
        need body 4 (Inr (DisconnectionResponse i (u16_at body 0) (u16_at body 2)))
      else if code = 0x08 then Inr (EchoRequest i body)
      else if code = 0x09 then Inr (EchoResponse i body)
      else if code = 0x0A then need body 2 (Inr (InformationRequest i (u16_at body 0)))
      else if code = 0x0B then
        need body 4 (Inr (InformationResponse i (u16_at body 0) (u16_at body 2) (drop 4 body)))
      else Inl (UnknownSignalingCode code))"

function signals_decode_all :: "bytes \<Rightarrow> l2cap_error + signal list" where
  "signals_decode_all buf =
     (if buf = [] then Inr []
      else if length buf < 4 then Inl (Truncated ''signaling header'' 4 (length buf))
      else
        let len = unat (u16_at buf 2) in
        if length buf < 4 + len then Inl (Truncated ''signaling body'' (4 + len) (length buf))
        else
          bindE (decode_one (buf ! 0) (buf ! 1) (take len (drop 4 buf))) (\<lambda>s.
          bindE (signals_decode_all (drop (4 + len) buf)) (\<lambda>ss. Inr (s # ss))))"
  by pat_completeness auto
termination by (relation "measure length") auto

declare signals_decode_all.simps [simp del]

record command_refusal =
  refusal_id :: u8
  refusal_reason :: u16

record decoded_frame =
  df_signals :: "signal list"
  df_rejects :: "command_refusal list"
  df_truncated :: bool

definition df_default :: decoded_frame where
  "df_default = \<lparr>df_signals = [], df_rejects = [], df_truncated = False\<rparr>"

definition push_reject :: "u8 \<Rightarrow> decoded_frame \<Rightarrow> decoded_frame" where
  "push_reject i frame = frame\<lparr>df_rejects := df_rejects frame
     @ [\<lparr>refusal_id = i, refusal_reason = not_understood\<rparr>]\<rparr>"

text \<open>The loop of \<open>decode_frame\<close>, over what it has collected and what is left of the buffer.\<close>

function decode_frame_from :: "decoded_frame \<Rightarrow> bytes \<Rightarrow> decoded_frame" where
  "decode_frame_from frame buf =
     (if buf = [] then frame
      else if length buf < 4 then frame\<lparr>df_truncated := True\<rparr>
      else
        let code = buf ! 0; i = buf ! 1; len = unat (u16_at buf 2) in
        if length buf < 4 + len then push_reject i (frame\<lparr>df_truncated := True\<rparr>)
        else
          let frame =
            (case decode_one code i (take len (drop 4 buf)) of
               Inr s \<Rightarrow> frame\<lparr>df_signals := df_signals frame @ [s]\<rparr>
             | Inl _ \<Rightarrow> push_reject i frame)
          in decode_frame_from frame (drop (4 + len) buf))"
  by pat_completeness auto
termination by (relation "measure (\<lambda>(_, buf). length buf)") auto

declare decode_frame_from.simps [simp del]

definition decode_frame :: "bytes \<Rightarrow> decoded_frame" where
  "decode_frame buf = decode_frame_from df_default buf"

section \<open>Options survive the wire\<close>

text \<open>
  The options the encoder can tell apart from others: a mode or checksum type with a name of
  its own is not spelled \<open>Other\<close>, and an unknown option is not one of the known ones at its
  length, has seven bits of type and at most 255 bytes.
\<close>

definition known_option :: "u8 \<Rightarrow> nat \<Rightarrow> bool" where
  "known_option kind len \<longleftrightarrow>
     (kind, len) \<in> {(opt_mtu, 2), (opt_flush_timeout, 2), (opt_retransmission, rc_len),
       (opt_fcs, 1), (opt_extended_window_size, 2)}"

fun option_wf :: "config_option \<Rightarrow> bool" where
  "option_wf (Retransmission c) \<longleftrightarrow> rc_mode c \<noteq> OtherMode 0 \<and> rc_mode c \<noteq> OtherMode 3"
| "option_wf (Fcs f) \<longleftrightarrow> f \<noteq> OtherFcs 0 \<and> f \<noteq> OtherFcs 1"
| "option_wf (UnknownOption kind _ data) \<longleftrightarrow>
     kind < 0x80 \<and> length data < 256 \<and> \<not> known_option kind (length data)"
| "option_wf _ \<longleftrightarrow> True"

lemma options_decode_step:
  assumes "length body < 256"
  shows "options_decode_all ([k, of_nat (length body)] @ body @ rest) =
    bindE (option_of k body) (\<lambda>opt. bindE (options_decode_all rest) (\<lambda>opts. Inr (opt # opts)))"
  using assms by (subst options_decode_all.simps) (simp add: Let_def)

lemma hint_fields:
  assumes "(kind :: u8) < 0x80"
  shows "(kind OR (if hint then opt_hint_bit else 0)) AND NOT opt_hint_bit = kind"
    "(kind OR (if hint then opt_hint_bit else 0)) AND opt_hint_bit \<noteq> 0 \<longleftrightarrow> hint"
proof -
  have "take_bit 7 (unat kind) = unat kind"
    using assms by (simp add: take_bit_nat_eq_self word_less_nat_alt)
  then have b: "n < 7" if "bit kind n" for n
    using that by (metis bit_take_bit_iff bit_unsigned_iff bit_imp_possible_bit possible_bit_nat)
  have hb: "opt_hint_bit = push_bit 7 1" by (simp add: opt_hint_bit_def)
  show "(kind OR (if hint then opt_hint_bit else 0)) AND NOT opt_hint_bit = kind"
    by (rule bit_word_eqI) (auto simp: hb bit_simps simp del: push_bit_of_1 dest: b)
  have "(kind OR (if hint then opt_hint_bit else 0)) AND opt_hint_bit = (if hint then opt_hint_bit else 0)"
    by (rule bit_word_eqI) (auto simp: hb bit_simps simp del: push_bit_of_1 dest: b)
  then show "(kind OR (if hint then opt_hint_bit else 0)) AND opt_hint_bit \<noteq> 0 \<longleftrightarrow> hint"
    by (simp add: opt_hint_bit_def)
qed

lemma fcs_from_bits_fcs_bits: "f \<noteq> OtherFcs 0 \<Longrightarrow> f \<noteq> OtherFcs 1 \<Longrightarrow> fcs_from_bits (fcs_bits f) = f"
  by (cases f) (auto simp: fcs_from_bits_def)

lemma length_rc_encode [simp]: "length (rc_encode c) = rc_len"
  by (simp add: rc_encode_def rc_len_def)

lemma options_decode_option:
  assumes "option_wf opt"
  shows "options_decode_all (option_encode opt @ rest) =
    bindE (options_decode_all rest) (\<lambda>opts. Inr (opt # opts))"
proof (cases opt)
  case (Mtu w)
  then show ?thesis using options_decode_step [of "le16 w" opt_mtu rest]
    by (simp add: option_of_def opt_defs)
next
  case (FlushTimeout w)
  then show ?thesis using options_decode_step [of "le16 w" opt_flush_timeout rest]
    by (simp add: option_of_def opt_defs)
next
  case (Retransmission c)
  then have "rc_decode (rc_encode c) = Inr c"
    using assms rc_decode_encode [of c "[]"] by (simp add: mode_from_bits_mode_bits)
  then show ?thesis using Retransmission options_decode_step [of "rc_encode c" opt_retransmission rest]
    by (simp add: option_of_def opt_defs rc_len_def u8_or_max_def Let_def)
next
  case (Fcs f)
  then show ?thesis using assms options_decode_step [of "[fcs_bits f]" opt_fcs rest]
    by (simp add: option_of_def opt_defs fcs_from_bits_fcs_bits rc_len_def)
next
  case (ExtendedWindowSize w)
  then show ?thesis using options_decode_step [of "le16 w" opt_extended_window_size rest]
    by (simp add: option_of_def opt_defs rc_len_def)
next
  case (UnknownOption kind hint data)
  let ?k = "kind OR (if hint then opt_hint_bit else 0)"
  have "option_of ?k data = Inr opt"
    using assms UnknownOption by (auto simp: option_of_def hint_fields Let_def known_option_def)
  then show ?thesis using assms UnknownOption options_decode_step [of data ?k rest]
    by (simp add: u8_or_max_def)
qed

interpretation options: stream_codec option_encode option_wf options_decode_all
  by unfold_locales (simp_all add: options_decode_option options_decode_all.simps [of "[]"])

section \<open>Commands survive the wire\<close>

fun signal_wf :: "signal \<Rightarrow> bool" where
  "signal_wf (ConnectionRequest _ p _) \<longleftrightarrow> psm_new p = Inr p"
| "signal_wf (ConnectionResponse _ _ _ r _) \<longleftrightarrow> conn_from_bits (conn_bits r) = r"
| "signal_wf (ConfigurationRequest _ _ _ opts) \<longleftrightarrow> list_all option_wf opts"
| "signal_wf (ConfigurationResponse _ _ _ r opts) \<longleftrightarrow>
     cfg_from_bits (cfg_bits r) = r \<and> list_all option_wf opts"
| "signal_wf _ \<longleftrightarrow> True"

lemma u16_at_le16_more:
  "u16_at (le16 a @ le16 b) 2 = b"
  "u16_at (le16 a @ le16 b @ bs) 2 = b"
  "u16_at (le16 a @ le16 b @ le16 c @ bs) 4 = c"
  "u16_at (le16 a @ le16 b @ le16 c @ le16 d) 6 = d"
  by (simp_all add: u16_at_def le16_def)

lemma drop_le16 [simp]: "drop 2 (le16 w @ bs) = bs"
  "drop 4 (le16 v @ le16 w @ bs) = bs"
  "drop 6 (le16 v @ le16 w @ le16 x @ bs) = bs"
  by (simp_all add: le16_def)

lemma decode_one_encode:
  assumes "signal_wf s"
  shows "decode_one (signal_code s) (signal_id s) (signal_body s) = Inr s"
  using assms options.dec_all
  by (cases s) (simp_all add: decode_one_def need_def u16_at_le16 u16_at_le16_more list_all_iff)

definition packed_command :: "u8 \<Rightarrow> u8 \<Rightarrow> bytes \<Rightarrow> bytes" where
  "packed_command code i body = [code, i] @ le16 (of_nat (length body)) @ body"

lemma drop_4_Cons: "drop (4 + n) (a # b # c # d # xs) = drop n xs"
  by (simp add: eval_nat_numeral)

lemma signals_decode_step:
  assumes "length body < 65536"
  shows "signals_decode_all (packed_command code i body @ rest) =
    bindE (decode_one code i body) (\<lambda>s. bindE (signals_decode_all rest) (\<lambda>ss. Inr (s # ss)))"
  using assms
  by (subst signals_decode_all.simps) (simp add: Let_def packed_command_def u16_at_def nth_append le16_def drop_4_Cons)

definition add_command :: "u8 \<Rightarrow> u8 \<Rightarrow> bytes \<Rightarrow> decoded_frame \<Rightarrow> decoded_frame" where
  "add_command code i body frame =
     (case decode_one code i body of
        Inr s \<Rightarrow> frame\<lparr>df_signals := df_signals frame @ [s]\<rparr>
      | Inl _ \<Rightarrow> push_reject i frame)"

lemma decode_frame_step:
  assumes "length body < 65536"
  shows "decode_frame_from frame (packed_command code i body @ rest) =
    decode_frame_from (add_command code i body frame) rest"
  using assms
  by (subst decode_frame_from.simps)
    (simp add: Let_def packed_command_def u16_at_def nth_append le16_def drop_4_Cons add_command_def)

lemma decode_frame_Nil [simp]: "decode_frame_from frame [] = frame"
  by (subst decode_frame_from.simps) simp

definition signal_bytes :: "signal \<Rightarrow> bytes" where
  "signal_bytes s = packed_command (signal_code s) (signal_id s) (signal_body s)"

definition signal_fits :: "signal \<Rightarrow> bool" where
  "signal_fits s \<longleftrightarrow> signal_wf s \<and> length (signal_body s) < 65536"

lemma signal_encode_eq: "signal_encode s = Inr bs \<longleftrightarrow> length (signal_body s) < 65536 \<and> bs = signal_bytes s"
  by (auto simp: signal_encode_def signal_bytes_def Let_def u16_try_from_eq_Some packed_command_def
      u16_try_from_def split: option.splits if_splits)

interpretation signals: stream_codec signal_bytes signal_fits signals_decode_all
  by unfold_locales
    (simp_all add: signal_fits_def signal_bytes_def signals_decode_step decode_one_encode
      signals_decode_all.simps [of "[]"])

lemma signals_decode_encoded:
  assumes "list_all2 (\<lambda>s bs. signal_wf s \<and> signal_encode s = Inr bs) ss bss"
  shows "signals_decode_all (concat bss) = Inr ss"
proof -
  from assms have "list_all signal_fits ss \<and> bss = map signal_bytes ss"
    by (induction rule: list_all2_induct) (simp_all add: signal_fits_def signal_encode_eq)
  then show ?thesis using signals.dec_all by simp
qed

text \<open>
  The two decoders agree: \<open>signals_decode_all\<close> succeeds exactly when \<open>decode_frame\<close> refuses
  nothing, and then on the same commands.
\<close>

lemma decode_frame_from_eq:
  "decode_frame_from frame buf = \<lparr>df_signals = df_signals frame @ df_signals (decode_frame buf),
     df_rejects = df_rejects frame @ df_rejects (decode_frame buf),
     df_truncated = (df_truncated frame \<or> df_truncated (decode_frame buf))\<rparr>"
proof (induction "length buf" arbitrary: frame buf rule: less_induct)
  case less
  show ?case
  proof (cases "buf = [] \<or> length buf < 4 \<or> length buf < 4 + unat (u16_at buf 2)")
    case True
    then show ?thesis unfolding decode_frame_def
      by (subst (1 2 3 4) decode_frame_from.simps) (auto simp: Let_def df_default_def push_reject_def)
  next
    case False
    let ?rest = "drop (4 + unat (u16_at buf 2)) buf"
    have lt: "length ?rest < length buf" using False by simp
    have e: "decode_frame_from f buf = decode_frame_from
        (add_command (buf ! 0) (buf ! 1) (take (unat (u16_at buf 2)) (drop 4 buf)) f) ?rest" for f
      using False by (subst decode_frame_from.simps) (simp add: Let_def add_command_def)
    show ?thesis
      unfolding decode_frame_def e [of frame] e [of df_default] less [OF lt, of "add_command _ _ _ frame"]
        less [OF lt, of "add_command _ _ _ df_default"]
      by (auto simp: add_command_def push_reject_def df_default_def split: sum.split)
  qed
qed

lemma decoders_agree_iff:
  "signals_decode_all buf = Inr ss \<longleftrightarrow> decode_frame buf = \<lparr>df_signals = ss, df_rejects = [], df_truncated = False\<rparr>"
proof (induction "length buf" arbitrary: ss buf rule: less_induct)
  case less
  show ?case
  proof (cases "buf = [] \<or> length buf < 4 \<or> length buf < 4 + unat (u16_at buf 2)")
    case True
    then show ?thesis unfolding decode_frame_def
      by (subst decode_frame_from.simps, subst signals_decode_all.simps)
        (auto simp: Let_def df_default_def push_reject_def)
  next
    case False
    let ?rest = "drop (4 + unat (u16_at buf 2)) buf"
    let ?one = "decode_one (buf ! 0) (buf ! 1) (take (unat (u16_at buf 2)) (drop 4 buf))"
    have lt: "length ?rest < length buf" using False by simp
    have e: "decode_frame buf = decode_frame_from
        (add_command (buf ! 0) (buf ! 1) (take (unat (u16_at buf 2)) (drop 4 buf)) df_default) ?rest"
      unfolding decode_frame_def using False
      by (subst decode_frame_from.simps) (simp add: Let_def add_command_def)
    have d: "signals_decode_all buf = bindE ?one (\<lambda>s. bindE (signals_decode_all ?rest) (\<lambda>ss. Inr (s # ss)))"
      using False by (subst signals_decode_all.simps) (simp add: Let_def)
    show ?thesis
    proof (cases ?one)
      case (Inl err)
      then show ?thesis unfolding e d decode_frame_from_eq [of _ ?rest]
        by (simp add: add_command_def push_reject_def df_default_def)
    next
      case (Inr s)
      then show ?thesis unfolding e d decode_frame_from_eq [of _ ?rest]
        using less [OF lt]
        by (cases "decode_frame ?rest"; cases "signals_decode_all ?rest")
          (auto simp add: add_command_def df_default_def)
    qed
  qed
qed

text \<open>
  Configuration options survive the wire: every list of options the encoder can tell apart
  decodes to itself, in order, the hint bit of an unknown option included.
\<close>

theorem options_roundtrip:
  assumes "list_all option_wf opts"
  shows "options_decode_all (concat (map option_encode opts)) = Inr opts"
  by (rule options.dec_all [OF assms])

theorem options_roundtrip_witness:
  "options_decode_all (concat (map option_encode [Mtu 1691, Retransmission (rc_ertm 1010),
      Fcs Crc16, UnknownOption 0x55 True [7, 8]]))
    = Inr [Mtu 1691, Retransmission (rc_ertm 1010), Fcs Crc16, UnknownOption 0x55 True [7, 8]]"
  by (rule options_roundtrip) (simp add: rc_ertm_def known_option_def opt_defs)

text \<open>
  Signaling commands survive the wire: any number of well-formed commands packed into one
  frame are all decoded, in order, by both decoders, and nothing is refused.
\<close>

theorem signals_roundtrip:
  assumes "list_all2 (\<lambda>s bs. signal_wf s \<and> signal_encode s = Inr bs) ss bss"
  shows "signals_decode_all (concat bss) = Inr ss \<and>
    decode_frame (concat bss) = \<lparr>df_signals = ss, df_rejects = [], df_truncated = False\<rparr>"
  using signals_decode_encoded [OF assms] decoders_agree_iff by blast

theorem signals_roundtrip_witness:
  "signals_decode_all (concat [[0x02, 1, 4, 0, 0x19, 0, 0x40, 0], [0x08, 2, 1, 0, 9]])
     = Inr [ConnectionRequest 1 0x19 0x40, EchoRequest 2 [9]]"
  by (rule signals_roundtrip [THEN conjunct1])
    (simp add: signal_encode_def u16_try_from_def Let_def le16_def psm_new_def)

text \<open>
  The two decoders agree: \<open>decode_all\<close> succeeds exactly when \<open>decode_frame\<close> refuses nothing
  and is not cut short, and then they find the same commands.
\<close>

theorem decoders_agree:
  "signals_decode_all buf = Inr ss \<longleftrightarrow>
     decode_frame buf = \<lparr>df_signals = ss, df_rejects = [], df_truncated = False\<rparr>"
  by (rule decoders_agree_iff)

fun understood :: "u8 \<times> u8 \<times> bytes \<Rightarrow> signal list" where
  "understood (code, i, body) = (case decode_one code i body of Inr s \<Rightarrow> [s] | Inl _ \<Rightarrow> [])"

fun refused :: "u8 \<times> u8 \<times> bytes \<Rightarrow> command_refusal list" where
  "refused (code, i, body) = (case decode_one code i body of Inr _ \<Rightarrow> []
     | Inl _ \<Rightarrow> [\<lparr>refusal_id = i, refusal_reason = not_understood\<rparr>])"

lemma decode_frame_from_commands:
  "list_all (\<lambda>(_, _, body). length body < 65536) cs \<Longrightarrow>
    decode_frame_from frame (concat (map (\<lambda>(code, i, body). packed_command code i body) cs)) =
    frame\<lparr>df_signals := df_signals frame @ concat (map understood cs),
      df_rejects := df_rejects frame @ concat (map refused cs)\<rparr>"
proof (induction cs arbitrary: frame)
  case (Cons c cs)
  obtain code i body where c: "c = (code, i, body)" by (cases c)
  with Cons show ?case
    by (cases "decode_one code i body")
      (simp_all add: decode_frame_step add_command_def push_reject_def)
qed simp

text \<open>
  One bad command does not cost the peer the good ones packed with it: of any sequence of
  commands whose lengths are right, \<open>decode_frame\<close> acts on every one that decodes, in order, and
  refuses each of the others, in order, under its own identifier.
\<close>

theorem decode_frame_isolates:
  assumes "list_all (\<lambda>(_, _, body). length body < 65536) cs"
  shows "decode_frame (concat (map (\<lambda>(code, i, body). packed_command code i body) cs)) =
    \<lparr>df_signals = concat (map understood cs), df_rejects = concat (map refused cs),
     df_truncated = False\<rparr>"
  using decode_frame_from_commands [OF assms, of df_default]
  by (simp add: decode_frame_def df_default_def)

theorem decode_frame_isolates_witness:
  "df_signals (decode_frame (concat (map (\<lambda>(code, i, body). packed_command code i body)
      [(0x0C, 4, [0, 0]), (0x08, 5, [1])]))) = [EchoRequest 5 [1]] \<and>
   map refusal_id (df_rejects (decode_frame (concat (map (\<lambda>(code, i, body). packed_command code i body)
      [(0x0C, 4, [0, 0]), (0x08, 5, [1])])))) = [4]"
  using decode_frame_isolates [of "[(0x0C, 4, [0, 0]), (0x08, 5, [1])]"]
  by (simp add: decode_one_def)

end
