(* ===== verification/Mux.thy ===== *)
theory Mux
  imports Ertm_Run Signaling
begin

text \<open>
  \<^verbatim>\<open>crates/substrate-l2cap/src/mux.rs\<close>: the multiplexer of one ACL link. It owns the
  channels, the retransmission engine of each, the services listened on, and the requests that
  wait for an answer, and turns PDUs, requests of the caller and elapsed time into events. Each
  method of \<open>Multiplexer\<close> is a \<open>meth\<close> here: the state it leaves behind is part of its value
  when it fails as well.
\<close>

section \<open>Constants\<close>

definition default_mtu :: u16 where "default_mtu = 672"
definition ertm_mtu :: u16 where "ertm_mtu = 8192"
definition max_config_attempts :: u8 where "max_config_attempts = 4"
definition continuation_flag :: u16 where "continuation_flag = 0x0001"
definition rtx :: duration where "rtx = from_secs 4"
definition rtx_retries :: u8 where "rtx_retries = 2"
definition ertx :: duration where "ertx = from_secs 60"

section \<open>State\<close>

text \<open>\<open>WaitConfig outgoing_done incoming_done\<close>\<close>

datatype channel_state = WaitConnectRsp | WaitConfig bool bool | Open | WaitDisconnect

fun state_label :: "channel_state \<Rightarrow> string" where
  "state_label WaitConnectRsp = ''waiting for connection response''"
| "state_label (WaitConfig _ _) = ''configuring''"
| "state_label Open = ''open''"
| "state_label WaitDisconnect = ''disconnecting''"

record mode_parameters =
  mp_fcs :: fcs_type
  mp_send_mps :: u16
  mp_send_window :: u8
  mp_max_transmit :: u8
  mp_retransmission_timeout :: duration
  mp_monitor_timeout :: duration

definition mp_default :: mode_parameters where
  "mp_default = \<lparr>mp_fcs = Crc16, mp_send_mps = default_mtu, mp_send_window = default_tx_window,
     mp_max_transmit = default_max_transmit,
     mp_retransmission_timeout = default_retransmission_timeout,
     mp_monitor_timeout = default_monitor_timeout\<rparr>"

record channel =
  ch_local_cid :: cid
  ch_remote_cid :: cid
  ch_psm :: psm
  ch_state :: channel_state
  ch_local_mtu :: u16
  ch_remote_mtu :: u16
  ch_mode :: channel_mode
  ch_parameters :: mode_parameters
  ch_config_id :: "u8 option"
  ch_proposed_mode :: channel_mode
  ch_initiator :: bool
  ch_config_attempts :: u8

datatype l2cap_event =
    Send l2cap_pdu
  | ChannelOpen cid psm u16
  | ChannelClosed cid psm
  | Data cid psm bytes
  | ConnectFailed psm connection_result

datatype on_expiry = Resend | GiveUp

record outstanding =
  os_raw_cid :: u16
  os_request :: signal
  os_remaining :: duration
  os_retries :: u8
  os_on_expiry :: on_expiry

record mux =
  mx_channels :: "(u16, channel) tbl"
  mx_ertm :: "(u16, ertm) tbl"
  mx_listening :: "(psm \<times> channel_mode) list"
  mx_next_cid :: u16
  mx_next_id :: u8
  mx_pending :: "(u8, u16) tbl"
  mx_outstanding :: "(u8, outstanding) tbl"
  mx_local_mtu :: u16

definition mux_new :: "u16 \<Rightarrow> mux" where
  "mux_new local_mtu = \<lparr>mx_channels = [], mx_ertm = [], mx_listening = [],
     mx_next_cid = dynamic_start, mx_next_id = 1, mx_pending = [], mx_outstanding = [],
     mx_local_mtu = local_mtu\<rparr>"

fun listen_in :: "psm \<Rightarrow> channel_mode \<Rightarrow> (psm \<times> channel_mode) list \<Rightarrow> (psm \<times> channel_mode) list" where
  "listen_in p mode [] = [(p, mode)]"
| "listen_in p mode ((q, m) # rest) =
     (if q = p then (q, mode) # rest else (q, m) # listen_in p mode rest)"

definition listen_with :: "psm \<Rightarrow> channel_mode \<Rightarrow> mux \<Rightarrow> mux" where
  "listen_with p mode mx = mx\<lparr>mx_listening := listen_in p mode (mx_listening mx)\<rparr>"

definition listen :: "psm \<Rightarrow> mux \<Rightarrow> mux" where
  "listen p = listen_with p Basic"

definition mux_channel :: "mux \<Rightarrow> cid \<Rightarrow> channel option" where
  "mux_channel mx c = tbl_get (mx_channels mx) c"

definition channel_for :: "mux \<Rightarrow> psm \<Rightarrow> channel option" where
  "channel_for mx p =
     find (\<lambda>ch. ch_psm ch = p \<and> ch_state ch = Open) (map snd (mx_channels mx))"

definition ceiling_for :: "channel_mode \<Rightarrow> u16 \<Rightarrow> u16" where
  "ceiling_for mode basic_mtu =
     (if mode = EnhancedRetransmission then max ertm_mtu basic_mtu else basic_mtu)"

definition ms :: "duration \<Rightarrow> u16" where
  "ms d = u16_or_max (as_millis d)"

definition mode_mtu :: "mux \<Rightarrow> channel_mode \<Rightarrow> u16" where
  "mode_mtu mx mode = ceiling_for mode (mx_local_mtu mx)"

definition receive_mps :: "mux \<Rightarrow> u16" where
  "receive_mps mx = max (sat_sub (mx_local_mtu mx) (u16_or_max max_overhead)) 1"

section \<open>Identifiers\<close>

definition next_cid :: "u16 \<Rightarrow> u16" where
  "next_cid c = (if c = 0xFFFF then dynamic_start else c + 1)"

fun alloc_cid_loop :: "nat \<Rightarrow> (mux, l2cap_error, cid) meth" where
  "alloc_cid_loop 0 mx = (Inl OutOfCids, mx)"
| "alloc_cid_loop (Suc n) mx =
     (let candidate = mx_next_cid mx;
          mx = mx\<lparr>mx_next_cid := next_cid candidate\<rparr>
      in if tbl_get (mx_channels mx) candidate = None then (Inr candidate, mx)
         else alloc_cid_loop n mx)"

definition alloc_cid :: "(mux, l2cap_error, cid) meth" where
  "alloc_cid = alloc_cid_loop (0xFFFF - 0x0040)"

definition alloc_id :: "mux \<Rightarrow> u8 \<times> mux" where
  "alloc_id mx =
     (let i = mx_next_id mx;
          next_id = (if i = 0xFF then 1 else i + 1)
      in (i, mx\<lparr>mx_next_id := if next_id = 0 then 1 else next_id\<rparr>))"

section \<open>Sending and timing requests\<close>

definition pdu_event :: "cid \<Rightarrow> bytes \<Rightarrow> l2cap_event" where
  "pdu_event c payload = Send \<lparr>pdu_cid = c, pdu_payload = payload\<rparr>"

definition signal_event :: "signal \<Rightarrow> l2cap_error + l2cap_event" where
  "signal_event s = bindE (signal_encode s) (\<lambda>bs. Inr (pdu_event cid_signaling bs))"

definition awaiting :: "u8 \<Rightarrow> u16 \<Rightarrow> signal \<Rightarrow> mux \<Rightarrow> mux" where
  "awaiting i raw_cid request mx = mx\<lparr>mx_outstanding := tbl_put i
     \<lparr>os_raw_cid = raw_cid, os_request = request, os_remaining = rtx, os_retries = 0,
      os_on_expiry = Resend\<rparr> (mx_outstanding mx)\<rparr>"

definition retire_timers :: "u16 \<Rightarrow> mux \<Rightarrow> mux" where
  "retire_timers raw_cid mx =
     mx\<lparr>mx_outstanding := filter (\<lambda>(_, out). os_raw_cid out \<noteq> raw_cid) (mx_outstanding mx)\<rparr>"

definition put_channel :: "u16 \<Rightarrow> channel \<Rightarrow> mux \<Rightarrow> mux" where
  "put_channel raw ch mx = mx\<lparr>mx_channels := tbl_put raw ch (mx_channels mx)\<rparr>"

definition drop_channel :: "u16 \<Rightarrow> mux \<Rightarrow> mux" where
  "drop_channel raw mx = mx\<lparr>mx_channels := tbl_del raw (mx_channels mx)\<rparr>"

definition drop_ertm :: "u16 \<Rightarrow> mux \<Rightarrow> mux" where
  "drop_ertm raw mx = mx\<lparr>mx_ertm := tbl_del raw (mx_ertm mx)\<rparr>"

definition drop_pending :: "u8 \<Rightarrow> mux \<Rightarrow> mux" where
  "drop_pending i mx = mx\<lparr>mx_pending := tbl_del i (mx_pending mx)\<rparr>"

text \<open>\<open>new_channel\<close> is the channel both \<open>connect_with\<close> and \<open>on_connection_request\<close> insert.\<close>

definition new_channel ::
    "cid \<Rightarrow> cid \<Rightarrow> psm \<Rightarrow> channel_state \<Rightarrow> u16 \<Rightarrow> channel_mode \<Rightarrow> bool \<Rightarrow> channel" where
  "new_channel local_cid remote_cid p st local_mtu mode initiator =
     \<lparr>ch_local_cid = local_cid, ch_remote_cid = remote_cid, ch_psm = p, ch_state = st,
      ch_local_mtu = local_mtu, ch_remote_mtu = default_mtu, ch_mode = mode,
      ch_parameters = mp_default, ch_config_id = None, ch_proposed_mode = mode,
      ch_initiator = initiator, ch_config_attempts = 0\<rparr>"

definition connect_with ::
    "psm \<Rightarrow> channel_mode \<Rightarrow> (mux, l2cap_error, cid \<times> l2cap_event list) meth" where
  "connect_with p mode =
     bindS alloc_cid (\<lambda>local_cid mx.
       let (i, mx) = alloc_id mx;
           mx = put_channel local_cid
             (new_channel local_cid cid_null p WaitConnectRsp (mode_mtu mx mode) mode True) mx;
           mx = mx\<lparr>mx_pending := tbl_put i local_cid (mx_pending mx)\<rparr>;
           request = ConnectionRequest i p local_cid
       in case signal_event request of
            Inl e \<Rightarrow> (Inl e, mx)
          | Inr ev \<Rightarrow> (Inr (local_cid, [ev]), awaiting i local_cid request mx))"

definition connect :: "psm \<Rightarrow> (mux, l2cap_error, cid \<times> l2cap_event list) meth" where
  "connect p = connect_with p Basic"

text \<open>\<open>fail_channel\<close> and \<open>fail_configuration\<close> differ in whether the disconnection is timed.\<close>

definition fail_channel :: "cid \<Rightarrow> mux \<Rightarrow> l2cap_event list \<times> mux" where
  "fail_channel c mx =
     (let mx = retire_timers c (drop_ertm c mx) in
      case tbl_get (mx_channels mx) c of
        None \<Rightarrow> ([], mx)
      | Some ch \<Rightarrow>
          let (i, mx) = alloc_id (drop_channel c mx);
              request = DisconnectionRequest i (ch_remote_cid ch) (ch_local_cid ch);
              closed = ChannelClosed (ch_local_cid ch) (ch_psm ch)
          in case signal_event request of
               Inr ev \<Rightarrow> ([ev, closed], mx)
             | Inl _ \<Rightarrow> ([closed], mx))"

definition fail_configuration :: "cid \<Rightarrow> mux \<Rightarrow> l2cap_event list \<times> mux" where
  "fail_configuration c mx =
     (let mx = retire_timers c (drop_ertm c mx) in
      case tbl_get (mx_channels mx) c of
        None \<Rightarrow> ([], mx)
      | Some ch \<Rightarrow>
          let (i, mx) = alloc_id (drop_channel c mx);
              request = DisconnectionRequest i (ch_remote_cid ch) (ch_local_cid ch);
              closed = ChannelClosed (ch_local_cid ch) (ch_psm ch)
          in case signal_event request of
               Inr ev \<Rightarrow> ([ev, closed], awaiting i c request mx)
             | Inl _ \<Rightarrow> ([closed], mx))"

definition mux_send :: "cid \<Rightarrow> bytes \<Rightarrow> (mux, l2cap_error, l2cap_event list) meth" where
  "mux_send c payload mx =
     (case tbl_get (mx_channels mx) c of
        None \<Rightarrow> (Inl (UnknownChannel c), mx)
      | Some ch \<Rightarrow>
          if ch_state ch \<noteq> Open then (Inl (WrongState c (state_label (ch_state ch)) ''send''), mx)
          else if unat (ch_remote_mtu ch) < length payload
          then (Inl (TooLong (length payload) (unat (ch_remote_mtu ch))), mx)
          else
            case tbl_get (mx_ertm mx) c of
              None \<Rightarrow> (Inr [pdu_event (ch_remote_cid ch) payload], mx)
            | Some e \<Rightarrow>
                (case send payload e of
                   (Inl err, e') \<Rightarrow> (Inl err, mx\<lparr>mx_ertm := tbl_put c e' (mx_ertm mx)\<rparr>)
                 | (Inr out, e') \<Rightarrow>
                     let mx = mx\<lparr>mx_ertm := tbl_put c e' (mx_ertm mx)\<rparr>;
                         events = map (pdu_event (ch_remote_cid ch)) (out_frames out)
                     in if out_failed out
                        then case fail_channel c mx of (evs, mx) \<Rightarrow> (Inr (events @ evs), mx)
                        else (Inr events, mx)))"

definition disconnect :: "cid \<Rightarrow> (mux, l2cap_error, l2cap_event list) meth" where
  "disconnect c mx =
     (let (i, mx) = alloc_id mx in
      case tbl_get (mx_channels mx) c of
        None \<Rightarrow> (Inl (UnknownChannel c), mx)
      | Some ch \<Rightarrow>
          let mx = put_channel c (ch\<lparr>ch_state := WaitDisconnect\<rparr>) mx;
              mx = retire_timers c (drop_ertm c mx);
              request = DisconnectionRequest i (ch_remote_cid ch) (ch_local_cid ch)
          in case signal_event request of
               Inl e \<Rightarrow> (Inl e, mx)
             | Inr ev \<Rightarrow> (Inr [ev], awaiting i c request mx))"

definition link_down :: "mux \<Rightarrow> l2cap_event list \<times> mux" where
  "link_down mx =
     (map (\<lambda>(_, ch). ChannelClosed (ch_local_cid ch) (ch_psm ch)) (mx_channels mx),
      mx\<lparr>mx_channels := [], mx_pending := [], mx_outstanding := [], mx_ertm := []\<rparr>)"

fun opt_min :: "duration option \<Rightarrow> duration option \<Rightarrow> duration option" where
  "opt_min None b = b"
| "opt_min (Some a) None = Some a"
| "opt_min (Some a) (Some b) = Some (min a b)"

definition mux_next_timeout :: "mux \<Rightarrow> duration option" where
  "mux_next_timeout mx =
     foldr opt_min (map (\<lambda>(_, e). Ertm_Engine.next_timeout e) (mx_ertm mx)
       @ map (\<lambda>(_, out). Some (os_remaining out)) (mx_outstanding mx)) None"

section \<open>Configuration\<close>

definition request_configuration :: "u16 \<Rightarrow> (mux, l2cap_error, l2cap_event) meth" where
  "request_configuration raw_cid mx =
     (let (config_id, mx) = alloc_id mx;
          mps = receive_mps mx;
          mx = retire_timers raw_cid mx
      in case tbl_get (mx_channels mx) raw_cid of
           None \<Rightarrow> (Inl (UnknownChannel raw_cid), mx)
         | Some ch \<Rightarrow>
             let ch = ch\<lparr>ch_config_id := Some config_id, ch_proposed_mode := ch_mode ch,
                         ch_config_attempts := sat_add (ch_config_attempts ch) 1\<rparr>;
                 mx = put_channel raw_cid ch mx;
                 options = [Mtu (ch_local_mtu ch)]
                   @ (if ch_mode ch = EnhancedRetransmission
                      then [Retransmission (rc_ertm mps), Fcs (mp_fcs (ch_parameters ch))] else []);
                 request = ConfigurationRequest config_id (ch_remote_cid ch) 0 options
             in case signal_event request of
                  Inl e \<Rightarrow> (Inl e, mx)
                | Inr ev \<Rightarrow> (Inr ev, awaiting config_id raw_cid request mx))"

definition ertm_parameters_of :: "channel \<Rightarrow> ertm_parameters" where
  "ertm_parameters_of ch =
     (let p = ch_parameters ch in
      \<lparr>ep_local_cid = ch_local_cid ch, ep_remote_cid = ch_remote_cid ch, ep_fcs = mp_fcs p,
       ep_send_mps = mp_send_mps p, ep_send_window = mp_send_window p,
       ep_max_transmit = mp_max_transmit p,
       ep_retransmission_timeout = mp_retransmission_timeout p,
       ep_monitor_timeout = mp_monitor_timeout p, ep_local_mtu = ch_local_mtu ch\<rparr>)"

definition promote_if_configured :: "u16 \<Rightarrow> mux \<Rightarrow> l2cap_event list \<times> mux" where
  "promote_if_configured raw_cid mx =
     (case tbl_get (mx_channels mx) raw_cid of
        None \<Rightarrow> ([], mx)
      | Some ch \<Rightarrow>
          if ch_state ch \<noteq> WaitConfig True True then ([], mx)
          else
            let ch = ch\<lparr>ch_state := Open\<rparr>;
                mx = retire_timers raw_cid (put_channel raw_cid ch mx);
                mx = (if ch_mode ch = EnhancedRetransmission
                      then mx\<lparr>mx_ertm := tbl_put raw_cid (ertm_new (ertm_parameters_of ch)) (mx_ertm mx)\<rparr>
                      else mx)
            in ([ChannelOpen (ch_local_cid ch) (ch_psm ch) (ch_remote_mtu ch)], mx))"

fun proposed_retransmission :: "config_option list \<Rightarrow> retransmission_config option" where
  "proposed_retransmission [] = None"
| "proposed_retransmission (Retransmission c # _) = Some c"
| "proposed_retransmission (_ # opts) = proposed_retransmission opts"

fun asks_extended_window :: "config_option \<Rightarrow> bool" where
  "asks_extended_window (ExtendedWindowSize n) \<longleftrightarrow> n \<noteq> 0"
| "asks_extended_window _ \<longleftrightarrow> False"

definition adoptable :: "channel_mode \<Rightarrow> bool" where
  "adoptable mode \<longleftrightarrow> mode = Basic \<or> mode = EnhancedRetransmission"

text \<open>Whether our own direction is agreed, so that the mode is no longer ours to move.\<close>

fun settled :: "channel_state \<Rightarrow> bool" where
  "settled (WaitConfig outgoing_done _) \<longleftrightarrow> outgoing_done"
| "settled Open \<longleftrightarrow> True"
| "settled _ \<longleftrightarrow> False"

fun incoming_done :: "channel_state \<Rightarrow> channel_state" where
  "incoming_done (WaitConfig out_done _) = WaitConfig out_done True"
| "incoming_done st = st"

fun outgoing_done :: "channel_state \<Rightarrow> channel_state" where
  "outgoing_done (WaitConfig _ in_done) = WaitConfig True in_done"
| "outgoing_done st = st"

text \<open>What the options of an accepted request change in the channel, one after the other.\<close>

fun apply_request_option :: "config_option \<Rightarrow> channel \<Rightarrow> channel" where
  "apply_request_option (Mtu mtu) ch = ch\<lparr>ch_remote_mtu := mtu\<rparr>"
| "apply_request_option (Fcs fcs) ch = ch\<lparr>ch_parameters := (ch_parameters ch)\<lparr>mp_fcs := fcs\<rparr>\<rparr>"
| "apply_request_option _ ch = ch"

definition clamp_window :: "u8 \<Rightarrow> u8" where
  "clamp_window w = max 1 (min w default_tx_window)"

definition refuse_config ::
    "u8 \<Rightarrow> cid \<Rightarrow> config_result \<Rightarrow> config_option list \<Rightarrow> (mux, l2cap_error, l2cap_event list) meth" where
  "refuse_config i source_cid result options =
     liftS (bindE (signal_event (ConfigurationResponse i source_cid 0 result options)) (\<lambda>ev. Inr [ev]))"

text \<open>
  The second half of \<open>on_config_request\<close>: the request is acceptable and is acted on. First what
  it makes of the channel, and the options of the answer.
\<close>

definition accepted_mps :: "u16 \<Rightarrow> retransmission_config \<Rightarrow> u16" where
  "accepted_mps mps proposed = max (min (rc_mps proposed) mps) 1"

definition accepted_channel ::
    "u16 \<Rightarrow> u16 \<Rightarrow> bool \<Rightarrow> config_option list \<Rightarrow> retransmission_config \<Rightarrow> channel \<Rightarrow> channel" where
  "accepted_channel mps basic_mtu continues options proposed ch =
     (let ch = ch\<lparr>ch_mode := rc_mode proposed,
                  ch_local_mtu := min (ch_local_mtu ch) (ceiling_for (rc_mode proposed) basic_mtu)\<rparr>;
          ch = fold apply_request_option options ch;
          ch = (if ch_mode ch = EnhancedRetransmission
                then ch\<lparr>ch_parameters := (ch_parameters ch)\<lparr>mp_send_mps := accepted_mps mps proposed\<rparr>\<rparr>
                else ch)
      in if continues then ch else ch\<lparr>ch_state := incoming_done (ch_state ch)\<rparr>)"

definition accepted_response ::
    "u16 \<Rightarrow> retransmission_config \<Rightarrow> channel \<Rightarrow> config_option list" where
  "accepted_response mps proposed ch =
     [Mtu (ch_remote_mtu ch)]
     @ (if ch_mode ch = EnhancedRetransmission then
          [Retransmission \<lparr>rc_mode = EnhancedRetransmission,
             rc_tx_window = clamp_window (rc_tx_window proposed),
             rc_max_transmit = rc_max_transmit proposed,
             rc_retransmission_timeout_ms = ms default_retransmission_timeout,
             rc_monitor_timeout_ms = ms default_monitor_timeout,
             rc_mps = accepted_mps mps proposed\<rparr>,
           Fcs (mp_fcs (ch_parameters ch))]
        else [])"

definition accept_config_request ::
    "u8 \<Rightarrow> cid \<Rightarrow> bool \<Rightarrow> config_option list \<Rightarrow> retransmission_config \<Rightarrow> channel \<Rightarrow>
     (mux, l2cap_error, l2cap_event list) meth" where
  "accept_config_request i dest_cid continues options proposed ch mx =
     (let ch' = accepted_channel (receive_mps mx) (mx_local_mtu mx) continues options proposed ch;
          response = accepted_response (receive_mps mx) proposed ch';
          repropose = (\<not> continues \<and> ch_mode ch' \<noteq> ch_proposed_mode ch');
          mx = put_channel dest_cid ch' mx
      in case signal_event (ConfigurationResponse i (ch_remote_cid ch)
                (if continues then continuation_flag else 0) CfgSuccess response) of
           Inl e \<Rightarrow> (Inl e, mx)
         | Inr ev \<Rightarrow>
             if continues then (Inr [ev], mx)
             else
               let (opened, mx) = promote_if_configured dest_cid mx in
               if repropose then
                 if max_config_attempts \<le> ch_config_attempts ch'
                 then case fail_configuration dest_cid mx of (evs, mx) \<Rightarrow> (Inr evs, mx)
                 else bindS (request_configuration dest_cid)
                        (\<lambda>req. returnS ([ev] @ opened @ [req])) mx
               else (Inr ([ev] @ opened), mx))"

definition on_config_request ::
    "u8 \<Rightarrow> cid \<Rightarrow> u16 \<Rightarrow> config_option list \<Rightarrow> (mux, l2cap_error, l2cap_event list) meth" where
  "on_config_request i dest_cid flags options mx =
     (let continues = (flags AND continuation_flag \<noteq> 0) in
      case tbl_get (mx_channels mx) dest_cid of
        None \<Rightarrow> refuse_config i dest_cid Rejected [] mx
      | Some ch \<Rightarrow>
          let unsupported = filter (\<lambda>opt. \<not> is_ignorable opt) options;
              proposed = (case proposed_retransmission options of
                            Some c \<Rightarrow> c | None \<Rightarrow> rc_basic)
          in
            if unsupported \<noteq> [] then
              refuse_config i (ch_remote_cid ch) UnknownOptions unsupported mx
            else if \<exists>opt\<in>set options. asks_extended_window opt then
              refuse_config i (ch_remote_cid ch) Unacceptable [ExtendedWindowSize 0] mx
            else if rc_mode proposed \<noteq> ch_mode ch
                \<and> (\<not> adoptable (rc_mode proposed) \<or> settled (ch_state ch) \<or> \<not> ch_initiator ch) then
              refuse_config i (ch_remote_cid ch) Unacceptable
                [Retransmission (if ch_mode ch = EnhancedRetransmission
                   then rc_ertm (receive_mps mx) else rc_basic)] mx
            else accept_config_request i dest_cid continues options proposed ch mx)"

text \<open>A counter-proposal: its mode when it is one we run, then its MTUs in turn.\<close>

fun apply_counter_mtu :: "config_option \<Rightarrow> channel \<Rightarrow> channel" where
  "apply_counter_mtu (Mtu mtu) ch = ch\<lparr>ch_local_mtu := mtu\<rparr>"
| "apply_counter_mtu _ ch = ch"

definition apply_counter :: "u16 \<Rightarrow> config_option list \<Rightarrow> channel \<Rightarrow> channel" where
  "apply_counter basic_mtu options ch =
     fold apply_counter_mtu options
       (case proposed_retransmission options of
          Some c \<Rightarrow>
            if adoptable (rc_mode c)
            then ch\<lparr>ch_mode := rc_mode c,
                    ch_local_mtu := min (ch_local_mtu ch) (ceiling_for (rc_mode c) basic_mtu)\<rparr>
            else ch
        | None \<Rightarrow> ch)"

fun apply_pending_option :: "config_option \<Rightarrow> channel \<Rightarrow> channel" where
  "apply_pending_option (Fcs fcs) ch = ch\<lparr>ch_parameters := (ch_parameters ch)\<lparr>mp_fcs := fcs\<rparr>\<rparr>"
| "apply_pending_option _ ch = ch"

fun apply_success_option :: "config_option \<Rightarrow> channel \<Rightarrow> channel" where
  "apply_success_option (Retransmission c) ch =
     (let p = (ch_parameters ch)\<lparr>mp_send_window := clamp_window (rc_tx_window c)\<rparr>;
          p = (if rc_retransmission_timeout_ms c \<noteq> 0
               then p\<lparr>mp_retransmission_timeout := from_millis (unat (rc_retransmission_timeout_ms c))\<rparr>
               else p);
          p = (if rc_monitor_timeout_ms c \<noteq> 0
               then p\<lparr>mp_monitor_timeout := from_millis (unat (rc_monitor_timeout_ms c))\<rparr>
               else p)
      in ch\<lparr>ch_parameters := p\<lparr>mp_max_transmit := max (rc_max_transmit c) 1\<rparr>\<rparr>)"
| "apply_success_option _ ch = ch"

definition on_config_response ::
    "u8 \<Rightarrow> cid \<Rightarrow> config_result \<Rightarrow> config_option list \<Rightarrow> outstanding option \<Rightarrow>
     (mux, l2cap_error, l2cap_event list) meth" where
  "on_config_response i source_cid result options retired mx =
     (case tbl_get (mx_channels mx) source_cid of
        None \<Rightarrow> (Inr [], mx)
      | Some ch \<Rightarrow>
          if ch_config_id ch \<noteq> None \<and> ch_config_id ch \<noteq> Some i then (Inr [], mx)
          else if result = Unacceptable then
            let ch = apply_counter (mx_local_mtu mx) options ch;
                mx = put_channel source_cid ch mx
            in if max_config_attempts \<le> ch_config_attempts ch
               then case fail_configuration source_cid mx of (evs, mx) \<Rightarrow> (Inr evs, mx)
               else bindS (request_configuration source_cid) (\<lambda>ev. returnS [ev]) mx
          else if result = CfgPending then
            let mx = put_channel source_cid (fold apply_pending_option options ch) mx in
            (Inr [],
             case retired of
               None \<Rightarrow> mx
             | Some out \<Rightarrow> mx\<lparr>mx_outstanding := tbl_put i
                 (out\<lparr>os_remaining := ertx, os_on_expiry := GiveUp\<rparr>) (mx_outstanding mx)\<rparr>)
          else if result \<noteq> CfgSuccess then
            case fail_configuration source_cid mx of (evs, mx) \<Rightarrow> (Inr evs, mx)
          else
            let ch = fold apply_success_option options ch;
                ch = ch\<lparr>ch_config_id := None, ch_state := outgoing_done (ch_state ch)\<rparr>;
                mx = put_channel source_cid ch mx
            in case promote_if_configured source_cid mx of (evs, mx) \<Rightarrow> (Inr evs, mx))"

section \<open>Connections\<close>

definition on_connection_request ::
    "u8 \<Rightarrow> psm \<Rightarrow> cid \<Rightarrow> (mux, l2cap_error, l2cap_event list) meth" where
  "on_connection_request i p source_cid mx =
     (case map_of (mx_listening mx) p of
        None \<Rightarrow>
          liftS (bindE (signal_event (ConnectionResponse i cid_null source_cid PsmNotSupported 0))
            (\<lambda>ev. Inr [ev])) mx
      | Some mode \<Rightarrow>
          bindS alloc_cid (\<lambda>local_cid mx.
            let mx = put_channel local_cid (new_channel local_cid source_cid p
                       (WaitConfig False False) (mode_mtu mx mode) mode False) mx
            in bindS (liftS (signal_event (ConnectionResponse i local_cid source_cid ConnSuccess 0)))
                 (\<lambda>ev. bindS (request_configuration local_cid)
                   (\<lambda>req. returnS [ev, req])) mx) mx)"

definition on_connection_response ::
    "u8 \<Rightarrow> cid \<Rightarrow> cid \<Rightarrow> connection_result \<Rightarrow> (mux, l2cap_error, l2cap_event list) meth" where
  "on_connection_response i dest_cid source_cid result mx =
     (if result = ConnPending then (Inr [], mx)
      else
        let local_raw = (case tbl_get (mx_pending mx) i of Some raw \<Rightarrow> raw | None \<Rightarrow> source_cid) in
        case tbl_get (mx_channels mx) local_raw of
          None \<Rightarrow> (Inr [], mx)
        | Some ch \<Rightarrow>
            if result \<noteq> ConnSuccess then
              (Inr [ConnectFailed (ch_psm ch) result], drop_pending i (drop_channel local_raw mx))
            else
              let ch = ch\<lparr>ch_remote_cid := dest_cid, ch_state := WaitConfig False False\<rparr>;
                  mx = drop_pending i (put_channel local_raw ch mx)
              in bindS (request_configuration local_raw) (\<lambda>ev. returnS [ev]) mx)"

text \<open>Both ends of a disconnection forget the channel the same way.\<close>

definition close_channel :: "cid \<Rightarrow> mux \<Rightarrow> l2cap_event list \<times> mux" where
  "close_channel c mx =
     (let mx = retire_timers c (drop_ertm c mx) in
      case tbl_get (mx_channels mx) c of
        None \<Rightarrow> ([], mx)
      | Some ch \<Rightarrow> ([ChannelClosed (ch_local_cid ch) (ch_psm ch)], drop_channel c mx))"

definition information_answer :: "u16 \<Rightarrow> u16 \<times> bytes" where
  "information_answer info_type =
     (if info_type = 0x0002 then (0x0000, [0x28, 0, 0, 0])
      else if info_type = 0x0003 then (0x0000, [0x02, 0, 0, 0, 0, 0, 0, 0])
      else (0x0001, []))"

definition handle_signal :: "signal \<Rightarrow> (mux, l2cap_error, l2cap_event list) meth" where
  "handle_signal sig mx =
     (let retired = (case answers sig of None \<Rightarrow> None | Some i \<Rightarrow> tbl_get (mx_outstanding mx) i);
          mx = (case answers sig of None \<Rightarrow> mx
                | Some i \<Rightarrow> mx\<lparr>mx_outstanding := tbl_del i (mx_outstanding mx)\<rparr>)
      in case sig of
        ConnectionRequest i p source_cid \<Rightarrow> on_connection_request i p source_cid mx
      | ConnectionResponse i dest_cid source_cid result _ \<Rightarrow>
          on_connection_response i dest_cid source_cid result mx
      | ConfigurationRequest i dest_cid flags options \<Rightarrow> on_config_request i dest_cid flags options mx
      | ConfigurationResponse i source_cid _ result options \<Rightarrow>
          on_config_response i source_cid result options retired mx
      | DisconnectionRequest i dest_cid source_cid \<Rightarrow>
          bindS (liftS (signal_event (DisconnectionResponse i dest_cid source_cid)))
            (\<lambda>ev mx. case close_channel dest_cid mx of (evs, mx) \<Rightarrow> (Inr (ev # evs), mx)) mx
      | DisconnectionResponse i _ source_cid \<Rightarrow>
          (case close_channel source_cid mx of (evs, mx) \<Rightarrow> (Inr evs, mx))
      | EchoRequest i data \<Rightarrow>
          liftS (bindE (signal_event (EchoResponse i data)) (\<lambda>ev. Inr [ev])) mx
      | InformationRequest i info_type \<Rightarrow>
          (case information_answer info_type of (result, data) \<Rightarrow>
             liftS (bindE (signal_event (InformationResponse i info_type result data)) (\<lambda>ev. Inr [ev])) mx)
      | CommandReject i reason _ \<Rightarrow>
          (case retired of
             None \<Rightarrow> (Inr [], mx)
           | Some out \<Rightarrow>
               (case fail_channel (os_raw_cid out) (drop_pending i mx) of (evs, mx) \<Rightarrow> (Inr evs, mx)))
      | EchoResponse _ _ \<Rightarrow> (Inr [], mx)
      | InformationResponse _ _ _ _ \<Rightarrow> (Inr [], mx))"

section \<open>PDUs\<close>

fun handle_signals :: "signal list \<Rightarrow> (mux, l2cap_error, l2cap_event list) meth" where
  "handle_signals [] = returnS []"
| "handle_signals (sig # sigs) =
     bindS (handle_signal sig) (\<lambda>evs. bindS (handle_signals sigs) (\<lambda>evs'. returnS (evs @ evs')))"

fun reject_events :: "command_refusal list \<Rightarrow> l2cap_error + l2cap_event list" where
  "reject_events [] = Inr []"
| "reject_events (r # rs) =
     bindE (signal_event (CommandReject (refusal_id r) (refusal_reason r) []))
       (\<lambda>ev. bindE (reject_events rs) (\<lambda>evs. Inr (ev # evs)))"

definition handle_data :: "l2cap_pdu \<Rightarrow> (mux, l2cap_error, l2cap_event list) meth" where
  "handle_data p mx =
     (case tbl_get (mx_channels mx) (pdu_cid p) of
        None \<Rightarrow> (Inl (UnknownChannel (pdu_cid p)), mx)
      | Some ch \<Rightarrow>
          if ch_state ch \<noteq> Open
          then (Inl (WrongState (pdu_cid p) (state_label (ch_state ch)) ''receive data''), mx)
          else
            case tbl_get (mx_ertm mx) (pdu_cid p) of
              None \<Rightarrow> (Inr [Data (ch_local_cid ch) (ch_psm ch) (pdu_payload p)], mx)
            | Some e \<Rightarrow>
                (case receive (pdu_payload p) e of
                   (Inl err, e') \<Rightarrow> (Inl err, mx\<lparr>mx_ertm := tbl_put (pdu_cid p) e' (mx_ertm mx)\<rparr>)
                 | (Inr out, e') \<Rightarrow>
                     let mx = mx\<lparr>mx_ertm := tbl_put (pdu_cid p) e' (mx_ertm mx)\<rparr>;
                         events = map (pdu_event (ch_remote_cid ch)) (out_frames out)
                           @ map (Data (ch_local_cid ch) (ch_psm ch)) (out_sdus out)
                     in if out_failed out
                        then case fail_channel (ch_local_cid ch) mx of (evs, mx) \<Rightarrow> (Inr (events @ evs), mx)
                        else (Inr events, mx)))"

definition handle_pdu :: "l2cap_pdu \<Rightarrow> (mux, l2cap_error, l2cap_event list) meth" where
  "handle_pdu p =
     (if pdu_cid p = cid_signaling then
        let frame = decode_frame (pdu_payload p) in
        bindS (liftS (reject_events (df_rejects frame))) (\<lambda>rejected.
        bindS (handle_signals (df_signals frame)) (\<lambda>evs. returnS (rejected @ evs)))
      else handle_data p)"

section \<open>Time\<close>

definition age_outstanding :: "duration \<Rightarrow> (u8, outstanding) tbl \<Rightarrow> (u8, outstanding) tbl" where
  "age_outstanding elapsed = map (\<lambda>(i, out). (i, out\<lparr>os_remaining := os_remaining out - elapsed\<rparr>))"

definition expired_ids :: "(u8, outstanding) tbl \<Rightarrow> u8 list" where
  "expired_ids t = map fst (filter (\<lambda>(_, out). os_remaining out = 0) t)"

text \<open>One expired request: what it adds to the events and to the channels that failed.\<close>

definition expire :: "u8 \<Rightarrow> l2cap_event list \<times> cid list \<times> mux \<Rightarrow> l2cap_event list \<times> cid list \<times> mux" where
  "expire i s =
     (case s of (events, failed, mx) \<Rightarrow>
        case tbl_get (mx_outstanding mx) i of
          None \<Rightarrow> (events, failed, mx)
        | Some out \<Rightarrow>
            if os_on_expiry out = Resend \<and> os_retries out < rtx_retries then
              let out = out\<lparr>os_retries := os_retries out + 1, os_remaining := rtx\<rparr>;
                  mx = mx\<lparr>mx_outstanding := tbl_put i out (mx_outstanding mx)\<rparr>
              in (case signal_event (os_request out) of
                    Inr ev \<Rightarrow> (events @ [ev], failed, mx)
                  | Inl _ \<Rightarrow> (events, failed, mx))
            else
              (events, failed @ [os_raw_cid out],
               drop_pending i (mx\<lparr>mx_outstanding := tbl_del i (mx_outstanding mx)\<rparr>)))"

fun tick_engines ::
    "duration \<Rightarrow> (u16, channel) tbl \<Rightarrow> (u16, ertm) tbl \<Rightarrow>
     l2cap_event list \<times> cid list \<times> (u16, ertm) tbl" where
  "tick_engines elapsed chs [] = ([], [], [])"
| "tick_engines elapsed chs ((raw, e) # rest) =
     (let (e', out) = tick elapsed e;
          (events, failed, rest') = tick_engines elapsed chs rest
      in case tbl_get chs raw of
           None \<Rightarrow> (events, failed, (raw, e') # rest')
         | Some ch \<Rightarrow>
             (map (pdu_event (ch_remote_cid ch)) (out_frames out) @ events,
              (if out_failed out then [ch_local_cid ch] else []) @ failed,
              (raw, e') # rest'))"

fun fail_channels :: "cid list \<Rightarrow> mux \<Rightarrow> l2cap_event list \<times> mux" where
  "fail_channels [] mx = ([], mx)"
| "fail_channels (c # cs) mx =
     (let (evs, mx) = fail_channel c mx; (evs', mx) = fail_channels cs mx in (evs @ evs', mx))"

definition mux_tick :: "duration \<Rightarrow> mux \<Rightarrow> l2cap_event list \<times> mux" where
  "mux_tick elapsed mx =
     (let mx = mx\<lparr>mx_outstanding := age_outstanding elapsed (mx_outstanding mx)\<rparr>;
          (events, failed, mx) = fold expire (expired_ids (mx_outstanding mx)) ([], [], mx);
          (sent, dead, engines) = tick_engines elapsed (mx_channels mx) (mx_ertm mx);
          (closed, mx) = fail_channels (failed @ dead) (mx\<lparr>mx_ertm := engines\<rparr>)
      in (events @ sent @ closed, mx))"

end
