(* ===== verification/Mux_Invariant.thy ===== *)
theory Mux_Invariant
  imports Mux
begin

text \<open>
  The invariant of the multiplexer and that every operation keeps it, so every state it can
  reach has it: each channel is filed under the identifier we allocated for it, in the dynamic
  range; every engine is one of a live window of 1 to 32 frames; every request on a timer has a
  usable identifier and has been sent at most \<open>rtx_retries + 1\<close> times.
\<close>

section \<open>The invariant of the multiplexer\<close>

definition params_ok :: "mode_parameters \<Rightarrow> bool" where
  "params_ok p \<longleftrightarrow> 1 \<le> mp_send_window p \<and> mp_send_window p \<le> 32
     \<and> 1 \<le> mp_max_transmit p \<and> 1 \<le> mp_send_mps p"

definition chan_ok :: "u16 \<Rightarrow> channel \<Rightarrow> bool" where
  "chan_ok raw ch \<longleftrightarrow> ch_local_cid ch = raw \<and> is_dynamic raw \<and> params_ok (ch_parameters ch)"

definition engine_ok :: "u16 \<Rightarrow> ertm \<Rightarrow> bool" where
  "engine_ok raw e \<longleftrightarrow> core_ok e \<and> is_dynamic raw \<and> 1 \<le> ep_send_window (e_params e)
     \<and> ep_send_window (e_params e) \<le> 32 \<and> 1 \<le> ep_max_transmit (e_params e)"

definition outstanding_ok :: "u8 \<Rightarrow> outstanding \<Rightarrow> bool" where
  "outstanding_ok i out \<longleftrightarrow> i \<noteq> 0 \<and> is_dynamic (os_raw_cid out) \<and> os_retries out \<le> rtx_retries"

definition mux_ok :: "mux \<Rightarrow> bool" where
  "mux_ok mx \<longleftrightarrow> tbl_all chan_ok (mx_channels mx) \<and> tbl_all engine_ok (mx_ertm mx)
     \<and> tbl_all outstanding_ok (mx_outstanding mx) \<and> is_dynamic (mx_next_cid mx) \<and> mx_next_id mx \<noteq> 0"

text \<open>Each of the small updates leaves the other tables alone.\<close>

lemma mux_update_fields [simp]:
  "mx_channels (retire_timers c mx) = mx_channels mx"
  "mx_channels (drop_ertm c mx) = mx_channels mx"
  "mx_channels (drop_pending i mx) = mx_channels mx"
  "mx_channels (awaiting i c req mx) = mx_channels mx"
  "mx_channels (snd (alloc_id mx)) = mx_channels mx"
  "mx_channels (drop_channel c mx) = tbl_del c (mx_channels mx)"
  "mx_channels (put_channel c ch mx) = tbl_put c ch (mx_channels mx)"
  "mx_ertm (retire_timers c mx) = mx_ertm mx"
  "mx_ertm (drop_ertm c mx) = tbl_del c (mx_ertm mx)"
  "mx_ertm (drop_pending i mx) = mx_ertm mx"
  "mx_ertm (awaiting i c req mx) = mx_ertm mx"
  "mx_ertm (snd (alloc_id mx)) = mx_ertm mx"
  "mx_ertm (drop_channel c mx) = mx_ertm mx"
  "mx_ertm (put_channel c ch mx) = mx_ertm mx"
  "mx_outstanding (drop_ertm c mx) = mx_outstanding mx"
  "mx_outstanding (drop_pending i mx) = mx_outstanding mx"
  "mx_outstanding (snd (alloc_id mx)) = mx_outstanding mx"
  "mx_outstanding (drop_channel c mx) = mx_outstanding mx"
  "mx_outstanding (put_channel c ch mx) = mx_outstanding mx"
  "mx_local_mtu (retire_timers c mx) = mx_local_mtu mx"
  "mx_local_mtu (snd (alloc_id mx)) = mx_local_mtu mx"
  "mx_local_mtu (put_channel c ch mx) = mx_local_mtu mx"
  by (simp_all add: retire_timers_def drop_ertm_def drop_pending_def awaiting_def alloc_id_def
      drop_channel_def put_channel_def Let_def)

named_theorems mux_intros \<open>what preserves the invariant of the multiplexer\<close>

lemma mux_ok_put_channel [mux_intros]: "\<lbrakk>mux_ok mx; chan_ok raw ch\<rbrakk> \<Longrightarrow> mux_ok (put_channel raw ch mx)"
  by (simp add: mux_ok_def put_channel_def table_intros)

lemma mux_ok_drop_channel [mux_intros]: "mux_ok mx \<Longrightarrow> mux_ok (drop_channel raw mx)"
  by (simp add: mux_ok_def drop_channel_def table_intros)

lemma mux_ok_drop_ertm [mux_intros]: "mux_ok mx \<Longrightarrow> mux_ok (drop_ertm raw mx)"
  by (simp add: mux_ok_def drop_ertm_def table_intros)

lemma mux_ok_drop_pending [mux_intros]: "mux_ok mx \<Longrightarrow> mux_ok (drop_pending i mx)"
  by (simp add: mux_ok_def drop_pending_def)

lemma mux_ok_retire_timers [mux_intros]: "mux_ok mx \<Longrightarrow> mux_ok (retire_timers raw mx)"
  by (simp add: mux_ok_def retire_timers_def table_intros)

lemma mux_ok_set_ertm [mux_intros]: "\<lbrakk>mux_ok mx; tbl_all engine_ok t\<rbrakk> \<Longrightarrow> mux_ok (mx\<lparr>mx_ertm := t\<rparr>)"
  by (simp add: mux_ok_def)

lemma mux_ok_set_outstanding [mux_intros]:
  "\<lbrakk>mux_ok mx; tbl_all outstanding_ok t\<rbrakk> \<Longrightarrow> mux_ok (mx\<lparr>mx_outstanding := t\<rparr>)"
  by (simp add: mux_ok_def)

lemma mux_ok_tables [mux_intros]:
  "mux_ok mx \<Longrightarrow> tbl_all engine_ok (mx_ertm mx)" "mux_ok mx \<Longrightarrow> tbl_all outstanding_ok (mx_outstanding mx)"
  by (simp_all add: mux_ok_def)

lemma mux_ok_pending [mux_intros]: "mux_ok mx \<Longrightarrow> mux_ok (mx\<lparr>mx_pending := t\<rparr>)"
  by (simp add: mux_ok_def)

lemma mux_ok_awaiting [mux_intros]: "\<lbrakk>mux_ok mx; i \<noteq> 0; is_dynamic raw\<rbrakk> \<Longrightarrow> mux_ok (awaiting i raw req mx)"
  by (auto simp: awaiting_def outstanding_ok_def rtx_retries_def intro!: mux_ok_set_outstanding mux_ok_tables table_intros)

lemma alloc_id_ok: "alloc_id mx = (i, mx') \<Longrightarrow> mux_ok mx \<Longrightarrow> i \<noteq> 0 \<and> mux_ok mx'"
  by (auto simp: alloc_id_def Let_def mux_ok_def split: if_splits)

lemma is_dynamic_next_cid: "is_dynamic c \<Longrightarrow> is_dynamic (next_cid c)"
proof (cases "c = 0xFFFF")
  case False
  assume d: "is_dynamic c"
  have "unat c < 2 ^ LENGTH(16)" by (rule unsigned_less)
  moreover have "unat c \<noteq> 65535"
  proof
    assume "unat c = 65535"
    then have "c = 0xFFFF" by (simp add: word_unat_eq_iff)
    with False show False by simp
  qed
  ultimately have "unat (c + 1) = unat c + 1" by (simp add: unat_word_ariths)
  with d False show ?thesis by (simp add: is_dynamic_def next_cid_def word_le_nat_alt)
qed (simp add: next_cid_def is_dynamic_def)

text \<open>The probes of \<open>alloc_cid\<close>: a free dynamic identifier, and nothing else changes.\<close>

lemma alloc_cid_loop_result:
  "\<lbrakk>alloc_cid_loop n mx = (Inr c, mx'); is_dynamic (mx_next_cid mx)\<rbrakk> \<Longrightarrow>
     tbl_get (mx_channels mx) c = None \<and> is_dynamic c"
  by (induction n mx rule: alloc_cid_loop.induct)
    (auto simp: Let_def is_dynamic_next_cid split: if_splits)

lemma alloc_cid_loop_state:
  "alloc_cid_loop n mx = (r, mx') \<Longrightarrow> \<exists>k. mx' = mx\<lparr>mx_next_cid := (next_cid ^^ k) (mx_next_cid mx)\<rparr>"
proof (induction n mx rule: alloc_cid_loop.induct)
  case (1 mx)
  then show ?case by (intro exI [of _ 0]) simp
next
  case (2 n mx)
  show ?case
  proof (cases "tbl_get (mx_channels mx) (mx_next_cid mx) = None")
    case True
    with 2(2) show ?thesis by (intro exI [of _ 1]) (simp add: Let_def)
  next
    case False
    with 2 obtain k where "mx' = mx\<lparr>mx_next_cid := (next_cid ^^ k) (next_cid (mx_next_cid mx))\<rparr>"
      by (auto simp: Let_def)
    then show ?thesis by (intro exI [of _ "Suc k"]) (simp add: funpow_swap1)
  qed
qed

lemma is_dynamic_funpow: "is_dynamic c \<Longrightarrow> is_dynamic ((next_cid ^^ k) c)"
  by (induction k) (simp_all add: is_dynamic_next_cid)

lemma alloc_cid_ok:
  assumes "alloc_cid mx = (r, mx')" "mux_ok mx"
  shows "mux_ok mx'" "r = Inr c \<Longrightarrow> is_dynamic c" "mx_channels mx' = mx_channels mx"
    "mx_local_mtu mx' = mx_local_mtu mx"
proof -
  from assms(1) obtain k where k: "mx' = mx\<lparr>mx_next_cid := (next_cid ^^ k) (mx_next_cid mx)\<rparr>"
    unfolding alloc_cid_def by (blast dest: alloc_cid_loop_state)
  from assms(2) show "mux_ok mx'" by (simp add: k mux_ok_def is_dynamic_funpow)
  show "mx_channels mx' = mx_channels mx" "mx_local_mtu mx' = mx_local_mtu mx" by (simp_all add: k)
  show "r = Inr c \<Longrightarrow> is_dynamic c"
    using assms alloc_cid_loop_result unfolding alloc_cid_def mux_ok_def by blast
qed

lemma params_ok_default [simp]: "params_ok mp_default"
  by (simp add: params_ok_def mp_default_def default_tx_window_def default_max_transmit_def default_mtu_def)

lemma chan_ok_new [simp]: "chan_ok raw (new_channel c r p st mtu m ini) \<longleftrightarrow> c = raw \<and> is_dynamic raw"
  by (auto simp: chan_ok_def new_channel_def)

lemma chan_ok_fields [simp]:
  "chan_ok raw (ch\<lparr>ch_state := st\<rparr>) = chan_ok raw ch"
  "chan_ok raw (ch\<lparr>ch_config_id := q\<rparr>) = chan_ok raw ch"
  "chan_ok raw (ch\<lparr>ch_remote_cid := r\<rparr>) = chan_ok raw ch"
  "chan_ok raw (ch\<lparr>ch_mode := m\<rparr>) = chan_ok raw ch"
  "chan_ok raw (ch\<lparr>ch_local_mtu := k\<rparr>) = chan_ok raw ch"
  "chan_ok raw (ch\<lparr>ch_proposed_mode := m\<rparr>) = chan_ok raw ch"
  "chan_ok raw (ch\<lparr>ch_config_attempts := n\<rparr>) = chan_ok raw ch"
  by (simp_all add: chan_ok_def)

lemma mux_ok_connect_with: "mux_ok mx \<Longrightarrow> mux_ok (snd (connect_with p mode mx))"
proof -
  assume ok: "mux_ok mx"
  obtain r mx1 where a: "alloc_cid mx = (r, mx1)" by (cases "alloc_cid mx")
  obtain i mx2 where b: "alloc_id mx1 = (i, mx2)" by (cases "alloc_id mx1")
  note a' = alloc_cid_ok [OF a ok] and b' = alloc_id_ok [OF b]
  show ?thesis using a' b'
    by (cases r) (auto simp: connect_with_def bindS_def a b Let_def split: sum.split intro!: mux_intros)
qed

lemma get_chan_ok: "\<lbrakk>mux_ok mx; tbl_get (mx_channels mx) c = Some ch\<rbrakk> \<Longrightarrow> chan_ok c ch"
  by (auto simp: mux_ok_def dest: tbl_all_get)

lemma get_engine_ok: "\<lbrakk>mux_ok mx; tbl_get (mx_ertm mx) c = Some e\<rbrakk> \<Longrightarrow> engine_ok c e"
  by (auto simp: mux_ok_def dest: tbl_all_get)

lemma get_outstanding_ok: "\<lbrakk>mux_ok mx; tbl_get (mx_outstanding mx) i = Some out\<rbrakk> \<Longrightarrow> outstanding_ok i out"
  by (auto simp: mux_ok_def dest: tbl_all_get)

lemma mux_ok_alloc_id: "mux_ok mx \<Longrightarrow> mux_ok (snd (alloc_id mx)) \<and> fst (alloc_id mx) \<noteq> 0"
  using alloc_id_ok [of mx "fst (alloc_id mx)" "snd (alloc_id mx)"] by simp

lemma mux_ok_fail_channel [mux_intros]: "mux_ok mx \<Longrightarrow> mux_ok (snd (fail_channel c mx))"
  unfolding fail_channel_def Let_def case_prod_beta
  by (auto split: option.split sum.split intro!: mux_intros mux_ok_alloc_id [THEN conjunct1])

lemma mux_ok_fail_configuration [mux_intros]: "mux_ok mx \<Longrightarrow> mux_ok (snd (fail_configuration c mx))"
  unfolding fail_configuration_def Let_def case_prod_beta
  by (auto split: option.split sum.split intro!: mux_intros mux_ok_alloc_id [THEN conjunct1]
      mux_ok_alloc_id [THEN conjunct2] dest: get_chan_ok simp: chan_ok_def)

lemma mux_ok_close_channel [mux_intros]: "mux_ok mx \<Longrightarrow> mux_ok (snd (close_channel c mx))"
  unfolding close_channel_def Let_def by (auto split: option.split intro!: mux_intros)

lemma mux_ok_request_configuration [mux_intros]:
  "mux_ok mx \<Longrightarrow> mux_ok (snd (request_configuration raw mx))"
proof -
  assume ok: "mux_ok mx"
  obtain i mx1 where a: "alloc_id mx = (i, mx1)" by (cases "alloc_id mx")
  note b = alloc_id_ok [OF a ok]
  have c: "mx_channels mx1 = mx_channels mx" using mux_update_fields(5) [of mx] a by simp
  show ?thesis
    using b get_chan_ok [OF ok, of raw] unfolding request_configuration_def Let_def a
    by (auto simp: c chan_ok_def split: option.split sum.split intro!: mux_intros)
qed

lemma engine_ok_new:
  "chan_ok raw ch \<Longrightarrow> engine_ok raw (ertm_new (ertm_parameters_of ch))"
  by (simp add: engine_ok_def core_ok_new chan_ok_def params_ok_def)
    (simp add: ertm_new_def ertm_parameters_of_def Let_def)

lemma mux_ok_promote [mux_intros]: "mux_ok mx \<Longrightarrow> mux_ok (snd (promote_if_configured raw mx))"
proof -
  assume ok: "mux_ok mx"
  have *: "chan_ok raw (ch\<lparr>ch_state := Open\<rparr>)" if "tbl_get (mx_channels mx) raw = Some ch" for ch
    using get_chan_ok [OF ok that] by (simp add: chan_ok_def)
  show ?thesis using ok unfolding promote_if_configured_def Let_def
    by (auto split: option.split intro!: mux_intros table_intros engine_ok_new * )
qed

lemma clamp_window_bounds: "1 \<le> clamp_window w" "clamp_window w \<le> 32"
  by (auto simp: clamp_window_def default_tx_window_def)

lemma chan_ok_apply:
  "chan_ok raw ch \<Longrightarrow> chan_ok raw (apply_request_option opt ch)"
  "chan_ok raw ch \<Longrightarrow> chan_ok raw (apply_counter_mtu opt ch)"
  "chan_ok raw ch \<Longrightarrow> chan_ok raw (apply_pending_option opt ch)"
  "chan_ok raw ch \<Longrightarrow> chan_ok raw (apply_success_option opt ch)"
  by (cases opt; simp add: chan_ok_def params_ok_def clamp_window_bounds Let_def)+

lemma chan_ok_folds:
  "chan_ok raw ch \<Longrightarrow> chan_ok raw (fold apply_request_option opts ch)"
  "chan_ok raw ch \<Longrightarrow> chan_ok raw (fold apply_counter_mtu opts ch)"
  "chan_ok raw ch \<Longrightarrow> chan_ok raw (fold apply_pending_option opts ch)"
  "chan_ok raw ch \<Longrightarrow> chan_ok raw (fold apply_success_option opts ch)"
  by (induction opts arbitrary: ch; simp add: chan_ok_apply)+

lemma chan_ok_counter: "chan_ok raw ch \<Longrightarrow> chan_ok raw (apply_counter mtu opts ch)"
  unfolding apply_counter_def
  by (rule chan_ok_folds) (auto simp: chan_ok_def split: option.split)

lemma mux_ok_bindS:
  assumes "mux_ok (snd (m mx))" "\<And>a mx'. m mx = (Inr a, mx') \<Longrightarrow> mux_ok mx' \<Longrightarrow> mux_ok (snd (f a mx'))"
  shows "mux_ok (snd (bindS m f mx))"
  using assms by (auto simp: bindS_def split: prod.split sum.split)

lemma mux_ok_liftS [simp]: "snd (liftS r mx) = mx" "snd (returnS a mx) = mx" "snd (refuse_config i c res opts mx) = mx"
  by (simp_all add: method_defs refuse_config_def)

lemma mux_ok_on_config_response:
  assumes ok: "mux_ok mx" and out: "\<And>out. retired = Some out \<Longrightarrow> outstanding_ok i out"
  shows "mux_ok (snd (on_config_response i c result options retired mx))"
proof (cases "tbl_get (mx_channels mx) c")
  case None
  with ok show ?thesis by (simp add: on_config_response_def)
next
  case (Some ch)
  note ch = get_chan_ok [OF ok Some]
  have 1: "chan_ok c (apply_counter mtu options ch)" for mtu using ch by (rule chan_ok_counter)
  have 2: "chan_ok c (fold apply_pending_option options ch)"
    using ch by (simp add: chan_ok_folds)
  have 3: "chan_ok c (fold apply_success_option options ch)"
    using ch by (simp add: chan_ok_folds)
  have 4: "outstanding_ok i (out\<lparr>os_remaining := d, os_on_expiry := GiveUp\<rparr>)" if "retired = Some out" for out d
    using assms(2) [OF that] by (simp add: outstanding_ok_def)
  show ?thesis
    using ok 1 2 3 4 Some
    by (auto simp: on_config_response_def Let_def case_prod_beta
        split: option.split intro!: mux_intros table_intros mux_ok_bindS)
qed

lemma chan_ok_accepted: "chan_ok raw ch \<Longrightarrow> chan_ok raw (accepted_channel mps mtu continues options proposed ch)"
proof -
  assume ch: "chan_ok raw ch"
  have 1: "chan_ok raw (fold apply_request_option options
      (ch\<lparr>ch_mode := m, ch_local_mtu := k\<rparr>))" for m k
    using ch by (simp add: chan_ok_folds)
  have 2: "chan_ok raw (ch\<lparr>ch_parameters := (ch_parameters ch)\<lparr>mp_send_mps := max m 1\<rparr>\<rparr>)"
    if "chan_ok raw ch" for ch m
    using that by (auto simp: chan_ok_def params_ok_def)
  show ?thesis using 1 2 by (simp add: accepted_channel_def accepted_mps_def Let_def)
qed

lemma mux_ok_accept_config_request:
  assumes ok: "mux_ok mx" and ch: "chan_ok c ch"
  shows "mux_ok (snd (accept_config_request i c continues options proposed ch mx))"
proof -
  define ch' where "ch' = accepted_channel (receive_mps mx) (mx_local_mtu mx) continues options proposed ch"
  have put: "mux_ok (put_channel c ch' mx)"
    using ok chan_ok_accepted [OF ch] by (simp add: ch'_def mux_intros)
  show ?thesis
    unfolding accept_config_request_def ch'_def [symmetric] Let_def case_prod_beta
    using put by (auto split: sum.split intro!: mux_intros mux_ok_bindS)
qed

lemma mux_ok_on_config_request:
  "mux_ok mx \<Longrightarrow> mux_ok (snd (on_config_request i c flags options mx))"
  using get_chan_ok [of mx c]
  by (simp add: on_config_request_def Let_def mux_ok_accept_config_request split: option.split)

lemma mux_ok_on_connection_request:
  assumes ok: "mux_ok mx" shows "mux_ok (snd (on_connection_request i p c mx))"
proof (cases "map_of (mx_listening mx) p")
  case None
  with ok show ?thesis by (simp add: on_connection_request_def)
next
  case (Some mode)
  obtain r mx1 where a: "alloc_cid mx = (r, mx1)" by (cases "alloc_cid mx")
  note a' = alloc_cid_ok [OF a ok]
  show ?thesis
  proof (cases r)
    case (Inl e)
    with a a' Some show ?thesis by (simp add: on_connection_request_def bindS_def)
  next
    case (Inr local_cid)
    define mx2 where "mx2 = put_channel local_cid
      (new_channel local_cid c p (WaitConfig False False) (mode_mtu mx1 mode) mode False) mx1"
    have "mux_ok mx2" using a' Inr by (simp add: mx2_def mux_intros)
    then show ?thesis
      by (auto simp: on_connection_request_def Some bindS_def [of alloc_cid] a Inr Let_def mx2_def [symmetric]
          intro!: mux_ok_bindS mux_ok_request_configuration)
  qed
qed

lemma mux_ok_on_connection_response:
  assumes ok: "mux_ok mx" shows "mux_ok (snd (on_connection_response i d c result mx))"
  using ok
  by (auto simp: on_connection_response_def Let_def split: option.split
      intro!: mux_intros mux_ok_bindS dest: get_chan_ok)

lemma mux_ok_handle_signal: "mux_ok mx \<Longrightarrow> mux_ok (snd (handle_signal sig mx))"
proof -
  assume ok: "mux_ok mx"
  then have ok': "mux_ok (mx\<lparr>mx_outstanding := tbl_del i (mx_outstanding mx)\<rparr>)" for i
    by (intro mux_intros table_intros)
  have close: "mux_ok (snd (case close_channel c mx of (evs, mx) \<Rightarrow> (r evs, mx)))" if "mux_ok mx" for c r mx
    using that by (simp add: case_prod_beta mux_intros)
  show ?thesis
  proof (cases sig)
    case (CommandReject i reason data)
    show ?thesis using ok ok' [of i] unfolding CommandReject
      by (auto simp: handle_signal_def Let_def case_prod_beta split: option.split intro!: mux_intros)
  next
    case (ConfigurationResponse i c fl result options)
    show ?thesis using ok' [of i] get_outstanding_ok [OF ok, of i] unfolding ConfigurationResponse
      by (auto simp: handle_signal_def Let_def intro!: mux_ok_on_config_response)
  next
    case (DisconnectionRequest i d c)
    show ?thesis using ok unfolding DisconnectionRequest
      by (auto simp: handle_signal_def Let_def intro!: mux_ok_bindS close)
  next
    case (DisconnectionResponse i d c)
    show ?thesis using ok' [of i] unfolding DisconnectionResponse
      by (auto simp: handle_signal_def Let_def intro!: close)
  next
    case (ConnectionResponse i d c result st)
    show ?thesis using ok' [of i] unfolding ConnectionResponse
      by (auto simp: handle_signal_def Let_def intro!: mux_ok_on_connection_response)
  qed (use ok ok' in \<open>simp_all add: handle_signal_def Let_def mux_ok_on_connection_request
      mux_ok_on_config_request case_prod_beta\<close>)
qed

lemma mux_ok_handle_signals: "mux_ok mx \<Longrightarrow> mux_ok (snd (handle_signals sigs mx))"
proof (induction sigs arbitrary: mx)
  case (Cons sig sigs)
  have "mux_ok (snd (bindS (handle_signals sigs) (\<lambda>evs'. returnS (evs @ evs')) mx'))" if "mux_ok mx'" for evs mx'
    by (rule mux_ok_bindS) (simp_all add: Cons.IH that)
  with Cons.prems show ?case unfolding handle_signals.simps
    by (intro mux_ok_bindS [of "handle_signal sig"]) (simp_all add: mux_ok_handle_signal)
qed simp

lemma engine_params_receive: "e_params (snd (receive p e)) = e_params e"
  using params_apply [of "ReceivePayload p" e] by (metis ertm_apply.simps(2) prod.collapse)

lemma engine_params_send: "e_params (snd (send p e)) = e_params e"
  using params_apply [of "SendSdu p" e] by (metis ertm_apply.simps(1) prod.collapse)

lemma engine_params_tick: "e_params (fst (tick d e)) = e_params e"
  using params_apply [of "Elapsed d" e] by (simp add: case_prod_beta)

lemma engine_ok_ops:
  "engine_ok raw e \<Longrightarrow> engine_ok raw (snd (receive p e))"
  "engine_ok raw e \<Longrightarrow> engine_ok raw (snd (send p e))"
  "engine_ok raw e \<Longrightarrow> engine_ok raw (fst (tick d e))"
  by (simp_all add: engine_ok_def core_ok_receive core_ok_send core_ok_tick
      engine_params_receive engine_params_send engine_params_tick)

lemma mux_ok_put_engine [mux_intros]:
  "\<lbrakk>mux_ok mx; engine_ok raw e\<rbrakk> \<Longrightarrow> mux_ok (mx\<lparr>mx_ertm := tbl_put raw e (mx_ertm mx)\<rparr>)"
  by (intro mux_ok_set_ertm mux_ok_tables table_intros)

lemma mux_ok_handle_data: "mux_ok mx \<Longrightarrow> mux_ok (snd (handle_data p mx))"
proof -
  assume ok: "mux_ok mx"
  have "engine_ok (pdu_cid p) (snd (receive (pdu_payload p) e))"
    if "tbl_get (mx_ertm mx) (pdu_cid p) = Some e" for e
    by (rule engine_ok_ops(1) [OF get_engine_ok [OF ok that]])
  then show ?thesis using ok
    by (auto simp: handle_data_def Let_def case_prod_beta split: option.split prod.split sum.split intro!: mux_intros)
qed

lemma mux_ok_mux_send: "mux_ok mx \<Longrightarrow> mux_ok (snd (mux_send c payload mx))"
proof -
  assume ok: "mux_ok mx"
  have "engine_ok c (snd (send payload e))" if "tbl_get (mx_ertm mx) c = Some e" for e
    by (rule engine_ok_ops(2) [OF get_engine_ok [OF ok that]])
  then show ?thesis using ok
    by (auto simp: mux_send_def Let_def case_prod_beta split: option.split prod.split sum.split intro!: mux_intros)
qed

lemma mux_ok_handle_pdu: "mux_ok mx \<Longrightarrow> mux_ok (snd (handle_pdu p mx))"
  by (auto simp: handle_pdu_def Let_def mux_ok_handle_data mux_ok_handle_signals intro!: mux_ok_bindS)

lemma mux_ok_disconnect: "mux_ok mx \<Longrightarrow> mux_ok (snd (disconnect c mx))"
proof -
  assume ok: "mux_ok mx"
  obtain i mx1 where a: "alloc_id mx = (i, mx1)" by (cases "alloc_id mx")
  note b = alloc_id_ok [OF a ok]
  have c: "mx_channels mx1 = mx_channels mx" using mux_update_fields(5) [of mx] a by simp
  show ?thesis using b get_chan_ok [OF ok, of c] unfolding disconnect_def Let_def a
    by (auto simp: c split: option.split sum.split intro!: mux_intros) (auto simp: chan_ok_def)
qed

lemma mux_ok_link_down: "mux_ok mx \<Longrightarrow> mux_ok (snd (link_down mx))"
  by (simp add: mux_ok_def link_down_def)

lemma mux_ok_listen_with: "mux_ok mx \<Longrightarrow> mux_ok (listen_with p m mx)"
  by (simp add: mux_ok_def listen_with_def)

lemma mux_ok_new: "mux_ok (mux_new mtu)"
  by (simp add: mux_ok_def mux_new_def is_dynamic_def)

lemma mux_ok_expire: "mux_ok (snd (snd s)) \<Longrightarrow> mux_ok (snd (snd (expire i s)))"
proof -
  assume ok: "mux_ok (snd (snd s))"
  have "outstanding_ok i (out\<lparr>os_retries := os_retries out + 1, os_remaining := rtx\<rparr>)"
    if "tbl_get (mx_outstanding (snd (snd s))) i = Some out" "os_retries out < rtx_retries" for out
    using get_outstanding_ok [OF ok that(1)] that(2)
    by (simp add: outstanding_ok_def inc_le)
  then show ?thesis using ok
    by (auto simp: expire_def Let_def case_prod_beta split: option.split sum.split intro!: mux_intros table_intros)
qed

lemma mux_ok_expires: "mux_ok (snd (snd s)) \<Longrightarrow> mux_ok (snd (snd (fold expire is s)))"
  by (induction "is" arbitrary: s) (simp_all add: mux_ok_expire)

lemma tick_engines_ok:
  "tbl_all engine_ok t \<Longrightarrow> tbl_all engine_ok (snd (snd (tick_engines d chs t)))
     \<and> map fst (snd (snd (tick_engines d chs t))) = map fst t"
proof (induction t)
  case (Cons entry rest)
  obtain raw e where entry: "entry = (raw, e)" by (cases entry)
  have "tbl_all engine_ok rest" using Cons.prems by (simp add: tbl_all_def)
  then have IH: "tbl_all engine_ok (snd (snd (tick_engines d chs rest)))"
    "map fst (snd (snd (tick_engines d chs rest))) = map fst rest"
    using Cons.IH by simp_all
  have e: "snd (snd (tick_engines d chs ((raw, e) # rest))) = (raw, fst (tick d e)) # snd (snd (tick_engines d chs rest))"
    by (auto simp: Let_def case_prod_beta split: option.split)
  have "raw \<notin> fst ` set (snd (snd (tick_engines d chs rest)))"
    using Cons.prems IH(2) by (simp add: entry tbl_all_def flip: set_map)
  then show ?case unfolding entry e using IH Cons.prems engine_ok_ops(3) [of raw e d]
    by (simp add: entry tbl_all_def)
qed simp

lemma mux_ok_fail_channels: "mux_ok mx \<Longrightarrow> mux_ok (snd (fail_channels cs mx))"
  by (induction cs arbitrary: mx) (simp_all add: Let_def case_prod_beta mux_intros)

lemma mux_ok_tick: "mux_ok mx \<Longrightarrow> mux_ok (snd (mux_tick d mx))"
proof -
  assume ok: "mux_ok mx"
  have 1: "mux_ok (mx\<lparr>mx_outstanding := age_outstanding d (mx_outstanding mx)\<rparr>)"
    using ok unfolding age_outstanding_def
    by (intro mux_ok_set_outstanding tbl_all_map mux_ok_tables) (simp_all add: outstanding_ok_def)
  then have 2: "mux_ok (snd (snd (fold expire is ([], [], mx\<lparr>mx_outstanding := age_outstanding d (mx_outstanding mx)\<rparr>))))" for "is"
    by (intro mux_ok_expires) simp
  then have 3: "mux_ok (snd (snd (fold expire is ([], [], mx\<lparr>mx_outstanding := age_outstanding d (mx_outstanding mx)\<rparr>)))
      \<lparr>mx_ertm := snd (snd (tick_engines d chs (mx_ertm (snd (snd (fold expire is ([], [], mx\<lparr>mx_outstanding := age_outstanding d (mx_outstanding mx)\<rparr>)))))))\<rparr>)"
    for "is" chs
    by (intro mux_ok_set_ertm) (simp_all add: tick_engines_ok mux_ok_tables)
  show ?thesis unfolding mux_tick_def Let_def case_prod_beta snd_conv
    by (intro mux_ok_fail_channels 3)
qed

section \<open>Any sequence of calls\<close>

datatype mux_call =
    Listen psm channel_mode
  | Connect psm channel_mode
  | SendData cid bytes
  | Disconnect cid
  | LinkDown
  | Pdu l2cap_pdu
  | Elapse duration

fun mux_step :: "mux_call \<Rightarrow> mux \<Rightarrow> mux" where
  "mux_step (Listen p m) mx = listen_with p m mx"
| "mux_step (Connect p m) mx = snd (connect_with p m mx)"
| "mux_step (SendData c bs) mx = snd (mux_send c bs mx)"
| "mux_step (Disconnect c) mx = snd (disconnect c mx)"
| "mux_step LinkDown mx = snd (link_down mx)"
| "mux_step (Pdu p) mx = snd (handle_pdu p mx)"
| "mux_step (Elapse d) mx = snd (mux_tick d mx)"

interpretation mux: machine mux_step mux_ok
proof
  fix mx call assume "mux_ok mx"
  then show "mux_ok (mux_step call mx)"
    by (cases call) (simp_all add: mux_ok_listen_with mux_ok_connect_with mux_ok_mux_send
        mux_ok_disconnect mux_ok_link_down mux_ok_handle_pdu mux_ok_tick)
qed

end
