(* ===== verification/Mux_Props.thy ===== *)
theory Mux_Props
  imports Mux_Invariant
begin

text \<open>
  What the multiplexer promises: when a channel opens and what its opening settles, that
  identifiers are fresh, that a peer which does not answer is given up on in bounded time, and
  who decides the mode of a channel. The last section records three answers it mishandles.
\<close>

section \<open>A run to apply the theorems to\<close>

lemma snd_bindS_returnS: "snd (bindS m (\<lambda>a. returnS (f a)) s) = snd (m s)"
  by (auto simp: bindS_def returnS_def split: prod.split sum.split)

lemma decode_frame_signal: "signal_fits s \<Longrightarrow>
    decode_frame (signal_bytes s) = \<lparr>df_signals = [s], df_rejects = [], df_truncated = False\<rparr>"
  using signals.dec_all [of "[s]"] decoders_agree_iff [of "signal_bytes s" "[s]"] by simp

lemma handle_pdu_signal:
  "signal_fits s \<Longrightarrow> handle_pdu \<lparr>pdu_cid = cid_signaling, pdu_payload = signal_bytes s\<rparr> = handle_signal s"
  by (rule ext) (auto simp: handle_pdu_def decode_frame_signal Let_def method_defs split: prod.split sum.split)

definition signal_pdu :: "signal \<Rightarrow> mux_call" where
  "signal_pdu s = Pdu \<lparr>pdu_cid = cid_signaling, pdu_payload = signal_bytes s\<rparr>"

lemma mux_step_signal: "signal_fits s \<Longrightarrow> mux_step (signal_pdu s) mx = snd (handle_signal s mx)"
  by (simp add: signal_pdu_def handle_pdu_signal)

definition sample_calls :: "mux_call list" where
  "sample_calls = [Listen 0x19 Basic, signal_pdu (ConnectionRequest 1 0x19 0x50),
     signal_pdu (ConfigurationResponse 1 0x40 0 CfgSuccess [])]"

lemma alloc_cid_first:
  "\<lbrakk>mx_channels mx = []; mx_next_cid mx = c\<rbrakk> \<Longrightarrow> alloc_cid mx = (Inr c, mx\<lparr>mx_next_cid := next_cid c\<rparr>)"
proof -
  assume "mx_channels mx = []" "mx_next_cid mx = c"
  then have "alloc_cid_loop (Suc n) mx = (Inr c, mx\<lparr>mx_next_cid := next_cid c\<rparr>)" for n by simp
  from this [of "65470"] show ?thesis by (simp add: alloc_cid_def)
qed

lemma sample_mux_1: "fold mux_step [Listen 0x19 Basic, signal_pdu (ConnectionRequest 1 0x19 0x50)] (mux_new 672) =
  \<lparr>mx_channels = [(0x40, (new_channel 0x40 0x50 0x19 (WaitConfig False False) 672 Basic False)
        \<lparr>ch_config_id := Some 1, ch_config_attempts := 1\<rparr>)],
   mx_ertm = [], mx_listening = [(0x19, Basic)], mx_next_cid = 0x41, mx_next_id = 2, mx_pending = [],
   mx_outstanding = [(1, \<lparr>os_raw_cid = 0x40, os_request = ConfigurationRequest 1 0x50 0 [Mtu 672],
      os_remaining = rtx, os_retries = 0, os_on_expiry = Resend\<rparr>)], mx_local_mtu = 672\<rparr>"
  by (simp add: mux_step_signal signal_fits_def psm_new_def handle_signal_def listen_with_def mux_new_def
     on_connection_request_def bindS_def alloc_cid_first)
    (simp add: next_cid_def dynamic_start_def liftS_def signal_event_def signal_encode_def
     u16_try_from_def Let_def request_configuration_def put_channel_def alloc_id_def retire_timers_def
     new_channel_def mode_mtu_def ceiling_for_def awaiting_def pdu_event_def sat_add_def snd_bindS_returnS)

lemma sample_mux: "fold mux_step sample_calls (mux_new 672) =
  \<lparr>mx_channels = [(0x40, (new_channel 0x40 0x50 0x19 (WaitConfig True False) 672 Basic False)
        \<lparr>ch_config_attempts := 1\<rparr>)],
   mx_ertm = [], mx_listening = [(0x19, Basic)], mx_next_cid = 0x41, mx_next_id = 2, mx_pending = [],
   mx_outstanding = [], mx_local_mtu = 672\<rparr>"
proof -
  have "fold mux_step sample_calls (mux_new 672) = mux_step (signal_pdu (ConfigurationResponse 1 0x40 0 CfgSuccess []))
      (fold mux_step [Listen 0x19 Basic, signal_pdu (ConnectionRequest 1 0x19 0x50)] (mux_new 672))"
    by (simp add: sample_calls_def)
  then show ?thesis unfolding sample_mux_1
    by (simp add: mux_step_signal signal_fits_def handle_signal_def on_config_response_def new_channel_def
        put_channel_def promote_if_configured_def Let_def cfg_from_bits_def)
qed

lemma sample_open:
  "fst (handle_signal (ConfigurationRequest 2 0x40 0 [Mtu 900]) (fold mux_step sample_calls (mux_new 672)))
    = Inr [pdu_event cid_signaling [0x05, 2, 10, 0, 0x50, 0, 0, 0, 0, 0, 1, 2, 0x84, 3], ChannelOpen 0x40 0x19 900]"
  unfolding sample_mux
  by (simp add: handle_signal_def on_config_request_def accept_config_request_def rc_basic_def
      new_channel_def accepted_channel_def accepted_response_def put_channel_def promote_if_configured_def Let_def
      signal_event_def signal_encode_def u16_try_from_def le16_def opt_defs retire_timers_def ceiling_for_def pdu_event_def)

section \<open>The invariant\<close>


section \<open>When a channel opens\<close>

lemma promote_opens:
  "ChannelOpen c p m \<in> set (fst (promote_if_configured raw mx)) \<Longrightarrow> mux_ok mx \<Longrightarrow>
     c = raw \<and> (\<exists>ch. tbl_get (mx_channels mx) raw = Some ch \<and> ch_state ch = WaitConfig True True)"
  by (auto simp: promote_if_configured_def Let_def chan_ok_def dest: get_chan_ok split: option.splits if_splits)

text \<open>Failing, closing and configuring open nothing.\<close>

lemma signal_event_opens: "signal_event s = Inr ev \<Longrightarrow> ev \<noteq> ChannelOpen c p m"
  by (auto simp: signal_event_def bindE_eq_Inr pdu_event_def)

lemma fail_channel_opens: "ChannelOpen c p m \<notin> set (fst (fail_channel raw mx))"
  by (auto simp: fail_channel_def Let_def case_prod_beta dest: signal_event_opens split: option.split sum.split)

lemma fail_configuration_opens: "ChannelOpen c p m \<notin> set (fst (fail_configuration raw mx))"
  by (auto simp: fail_configuration_def Let_def case_prod_beta dest: signal_event_opens split: option.split sum.split)

lemma close_channel_opens: "ChannelOpen c p m \<notin> set (fst (close_channel raw mx))"
  by (auto simp: close_channel_def Let_def split: option.split)

lemma request_configuration_opens:
  "request_configuration raw mx = (Inr ev, mx') \<Longrightarrow> ev \<noteq> ChannelOpen c p m"
  by (auto simp: request_configuration_def Let_def dest: signal_event_opens split: prod.splits option.splits sum.splits)

lemma bindS_eq_Inr: "bindS m f s = (Inr b, s'') \<longleftrightarrow> (\<exists>a s'. m s = (Inr a, s') \<and> f a s' = (Inr b, s''))"
  by (auto simp: bindS_def split: prod.split sum.split)

lemma request_configuration_state:
  "request_configuration raw mx = (Inr ev, mx') \<Longrightarrow> tbl_get (mx_channels mx') c = Some ch' \<Longrightarrow>
    \<exists>ch. tbl_get (mx_channels mx) c = Some ch \<and> ch_state ch' = ch_state ch"
  using mux_update_fields(5) [of mx]
  by (cases "alloc_id mx") (auto simp: request_configuration_def Let_def table_simps
      split: option.splits sum.splits if_splits)

lemma outgoing_eq: "outgoing_done st = WaitConfig True True \<longleftrightarrow> (\<exists>b. st = WaitConfig b True)"
  by (cases st) auto

lemma incoming_eq: "incoming_done st = WaitConfig True True \<longleftrightarrow> (\<exists>b. st = WaitConfig True b)"
  by (cases st) auto

lemma state_folds [simp]:
  "ch_state (fold apply_request_option opts ch) = ch_state ch"
  "ch_state (fold apply_success_option opts ch) = ch_state ch"
proof -
  have "ch_state (apply_request_option opt ch) = ch_state ch"
    "ch_state (apply_success_option opt ch) = ch_state ch" for opt ch
    by (cases opt; simp add: Let_def)+
  then show "ch_state (fold apply_request_option opts ch) = ch_state ch"
    "ch_state (fold apply_success_option opts ch) = ch_state ch"
    by (induction opts arbitrary: ch; simp)+
qed

lemma accepted_state: "ch_state (accepted_channel mps mtu continues opts proposed ch) =
    (if continues then ch_state ch else incoming_done (ch_state ch))"
  by (simp add: accepted_channel_def Let_def)

lemma config_request_opens:
  assumes "mux_ok mx" "on_config_request i d flags options mx = (Inr evs, mx')" "ChannelOpen c p m \<in> set evs"
  shows "c = d \<and> flags AND continuation_flag = 0 \<and>
    (\<exists>ch b. tbl_get (mx_channels mx) d = Some ch \<and> ch_state ch = WaitConfig True b)"
proof -
  have refuse: "ChannelOpen c p m \<notin> set evs" if "refuse_config j s r os mx = (Inr evs, mx')" for j s r os
    using that by (auto simp: refuse_config_def liftS_def bindE_eq_Inr dest: signal_event_opens)
  obtain ch where ch: "tbl_get (mx_channels mx) d = Some ch"
    using assms refuse by (auto simp: on_config_request_def Let_def split: option.splits)
  define proposed where "proposed = (case proposed_retransmission options of Some c \<Rightarrow> c | None \<Rightarrow> rc_basic)"
  define continues where "continues = (flags AND continuation_flag \<noteq> 0)"
  define ch' where "ch' = accepted_channel (receive_mps mx) (mx_local_mtu mx) continues options proposed ch"
  define mx1 where "mx1 = put_channel d ch' mx"
  have ok: "mux_ok mx1" unfolding mx1_def ch'_def
    using assms(1) get_chan_ok [OF assms(1) ch] by (intro mux_intros chan_ok_accepted)
  have acc: "accept_config_request i d continues options proposed ch mx = (Inr evs, mx')"
    using assms(2,3) refuse
    by (auto simp: on_config_request_def Let_def ch continues_def proposed_def split: if_splits)
  have "\<not> continues \<and> ChannelOpen c p m \<in> set (fst (promote_if_configured d mx1))"
    using acc assms(3) fail_configuration_opens
    unfolding accept_config_request_def ch'_def [symmetric] Let_def mx1_def [symmetric]
    by (auto simp: case_prod_beta bindS_eq_Inr returnS_def
        dest: signal_event_opens request_configuration_opens split: sum.splits if_splits)
  then show ?thesis using promote_opens [OF _ ok, of c p m d]
    by (auto simp: mx1_def table_simps ch'_def accepted_state incoming_eq continues_def ch)
qed

lemma config_response_opens:
  assumes "mux_ok mx" "on_config_response i d result options retired mx = (Inr evs, mx')"
    "ChannelOpen c p m \<in> set evs"
  shows "c = d \<and> result = CfgSuccess \<and> (\<exists>ch b. tbl_get (mx_channels mx) d = Some ch
    \<and> ch_state ch = WaitConfig b True \<and> (ch_config_id ch = None \<or> ch_config_id ch = Some i))"
proof -
  obtain ch where ch: "tbl_get (mx_channels mx) d = Some ch"
    using assms by (auto simp: on_config_response_def split: option.splits)
  define ch' where "ch' = (fold apply_success_option options ch)
    \<lparr>ch_config_id := None, ch_state := outgoing_done (ch_state (fold apply_success_option options ch))\<rparr>"
  define mx1 where "mx1 = put_channel d ch' mx"
  have ok: "mux_ok mx1" unfolding mx1_def ch'_def
    using assms(1) get_chan_ok [OF assms(1) ch] by (intro mux_intros) (simp_all add: chan_ok_folds)
  have "result = CfgSuccess \<and> (ch_config_id ch = None \<or> ch_config_id ch = Some i) \<and>
      ChannelOpen c p m \<in> set (fst (promote_if_configured d mx1))"
    using assms(2,3) fail_configuration_opens [of c p m]
    unfolding on_config_response_def ch
    by (auto simp: Let_def case_prod_beta bindS_eq_Inr returnS_def mx1_def ch'_def
        dest: request_configuration_opens split: if_splits)
  then show ?thesis using promote_opens [OF _ ok, of c p m d]
    by (auto simp: mx1_def table_simps ch'_def outgoing_eq ch)
qed

lemma other_signals_open:
  assumes "handle_signal sig mx = (Inr evs, mx')" "ChannelOpen c p m \<in> set evs"
  shows "(\<exists>i d fl os. sig = ConfigurationRequest i d fl os) \<or> (\<exists>i d fl r os. sig = ConfigurationResponse i d fl r os)"
proof (cases sig)
  case (CommandReject i reason data)
  then show ?thesis using assms fail_channel_opens [of c p m]
    by (auto simp: handle_signal_def Let_def case_prod_beta split: option.splits)
next
  case (ConnectionRequest i q d)
  then show ?thesis using assms
    by (auto simp: handle_signal_def on_connection_request_def Let_def bindS_eq_Inr liftS_def returnS_def
        bindE_eq_Inr dest: signal_event_opens request_configuration_opens split: option.splits)
next
  case (ConnectionResponse i d sc r st)
  then show ?thesis using assms
    by (auto simp: handle_signal_def on_connection_response_def Let_def bindS_eq_Inr returnS_def
        dest: request_configuration_opens split: option.splits if_splits)
next
  case (DisconnectionRequest i d sc)
  then show ?thesis using assms close_channel_opens [of c p m]
    by (auto simp: handle_signal_def Let_def case_prod_beta bindS_eq_Inr liftS_def dest: signal_event_opens)
next
  case (DisconnectionResponse i d sc)
  then show ?thesis using assms close_channel_opens [of c p m]
    by (auto simp: handle_signal_def Let_def case_prod_beta)
qed (use assms in \<open>auto simp: handle_signal_def Let_def case_prod_beta liftS_def bindE_eq_Inr dest: signal_event_opens\<close>)

text \<open>
  C8. A channel opens only when both directions are configured: in any reachable state the
  signal that makes \<open>ChannelOpen\<close> appear is either the peer's final configuration request (no
  continuation flag) on a channel whose own direction was already agreed, or a successful
  response, to the current proposal where one is outstanding, on a channel whose incoming
  direction was.
\<close>

theorem channel_opens_configured:
  assumes "handle_signal sig (fold mux_step calls (mux_new mtu)) = (Inr evs, mx')"
    and "ChannelOpen c p m \<in> set evs"
  shows "\<exists>ch b. tbl_get (mx_channels (fold mux_step calls (mux_new mtu))) c = Some ch \<and>
    ((\<exists>i fl os. sig = ConfigurationRequest i c fl os \<and> fl AND continuation_flag = 0
        \<and> ch_state ch = WaitConfig True b)
     \<or> (\<exists>i fl os. sig = ConfigurationResponse i c fl CfgSuccess os
        \<and> ch_state ch = WaitConfig b True \<and> (ch_config_id ch = None \<or> ch_config_id ch = Some i)))"
proof -
  let ?mx = "fold mux_step calls (mux_new mtu)"
  have ok: "mux_ok ?mx" by (rule mux.run_ok [OF mux_ok_new])
  from other_signals_open [OF assms] show ?thesis
  proof (elim disjE exE)
    fix i d fl os assume sig: "sig = ConfigurationRequest i d fl os"
    then have "on_config_request i d fl os ?mx = (Inr evs, mx')"
      using assms(1) by (simp add: handle_signal_def Let_def)
    from config_request_opens [OF ok this assms(2)] show ?thesis using sig by auto
  next
    fix i d fl r os assume sig: "sig = ConfigurationResponse i d fl r os"
    define mx1 where "mx1 = ?mx\<lparr>mx_outstanding := tbl_del i (mx_outstanding ?mx)\<rparr>"
    have "mux_ok mx1" using ok unfolding mx1_def by (intro mux_intros table_intros)
    moreover have "on_config_response i d r os (tbl_get (mx_outstanding ?mx) i) mx1 = (Inr evs, mx')"
      using assms(1) sig by (simp add: handle_signal_def Let_def mx1_def)
    ultimately show ?thesis using config_response_opens [OF _ _ assms(2)] sig by (fastforce simp: mx1_def)
  qed
qed

theorem channel_opens_configured_witness:
  "\<exists>ch b. tbl_get (mx_channels (fold mux_step sample_calls (mux_new 672))) 0x40 = Some ch \<and>
     ch_state ch = WaitConfig True b"
proof -
  obtain mx' where s: "handle_signal (ConfigurationRequest 2 0x40 0 [Mtu 900]) (fold mux_step sample_calls (mux_new 672))
      = (Inr [pdu_event cid_signaling [0x05, 2, 10, 0, 0x50, 0, 0, 0, 0, 0, 1, 2, 0x84, 3],
              ChannelOpen 0x40 0x19 900], mx')"
    using sample_open by (metis prod.collapse)
  show ?thesis using channel_opens_configured [OF s, of "0x40" "0x19" 900] by auto
qed

text \<open>
  What opening settles: the channel is open, no response timer of the channel is left
  running to tear it down later, and in retransmission mode it has a fresh engine with the
  negotiated parameters.
\<close>

theorem promotion:
  assumes "promote_if_configured raw mx = (evs, mx')" "evs \<noteq> []" "tbl_get (mx_channels mx) raw = Some ch"
  shows "tbl_get (mx_channels mx') raw = Some (ch\<lparr>ch_state := Open\<rparr>) \<and>
    (\<forall>i out. (i, out) \<in> set (mx_outstanding mx') \<longrightarrow> os_raw_cid out \<noteq> raw) \<and>
    (ch_mode ch = EnhancedRetransmission \<longrightarrow>
       tbl_get (mx_ertm mx') raw = Some (ertm_new (ertm_parameters_of (ch\<lparr>ch_state := Open\<rparr>))))"
  using assms
  by (auto simp: promote_if_configured_def Let_def table_simps retire_timers_def split: if_splits)

theorem promotion_witness:
  "let ch = new_channel 0x40 0x50 0x1B (WaitConfig True True) 8192 EnhancedRetransmission False;
       mx = put_channel 0x40 ch (awaiting 1 0x40 (EchoRequest 1 []) (mux_new 672))
   in \<forall>i out. (i, out) \<in> set (mx_outstanding (snd (promote_if_configured 0x40 mx))) \<longrightarrow> os_raw_cid out \<noteq> 0x40"
proof -
  define ch where "ch = new_channel 0x40 0x50 0x1B (WaitConfig True True) 8192 EnhancedRetransmission False"
  define mx where "mx = put_channel 0x40 ch (awaiting 1 0x40 (EchoRequest 1 []) (mux_new 672))"
  have g: "tbl_get (mx_channels mx) 0x40 = Some ch" by (simp add: mx_def table_simps)
  obtain evs mx' where p: "promote_if_configured 0x40 mx = (evs, mx')" by (cases "promote_if_configured 0x40 mx")
  have "evs \<noteq> []" using p g by (auto simp: promote_if_configured_def Let_def ch_def new_channel_def)
  from promotion [OF p this g] p show ?thesis by (simp add: ch_def [symmetric] mx_def [symmetric])
qed

section \<open>Identifiers\<close>

text \<open>
  The identifier allocated for a new channel is in the dynamic range and belongs to no
  other channel, in every reachable state.
\<close>

theorem alloc_cid_fresh:
  assumes "alloc_cid (fold mux_step calls (mux_new mtu)) = (Inr c, mx')"
  shows "tbl_get (mx_channels (fold mux_step calls (mux_new mtu))) c = None \<and> is_dynamic c"
proof -
  have "mux_ok (fold mux_step calls (mux_new mtu))" by (rule mux.run_ok [OF mux_ok_new])
  then show ?thesis using assms unfolding alloc_cid_def
    by (intro alloc_cid_loop_result) (auto simp: mux_ok_def)
qed

theorem alloc_cid_fresh_witness:
  "tbl_get (mx_channels (fold mux_step [Listen 0x19 Basic] (mux_new 672))) 0x40 = None \<and> is_dynamic 0x40"
  by (rule alloc_cid_fresh [of _ _ _ "(fold mux_step [Listen 0x19 Basic] (mux_new 672))\<lparr>mx_next_cid := 0x41\<rparr>"])
    (simp add: alloc_cid_first listen_with_def mux_new_def next_cid_def dynamic_start_def)

section \<open>Requests the peer does not answer\<close>

lemma fail_channel_gone:
  "tbl_get (mx_channels (snd (fail_channel c mx))) c' = (if c' = c then None else tbl_get (mx_channels mx) c')"
  "tbl_get (mx_ertm (snd (fail_channel c mx))) c' = (if c' = c then None else tbl_get (mx_ertm mx) c')"
  by (auto simp: fail_channel_def Let_def case_prod_beta table_simps split: option.split sum.split)

lemma fail_channels_gone:
  "tbl_get (mx_channels (snd (fail_channels cs mx))) c = (if c \<in> set cs then None else tbl_get (mx_channels mx) c)"
  by (induction cs arbitrary: mx) (auto simp: Let_def case_prod_beta fail_channel_gone)

lemma fold_expire_other:
  "i \<notin> set is \<Longrightarrow> tbl_get (mx_outstanding (snd (snd (fold expire is s)))) i = tbl_get (mx_outstanding (snd (snd s))) i"
proof (induction "is" arbitrary: s)
  case (Cons j js)
  have "tbl_get (mx_outstanding (snd (snd (expire j s)))) i = tbl_get (mx_outstanding (snd (snd s))) i"
    using Cons.prems by (auto simp: expire_def Let_def case_prod_beta drop_pending_def table_simps
        split: option.split sum.split)
  with Cons show ?case by simp
qed simp

lemma fold_expire_failed_mono:
  "c \<in> set (fst (snd s)) \<Longrightarrow> c \<in> set (fst (snd (fold expire is s)))"
proof (induction "is" arbitrary: s)
  case (Cons j js)
  have "c \<in> set (fst (snd (expire j s)))"
    using Cons.prems by (auto simp: expire_def Let_def case_prod_beta split: option.split sum.split)
  with Cons show ?case by simp
qed simp

lemma fold_expire_gives_up:
  assumes "i \<in> set is" "distinct is" "tbl_get (mx_outstanding (snd (snd s))) i = Some out"
    "\<not> (os_on_expiry out = Resend \<and> os_retries out < rtx_retries)"
  shows "os_raw_cid out \<in> set (fst (snd (fold expire is s)))"
  using assms
proof (induction "is" arbitrary: s)
  case (Cons j js)
  show ?case
  proof (cases "j = i")
    case True
    then have "os_raw_cid out \<in> set (fst (snd (expire j s)))"
      using Cons.prems by (auto simp: expire_def Let_def case_prod_beta)
    then show ?thesis by (simp add: fold_expire_failed_mono)
  next
    case False
    then have "tbl_get (mx_outstanding (snd (snd (expire j s)))) i = Some out"
      using fold_expire_other [of i "[j]" s] Cons.prems(3) by simp
    with Cons False show ?thesis by simp
  qed
qed simp

lemma map_of_age: "tbl_get (age_outstanding d t) i =
    map_option (\<lambda>out. out\<lparr>os_remaining := os_remaining out - d\<rparr>) (tbl_get t i)"
  by (induction t) (auto simp: age_outstanding_def)

lemma expired_ids_age:
  "tbl_ok t \<Longrightarrow> tbl_get t i = Some out \<Longrightarrow> os_remaining out \<le> d \<Longrightarrow> i \<in> set (expired_ids (age_outstanding d t))"
  by (force simp: expired_ids_def age_outstanding_def dest: map_of_SomeD)

lemma distinct_expired: "tbl_ok t \<Longrightarrow> distinct (expired_ids t)"
  by (simp add: expired_ids_def distinct_map_filter)

lemma tbl_ok_age: "tbl_ok t \<Longrightarrow> tbl_ok (age_outstanding d t)"
  by (simp add: age_outstanding_def comp_def case_prod_beta)

text \<open>
  A request that is never answered does not hold its channel for ever: when its timer
  runs out and it has been resent its full allowance (or the peer had answered \<open>Pending\<close>), the
  channel is gone after that tick, whatever else the tick does.
\<close>

theorem unanswered_request_fails_channel:
  assumes "tbl_get (mx_outstanding (fold mux_step calls (mux_new mtu))) i = Some out"
    and "os_remaining out \<le> d" and "os_on_expiry out = GiveUp \<or> os_retries out = rtx_retries"
  shows "tbl_get (mx_channels (mux_step (Elapse d) (fold mux_step calls (mux_new mtu)))) (os_raw_cid out) = None"
proof -
  let ?mx = "fold mux_step calls (mux_new mtu)"
  let ?t = "age_outstanding d (mx_outstanding ?mx)"
  have ok: "tbl_ok (mx_outstanding ?mx)"
    using mux.run_ok [OF mux_ok_new, of calls mtu] by (simp add: mux_ok_def tbl_all_def)
  have "os_raw_cid out \<in> set (fst (snd (fold expire (expired_ids ?t) ([], [], ?mx\<lparr>mx_outstanding := ?t\<rparr>))))"
    using assms expired_ids_age [OF ok assms(1,2)] distinct_expired [OF tbl_ok_age [OF ok]]
      fold_expire_gives_up [of i "expired_ids ?t" "([], [], ?mx\<lparr>mx_outstanding := ?t\<rparr>)"
        "out\<lparr>os_remaining := os_remaining out - d\<rparr>"]
    by (auto simp: map_of_age)
  then show ?thesis
    by (simp add: mux_tick_def Let_def case_prod_beta fail_channels_gone)
qed

section \<open>Who decides the mode\<close>

lemma mode_fold_request [simp]: "ch_mode (fold apply_request_option opts ch) = ch_mode ch"
proof -
  have "ch_mode (apply_request_option opt ch) = ch_mode ch" for opt ch by (cases opt) simp_all
  then show ?thesis by (induction opts arbitrary: ch) simp_all
qed

lemma accepted_mode [simp]: "ch_mode (accepted_channel mps mtu continues opts proposed ch) = rc_mode proposed"
  by (simp add: accepted_channel_def Let_def)

lemma promote_mode:
  "tbl_get (mx_channels (snd (promote_if_configured raw mx))) c = Some ch' \<Longrightarrow>
     \<exists>ch. tbl_get (mx_channels mx) c = Some ch \<and> ch_mode ch' = ch_mode ch"
  by (auto simp: promote_if_configured_def Let_def table_simps split: option.splits if_splits)

lemma fail_configuration_gone: "tbl_get (mx_channels (snd (fail_configuration c mx))) c = None"
  by (auto simp: fail_configuration_def Let_def case_prod_beta table_simps split: option.split sum.split)

lemma request_configuration_mode:
  "tbl_get (mx_channels (snd (request_configuration raw mx))) c = Some ch' \<Longrightarrow>
    \<exists>ch. tbl_get (mx_channels mx) c = Some ch \<and> ch_mode ch' = ch_mode ch"
  using mux_update_fields(5) [of mx]
  by (cases "alloc_id mx") (auto simp: request_configuration_def Let_def table_simps
      split: option.splits sum.splits if_splits)

lemma accept_config_request_mode:
  "\<lbrakk>tbl_get (mx_channels mx) c = Some ch;
    tbl_get (mx_channels (snd (accept_config_request i c continues options proposed ch mx))) c = Some ch'\<rbrakk> \<Longrightarrow>
     ch_mode ch' = rc_mode proposed"
  unfolding accept_config_request_def Let_def case_prod_beta
  by (auto simp: table_simps snd_bindS_returnS fail_configuration_gone
      dest!: promote_mode request_configuration_mode split: sum.splits if_splits)

text \<open>
  The side that listened, or whose own direction is settled, holds the mode: no
  configuration request, whatever its options and flags, changes the mode of such a channel.
\<close>

theorem mode_is_held:
  assumes "tbl_get (mx_channels mx) c = Some ch"
    and "tbl_get (mx_channels (snd (handle_signal (ConfigurationRequest i c flags options) mx))) c = Some ch'"
    and "\<not> ch_initiator ch \<or> settled (ch_state ch)"
  shows "ch_mode ch' = ch_mode ch"
  using assms accept_config_request_mode [OF assms(1)]
  by (auto simp: handle_signal_def Let_def on_config_request_def split: if_splits)

theorem mode_is_held_witness:
  "map_option ch_mode (tbl_get (mx_channels (snd (handle_signal
      (ConfigurationRequest 2 0x40 0 [Retransmission (rc_ertm 600)])
      (fold mux_step sample_calls (mux_new 672))))) 0x40) = Some Basic"
proof -
  define ch where "ch = (new_channel 0x40 0x50 0x19 (WaitConfig True False) 672 Basic False)\<lparr>ch_config_attempts := 1\<rparr>"
  define mx where "mx = fold mux_step sample_calls (mux_new 672)"
  have g: "tbl_get (mx_channels mx) 0x40 = Some ch" by (simp add: mx_def sample_mux ch_def)
  have f: "snd (handle_signal (ConfigurationRequest 2 0x40 0 [Retransmission (rc_ertm 600)]) mx) = mx"
    by (simp add: handle_signal_def on_config_request_def Let_def g ch_def new_channel_def rc_ertm_def
        refuse_config_def liftS_def)
  have "ch_mode ch = ch_mode ch"
    by (rule mode_is_held [of mx "0x40" ch 2 0 "[Retransmission (rc_ertm 600)]"])
      (simp_all add: f g, simp add: ch_def new_channel_def)
  with f g show ?thesis by (simp add: mx_def [symmetric]) (simp add: ch_def new_channel_def)
qed

section \<open>Runs of the timers\<close>

lemma signal_event_simps:
  "signal_event (ConnectionRequest i p c) = Inr (pdu_event cid_signaling ([0x02, i, 4, 0] @ le16 p @ le16 c))"
  "signal_event (DisconnectionRequest i d c) = Inr (pdu_event cid_signaling ([0x06, i, 4, 0] @ le16 d @ le16 c))"
  by (simp_all add: signal_event_def signal_encode_def Let_def u16_try_from_def le16_def)

lemma alloc_cid_new: "alloc_cid (mux_new mtu) = (Inr 0x40, (mux_new mtu)\<lparr>mx_next_cid := 0x41\<rparr>)"
proof -
  have "alloc_cid_loop (Suc n) (mux_new mtu) = (Inr 0x40, (mux_new mtu)\<lparr>mx_next_cid := 0x41\<rparr>)" for n
    by (simp add: mux_new_def next_cid_def dynamic_start_def)
  from this [of "65470"] show ?thesis by (simp add: alloc_cid_def)
qed

definition dialled :: "u16 \<Rightarrow> psm \<Rightarrow> channel_mode \<Rightarrow> mux" where
  "dialled mtu p mode = mux_step (Connect p mode) (mux_new mtu)"

lemma dialled_eq:
  "dialled mtu p mode = (mux_new mtu)\<lparr>mx_next_cid := 0x41, mx_next_id := 2, mx_pending := [(1, 0x40)],
     mx_channels := [(0x40, new_channel 0x40 cid_null p WaitConnectRsp (ceiling_for mode mtu) mode True)],
     mx_outstanding := [(1, \<lparr>os_raw_cid = 0x40, os_request = ConnectionRequest 1 p 0x40, os_remaining = rtx,
       os_retries = 0, os_on_expiry = Resend\<rparr>)]\<rparr>"
  unfolding dialled_def
  by (simp add: connect_with_def bindS_def alloc_cid_new alloc_id_def signal_event_simps
      put_channel_def awaiting_def mode_mtu_def Let_def) (simp add: mux_new_def)

text \<open>
  What the caller of a multiplexer that asks and hears nothing sees at each tick. \<open>t\<close> is the time
  left, \<open>n\<close> the number of times the request may still be sent.
\<close>

datatype said = Quiet | Asked_again | Gave_up

fun silence :: "duration \<Rightarrow> nat \<Rightarrow> duration list \<Rightarrow> said list" where
  "silence t n [] = []"
| "silence t n (d # ds) =
     (if d < t then Quiet # silence (t - d) n ds
      else if 0 < n then Asked_again # silence rtx (n - 1) ds
      else Gave_up # map (\<lambda>_. Quiet) ds)"

fun said_events :: "u8 \<Rightarrow> u8 \<Rightarrow> psm \<Rightarrow> cid \<Rightarrow> said \<Rightarrow> l2cap_event list" where
  "said_events i j p c Quiet = []"
| "said_events i j p c Asked_again = [pdu_event cid_signaling ([0x02, i, 4, 0] @ le16 p @ le16 c)]"
| "said_events i j p c Gave_up =
     [pdu_event cid_signaling ([0x06, j, 4, 0] @ le16 cid_null @ le16 c), ChannelClosed c p]"

fun mux_ticks :: "duration list \<Rightarrow> mux \<Rightarrow> l2cap_event list list \<times> mux" where
  "mux_ticks [] mx = ([], mx)"
| "mux_ticks (d # ds) mx =
     (let (evs, mx) = mux_tick d mx; (rest, mx) = mux_ticks ds mx in (evs # rest, mx))"

text \<open>Engines without a timer do nothing as time passes.\<close>

definition engines_idle :: "mux \<Rightarrow> bool" where
  "engines_idle mx \<longleftrightarrow> (\<forall>(_, e) \<in> set (mx_ertm mx). Ertm_Engine.next_timeout e = None)"

lemma idle_tick: "Ertm_Engine.next_timeout e = None \<Longrightarrow> tick d e = (e, out_default)"
  by (simp add: tick_def next_timeout_def split: option.splits)

lemma idle_engines_tick: "\<forall>(_, e) \<in> set t. Ertm_Engine.next_timeout e = None \<Longrightarrow> tick_engines d chs t = ([], [], t)"
  by (induction t) (auto simp: idle_tick out_default_def split: option.split)

lemma foldr_opt_min: "foldr opt_min ts None = None \<longleftrightarrow> (\<forall>t \<in> set ts. t = None)"
proof (induction ts)
  case (Cons t ts)
  then show ?case by (cases t; cases "foldr opt_min ts None") auto
qed simp

lemma no_timers: "mux_next_timeout mx = None \<longleftrightarrow> engines_idle mx \<and> mx_outstanding mx = []"
  unfolding mux_next_timeout_def foldr_opt_min engines_idle_def
  by (cases "mx_outstanding mx") (auto simp: case_prod_beta)

lemma no_timers_tick: "mux_next_timeout mx = None \<Longrightarrow> mux_tick d mx = ([], mx)"
proof -
  assume "mux_next_timeout mx = None"
  then have "engines_idle mx" "mx_outstanding mx = []" by (simp_all add: no_timers)
  then show ?thesis
    using idle_engines_tick [of "mx_ertm mx" d "mx_channels mx"]
    by (simp add: mux_tick_def age_outstanding_def expired_ids_def engines_idle_def)
qed

lemma no_timers_ticks: "mux_next_timeout mx = None \<Longrightarrow> mux_ticks ds mx = (map (\<lambda>_. []) ds, mx)"
  by (induction ds) (simp_all add: no_timers_tick)

text \<open>A multiplexer whose only timer is that of the connection request for channel \<open>c\<close>.\<close>

definition asking :: "u8 \<Rightarrow> psm \<Rightarrow> cid \<Rightarrow> channel \<Rightarrow> duration \<Rightarrow> u8 \<Rightarrow> mux \<Rightarrow> bool" where
  "asking i p c ch t n mx \<longleftrightarrow> engines_idle mx
     \<and> mx_outstanding mx = [(i, \<lparr>os_raw_cid = c, os_request = ConnectionRequest i p c, os_remaining = t,
         os_retries = n, os_on_expiry = Resend\<rparr>)]
     \<and> tbl_get (mx_channels mx) c = Some ch \<and> ch_local_cid ch = c \<and> ch_remote_cid ch = cid_null \<and> ch_psm ch = p"

lemma asking_tick:
  fixes d :: duration
  assumes "asking i p c ch t n mx"
  defines "mx' \<equiv> snd (mux_tick d mx)"
  shows "d < t \<Longrightarrow> fst (mux_tick d mx) = [] \<and> asking i p c ch (t - d) n mx' \<and> mx_channels mx' = mx_channels mx
      \<and> mx_next_id mx' = mx_next_id mx"
    and "\<lbrakk>t \<le> d; n < rtx_retries\<rbrakk> \<Longrightarrow> fst (mux_tick d mx) = said_events i j p c Asked_again \<and> asking i p c ch rtx (n + 1) mx'
      \<and> mx_channels mx' = mx_channels mx \<and> mx_next_id mx' = mx_next_id mx"
    and "\<lbrakk>t \<le> d; \<not> n < rtx_retries\<rbrakk> \<Longrightarrow> fst (mux_tick d mx) = said_events i (mx_next_id mx) p c Gave_up
      \<and> mux_next_timeout mx' = None \<and> mx_channels mx' = tbl_del c (mx_channels mx)"
proof -
  have e: "\<forall>(_, e) \<in> set (mx_ertm mx). Ertm_Engine.next_timeout e = None"
    and o: "mx_outstanding mx = [(i, \<lparr>os_raw_cid = c, os_request = ConnectionRequest i p c, os_remaining = t,
         os_retries = n, os_on_expiry = Resend\<rparr>)]"
    and c: "tbl_get (mx_channels mx) c = Some ch" "ch_local_cid ch = c" "ch_remote_cid ch = cid_null" "ch_psm ch = p"
    using assms by (simp_all add: asking_def engines_idle_def)
  note eng = idle_engines_tick [OF e]
  show "d < t \<Longrightarrow> fst (mux_tick d mx) = [] \<and> asking i p c ch (t - d) n mx' \<and> mx_channels mx' = mx_channels mx
      \<and> mx_next_id mx' = mx_next_id mx"
    using e c by (simp add: mx'_def mux_tick_def age_outstanding_def expired_ids_def o eng asking_def engines_idle_def)
  show "\<lbrakk>t \<le> d; n < rtx_retries\<rbrakk> \<Longrightarrow> fst (mux_tick d mx) = said_events i j p c Asked_again \<and> asking i p c ch rtx (n + 1) mx'
      \<and> mx_channels mx' = mx_channels mx \<and> mx_next_id mx' = mx_next_id mx"
    using e c by (simp add: mx'_def mux_tick_def age_outstanding_def expired_ids_def o eng asking_def engines_idle_def
        expire_def signal_event_simps)
  assume a: "t \<le> d" "\<not> n < rtx_retries"
  have "\<forall>(_, e) \<in> set (tbl_del c (mx_ertm mx)). Ertm_Engine.next_timeout e = None"
    using e by (auto simp: AList.delete_eq)
  then show "fst (mux_tick d mx) = said_events i (mx_next_id mx) p c Gave_up
      \<and> mux_next_timeout mx' = None \<and> mx_channels mx' = tbl_del c (mx_channels mx)"
    using c a by (simp add: mx'_def mux_tick_def age_outstanding_def expired_ids_def o eng no_timers engines_idle_def
        expire_def signal_event_simps fail_channel_def alloc_id_def drop_pending_def drop_channel_def drop_ertm_def
        retire_timers_def Let_def)
qed

lemma asking_ticks:
  "\<lbrakk>asking i p c ch t n mx; n \<le> rtx_retries\<rbrakk> \<Longrightarrow>
     fst (mux_ticks ds mx) = map (said_events i (mx_next_id mx) p c) (silence t (unat (rtx_retries - n)) ds)
     \<and> mx_channels (snd (mux_ticks ds mx)) =
         (if Gave_up \<in> set (silence t (unat (rtx_retries - n)) ds) then tbl_del c (mx_channels mx) else mx_channels mx)"
proof (induction ds arbitrary: t n mx)
  case (Cons d ds)
  let ?mx = "snd (mux_tick d mx)" and ?k = "unat (rtx_retries - n)"
  consider "d < t" | "t \<le> d" "n < rtx_retries" | "t \<le> d" "\<not> n < rtx_retries" by force
  then show ?case
  proof cases
    case 1
    note s = asking_tick(1) [OF Cons.prems(1) 1]
    then show ?thesis using Cons.IH [of "t - d" n ?mx] Cons.prems(2) 1 by (simp add: case_prod_beta Let_def)
  next
    case 2
    note s = asking_tick(2) [OF Cons.prems(1) 2]
    have k: "0 < ?k" "unat (rtx_retries - (n + 1)) = ?k - 1" "n + 1 \<le> rtx_retries"
      using 2 unfolding rtx_retries_def by unat_arith+
    then show ?thesis using Cons.IH [of rtx "n + 1" ?mx] s [of undefined] 2(1) by (simp add: case_prod_beta Let_def)
  next
    case 3
    note s = asking_tick(3) [OF Cons.prems(1) 3]
    have "?k = 0" using 3 Cons.prems(2) by simp
    moreover have "Gave_up \<in> set (silence t 0 (d # ds))" using 3 by simp
    ultimately show ?thesis using s no_timers_ticks [of ?mx ds] 3(1) by (simp add: case_prod_beta Let_def comp_def)
  qed
qed simp

text \<open>
  C9. In any state of the multiplexer in which no other timer runs, for every service and mode: a
  connection request that meets silence is sent again when a response timeout has passed since it was last sent, twice at
  most; one response timeout after the second resend the peer is told with a disconnection request, the caller hears
  that the channel closed, and only that channel is gone; and nothing else is emitted.
  Time may pass in steps of any length. A step past the deadline starts the next timeout afresh, and no
  answer arrives meanwhile.
\<close>

theorem connect_to_silence:
  assumes "mux_next_timeout mx = None" and "connect_with p mode mx = (Inr (c, evs), mx')"
  shows "evs = said_events (mx_next_id mx) (mx_next_id mx') p c Asked_again
    \<and> fst (mux_ticks ds mx') = map (said_events (mx_next_id mx) (mx_next_id mx') p c) (silence rtx 2 ds)
    \<and> mx_channels (snd (mux_ticks ds mx')) =
        (if Gave_up \<in> set (silence rtx 2 ds) then tbl_del c (mx_channels mx') else mx_channels mx')"
proof -
  obtain k where a: "alloc_cid mx = (Inr c, mx\<lparr>mx_next_cid := (next_cid ^^ k) (mx_next_cid mx)\<rparr>)"
  proof -
    obtain r m where r: "alloc_cid mx = (r, m)" by (cases "alloc_cid mx")
    obtain k where "m = mx\<lparr>mx_next_cid := (next_cid ^^ k) (mx_next_cid mx)\<rparr>"
      using alloc_cid_loop_state r unfolding alloc_cid_def by blast
    moreover have "r = Inr c"
      using assms(2) r by (auto simp: connect_with_def bindS_def signal_event_simps Let_def split: sum.splits prod.splits)
    ultimately show ?thesis using r that by blast
  qed
  let ?ch = "new_channel c cid_null p WaitConnectRsp (mode_mtu mx mode) mode True"
  have q: "engines_idle mx" "mx_outstanding mx = []" using assms(1) by (simp_all add: no_timers)
  have m: "mode_mtu (m\<lparr>mx_next_cid := x, mx_next_id := y\<rparr>) mode = mode_mtu m mode" for m :: mux and x y
    by (simp add: mode_mtu_def)
  have "asking (mx_next_id mx) p c ?ch rtx 0 mx' \<and> evs = said_events (mx_next_id mx) (mx_next_id mx') p c Asked_again"
    using assms(2) q
    by (auto simp: connect_with_def bindS_def a alloc_id_def signal_event_simps put_channel_def awaiting_def m Let_def
        asking_def engines_idle_def new_channel_def table_simps)
  then show ?thesis using asking_ticks [of "mx_next_id mx" p c ?ch rtx 0 mx' ds] by (simp add: rtx_retries_def)
qed

theorem connect_to_silence_witness:
  "fst (mux_ticks (map from_secs [3, 1, 5, 4, 1]) (dialled 672 0x19 Basic)) =
     [[], [pdu_event cid_signaling [0x02, 1, 4, 0, 0x19, 0, 0x40, 0]],
      [pdu_event cid_signaling [0x02, 1, 4, 0, 0x19, 0, 0x40, 0]],
      [pdu_event cid_signaling [0x06, 2, 4, 0, 0, 0, 0x40, 0], ChannelClosed 0x40 0x19], []]"
proof -
  have t: "mux_next_timeout (mux_new 672) = None" by (simp add: mux_next_timeout_def mux_new_def)
  have "\<exists>evs. connect_with 0x19 Basic (mux_new 672) = (Inr (0x40, evs), dialled 672 0x19 Basic)"
    unfolding dialled_def
    by (simp add: connect_with_def bindS_def alloc_cid_new alloc_id_def signal_event_simps Let_def)
  then obtain evs where c: "connect_with 0x19 Basic (mux_new 672) = (Inr (0x40, evs), dialled 672 0x19 Basic)" ..
  have i: "mx_next_id (mux_new 672) = 1" "mx_next_id (dialled 672 0x19 Basic) = 2" by (simp add: mux_new_def, simp add: dialled_eq)
  show ?thesis
    using connect_to_silence [OF t c, of "map from_secs [3, 1, 5, 4, 1]"]
    by (simp add: i rtx_def from_secs_def le16_def cid_null_def)
qed

theorem unanswered_request_fails_channel_witness:
  "tbl_get (mx_channels (mux_step (Elapse rtx)
     (fold mux_step [Connect 0x19 Basic, Elapse rtx, Elapse rtx] (mux_new 672)))) 0x40 = None"
proof -
  define mx where "mx = fold mux_step [Connect 0x19 Basic, Elapse rtx, Elapse rtx] (mux_new 672)"
  have "mx = snd (mux_tick rtx (snd (mux_tick rtx (dialled 672 0x19 Basic))))"
    by (simp add: mx_def dialled_def)
  then have "tbl_get (mx_outstanding mx) 1 = Some \<lparr>os_raw_cid = 0x40,
      os_request = ConnectionRequest 1 0x19 0x40, os_remaining = rtx, os_retries = 2, os_on_expiry = Resend\<rparr>"
    by (simp add: mux_tick_def dialled_eq mux_new_def age_outstanding_def expired_ids_def expire_def
      rtx_retries_def rtx_def from_secs_def signal_event_simps Let_def)
  then have "tbl_get (mx_channels (mux_step (Elapse rtx) mx)) (os_raw_cid \<lparr>os_raw_cid = 0x40,
      os_request = ConnectionRequest 1 0x19 0x40, os_remaining = rtx, os_retries = 2, os_on_expiry = Resend\<rparr>) = None"
    unfolding mx_def by (rule unanswered_request_fails_channel) (simp_all add: rtx_retries_def)
  then show ?thesis by (simp add: mx_def)
qed

section \<open>What the code does with answers it did not expect\<close>

text \<open>
  A connection response of \<open>Pending\<close> leaves the channel with no timer at all: the
  response retires the request's timer like any answer, nothing puts a longer one back (the
  configuration path does), and a peer that then falls silent holds the channel in
  \<open>WaitConnectRsp\<close> for ever.
\<close>

theorem pending_connection_untimed:
  "let mx = snd (handle_signal (ConnectionResponse 1 d 0x40 ConnPending st) (dialled mtu p mode)) in
     mux_next_timeout mx = None \<and> map_option ch_state (tbl_get (mx_channels mx) 0x40) = Some WaitConnectRsp"
  by (simp add: Let_def handle_signal_def on_connection_response_def dialled_eq mux_next_timeout_def
      mux_new_def new_channel_def)

text \<open>
  An unasked-for counter-proposal changes the mode of an open channel: with no
  configuration outstanding the identifier of a response is not checked, so an \<open>Unacceptable\<close>
  response naming retransmission mode turns an open basic channel into that mode, with no engine.
\<close>

theorem stray_counter_flips_open_channel:
  assumes "tbl_get (mx_channels mx) c = Some ch" "ch_state ch = Open" "ch_mode ch = Basic"
    and "ch_config_id ch = None" "ch_config_attempts ch < max_config_attempts"
  shows "\<exists>ch'. tbl_get (mx_channels (snd (handle_signal
      (ConfigurationResponse i c 0 Unacceptable [Retransmission (rc_ertm 672)]) mx))) c = Some ch'
    \<and> ch_state ch' = Open \<and> ch_mode ch' = EnhancedRetransmission"
proof -
  let ?sig = "ConfigurationResponse i c 0 Unacceptable [Retransmission (rc_ertm 672)]"
  define ch1 where "ch1 = apply_counter (mx_local_mtu mx) [Retransmission (rc_ertm 672)] ch"
  have ch1: "ch_state ch1 = Open" "ch_mode ch1 = EnhancedRetransmission" "ch_config_attempts ch1 = ch_config_attempts ch"
    using assms(2) by (simp_all add: ch1_def apply_counter_def rc_ertm_def adoptable_def)
  define mx1 where "mx1 = put_channel c ch1 (mx\<lparr>mx_outstanding := tbl_del i (mx_outstanding mx)\<rparr>)"
  have s: "snd (handle_signal ?sig mx) = snd (request_configuration c mx1)"
    using assms(1,4,5)
    by (simp add: handle_signal_def Let_def on_config_response_def snd_bindS_returnS ch1_def [symmetric]
        mx1_def ch1 not_le)
  have c1: "tbl_get (mx_channels mx1) c = Some ch1" by (simp add: mx1_def table_simps)
  show ?thesis unfolding s
    using c1 ch1 mux_update_fields(5) [of mx1]
    by (cases "alloc_id mx1") (auto simp: request_configuration_def Let_def table_simps split: sum.split)
qed

theorem stray_counter_flips_open_channel_witness:
  "\<exists>ch'. tbl_get (mx_channels (snd (handle_signal
      (ConfigurationResponse 9 0x40 0 Unacceptable [Retransmission (rc_ertm 672)])
      (put_channel 0x40 (new_channel 0x40 0x50 0x19 Open 672 Basic False) (mux_new 672))))) 0x40 = Some ch'
    \<and> ch_state ch' = Open \<and> ch_mode ch' = EnhancedRetransmission"
  by (rule stray_counter_flips_open_channel [of _ _ "new_channel 0x40 0x50 0x19 Open 672 Basic False"])
    (simp_all add: table_simps new_channel_def max_config_attempts_def)

lemma stray_refusal_leaves_engine:
  assumes "tbl_get (mx_channels mx) c = Some ch" "tbl_get (mx_pending mx) i = None"
    and "tbl_get (mx_ertm mx) c = Some e"
  shows "let mx' = snd (handle_signal (ConnectionResponse i d c NoResources st) mx) in
    tbl_get (mx_channels mx') c = None \<and> tbl_get (mx_ertm mx') c = Some e"
  using assms
  by (simp add: handle_signal_def Let_def on_connection_response_def drop_pending_def drop_channel_def table_simps)

end
