(* ===== verification/Hci_Packet.thy ===== *)
theory Hci_Packet
  imports Prelude
begin

text \<open>
  \<^verbatim>\<open>crates/substrate-hci/src/packet.rs\<close> with the error type, the statuses and the device
  addresses it uses: the four HCI packets, their framing, and \<open>StreamDeframer\<close>, which finds them
  in a byte stream. Opcodes, statuses and handles are their raw numbers.
\<close>

section \<open>Errors, statuses, addresses\<close>

type_synonym status = u8
type_synonym opcode = u16

datatype hci_error =
    HciTruncated string nat nat
  | UnknownPacketType u8
  | UnhandledEvent u8
  | InvalidField string u16
  | CommandFailed status
  | HciTooLong string nat nat
  | Transport string

definition status_is_success :: "status \<Rightarrow> bool" where
  "status_is_success s \<longleftrightarrow> s = 0"

text \<open>A device address, most significant octet first.\<close>

type_synonym bd_addr = bytes

definition addr_from_wire :: "bytes \<Rightarrow> bd_addr" where
  "addr_from_wire wire = rev wire"

definition addr_to_wire :: "bd_addr \<Rightarrow> bytes" where
  "addr_to_wire a = rev a"

section \<open>Packet types\<close>

datatype packet_type = CommandType | AclDataType | ScoDataType | EventType

fun indicator :: "packet_type \<Rightarrow> u8" where
  "indicator CommandType = 0x01"
| "indicator AclDataType = 0x02"
| "indicator ScoDataType = 0x03"
| "indicator EventType = 0x04"

definition from_indicator :: "u8 \<Rightarrow> hci_error + packet_type" where
  "from_indicator b =
     (if b = 0x01 then Inr CommandType else if b = 0x02 then Inr AclDataType
      else if b = 0x03 then Inr ScoDataType else if b = 0x04 then Inr EventType
      else Inl (UnknownPacketType b))"

type_synonym handle = u16

definition handle_max :: u16 where "handle_max = 0x0EFF"

definition handle_new :: "u16 \<Rightarrow> hci_error + handle" where
  "handle_new raw =
     (if handle_max < raw then Inl (InvalidField ''connection handle'' raw) else Inr raw)"

datatype packet_boundary = FirstNonFlushable | Continuing | FirstFlushable | Complete

fun boundary_bits :: "packet_boundary \<Rightarrow> u16" where
  "boundary_bits FirstNonFlushable = 0"
| "boundary_bits Continuing = 1"
| "boundary_bits FirstFlushable = 2"
| "boundary_bits Complete = 3"

definition boundary_from_bits :: "u16 \<Rightarrow> packet_boundary" where
  "boundary_from_bits bits =
     (let b = bits AND 3 in
      if b = 0 then FirstNonFlushable else if b = 1 then Continuing
      else if b = 2 then FirstFlushable else Complete)"

definition starts_pdu :: "packet_boundary \<Rightarrow> bool" where
  "starts_pdu b \<longleftrightarrow> b = FirstNonFlushable \<or> b = FirstFlushable \<or> b = Complete"

datatype broadcast = PointToPoint | ActivePeripheral | ParkedPeripheral

fun broadcast_bits :: "broadcast \<Rightarrow> u16" where
  "broadcast_bits PointToPoint = 0"
| "broadcast_bits ActivePeripheral = 1"
| "broadcast_bits ParkedPeripheral = 2"

definition broadcast_from_bits :: "u16 \<Rightarrow> broadcast" where
  "broadcast_from_bits bits =
     (let b = bits AND 3 in
      if b = 1 then ActivePeripheral else if b = 2 then ParkedPeripheral else PointToPoint)"

record acl_packet =
  acl_handle :: handle
  acl_boundary :: packet_boundary
  acl_broadcast :: broadcast
  acl_data :: bytes

definition acl_max_data :: nat where "acl_max_data = 65535"

definition acl_new :: "handle \<Rightarrow> packet_boundary \<Rightarrow> bytes \<Rightarrow> acl_packet" where
  "acl_new h b data = \<lparr>acl_handle = h, acl_boundary = b, acl_broadcast = PointToPoint, acl_data = data\<rparr>"

datatype hci_packet =
    CommandPacket opcode bytes
  | EventPacket u8 bytes
  | AclPacket acl_packet
  | ScoPacket handle bytes

fun packet_type_of :: "hci_packet \<Rightarrow> packet_type" where
  "packet_type_of (CommandPacket _ _) = CommandType"
| "packet_type_of (EventPacket _ _) = EventType"
| "packet_type_of (AclPacket _) = AclDataType"
| "packet_type_of (ScoPacket _ _) = ScoDataType"

section \<open>Encoding and decoding\<close>

definition acl_header :: "acl_packet \<Rightarrow> u16" where
  "acl_header a = acl_handle a OR push_bit 12 (boundary_bits (acl_boundary a))
     OR push_bit 14 (broadcast_bits (acl_broadcast a))"

definition hci_encode :: "hci_packet \<Rightarrow> hci_error + bytes" where
  "hci_encode p =
     (let tag = indicator (packet_type_of p) in
      case p of
        CommandPacket op params \<Rightarrow>
          if 255 < length params then Inl (HciTooLong ''command parameters'' (length params) 255)
          else Inr (tag # le16 op @ u8_or_max (length params) # params)
      | EventPacket code params \<Rightarrow>
          if 255 < length params then Inl (HciTooLong ''event parameters'' (length params) 255)
          else Inr (tag # code # u8_or_max (length params) # params)
      | AclPacket a \<Rightarrow>
          if acl_max_data < length (acl_data a)
          then Inl (HciTooLong ''acl payload'' (length (acl_data a)) acl_max_data)
          else Inr (tag # le16 (acl_header a) @ le16 (u16_or_max (length (acl_data a))) @ acl_data a)
      | ScoPacket h data \<Rightarrow>
          if 255 < length data then Inl (HciTooLong ''sco payload'' (length data) 255)
          else Inr (tag # le16 h @ u8_or_max (length data) # data))"

definition hci_split :: "bytes \<Rightarrow> nat \<Rightarrow> string \<Rightarrow> hci_error + bytes \<times> bytes" where
  "hci_split buf n what =
     (if length buf < n then Inl (HciTruncated what n (length buf)) else Inr (take n buf, drop n buf))"

definition exact :: "bytes \<Rightarrow> nat \<Rightarrow> string \<Rightarrow> hci_error + bytes" where
  "exact buf len what =
     (if length buf < len then Inl (HciTruncated what len (length buf)) else Inr (take len buf))"

fun decode_body :: "packet_type \<Rightarrow> bytes \<Rightarrow> hci_error + hci_packet" where
  "decode_body CommandType body =
     bindE (hci_split body 3 ''command header'') (\<lambda>(head, params).
     bindE (exact params (unat (head ! 2)) ''command parameters'') (\<lambda>params.
       Inr (CommandPacket (u16_at head 0) params)))"
| "decode_body EventType body =
     bindE (hci_split body 2 ''event header'') (\<lambda>(head, params).
     bindE (exact params (unat (head ! 1)) ''event parameters'') (\<lambda>params.
       Inr (EventPacket (head ! 0) params)))"
| "decode_body AclDataType body =
     bindE (hci_split body 4 ''acl header'') (\<lambda>(head, data).
       let raw = u16_at head 0 in
       bindE (handle_new (raw AND 0x0FFF)) (\<lambda>h.
       bindE (exact data (unat (u16_at head 2)) ''acl payload'') (\<lambda>data.
         Inr (AclPacket \<lparr>acl_handle = h, acl_boundary = boundary_from_bits (drop_bit 12 raw),
           acl_broadcast = broadcast_from_bits (drop_bit 14 raw), acl_data = data\<rparr>))))"
| "decode_body ScoDataType body =
     bindE (hci_split body 3 ''sco header'') (\<lambda>(head, data).
       let raw = u16_at head 0 in
       bindE (handle_new (raw AND 0x0FFF)) (\<lambda>h.
       bindE (exact data (unat (head ! 2)) ''sco payload'') (\<lambda>data.
         Inr (ScoPacket h data))))"

definition hci_decode :: "bytes \<Rightarrow> hci_error + hci_packet" where
  "hci_decode bs =
     (case bs of
        [] \<Rightarrow> Inl (HciTruncated ''hci packet'' 1 0)
      | tag # rest \<Rightarrow> bindE (from_indicator tag) (\<lambda>kind. decode_body kind rest))"

section \<open>The stream deframer\<close>

text \<open>Its state is the buffer. \<open>extend\<close> appends to it.\<close>

definition deframer_extend :: "bytes \<Rightarrow> bytes \<Rightarrow> bytes" where
  "deframer_extend bs buf = buf @ bs"

fun header_len :: "packet_type \<Rightarrow> nat" where
  "header_len EventType = 2"
| "header_len CommandType = 3"
| "header_len ScoDataType = 3"
| "header_len AclDataType = 4"

fun payload_len :: "packet_type \<Rightarrow> bytes \<Rightarrow> nat" where
  "payload_len CommandType head = unat (head ! 2)"
| "payload_len ScoDataType head = unat (head ! 2)"
| "payload_len EventType head = unat (head ! 1)"
| "payload_len AclDataType head = unat (u16_at head 2)"

definition next_packet :: "(bytes, hci_error, hci_packet option) meth" where
  "next_packet buf =
     (case buf of
        [] \<Rightarrow> (Inr None, buf)
      | tag # rest \<Rightarrow>
          (case from_indicator tag of
             Inl e \<Rightarrow> (Inl e, buf)
           | Inr kind \<Rightarrow>
               let header = header_len kind in
               if length rest < header then (Inr None, buf)
               else
                 let frame_len = 1 + header + payload_len kind (take header rest) in
                 if length buf < frame_len then (Inr None, buf)
                 else (bindE (hci_decode (take frame_len buf)) (\<lambda>p. Inr (Some p)),
                       drop frame_len buf)))"

text \<open>The loop of a caller: every packet the buffer completes, then the rest of the buffer.\<close>

function deframe :: "bytes \<Rightarrow> (hci_error + hci_packet list) \<times> bytes" where
  "deframe buf =
     (case next_packet buf of
        (Inl e, rest) \<Rightarrow> (Inl e, rest)
      | (Inr None, rest) \<Rightarrow> (Inr [], rest)
      | (Inr (Some p), rest) \<Rightarrow>
          (case deframe rest of
             (Inl e, rest) \<Rightarrow> (Inl e, rest)
           | (Inr ps, rest) \<Rightarrow> (Inr (p # ps), rest)))"
  by pat_completeness auto
termination
  by (relation "measure length")
    (auto simp: next_packet_def Let_def split: list.splits sum.splits if_splits)

declare deframe.simps [simp del]

fun deframe_chunks :: "bytes list \<Rightarrow> bytes \<Rightarrow> (hci_error + hci_packet list) \<times> bytes" where
  "deframe_chunks [] buf = (Inr [], buf)"
| "deframe_chunks (c # cs) buf =
     (case deframe (deframer_extend c buf) of
        (Inl e, rest) \<Rightarrow> (Inl e, rest)
      | (Inr ps, rest) \<Rightarrow>
          (case deframe_chunks cs rest of
             (Inl e, rest) \<Rightarrow> (Inl e, rest)
           | (Inr qs, rest) \<Rightarrow> (Inr (ps @ qs), rest)))"

section \<open>The ACL header\<close>

lemma boundary_small: "take_bit 2 (boundary_bits b) = boundary_bits b"
  by (cases b) simp_all

lemma broadcast_small: "take_bit 2 (broadcast_bits b) = broadcast_bits b"
  by (cases b) simp_all

lemma small_bits: "take_bit 2 w = w \<Longrightarrow> bit (w :: u16) n \<Longrightarrow> n < 2"
  by (metis bit_take_bit_iff)

lemma handle_bits: "h \<le> handle_max \<Longrightarrow> bit h n \<Longrightarrow> n < 12"
  by (rule bit_below [of h]) (simp_all add: handle_max_def word_le_nat_alt)

lemma acl_header_fields:
  assumes "acl_handle a \<le> handle_max"
  shows "acl_header a AND 0x0FFF = acl_handle a"
    "drop_bit 12 (acl_header a) AND 3 = boundary_bits (acl_boundary a)"
    "drop_bit 14 (acl_header a) AND 3 = broadcast_bits (acl_broadcast a)"
proof -
  have m: "(0x0FFF :: u16) = mask 12" "(3 :: u16) = mask 2" by (simp_all add: mask_eq_exp_minus_1)
  note [dest] = handle_bits [OF assms] small_bits [OF boundary_small] small_bits [OF broadcast_small]
  show "acl_header a AND 0x0FFF = acl_handle a"
    by (rule bit_word_eqI) (auto simp: acl_header_def m bit_simps)
  show "drop_bit 12 (acl_header a) AND 3 = boundary_bits (acl_boundary a)"
    by (rule bit_word_eqI) (auto simp: acl_header_def m bit_simps)
  show "drop_bit 14 (acl_header a) AND 3 = broadcast_bits (acl_broadcast a)"
    by (rule bit_word_eqI) (auto simp: acl_header_def m bit_simps)
qed

lemma boundary_from_bits_bits: "w AND 3 = boundary_bits b \<Longrightarrow> boundary_from_bits w = b"
  by (cases b) (simp_all add: boundary_from_bits_def)

lemma broadcast_from_bits_bits: "w AND 3 = broadcast_bits b \<Longrightarrow> broadcast_from_bits w = b"
  by (cases b) (simp_all add: broadcast_from_bits_def)

section \<open>Round trips\<close>

fun packet_ok :: "hci_packet \<Rightarrow> bool" where
  "packet_ok (AclPacket a) \<longleftrightarrow> acl_handle a \<le> handle_max"
| "packet_ok (ScoPacket h _) \<longleftrightarrow> h \<le> handle_max"
| "packet_ok _ \<longleftrightarrow> True"

lemma handle_masked: "h \<le> handle_max \<Longrightarrow> h AND 0x0FFF = h"
  using acl_header_fields(1) [of "\<lparr>acl_handle = h, acl_boundary = FirstNonFlushable, acl_broadcast = PointToPoint, acl_data = []\<rparr>"]
  by (simp add: acl_header_def)

lemma from_indicator_indicator [simp]: "from_indicator (indicator k) = Inr k"
  by (cases k) (simp_all add: from_indicator_def)

text \<open>An encoding is the tag, a header that says how long the payload is, and the payload.\<close>

definition hci_header :: "hci_packet \<Rightarrow> bytes" where
  "hci_header p =
     (case p of
        CommandPacket op params \<Rightarrow> le16 op @ [u8_or_max (length params)]
      | EventPacket code params \<Rightarrow> [code, u8_or_max (length params)]
      | AclPacket a \<Rightarrow> le16 (acl_header a) @ le16 (u16_or_max (length (acl_data a)))
      | ScoPacket h data \<Rightarrow> le16 h @ [u8_or_max (length data)])"

fun hci_payload :: "hci_packet \<Rightarrow> bytes" where
  "hci_payload (CommandPacket _ params) = params"
| "hci_payload (EventPacket _ params) = params"
| "hci_payload (AclPacket a) = acl_data a"
| "hci_payload (ScoPacket _ data) = data"

definition hci_bytes :: "hci_packet \<Rightarrow> bytes" where
  "hci_bytes p = indicator (packet_type_of p) # hci_header p @ hci_payload p"

fun payload_max :: "packet_type \<Rightarrow> nat" where
  "payload_max AclDataType = 65535"
| "payload_max _ = 255"

lemma hci_encode_eq:
  "hci_encode p = Inr bs \<longleftrightarrow> length (hci_payload p) \<le> payload_max (packet_type_of p) \<and> bs = hci_bytes p"
  by (cases p) (auto simp: hci_encode_def hci_bytes_def hci_header_def acl_max_data_def)

lemma length_hci_header [simp]: "length (hci_header p) = header_len (packet_type_of p)"
  by (cases p) (simp_all add: hci_header_def)

lemma payload_len_header:
  "length (hci_payload p) \<le> payload_max (packet_type_of p) \<Longrightarrow>
     payload_len (packet_type_of p) (hci_header p) = length (hci_payload p)"
  by (cases p) (simp_all add: hci_header_def le16_def u8_or_max_def u16_or_max_def u16_try_from_def u16_at_def)

lemma decode_body_bytes:
  assumes "packet_ok p" "length (hci_payload p) \<le> payload_max (packet_type_of p)"
  shows "decode_body (packet_type_of p) (hci_header p @ hci_payload p @ rest) = Inr p"
proof -
  let ?k = "header_len (packet_type_of p)"
  have h: "take ?k (hci_header p @ xs) = hci_header p" "drop ?k (hci_header p @ xs) = xs" for xs
    by simp_all
  have s: "hci_split (hci_header p @ hci_payload p @ rest) ?k what = Inr (hci_header p, hci_payload p @ rest)" for what
    by (simp add: hci_split_def h)
  have e: "exact (hci_payload p @ rest) (payload_len (packet_type_of p) (hci_header p)) what = Inr (hci_payload p)" for what
    using assms(2) by (simp add: exact_def payload_len_header)
  show ?thesis
  proof (cases p)
    case (CommandPacket op params)
    with s e show ?thesis by (simp add: hci_header_def u16_at_le16)
  next
    case (EventPacket code params)
    with s e show ?thesis by (simp add: hci_header_def)
  next
    case (AclPacket a)
    then have "handle_new (acl_handle a) = Inr (acl_handle a)" using assms(1) by (simp add: handle_new_def)
    with AclPacket s e assms(1) show ?thesis
      by (simp add: hci_header_def u16_at_le16 acl_header_fields boundary_from_bits_bits broadcast_from_bits_bits)
  next
    case (ScoPacket h data)
    then have "handle_new h = Inr h" using assms(1) by (simp add: handle_new_def)
    with ScoPacket s e assms(1) show ?thesis
      by (simp add: hci_header_def u16_at_le16 handle_masked)
  qed
qed

lemma hci_decode_bytes:
  assumes "packet_ok p" "length (hci_payload p) \<le> payload_max (packet_type_of p)"
  shows "hci_decode (hci_bytes p @ rest) = Inr p"
  using decode_body_bytes [OF assms] by (simp add: hci_decode_def hci_bytes_def)

text \<open>
  Every packet the host builds (handles in range) decodes to itself from its encoding,
  whatever padding a transfer adds after it.
\<close>

theorem hci_roundtrip:
  assumes "packet_ok p" "hci_encode p = Inr bs"
  shows "hci_decode (bs @ padding) = Inr p"
  using assms hci_decode_bytes by (auto simp: hci_encode_eq)

section \<open>Any split of the stream\<close>

definition packet_fits :: "hci_packet \<Rightarrow> bool" where
  "packet_fits p \<longleftrightarrow> packet_ok p \<and> length (hci_payload p) \<le> payload_max (packet_type_of p)"

lemma next_packet_bytes:
  assumes "packet_fits p"
  shows "next_packet (hci_bytes p @ rest) = (Inr (Some p), rest)"
proof -
  have l: "length (hci_payload p) \<le> payload_max (packet_type_of p)" using assms by (simp add: packet_fits_def)
  have "take (header_len (packet_type_of p)) (hci_header p @ hci_payload p @ rest) = hci_header p" by simp
  moreover have "hci_decode (hci_bytes p) = Inr p"
    using hci_decode_bytes [of p "[]"] assms by (simp add: packet_fits_def)
  moreover have "length (hci_bytes p) = Suc (header_len (packet_type_of p) + length (hci_payload p))"
    by (simp add: hci_bytes_def)
  moreover have "hci_bytes p @ rest = indicator (packet_type_of p) # hci_header p @ hci_payload p @ rest"
    by (simp add: hci_bytes_def)
  ultimately show ?thesis using payload_len_header [OF l]
    by (simp add: next_packet_def Let_def hci_bytes_def)
qed

lemma deframe_Nil [simp]: "deframe [] = (Inr [], [])"
  by (subst deframe.simps) (simp add: next_packet_def)

interpretation deframer: stream_codec hci_bytes packet_fits "\<lambda>buf. fst (deframe buf)"
proof
  fix p rest assume "packet_fits p"
  then show "fst (deframe (hci_bytes p @ rest)) = bindE (fst (deframe rest)) (\<lambda>ps. Inr (p # ps))"
    by (subst deframe.simps) (auto simp: next_packet_bytes split: prod.splits sum.splits)
qed simp

lemma deframe_rest_bytes:
  "list_all packet_fits ps \<Longrightarrow> deframe (concat (map hci_bytes ps)) = (Inr ps, [])"
proof (induction ps)
  case (Cons p ps)
  then show ?case by (subst deframe.simps) (simp add: next_packet_bytes)
qed simp

text \<open>More bytes at the end change nothing that was already decided.\<close>

lemma next_packet_append:
  "next_packet a = (Inr (Some p), r) \<Longrightarrow> next_packet (a @ b) = (Inr (Some p), r @ b)"
  "next_packet a = (Inl e, r) \<Longrightarrow> fst (next_packet (a @ b)) = Inl e"
  by (cases a; force simp: next_packet_def Let_def split: sum.splits if_splits)+

lemma next_packet_none: "next_packet a = (Inr None, r) \<Longrightarrow> r = a"
  by (auto simp: next_packet_def Let_def bindE_eq_Inr split: list.splits sum.splits if_splits)

definition and_then :: "hci_packet list \<Rightarrow> (hci_error + hci_packet list) \<times> bytes \<Rightarrow> (hci_error + hci_packet list) \<times> bytes" where
  "and_then ps s = (case s of (Inl e, r) \<Rightarrow> (Inl e, r) | (Inr qs, r) \<Rightarrow> (Inr (ps @ qs), r))"

lemma and_then_simps [simp]:
  "and_then ps (Inl e, r) = (Inl e, r)" "and_then ps (Inr qs, r) = (Inr (ps @ qs), r)" "and_then [] s = s"
  by (auto simp: and_then_def split: prod.split sum.split)

lemma deframe_append:
  "(\<forall>e r. deframe a = (Inl e, r) \<longrightarrow> fst (deframe (a @ b)) = Inl e) \<and>
   (\<forall>ps r. deframe a = (Inr ps, r) \<longrightarrow> deframe (a @ b) = and_then ps (deframe (r @ b)))"
proof (induction a rule: deframe.induct)
  case (1 a)
  obtain res r where n: "next_packet a = (res, r)" by (cases "next_packet a")
  show ?case
  proof (cases res)
    case (Inl e)
    with n next_packet_append(2) [of a e r b] show ?thesis
      by (cases "next_packet (a @ b)") (simp add: deframe.simps [of a] deframe.simps [of "a @ b"])
  next
    case (Inr opt)
    show ?thesis
    proof (cases opt)
      case None
      with Inr n next_packet_none [of a r] show ?thesis by (simp add: deframe.simps [of a])
    next
      case (Some p)
      have n': "next_packet (a @ b) = (Inr (Some p), r @ b)"
        using next_packet_append(1) n Inr Some by simp
      have IH: "(\<forall>e r'. deframe r = (Inl e, r') \<longrightarrow> fst (deframe (r @ b)) = Inl e) \<and>
          (\<forall>ps r'. deframe r = (Inr ps, r') \<longrightarrow> deframe (r @ b) = and_then ps (deframe (r' @ b)))"
        by (rule 1) (simp_all add: n Inr Some)
      have a: "deframe a = and_then [p] (deframe r)" "deframe (a @ b) = and_then [p] (deframe (r @ b))"
        using n n' Inr Some
        by (simp_all add: deframe.simps [of a] deframe.simps [of "a @ b"] and_then_def split: prod.split sum.split)
      have assoc: "and_then [p] (and_then ps s) = and_then (p # ps) s" for ps s
        by (auto simp: and_then_def split: prod.split sum.split)
      show ?thesis unfolding a using IH
        by (cases "deframe r"; cases "fst (deframe r)")
          (auto simp: assoc and_then_def fst_def split: prod.splits sum.splits)
    qed
  qed
qed

lemma deframe_idem: "deframe a = (Inr ps, r) \<Longrightarrow> deframe r = (Inr [], r)"
proof (induction a arbitrary: ps r rule: deframe.induct)
  case (1 a)
  obtain res r' where n: "next_packet a = (res, r')" by (cases "next_packet a")
  show ?case
  proof (cases "res = Inr None")
    case True
    with n next_packet_none [of a r'] have "deframe a = (Inr [], a)" by (subst deframe.simps) auto
    with 1(2) show ?thesis by simp
  next
    case False
    with 1(2) n obtain p where p: "res = Inr (Some p)"
      by (cases res) (auto simp: deframe.simps [of a])
    with 1(2) n obtain qs where "deframe r' = (Inr qs, r)"
      by (auto simp: deframe.simps [of a] split: prod.splits sum.splits)
    with n p show ?thesis by (intro 1(1) [of _ r' "Some p" p]) simp_all
  qed
qed

lemma deframe_chunks_eq:
  "deframe buf = (Inr [], buf) \<Longrightarrow> fst (deframe_chunks cs buf) = fst (deframe (buf @ concat cs)) \<and>
     (\<forall>ps r. deframe (buf @ concat cs) = (Inr ps, r) \<longrightarrow> deframe_chunks cs buf = (Inr ps, r))"
proof (induction cs arbitrary: buf)
  case (Cons c cs)
  obtain res r where d: "deframe (buf @ c) = (res, r)" by (cases "deframe (buf @ c)")
  show ?case
  proof (cases res)
    case (Inl e)
    with d deframe_append [of "buf @ c" "concat cs"] show ?thesis
      by (auto simp: deframer_extend_def)
  next
    case (Inr ps)
    then have "deframe r = (Inr [], r)" using d deframe_idem by blast
    note IH = Cons.IH [OF this]
    have "deframe (buf @ c @ concat cs) = and_then ps (deframe (r @ concat cs))"
      using d Inr deframe_append [of "buf @ c" "concat cs"] by simp
    moreover have "deframe_chunks (c # cs) buf = and_then ps (deframe_chunks cs r)"
      using d Inr by (simp add: deframer_extend_def and_then_def)
    ultimately show ?thesis using IH
      by (cases "deframe (r @ concat cs)"; cases "deframe_chunks cs r"; cases "fst (deframe (r @ concat cs))")
        (auto simp: and_then_def split: sum.splits)
  qed
qed simp

text \<open>
  Packets come out of a byte stream whole and in order, however the stream was cut into
  reads: half a header, several packets at once, or one byte at a time, and nothing is left over.
\<close>

theorem deframe_any_split:
  assumes "list_all packet_fits ps" "concat chunks = concat (map hci_bytes ps)"
  shows "deframe_chunks chunks [] = (Inr ps, [])"
  using deframe_chunks_eq [of "[]" chunks] deframe_rest_bytes [OF assms(1)] assms(2) by simp

text \<open>
  On any stream at all, well formed or not, how it was cut into reads changes nothing:
  the deframer yields the packets, or the error, that it yields for the whole stream at once.
\<close>

theorem deframe_chunks_stream:
  "fst (deframe_chunks chunks []) = fst (deframe (concat chunks))"
  using deframe_chunks_eq [of "[]" chunks] by simp

theorem hci_roundtrip_witness:
  "hci_decode ([0x02, 0xFF, 0x2E, 2, 0, 0xDE, 0xAD] @ [0, 0, 0])
     = Inr (AclPacket (acl_new 0x0EFF FirstFlushable [0xDE, 0xAD]))"
  by (rule hci_roundtrip) (simp_all add: acl_new_def handle_max_def hci_encode_def acl_max_data_def
    acl_header_def le16_def u16_or_max_def u16_try_from_def)

theorem deframe_any_split_witness:
  "deframe_chunks [[0x01], [0x03, 0x0C, 0, 0x04, 0x0F], [1, 7]] []
     = (Inr [CommandPacket 0x0C03 [], EventPacket 0x0F [7]], [])"
  by (rule deframe_any_split)
    (simp_all add: packet_fits_def hci_bytes_def hci_header_def le16_def u8_or_max_def)

end
