(* ===== verification/Hci_Command.thy ===== *)
theory Hci_Command
  imports Hci_Packet
begin

text \<open>
  \<^verbatim>\<open>crates/substrate-hci/src/command.rs\<close> and the opcodes of
  \<^verbatim>\<open>crates/substrate-hci/src/opcode.rs\<close>: the commands of an A2DP sink, their opcodes and their
  parameters on the wire. A \<open>String\<close> is its UTF-8 bytes and a link key its sixteen bytes.
\<close>

section \<open>Opcodes\<close>

datatype ogf =
    LinkControl | LinkPolicy | ControllerBaseband | Informational | StatusGroup | Testing
  | LeController | VendorGroup | OtherGroup u8

fun ogf_bits :: "ogf \<Rightarrow> u16" where
  "ogf_bits LinkControl = 0x01"
| "ogf_bits LinkPolicy = 0x02"
| "ogf_bits ControllerBaseband = 0x03"
| "ogf_bits Informational = 0x04"
| "ogf_bits StatusGroup = 0x05"
| "ogf_bits Testing = 0x06"
| "ogf_bits LeController = 0x08"
| "ogf_bits VendorGroup = 0x3F"
| "ogf_bits (OtherGroup raw) = ucast raw"

definition ogf_from_bits :: "u8 \<Rightarrow> ogf" where
  "ogf_from_bits b =
     (if b = 0x01 then LinkControl else if b = 0x02 then LinkPolicy
      else if b = 0x03 then ControllerBaseband else if b = 0x04 then Informational
      else if b = 0x05 then StatusGroup else if b = 0x06 then Testing
      else if b = 0x08 then LeController else if b = 0x3F then VendorGroup else OtherGroup b)"

definition opcode_from_parts :: "ogf \<Rightarrow> u16 \<Rightarrow> opcode" where
  "opcode_from_parts g ocf = push_bit 10 (ogf_bits g) OR (ocf AND 0x03FF)"

definition opcode_ogf :: "opcode \<Rightarrow> ogf" where
  "opcode_ogf op = ogf_from_bits (ucast (drop_bit 10 op))"

definition opcode_ocf :: "opcode \<Rightarrow> u16" where
  "opcode_ocf op = op AND 0x03FF"

section \<open>Parameters\<close>

datatype scan_enable = NoScan | ConnectableOnly | DiscoverableAndConnectable

fun scan_bits :: "scan_enable \<Rightarrow> u8" where
  "scan_bits NoScan = 0x00"
| "scan_bits ConnectableOnly = 0x02"
| "scan_bits DiscoverableAndConnectable = 0x03"

definition class_of_device_new :: "u32 \<Rightarrow> u32" where
  "class_of_device_new raw = raw AND 0x00FFFFFF"

datatype io_capability = DisplayOnly | DisplayYesNo | KeyboardOnly | NoInputNoOutput

fun io_bits :: "io_capability \<Rightarrow> u8" where
  "io_bits DisplayOnly = 0x00"
| "io_bits DisplayYesNo = 0x01"
| "io_bits KeyboardOnly = 0x02"
| "io_bits NoInputNoOutput = 0x03"

datatype auth_requirements = NoBondingNoMitm | GeneralBondingNoMitm | GeneralBondingMitm

fun auth_bits :: "auth_requirements \<Rightarrow> u8" where
  "auth_bits NoBondingNoMitm = 0x00"
| "auth_bits GeneralBondingNoMitm = 0x04"
| "auth_bits GeneralBondingMitm = 0x05"

datatype accept_role = BecomeCentral | RemainPeripheral

fun role_bits :: "accept_role \<Rightarrow> u8" where
  "role_bits BecomeCentral = 0x00"
| "role_bits RemainPeripheral = 0x01"

section \<open>Commands\<close>

datatype command =
    Reset | ReadBufferSize | ReadBdAddr | ReadLocalVersion
  | SetEventMask u64
  | WriteLocalName bytes
  | WriteScanEnable scan_enable
  | WriteInquiryScanActivity u16 u16
  | WriteInquiryScanType bool
  | WritePageScanType bool
  | WriteClassOfDevice u32
  | WriteExtendedInquiryResponse bool bytes
  | WriteSimplePairingMode bool
  | WriteSecureConnectionsHostSupport bool
  | AcceptConnectionRequest bd_addr accept_role
  | RejectConnectionRequest bd_addr status
  | LinkKeyRequestReply bd_addr bytes
  | LinkKeyRequestNegativeReply bd_addr
  | PinCodeRequestNegativeReply bd_addr
  | IoCapabilityRequestReply bd_addr io_capability auth_requirements
  | UserConfirmationRequestReply bd_addr
  | UserConfirmationRequestNegativeReply bd_addr
  | RemoteNameRequest bd_addr
  | AuthenticationRequested handle
  | SetConnectionEncryption handle bool
  | DisconnectLink handle status
  | VendorCommand opcode bytes

definition local_name_len :: nat where "local_name_len = 248"
definition eir_len :: nat where "eir_len = 240"

fun command_opcode :: "command \<Rightarrow> opcode" where
  "command_opcode Reset = 0x0C03"
| "command_opcode ReadBufferSize = 0x1005"
| "command_opcode ReadBdAddr = 0x1009"
| "command_opcode ReadLocalVersion = 0x1001"
| "command_opcode (SetEventMask _) = 0x0C01"
| "command_opcode (WriteLocalName _) = 0x0C13"
| "command_opcode (WriteScanEnable _) = 0x0C1A"
| "command_opcode (WriteInquiryScanActivity _ _) = 0x0C1E"
| "command_opcode (WriteInquiryScanType _) = 0x0C43"
| "command_opcode (WritePageScanType _) = 0x0C47"
| "command_opcode (WriteClassOfDevice _) = 0x0C24"
| "command_opcode (WriteExtendedInquiryResponse _ _) = 0x0C52"
| "command_opcode (WriteSimplePairingMode _) = 0x0C56"
| "command_opcode (WriteSecureConnectionsHostSupport _) = 0x0C7A"
| "command_opcode (AcceptConnectionRequest _ _) = 0x0409"
| "command_opcode (RejectConnectionRequest _ _) = 0x040A"
| "command_opcode (LinkKeyRequestReply _ _) = 0x040B"
| "command_opcode (LinkKeyRequestNegativeReply _) = 0x040C"
| "command_opcode (PinCodeRequestNegativeReply _) = 0x040E"
| "command_opcode (IoCapabilityRequestReply _ _ _) = 0x042B"
| "command_opcode (UserConfirmationRequestReply _) = 0x042C"
| "command_opcode (UserConfirmationRequestNegativeReply _) = 0x042D"
| "command_opcode (RemoteNameRequest _) = 0x0419"
| "command_opcode (AuthenticationRequested _) = 0x0411"
| "command_opcode (SetConnectionEncryption _ _) = 0x0413"
| "command_opcode (DisconnectLink _ _) = 0x0406"
| "command_opcode (VendorCommand op _) = op"

definition le64 :: "u64 \<Rightarrow> bytes" where
  "le64 w = map (\<lambda>i. ucast (drop_bit (8 * i) w)) [0..<8]"

definition bool_byte :: "bool \<Rightarrow> u8" where
  "bool_byte b = (if b then 1 else 0)"

fun command_params :: "command \<Rightarrow> hci_error + bytes" where
  "command_params Reset = Inr []"
| "command_params ReadBufferSize = Inr []"
| "command_params ReadBdAddr = Inr []"
| "command_params ReadLocalVersion = Inr []"
| "command_params (SetEventMask m) = Inr (le64 m)"
| "command_params (WriteLocalName name) =
     (if local_name_len \<le> length name
      then Inl (HciTooLong ''local name'' (length name) (local_name_len - 1))
      else Inr (name @ replicate (local_name_len - length name) 0))"
| "command_params (WriteScanEnable scan) = Inr [scan_bits scan]"
| "command_params (WriteInquiryScanActivity interval window) = Inr (le16 interval @ le16 window)"
| "command_params (WriteInquiryScanType interlaced) = Inr [bool_byte interlaced]"
| "command_params (WritePageScanType interlaced) = Inr [bool_byte interlaced]"
| "command_params (WriteClassOfDevice raw) =
     Inr [ucast raw, ucast (drop_bit 8 raw), ucast (drop_bit 16 raw)]"
| "command_params (WriteExtendedInquiryResponse fec data) =
     (if eir_len < length data
      then Inl (HciTooLong ''extended inquiry response'' (length data) eir_len)
      else Inr (bool_byte fec # data @ replicate (eir_len - length data) 0))"
| "command_params (WriteSimplePairingMode on) = Inr [bool_byte on]"
| "command_params (WriteSecureConnectionsHostSupport on) = Inr [bool_byte on]"
| "command_params (AcceptConnectionRequest a role) = Inr (addr_to_wire a @ [role_bits role])"
| "command_params (RejectConnectionRequest a reason) = Inr (addr_to_wire a @ [reason])"
| "command_params (LinkKeyRequestReply a key) = Inr (addr_to_wire a @ key)"
| "command_params (LinkKeyRequestNegativeReply a) = Inr (addr_to_wire a)"
| "command_params (PinCodeRequestNegativeReply a) = Inr (addr_to_wire a)"
| "command_params (UserConfirmationRequestReply a) = Inr (addr_to_wire a)"
| "command_params (UserConfirmationRequestNegativeReply a) = Inr (addr_to_wire a)"
| "command_params (IoCapabilityRequestReply a io auth) =
     Inr (addr_to_wire a @ [io_bits io, 0x00, auth_bits auth])"
| "command_params (RemoteNameRequest a) = Inr (addr_to_wire a @ [0x01, 0x00, 0x00, 0x00])"
| "command_params (AuthenticationRequested h) = Inr (le16 h)"
| "command_params (SetConnectionEncryption h enable) = Inr (le16 h @ [bool_byte enable])"
| "command_params (DisconnectLink h reason) = Inr (le16 h @ [reason])"
| "command_params (VendorCommand _ params) = Inr params"

definition command_encode :: "command \<Rightarrow> hci_error + hci_packet" where
  "command_encode c = bindE (command_params c) (\<lambda>params. Inr (CommandPacket (command_opcode c) params))"

text \<open>An address has six octets and a link key sixteen: Rust's array types say so.\<close>

fun command_ok :: "command \<Rightarrow> bool" where
  "command_ok (AcceptConnectionRequest a _) \<longleftrightarrow> length a = 6"
| "command_ok (RejectConnectionRequest a _) \<longleftrightarrow> length a = 6"
| "command_ok (LinkKeyRequestReply a key) \<longleftrightarrow> length a = 6 \<and> length key = 16"
| "command_ok (LinkKeyRequestNegativeReply a) \<longleftrightarrow> length a = 6"
| "command_ok (PinCodeRequestNegativeReply a) \<longleftrightarrow> length a = 6"
| "command_ok (IoCapabilityRequestReply a _ _) \<longleftrightarrow> length a = 6"
| "command_ok (UserConfirmationRequestReply a) \<longleftrightarrow> length a = 6"
| "command_ok (UserConfirmationRequestNegativeReply a) \<longleftrightarrow> length a = 6"
| "command_ok (RemoteNameRequest a) \<longleftrightarrow> length a = 6"
| "command_ok (VendorCommand _ params) \<longleftrightarrow> length params \<le> 255"
| "command_ok _ \<longleftrightarrow> True"

lemma length_addr_to_wire [simp]: "length (addr_to_wire a) = length a"
  by (simp add: addr_to_wire_def)

lemma command_params_length:
  "\<lbrakk>command_ok c; command_params c = Inr ps\<rbrakk> \<Longrightarrow> length ps \<le> 255"
  by (cases c) (auto simp: le64_def local_name_len_def eir_len_def split: if_splits)

text \<open>
  Every command that encodes is a packet the transport can carry: its parameters fit the
  one-byte length field, so the packet encodes, and it decodes to the command's opcode and
  exactly those parameters.
\<close>

theorem command_reaches_controller:
  assumes "command_ok c" "command_encode c = Inr p"
  shows "\<exists>bs ps. hci_encode p = Inr bs \<and> command_params c = Inr ps
    \<and> hci_decode bs = Inr (CommandPacket (command_opcode c) ps)"
proof -
  obtain ps where ps: "command_params c = Inr ps" "p = CommandPacket (command_opcode c) ps"
    using assms(2) by (auto simp: command_encode_def bindE_eq_Inr)
  with command_params_length [OF assms(1) ps(1)] show ?thesis
    using hci_decode_bytes [of p "[]"] by (auto simp: hci_encode_eq)
qed

theorem command_reaches_controller_witness:
  "\<exists>bs ps. hci_encode (CommandPacket 0x0409 [6, 5, 4, 3, 2, 1, 1]) = Inr bs
    \<and> command_params (AcceptConnectionRequest [1, 2, 3, 4, 5, 6] RemainPeripheral) = Inr ps
    \<and> hci_decode bs = Inr (CommandPacket (command_opcode (AcceptConnectionRequest [1, 2, 3, 4, 5, 6] RemainPeripheral)) ps)"
  by (rule command_reaches_controller) (simp_all add: command_encode_def addr_to_wire_def)

end
