(* ===== verification/Wire.thy ===== *)
theory Wire
  imports Prelude
begin

text \<open>
  What the byte-oriented crates take from the standard library and from \<^verbatim>\<open>bytes\<close>: the
  big-endian fields of \<^verbatim>\<open>BufMut\<close> and \<^verbatim>\<open>from_be_bytes\<close>, lossy UTF-8, \<^verbatim>\<open>trim\<close> and decimal numbers. A Rust
  \<^verbatim>\<open>String\<close> is the list of its bytes.
\<close>

section \<open>Big-endian fields\<close>

definition be16 :: "u16 \<Rightarrow> bytes" where
  "be16 w = [ucast (drop_bit 8 w), ucast w]"

definition be32 :: "u32 \<Rightarrow> bytes" where
  "be32 w = [ucast (drop_bit 24 w), ucast (drop_bit 16 w), ucast (drop_bit 8 w), ucast w]"

definition be64 :: "u64 \<Rightarrow> bytes" where
  "be64 w = be32 (ucast (drop_bit 32 w)) @ be32 (ucast w)"

definition u16_be_at :: "bytes \<Rightarrow> nat \<Rightarrow> u16" where
  "u16_be_at bs i = from_be16 (bs ! i) (bs ! (i + 1))"

definition u32_be_at :: "bytes \<Rightarrow> nat \<Rightarrow> u32" where
  "u32_be_at bs i = from_be32 (bs ! i) (bs ! (i + 1)) (bs ! (i + 2)) (bs ! (i + 3))"

lemma length_be [simp]:
  "length (be16 a) = 2" "length (be32 b) = 4" "length (be64 c) = 8"
  by (simp_all add: be16_def be32_def be64_def)

lemma be_not_Nil [simp]: "be16 a \<noteq> []" "be32 b \<noteq> []" "be64 c \<noteq> []"
  by (simp_all add: be16_def be32_def be64_def)

lemma from_be16_be16 [simp]: "from_be16 (ucast (drop_bit 8 w)) (ucast w) = w"
  by (rule bit_word_eqI) (auto simp: from_be16_def bit_simps)

lemma from_be32_be32 [simp]:
  "from_be32 (ucast (drop_bit 24 w)) (ucast (drop_bit 16 w)) (ucast (drop_bit 8 w)) (ucast w) = w"
proof (rule bit_word_eqI)
  fix n
  assume "n < LENGTH(32)"
  consider "n < 8" | "8 \<le> n" "n < 16" | "16 \<le> n" "n < 24" | "24 \<le> n" by linarith
  then show "bit (from_be32 (ucast (drop_bit 24 w)) (ucast (drop_bit 16 w)) (ucast (drop_bit 8 w))
      (ucast w)) n = bit w n"
    using \<open>n < LENGTH(32)\<close> by cases (auto simp: from_be32_def bit_simps)
qed

lemma u16_be_at_be16 [wire_simps]: "u16_be_at (be16 w @ bs) 0 = w" "u16_be_at (be16 w) 0 = w"
  by (simp_all add: u16_be_at_def be16_def)

lemma u32_be_at_be32 [wire_simps]: "u32_be_at (be32 w @ bs) 0 = w" "u32_be_at (be32 w) 0 = w"
  by (simp_all add: u32_be_at_def be32_def)

lemma u16_be_at_append [wire_simps]: "length xs \<le> i \<Longrightarrow> u16_be_at (xs @ bs) i = u16_be_at bs (i - length xs)"
  by (simp add: u16_be_at_def nth_append Suc_diff_le)

lemma u32_be_at_append [wire_simps]: "length xs \<le> i \<Longrightarrow> u32_be_at (xs @ bs) i = u32_be_at bs (i - length xs)"
  by (simp add: u32_be_at_def nth_append Suc_diff_le Nat.add_diff_assoc2)

section \<open>Names that are not UTF-8\<close>

text \<open>
  \<open>String::from_utf8_lossy\<close> on bytes: a well-formed sequence is kept, and the longest prefix of
  one that goes wrong, or a byte that starts none, becomes U+FFFD. \<open>follows b\<close> is the range the
  byte after \<open>b\<close> must lie in.
\<close>

definition replacement :: bytes where "replacement = [0xEF, 0xBF, 0xBD]"

definition in_range :: "u8 \<Rightarrow> u8 \<Rightarrow> u8 \<Rightarrow> bool" where
  "in_range lo hi b \<longleftrightarrow> lo \<le> b \<and> b \<le> hi"

definition follows :: "u8 \<Rightarrow> u8 \<Rightarrow> bool" where
  "follows b c \<longleftrightarrow>
     (if b = 0xE0 then in_range 0xA0 0xBF c
      else if b = 0xED then in_range 0x80 0x9F c
      else if b = 0xF0 then in_range 0x90 0xBF c
      else if b = 0xF4 then in_range 0x80 0x8F c
      else in_range 0x80 0xBF c)"

definition utf8_len :: "u8 \<Rightarrow> nat" where
  "utf8_len b =
     (if b < 0x80 then 1 else if in_range 0xC2 0xDF b then 2
      else if in_range 0xE0 0xEF b then 3 else if in_range 0xF0 0xF4 b then 4 else 0)"

definition continuation :: "u8 \<Rightarrow> bool" where
  "continuation b \<longleftrightarrow> in_range 0x80 0xBF b"

text \<open>How many bytes after the first are as they must be, of the ones a sequence needs.\<close>

definition good_tail :: "u8 \<Rightarrow> bytes \<Rightarrow> nat" where
  "good_tail b rest =
     (case take (utf8_len b - 1) rest of
        [] \<Rightarrow> 0
      | c # cs \<Rightarrow> if follows b c then 1 + length (takeWhile continuation cs) else 0)"

function utf8_lossy :: "bytes \<Rightarrow> bytes" where
  "utf8_lossy [] = []"
| "utf8_lossy (b # rest) =
     (if utf8_len b = 0 then replacement @ utf8_lossy rest
      else let k = good_tail b rest in
        if k = utf8_len b - 1 then b # take k rest @ utf8_lossy (drop k rest)
        else replacement @ utf8_lossy (drop k rest))"
  by pat_completeness auto
termination by (relation "measure length") auto

lemma utf8_lossy_ascii: "list_all (\<lambda>b. b < 0x80) bs \<Longrightarrow> utf8_lossy bs = bs"
  by (induction bs rule: utf8_lossy.induct) (auto simp: utf8_len_def good_tail_def)

section \<open>Trimming a name\<close>

text \<open>
  \<open>str::trim\<close> on UTF-8 bytes: the encodings of the characters of the property
  \<open>White_Space\<close>, cut off at both ends. No encoding of a character is a proper prefix or suffix
  of another's, so cutting bytes is cutting characters.
\<close>

definition white_space :: "bytes list" where
  "white_space =
     [[0x09], [0x0A], [0x0B], [0x0C], [0x0D], [0x20], [0xC2, 0x85], [0xC2, 0xA0], [0xE1, 0x9A, 0x80],
      [0xE2, 0x80, 0x80], [0xE2, 0x80, 0x81], [0xE2, 0x80, 0x82], [0xE2, 0x80, 0x83], [0xE2, 0x80, 0x84],
      [0xE2, 0x80, 0x85], [0xE2, 0x80, 0x86], [0xE2, 0x80, 0x87], [0xE2, 0x80, 0x88], [0xE2, 0x80, 0x89],
      [0xE2, 0x80, 0x8A], [0xE2, 0x80, 0xA8], [0xE2, 0x80, 0xA9], [0xE2, 0x80, 0xAF], [0xE2, 0x81, 0x9F],
      [0xE3, 0x80, 0x80]]"

definition leading :: "bytes list \<Rightarrow> bytes \<Rightarrow> nat" where
  "leading cs bs = (case find (\<lambda>c. take (length c) bs = c) cs of None \<Rightarrow> 0 | Some c \<Rightarrow> length c)"

function trim_start :: "bytes list \<Rightarrow> bytes \<Rightarrow> bytes" where
  "trim_start cs bs =
     (if leading cs bs = 0 \<or> bs = [] then bs else trim_start cs (drop (leading cs bs) bs))"
  by pat_completeness auto
termination by (relation "measure (\<lambda>(_, bs). length bs)") auto

declare trim_start.simps [simp del]

definition trim :: "bytes \<Rightarrow> bytes" where
  "trim bs = rev (trim_start (map rev white_space) (rev (trim_start white_space bs)))"

section \<open>Decimal numbers\<close>

definition u64_max :: nat where "u64_max = 2 ^ 64 - 1"
definition u32_max :: nat where "u32_max = 2 ^ 32 - 1"

text \<open>\<open>to_string\<close> of an unsigned integer, and \<open>parse\<close> with the type's largest value as \<open>limit\<close>:
  one \<open>+\<close> may lead, every other byte is a digit, and a value past the limit is an error.\<close>

fun decimal :: "nat \<Rightarrow> bytes" where
  "decimal n = (if n < 10 then [0x30 + of_nat n] else decimal (n div 10) @ [0x30 + of_nat (n mod 10)])"

declare decimal.simps [simp del]

fun parse_digits :: "nat \<Rightarrow> nat \<Rightarrow> bytes \<Rightarrow> nat option" where
  "parse_digits limit acc [] = Some acc"
| "parse_digits limit acc (b # bs) =
     (if 0x30 \<le> b \<and> b \<le> 0x39
      then (let v = acc * 10 + unat (b - 0x30) in if limit < v then None else parse_digits limit v bs)
      else None)"

definition parse_decimal :: "nat \<Rightarrow> bytes \<Rightarrow> nat option" where
  "parse_decimal limit bs =
     (let digits = (case bs of [] \<Rightarrow> [] | b # rest \<Rightarrow> if b = 0x2B then rest else bs) in
      if digits = [] then None else parse_digits limit 0 digits)"

lemma digit_small:
  assumes "n < 10"
  shows "0x30 \<le> (0x30 + of_nat n :: u8)" "(0x30 + of_nat n :: u8) \<le> 0x39" "unat (of_nat n :: u8) = n"
proof -
  show u: "unat (of_nat n :: u8) = n" using assms by simp
  have "unat (0x30 + of_nat n :: u8) = 48 + n" using assms u by (subst unat_plus_if_size) (simp add: word_size)
  then show "0x30 \<le> (0x30 + of_nat n :: u8)" "(0x30 + of_nat n :: u8) \<le> 0x39"
    using assms by (simp_all add: word_le_nat_alt)
qed

lemma parse_digits_append:
  "parse_digits limit acc (xs @ ys) = (case parse_digits limit acc xs of None \<Rightarrow> None | Some v \<Rightarrow> parse_digits limit v ys)"
  by (induction limit acc xs rule: parse_digits.induct) (auto simp: Let_def)

lemma parse_digits_decimal: "n \<le> limit \<Longrightarrow> parse_digits limit 0 (decimal n) = Some n"
proof (induction n rule: decimal.induct)
  case (1 n)
  show ?case
  proof (cases "n < 10")
    case True
    then show ?thesis using digit_small [OF True] 1(2) by (subst decimal.simps) (simp add: Let_def)
  next
    case False
    have m: "n mod 10 < 10" by simp
    have "n div 10 \<le> limit" using 1(2) by (meson div_le_dividend le_trans)
    then have "parse_digits limit 0 (decimal (n div 10)) = Some (n div 10)" using 1(1) False by simp
    then show ?thesis using digit_small [OF m] 1(2) False
      by (subst decimal.simps) (simp add: parse_digits_append Let_def)
  qed
qed

lemma decimal_digits: "b \<in> set (decimal n) \<Longrightarrow> 0x30 \<le> b \<and> b \<le> 0x39"
proof (induction n rule: decimal.induct)
  case (1 n)
  have "n mod 10 < 10" by simp
  then show ?case using 1 digit_small by (subst (asm) decimal.simps) (auto split: if_splits)
qed

lemma decimal_not_Nil [simp]: "decimal n \<noteq> []"
  by (subst decimal.simps) simp

lemma parse_decimal_decimal [simp]: "n \<le> limit \<Longrightarrow> parse_decimal limit (decimal n) = Some n"
proof -
  assume n: "n \<le> limit"
  obtain b rest where d: "decimal n = b # rest" by (cases "decimal n") auto
  have "b \<noteq> 0x2B" using decimal_digits [of b n] d by auto
  then show ?thesis using parse_digits_decimal [OF n] by (simp add: parse_decimal_def d)
qed

text \<open>What has no white space at its ends is trimmed to itself.\<close>

lemma trim_start_solid:
  "(\<forall>c\<in>set cs. c \<noteq> [] \<and> hd c \<noteq> hd bs) \<Longrightarrow> trim_start cs bs = bs"
proof -
  assume solid: "\<forall>c\<in>set cs. c \<noteq> [] \<and> hd c \<noteq> hd bs"
  have "leading cs bs = 0 \<or> bs = []"
  proof (cases "find (\<lambda>c. take (length c) bs = c) cs")
    case (Some c)
    then have c: "c \<in> set cs" "take (length c) bs = c" by (auto simp: find_Some_iff)
    then have "hd c \<noteq> hd bs" "0 < length c" using solid by auto
    then show ?thesis using c(2) by (metis hd_take)
  qed (simp add: leading_def)
  then show ?thesis by (subst trim_start.simps) simp
qed

definition solid :: "u8 \<Rightarrow> bool" where
  "solid b \<longleftrightarrow> 0x21 \<le> b \<and> b < 0x80"

lemma trim_solid: "\<lbrakk>bs \<noteq> []; solid (hd bs); solid (last bs)\<rbrakk> \<Longrightarrow> trim bs = bs"
proof -
  assume bs: "bs \<noteq> []" "solid (hd bs)" "solid (last bs)"
  have "trim_start white_space bs = bs"
    using bs(2) by (intro trim_start_solid) (auto simp: white_space_def solid_def)
  moreover have "trim_start (map rev white_space) (rev bs) = rev bs"
    using bs(1,3) by (intro trim_start_solid) (auto simp: white_space_def solid_def hd_rev)
  ultimately show ?thesis by (simp add: trim_def)
qed

lemma trim_decimal [simp]: "trim (decimal n) = decimal n"
proof (rule trim_solid)
  have "solid b" if "b \<in> set (decimal n)" for b
    using decimal_digits [OF that] by (auto simp: solid_def word_le_nat_alt word_less_nat_alt)
  then show "solid (hd (decimal n))" "solid (last (decimal n))" by simp_all
qed simp

end
