(* ===== verification/Hci_Event.thy ===== *)
theory Hci_Event
  imports Hci_Command Wire
begin

text \<open>
  \<^verbatim>\<open>crates/substrate-hci/src/event.rs\<close>: controller events, parsed by a cursor that refuses to
  read past the end of the parameters. A cursor is what is left to read, and each of its reads
  a \<open>meth\<close> on it; \<open>what\<close> is the label of its errors.
\<close>

section \<open>The cursor\<close>

definition r_take :: "string \<Rightarrow> nat \<Rightarrow> (bytes, hci_error, bytes) meth" where
  "r_take what n buf =
     (if length buf < n then (Inl (HciTruncated what n (length buf)), buf)
      else (Inr (take n buf), drop n buf))"

definition r_u8 :: "string \<Rightarrow> (bytes, hci_error, u8) meth" where
  "r_u8 what = bindS (r_take what 1) (\<lambda>b. returnS (b ! 0))"

definition r_u16 :: "string \<Rightarrow> (bytes, hci_error, u16) meth" where
  "r_u16 what = bindS (r_take what 2) (\<lambda>b. returnS (from_le16 (b ! 0) (b ! 1)))"

definition r_u24 :: "string \<Rightarrow> (bytes, hci_error, u32) meth" where
  "r_u24 what = bindS (r_take what 3) (\<lambda>b.
     returnS (ucast (b ! 0) OR push_bit 8 (ucast (b ! 1)) OR push_bit 16 (ucast (b ! 2))))"

definition r_u32 :: "string \<Rightarrow> (bytes, hci_error, u32) meth" where
  "r_u32 what = bindS (r_take what 4) (\<lambda>b. returnS (from_be32 (b ! 3) (b ! 2) (b ! 1) (b ! 0)))"

definition r_addr :: "string \<Rightarrow> (bytes, hci_error, bd_addr) meth" where
  "r_addr what = bindS (r_take what 6) (\<lambda>b. returnS (addr_from_wire b))"

definition r_handle :: "string \<Rightarrow> (bytes, hci_error, handle) meth" where
  "r_handle what = bindS (r_u16 what) (\<lambda>w. liftS (handle_new (w AND 0x0FFF)))"

definition r_rest :: "(bytes, hci_error, bytes) meth" where
  "r_rest buf = (Inr buf, [])"

section \<open>Events\<close>

datatype link_type = Sco | Acl | ESco | OtherLink u8

definition link_from_bits :: "u8 \<Rightarrow> link_type" where
  "link_from_bits raw =
     (if raw = 0x00 then Sco else if raw = 0x01 then Acl else if raw = 0x02 then ESco
      else OtherLink raw)"

text \<open>The arguments of each event are its fields in the order of the source.\<close>

datatype event =
    ConnectionRequestEvent bd_addr u32 link_type
  | ConnectionComplete status handle bd_addr link_type bool
  | DisconnectionComplete status handle status
  | AuthenticationComplete status handle
  | EncryptionChange status handle bool
  | RemoteNameRequestComplete status bd_addr bytes
  | CommandComplete u8 opcode bytes
  | CommandStatus status u8 opcode
  | NumberOfCompletedPackets "(handle \<times> u16) list"
  | PinCodeRequest bd_addr
  | LinkKeyRequest bd_addr
  | LinkKeyNotification bd_addr bytes u8
  | IoCapabilityRequest bd_addr
  | IoCapabilityResponse bd_addr io_capability auth_requirements
  | UserConfirmationRequest bd_addr u32
  | SimplePairingComplete status bd_addr
  | Unhandled u8 bytes

definition params_label :: string where "params_label = ''event parameters''"

fun r_completed :: "nat \<Rightarrow> (bytes, hci_error, (handle \<times> u16) list) meth" where
  "r_completed 0 = returnS []"
| "r_completed (Suc n) =
     bindS (r_handle params_label) (\<lambda>h. bindS (r_u16 params_label) (\<lambda>k.
       bindS (r_completed n) (\<lambda>rest. returnS ((h, k) # rest))))"

definition io_from_byte :: "u8 \<Rightarrow> io_capability" where
  "io_from_byte b =
     (if b = 0x00 then DisplayOnly else if b = 0x01 then DisplayYesNo
      else if b = 0x02 then KeyboardOnly else NoInputNoOutput)"

definition auth_from_byte :: "u8 \<Rightarrow> auth_requirements" where
  "auth_from_byte b =
     (if b = 0x00 \<or> b = 0x01 then NoBondingNoMitm
      else if b = 0x05 then GeneralBondingMitm else GeneralBondingNoMitm)"

definition parse_event :: "u8 \<Rightarrow> (bytes, hci_error, event) meth" where
  "parse_event code =
     (let u8 = r_u8 params_label; u16 = r_u16 params_label; u24 = r_u24 params_label;
          addr = r_addr params_label; handle = r_handle params_label
      in
        if code = 0x04 then
          bindS addr (\<lambda>a. bindS u24 (\<lambda>c. bindS u8 (\<lambda>l.
            returnS (ConnectionRequestEvent a c (link_from_bits l)))))
        else if code = 0x03 then
          bindS u8 (\<lambda>s. bindS handle (\<lambda>h. bindS addr (\<lambda>a. bindS u8 (\<lambda>l. bindS u8 (\<lambda>e.
            returnS (ConnectionComplete s h a (link_from_bits l) (e \<noteq> 0)))))))
        else if code = 0x05 then
          bindS u8 (\<lambda>s. bindS handle (\<lambda>h. bindS u8 (\<lambda>r. returnS (DisconnectionComplete s h r))))
        else if code = 0x06 then
          bindS u8 (\<lambda>s. bindS handle (\<lambda>h. returnS (AuthenticationComplete s h)))
        else if code = 0x08 then
          bindS u8 (\<lambda>s. bindS handle (\<lambda>h. bindS u8 (\<lambda>e. returnS (EncryptionChange s h (e \<noteq> 0)))))
        else if code = 0x07 then
          bindS u8 (\<lambda>s. bindS addr (\<lambda>a. bindS (r_take params_label 248) (\<lambda>raw.
            returnS (RemoteNameRequestComplete s a (utf8_lossy (takeWhile (\<lambda>b. b \<noteq> 0) raw))))))
        else if code = 0x0E then
          bindS u8 (\<lambda>n. bindS u16 (\<lambda>op. bindS r_rest (\<lambda>ps. returnS (CommandComplete n op ps))))
        else if code = 0x0F then
          bindS u8 (\<lambda>s. bindS u8 (\<lambda>n. bindS u16 (\<lambda>op. returnS (CommandStatus s n op))))
        else if code = 0x13 then
          bindS u8 (\<lambda>n. bindS (r_completed (unat n)) (\<lambda>l. returnS (NumberOfCompletedPackets l)))
        else if code = 0x16 then bindS addr (\<lambda>a. returnS (PinCodeRequest a))
        else if code = 0x17 then bindS addr (\<lambda>a. returnS (LinkKeyRequest a))
        else if code = 0x18 then
          bindS addr (\<lambda>a. bindS (r_take params_label 16) (\<lambda>key. bindS u8 (\<lambda>t.
            returnS (LinkKeyNotification a key t))))
        else if code = 0x31 then bindS addr (\<lambda>a. returnS (IoCapabilityRequest a))
        else if code = 0x32 then
          bindS addr (\<lambda>a. bindS u8 (\<lambda>io. bindS u8 (\<lambda>oob. bindS u8 (\<lambda>auth.
            returnS (IoCapabilityResponse a (io_from_byte io) (auth_from_byte auth))))))
        else if code = 0x33 then
          bindS addr (\<lambda>a. bindS (r_u32 params_label) (\<lambda>v. returnS (UserConfirmationRequest a v)))
        else if code = 0x36 then
          bindS u8 (\<lambda>s. bindS addr (\<lambda>a. returnS (SimplePairingComplete s a)))
        else (\<lambda>params. (Inr (Unhandled code params), params)))"

definition event_parse :: "u8 \<Rightarrow> bytes \<Rightarrow> hci_error + event" where
  "event_parse code params = fst (parse_event code params)"

record buffer_size =
  bs_acl_max_len :: u16
  bs_total_packets :: u16

definition buffer_size_parse :: "bytes \<Rightarrow> hci_error + buffer_size" where
  "buffer_size_parse params =
     (let what = ''read_buffer_size result'' in
      fst (bindS (r_u8 what) (\<lambda>s.
        if \<not> status_is_success s then failS (CommandFailed s)
        else bindS (r_u16 what) (\<lambda>len. bindS (r_u8 what) (\<lambda>sco. bindS (r_u16 what) (\<lambda>n.
          returnS \<lparr>bs_acl_max_len = len, bs_total_packets = n\<rparr>)))) params))"

definition parse_bd_addr :: "bytes \<Rightarrow> hci_error + bd_addr" where
  "parse_bd_addr params =
     (let what = ''read_bd_addr result'' in
      fst (bindS (r_u8 what) (\<lambda>s.
        if \<not> status_is_success s then failS (CommandFailed s) else r_addr what) params))"

section \<open>Parsing does not depend on what follows\<close>

text \<open>A read that succeeds reads the same in a longer buffer and leaves what was added.\<close>

definition steady :: "(bytes, hci_error, 'a) meth \<Rightarrow> bool" where
  "steady m \<longleftrightarrow> (\<forall>buf a rest extra. m buf = (Inr a, rest) \<longrightarrow> m (buf @ extra) = (Inr a, rest @ extra))"

named_theorems steady_intros \<open>reads that do not depend on what follows\<close>

lemma steady_take [steady_intros]: "steady (r_take what n)"
  by (auto simp: steady_def r_take_def split: if_splits)

lemma steady_return [steady_intros]: "steady (returnS a)" "steady (liftS r)"
  by (auto simp: steady_def returnS_def liftS_def)

lemma steady_bindS [steady_intros]: "\<lbrakk>steady m; \<And>a. steady (f a)\<rbrakk> \<Longrightarrow> steady (bindS m f)"
  unfolding steady_def bindS_def by (auto split: prod.splits sum.splits)

lemma steady_reads [steady_intros]:
  "steady (r_u8 what)" "steady (r_u16 what)" "steady (r_u24 what)" "steady (r_u32 what)"
  "steady (r_addr what)" "steady (r_handle what)"
  unfolding r_u8_def r_u16_def r_u24_def r_u32_def r_addr_def r_handle_def
  by (intro steady_intros)+

lemma steady_completed [steady_intros]: "steady (r_completed n)"
  by (induction n) (auto intro!: steady_intros)

definition fixed_layout :: "u8 \<Rightarrow> bool" where
  "fixed_layout code \<longleftrightarrow> code \<in> {0x03, 0x04, 0x05, 0x06, 0x07, 0x08, 0x0F, 0x13, 0x16, 0x17, 0x18, 0x31, 0x32, 0x33, 0x36}"

lemma steady_parse_event: "fixed_layout code \<Longrightarrow> steady (parse_event code)"
  unfolding fixed_layout_def parse_event_def Let_def
  by (elim insertE emptyE; simp; intro steady_intros)

text \<open>
  Every event of fixed layout that parses, parses to the same event when the controller pads
  its parameters: the parser reads what it needs and never looks at, or fails on, what is left.
\<close>

theorem event_padding_ignored:
  assumes "fixed_layout code" "event_parse code params = Inr ev"
  shows "event_parse code (params @ padding) = Inr ev"
proof -
  obtain rest where "parse_event code params = (Inr ev, rest)"
    using assms(2) unfolding event_parse_def by (metis prod.collapse)
  then have "parse_event code (params @ padding) = (Inr ev, rest @ padding)"
    using steady_parse_event [OF assms(1)] unfolding steady_def by blast
  then show ?thesis by (simp add: event_parse_def)
qed

text \<open>Every connection handle an event carries is one the host can use.\<close>

fun event_handles :: "event \<Rightarrow> handle list" where
  "event_handles (ConnectionComplete _ h _ _ _) = [h]"
| "event_handles (DisconnectionComplete _ h _) = [h]"
| "event_handles (AuthenticationComplete _ h) = [h]"
| "event_handles (EncryptionChange _ h _) = [h]"
| "event_handles (NumberOfCompletedPackets l) = map fst l"
| "event_handles _ = []"

lemma bindS_Inr: "bindS m f s = (Inr b, s'') \<longleftrightarrow> (\<exists>a s'. m s = (Inr a, s') \<and> f a s' = (Inr b, s''))"
  by (auto simp: bindS_def split: prod.split sum.split)

lemma r_handle_max: "r_handle what buf = (Inr h, rest) \<Longrightarrow> h \<le> handle_max"
  by (auto simp: r_handle_def bindS_Inr liftS_def handle_new_def split: if_splits)

lemma r_completed_result:
  "\<lbrakk>r_completed n buf = (Inr l, rest); (h, k) \<in> set l\<rbrakk> \<Longrightarrow> h \<le> handle_max"
  by (induction n arbitrary: buf l rest)
    (auto simp: bindS_Inr returnS_def dest: r_handle_max)

text \<open>
  Whatever bytes the controller sends, a connection handle in an event that parses is within
  the range the host can address: the flag bits a controller packs above it are masked, and a
  reserved value is refused instead of passed on.
\<close>

theorem event_handles_valid:
  assumes "event_parse code params = Inr ev" "h \<in> set (event_handles ev)"
  shows "h \<le> handle_max"
proof -
  obtain rest where "parse_event code params = (Inr ev, rest)"
    using assms(1) unfolding event_parse_def by (metis prod.collapse)
  then show ?thesis using assms(2)
    unfolding parse_event_def Let_def
    by (auto simp: bindS_Inr returnS_def dest: r_handle_max split: if_splits) (erule (1) r_completed_result)
qed

lemma event_padding_ignored_witness:
  "fixed_layout 0x05 \<and>
   event_parse 0x05 [0x00, 0x2A, 0x00, 0x13] = Inr (DisconnectionComplete 0 42 0x13) \<and>
   event_parse 0x05 ([0x00, 0x2A, 0x00, 0x13] @ [0xFF, 0xFF]) = Inr (DisconnectionComplete 0 42 0x13)"
proof -
  have "fixed_layout 0x05"
    "event_parse 0x05 [0x00, 0x2A, 0x00, 0x13] = Inr (DisconnectionComplete 0 42 0x13)"
    by code_simp+
  then show ?thesis using event_padding_ignored by blast
qed

lemma event_handles_valid_witness:
  "event_parse 0x13 [1, 0x2A, 0xF0, 3, 0] = Inr (NumberOfCompletedPackets [(42, 3)]) \<and>
   (42 :: u16) \<le> handle_max"
proof -
  have "event_parse 0x13 [1, 0x2A, 0xF0, 3, 0] = Inr (NumberOfCompletedPackets [(42, 3)])"
    by code_simp
  then show ?thesis using event_handles_valid [of "0x13" "[1, 0x2A, 0xF0, 3, 0]" _ 42] by fastforce
qed

end
