(* ===== verification/Hci_Flow.thy ===== *)
theory Hci_Flow
  imports Hci_Command "HOL-Library.Multiset"
begin

text \<open>
  \<^verbatim>\<open>crates/substrate-hci/src/flow.rs\<close>: the two windows the controller meters. \<open>acl_credits\<close>
  is its pool of data buffers, one credit a fragment, and \<open>command_credits\<close> its command slots.
  The pool implements a multiset, the fragments the controller holds by handle; the command
  window is a queue whose order the host keeps.
\<close>

section \<open>Data buffers\<close>

record acl_credits =
  ac_capacity :: u16
  ac_outstanding :: "(u16, u16) tbl"
  ac_total :: u16

definition acl_credits_new :: "u16 \<Rightarrow> acl_credits" where
  "acl_credits_new capacity = \<lparr>ac_capacity = max capacity 1, ac_outstanding = [], ac_total = 0\<rparr>"

definition acl_set_capacity :: "u16 \<Rightarrow> acl_credits \<Rightarrow> acl_credits" where
  "acl_set_capacity capacity c = c\<lparr>ac_capacity := max capacity 1\<rparr>"

definition acl_available :: "acl_credits \<Rightarrow> u16" where
  "acl_available c = sat_sub (ac_capacity c) (ac_total c)"

definition or_zero :: "u16 option \<Rightarrow> u16" where
  "or_zero v = (case v of Some n \<Rightarrow> n | None \<Rightarrow> 0)"

definition acl_claim :: "handle \<Rightarrow> acl_credits \<Rightarrow> bool \<times> acl_credits" where
  "acl_claim h c =
     (if acl_available c = 0 then (False, c)
      else (True, c\<lparr>ac_total := ac_total c + 1,
        ac_outstanding := tbl_put h (or_zero (tbl_get (ac_outstanding c) h) + 1) (ac_outstanding c)\<rparr>))"

definition acl_complete :: "handle \<Rightarrow> u16 \<Rightarrow> acl_credits \<Rightarrow> u16 \<times> acl_credits" where
  "acl_complete h n c =
     (case tbl_get (ac_outstanding c) h of
        None \<Rightarrow> (0, c)
      | Some entry \<Rightarrow>
          let released = min n entry; left = entry - released in
          (released, c\<lparr>ac_outstanding :=
             (if left = 0 then tbl_del h (ac_outstanding c) else tbl_put h left (ac_outstanding c)),
             ac_total := ac_total c - released\<rparr>))"

definition acl_link_down :: "handle \<Rightarrow> acl_credits \<Rightarrow> u16 \<times> acl_credits" where
  "acl_link_down h c =
     (let reclaimed = or_zero (tbl_get (ac_outstanding c) h) in
      (reclaimed, c\<lparr>ac_outstanding := tbl_del h (ac_outstanding c), ac_total := ac_total c - reclaimed\<rparr>))"

section \<open>The command window\<close>

record command_credits =
  cc_available :: u8
  cc_waiting :: "command list"
  cc_in_flight :: "opcode list"

definition cc_new :: command_credits where
  "cc_new = \<lparr>cc_available = 1, cc_waiting = [], cc_in_flight = []\<rparr>"

definition oldest_in_flight :: "command_credits \<Rightarrow> opcode option" where
  "oldest_in_flight c = (case cc_in_flight c of [] \<Rightarrow> None | op # _ \<Rightarrow> Some op)"

definition submit :: "command \<Rightarrow> command_credits \<Rightarrow> command option \<times> command_credits" where
  "submit cmd c =
     (if cc_available c = 0 then (None, c\<lparr>cc_waiting := cc_waiting c @ [cmd]\<rparr>)
      else (Some cmd, c\<lparr>cc_available := cc_available c - 1,
        cc_in_flight := cc_in_flight c @ [command_opcode cmd]\<rparr>))"

fun release_loop :: "u8 \<Rightarrow> command list \<Rightarrow> opcode list \<Rightarrow> command list \<Rightarrow> command list \<times> command_credits" where
  "release_loop available [] in_flight out =
     (out, \<lparr>cc_available = available, cc_waiting = [], cc_in_flight = in_flight\<rparr>)"
| "release_loop available (cmd # waiting) in_flight out =
     (if available > 0
      then release_loop (available - 1) waiting (in_flight @ [command_opcode cmd]) (out @ [cmd])
      else (out, \<lparr>cc_available = available, cc_waiting = cmd # waiting, cc_in_flight = in_flight\<rparr>))"

definition release :: "command_credits \<Rightarrow> command list \<times> command_credits" where
  "release c = release_loop (cc_available c) (cc_waiting c) (cc_in_flight c) []"

definition answered :: "opcode \<Rightarrow> u8 \<Rightarrow> command_credits \<Rightarrow> command list \<times> command_credits" where
  "answered op allowed c =
     release (c\<lparr>cc_in_flight := remove1 op (cc_in_flight c), cc_available := allowed\<rparr>)"

definition abandon_oldest :: "command_credits \<Rightarrow> (opcode option \<times> command list) \<times> command_credits" where
  "abandon_oldest c =
     (case cc_in_flight c of
        [] \<Rightarrow> ((None, []), c)
      | op # rest \<Rightarrow>
          let (cmds, c') = release (c\<lparr>cc_in_flight := rest, cc_available := max (cc_available c) 1\<rparr>)
          in ((Some op, cmds), c'))"


section \<open>The pool is a multiset\<close>

text \<open>\<open>held t\<close> is what the controller holds according to \<open>t\<close>: each handle as often as it has a fragment there.\<close>

fun held :: "(u16, u16) tbl \<Rightarrow> handle multiset" where
  "held [] = {#}"
| "held ((h, n) # t) = replicate_mset (unat n) h + held t"

definition acl_ok :: "acl_credits \<Rightarrow> bool" where
  "acl_ok c \<longleftrightarrow> tbl_all (\<lambda>_ n. 0 < n) (ac_outstanding c) \<and> size (held (ac_outstanding c)) = unat (ac_total c)"

datatype acl_call = SetCapacity u16 | Claim handle | Completed handle u16 | LinkDown handle

text \<open>A call on the pool, with the answers the callers got so far.\<close>

fun acl_step :: "acl_call \<Rightarrow> acl_credits \<times> nat list \<Rightarrow> acl_credits \<times> nat list" where
  "acl_step (SetCapacity n) (c, outs) = (acl_set_capacity n c, outs)"
| "acl_step (Claim h) (c, outs) = (let (ok, c') = acl_claim h c in (c', outs @ [of_bool ok]))"
| "acl_step (Completed h n) (c, outs) = (let (k, c') = acl_complete h n c in (c', outs @ [unat k]))"
| "acl_step (LinkDown h) (c, outs) = (let (k, c') = acl_link_down h c in (c', outs @ [unat k]))"

type_synonym acl_view = "(nat \<times> handle multiset) \<times> nat list"

fun acl_spec :: "acl_call \<Rightarrow> acl_view \<Rightarrow> acl_view" where
  "acl_spec (SetCapacity n) ((cap, M), outs) = ((max (unat n) 1, M), outs)"
| "acl_spec (Claim h) ((cap, M), outs) =
     (if size M < cap then ((cap, add_mset h M), outs @ [1]) else ((cap, M), outs @ [0]))"
| "acl_spec (Completed h n) ((cap, M), outs) =
     ((cap, M - replicate_mset (unat n) h), outs @ [min (unat n) (count M h)])"
| "acl_spec (LinkDown h) ((cap, M), outs) =
     ((cap, filter_mset (\<lambda>x. x \<noteq> h) M), outs @ [count M h])"

definition acl_view :: "acl_credits \<times> nat list \<Rightarrow> acl_view" where
  "acl_view s = (case s of (c, outs) \<Rightarrow> ((unat (ac_capacity c), held (ac_outstanding c)), outs))"

lemma count_held: "tbl_ok t \<Longrightarrow> count (held t) h = unat (or_zero (tbl_get t h))"
proof (induction t)
  case (Cons p t)
  obtain k n where p: "p = (k, n)" by (cases p)
  have "tbl_get t k = None" using Cons.prems by (simp add: p map_of_eq_None_iff)
  then show ?case using Cons by (auto simp: p or_zero_def)
qed (simp add: or_zero_def)

lemma held_put:
  "tbl_ok t \<Longrightarrow> held (tbl_put h n t) + replicate_mset (unat (or_zero (tbl_get t h))) h = held t + replicate_mset (unat n) h"
  by (rule multiset_eqI) (simp add: count_held table_simps or_zero_def)

lemma held_del: "tbl_ok t \<Longrightarrow> held (tbl_del h t) = filter_mset (\<lambda>x. x \<noteq> h) (held t)"
  by (rule multiset_eqI) (simp add: count_held table_simps or_zero_def)

lemma held_take:
  assumes "tbl_ok t" "tbl_get t h = Some m" "k \<le> m"
  shows "held (if m - k = 0 then tbl_del h t else tbl_put h (m - k) t) = held t - replicate_mset (unat k) h"
  using assms by (intro multiset_eqI) (auto simp: count_held table_simps or_zero_def unat_sub word_le_nat_alt)

lemma tbl_all_ok [simp]: "tbl_all P t \<Longrightarrow> tbl_ok t"
  by (simp add: tbl_all_def)

lemma acl_available_zero: "acl_available c = 0 \<longleftrightarrow> unat (ac_capacity c) \<le> unat (ac_total c)"
  by (metis acl_available_def diff_is_0_eq unat_eq_zero unat_sat_sub)

lemma acl_claim_sim:
  assumes ok: "acl_ok c" and room: "acl_available c \<noteq> 0"
  shows "acl_ok (snd (acl_claim h c)) \<and> held (ac_outstanding (snd (acl_claim h c))) = add_mset h (held (ac_outstanding c))"
proof -
  let ?t = "ac_outstanding c" and ?n = "or_zero (tbl_get (ac_outstanding c) h)"
  have t: "tbl_ok ?t" and sz: "size (held ?t) = unat (ac_total c)" using ok by (auto simp: acl_ok_def)
  have "unat (ac_total c) < unat (ac_capacity c)" using room by (simp add: acl_available_zero)
  moreover have cap: "unat (ac_capacity c) < 2 ^ 16" using unsigned_less [of "ac_capacity c"] by simp
  ultimately have tot: "unat (ac_total c + 1) = unat (ac_total c) + 1" and lt: "unat (ac_total c) < 65535"
    by (auto simp: unat_word_ariths)
  have "count (held ?t) h \<le> size (held ?t)" by (simp add: count_le_size)
  then have n: "unat (?n + 1) = unat ?n + 1"
    using lt by (simp add: count_held [OF t] sz unat_word_ariths)
  have "held (tbl_put h (?n + 1) ?t) = add_mset h (held ?t)"
    using held_put [OF t, of h "?n + 1"] by (simp add: n)
  moreover have "?n + 1 \<noteq> 0" using n by (metis add_is_0 one_neq_zero unsigned_0)
  ultimately show ?thesis using ok room tot sz
    by (auto simp: acl_claim_def acl_ok_def word_gt_0 intro: table_intros)
qed

lemma acl_complete_sim:
  assumes ok: "acl_ok c" and r: "acl_complete h n c = (k, c')"
  shows "acl_ok c' \<and> ac_capacity c' = ac_capacity c \<and> unat k = min (unat n) (count (held (ac_outstanding c)) h)
    \<and> held (ac_outstanding c') = held (ac_outstanding c) - replicate_mset (unat n) h"
proof (cases "tbl_get (ac_outstanding c) h")
  case None
  have t: "tbl_ok (ac_outstanding c)" using ok by (auto simp: acl_ok_def)
  have z: "count (held (ac_outstanding c)) h = 0" by (simp add: count_held [OF t] None or_zero_def)
  moreover have "held (ac_outstanding c) - replicate_mset (unat n) h = held (ac_outstanding c)"
    by (rule multiset_eqI) (use z in \<open>auto simp del: count_eq_zero_iff\<close>)
  ultimately show ?thesis using ok r None by (auto simp: acl_complete_def)
next
  case (Some m)
  have t: "tbl_ok (ac_outstanding c)" and sz: "size (held (ac_outstanding c)) = unat (ac_total c)"
    using ok by (auto simp: acl_ok_def)
  have cnt: "count (held (ac_outstanding c)) h = unat m" by (simp add: count_held [OF t] Some or_zero_def)
  let ?k = "min n m"
  have k: "unat ?k = min (unat n) (unat m)" by (auto simp: min_def word_le_nat_alt)
  have c': "k = ?k" "c' = c\<lparr>ac_outstanding := (if m - ?k = 0 then tbl_del h (ac_outstanding c) else tbl_put h (m - ?k) (ac_outstanding c)),
      ac_total := ac_total c - ?k\<rparr>"
    using r by (auto simp: acl_complete_def Some Let_def)
  have held': "held (ac_outstanding c') = held (ac_outstanding c) - replicate_mset (unat ?k) h"
    unfolding c' by (simp add: held_take [OF t Some] del: right_minus_eq)
  have "replicate_mset (unat ?k) h \<subseteq># held (ac_outstanding c)"
    by (simp add: count_le_replicate_mset_subset_eq [symmetric] cnt k)
  then have "size (held (ac_outstanding c')) = unat (ac_total c) - unat ?k"
    and le: "unat ?k \<le> unat (ac_total c)"
    using size_mset_mono by (fastforce simp: held' size_Diff_submset sz)+
  moreover have "unat (ac_total c') = unat (ac_total c) - unat ?k"
    using le by (simp add: c' unat_sub word_le_nat_alt)
  moreover have "tbl_all (\<lambda>_ n. 0 < n) (ac_outstanding c')"
    using ok by (auto simp: c' acl_ok_def word_gt_0 intro!: table_intros)
  moreover have "held (ac_outstanding c) - replicate_mset (unat ?k) h = held (ac_outstanding c) - replicate_mset (unat n) h"
    by (rule multiset_eqI) (auto simp: k cnt)
  moreover have "ac_capacity c' = ac_capacity c" by (simp add: c'(2))
  moreover have "unat k = min (unat n) (unat m)" by (simp add: c'(1) k)
  ultimately show ?thesis by (simp add: acl_ok_def held' cnt)
qed

lemma acl_link_down_sim:
  assumes ok: "acl_ok c" and r: "acl_link_down h c = (k, c')"
  shows "acl_ok c' \<and> ac_capacity c' = ac_capacity c \<and> unat k = count (held (ac_outstanding c)) h
    \<and> held (ac_outstanding c') = filter_mset (\<lambda>x. x \<noteq> h) (held (ac_outstanding c))"
proof -
  have t: "tbl_ok (ac_outstanding c)" and sz: "size (held (ac_outstanding c)) = unat (ac_total c)"
    using ok by (auto simp: acl_ok_def)
  have k: "unat k = count (held (ac_outstanding c)) h"
    and c': "c' = c\<lparr>ac_outstanding := tbl_del h (ac_outstanding c), ac_total := ac_total c - k\<rparr>"
    using r by (auto simp: acl_link_down_def Let_def count_held [OF t])
  have "size (held (ac_outstanding c)) = count (held (ac_outstanding c)) h + size (filter_mset (\<lambda>x. x \<noteq> h) (held (ac_outstanding c)))"
    by (metis filter_eq_replicate_mset multiset_partition size_replicate_mset size_union)
  then have "unat (ac_total c - k) = size (filter_mset (\<lambda>x. x \<noteq> h) (held (ac_outstanding c)))"
    by (simp add: unat_sub word_le_nat_alt k sz)
  then show ?thesis using ok
    by (auto simp: k c' acl_ok_def held_del [OF t] intro: table_intros)
qed

interpretation acl: simulation acl_step "\<lambda>s. acl_ok (fst s)" acl_view acl_spec
proof
  fix s :: "acl_credits \<times> nat list" and call
  assume ok: "acl_ok (fst s)"
  obtain c outs where s: "s = (c, outs)" by (cases s)
  have sz: "size (held (ac_outstanding c)) = unat (ac_total c)" using ok by (simp add: s acl_ok_def)
  have "acl_ok (fst (acl_step call s)) \<and> acl_view (acl_step call s) = acl_spec call (acl_view s)"
  proof (cases call)
    case (SetCapacity n)
    have "unat (max n 1) = max (unat n) 1" by (auto simp: max_def word_le_nat_alt)
    then show ?thesis using ok by (simp add: SetCapacity s acl_set_capacity_def acl_ok_def acl_view_def)
  next
    case (Claim h)
    show ?thesis
    proof (cases "acl_available c = 0")
      case True
      then show ?thesis using ok by (simp add: Claim s acl_claim_def acl_view_def sz acl_available_zero)
    next
      case False
      have "fst (acl_claim h c) = True" "ac_capacity (snd (acl_claim h c)) = ac_capacity c"
        using False by (simp_all add: acl_claim_def)
      then show ?thesis using acl_claim_sim [of c h] ok False
        by (auto simp: Claim s acl_view_def sz acl_available_zero split_beta)
    qed
  next
    case (Completed h n)
    obtain k c' where "acl_complete h n c = (k, c')" by fastforce
    then show ?thesis using acl_complete_sim ok by (fastforce simp: Completed s acl_view_def)
  next
    case (LinkDown h)
    obtain k c' where "acl_link_down h c = (k, c')" by fastforce
    then show ?thesis using acl_link_down_sim ok by (fastforce simp: LinkDown s acl_view_def)
  qed
  then show "acl_ok (fst (acl_step call s))" "acl_view (acl_step call s) = acl_spec call (acl_view s)"
    by blast+
qed

lemma acl_ok_new [simp]: "acl_ok (acl_credits_new n)"
  by (simp add: acl_ok_def acl_credits_new_def)

text \<open>
  The data-buffer pool implements a multiset. Through any sequence of resizings, claims,
  completions (over-reported ones too) and links going down, the table and the counter of the
  code stand for the fragments the controller holds, and every answer a caller gets is the one
  the multiset gives: a claim succeeds exactly when there is room, a completion returns no more
  than the handle had outstanding, and a lost link returns all it had.
\<close>

theorem acl_pool_refines:
  "acl_view (fold acl_step calls (acl_credits_new n, [])) = fold acl_spec calls ((max (unat n) 1, {#}), [])"
proof -
  have "unat (max n 1) = max (unat n) 1" by (auto simp: max_def word_le_nat_alt)
  then show ?thesis by (simp add: acl.run_sim) (simp add: acl_view_def acl_credits_new_def)
qed

text \<open>The largest capacity the pool was ever given, \<open>m\<close> the one it has.\<close>

fun peak :: "nat \<Rightarrow> acl_call list \<Rightarrow> nat" where
  "peak m [] = m"
| "peak m (SetCapacity n # calls) = peak (max m (max (unat n) 1)) calls"
| "peak m (_ # calls) = peak m calls"

lemma spec_bound:
  "\<lbrakk>cap \<le> m; size M \<le> m\<rbrakk> \<Longrightarrow> size (snd (fst (fold acl_spec calls ((cap, M), outs)))) \<le> peak m calls"
proof (induction calls arbitrary: m cap M outs)
  case (Cons call calls)
  have "size (M - replicate_mset n h) \<le> m" "size (filter_mset (\<lambda>x. x \<noteq> h) M) \<le> m" for n h
    using Cons.prems(2) by (meson diff_subset_eq_self multiset_filter_subset le_trans size_mset_mono)+
  then show ?case using Cons by (cases call) (auto simp: le_max_iff_disj)
qed simp

text \<open>
  The counter never wraps: it is the number of fragments the table accounts for after every
  sequence of calls, and never exceeds the largest capacity the pool was given.
\<close>

theorem acl_never_overruns:
  assumes "fold acl_step calls (acl_credits_new n, []) = (c, outs)"
  shows "unat (ac_total c) = size (held (ac_outstanding c)) \<and> unat (ac_total c) \<le> peak (max (unat n) 1) calls"
proof -
  have "acl_ok c" using acl.run_ok [of "(acl_credits_new n, [])" calls] assms by simp
  moreover have "acl_view (c, outs) = fold acl_spec calls (acl_view (acl_credits_new n, []))"
    using acl.run_sim [of "(acl_credits_new n, [])" calls] assms by simp
  moreover have "acl_view (acl_credits_new n, []) = ((max (unat n) 1, {#}), [])"
    by (auto simp: acl_view_def acl_credits_new_def max_def word_le_nat_alt)
  moreover have "size (snd (fst (fold acl_spec calls ((max (unat n) 1, {#}), [])))) \<le> peak (max (unat n) 1) calls"
    by (rule spec_bound) simp_all
  ultimately have "size (snd (fst (acl_view (c, outs)))) \<le> peak (max (unat n) 1) calls" by simp
  then show ?thesis using \<open>acl_ok c\<close> by (simp add: acl_ok_def acl_view_def)
qed

section \<open>The command window keeps order\<close>

datatype command_call = Submit command | Answered opcode u8 | AbandonOldest

text \<open>A call, with what was submitted so far and what was sent, in order.\<close>

fun cc_step :: "command_call \<Rightarrow> command_credits \<times> command list \<times> command list \<Rightarrow> command_credits \<times> command list \<times> command list" where
  "cc_step (Submit cmd) (c, submitted, sent) =
     (let (now, c') = submit cmd c in (c', submitted @ [cmd], sent @ (case now of None \<Rightarrow> [] | Some x \<Rightarrow> [x])))"
| "cc_step (Answered op n) (c, submitted, sent) = (let (cmds, c') = answered op n c in (c', submitted, sent @ cmds))"
| "cc_step AbandonOldest (c, submitted, sent) =
     (let ((_, cmds), c') = abandon_oldest c in (c', submitted, sent @ cmds))"

fun cc_ok :: "command_credits \<times> command list \<times> command list \<Rightarrow> bool" where
  "cc_ok (c, submitted, sent) \<longleftrightarrow>
     sent @ cc_waiting c = submitted \<and> (cc_available c > 0 \<longrightarrow> cc_waiting c = [])
     \<and> mset (cc_in_flight c) \<subseteq># mset (map command_opcode sent)"

text \<open>\<open>release\<close> sends as many of the waiting commands as there are credits.\<close>

lemma release_loop_eq:
  "release_loop available waiting in_flight out =
     (out @ take (unat available) waiting,
      \<lparr>cc_available = available - of_nat (length (take (unat available) waiting)),
       cc_waiting = drop (unat available) waiting,
       cc_in_flight = in_flight @ map command_opcode (take (unat available) waiting)\<rparr>)"
proof (induction available waiting in_flight out rule: release_loop.induct)
  case (2 available cmd waiting in_flight out)
  show ?case
  proof (cases "available > 0")
    case True
    then have "unat available = Suc (unat (available - 1))"
      by (metis Suc_pred' unat_eq_zero unat_gt_0 unat_minus_one word_gt_0)
    with 2 True show ?thesis by (simp add: algebra_simps)
  next
    case False
    then have "available = 0" by (simp add: word_gt_0)
    then show ?thesis by simp
  qed
qed simp

lemma release_eq:
  "release c = (take (unat (cc_available c)) (cc_waiting c),
     \<lparr>cc_available = cc_available c - of_nat (length (take (unat (cc_available c)) (cc_waiting c))),
      cc_waiting = drop (unat (cc_available c)) (cc_waiting c),
      cc_in_flight = cc_in_flight c @ map command_opcode (take (unat (cc_available c)) (cc_waiting c))\<rparr>)"
  by (simp add: release_def release_loop_eq)

text \<open>After a release, credits are left only when nothing waits.\<close>

lemma release_exhausts: "0 < available - of_nat (min (length xs) (unat available)) \<Longrightarrow> length xs \<le> unat (available :: u8)"
  by (rule ccontr) (simp add: min_def split: if_splits)

lemma mset_remove1_le: "mset xs \<subseteq># A \<Longrightarrow> mset (remove1 x xs) \<subseteq># A"
  by (metis diff_subset_eq_self mset_remove1 subset_mset.order_trans)

interpretation cc: machine cc_step cc_ok
proof
  fix s :: "command_credits \<times> command list \<times> command list" and call
  assume ok: "cc_ok s"
  obtain c submitted sent where s: "s = (c, submitted, sent)" by (cases s)
  show "cc_ok (cc_step call s)"
  proof (cases call)
    case (Submit cmd)
    then show ?thesis using ok
      by (auto simp: s submit_def word_gt_0)
  next
    case (Answered op n)
    have "mset (remove1 op (cc_in_flight c)) \<subseteq># mset (map command_opcode sent)"
      using ok by (auto simp: s simp del: mset_remove1 intro!: mset_remove1_le)
    then show ?thesis using ok
      by (auto simp: s Answered answered_def release_eq simp del: mset_remove1 dest: release_exhausts)
  next
    case AbandonOldest
    show ?thesis
    proof (cases "cc_in_flight c")
      case Nil
      then show ?thesis using ok by (simp add: s AbandonOldest abandon_oldest_def)
    next
      case (Cons op rest)
      have "mset rest \<subseteq># mset (map command_opcode sent)"
        using ok Cons mset_remove1_le [of "op # rest" _ op] by (auto simp: s)
      then show ?thesis using ok
        by (auto simp: s AbandonOldest Cons abandon_oldest_def release_eq Let_def dest: release_exhausts)
    qed
  qed
qed

text \<open>
  No command is lost, duplicated or overtaken: what was sent followed by what waits is what was
  submitted, in order; nothing waits while a credit is free; and what is recorded as in flight
  was sent.
\<close>

theorem commands_in_order:
  assumes "fold cc_step calls (cc_new, [], []) = (c, submitted, sent)"
  shows "sent @ cc_waiting c = submitted \<and> (cc_available c > 0 \<longrightarrow> cc_waiting c = [])
    \<and> mset (cc_in_flight c) \<subseteq># mset (map command_opcode sent)"
  using cc.run_ok [of "(cc_new, [], [])" calls] assms by (simp add: cc_new_def)

text \<open>What a run of submissions sends.\<close>

fun submit_all :: "command list \<Rightarrow> command_credits \<Rightarrow> command list \<times> command_credits" where
  "submit_all [] c = ([], c)"
| "submit_all (cmd # cmds) c =
     (let (now, c') = submit cmd c; (rest, c'') = submit_all cmds c' in
      ((case now of None \<Rightarrow> [] | Some x \<Rightarrow> [x]) @ rest, c''))"

lemma submit_all_eq:
  "fst (submit_all cmds c) = take (unat (cc_available c)) cmds"
proof (induction cmds arbitrary: c)
  case (Cons cmd cmds)
  show ?case
  proof (cases "cc_available c = 0")
    case False
    then have "unat (cc_available c) = Suc (unat (cc_available c - 1))"
      by (metis Suc_pred' unat_eq_zero unat_gt_0 unat_minus_one word_gt_0)
    with False show ?thesis using Cons by (simp add: submit_def split_beta)
  qed (use Cons in \<open>simp add: submit_def split_beta\<close>)
qed simp

text \<open>
  A controller's answer grants a window and not an increment: the commands released by an
  answer of \<open>n\<close>, followed by those sent at once when submitted after it, are the first \<open>n\<close> of
  the waiting and then the submitted ones, whatever was left of the window before.
\<close>

theorem window_is_the_answer:
  assumes "answered op n c = (now, c')" "submit_all cmds c' = (later, c'')"
  shows "now @ later = take (unat n) (cc_waiting c @ cmds)"
proof -
  have now: "now = take (unat n) (cc_waiting c)"
    and av: "cc_available c' = n - of_nat (length now)"
    using assms(1) by (auto simp: answered_def release_eq)
  have "length now \<le> unat n" by (simp add: now)
  then have "unat (cc_available c') = unat n - length now"
    by (metis av le_unat_uoi unat_sub word_le_nat_alt)
  moreover have "later = take (unat (cc_available c')) cmds"
    using submit_all_eq [of cmds c'] assms(2) by simp
  ultimately show ?thesis by (auto simp: now min_def)
qed

text \<open>Giving up on commands one by one: the window drains without the controller.\<close>

lemma abandon_sends:
  assumes "cc_in_flight c \<noteq> []" "cc_waiting c \<noteq> []" "abandon_oldest c = ((op, cmds), c')"
  shows "cmds \<noteq> [] \<and> cc_in_flight c' \<noteq> [] \<and> length (cc_waiting c') < length (cc_waiting c)"
proof -
  have "unat (max (cc_available c) 1) \<noteq> 0" by (auto simp: unat_eq_zero max_def)
  then show ?thesis using assms
    by (cases "cc_in_flight c") (auto simp: abandon_oldest_def release_eq Let_def)
qed

definition abandon :: "command_credits \<Rightarrow> command_credits" where
  "abandon c = snd (abandon_oldest c)"

lemma silence_drains: "\<lbrakk>cc_in_flight c \<noteq> []; length (cc_waiting c) \<le> n\<rbrakk> \<Longrightarrow> \<exists>k\<le>n. cc_waiting ((abandon ^^ k) c) = []"
proof (induction n arbitrary: c)
  case (Suc n)
  show ?case
  proof (cases "cc_waiting c = []")
    case True
    then show ?thesis by (intro exI [of _ 0]) simp
  next
    case False
    obtain op cmds c' where r: "abandon_oldest c = ((op, cmds), c')" by (metis surj_pair)
    then have "cc_in_flight c' \<noteq> []" "length (cc_waiting c') \<le> n"
      using abandon_sends [OF Suc.prems(1) False r] Suc.prems by auto
    then obtain k where "k \<le> n" "cc_waiting ((abandon ^^ k) c') = []" using Suc.IH by blast
    then show ?thesis using r by (intro exI [of _ "Suc k"]) (simp add: funpow_Suc_right abandon_def [of c] del: funpow.simps)
  qed
qed (intro exI [of _ 0], simp)

text \<open>
  A controller that answers its last command with a window of zero, and says nothing after, is
  given nothing: there is no command in flight to give up on.
\<close>

definition stuck :: "command_credits \<Rightarrow> bool" where
  "stuck c \<longleftrightarrow> cc_available c = 0 \<and> cc_in_flight c = []"

text \<open>
  A controller that answers the only command in flight with a window of zero ends the host's
  ability to make progress on its own: everything submitted after that waits, and giving up on
  the oldest command does nothing, since none is in flight.
\<close>

theorem zero_window_stalls:
  "fst (answered (command_opcode cmd) 0 (snd (submit cmd cc_new))) = [] \<and>
   (let c = snd (answered (command_opcode cmd) 0 (snd (submit cmd cc_new))) in
    fst (submit_all cmds c) = [] \<and> abandon_oldest (snd (submit_all cmds c)) = ((None, []), snd (submit_all cmds c)))"
proof -
  have "stuck c \<Longrightarrow> stuck (snd (submit_all cmds c))" for c
    by (induction cmds arbitrary: c) (auto simp: stuck_def submit_def)
  moreover have "stuck (snd (answered (command_opcode cmd) 0 (snd (submit cmd cc_new))))"
    by (simp add: stuck_def submit_def cc_new_def answered_def release_eq)
  moreover have "fst (answered (command_opcode cmd) 0 (snd (submit cmd cc_new))) = []"
    by (simp add: submit_def cc_new_def answered_def release_eq)
  ultimately show ?thesis by (auto simp: stuck_def submit_all_eq abandon_oldest_def Let_def)
qed


lemma acl_never_overruns_witness:
  "\<exists>c. fold acl_step [Claim 1, Claim 1, Claim 2, Completed 1 9] (acl_credits_new 2, []) = (c, [1, 1, 0, 2])
     \<and> unat (ac_total c) = size (held (ac_outstanding c))
     \<and> unat (ac_total c) \<le> peak (max (unat (2 :: u16)) 1) [Claim 1, Claim 1, Claim 2, Completed 1 9]"
proof -
  have "fold acl_step [Claim 1, Claim 1, Claim 2, Completed 1 9] (acl_credits_new 2, []) =
      (\<lparr>ac_capacity = 2, ac_outstanding = [], ac_total = 0\<rparr>, [1, 1, 0, 2])"
    by code_simp
  then show ?thesis using acl_never_overruns by blast
qed

lemma commands_in_order_witness:
  "\<exists>c. fold cc_step [Submit ReadBdAddr, Submit ReadBufferSize, Answered (command_opcode ReadBdAddr) 1] (cc_new, [], [])
       = (c, [ReadBdAddr, ReadBufferSize], [ReadBdAddr, ReadBufferSize])
     \<and> [ReadBdAddr, ReadBufferSize] @ cc_waiting c = [ReadBdAddr, ReadBufferSize]"
proof -
  have "fold cc_step [Submit ReadBdAddr, Submit ReadBufferSize, Answered (command_opcode ReadBdAddr) 1] (cc_new, [], [])
    = (\<lparr>cc_available = 0, cc_waiting = [], cc_in_flight = [command_opcode ReadBufferSize]\<rparr>,
       [ReadBdAddr, ReadBufferSize], [ReadBdAddr, ReadBufferSize])"
    by code_simp
  then show ?thesis using commands_in_order by blast
qed

lemma window_is_the_answer_witness:
  "\<exists>now c' later c''. answered (command_opcode Reset) 1 (cc_new\<lparr>cc_waiting := [ReadBdAddr]\<rparr>) = (now, c')
     \<and> submit_all [Reset] c' = (later, c'') \<and> now @ later = take (unat (1 :: u8)) ([ReadBdAddr] @ [Reset])"
proof -
  obtain now c' where 1: "answered (command_opcode Reset) 1 (cc_new\<lparr>cc_waiting := [ReadBdAddr]\<rparr>) = (now, c')"
    by fastforce
  obtain later c'' where 2: "submit_all [Reset] c' = (later, c'')" by fastforce
  show ?thesis using 1 2 window_is_the_answer [OF 1 2] by auto
qed

end
