(* ===== verification/Rtp.thy ===== *)
theory Rtp
  imports Prelude
begin

text \<open>
  \<^verbatim>\<open>crates/substrate-rtp\<close>: the RTP header parser (\<^verbatim>\<open>packet.rs\<close>) and the reorder buffer
  (\<^verbatim>\<open>reorder.rs\<close>) behind every live stream. The buffer's \<open>BTreeMap\<close> is a table; the code only
  asks it for single keys and for a minimum that is unique, so its order never shows.
\<close>

section \<open>Packets\<close>

datatype rtp_error = TooShort | BadVersion u8 | TruncatedRtp

record rtp_header =
  rh_marker :: bool
  rh_payload_type :: u8
  rh_sequence :: u16
  rh_timestamp :: u32
  rh_ssrc :: u32
  rh_csrc_count :: u8
  rh_payload_offset :: nat

record rtp_packet =
  rp_header :: rtp_header
  rp_payload :: bytes

definition rtp_extension_end :: "bytes \<Rightarrow> nat \<Rightarrow> rtp_error + nat" where
  "rtp_extension_end buf offset =
     (if length buf < offset + 4 then Inl TruncatedRtp
      else
        let ext_words = unat (from_be16 (buf ! (offset + 2)) (buf ! (offset + 3)));
            offset = offset + (4 + ext_words * 4)
        in if length buf < offset then Inl TruncatedRtp else Inr offset)"

definition rtp_payload_end :: "bytes \<Rightarrow> bool \<Rightarrow> nat \<Rightarrow> rtp_error + nat" where
  "rtp_payload_end buf padding offset =
     (if padding then
        let pad = unat (last buf) in
        if pad = 0 \<or> pad > length buf - offset then Inl TruncatedRtp else Inr (length buf - pad)
      else Inr (length buf))"

definition rtp_parse :: "bytes \<Rightarrow> rtp_error + rtp_packet" where
  "rtp_parse buf =
     (if length buf < 12 then Inl TooShort
      else
        let b0 = buf ! 0; version = drop_bit 6 b0 in
        if version \<noteq> 2 then Inl (BadVersion version)
        else
          let padding = b0 AND 0x20 \<noteq> 0;
              extension = b0 AND 0x10 \<noteq> 0;
              csrc_count = b0 AND 0x0F;
              b1 = buf ! 1;
              offset = 12 + unat csrc_count * 4
          in if length buf < offset then Inl TruncatedRtp
             else
               bindE (if extension then rtp_extension_end buf offset else Inr offset) (\<lambda>offset.
               bindE (rtp_payload_end buf padding offset) (\<lambda>end.
                 Inr \<lparr>rp_header =
                   \<lparr>rh_marker = b1 AND 0x80 \<noteq> 0,
                    rh_payload_type = b1 AND 0x7F,
                    rh_sequence = from_be16 (buf ! 2) (buf ! 3),
                    rh_timestamp = from_be32 (buf ! 4) (buf ! 5) (buf ! 6) (buf ! 7),
                    rh_ssrc = from_be32 (buf ! 8) (buf ! 9) (buf ! 10) (buf ! 11),
                    rh_csrc_count = csrc_count,
                    rh_payload_offset = offset\<rparr>,
                  rp_payload = take (end - offset) (drop offset buf)\<rparr>)))"

section \<open>The reorder buffer\<close>

record reorder =
  rb_max_depth :: nat
  rb_next :: "u16 option"
  rb_started :: bool
  rb_buf :: "(u16, rtp_packet) tbl"
  rb_skipped :: u64

datatype refusal = Late | Duplicate

definition reorder_new :: "nat \<Rightarrow> reorder" where
  "reorder_new max_depth =
     \<lparr>rb_max_depth = max max_depth 1, rb_next = None, rb_started = False, rb_buf = [], rb_skipped = 0\<rparr>"

definition serial_lt :: "u16 \<Rightarrow> u16 \<Rightarrow> bool" where
  "serial_lt a b \<longleftrightarrow> a \<noteq> b \<and> b - a < 0x8000"

text \<open>The key that minimises \<open>seq.wrapping_sub(next)\<close>, the first of them.\<close>

fun min_by_distance :: "u16 \<Rightarrow> (u16, 'v) tbl \<Rightarrow> u16 option" where
  "min_by_distance next [] = None"
| "min_by_distance next ((seq, _) # t) =
     (case min_by_distance next t of
        None \<Rightarrow> Some seq
      | Some best \<Rightarrow> if best - next < seq - next then Some best else Some seq)"

lemma min_by_distance_mem: "min_by_distance next t = Some e \<Longrightarrow> tbl_get t e \<noteq> None"
  by (induction t arbitrary: e rule: min_by_distance.induct)
    (auto split: option.splits if_splits)

lemma min_by_distance_None: "min_by_distance next t = None \<longleftrightarrow> t = []"
  by (cases t rule: list.exhaust) (auto split: option.split)

text \<open>One turn of the loop moves \<open>next\<close> to a key of the table, where the loop ends.\<close>

function enforce_depth :: "reorder \<Rightarrow> reorder" where
  "enforce_depth rb =
     (if length (rb_buf rb) > rb_max_depth rb then
        (case rb_next rb of
           None \<Rightarrow> rb
         | Some next \<Rightarrow>
             if tbl_get (rb_buf rb) next \<noteq> None then rb
             else
               (case min_by_distance next (rb_buf rb) of
                  None \<Rightarrow> rb
                | Some earliest \<Rightarrow>
                    enforce_depth (rb\<lparr>
                      rb_skipped := sat_add (rb_skipped rb) (ucast (earliest - next)),
                      rb_next := Some earliest,
                      rb_buf := filter (\<lambda>(seq, _). \<not> serial_lt seq earliest) (rb_buf rb)\<rparr>)))
      else rb)"
  by pat_completeness auto

definition waits_for_hole :: "reorder \<Rightarrow> nat" where
  "waits_for_hole rb =
     (case rb_next rb of None \<Rightarrow> 0 | Some next \<Rightarrow> if tbl_get (rb_buf rb) next = None then 1 else 0)"

lemma get_filter_serial:
  "tbl_get t e \<noteq> None \<Longrightarrow> tbl_get (filter (\<lambda>(seq, _). \<not> serial_lt seq e) t) e \<noteq> None"
  by (induction t) (auto simp: serial_lt_def split: if_splits)

termination enforce_depth
proof (relation "measure waits_for_hole")
  fix rb :: reorder and due earliest
  assume *: "rb_next rb = Some due" "\<not> tbl_get (rb_buf rb) due \<noteq> None"
    "min_by_distance due (rb_buf rb) = Some earliest"
  have "tbl_get (filter (\<lambda>(seq, _). \<not> serial_lt seq earliest) (rb_buf rb)) earliest \<noteq> None"
    using get_filter_serial [OF min_by_distance_mem [OF *(3)]] .
  then show "(rb\<lparr>rb_skipped := sat_add (rb_skipped rb) (ucast (earliest - due)), rb_next := Some earliest,
      rb_buf := filter (\<lambda>(seq, _). \<not> serial_lt seq earliest) (rb_buf rb)\<rparr>, rb) \<in> measure waits_for_hole"
    using * by (auto simp: waits_for_hole_def)
qed simp

declare enforce_depth.simps [simp del]

definition push :: "rtp_packet \<Rightarrow> (reorder, refusal, unit) meth" where
  "push packet rb =
     (let seq = rh_sequence (rp_header packet);
          insert = (\<lambda>rb.
            if tbl_get (rb_buf rb) seq \<noteq> None then (Inl Duplicate, rb)
            else (Inr (), enforce_depth (rb\<lparr>rb_buf := tbl_put seq packet (rb_buf rb)\<rparr>)))
      in
        case rb_next rb of
          None \<Rightarrow> insert (rb\<lparr>rb_next := Some seq\<rparr>)
        | Some next \<Rightarrow>
            if serial_lt seq next then
              if rb_started rb then (Inl Late, rb) else insert (rb\<lparr>rb_next := Some seq\<rparr>)
            else insert rb)"

definition pop :: "reorder \<Rightarrow> rtp_packet option \<times> reorder" where
  "pop rb =
     (case rb_next rb of
        None \<Rightarrow> (None, rb)
      | Some next \<Rightarrow>
          (case tbl_get (rb_buf rb) next of
             None \<Rightarrow> (None, rb)
           | Some packet \<Rightarrow>
               (Some packet, rb\<lparr>rb_buf := tbl_del next (rb_buf rb), rb_next := Some (next + 1), rb_started := True\<rparr>)))"


section \<open>Every sequence number is accounted for\<close>

abbreviation seq_no :: "rtp_packet \<Rightarrow> u16" where
  "seq_no p \<equiv> rh_sequence (rp_header p)"

datatype reorder_call = Push rtp_packet | Pop

fun reorder_step :: "reorder_call \<Rightarrow> reorder \<times> rtp_packet list \<Rightarrow> reorder \<times> rtp_packet list" where
  "reorder_step (Push p) (rb, outs) = (snd (push p rb), outs)"
| "reorder_step Pop (rb, outs) =
     (let (p, rb') = pop rb in (rb', outs @ (case p of None \<Rightarrow> [] | Some p \<Rightarrow> [p])))"

lemma enforce_depth_cases:
  obtains "enforce_depth rb = rb"
  | due e where "rb_next rb = Some due" "tbl_get (rb_buf rb) due = None" "tbl_get (rb_buf rb) e \<noteq> None"
      "enforce_depth rb = rb\<lparr>rb_skipped := sat_add (rb_skipped rb) (ucast (e - due)), rb_next := Some e,
         rb_buf := filter (\<lambda>(seq, _). \<not> serial_lt seq e) (rb_buf rb)\<rparr>"
proof (cases "enforce_depth rb = rb")
  case False
  then obtain due e where *: "rb_next rb = Some due" "tbl_get (rb_buf rb) due = None"
      "min_by_distance due (rb_buf rb) = Some e"
      "enforce_depth rb = enforce_depth (rb\<lparr>rb_skipped := sat_add (rb_skipped rb) (ucast (e - due)), rb_next := Some e,
         rb_buf := filter (\<lambda>(seq, _). \<not> serial_lt seq e) (rb_buf rb)\<rparr>)"
    using False enforce_depth.simps [of rb] by (auto split: if_splits option.splits)
  have "enforce_depth (rb\<lparr>rb_skipped := x, rb_next := Some e,
         rb_buf := filter (\<lambda>(seq, _). \<not> serial_lt seq e) (rb_buf rb)\<rparr>) = rb\<lparr>rb_skipped := x, rb_next := Some e,
         rb_buf := filter (\<lambda>(seq, _). \<not> serial_lt seq e) (rb_buf rb)\<rparr>" for x
    using get_filter_serial [OF min_by_distance_mem [OF *(3)]]
    by (subst enforce_depth.simps) auto
  with * min_by_distance_mem [OF *(3)] show ?thesis using that(2) by metis
qed

lemma unat_ucast64 [simp]: "unat (ucast (w :: u16) :: u64) = unat w"
proof -
  have "unat w < 2 ^ 16" using unsigned_less [of w] by simp
  then show ?thesis by (simp add: unsigned_ucast_eq take_bit_nat_eq_self)
qed

lemma max_word64: "(k :: u64) = - 1 \<longleftrightarrow> unat k = 2 ^ 64 - 1"
proof
  assume "unat k = 2 ^ 64 - 1"
  then have "unat k = unat (- 1 :: u64)" by (simp add: unsigned_minus_1_eq_mask mask_eq_exp_minus_1)
  then show "k = - 1" by (metis unsigned_word_eqI)
qed (simp add: unsigned_minus_1_eq_mask mask_eq_exp_minus_1)

text \<open>The packets handed out sit at positions \<open>ps\<close> of the stream, \<open>P\<close> the one due next.\<close>

definition delivered :: "u16 \<Rightarrow> nat list \<Rightarrow> nat \<Rightarrow> reorder \<times> rtp_packet list \<Rightarrow> bool" where
  "delivered base ps P s \<longleftrightarrow>
     map seq_no (snd s) = map (\<lambda>p. base + of_nat p) ps \<and> sorted_wrt (<) ps \<and> (\<forall>p\<in>set ps. p < P)
     \<and> rb_next (fst s) = Some (base + of_nat P)
     \<and> (rb_skipped (fst s) \<noteq> - 1 \<longrightarrow> P = length ps + unat (rb_skipped (fst s)))"

definition accounted :: "reorder \<times> rtp_packet list \<Rightarrow> bool" where
  "accounted s \<longleftrightarrow>
     (\<forall>q p. tbl_get (rb_buf (fst s)) q = Some p \<longrightarrow> seq_no p = q) \<and> tbl_ok (rb_buf (fst s)) \<and>
     (if rb_started (fst s) then \<exists>base ps P. delivered base ps P s
      else snd s = [] \<and> rb_skipped (fst s) = 0 \<and>
        (case rb_next (fst s) of None \<Rightarrow> rb_buf (fst s) = [] | Some due \<Rightarrow> tbl_get (rb_buf (fst s)) due \<noteq> None))"

lemma delivered_skip:
  assumes "delivered base ps P (rb, outs)" "rb_next rb = Some due"
  shows "delivered base ps (P + unat (e - due)) (rb\<lparr>rb_skipped := sat_add (rb_skipped rb) (ucast (e - due)), rb_next := Some e, rb_buf := t\<rparr>, outs)"
proof -
  let ?k = "sat_add (rb_skipped rb) (ucast (e - due))"
  have k: "unat ?k = min (unat (rb_skipped rb) + unat (e - due)) (2 ^ 64 - 1)"
    by (simp add: unat_sat_add)
  have "rb_skipped rb \<noteq> - 1 \<and> unat ?k = unat (rb_skipped rb) + unat (e - due)" if "?k \<noteq> - 1"
    using that k unfolding max_word64 by auto
  moreover have "base + of_nat (P + unat (e - due)) = e" using assms by (simp add: delivered_def)
  ultimately show ?thesis using assms(1) by (auto simp: delivered_def)
qed

lemma accounted_enforce:
  assumes "accounted (rb, outs)" "rb_started rb \<or> (\<exists>due. rb_next rb = Some due \<and> tbl_get (rb_buf rb) due \<noteq> None)"
  shows "accounted (enforce_depth rb, outs)"
proof (cases rb rule: enforce_depth_cases)
  case (2 due e)
  then have st: "rb_started rb" using assms(2) by auto
  then obtain base ps P where "delivered base ps P (rb, outs)" using assms(1) by (auto simp: accounted_def)
  from delivered_skip [OF this 2(1)] have
    "\<exists>base ps P. delivered base ps P (enforce_depth rb, outs)" unfolding 2(4) by blast
  then show ?thesis using assms(1) st
    by (auto simp: accounted_def 2(4) tbl_get_filter table_simps split: option.splits if_splits)
qed (use assms in simp)

lemma accounted_insert:
  assumes "accounted (rb, outs)" "rb_started rb \<or> (\<exists>due. rb_next rb = Some due \<and> tbl_get (rb_buf rb) due \<noteq> None)"
  shows "accounted (rb\<lparr>rb_buf := tbl_put (seq_no p) p (rb_buf rb)\<rparr>, outs)"
  using assms by (auto simp: accounted_def delivered_def table_simps)

lemma accounted_push:
  assumes "accounted (rb, outs)"
  shows "accounted (snd (push p rb), outs)"
proof (cases "rb_started rb")
  case True
  have 1: "accounted (rb\<lparr>rb_buf := tbl_put (seq_no p) p (rb_buf rb)\<rparr>, outs)"
    using assms True by (auto intro: accounted_insert)
  obtain due where "rb_next rb = Some due" using assms True by (auto simp: accounted_def delivered_def)
  then show ?thesis using assms True accounted_enforce [OF 1]
    by (auto simp: push_def Let_def)
next
  case False
  let ?rb = "rb\<lparr>rb_next := Some (seq_no p), rb_buf := tbl_put (seq_no p) p (rb_buf rb)\<rparr>"
  have 1: "accounted (?rb, outs)"
    using assms False by (auto simp: accounted_def table_simps)
  have 2: "accounted (enforce_depth ?rb, outs)"
    by (rule accounted_enforce [OF 1]) (simp add: table_simps)
  have d: "tbl_get (rb_buf rb) due \<noteq> None" if "rb_next rb = Some due" for due
    using assms False that by (simp add: accounted_def del: map_of_eq_Some_iff)
  have 3: "accounted (rb\<lparr>rb_buf := tbl_put (seq_no p) p (rb_buf rb)\<rparr>, outs)" if "rb_next rb = Some due" for due
    using accounted_insert [OF assms] that d by blast
  have 4: "accounted (enforce_depth (rb\<lparr>rb_buf := tbl_put (seq_no p) p (rb_buf rb)\<rparr>), outs)" if "rb_next rb = Some due" for due
    by (rule accounted_enforce [OF 3 [OF that]]) (use d that in \<open>auto simp: table_simps\<close>)
  have 5: "accounted (rb\<lparr>rb_next := Some (seq_no p)\<rparr>, outs)" if "tbl_get (rb_buf rb) (seq_no p) \<noteq> None"
    using assms False that by (auto simp: accounted_def)
  show ?thesis using assms False 2 4 5
    by (auto simp: push_def Let_def split: option.split)
qed

lemma accounted_pop:
  assumes "accounted (rb, outs)" "pop rb = (out, rb')"
  shows "accounted (rb', outs @ (case out of None \<Rightarrow> [] | Some p \<Rightarrow> [p]))"
proof (cases out)
  case None
  then show ?thesis using assms by (auto simp: pop_def split: option.splits)
next
  case (Some p)
  then obtain due where due: "rb_next rb = Some due" "tbl_get (rb_buf rb) due = Some p"
    "rb' = rb\<lparr>rb_buf := tbl_del due (rb_buf rb), rb_next := Some (due + 1), rb_started := True\<rparr>"
    using assms(2) by (auto simp: pop_def split: option.splits)
  have p: "seq_no p = due" using assms(1) due(2) by (auto simp: accounted_def)
  have "\<exists>base ps P. delivered base ps P (rb', outs @ [p])"
  proof (cases "rb_started rb")
    case True
    then obtain base ps P where "delivered base ps P (rb, outs)" using assms(1) by (auto simp: accounted_def)
    then have "delivered base (ps @ [P]) (Suc P) (rb', outs @ [p])"
      using p due by (auto simp: delivered_def sorted_wrt_append less_Suc_eq)
    then show ?thesis by blast
  next
    case False
    then have "delivered due [0] 1 (rb', outs @ [p])"
      using p due assms(1) by (auto simp: delivered_def accounted_def)
    then show ?thesis by blast
  qed
  then show ?thesis using assms(1) due(3) Some by (auto simp: accounted_def table_simps)
qed

interpretation reorder: machine reorder_step accounted
proof
  fix s call assume "accounted s"
  then show "accounted (reorder_step call s)"
    by (cases s; cases call) (auto simp: accounted_push dest: accounted_pop split: prod.split)
qed

text \<open>
  The reorder buffer accounts for every sequence number. Through any pushes and pops, the
  packets handed out sit at strictly increasing positions of the stream, the packet due next
  comes after all of them, and, until the counter saturates, the positions passed are exactly the
  packets handed out and the ones counted as skipped: nothing is repeated, reordered or lost
  without being counted.
\<close>

theorem reorder_in_order:
  assumes "fold reorder_step calls (reorder_new depth, []) = (rb, outs)" "outs \<noteq> []"
  shows "\<exists>base ps P. map seq_no outs = map (\<lambda>p. base + of_nat p) ps \<and> sorted_wrt (<) ps \<and> (\<forall>p\<in>set ps. p < P)
     \<and> rb_next rb = Some (base + of_nat P) \<and> (rb_skipped rb \<noteq> - 1 \<longrightarrow> P = length ps + unat (rb_skipped rb))"
proof -
  have "accounted (reorder_new depth, [])" by (simp add: accounted_def reorder_new_def)
  then have "accounted (rb, outs)" using reorder.run_ok [of _ calls] assms(1) by fastforce
  then show ?thesis using assms(2) by (auto simp: accounted_def delivered_def split: if_splits)
qed


section \<open>Reordering within the depth is repaired\<close>

text \<open>
  Every caller takes packets out until there are none, after each one it puts in
  (\<^verbatim>\<open>proto-miracast/src/media.rs\<close>): \<open>feed\<close> does so for a list of arrivals.
\<close>

lemma length_tbl_del: "tbl_get t k \<noteq> None \<Longrightarrow> length (tbl_del k t) < length t"
  by (induction t) (auto simp: AList.delete_eq less_Suc_eq_le)

function drain :: "reorder \<Rightarrow> rtp_packet list \<times> reorder" where
  "drain rb =
     (case pop rb of
        (None, rb') \<Rightarrow> ([], rb')
      | (Some p, rb') \<Rightarrow> let (ps, rb'') = drain rb' in (p # ps, rb''))"
  by pat_completeness auto

termination drain
  by (relation "measure (\<lambda>rb. length (rb_buf rb))")
    (auto simp: pop_def length_tbl_del split: option.splits)

declare drain.simps [simp del]

fun feed :: "rtp_packet list \<Rightarrow> reorder \<Rightarrow> rtp_packet list \<times> reorder" where
  "feed [] rb = ([], rb)"
| "feed (p # ps) rb =
     (let (outs, rb') = drain (snd (push p rb)); (rest, rb'') = feed ps rb' in (outs @ rest, rb''))"

text \<open>The position of sequence number \<open>s\<close> in the stream, for a buffer that waits for position \<open>d\<close>.\<close>

definition ahead :: "u16 \<Rightarrow> nat \<Rightarrow> u16 \<Rightarrow> nat" where
  "ahead base d s = d + unat (s - (base + of_nat d))"

lemma ahead_at [simp]: "\<lbrakk>d \<le> k; k < d + 65536\<rbrakk> \<Longrightarrow> ahead base d (base + of_nat k) = k"
proof -
  assume "d \<le> k" "k < d + 65536"
  then have "base + of_nat k - (base + of_nat d) = (of_nat (k - d) :: u16)" "k - d < 65536" by simp_all
  then show ?thesis using \<open>d \<le> k\<close> by (simp only: ahead_def unat_of_nat16)
qed

lemma of_nat_ahead: "base + of_nat (ahead base d s) = s"
  by (simp add: ahead_def)

lemma ahead_eq: "\<lbrakk>d \<le> k; k < d + 65536\<rbrakk> \<Longrightarrow> ahead base d s = k \<longleftrightarrow> s = base + of_nat k"
  using of_nat_ahead [of base d s] by auto

lemma ahead_Suc: "s \<noteq> base + of_nat d \<Longrightarrow> ahead base (Suc d) s = ahead base d s"
proof -
  assume "s \<noteq> base + of_nat d"
  then have "s - (base + of_nat d) \<noteq> 0" by simp
  then have "Suc (unat (s - (base + of_nat d) - 1)) = unat (s - (base + of_nat d))"
    by (metis Suc_pred' unat_gt_0 unat_minus_one)
  moreover have "s - (base + of_nat (Suc d)) = s - (base + of_nat d) - 1" by simp
  ultimately show ?thesis by (simp only: ahead_def)
qed

lemma ahead_wrap: "ahead base (Suc d) (base + of_nat d) = d + 65536"
proof -
  have "base + of_nat d - (base + of_nat (Suc d)) = (- 1 :: u16)" by simp
  then show ?thesis by (simp only: ahead_def) (simp add: unsigned_minus_1_eq_mask mask_eq_exp_minus_1)
qed

text \<open>The buffer waits for packet \<open>d\<close> of the stream and holds those of \<open>S\<close>.\<close>

definition holding :: "u16 \<Rightarrow> (nat \<Rightarrow> rtp_packet) \<Rightarrow> nat set \<Rightarrow> nat \<Rightarrow> reorder \<Rightarrow> bool" where
  "holding base pkt S d rb \<longleftrightarrow>
     rb_started rb \<and> rb_next rb = Some (base + of_nat d) \<and> tbl_ok (rb_buf rb) \<and>
     (\<forall>s. tbl_get (rb_buf rb) s = (if ahead base d s \<in> S then Some (pkt (ahead base d s)) else None))"

lemma holding_get:
  "\<lbrakk>holding base pkt S d rb; d \<le> k; k < d + 65536\<rbrakk> \<Longrightarrow> tbl_get (rb_buf rb) (base + of_nat k) = (if k \<in> S then Some (pkt k) else None)"
  by (simp add: holding_def)

lemma holding_length:
  assumes "holding base pkt S d rb" "finite S"
  shows "length (rb_buf rb) \<le> card S"
proof -
  have "s \<in> (\<lambda>k. base + of_nat k) ` S" if "s \<in> set (map fst (rb_buf rb))" for s
  proof -
    have "tbl_get (rb_buf rb) s \<noteq> None" using that by (simp add: map_of_eq_None_iff)
    then have "ahead base d s \<in> S" using assms(1) by (auto simp: holding_def split: if_splits)
    then show ?thesis by (rule rev_image_eqI) (simp add: of_nat_ahead)
  qed
  then have "card (set (map fst (rb_buf rb))) \<le> card S"
    by (meson assms(2) card_image_le card_mono finite_imageI le_trans subsetI)
  moreover have "card (set (map fst (rb_buf rb))) = length (rb_buf rb)"
    using assms(1) distinct_card [of "map fst (rb_buf rb)"] by (simp add: holding_def)
  ultimately show ?thesis by simp
qed

lemma enforce_depth_stays:
  "length (rb_buf rb) \<le> rb_max_depth rb \<or> (\<exists>due. rb_next rb = Some due \<and> tbl_get (rb_buf rb) due \<noteq> None) \<Longrightarrow> enforce_depth rb = rb"
  by (subst enforce_depth.simps) auto

lemma not_behind: "\<lbrakk>d \<le> k; k < d + 0x8000\<rbrakk> \<Longrightarrow> \<not> serial_lt (base + of_nat k) (base + of_nat d)"
proof
  assume le: "d \<le> k" "k < d + 0x8000" and lt: "serial_lt (base + of_nat k) (base + of_nat d)"
  let ?x = "base + of_nat k - (base + of_nat d) :: u16"
  have x: "unat ?x = k - d" using le ahead_at [of d k base] by (simp add: ahead_def)
  have "unat (?x + - ?x) = (unat ?x + unat (- ?x)) mod 65536" by (simp only: unat_word_ariths) simp
  moreover have "unat (- ?x) < 0x8000" using lt by (simp add: serial_lt_def word_less_nat_alt)
  ultimately have "k - d + unat (- ?x) = 0" using le x by simp
  then show False using lt x by (simp add: serial_lt_def unat_eq_zero)
qed

lemma push_holding:
  assumes h: "holding base pkt S d rb" and S: "S \<subseteq> {d<..<d + w}" and k: "k \<in> {d..<d + w}" "k \<notin> S"
    and w: "w \<le> 0x8000" "w \<le> Suc (rb_max_depth rb)" and p: "seq_no (pkt k) = base + of_nat k"
  shows "push (pkt k) rb = (Inr (), rb\<lparr>rb_buf := tbl_put (base + of_nat k) (pkt k) (rb_buf rb)\<rparr>)
    \<and> holding base pkt (insert k S) d (rb\<lparr>rb_buf := tbl_put (base + of_nat k) (pkt k) (rb_buf rb)\<rparr>)"
proof -
  let ?rb = "rb\<lparr>rb_buf := tbl_put (base + of_nat k) (pkt k) (rb_buf rb)\<rparr>"
  have k': "d \<le> k" "k < d + 65536" "k < d + 0x8000" using k w by auto
  have h': "holding base pkt (insert k S) d ?rb"
    using h ahead_eq [OF k'(1,2), of base] k'(1,2) by (auto simp: holding_def table_simps)
  have fin: "finite S" using S finite_subset by blast
  have "enforce_depth ?rb = ?rb"
  proof (cases "k = d")
    case True
    then show ?thesis using h by (intro enforce_depth_stays) (auto simp: holding_def table_simps)
  next
    case False
    have "insert k S \<subseteq> {d<..<d + w}" using S k False by auto
    then have "card (insert k S) \<le> w - 1" using card_mono [of "{d<..<d + w}" "insert k S"] by simp
    then have "length (rb_buf ?rb) \<le> rb_max_depth ?rb"
      using holding_length [OF h'] fin w(2) by simp
    then show ?thesis by (intro enforce_depth_stays) simp
  qed
  moreover have "tbl_get (rb_buf rb) (base + of_nat k) = None"
    using holding_get [OF h k'(1,2)] k(2) by simp
  moreover have "rb_next rb = Some (base + of_nat d)" using h by (simp add: holding_def)
  ultimately show ?thesis using h' not_behind [OF k'(1,3)] by (simp add: push_def p)
qed

lemma pop_holding:
  assumes h: "holding base pkt S d rb" and S: "S \<subseteq> {d..<d + w}" "w \<le> 0x8000"
  shows "if d \<in> S then \<exists>t. pop rb = (Some (pkt d), rb\<lparr>rb_buf := t, rb_next := Some (base + of_nat (Suc d)), rb_started := True\<rparr>)
         \<and> holding base pkt (S - {d}) (Suc d) (rb\<lparr>rb_buf := t, rb_next := Some (base + of_nat (Suc d)), rb_started := True\<rparr>)
       else pop rb = (None, rb)"
proof (cases "d \<in> S")
  case True
  have g: "tbl_get (rb_buf rb) (base + of_nat d) = Some (pkt d)" using holding_get [OF h] True by simp
  let ?t = "tbl_del (base + of_nat d) (rb_buf rb)"
  let ?n = "base + of_nat d :: u16"
  have "tbl_get ?t s = (if ahead base (Suc d) s \<in> S - {d} then Some (pkt (ahead base (Suc d) s)) else None)" for s
  proof (cases "s = ?n")
    case True
    have "d + 65536 \<notin> S" using S by auto
    then show ?thesis by (simp add: table_simps True ahead_wrap)
  next
    case False
    have "ahead base d s \<noteq> d" using False of_nat_ahead [of base d s] by metis
    then show ?thesis using h False by (simp add: holding_def table_simps ahead_Suc)
  qed
  then have "holding base pkt (S - {d}) (Suc d) (rb\<lparr>rb_buf := ?t, rb_next := Some (base + of_nat (Suc d)), rb_started := True\<rparr>)"
    using h by (simp add: holding_def table_simps)
  moreover have "pop rb = (Some (pkt d), rb\<lparr>rb_buf := ?t, rb_next := Some (base + of_nat (Suc d)), rb_started := True\<rparr>)"
    using h g by (simp add: pop_def holding_def algebra_simps)
  ultimately show ?thesis using True by auto
next
  case False
  then have "tbl_get (rb_buf rb) (base + of_nat d) = None" using holding_get [OF h] by simp
  then show ?thesis using False h by (simp add: pop_def holding_def)
qed


lemma drain_holding:
  assumes "holding base pkt S d rb" "S \<subseteq> {d..<d + w}" "w \<le> 0x8000"
  shows "\<exists>e rb'. drain rb = (map pkt [d..<e], rb') \<and> d \<le> e \<and> {d..<e} \<subseteq> S \<and> e \<notin> S \<and> holding base pkt (S - {..<e}) e rb'
    \<and> rb_skipped rb' = rb_skipped rb \<and> rb_max_depth rb' = rb_max_depth rb"
  using assms
proof (induction "card S" arbitrary: S d rb w rule: less_induct)
  case less
  show ?case
  proof (cases "d \<in> S")
    case True
    from pop_holding [OF less.prems] True obtain rb1 where p: "pop rb = (Some (pkt d), rb1)"
      and h: "holding base pkt (S - {d}) (Suc d) rb1" and same: "rb_skipped rb1 = rb_skipped rb" "rb_max_depth rb1 = rb_max_depth rb"
      by auto
    have card: "card (S - {d}) < card S"
      using True finite_subset [OF less.prems(2)] by (metis card_Diff1_less finite_atLeastLessThan)
    have sub: "S - {d} \<subseteq> {Suc d..<Suc d + (w - 1)}" using less.prems(2) by force
    have "w - 1 \<le> 0x8000" using less.prems(3) by simp
    from less.hyps [OF card h sub this] obtain e rb' where e: "drain rb1 = (map pkt [Suc d..<e], rb')" "Suc d \<le> e" "{Suc d..<e} \<subseteq> S - {d}" "e \<notin> S - {d}"
        "holding base pkt (S - {d} - {..<e}) e rb'" "rb_skipped rb' = rb_skipped rb1" "rb_max_depth rb' = rb_max_depth rb1"
      by blast
    have "S - {d} - {..<e} = S - {..<e}" using e(2) by auto
    moreover have "{d..<e} \<subseteq> S" proof -
      have "{d..<e} = insert d {Suc d..<e}" using e(2) by auto
      then show ?thesis using e(3) True by auto
    qed
    moreover have "drain rb = (map pkt [d..<e], rb')"
      using p e(1,2) by (subst drain.simps) (simp add: upt_conv_Cons)
    ultimately show ?thesis using e same by (intro exI [of _ e] exI [of _ rb']) auto
  next
    case False
    then have "drain rb = ([], rb)" using pop_holding [OF less.prems] by (subst drain.simps) simp
    moreover have "S - {..<d} = S" using less.prems(2) by auto
    ultimately show ?thesis using False less.prems(1) by (intro exI [of _ d] exI [of _ rb]) auto
  qed
qed

lemma feed_holding:
  assumes "holding base pkt S d rb" "d \<notin> S" "S \<union> set ks = {d..<n}" "S \<inter> set ks = {}" "distinct ks" "d \<le> n"
    and "sorted_wrt (\<lambda>a b. a < b + w) ks" "\<forall>a\<in>S. \<forall>b\<in>set ks. a < b + w"
    and "w \<le> 0x8000" "w \<le> Suc (rb_max_depth rb)" "0 < w" and p: "\<And>k. seq_no (pkt k) = base + of_nat k"
  shows "\<exists>rb'. feed (map pkt ks) rb = (map pkt [d..<n], rb') \<and> rb_skipped rb' = rb_skipped rb"
  using assms(1-11)
proof (induction ks arbitrary: S d rb)
  case Nil
  then have "d = n" by (metis Un_empty_right atLeastLessThan_iff le_less order_refl set_empty2)
  then show ?case by simp
next
  case (Cons k ks)
  have mem: "x \<in> S \<or> x = k \<or> x \<in> set ks \<longleftrightarrow> d \<le> x \<and> x < n" for x
  proof -
    have "x \<in> S \<union> set (k # ks) \<longleftrightarrow> x \<in> {d..<n}" by (simp only: Cons.prems(3))
    then show ?thesis by auto
  qed
  have dn: "d < n" and kd: "d \<le> k" using mem [of k] by auto
  then have d: "d = k \<or> d \<in> set ks" using Cons.prems(2) mem [of d] by auto
  have "\<forall>y\<in>set ks. k < y + w" "0 < w" using Cons.prems(7,11) by simp_all
  then have kw: "k < d + w" using d by auto
  have S: "S \<subseteq> {d<..<d + w}"
  proof
    fix x assume x: "x \<in> S"
    then have "d \<le> x" "x \<noteq> d" using Cons.prems(2) mem [of x] by auto
    then show "x \<in> {d<..<d + w}" using x Cons.prems(8) d by auto
  qed
  let ?rb = "rb\<lparr>rb_buf := tbl_put (base + of_nat k) (pkt k) (rb_buf rb)\<rparr>"
  have "push (pkt k) rb = (Inr (), ?rb) \<and> holding base pkt (insert k S) d ?rb"
    using Cons.prems(4,9,10) kd kw S by (intro push_holding [OF Cons.prems(1)] p) auto
  moreover have "insert k S \<subseteq> {d..<d + w}" using S kd kw by auto
  ultimately obtain e rb1 where e: "push (pkt k) rb = (Inr (), ?rb)" "drain ?rb = (map pkt [d..<e], rb1)" "d \<le> e"
      "{d..<e} \<subseteq> insert k S" "e \<notin> insert k S" "holding base pkt (insert k S - {..<e}) e rb1"
      "rb_skipped rb1 = rb_skipped rb" "rb_max_depth rb1 = rb_max_depth rb"
    using drain_holding [of base pkt "insert k S" d ?rb w] Cons.prems(9) by auto
  have dis: "{d..<e} \<inter> set ks = {}" using e(4) Cons.prems(4,5) by auto
  have en: "e \<le> n"
  proof (rule ccontr)
    assume "\<not> e \<le> n"
    then have "n \<in> {d..<e}" using dn by simp
    then have "n \<in> insert k S" using e(4) by blast
    then show False using mem [of n] by auto
  qed
  have "\<exists>rb'. feed (map pkt ks) rb1 = (map pkt [e..<n], rb') \<and> rb_skipped rb' = rb_skipped rb1"
  proof (rule Cons.IH [OF e(6)])
    show "e \<notin> insert k S - {..<e}" using e(5) by simp
    show "insert k S - {..<e} \<union> set ks = {e..<n}"
      using mem dis e(3) en by (auto simp: set_eq_iff disjoint_iff not_le) (metis le_trans not_le)+
    show "(insert k S - {..<e}) \<inter> set ks = {}" "distinct ks" using Cons.prems(4,5) by auto
    show "e \<le> n" by (rule en)
    show "sorted_wrt (\<lambda>a b. a < b + w) ks" "\<forall>a\<in>insert k S - {..<e}. \<forall>b\<in>set ks. a < b + w"
      using Cons.prems(7,8) by auto
  qed (use Cons.prems(9-11) e(8) in auto)
  then show ?case using e(1,2,3,7) en upt_add_eq_append [of d e "n - e"]
    by (auto simp flip: map_append)
qed

text \<open>
  A buffer at the beginning of a stretch that arrives in the order \<open>ks\<close>: it waits for the first packet of
  the stretch and holds nothing, or it is new and the first packet arrives first.
\<close>

definition begins :: "u16 \<Rightarrow> nat list \<Rightarrow> reorder \<Rightarrow> bool" where
  "begins base ks rb \<longleftrightarrow>
     rb_buf rb = [] \<and> (rb_started rb \<and> rb_next rb = Some base \<or> rb_next rb = None \<and> (\<exists>rest. ks = 0 # rest))"

lemma feed_new:
  assumes "rb_buf rb = []" "rb_next rb = None" "seq_no (pkt 0) = base"
  shows "\<exists>rb1. feed (map pkt (0 # ks)) rb = (let (outs, rb2) = feed (map pkt ks) rb1 in (pkt 0 # outs, rb2))
    \<and> holding base pkt {} 1 rb1 \<and> rb_skipped rb1 = rb_skipped rb \<and> rb_max_depth rb1 = rb_max_depth rb"
proof -
  let ?r = "rb\<lparr>rb_next := Some base, rb_buf := [(base, pkt 0)]\<rparr>"
  let ?s = "rb\<lparr>rb_next := Some (base + 1), rb_buf := [], rb_started := True\<rparr>"
  have "push (pkt 0) rb = (Inr (), ?r)"
    using assms by (simp add: push_def enforce_depth_stays)
  moreover have "drain ?r = ([pkt 0], ?s)"
  proof -
    have "pop ?r = (Some (pkt 0), ?s)" by (simp add: pop_def)
    moreover have "drain ?s = ([], ?s)" by (subst drain.simps) (simp add: pop_def)
    ultimately show ?thesis by (subst drain.simps) (simp only: prod.case option.case Let_def)
  qed
  ultimately have "feed (map pkt (0 # ks)) rb = (let (outs, rb2) = feed (map pkt ks) ?s in (pkt 0 # outs, rb2))"
    by (simp add: case_prod_beta Let_def)
  moreover have "holding base pkt {} 1 ?s" by (simp add: holding_def)
  ultimately show ?thesis by (intro exI [of _ ?s]) simp
qed

text \<open>
  C18. Reordering within the depth is repaired completely. If the packets of a stretch arrive in any
  order in which none overtakes another by \<open>w\<close> places or more, with \<open>w - 1\<close> no more than the
  depth and below half the sequence space, then a buffer that waits for the first of them with nothing
  held, drained after each arrival, gives all of them, in order, and counts nothing as skipped. A new
  buffer does so when the first packet of the stream arrives first: it takes whatever arrives first for
  the beginning.
\<close>

theorem reorder_repairs:
  assumes "begins base ks rb" "\<forall>k. seq_no (pkt k) = base + of_nat k"
    and "distinct ks" "set ks = {..<n}" "sorted_wrt (\<lambda>a b. a < b + w) ks"
    and "0 < w" "w \<le> 0x8000" "w \<le> Suc (rb_max_depth rb)"
  shows "fst (feed (map pkt ks) rb) = map pkt [0..<n] \<and> rb_skipped (snd (feed (map pkt ks) rb)) = rb_skipped rb"
proof (cases "rb_started rb \<and> rb_next rb = Some base")
  case True
  then have "holding base pkt {} 0 rb" using assms(1) by (simp add: begins_def holding_def)
  then have "\<exists>rb'. feed (map pkt ks) rb = (map pkt [0..<n], rb') \<and> rb_skipped rb' = rb_skipped rb"
    by (rule feed_holding) (use assms(2-) in \<open>auto simp: atLeast0LessThan\<close>)
  then show ?thesis by auto
next
  case False
  then obtain rest where ks: "ks = 0 # rest" and rb: "rb_buf rb = []" "rb_next rb = None"
    using assms(1) by (auto simp: begins_def)
  have n: "0 < n" "set rest = {1..<n}"
  proof -
    have m: "x = 0 \<or> x \<in> set rest \<longleftrightarrow> x < n" for x using assms(4) by (auto simp: ks set_eq_iff)
    then show "0 < n" by blast
    have "x \<in> set rest \<longleftrightarrow> 1 \<le> x \<and> x < n" for x using m [of x] assms(3) by (cases "x = 0") (auto simp: ks)
    then show "set rest = {1..<n}" by (intro set_eqI) (simp only: atLeastLessThan_iff)
  qed
  obtain rb1 where f: "feed (map pkt ks) rb = (let (outs, rb2) = feed (map pkt rest) rb1 in (pkt 0 # outs, rb2))"
    and rb1: "holding base pkt {} 1 rb1" "rb_skipped rb1 = rb_skipped rb" "rb_max_depth rb1 = rb_max_depth rb"
  proof -
    have "seq_no (pkt 0) = base" using assms(2) [THEN spec, of 0] by simp
    with feed_new [of rb pkt base rest] rb that show thesis unfolding ks by blast
  qed
  have "\<exists>rb'. feed (map pkt rest) rb1 = (map pkt [1..<n], rb') \<and> rb_skipped rb' = rb_skipped rb1"
  proof (rule feed_holding [OF rb1(1)])
    show "{} \<union> set rest = {1..<n}" using n(2) by simp
    show "sorted_wrt (\<lambda>a b. a < b + w) rest" "distinct rest" using assms(3,5) by (simp_all add: ks)
    show "w \<le> Suc (rb_max_depth rb1)" using assms(8) rb1(3) by simp
    show "\<And>k. seq_no (pkt k) = base + of_nat k" using assms(2) by blast
  qed (use n(1) assms(6,7) in simp_all)
  moreover have "[0..<n] = 0 # [1..<n]" using n(1) by (simp add: upt_conv_Cons)
  ultimately show ?thesis using f rb1(2) by auto
qed

section \<open>What the parser takes out of a datagram\<close>

text \<open>
  A datagram laid out as RFC 3550 says: \<open>b0\<close> and \<open>b1\<close> the two flag bytes, \<open>head\<close> the ten that
  follow, then the contributing sources, an extension whose second half-word is the number of
  its words, the payload, and the padding, whose last byte is its length.
\<close>

definition ext_bytes :: "bytes option \<Rightarrow> bytes" where
  "ext_bytes ext = (case ext of None \<Rightarrow> []
     | Some words \<Rightarrow> [0, 0, ucast (drop_bit 8 (of_nat (length words div 4) :: u16)), ucast (of_nat (length words div 4) :: u16)] @ words)"

definition pad_bytes :: "nat option \<Rightarrow> bytes" where
  "pad_bytes pad = (case pad of None \<Rightarrow> [] | Some n \<Rightarrow> replicate (n - 1) 0 @ [of_nat n])"

definition datagram :: "u8 \<Rightarrow> u8 \<Rightarrow> bytes \<Rightarrow> bytes \<Rightarrow> bytes option \<Rightarrow> bytes \<Rightarrow> nat option \<Rightarrow> bytes" where
  "datagram b0 b1 head csrc ext payload pad = b0 # b1 # head @ csrc @ ext_bytes ext @ payload @ pad_bytes pad"

definition laid_out :: "u8 \<Rightarrow> bytes \<Rightarrow> bytes \<Rightarrow> bytes option \<Rightarrow> nat option \<Rightarrow> bool" where
  "laid_out b0 head csrc ext pad \<longleftrightarrow>
     drop_bit 6 b0 = 2 \<and> length head = 10 \<and> length csrc = unat (b0 AND 0x0F) * 4 \<and>
     (b0 AND 0x10 \<noteq> 0 \<longleftrightarrow> ext \<noteq> None) \<and> (b0 AND 0x20 \<noteq> 0 \<longleftrightarrow> pad \<noteq> None) \<and>
     (case ext of None \<Rightarrow> True | Some words \<Rightarrow> length words mod 4 = 0 \<and> length words div 4 < 65536) \<and>
     (case pad of None \<Rightarrow> True | Some n \<Rightarrow> 0 < n \<and> n < 256)"

lemma from_be16_split: "from_be16 (ucast (drop_bit 8 w)) (ucast w) = w"
  by (rule bit_word_eqI) (auto simp: from_be16_def bit_simps)

lemma length_pad_bytes: "pad \<noteq> Some 0 \<Longrightarrow> length (pad_bytes pad) = (case pad of None \<Rightarrow> 0 | Some n \<Rightarrow> n)"
  by (cases pad) (auto simp: pad_bytes_def)

text \<open>
  The parser takes the right bytes out of every well-formed datagram: with any contributing
  sources, header extension and padding laid out as RFC 3550 has them, the payload it returns is
  the payload, and the header fields are the ones in the packet.
\<close>

theorem rtp_parse_layout:
  assumes "laid_out b0 head csrc ext pad"
  shows "\<exists>p. rtp_parse (datagram b0 b1 head csrc ext payload pad) = Inr p \<and> rp_payload p = payload
     \<and> seq_no p = from_be16 (head ! 0) (head ! 1) \<and> rh_marker (rp_header p) = (b1 AND 0x80 \<noteq> 0)
     \<and> rh_payload_type (rp_header p) = b1 AND 0x7F
     \<and> rh_timestamp (rp_header p) = from_be32 (head ! 2) (head ! 3) (head ! 4) (head ! 5)
     \<and> rh_ssrc (rp_header p) = from_be32 (head ! 6) (head ! 7) (head ! 8) (head ! 9)
     \<and> rh_payload_offset (rp_header p) = 12 + length csrc + length (ext_bytes ext)"
proof -
  let ?d = "datagram b0 b1 head csrc ext payload pad" and ?off = "12 + unat (b0 AND 0x0F) * 4"
  let ?start = "12 + length csrc + length (ext_bytes ext)"
  note lo = assms [unfolded laid_out_def]
  have csrc: "?off = 12 + length csrc" and h: "length head = 10" using lo by auto
  have split: "?d = (b0 # b1 # head @ csrc) @ ext_bytes ext @ payload @ pad_bytes pad"
    by (simp add: datagram_def)
  have len: "length (b0 # b1 # head @ csrc) = ?off" using csrc h by simp
  have ext: "(if b0 AND 0x10 \<noteq> 0 then rtp_extension_end ?d ?off else Inr ?off) = Inr ?start"
  proof (cases ext)
    case None
    then show ?thesis using lo by (simp add: ext_bytes_def)
  next
    case (Some words)
    have "length words mod 4 = 0" "length words div 4 < 65536" using lo Some by simp_all
    moreover from this(1) have "length words = length words div 4 * 4" by presburger
    ultimately obtain q where q: "length words = q * 4" "q < 65536" by blast
    have bit: "b0 AND 0x10 \<noteq> 0" using lo Some by simp
    have nth: "?d ! (?off + i) = (ext_bytes ext @ payload @ pad_bytes pad) ! i" for i
      unfolding split len [symmetric] by (rule nth_append_length_plus)
    have w: "unat (from_be16 (?d ! (?off + 2)) (?d ! (?off + 3))) = q"
      unfolding nth by (simp add: Some ext_bytes_def q from_be16_split)
    have d: "length ?d = ?off + (4 + q * 4) + length payload + length (pad_bytes pad)"
      unfolding split length_append [of "b0 # b1 # head @ csrc"] len by (simp add: Some ext_bytes_def q)
    have "rtp_extension_end ?d ?off = Inr (?off + (4 + q * 4))"
      unfolding rtp_extension_end_def Let_def w d by simp
    then show ?thesis using bit csrc by (simp add: Some ext_bytes_def q)
  qed
  have total: "length ?d = ?start + length payload + length (pad_bytes pad)"
    unfolding split length_append [of "b0 # b1 # head @ csrc"] len using csrc by simp
  have fin: "rtp_payload_end ?d (b0 AND 0x20 \<noteq> 0) ?start = Inr (?start + length payload)"
  proof (cases pad)
    case None
    then show ?thesis using lo total by (simp add: rtp_payload_end_def pad_bytes_def)
  next
    case (Some n)
    then have n: "0 < n" "n < 256" using lo by auto
    have "last ?d = of_nat n" by (simp add: datagram_def pad_bytes_def Some)
    moreover have "length (pad_bytes pad) = n" using n by (simp add: pad_bytes_def Some)
    ultimately show ?thesis using lo total n Some by (simp add: rtp_payload_end_def Let_def)
  qed
  have drop: "drop ?start ?d = payload @ pad_bytes pad"
  proof -
    have "?d = (b0 # b1 # head @ csrc @ ext_bytes ext) @ payload @ pad_bytes pad" by (simp add: datagram_def)
    moreover have "length (b0 # b1 # head @ csrc @ ext_bytes ext) = ?start" using h by simp
    ultimately show ?thesis by (metis append_eq_conv_conj)
  qed
  have heads: "?d ! 0 = b0" "?d ! 1 = b1" "?d ! 2 = head ! 0" "?d ! 3 = head ! 1" "?d ! 4 = head ! 2" "?d ! 5 = head ! 3"
    "?d ! 6 = head ! 4" "?d ! 7 = head ! 5" "?d ! 8 = head ! 6" "?d ! 9 = head ! 7" "?d ! 10 = head ! 8" "?d ! 11 = head ! 9"
    using h by (simp_all add: datagram_def nth_append numeral_eq_Suc)
  show ?thesis using lo total csrc
    unfolding rtp_parse_def Let_def heads ext bindE_simps fin
    by (simp add: drop)
qed


definition sample_packet :: "nat \<Rightarrow> rtp_packet" where
  "sample_packet k = \<lparr>rp_header = \<lparr>rh_marker = False, rh_payload_type = 33, rh_sequence = 0xFFFF + of_nat k,
     rh_timestamp = 0, rh_ssrc = 1, rh_csrc_count = 0, rh_payload_offset = 12\<rparr>, rp_payload = [of_nat k]\<rparr>"

lemma reorder_in_order_witness:
  "\<exists>rb. fold reorder_step [Push (sample_packet 0), Pop, Push (sample_packet 2), Push (sample_packet 1), Pop]
         (reorder_new 4, []) = (rb, [sample_packet 0, sample_packet 1])
     \<and> (\<exists>base ps P. map seq_no [sample_packet 0, sample_packet 1] = map (\<lambda>p. base + of_nat p) ps \<and> sorted_wrt (<) ps
          \<and> (rb_skipped rb \<noteq> - 1 \<longrightarrow> P = length ps + unat (rb_skipped rb)))"
proof -
  have "fold reorder_step [Push (sample_packet 0), Pop, Push (sample_packet 2), Push (sample_packet 1), Pop] (reorder_new 4, []) =
    (\<lparr>rb_max_depth = 4, rb_next = Some 1, rb_started = True, rb_buf = [(1, sample_packet 2)], rb_skipped = 0\<rparr>, [sample_packet 0, sample_packet 1])"
    by (simp add: push_def pop_def reorder_new_def serial_lt_def enforce_depth_stays sample_packet_def)
  from this reorder_in_order [OF this] show ?thesis by blast
qed

lemma reorder_repairs_witness:
  "fst (feed (map sample_packet [0, 2, 1]) (reorder_new 4)) = map sample_packet [0..<3] \<and>
   fst (feed (map sample_packet [1, 0, 2]) \<lparr>rb_max_depth = 4, rb_next = Some 0xFFFF, rb_started = True, rb_buf = [], rb_skipped = 0\<rparr>)
     = map sample_packet [0..<3]"
proof -
  have s: "set [0, 2, 1 :: nat] = {..<3}" "set [1, 0, 2 :: nat] = {..<3}" by auto
  show ?thesis
    using reorder_repairs [of "0xFFFF" "[0, 2, 1]" "reorder_new 4" sample_packet 3 2] s
      reorder_repairs [of "0xFFFF" "[1, 0, 2]" "\<lparr>rb_max_depth = 4, rb_next = Some 0xFFFF, rb_started = True, rb_buf = [], rb_skipped = 0\<rparr>"
        sample_packet 3 2]
    by (simp add: begins_def reorder_new_def) (simp add: sample_packet_def)
qed

lemma rtp_parse_layout_witness:
  "\<exists>p. rtp_parse (datagram 0xB1 0xA1 [0, 7, 0, 0, 0, 1, 0, 0, 0, 2] [0, 0, 0, 3] (Some [1, 2, 3, 4]) [9, 9] (Some 3)) = Inr p
     \<and> rp_payload p = [9, 9]"
proof -
  have "laid_out 0xB1 [0, 7, 0, 0, 0, 1, 0, 0, 0, 2] [0, 0, 0, 3] (Some [1, 2, 3, 4]) (Some 3)" by (simp add: laid_out_def)
  from rtp_parse_layout [OF this] show ?thesis by blast
qed

end
