(* ===== verification/Session.thy ===== *)
theory Session
  imports Prelude
begin

text \<open>
  The session manager of \<^verbatim>\<open>crates/core\<close> (\<^verbatim>\<open>session.rs\<close>), with the vocabulary it shares with every
  protocol: sources (\<^verbatim>\<open>adapter.rs\<close>, \<^verbatim>\<open>types.rs\<close>), events (\<^verbatim>\<open>event.rs\<close>), control capabilities
  (\<^verbatim>\<open>control.rs\<close>), source descriptions (\<^verbatim>\<open>source.rs\<close>) and the overlay (\<^verbatim>\<open>osd.rs\<close>).

  What the manager only passes on (media requests, frame sources, formats, volumes, queues) is
  the type \<open>'m\<close>. The pipeline, the display and the remote controls are trait objects: each
  call the manager makes is recorded, and an \<open>env\<close> answers it. It may answer differently every
  time, since it is asked with all the calls made before.
\<close>

section \<open>Vocabulary\<close>

datatype protocol_kind =
    AirPlay | Cast | Miracast | Dlna | YouTubeLounge | Spotify | Bluetooth | GameStream | MatterCast | FCast

fun slug :: "protocol_kind \<Rightarrow> string" where
  "slug AirPlay = ''airplay''"
| "slug Cast = ''cast''"
| "slug Miracast = ''miracast''"
| "slug Dlna = ''dlna''"
| "slug YouTubeLounge = ''youtube''"
| "slug Spotify = ''spotify''"
| "slug Bluetooth = ''bluetooth''"
| "slug GameStream = ''gamestream''"
| "slug MatterCast = ''matter''"
| "slug FCast = ''fcast''"

record source_id =
  src_kind :: protocol_kind
  src_instance :: string

definition source_string :: "source_id \<Rightarrow> string" where
  "source_string s = slug (src_kind s) @ ''/'' @ src_instance s"

datatype core_error =
    InvalidUri string | InvalidHeader string | InvalidName string | NoActiveSession string
  | PipelineError string | DisplayError string | UnsupportedControl string | ChannelClosed | AdapterError string

datatype display_input = Hdmi1 | Hdmi2 | DisplayPort | UsbC

datatype failure_cause = Unobtainable | Unplayable | ReceiverFault

record playback_failure =
  pf_cause :: failure_cause
  pf_detail :: string

datatype playback_end = Finished | Failed playback_failure

datatype repeat_mode = RepeatOff | RepeatTrack | RepeatContext

datatype 'm control_txn =
    TxnPlay | TxnPause | TxnStop | TxnSeek duration | TxnVolume 'm | TxnMute bool | TxnNext | TxnPrevious
  | TxnSetQueue 'm nat | TxnShuffle bool | TxnRepeat repeat_mode

record source_description =
  sd_display_name :: "string option"
  sd_address :: "string option"
  sd_link :: "string option"

definition description_new :: source_description where
  "description_new = \<lparr>sd_display_name = None, sd_address = None, sd_link = None\<rparr>"

definition or_else :: "'a option \<Rightarrow> 'a option \<Rightarrow> 'a option" where
  "or_else a b = (case a of Some x \<Rightarrow> Some x | None \<Rightarrow> b)"

definition merged :: "source_description \<Rightarrow> source_description \<Rightarrow> source_description" where
  "merged self other =
     \<lparr>sd_display_name = or_else (sd_display_name other) (sd_display_name self),
      sd_address = or_else (sd_address other) (sd_address self),
      sd_link = or_else (sd_link other) (sd_link self)\<rparr>"

definition description_label :: "source_description \<Rightarrow> string option" where
  "description_label d = or_else (sd_display_name d) (sd_address d)"

definition middle_dot :: string where
  "middle_dot = '' '' @ [CHR 0xC2, CHR 0xB7] @ '' ''"

definition description_string :: "source_description \<Rightarrow> string" where
  "description_string d =
     (let name = (case sd_display_name d of Some n \<Rightarrow> n | None \<Rightarrow> '''');
          wrote = (sd_display_name d \<noteq> None);
          address = (case sd_address d of
             Some a \<Rightarrow> if wrote then '' ('' @ a @ '')'' else a
           | None \<Rightarrow> '''');
          wrote = (wrote \<or> sd_address d \<noteq> None);
          link = (case sd_link d of
             Some l \<Rightarrow> (if wrote then middle_dot else '''') @ l
           | None \<Rightarrow> '''');
          wrote = (wrote \<or> sd_link d \<noteq> None)
      in if wrote then name @ address @ link else ''unknown device'')"

section \<open>Capabilities\<close>

type_synonym capabilities = u16

definition cap_none :: capabilities where "cap_none = 0"

fun required_for :: "'m control_txn \<Rightarrow> capabilities" where
  "required_for TxnPlay = push_bit 0 1"
| "required_for TxnPause = push_bit 1 1"
| "required_for TxnStop = push_bit 2 1"
| "required_for (TxnSeek _) = push_bit 3 1"
| "required_for (TxnVolume _) = push_bit 4 1"
| "required_for (TxnMute _) = push_bit 5 1"
| "required_for TxnNext = push_bit 6 1"
| "required_for TxnPrevious = push_bit 7 1"
| "required_for (TxnSetQueue _ _) = push_bit 8 1"
| "required_for (TxnShuffle _) = push_bit 9 1"
| "required_for (TxnRepeat _) = push_bit 10 1"

definition cap_or :: "capabilities \<Rightarrow> capabilities \<Rightarrow> capabilities" where
  "cap_or a b = a OR b"

definition cap_contains :: "capabilities \<Rightarrow> capabilities \<Rightarrow> bool" where
  "cap_contains a b \<longleftrightarrow> a AND b = b"

definition cap_supports :: "capabilities \<Rightarrow> 'm control_txn \<Rightarrow> bool" where
  "cap_supports c txn \<longleftrightarrow> cap_contains c (required_for txn)"

section \<open>The world around the manager\<close>

type_synonym remote = nat
type_synonym surface = nat

datatype 'm call =
    PipePlay 'm | PipeMirror 'm | PipeAudio 'm | PipeLatency 'm | PipeNowPlaying 'm | PipeUpNext 'm
  | PipeSourceInfo source_description | PipeControls capabilities | PipeControl "'m control_txn"
  | PipeHostPage 'm | PipeStop
  | DisplayPowerOn | DisplaySelect display_input
  | RemoteIssue remote "'m control_txn" | RemoteEnded remote playback_end
  | TouchCancelAll surface | OsdShow string duration | OsdClear

record 'm env =
  env_answer :: "'m call list \<Rightarrow> 'm call \<Rightarrow> core_error option"
  env_caps :: "'m call list \<Rightarrow> remote \<Rightarrow> capabilities"
  env_debug :: "'m control_txn \<Rightarrow> string"

record session_config =
  sc_output_input :: display_input
  sc_osd_ttl :: duration

record 'm manager =
  sm_display :: bool
  sm_osd :: bool
  sm_config :: session_config
  sm_active :: "source_id option"
  sm_remote :: "remote option"
  sm_touch :: "surface option"
  sm_casting :: bool
  sm_description :: source_description
  sm_calls :: "'m call list"

definition config_default :: session_config where
  "config_default = \<lparr>sc_output_input = Hdmi1, sc_osd_ttl = from_secs 4\<rparr>"

definition manager_new :: "bool \<Rightarrow> bool \<Rightarrow> session_config \<Rightarrow> 'm manager" where
  "manager_new display osd config =
     \<lparr>sm_display = display, sm_osd = osd, sm_config = config, sm_active = None, sm_remote = None,
      sm_touch = None, sm_casting = False, sm_description = description_new, sm_calls = []\<rparr>"

type_synonym ('m, 'a) manages = "('m manager, core_error, 'a) meth"

definition record_call :: "'m call \<Rightarrow> 'm manager \<Rightarrow> 'm manager" where
  "record_call c s = s\<lparr>sm_calls := sm_calls s @ [c]\<rparr>"

text \<open>A call that may fail, and one whose failure is only logged.\<close>

definition call :: "'m env \<Rightarrow> 'm call \<Rightarrow> ('m, unit) manages" where
  "call env c s = (case env_answer env (sm_calls s) c of None \<Rightarrow> Inr () | Some e \<Rightarrow> Inl e, record_call c s)"

definition attempt :: "('m, unit) manages \<Rightarrow> 'm manager \<Rightarrow> 'm manager" where
  "attempt m s = snd (m s)"

text \<open>\<open>RemoteControl::issue\<close>: refused here, without a call, when the peer never advertised it.\<close>

definition issue :: "'m env \<Rightarrow> remote \<Rightarrow> 'm control_txn \<Rightarrow> ('m, unit) manages" where
  "issue env r txn s =
     (if \<not> cap_supports (env_caps env (sm_calls s) r) txn then (Inl (UnsupportedControl (env_debug env txn)), s)
      else call env (RemoteIssue r txn) s)"

definition set_touch :: "surface option \<Rightarrow> 'm manager \<Rightarrow> 'm manager" where
  "set_touch t s =
     (case sm_touch s of None \<Rightarrow> s | Some previous \<Rightarrow> record_call (TouchCancelAll previous) s)\<lparr>sm_touch := t\<rparr>"

definition osd_show :: "string \<Rightarrow> 'm manager \<Rightarrow> 'm manager" where
  "osd_show text s = (if sm_osd s then record_call (OsdShow text (sc_osd_ttl (sm_config s))) s else s)"

definition osd_clear :: "'m manager \<Rightarrow> 'm manager" where
  "osd_clear s = (if sm_osd s then record_call OsdClear s else s)"

section \<open>The manager\<close>

datatype 'm session_event =
    Play 'm | Mirror 'm | Audio 'm | AudioLatency 'm | NowPlaying 'm | UpNext 'm
  | SourceInfo source_description | ControlSurface remote | TouchSurface surface
  | TouchSurfaceRevoked | HostPage 'm | Control "'m control_txn" | EndSession

definition pause_outgoing :: "'m env \<Rightarrow> 'm manager \<Rightarrow> 'm manager" where
  "pause_outgoing env s =
     (case sm_remote s of None \<Rightarrow> s | Some r \<Rightarrow> attempt (issue env r TxnPause) s)"

definition preempt :: "'m env \<Rightarrow> 'm manager \<Rightarrow> 'm manager" where
  "preempt env s =
     (let s = attempt (call env PipeStop) (pause_outgoing env s);
          s = set_touch None (s\<lparr>sm_remote := None\<rparr>)
      in s\<lparr>sm_description := description_new\<rparr>)"

definition wake_display :: "'m env \<Rightarrow> ('m, unit) manages" where
  "wake_display env s =
     (if sm_display s then
        bindS (call env DisplayPowerOn) (\<lambda>_. call env (DisplaySelect (sc_output_input (sm_config s)))) s
      else (Inr (), s))"

definition become_active :: "source_id \<Rightarrow> 'm manager \<Rightarrow> 'm manager" where
  "become_active src s =
     osd_show (''Now casting from '' @ source_string src) (s\<lparr>sm_active := Some src, sm_casting := True\<rparr>)"

definition begin_session :: "'m env \<Rightarrow> source_id \<Rightarrow> ('m, unit) manages" where
  "begin_session env src s =
     (if sm_active s = Some src then (Inr (), s)
      else
        bindS (\<lambda>s. if sm_active s \<noteq> None then (Inr (), preempt env s) else wake_display env s)
          (\<lambda>_ s. (Inr (), become_active src s)) s)"

definition when_active :: "source_id \<Rightarrow> ('m, unit) manages \<Rightarrow> ('m, unit) manages" where
  "when_active src m s =
     (if sm_active s = Some src then m s else (Inl (NoActiveSession (source_string src)), s))"

definition end_session :: "'m env \<Rightarrow> ('m, unit) manages" where
  "end_session env s =
     (let s = set_touch None (s\<lparr>sm_active := None, sm_casting := False, sm_remote := None\<rparr>);
          s = attempt (call env (PipeControls cap_none)) s;
          s = osd_clear (s\<lparr>sm_description := description_new\<rparr>)
      in call env PipeStop s)"

definition update_description :: "'m env \<Rightarrow> source_description \<Rightarrow> ('m, unit) manages" where
  "update_description env info s =
     (let d = merged (sm_description s) info;
          s = osd_show (''Now playing from '' @ description_string d) (s\<lparr>sm_description := d\<rparr>)
      in call env (PipeSourceInfo d) s)"

fun handle :: "'m env \<Rightarrow> source_id \<Rightarrow> 'm session_event \<Rightarrow> ('m, unit) manages" where
  "handle env src (Play m) = bindS (begin_session env src) (\<lambda>_. call env (PipePlay m))"
| "handle env src (Mirror m) = bindS (begin_session env src) (\<lambda>_. call env (PipeMirror m))"
| "handle env src (Audio m) = bindS (begin_session env src) (\<lambda>_. call env (PipeAudio m))"
| "handle env src (HostPage m) = bindS (begin_session env src) (\<lambda>_. call env (PipeHostPage m))"
| "handle env src (AudioLatency m) = when_active src (call env (PipeLatency m))"
| "handle env src (NowPlaying m) = when_active src (call env (PipeNowPlaying m))"
| "handle env src (UpNext m) = when_active src (call env (PipeUpNext m))"
| "handle env src (SourceInfo info) = when_active src (update_description env info)"
| "handle env src (ControlSurface r) = when_active src (\<lambda>s.
     let caps = env_caps env (sm_calls s) r in call env (PipeControls caps) (s\<lparr>sm_remote := Some r\<rparr>))"
| "handle env src (TouchSurface t) = when_active src (\<lambda>s. (Inr (), set_touch (Some t) s))"
| "handle env src TouchSurfaceRevoked = when_active src (\<lambda>s. (Inr (), set_touch None s))"
| "handle env src (Control txn) = when_active src (call env (PipeControl txn))"
| "handle env src EndSession = (\<lambda>s. if sm_active s = Some src then end_session env s else (Inr (), s))"

definition media_ended :: "'m env \<Rightarrow> playback_end \<Rightarrow> 'm manager \<Rightarrow> 'm manager" where
  "media_ended env fin s =
     (case sm_active s of
        None \<Rightarrow> s
      | Some src \<Rightarrow>
          let s = (case sm_remote s of
                     Some r \<Rightarrow> attempt (call env (RemoteEnded r fin)) s
                   | None \<Rightarrow> s)
          in attempt (handle env src EndSession) s)"

text \<open>\<open>run\<close> takes messages and end reports in the order they come, and stops the pipeline at last.\<close>

datatype 'm input = Message source_id "'m session_event" | MediaEnded playback_end

fun manager_step :: "'m env \<Rightarrow> 'm input \<Rightarrow> 'm manager \<Rightarrow> 'm manager" where
  "manager_step env (Message src ev) s = attempt (handle env src ev) s"
| "manager_step env (MediaEnded fin) s = media_ended env fin s"

definition manager_run :: "'m env \<Rightarrow> 'm input list \<Rightarrow> 'm manager \<Rightarrow> 'm manager" where
  "manager_run env inputs s = attempt (call env PipeStop) (fold (manager_step env) inputs s)"

section \<open>What the manager keeps\<close>

lemmas manager_defs = call_def attempt_def issue_def record_call_def set_touch_def osd_show_def osd_clear_def
  pause_outgoing_def preempt_def wake_display_def become_active_def begin_session_def when_active_def
  end_session_def update_description_def bindS_def Let_def

definition manager_ok :: "'m manager \<Rightarrow> bool" where
  "manager_ok s \<longleftrightarrow> (sm_casting s \<longleftrightarrow> sm_active s \<noteq> None) \<and>
     (sm_active s = None \<longrightarrow> sm_remote s = None \<and> sm_touch s = None \<and> sm_description s = description_new)"

lemma manager_ok_handle: "manager_ok s \<Longrightarrow> manager_ok (snd (handle env src ev s))"
  by (cases ev) (auto simp: manager_ok_def manager_defs split: prod.split sum.split option.split)

lemma manager_ok_media_ended: "manager_ok s \<Longrightarrow> manager_ok (media_ended env fin s)"
  unfolding media_ended_def Let_def
  by (auto split: option.split simp: attempt_def simp del: handle.simps intro!: manager_ok_handle)
    (auto simp: manager_ok_def call_def record_call_def)

interpretation manager: machine "manager_step env" manager_ok for env :: "'m env"
proof
  show "manager_ok s \<Longrightarrow> manager_ok (manager_step env i s)" for s :: "'m manager" and i
    by (cases i) (simp_all add: attempt_def manager_ok_handle manager_ok_media_ended del: handle.simps)
qed

text \<open>
  C35. Whatever messages and end reports arrive, in whatever order, and however the pipeline, the
  display and the remotes answer, the bit the rest of the program reads says exactly whether a
  source is active, and an idle manager holds no control surface, no touch surface and no
  description of a sender that has gone.
\<close>

theorem session_invariant:
  "manager_ok (fold (manager_step env) inputs (manager_new display osd config))"
  by (rule manager.run_ok) (simp add: manager_ok_def manager_new_def)

text \<open>The handles a source publishes are used only while it is the one on screen.\<close>

fun published_by :: "(remote \<Rightarrow> source_id) \<Rightarrow> (surface \<Rightarrow> source_id) \<Rightarrow> 'm input \<Rightarrow> bool" where
  "published_by remotes surfaces (Message src (ControlSurface r)) \<longleftrightarrow> remotes r = src"
| "published_by remotes surfaces (Message src (TouchSurface t)) \<longleftrightarrow> surfaces t = src"
| "published_by remotes surfaces _ \<longleftrightarrow> True"

definition handles_ok :: "(remote \<Rightarrow> source_id) \<Rightarrow> (surface \<Rightarrow> source_id) \<Rightarrow> 'm manager \<Rightarrow> bool" where
  "handles_ok remotes surfaces s \<longleftrightarrow>
     (\<forall>r. sm_remote s = Some r \<longrightarrow> sm_active s = Some (remotes r)) \<and>
     (\<forall>t. sm_touch s = Some t \<longrightarrow> sm_active s = Some (surfaces t))"

lemma handles_ok_handle:
  "\<lbrakk>handles_ok rs ts s; published_by rs ts (Message src ev)\<rbrakk> \<Longrightarrow> handles_ok rs ts (snd (handle env src ev s))"
  by (cases ev) (auto simp: handles_ok_def manager_defs split: prod.split sum.split option.split)

lemma handles_ok_step:
  "\<lbrakk>handles_ok rs ts s; published_by rs ts i\<rbrakk> \<Longrightarrow> handles_ok rs ts (manager_step env i s)"
proof (cases i)
  case (MediaEnded fin)
  assume ok: "handles_ok rs ts s"
  have "handles_ok rs ts (attempt (call env (RemoteEnded r fin)) s)" for r
    using ok by (simp add: handles_ok_def attempt_def call_def record_call_def)
  with ok show ?thesis
    by (auto simp: MediaEnded media_ended_def Let_def attempt_def simp del: handle.simps split: option.split
        intro!: handles_ok_handle)
qed (simp add: attempt_def handles_ok_handle del: handle.simps)

text \<open>
  A control or touch surface never outlives its source's turn on the screen: when every surface
  is published by its own source, the one the manager holds always belongs to the source that is
  active.
\<close>

theorem handles_belong_to_active:
  assumes "list_all (published_by remotes surfaces) inputs"
    and "s = fold (manager_step env) inputs (manager_new display osd config)"
  shows "(\<forall>r. sm_remote s = Some r \<longrightarrow> sm_active s = Some (remotes r)) \<and>
    (\<forall>t. sm_touch s = Some t \<longrightarrow> sm_active s = Some (surfaces t))"
proof -
  have "handles_ok remotes surfaces s0 \<Longrightarrow> handles_ok remotes surfaces (fold (manager_step env) inputs s0)" for s0
    using assms(1) by (induction inputs arbitrary: s0) (simp_all add: handles_ok_step)
  then have "handles_ok remotes surfaces s"
    unfolding assms(2) by (simp add: handles_ok_def manager_new_def)
  then show ?thesis by (simp add: handles_ok_def)
qed

section \<open>Who is on screen\<close>

fun start_call :: "'m session_event \<Rightarrow> 'm call option" where
  "start_call (Play m) = Some (PipePlay m)"
| "start_call (Mirror m) = Some (PipeMirror m)"
| "start_call (Audio m) = Some (PipeAudio m)"
| "start_call (HostPage m) = Some (PipeHostPage m)"
| "start_call _ = None"

lemma handle_start: "start_call ev = Some c \<Longrightarrow> handle env src ev = bindS (begin_session env src) (\<lambda>_. call env c)"
  by (cases ev) auto

text \<open>
  A source that is not active can change nothing but by starting to play: every other event
  of it leaves the manager as it was, with no call made to anyone, and is refused with its name
  (an end of session is accepted and does nothing).
\<close>

theorem background_source_ignored:
  assumes "sm_active s \<noteq> Some src" "start_call ev = None"
  shows "handle env src ev s = (if ev = EndSession then Inr () else Inl (NoActiveSession (source_string src)), s)"
  using assms by (cases ev) (simp_all add: when_active_def)

definition pause_call :: "'m env \<Rightarrow> 'm manager \<Rightarrow> 'm call list" where
  "pause_call env s = (case sm_remote s of None \<Rightarrow> []
     | Some r \<Rightarrow> if cap_supports (env_caps env (sm_calls s) r) (TxnPause :: 'm control_txn) then [RemoteIssue r TxnPause] else [])"

definition cancel_call :: "'m manager \<Rightarrow> 'm call list" where
  "cancel_call s = (case sm_touch s of None \<Rightarrow> [] | Some t \<Rightarrow> [TouchCancelAll t])"

text \<open>
  C34. The newest sender wins. When a source starts while another is active, the outgoing one is
  asked to pause if it advertised that, then the pipeline is stopped, held touches are cancelled,
  everything known of the old source is forgotten and the new one is active, and only then is the
  pipeline started, in this order and whatever any of the calls answers.
\<close>

theorem newest_sender_takes_over:
  assumes "sm_active s = Some prev" "prev \<noteq> src" "start_call ev = Some c"
  shows "\<exists>result. handle env src ev s = (result, s\<lparr>sm_active := Some src, sm_casting := True,
      sm_remote := None, sm_touch := None, sm_description := description_new,
      sm_calls := sm_calls s @ pause_call env s @ [PipeStop] @ cancel_call s
        @ (if sm_osd s then [OsdShow (''Now casting from '' @ source_string src) (sc_osd_ttl (sm_config s))] else [])
        @ [c]\<rparr>)"
  using assms unfolding handle_start [OF assms(3)]
  by (auto simp: manager_defs pause_call_def cancel_call_def split: option.split)

lemma media_ended_eq:
  assumes "sm_active s = Some src"
  shows "media_ended env fin s = s\<lparr>sm_active := None, sm_casting := False, sm_remote := None, sm_touch := None,
      sm_description := description_new,
      sm_calls := sm_calls s @ (case sm_remote s of None \<Rightarrow> [] | Some r \<Rightarrow> [RemoteEnded r fin]) @ cancel_call s
        @ [PipeControls cap_none] @ (if sm_osd s then [OsdClear] else []) @ [PipeStop]\<rparr>"
  using assms by (auto simp: media_ended_def manager_defs cancel_call_def split: option.split)

text \<open>
  When the pipeline reports the end of an item, the active source is told before its control
  surface is dropped, and then the manager is idle: controls cleared, overlay cleared, pipeline
  stopped, in this order and whatever any of the calls answers.
\<close>

theorem end_report_then_idle:
  assumes "sm_active s = Some src"
  shows "media_ended env fin s = s\<lparr>sm_active := None, sm_casting := False, sm_remote := None, sm_touch := None,
      sm_description := description_new,
      sm_calls := sm_calls s @ (case sm_remote s of None \<Rightarrow> [] | Some r \<Rightarrow> [RemoteEnded r fin]) @ cancel_call s
        @ [PipeControls cap_none] @ (if sm_osd s then [OsdClear] else []) @ [PipeStop]\<rparr>"
  using assms by (rule media_ended_eq)

theorem asleep_display_starts_nothing:
  assumes "sm_active s = None" "sm_display s" "start_call ev = Some c"
    and "env_answer env (sm_calls s) DisplayPowerOn = Some e"
  shows "handle env src ev s = (Inl e, s\<lparr>sm_calls := sm_calls s @ [DisplayPowerOn]\<rparr>)"
  using assms unfolding handle_start [OF assms(3)] by (simp add: manager_defs)

section \<open>What the manager asks of others\<close>

text \<open>
  Every command sent to a remote, after the calls \<open>before\<close> it, is one the remote advertised at
  that moment.
\<close>

fun advertised :: "'m env \<Rightarrow> 'm call list \<Rightarrow> 'm call list \<Rightarrow> bool" where
  "advertised env before [] = True"
| "advertised env before (RemoteIssue r txn # calls) \<longleftrightarrow>
     cap_supports (env_caps env before r) txn \<and> advertised env (before @ [RemoteIssue r txn]) calls"
| "advertised env before (c # calls) \<longleftrightarrow> advertised env (before @ [c]) calls"

lemma advertised_append [simp]:
  "advertised env before (xs @ ys) \<longleftrightarrow> advertised env before xs \<and> advertised env (before @ xs) ys"
  by (induction env before xs rule: advertised.induct) auto

lemma advertised_handle:
  "advertised env [] (sm_calls s) \<Longrightarrow> advertised env [] (sm_calls (snd (handle env src ev s)))"
  by (cases ev) (auto simp: manager_defs split: prod.split sum.split option.split)

lemma advertised_step:
  "advertised env [] (sm_calls s) \<Longrightarrow> advertised env [] (sm_calls (manager_step env i s))"
proof (cases i)
  case (MediaEnded fin)
  assume ok: "advertised env [] (sm_calls s)"
  then have "advertised env [] (sm_calls (attempt (call env (RemoteEnded r fin)) s))" for r
    by (simp add: attempt_def call_def record_call_def)
  with ok show ?thesis
    by (auto simp: MediaEnded media_ended_def Let_def attempt_def simp del: handle.simps split: option.split
        intro!: advertised_handle)
qed (simp add: attempt_def advertised_handle del: handle.simps)

text \<open>
  No command ever reaches a sender that did not advertise it: of all the calls of any run, each
  command sent to a remote is one its capabilities included at that moment.
\<close>

theorem remote_asked_within_capabilities:
  assumes "sm_calls (fold (manager_step env) inputs (manager_new display osd config)) = before @ RemoteIssue r txn # after"
  shows "cap_supports (env_caps env before r) txn"
proof -
  have "advertised env [] (sm_calls s0) \<Longrightarrow> advertised env [] (sm_calls (fold (manager_step env) inputs s0))" for s0
    by (induction inputs arbitrary: s0) (simp_all add: advertised_step)
  then have "advertised env [] (before @ RemoteIssue r txn # after)"
    unfolding assms [symmetric] by (simp add: manager_new_def)
  then show ?thesis by simp
qed

fun wakes_display :: "'m call \<Rightarrow> bool" where
  "wakes_display DisplayPowerOn = True"
| "wakes_display (DisplaySelect _) = True"
| "wakes_display _ = False"

theorem display_woken_only_from_idle:
  assumes "sm_active s \<noteq> None"
  shows "\<exists>new. sm_calls (manager_step env i s) = sm_calls s @ new \<and> \<not> (\<exists>c\<in>set new. wakes_display c)"
proof (cases i)
  case (Message src ev)
  show ?thesis
    using assms by (cases ev) (auto simp: Message manager_defs split: prod.split sum.split option.split)
next
  case (MediaEnded fin)
  then show ?thesis using assms by (auto simp: media_ended_eq cancel_call_def split: option.split)
qed

section \<open>A session of two sources\<close>

definition sample_env :: "nat env" where
  "sample_env = \<lparr>env_answer = (\<lambda>_ _. None), env_caps = (\<lambda>_ _. 0x02), env_debug = (\<lambda>_. '''')\<rparr>"

definition phone :: source_id where "phone = \<lparr>src_kind = Bluetooth, src_instance = ''phone''\<rparr>"
definition tablet :: source_id where "tablet = \<lparr>src_kind = AirPlay, src_instance = ''tablet''\<rparr>"

definition sample_inputs :: "nat input list" where
  "sample_inputs = [Message phone (Audio 1), Message phone (ControlSurface 7), Message tablet (Play 2)]"

definition sample_manager :: "nat manager" where
  "sample_manager = (manager_new True False config_default)\<lparr>sm_active := Some phone, sm_casting := True, sm_remote := Some 7\<rparr>"

lemma sources_differ [simp]: "phone \<noteq> tablet" "tablet \<noteq> phone"
  by (simp_all add: phone_def tablet_def)

lemma handles_belong_to_active_witness:
  "list_all (published_by (\<lambda>_. phone) (\<lambda>_. phone)) [Message phone (Audio 1), Message phone (ControlSurface 7)] \<and>
   sm_remote (fold (manager_step sample_env) [Message phone (Audio 1), Message phone (ControlSurface 7)] (manager_new True True config_default)) = Some 7 \<and>
   sm_active (fold (manager_step sample_env) [Message phone (Audio 1), Message phone (ControlSurface 7)] (manager_new True True config_default)) = Some phone"
proof -
  have "list_all (published_by (\<lambda>_. phone) (\<lambda>_. phone)) [Message phone (Audio 1), Message phone (ControlSurface 7)]" by simp
  moreover have "sm_remote (fold (manager_step sample_env) [Message phone (Audio 1), Message phone (ControlSurface 7)] (manager_new True True config_default)) = Some 7"
    by (simp add: manager_defs sample_env_def manager_new_def config_default_def)
  moreover note handles_belong_to_active [OF calculation(1) refl, of sample_env True True config_default]
  ultimately show ?thesis by blast
qed

lemma background_source_ignored_witness:
  "handle sample_env tablet (NowPlaying 3) sample_manager = (Inl (NoActiveSession ''airplay/tablet''), sample_manager)"
proof -
  have "sm_active sample_manager \<noteq> Some tablet" by (simp add: sample_manager_def)
  from background_source_ignored [OF this, of "NowPlaying 3" sample_env]
  show ?thesis by (simp add: source_string_def tablet_def)
qed

lemma newest_sender_takes_over_witness:
  "sm_calls (snd (handle sample_env tablet (Play 2) sample_manager)) = [RemoteIssue 7 TxnPause, PipeStop, PipePlay 2]"
proof -
  have "sm_active sample_manager = Some phone" "phone \<noteq> tablet" "start_call (Play 2) = Some (PipePlay (2 :: nat))"
    by (simp_all add: sample_manager_def)
  from newest_sender_takes_over [OF this, of sample_env]
  obtain result where "handle sample_env tablet (Play 2) sample_manager = (result, sample_manager
     \<lparr>sm_active := Some tablet, sm_casting := True, sm_remote := None, sm_touch := None,
      sm_description := description_new, sm_calls := sm_calls sample_manager @ pause_call sample_env sample_manager
        @ [PipeStop] @ cancel_call sample_manager @ (if sm_osd sample_manager
          then [OsdShow (''Now casting from '' @ source_string tablet) (sc_osd_ttl (sm_config sample_manager))] else [])
        @ [PipePlay 2]\<rparr>)" by blast
  then show ?thesis
    by (simp add: sample_manager_def manager_new_def pause_call_def cancel_call_def sample_env_def cap_supports_def cap_contains_def
        del: handle.simps)
qed

lemma end_report_then_idle_witness:
  "sm_calls (media_ended sample_env Finished sample_manager) = [RemoteEnded 7 Finished, PipeControls 0, PipeStop]"
proof -
  have "sm_active sample_manager = Some phone" by (simp add: sample_manager_def)
  from end_report_then_idle [OF this, of sample_env Finished] show ?thesis
    by (simp add: sample_manager_def manager_new_def cancel_call_def cap_none_def)
qed

lemma remote_asked_within_capabilities_witness:
  "cap_supports (env_caps sample_env [DisplayPowerOn, DisplaySelect Hdmi1, PipeAudio 1, PipeControls 2] 7) (TxnPause :: nat control_txn)"
proof -
  have "sm_calls (fold (manager_step sample_env) sample_inputs (manager_new True False config_default))
      = [DisplayPowerOn, DisplaySelect Hdmi1, PipeAudio 1, PipeControls 2] @ RemoteIssue 7 TxnPause # [PipeStop, PipePlay 2]"
    by (simp add: sample_inputs_def manager_defs sample_env_def manager_new_def config_default_def
        cap_supports_def cap_contains_def)
  then show ?thesis by (rule remote_asked_within_capabilities)
qed

end
