(* ===== verification/Sdp_Element.thy ===== *)
theory Sdp_Element
  imports Wire
begin

text \<open>
  \<^verbatim>\<open>crates/substrate-sdp/src/uuid.rs\<close>, \<^verbatim>\<open>error.rs\<close> and \<^verbatim>\<open>element.rs\<close>: Bluetooth UUIDs and the
  self-describing data elements every service record is built from. An \<open>i64\<close> is the 64-bit
  word of its two's complement.
\<close>

section \<open>UUIDs\<close>

definition uuid_base :: bytes where
  "uuid_base = [0x00, 0x00, 0x00, 0x00, 0x00, 0x00, 0x10, 0x00, 0x80, 0x00, 0x00, 0x80, 0x5F, 0x9B, 0x34, 0xFB]"

datatype uuid_width = ShortUuid | MediumUuid | LongUuid

record uuid =
  uuid_bytes :: bytes
  uuid_width :: uuid_width

definition uuid_short :: "u16 \<Rightarrow> uuid" where
  "uuid_short v = \<lparr> uuid_bytes = (uuid_base[2 := ucast (drop_bit 8 v)])[3 := ucast v], uuid_width = ShortUuid \<rparr>"

definition uuid_medium :: "u32 \<Rightarrow> uuid" where
  "uuid_medium v =
     \<lparr> uuid_bytes = (((uuid_base[0 := ucast (drop_bit 24 v)])[1 := ucast (drop_bit 16 v)])
                       [2 := ucast (drop_bit 8 v)])[3 := ucast v],
       uuid_width = MediumUuid \<rparr>"

definition uuid_long :: "bytes \<Rightarrow> uuid" where
  "uuid_long bs = \<lparr> uuid_bytes = bs, uuid_width = LongUuid \<rparr>"

definition uuid_as_short :: "uuid \<Rightarrow> u16 option" where
  "uuid_as_short u =
     (let probe = (uuid_bytes u)[2 := 0, 3 := 0] in
      if probe = uuid_base \<and> uuid_bytes u ! 0 = 0 \<and> uuid_bytes u ! 1 = 0
      then Some (from_be16 (uuid_bytes u ! 2) (uuid_bytes u ! 3)) else None)"

section \<open>Errors\<close>

datatype sdp_error =
    Truncated string nat nat
  | BadElement string nat
  | UnsupportedPdu u8
  | PeerError u16
  | ContinuationTooLong nat
  | Missing string
  | TooDeep nat
  | TooLarge string nat nat

text \<open>
  How a decode ends without a value: with an error of the crate; with a panic, where an
  arithmetic operation of a build that checks them overflows; or without fuel, which stands for
  a loop that does not end.
\<close>

datatype sdp_fault = Failed sdp_error | Panicked | OutOfFuel

section \<open>Data elements\<close>

datatype data_element =
    Nil_Element
  | Uint u64
  | Uint32 u32
  | Uint16 u16
  | Int_Element u64
  | Uuid uuid
  | TextString bytes
  | Bool_Element bool
  | Sequence "data_element list"
  | Alternative "data_element list"
  | Url bytes

definition type_nil :: u8 where "type_nil = 0"
definition type_uint :: u8 where "type_uint = 1"
definition type_int :: u8 where "type_int = 2"
definition type_uuid :: u8 where "type_uuid = 3"
definition type_text :: u8 where "type_text = 4"
definition type_bool :: u8 where "type_bool = 5"
definition type_sequence :: u8 where "type_sequence = 6"
definition type_alternative :: u8 where "type_alternative = 7"
definition type_url :: u8 where "type_url = 8"

definition max_depth :: nat where "max_depth = 16"

lemmas type_defs = type_nil_def type_uint_def type_int_def type_uuid_def type_text_def type_bool_def
  type_sequence_def type_alternative_def type_url_def

definition uuid_seq :: "uuid list \<Rightarrow> data_element" where
  "uuid_seq us = Sequence (map Uuid us)"

section \<open>Encoding\<close>

definition element_tag :: "u8 \<Rightarrow> u8 \<Rightarrow> u8" where
  "element_tag kind size_index = push_bit 3 kind OR size_index"

definition put_uint :: "u64 \<Rightarrow> bytes" where
  "put_uint v =
     (if unat v < 2 ^ 8 then [element_tag type_uint 0, ucast v]
      else if unat v < 2 ^ 16 then element_tag type_uint 1 # be16 (ucast v)
      else if unat v < 2 ^ 32 then element_tag type_uint 2 # be32 (ucast v)
      else element_tag type_uint 3 # be64 v)"

definition fits_signed :: "nat \<Rightarrow> u64 \<Rightarrow> bool" where
  "fits_signed n v \<longleftrightarrow> - (2 ^ (n - 1)) \<le> sint v \<and> sint v < 2 ^ (n - 1)"

definition put_int :: "u64 \<Rightarrow> bytes" where
  "put_int v =
     (if fits_signed 8 v then [element_tag type_int 0, ucast v]
      else if fits_signed 16 v then element_tag type_int 1 # be16 (ucast v)
      else if fits_signed 32 v then element_tag type_int 2 # be32 (ucast v)
      else element_tag type_int 3 # be64 v)"

definition put_uuid :: "uuid \<Rightarrow> bytes" where
  "put_uuid u =
     (case uuid_width u of
        ShortUuid \<Rightarrow> element_tag type_uuid 1 # be16 (case uuid_as_short u of Some v \<Rightarrow> v | None \<Rightarrow> 0)
      | MediumUuid \<Rightarrow> element_tag type_uuid 2 # take 4 (uuid_bytes u)
      | LongUuid \<Rightarrow> element_tag type_uuid 4 # uuid_bytes u)"

definition put_string :: "u8 \<Rightarrow> bytes \<Rightarrow> bytes" where
  "put_string kind body =
     (if length body < 2 ^ 8 then [element_tag kind 5, of_nat (length body)]
      else element_tag kind 6 # be16 (u16_or_max (length body))) @ body"

definition put_container :: "u8 \<Rightarrow> bytes \<Rightarrow> bytes" where
  "put_container kind body =
     (if length body < 2 ^ 8 then [element_tag kind 5, of_nat (length body)]
      else element_tag kind 6 # be16 (u16_or_max (length body))) @ body"

fun element_encode :: "data_element \<Rightarrow> bytes" where
  "element_encode Nil_Element = [element_tag type_nil 0]"
| "element_encode (Uint v) = put_uint v"
| "element_encode (Uint16 v) = element_tag type_uint 1 # be16 v"
| "element_encode (Uint32 v) = element_tag type_uint 2 # be32 v"
| "element_encode (Int_Element v) = put_int v"
| "element_encode (Uuid u) = put_uuid u"
| "element_encode (Bool_Element b) = [element_tag type_bool 0, if b then 1 else 0]"
| "element_encode (TextString s) = put_string type_text s"
| "element_encode (Url s) = put_string type_url s"
| "element_encode (Sequence items) = put_container type_sequence (concat (map element_encode items))"
| "element_encode (Alternative items) = put_container type_alternative (concat (map element_encode items))"

section \<open>Decoding\<close>

definition sdp_at :: "bytes \<Rightarrow> nat \<Rightarrow> sdp_fault + u8" where
  "sdp_at buf i = (if i < length buf then Inr (buf ! i) else Inl (Failed (Truncated ''data element length'' (i + 1) (length buf))))"

definition be_uint :: "bytes \<Rightarrow> u64" where
  "be_uint body = fold (\<lambda>b acc. push_bit 8 acc OR ucast b) body 0"

text \<open>
  \<open>bits - 1\<close> is a subtraction of \<open>usize\<close>, which overflows on an empty body. A build with overflow
  checks panics there.
\<close>

definition be_int :: "bytes \<Rightarrow> u64 option" where
  "be_int body =
     (let raw = be_uint body; bits = length body * 8 in
      if bits < 64 then
        if bits = 0 then None
        else Some (if raw AND push_bit (bits - 1) 1 \<noteq> 0 then raw - push_bit bits 1 else raw)
      else Some raw)"

text \<open>The type, the length of the header and the length of the body that a header announces.\<close>

definition split_header :: "bytes \<Rightarrow> sdp_fault + (u8 \<times> nat \<times> nat)" where
  "split_header buf =
     (case buf of [] \<Rightarrow> Inl (Failed (Truncated ''data element header'' 1 0))
      | header # _ \<Rightarrow>
        let kind = drop_bit 3 header; size_index = header AND 0x07 in
        if size_index = 0 then Inr (kind, 1, if kind = type_nil then 0 else 1)
        else if size_index = 1 then Inr (kind, 1, 2)
        else if size_index = 2 then Inr (kind, 1, 4)
        else if size_index = 3 then Inr (kind, 1, 8)
        else if size_index = 4 then Inr (kind, 1, 16)
        else if size_index = 5 then bindE (sdp_at buf 1) (\<lambda>a. Inr (kind, 2, unat a))
        else if size_index = 6 then
          bindE (sdp_at buf 1) (\<lambda>a. bindE (sdp_at buf 2) (\<lambda>b. Inr (kind, 3, unat (from_be16 a b))))
        else
          bindE (sdp_at buf 1) (\<lambda>a. bindE (sdp_at buf 2) (\<lambda>b. bindE (sdp_at buf 3) (\<lambda>c.
          bindE (sdp_at buf 4) (\<lambda>d. Inr (kind, 5, unat (from_be32 a b c d)))))))"

text \<open>The types without elements of their own.\<close>

definition decode_scalar :: "u8 \<Rightarrow> bytes \<Rightarrow> sdp_fault + data_element" where
  "decode_scalar kind body =
     (if kind = type_nil then Inr Nil_Element
      else if kind = type_uint then Inr (Uint (be_uint body))
      else if kind = type_int then
        (case be_int body of None \<Rightarrow> Inl Panicked | Some v \<Rightarrow> Inr (Int_Element v))
      else if kind = type_uuid then
        (if length body = 2 then Inr (Uuid (uuid_short (u16_be_at body 0)))
         else if length body = 4 then Inr (Uuid (uuid_medium (u32_be_at body 0)))
         else if length body = 16 then Inr (Uuid (uuid_long body))
         else Inl (Failed (BadElement ''uuid width'' (length body))))
      else if kind = type_text then Inr (TextString (utf8_lossy body))
      else if kind = type_url then Inr (Url (utf8_lossy body))
      else if kind = type_bool then Inr (Bool_Element (case body of [] \<Rightarrow> False | b # _ \<Rightarrow> b \<noteq> 0))
      else Inl (Failed (BadElement ''element type'' (unat kind))))"

text \<open>The loop over the body of a container. Fuel for each of its bytes is enough.\<close>

fun decode_items :: "(bytes \<Rightarrow> sdp_fault + (data_element \<times> nat)) \<Rightarrow> nat \<Rightarrow> bytes \<Rightarrow> sdp_fault + data_element list" where
  "decode_items dec fuel [] = Inr []"
| "decode_items dec 0 (b # bs) = Inl OutOfFuel"
| "decode_items dec (Suc fuel) (b # bs) =
     bindE (dec (b # bs)) (\<lambda>(item, used).
     bindE (decode_items dec fuel (drop used (b # bs))) (\<lambda>items. Inr (item # items)))"

function decode_at :: "nat \<Rightarrow> bytes \<Rightarrow> sdp_fault + (data_element \<times> nat)" where
  "decode_at depth buf =
     (if max_depth < depth then Inl (Failed (TooDeep max_depth))
      else bindE (split_header buf) (\<lambda>(kind, header_len, body_len).
        let total = header_len + body_len in
        if length buf < total then Inl (Failed (Truncated ''data element body'' total (length buf)))
        else
          let body = take body_len (drop header_len buf) in
          if kind = type_sequence \<or> kind = type_alternative then
            bindE (decode_items (decode_at (depth + 1)) (length body) body) (\<lambda>items.
              Inr (if kind = type_sequence then Sequence items else Alternative items, total))
          else bindE (decode_scalar kind body) (\<lambda>e. Inr (e, total))))"
  by pat_completeness auto
termination by (relation "measure (\<lambda>(depth, _). Suc max_depth - depth)") auto

declare decode_at.simps [simp del]

definition element_decode :: "bytes \<Rightarrow> sdp_fault + (data_element \<times> nat)" where
  "element_decode buf = decode_at 0 buf"

definition as_sequence :: "data_element \<Rightarrow> data_element list option" where
  "as_sequence e = (case e of Sequence v \<Rightarrow> Some v | Alternative v \<Rightarrow> Some v | _ \<Rightarrow> None)"

definition as_uuid :: "data_element \<Rightarrow> uuid option" where
  "as_uuid e = (case e of Uuid u \<Rightarrow> Some u | _ \<Rightarrow> None)"

definition as_uint :: "data_element \<Rightarrow> u64 option" where
  "as_uint e = (case e of Uint v \<Rightarrow> Some v | Uint16 v \<Rightarrow> Some (ucast v) | Uint32 v \<Rightarrow> Some (ucast v) | _ \<Rightarrow> None)"

section \<open>Integers\<close>

lemma be_uint_snoc: "be_uint (bs @ [b]) = push_bit 8 (be_uint bs) OR ucast b"
  by (simp add: be_uint_def)

lemma be_uint_append: "be_uint (xs @ ys) = push_bit (8 * length ys) (be_uint xs) OR be_uint ys"
proof (induction ys rule: rev_induct)
  case Nil
  then show ?case by (simp add: be_uint_def)
next
  case (snoc y ys)
  then show ?case
    by (simp add: be_uint_snoc push_bit_or or.assoc flip: append_assoc)
qed

lemma be_uint_singleton: "be_uint [b] = ucast b"
  by (simp add: be_uint_def)

lemma be_uint_be16: "be_uint (be16 w) = ucast w"
proof (rule bit_word_eqI)
  fix n
  assume "n < LENGTH(64)"
  then show "bit (be_uint (be16 w)) n = bit (ucast w :: u64) n"
    by (cases "n < 8") (auto simp: be_uint_def be16_def bit_simps dest: bit_imp_le_length)
qed

lemma be32_split: "be32 w = be16 (ucast (drop_bit 16 w)) @ be16 (ucast w)"
proof -
  have "ucast (drop_bit 24 w) = (ucast (drop_bit 8 (ucast (drop_bit 16 w) :: u16)) :: u8)"
    "ucast (drop_bit 16 w) = (ucast (ucast (drop_bit 16 w) :: u16) :: u8)"
    "ucast (drop_bit 8 w) = (ucast (drop_bit 8 (ucast w :: u16)) :: u8)"
    "ucast w = (ucast (ucast w :: u16) :: u8)"
    by (rule bit_word_eqI; auto simp: bit_simps)+
  then show ?thesis by (simp add: be32_def be16_def)
qed

lemma be_uint_be32: "be_uint (be32 w) = ucast w"
proof (rule bit_word_eqI)
  fix n
  assume "n < LENGTH(64)"
  then show "bit (be_uint (be32 w)) n = bit (ucast w :: u64) n"
    by (cases "n < 16") (auto simp: be32_split be_uint_append be_uint_be16 bit_simps dest: bit_imp_le_length)
qed

lemma be_uint_be64: "be_uint (be64 w) = w"
proof (rule bit_word_eqI)
  fix n
  assume "n < LENGTH(64)"
  then show "bit (be_uint (be64 w)) n = bit w n"
    by (cases "n < 32") (auto simp: be64_def be_uint_append be_uint_be32 bit_simps dest: bit_imp_le_length)
qed

lemma ucast_shrink:
  "unat (v :: u64) < 2 ^ LENGTH('a) \<Longrightarrow> ucast (ucast v :: 'a::len word) = v"
  by (simp add: word_unat_eq_iff unsigned_ucast_eq unsigned_take_bit_eq take_bit_nat_eq_self)

text \<open>A narrowed signed integer is what sign extension of its low bits gives back.\<close>

definition sign_extend :: "nat \<Rightarrow> u64 \<Rightarrow> u64" where
  "sign_extend n raw = (if raw AND push_bit (n - 1) 1 \<noteq> 0 then raw - push_bit n 1 else raw)"

lemma and_push_bit_1: "(w :: 'a::len word) AND push_bit n 1 \<noteq> 0 \<longleftrightarrow> bit w n"
  by (metis (no_types, lifting) bit_iff_and_push_bit_not_eq_0)

lemma sign_extend_narrow:
  assumes "0 < n" "n < 64" "fits_signed n v"
  shows "sign_extend n (take_bit n v) = v"
proof -
  obtain m where n: "n = Suc m" using assms(1) by (cases n) auto
  have v: "word_of_int (sint v) = v" by simp
  have bit_iff: "bit (sint v) m \<longleftrightarrow> bit v m"
    using assms(2) n by (simp add: bit_sint_iff)
  have "signed_take_bit m (sint v) = sint v"
    using assms(3) n by (simp add: fits_signed_def signed_take_bit_int_eq_self)
  then have "sint v = take_bit n (sint v) - 2 ^ n * of_bool (bit v m)"
    using signed_take_bit_eq_take_bit_minus [of m "sint v"] n bit_iff by simp
  then have "v = word_of_int (take_bit n (sint v) - 2 ^ n * of_bool (bit v m))"
    by (metis v)
  then have "v = word_of_int (take_bit n (sint v)) - 2 ^ n * of_bool (bit v m)"
    by (simp only: of_int_diff of_int_mult of_int_power of_int_numeral of_int_of_bool)
  moreover have "word_of_int (take_bit n (sint v)) = take_bit n v"
    using assms(2) by (intro bit_word_eqI) (auto simp: bit_simps)
  ultimately have "v = take_bit n v - 2 ^ n * of_bool (bit v m)" by simp
  then show ?thesis
    using n unfolding sign_extend_def and_push_bit_1
    by (cases "bit v m") (simp_all add: bit_take_bit_iff push_bit_eq_mult)
qed

lemma be_int_sign_extend:
  "\<lbrakk>bs \<noteq> []; length bs < 8\<rbrakk> \<Longrightarrow> be_int bs = Some (sign_extend (8 * length bs) (be_uint bs))"
  by (simp add: be_int_def sign_extend_def Let_def mult.commute)

lemma put_int_decode:
  "fits_signed 8 v \<Longrightarrow> be_int [ucast v] = Some v"
  "fits_signed 16 v \<Longrightarrow> be_int (be16 (ucast v)) = Some v"
  "fits_signed 32 v \<Longrightarrow> be_int (be32 (ucast v)) = Some v"
  "be_int (be64 v) = Some v"
proof -
  have u: "ucast (ucast v :: u8) = take_bit 8 v" "ucast (ucast v :: u16) = take_bit 16 v"
    "ucast (ucast v :: u32) = take_bit 32 v"
    by (rule bit_word_eqI; auto simp: bit_simps)+
  show "fits_signed 8 v \<Longrightarrow> be_int [ucast v] = Some v"
    "fits_signed 16 v \<Longrightarrow> be_int (be16 (ucast v)) = Some v"
    "fits_signed 32 v \<Longrightarrow> be_int (be32 (ucast v)) = Some v"
    by (simp_all add: be_int_sign_extend be_uint_singleton be_uint_be16 be_uint_be32 u sign_extend_narrow)
  show "be_int (be64 v) = Some v" by (simp add: be_int_def be_uint_be64)
qed

section \<open>Headers\<close>

lemma bindE_cong [fundef_cong]:
  "\<lbrakk>r = r'; \<And>a. r' = Inr a \<Longrightarrow> f a = g a\<rbrakk> \<Longrightarrow> bindE r f = bindE r' g"
  by (cases r') auto

lemma element_tags [simp]:
  "element_tag type_nil 0 = 0x00" "element_tag type_uint 0 = 0x08" "element_tag type_uint 1 = 0x09"
  "element_tag type_uint 2 = 0x0A" "element_tag type_uint 3 = 0x0B" "element_tag type_int 0 = 0x10"
  "element_tag type_int 1 = 0x11" "element_tag type_int 2 = 0x12" "element_tag type_int 3 = 0x13"
  "element_tag type_uuid 1 = 0x19" "element_tag type_uuid 2 = 0x1A" "element_tag type_uuid 4 = 0x1C"
  "element_tag type_bool 0 = 0x28" "element_tag type_text 5 = 0x25" "element_tag type_text 6 = 0x26"
  "element_tag type_sequence 5 = 0x35" "element_tag type_sequence 6 = 0x36"
  "element_tag type_alternative 5 = 0x3D" "element_tag type_alternative 6 = 0x3E"
  "element_tag type_url 5 = 0x45" "element_tag type_url 6 = 0x46"
  by (simp_all add: element_tag_def type_defs)

lemma split_fixed [simp]:
  "split_header (0x00 # bs) = Inr (type_nil, 1, 0)"
  "split_header (0x08 # bs) = Inr (type_uint, 1, 1)"
  "split_header (0x09 # bs) = Inr (type_uint, 1, 2)"
  "split_header (0x0A # bs) = Inr (type_uint, 1, 4)"
  "split_header (0x0B # bs) = Inr (type_uint, 1, 8)"
  "split_header (0x10 # bs) = Inr (type_int, 1, 1)"
  "split_header (0x11 # bs) = Inr (type_int, 1, 2)"
  "split_header (0x12 # bs) = Inr (type_int, 1, 4)"
  "split_header (0x13 # bs) = Inr (type_int, 1, 8)"
  "split_header (0x19 # bs) = Inr (type_uuid, 1, 2)"
  "split_header (0x1A # bs) = Inr (type_uuid, 1, 4)"
  "split_header (0x1C # bs) = Inr (type_uuid, 1, 16)"
  "split_header (0x28 # bs) = Inr (type_bool, 1, 1)"
  by (simp_all add: split_header_def type_defs Let_def)

text \<open>The header in front of a body of variable length, which \<open>put_string\<close> and \<open>put_container\<close> write.\<close>

definition sized_header :: "u8 \<Rightarrow> nat \<Rightarrow> bytes" where
  "sized_header kind n =
     (if n < 2 ^ 8 then [element_tag kind 5, of_nat n] else element_tag kind 6 # be16 (u16_or_max n))"

lemma put_sized: "put_string kind body = sized_header kind (length body) @ body"
  "put_container kind body = sized_header kind (length body) @ body"
  by (simp_all add: put_string_def put_container_def sized_header_def)

lemma u16_or_max_fits: "n < 65536 \<Longrightarrow> u16_or_max n = of_nat n"
  by (simp add: u16_or_max_def u16_try_from_def)

lemma split_sized:
  assumes "n < 65536" "kind \<in> {type_text, type_url, type_sequence, type_alternative}"
  shows "split_header (sized_header kind n @ bs) = Inr (kind, length (sized_header kind n), n)"
proof (cases "n < 256")
  case True
  then show ?thesis
    using assms(2) by (auto simp: sized_header_def split_header_def sdp_at_def type_defs Let_def element_tag_def)
next
  case False
  then show ?thesis
    using assms by (auto simp: sized_header_def split_header_def sdp_at_def type_defs Let_def be16_def
      u16_or_max_fits element_tag_def)
qed

lemma length_sized_header: "0 < length (sized_header kind n)" "length (sized_header kind n) \<le> 3"
  by (auto simp: sized_header_def)

lemma split_header_positive: "split_header buf = Inr (kind, hl, bl) \<Longrightarrow> 0 < hl"
  by (auto simp: split_header_def Let_def bindE_eq_Inr split: list.splits if_splits)

section \<open>Round trip\<close>

text \<open>
  What the encoder can represent: a UUID of the width it claims, strings of valid UTF-8, and
  bodies whose length fits the two-byte field.
\<close>

definition uuid_wf :: "uuid \<Rightarrow> bool" where
  "uuid_wf u \<longleftrightarrow> length (uuid_bytes u) = 16 \<and>
     (case uuid_width u of
        ShortUuid \<Rightarrow> uuid_as_short u \<noteq> None
      | MediumUuid \<Rightarrow> drop 4 (uuid_bytes u) = drop 4 uuid_base
      | LongUuid \<Rightarrow> True)"

fun element_wf :: "data_element \<Rightarrow> bool" where
  "element_wf (Uuid u) = uuid_wf u"
| "element_wf (TextString s) = (utf8_lossy s = s \<and> length s < 2 ^ 16)"
| "element_wf (Url s) = (utf8_lossy s = s \<and> length s < 2 ^ 16)"
| "element_wf (Sequence items) =
     (list_all element_wf items \<and> length (concat (map element_encode items)) < 2 ^ 16)"
| "element_wf (Alternative items) =
     (list_all element_wf items \<and> length (concat (map element_encode items)) < 2 ^ 16)"
| "element_wf _ = True"

text \<open>How many sequences lie around the innermost element.\<close>

fun element_depth :: "data_element \<Rightarrow> nat" where
  "element_depth (Sequence items) = foldr max (map (\<lambda>x. Suc (element_depth x)) items) 0"
| "element_depth (Alternative items) = foldr max (map (\<lambda>x. Suc (element_depth x)) items) 0"
| "element_depth _ = 0"

text \<open>A decoded integer has lost the width it was pinned to.\<close>

fun unpinned :: "data_element \<Rightarrow> data_element" where
  "unpinned (Uint16 v) = Uint (ucast v)"
| "unpinned (Uint32 v) = Uint (ucast v)"
| "unpinned (Sequence items) = Sequence (map unpinned items)"
| "unpinned (Alternative items) = Alternative (map unpinned items)"
| "unpinned e = e"

lemma foldr_max_le: "foldr max xs (0 :: nat) \<le> n \<longleftrightarrow> (\<forall>x\<in>set xs. x \<le> n)"
  by (induction xs) auto

lemma decode_items_concat:
  assumes "\<And>x rest. x \<in> set items \<Longrightarrow> dec (element_encode x @ rest) = Inr (f x, length (element_encode x))"
    and "\<And>x. x \<in> set items \<Longrightarrow> element_encode x \<noteq> []"
    and "length (concat (map element_encode items)) \<le> fuel"
  shows "decode_items dec fuel (concat (map element_encode items)) = Inr (map f items)"
  using assms
proof (induction items arbitrary: fuel)
  case Nil
  then show ?case by (cases fuel) simp_all
next
  case (Cons x items)
  obtain b bs where e: "element_encode x = b # bs"
    using Cons.prems(2) [of x] by (cases "element_encode x") auto
  obtain n where fuel: "fuel = Suc n"
    using Cons.prems(3) e by (cases fuel) auto
  have "dec (b # bs @ concat (map element_encode items)) = Inr (f x, Suc (length bs))"
    using Cons.prems(1) [of x "concat (map element_encode items)"] e by simp
  moreover have "decode_items dec n (concat (map element_encode items)) = Inr (map f items)"
    using Cons.prems fuel e by (intro Cons.IH) auto
  ultimately show ?case by (simp add: fuel e)
qed

lemma element_encode_not_Nil: "element_wf e \<Longrightarrow> element_encode e \<noteq> []"
  by (cases e) (auto simp: put_uint_def put_int_def put_uuid_def put_sized sized_header_def split: uuid_width.splits)

lemma from_be16_parts: "ucast (drop_bit 8 (from_be16 a b)) = a" "ucast (from_be16 a b) = b"
  by (rule bit_word_eqI; auto simp: from_be16_def bit_simps dest: bit_imp_le_length)+

lemma from_be32_parts:
  "ucast (drop_bit 24 (from_be32 a b c d)) = a" "ucast (drop_bit 16 (from_be32 a b c d)) = b"
  "ucast (drop_bit 8 (from_be32 a b c d)) = c" "ucast (from_be32 a b c d) = d"
  by (rule bit_word_eqI; auto simp: from_be32_def bit_simps dest: bit_imp_le_length)+

lemma decode_scalar_kinds [simp]:
  "decode_scalar type_nil body = Inr Nil_Element"
  "decode_scalar type_uint body = Inr (Uint (be_uint body))"
  "decode_scalar type_int body = (case be_int body of None \<Rightarrow> Inl Panicked | Some v \<Rightarrow> Inr (Int_Element v))"
  "decode_scalar type_uuid body =
     (if length body = 2 then Inr (Uuid (uuid_short (u16_be_at body 0)))
      else if length body = 4 then Inr (Uuid (uuid_medium (u32_be_at body 0)))
      else if length body = 16 then Inr (Uuid (uuid_long body))
      else Inl (Failed (BadElement ''uuid width'' (length body))))"
  "decode_scalar type_text body = Inr (TextString (utf8_lossy body))"
  "decode_scalar type_url body = Inr (Url (utf8_lossy body))"
  "decode_scalar type_bool body = Inr (Bool_Element (case body of [] \<Rightarrow> False | b # _ \<Rightarrow> b \<noteq> 0))"
  by (simp_all add: decode_scalar_def type_defs)

lemma container_kinds [simp]:
  "type_nil \<noteq> type_sequence" "type_nil \<noteq> type_alternative" "type_uint \<noteq> type_sequence"
  "type_uint \<noteq> type_alternative" "type_int \<noteq> type_sequence" "type_int \<noteq> type_alternative"
  "type_uuid \<noteq> type_sequence" "type_uuid \<noteq> type_alternative" "type_text \<noteq> type_sequence"
  "type_text \<noteq> type_alternative" "type_url \<noteq> type_sequence" "type_url \<noteq> type_alternative"
  "type_bool \<noteq> type_sequence" "type_bool \<noteq> type_alternative" "type_alternative \<noteq> type_sequence"
  by (simp_all add: type_defs)

lemma short_uuid_bytes:
  assumes "uuid_as_short u = Some v"
  shows "uuid_bytes u = uuid_bytes (uuid_short v)"
proof -
  let ?b = "uuid_bytes u"
  have base: "?b[2 := 0, 3 := 0] = uuid_base" and v: "v = from_be16 (?b ! 2) (?b ! 3)"
    using assms by (auto simp: uuid_as_short_def Let_def split: if_splits)
  have "?b = (?b[2 := 0, 3 := 0])[2 := ?b ! 2, 3 := ?b ! 3]"
    by (simp add: list_update_swap [of 2 3])
  then show ?thesis
    by (simp add: base uuid_short_def v from_be16_parts)
qed

lemma take_4: "4 \<le> length bs \<Longrightarrow> take 4 bs = [bs ! 0, bs ! 1, bs ! 2, bs ! 3]"
  by (cases bs; cases "tl bs"; cases "tl (tl bs)"; cases "tl (tl (tl bs))") auto

lemma medium_uuid_bytes:
  assumes "uuid_wf u" "uuid_width u = MediumUuid"
  shows "uuid_medium (u32_be_at (take 4 (uuid_bytes u)) 0) = u"
proof -
  have tail: "drop 4 (uuid_bytes u) = drop 4 uuid_base" and len: "4 \<le> length (uuid_bytes u)"
    using assms by (simp_all add: uuid_wf_def)
  obtain a b c d where hd: "take 4 (uuid_bytes u) = [a, b, c, d]"
    using take_4 [OF len] by blast
  have bytes: "uuid_bytes u = [a, b, c, d] @ drop 4 uuid_base"
    using append_take_drop_id [of 4 "uuid_bytes u"] unfolding hd tail by simp
  show ?thesis
    unfolding hd using bytes assms(2)
    by (cases u) (simp add: uuid_medium_def u32_be_at_def from_be32_parts uuid_base_def)
qed

lemma decode_uuid:
  assumes "uuid_wf u"
  shows "decode_at d (put_uuid u @ rest) =
    (if max_depth < d then Inl (Failed (TooDeep max_depth)) else Inr (Uuid u, length (put_uuid u)))"
proof (cases "uuid_width u")
  case ShortUuid
  then obtain v where v: "uuid_as_short u = Some v"
    using assms by (auto simp: uuid_wf_def)
  have "uuid_short v = u"
    using short_uuid_bytes [OF v] ShortUuid by (cases u) (simp add: uuid_short_def)
  then show ?thesis
    by (simp add: decode_at.simps [of d] put_uuid_def ShortUuid v u16_be_at_be16)
next
  case MediumUuid
  then show ?thesis
    using medium_uuid_bytes [OF assms MediumUuid] assms
    by (simp add: decode_at.simps [of d] put_uuid_def uuid_wf_def)
next
  case LongUuid
  then have "uuid_long (uuid_bytes u) = u" by (cases u) (simp add: uuid_long_def)
  then show ?thesis
    using assms
    by (simp add: decode_at.simps [of d] put_uuid_def LongUuid uuid_wf_def)
qed

lemma decode_uint:
  "\<not> max_depth < d \<Longrightarrow> decode_at d (put_uint v @ rest) = Inr (Uint v, length (put_uint v))"
  by (simp add: decode_at.simps [of d] put_uint_def be_uint_singleton
      be_uint_be16 be_uint_be32 be_uint_be64 ucast_shrink)

lemma decode_int:
  "\<not> max_depth < d \<Longrightarrow> decode_at d (put_int v @ rest) = Inr (Int_Element v, length (put_int v))"
  by (simp add: decode_at.simps [of d] put_int_def put_int_decode)

lemma decode_string:
  assumes "\<not> max_depth < d" "utf8_lossy s = s" "length s < 65536"
  shows "decode_at d (put_string type_text s @ rest) = Inr (TextString s, length (put_string type_text s))"
    and "decode_at d (put_string type_url s @ rest) = Inr (Url s, length (put_string type_url s))"
  using assms
  by (simp_all add: decode_at.simps [of d] put_sized split_sized)

lemma decode_container:
  assumes "\<not> max_depth < d" "length (concat (map element_encode items)) < 65536"
    and "\<And>x. x \<in> set items \<Longrightarrow> element_wf x"
    and "\<And>x rest. x \<in> set items \<Longrightarrow> decode_at (Suc d) (element_encode x @ rest) = Inr (f x, length (element_encode x))"
  shows "decode_at d (element_encode (Sequence items) @ rest) =
           Inr (Sequence (map f items), length (element_encode (Sequence items)))"
    and "decode_at d (element_encode (Alternative items) @ rest) =
           Inr (Alternative (map f items), length (element_encode (Alternative items)))"
proof -
  let ?body = "concat (map element_encode items)"
  have items: "decode_items (decode_at (Suc d)) (length ?body) ?body = Inr (map f items)"
    by (rule decode_items_concat) (simp_all add: assms element_encode_not_Nil)
  show "decode_at d (element_encode (Sequence items) @ rest) =
           Inr (Sequence (map f items), length (element_encode (Sequence items)))"
    using assms(1,2) items
    by (simp add: decode_at.simps [of d] put_sized split_sized Let_def)
  show "decode_at d (element_encode (Alternative items) @ rest) =
           Inr (Alternative (map f items), length (element_encode (Alternative items)))"
    using assms(1,2) items
    by (simp add: decode_at.simps [of d] put_sized split_sized Let_def)
qed

lemma depth_member:
  assumes "x \<in> set items" "d + foldr max (map (\<lambda>x. Suc (element_depth x)) items) 0 \<le> m"
  shows "Suc (d + element_depth x) \<le> m"
proof -
  have "Suc (element_depth x) \<le> foldr max (map (\<lambda>x. Suc (element_depth x)) items) 0"
    by (rule foldr_max_le [THEN iffD1, OF order_refl, rule_format]) (simp add: assms(1))
  then show ?thesis using assms(2) by simp
qed

lemma decode_at_encode:
  "\<lbrakk>element_wf e; d + element_depth e \<le> max_depth\<rbrakk> \<Longrightarrow>
   decode_at d (element_encode e @ rest) = Inr (unpinned e, length (element_encode e))"
proof (induction e arbitrary: d rest)
  case (Sequence items)
  show ?case
    using Sequence.prems
    by (simp only: unpinned.simps, intro decode_container(1))
       (auto simp: list_all_iff intro!: Sequence.IH intro: depth_member)
next
  case (Alternative items)
  show ?case
    using Alternative.prems
    by (simp only: unpinned.simps, intro decode_container(2))
       (auto simp: list_all_iff intro!: Alternative.IH intro: depth_member)
qed (auto simp: decode_uint decode_int decode_uuid decode_string
       decode_at.simps [of _ "0 # _"] decode_at.simps [of _ "9 # _"] decode_at.simps [of _ "10 # _"]
       decode_at.simps [of _ "40 # _"] be_uint_be16 be_uint_be32)

section \<open>Bounds\<close>

lemma bindE_eq_Inl: "bindE r f = Inl e \<longleftrightarrow> r = Inl e \<or> (\<exists>a. r = Inr a \<and> f a = Inl e)"
  by (cases r) auto

lemma decode_scalar_depth: "decode_scalar kind body = Inr e \<Longrightarrow> element_depth e = 0"
  by (auto simp: decode_scalar_def split: if_splits option.splits)

lemma decode_items_all:
  "\<lbrakk>decode_items dec fuel body = Inr items; \<And>b e used. dec b = Inr (e, used) \<Longrightarrow> P e\<rbrakk> \<Longrightarrow>
   \<forall>x\<in>set items. P x"
  by (induction dec fuel body arbitrary: items rule: decode_items.induct) (force simp: bindE_eq_Inr)+

text \<open>
  An element takes at least its header, stays inside the buffer and is no deeper than the limit.
\<close>

lemma decode_at_used:
  "decode_at d buf = Inr (e, used) \<Longrightarrow> 0 < used \<and> used \<le> length buf"
  by (subst (asm) decode_at.simps)
     (auto simp: bindE_eq_Inr Let_def dest: split_header_positive split: if_splits)

text \<open>A decode is of a leaf, or of a container around decodes one level further in.\<close>

lemma decode_at_cases:
  assumes "decode_at d buf = Inr (e, used)"
  obtains (leaf) kind body where "d \<le> max_depth" "decode_scalar kind body = Inr e"
  | (container) items fuel body where "d \<le> max_depth" "decode_items (decode_at (Suc d)) fuel body = Inr items"
      "e = Sequence items \<or> e = Alternative items"
  using assms by (subst (asm) decode_at.simps)
    (auto simp: bindE_eq_Inr Let_def not_less split: if_splits)

lemma decode_at_depth:
  "decode_at d buf = Inr (e, used) \<Longrightarrow> d + element_depth e \<le> max_depth"
proof (induction "Suc max_depth - d" arbitrary: d buf e used rule: less_induct)
  case less
  from less.prems show ?case
  proof (cases rule: decode_at_cases)
    case (leaf kind body)
    then show ?thesis by (simp add: decode_scalar_depth)
  next
    case (container items fuel body)
    have "\<forall>x\<in>set items. Suc d + element_depth x \<le> max_depth"
      using container(2)
    proof (rule decode_items_all)
      fix b x used
      assume "decode_at (Suc d) b = Inr (x, used)"
      then show "Suc d + element_depth x \<le> max_depth"
        using container(1) by (intro less.hyps) simp_all
    qed
    then have "foldr max (map (\<lambda>x. Suc (element_depth x)) items) 0 \<le> max_depth - d"
      by (auto simp: foldr_max_le)
    then show ?thesis using container(1,3) by auto
  qed
qed

text \<open>The fuel of the loop over a container's body is enough.\<close>

lemma decode_items_fuel:
  "\<lbrakk>length body \<le> fuel; \<And>b. dec b \<noteq> Inl OutOfFuel; \<And>b e used. dec b = Inr (e, used) \<Longrightarrow> 0 < used\<rbrakk> \<Longrightarrow>
   decode_items dec fuel body \<noteq> Inl OutOfFuel"
proof (induction dec fuel body rule: decode_items.induct)
  case (3 dec fuel b bs)
  show ?case
  proof (cases "dec (b # bs)")
    case (Inl e)
    then show ?thesis using "3.prems"(2) [of "b # bs"] by auto
  next
    case (Inr r)
    obtain item used where r: "r = (item, used)" by (cases r)
    have "length (drop used (b # bs)) \<le> fuel"
      using "3.prems"(1) "3.prems"(3) [of "b # bs" item used] Inr r by simp
    then have "decode_items dec fuel (drop used (b # bs)) \<noteq> Inl OutOfFuel"
      using Inr r "3.prems" by (intro "3.IH") auto
    then show ?thesis using Inr r by (auto simp: bindE_eq_Inl)
  qed
qed simp_all

lemma split_header_fuel: "split_header buf \<noteq> Inl OutOfFuel"
  by (auto simp: split_header_def sdp_at_def bindE_eq_Inl Let_def split: list.splits if_splits)

lemma decode_scalar_fuel: "decode_scalar kind body \<noteq> Inl OutOfFuel"
  by (auto simp: decode_scalar_def split: option.splits)

lemma decode_at_fuel: "decode_at d buf \<noteq> Inl OutOfFuel"
proof (induction "Suc max_depth - d" arbitrary: d buf rule: less_induct)
  case less
  have "decode_items (decode_at (Suc d)) fuel body \<noteq> Inl OutOfFuel" if "d \<le> max_depth" "length body \<le> fuel" for body fuel
    using that by (intro decode_items_fuel less.hyps) (auto dest: decode_at_used)
  then show ?case
    by (subst decode_at.simps)
       (auto simp: bindE_eq_Inl Let_def split_header_fuel decode_scalar_fuel not_less simp del: length_take)
qed

section \<open>Integers without a body\<close>

text \<open>The headers of a signed integer that announce a body of no bytes.\<close>

definition empty_integer :: "bytes \<Rightarrow> bool" where
  "empty_integer bs \<longleftrightarrow>
     (\<exists>header\<in>{[0x15, 0], [0x16, 0, 0], [0x17, 0, 0, 0, 0]}. take (length header) bs = header)"

text \<open>Somewhere in the bytes, whether or not the decoder gets there.\<close>

definition holds_empty_integer :: "bytes \<Rightarrow> bool" where
  "holds_empty_integer bs \<longleftrightarrow> (\<exists>k. empty_integer (drop k bs))"

lemma empty_integer_take: "empty_integer (take n bs) \<Longrightarrow> empty_integer bs"
proof -
  assume "empty_integer (take n bs)"
  then obtain h where h: "h \<in> {[0x15, 0], [0x16, 0, 0], [0x17, 0, 0, 0, 0]}" "take (length h) (take n bs) = h"
    unfolding empty_integer_def by blast
  have "take (length h) (take n bs) = take (min (length h) n) bs" by (simp add: min.commute)
  moreover have "length (take (length h) (take n bs)) = length h" using h(2) by simp
  ultimately have "take (length h) bs = h" using h(2) by (auto simp: min_def split: if_splits)
  then show ?thesis using h(1) unfolding empty_integer_def by blast
qed

lemma holds_drop: "holds_empty_integer (drop n bs) \<Longrightarrow> holds_empty_integer bs"
  by (auto simp: holds_empty_integer_def)

lemma holds_take: "holds_empty_integer (take n bs) \<Longrightarrow> holds_empty_integer bs"
  unfolding holds_empty_integer_def drop_take by (blast dest: empty_integer_take)

lemma holds_here: "empty_integer bs \<Longrightarrow> holds_empty_integer bs"
  unfolding holds_empty_integer_def by (rule exI [of _ 0]) simp

lemma header_parts: "(h :: u8) = push_bit 3 (drop_bit 3 h) OR (h AND 7)"
proof -
  have m: "(7 :: u8) = mask 3" by (simp add: mask_eq_exp_minus_1)
  show ?thesis unfolding m by (rule bit_word_eqI) (auto simp: bit_simps)
qed

lemma be_zero: "from_be16 a b = 0 \<longleftrightarrow> a = 0 \<and> b = 0" "from_be32 a b c d = 0 \<longleftrightarrow> a = 0 \<and> b = 0 \<and> c = 0 \<and> d = 0"
proof -
  have "from_be16 0 0 = 0" "from_be32 0 0 0 0 = 0" by (simp_all add: from_be16_def from_be32_def)
  then show "from_be16 a b = 0 \<longleftrightarrow> a = 0 \<and> b = 0" "from_be32 a b c d = 0 \<longleftrightarrow> a = 0 \<and> b = 0 \<and> c = 0 \<and> d = 0"
    by (metis drop_bit_of_0 from_be16_parts unsigned_0) (metis drop_bit_of_0 from_be32_parts unsigned_0 \<open>from_be32 0 0 0 0 = 0\<close>)
qed

lemma sdp_at_Inr: "sdp_at buf i = Inr b \<longleftrightarrow> i < length buf \<and> b = buf ! i"
  by (auto simp: sdp_at_def)

lemma header_of_empty:
  assumes "split_header buf = Inr (type_int, n, 0)"
  shows "empty_integer buf"
proof -
  obtain h rest where buf: "buf = h # rest" using assms by (cases buf) (auto simp: split_header_def)
  have h: "drop_bit 3 h = 2"
    using assms by (auto simp: split_header_def buf bindE_eq_Inr type_defs Let_def split: if_splits)
  have "h AND 7 \<le> 7" by (rule word_and_le1)
  then have small: "unat (h AND 7) \<le> 7" by (simp add: word_le_nat_alt)
  have idx: "h AND 7 \<notin> {0, 1, 2, 3, 4}"
    using assms by (auto simp: split_header_def buf bindE_eq_Inr type_defs Let_def split: if_splits)
  consider "h AND 7 = 5" | "h AND 7 = 6" | "h AND 7 = 7"
    using small idx by (simp add: word_unat_eq_iff) linarith
  then show ?thesis
  proof cases
    case 1
    then have "h = 0x15" using header_parts [of h] by (simp add: h)
    moreover obtain a where "sdp_at buf 1 = Inr a" "unat a = 0"
      using assms 1 by (auto simp: split_header_def buf bindE_eq_Inr Let_def)
    ultimately show ?thesis by (cases rest) (auto simp: empty_integer_def buf sdp_at_Inr unat_eq_zero)
  next
    case 2
    then have "h = 0x16" using header_parts [of h] by (simp add: h)
    moreover obtain a b where "sdp_at buf 1 = Inr a" "sdp_at buf 2 = Inr b" "unat (from_be16 a b) = 0"
      using assms 2 by (auto simp: split_header_def buf bindE_eq_Inr Let_def)
    ultimately show ?thesis
      by (cases rest; cases "tl rest") (auto simp: empty_integer_def buf sdp_at_Inr unat_eq_zero be_zero)
  next
    case 3
    then have "h = 0x17" using header_parts [of h] by (simp add: h)
    moreover obtain a b c d where "sdp_at buf 1 = Inr a" "sdp_at buf 2 = Inr b" "sdp_at buf 3 = Inr c" "sdp_at buf 4 = Inr d"
      "unat (from_be32 a b c d) = 0"
      using assms 3 by (auto simp: split_header_def buf bindE_eq_Inr Let_def)
    ultimately show ?thesis
      by (cases rest; cases "tl rest"; cases "tl (tl rest)"; cases "tl (tl (tl rest))")
        (auto simp: empty_integer_def buf sdp_at_Inr unat_eq_zero be_zero)
  qed
qed

lemma split_header_calm: "split_header buf \<noteq> Inl Panicked"
  by (auto simp: split_header_def sdp_at_def bindE_eq_Inl Let_def split: list.splits if_splits)

lemma scalar_panics: "decode_scalar kind body = Inl Panicked \<Longrightarrow> kind = type_int \<and> body = []"
  by (auto simp: decode_scalar_def be_int_def Let_def split: if_splits option.splits)

lemma items_panic:
  "decode_items dec fuel bs = Inl Panicked \<Longrightarrow> \<exists>k. dec (drop k bs) = Inl Panicked"
proof (induction dec fuel bs rule: decode_items.induct)
  case (3 dec fuel b bs)
  show ?case
  proof (cases "dec (b # bs)")
    case (Inl e)
    then show ?thesis using "3.prems" by (intro exI [of _ 0]) simp
  next
    case (Inr r)
    obtain item used where r: "r = (item, used)" by (cases r)
    have "decode_items dec fuel (drop used (b # bs)) = Inl Panicked"
      using "3.prems" Inr r by (auto simp: bindE_eq_Inl)
    then obtain k where "dec (drop k (drop used (b # bs))) = Inl Panicked" using "3.IH" Inr r by blast
    then show ?thesis unfolding drop_drop by blast
  qed
qed simp_all

lemma decode_at_panics: "decode_at d buf = Inl Panicked \<Longrightarrow> holds_empty_integer buf"
proof (induction "Suc max_depth - d" arbitrary: d buf rule: less_induct)
  case less
  have d: "d \<le> max_depth" using less.prems by (subst (asm) decode_at.simps) (auto split: if_splits)
  obtain kind hl bl where h: "split_header buf = Inr (kind, hl, bl)" "hl + bl \<le> length buf"
    using less.prems split_header_calm [of buf] d
    by (subst (asm) decode_at.simps) (auto simp: bindE_eq_Inl Let_def not_less split: if_splits)
  let ?body = "take bl (drop hl buf)"
  show ?case
  proof (cases "kind = type_sequence \<or> kind = type_alternative")
    case True
    then have "decode_items (decode_at (d + 1)) (length ?body) ?body = Inl Panicked"
      using less.prems d h by (subst (asm) decode_at.simps) (auto simp: bindE_eq_Inl Let_def)
    then obtain k where "decode_at (d + 1) (drop k ?body) = Inl Panicked" using items_panic by blast
    then have "holds_empty_integer (drop k ?body)" using d by (intro less.hyps) auto
    then show ?thesis by (blast dest: holds_drop holds_take)
  next
    case False
    then have "decode_scalar kind ?body = Inl Panicked"
      using less.prems d h by (subst (asm) decode_at.simps) (auto simp: bindE_eq_Inl Let_def)
    then have "kind = type_int" "?body = []" using scalar_panics by blast+
    then have "split_header buf = Inr (type_int, hl, 0)" using h by (auto simp: min_def split: if_splits)
    then show ?thesis by (intro holds_here header_of_empty)
  qed
qed

section \<open>Properties\<close>

text \<open>
  C17. Decoding what the encoder wrote for an element, whatever follows it in the buffer,
  gives the element back and the number of bytes it took, for every element nested no deeper than
  the limit whose UUIDs, strings and lengths are well formed. Only the width an integer was pinned
  to is lost.
\<close>

theorem element_roundtrip:
  assumes "element_wf e" "element_depth e \<le> max_depth"
  shows "element_decode (element_encode e @ rest) = Inr (unpinned e, length (element_encode e))"
  using decode_at_encode [of e 0 rest] assms by (simp add: element_decode_def)

lemma element_roundtrip_witness:
  "element_decode (element_encode (Sequence [Uuid (uuid_short 0x0100), Uint16 0x0019, Int_Element (- 3)]) @ [7]) =
   Inr (Sequence [Uuid (uuid_short 0x0100), Uint 0x0019, Int_Element (- 3)], 10)"
proof -
  let ?e = "Sequence [Uuid (uuid_short 0x0100), Uint16 0x0019, Int_Element (- 3)]"
  have "element_wf ?e" "element_depth ?e \<le> max_depth" "length (element_encode ?e) = 10"
    "unpinned ?e = Sequence [Uuid (uuid_short 0x0100), Uint 0x0019, Int_Element (- 3)]"
    by (simp_all add: uuid_wf_def uuid_short_def uuid_base_def uuid_as_short_def put_uuid_def put_int_def
        fits_signed_def put_container_def max_depth_def)
  then show ?thesis using element_roundtrip [of ?e "[7]"] by simp
qed

text \<open>
  An element that decodes has taken at least one byte and no more than the
  buffer holds, and it is nested no deeper than the limit, so the recursion of the decoder is
  bounded whatever the peer sends.
\<close>

theorem element_decode_bounded:
  assumes "element_decode buf = Inr (e, used)"
  shows "0 < used \<and> used \<le> length buf \<and> element_depth e \<le> max_depth"
  using assms decode_at_used [of 0 buf e used] decode_at_depth [of 0 buf e used]
  by (simp add: element_decode_def)

lemma element_decode_bounded_witness:
  "element_decode [0x35, 0x02, 0x08, 0x2A, 0xFF] = Inr (Sequence [Uint 0x2A], 4) \<and>
   element_depth (Sequence [Uint 0x2A]) \<le> max_depth"
proof -
  have "element_decode [0x35, 0x02, 0x08, 0x2A, 0xFF] = Inr (Sequence [Uint 0x2A], 4)" by code_simp
  then show ?thesis using element_decode_bounded by blast
qed

text \<open>
  The loop over the body of a container always ends: every element it
  reads shortens what is left.
\<close>

theorem element_decode_terminates: "element_decode buf \<noteq> Inl OutOfFuel"
  by (simp add: element_decode_def decode_at_fuel)

text \<open>
  A signed integer whose header announces a body of length zero makes the
  decoder subtract one from zero, which panics in a build that checks for overflow.
\<close>

theorem empty_integer_panics: "element_decode (0x15 # 0x00 # rest) = Inl Panicked"
  by (simp add: element_decode_def decode_at.simps [of 0] split_header_def sdp_at_def be_int_def type_defs decode_scalar_def)

end
