(* ===== verification/Sdp_Pdu.thy ===== *)
theory Sdp_Pdu
  imports Sdp_Element
begin

text \<open>
  \<^verbatim>\<open>crates/substrate-sdp/src/pdu.rs\<close>: the transactions of the protocol. The width of an
  attribute id list's integers is its meaning, so the list is built from raw bytes; a
  continuation token is the list of its bytes.
\<close>

section \<open>Attribute id chunk\<close>

datatype attribute_range = SingleId u16 | IdRange u16 u16

definition range_contains :: "attribute_range \<Rightarrow> u16 \<Rightarrow> bool" where
  "range_contains r i = (case r of SingleId x \<Rightarrow> i = x | IdRange lo hi \<Rightarrow> lo \<le> i \<and> i \<le> hi)"

definition range_encode :: "attribute_range \<Rightarrow> bytes" where
  "range_encode r =
     (case r of
        SingleId i \<Rightarrow> element_tag 1 1 # be16 i
      | IdRange lo hi \<Rightarrow> element_tag 1 2 # be16 lo @ be16 hi)"

definition attribute_list :: "attribute_range list \<Rightarrow> bytes" where
  "attribute_list ranges =
     (let body = concat (map range_encode ranges) in
      (if length body < 2 ^ 8 then [element_tag 6 5, of_nat (length body)]
       else element_tag 6 6 # be16 (u16_or_max (length body))) @ body)"

function decode_entries :: "bytes \<Rightarrow> sdp_fault + attribute_range list" where
  "decode_entries rest =
     (if rest = [] then Inr []
      else bindE (split_header rest) (\<lambda>(_, hl, bl).
        if length rest < hl + bl then Inl (Failed (Truncated ''attribute id entry'' (hl + bl) (length rest)))
        else
          let body = take bl (drop hl rest);
              entry = (if bl = 2 then [SingleId (u16_be_at body 0)]
                       else if bl = 4 then [IdRange (u16_be_at body 0) (u16_be_at body 2)]
                       else [])
          in bindE (decode_entries (drop (hl + bl) rest)) (\<lambda>out. Inr (entry @ out))))"
  by pat_completeness auto
termination
  by (relation "measure length") (auto dest!: split_header_positive)

declare decode_entries.simps [simp del]

definition decode_attribute_list :: "bytes \<Rightarrow> sdp_fault + (attribute_range list \<times> nat)" where
  "decode_attribute_list buf =
     bindE (split_header buf) (\<lambda>(_, header_len, body_len).
       let total = header_len + body_len in
       if length buf < total then Inl (Failed (Truncated ''attribute id list'' total (length buf)))
       else bindE (decode_entries (take body_len (drop header_len buf))) (\<lambda>out. Inr (out, total)))"

section \<open>Continuation state\<close>

type_synonym continuation_state = bytes

definition cont_none :: continuation_state where "cont_none = []"

definition cont_at :: "u16 \<Rightarrow> continuation_state" where "cont_at offset = be16 offset"

definition cont_offset :: "continuation_state \<Rightarrow> u16 option" where
  "cont_offset c = (if length c = 2 then Some (u16_be_at c 0) else None)"

definition cont_is_more :: "continuation_state \<Rightarrow> bool" where
  "cont_is_more c \<longleftrightarrow> c \<noteq> []"

definition cont_encode :: "continuation_state \<Rightarrow> bytes" where
  "cont_encode c = (if length c < 2 ^ 8 then of_nat (length c) else 0) # c"

definition cont_decode :: "bytes \<Rightarrow> sdp_fault + (continuation_state \<times> nat)" where
  "cont_decode buf =
     (case buf of [] \<Rightarrow> Inl (Failed (Truncated ''continuation length'' 1 0))
      | b # _ \<Rightarrow>
        let len = unat b in
        if 16 < len then Inl (Failed (ContinuationTooLong len))
        else if length buf < 1 + len then Inl (Failed (Truncated ''continuation state'' (1 + len) (length buf)))
        else Inr (take len (drop 1 buf), 1 + len))"

section \<open>PDUs\<close>

datatype sdp_request =
    ServiceSearch u16 "uuid list" u16 continuation_state
  | ServiceAttribute u16 u32 u16 "attribute_range list" continuation_state
  | ServiceSearchAttribute u16 "uuid list" u16 "attribute_range list" continuation_state

datatype sdp_response =
    ErrorRsp u16 u16
  | ServiceSearchRsp u16 u16 "u32 list" continuation_state
  | ServiceAttributeRsp u16 bytes continuation_state
  | ServiceSearchAttributeRsp u16 bytes continuation_state

definition request_tid :: "sdp_request \<Rightarrow> u16" where
  "request_tid r =
     (case r of ServiceSearch tid _ _ _ \<Rightarrow> tid | ServiceAttribute tid _ _ _ _ \<Rightarrow> tid
      | ServiceSearchAttribute tid _ _ _ _ \<Rightarrow> tid)"

definition sdp_frame :: "u8 \<Rightarrow> u16 \<Rightarrow> bytes \<Rightarrow> bytes" where
  "sdp_frame pdu tid params = pdu # be16 tid @ be16 (u16_or_max (length params)) @ params"

definition sdp_unframe :: "bytes \<Rightarrow> sdp_fault + (u8 \<times> u16 \<times> bytes)" where
  "sdp_unframe buf =
     (if length buf < 5 then Inl (Failed (Truncated ''sdp pdu header'' 5 (length buf)))
      else
        let len = unat (u16_be_at buf 3) in
        if length buf < 5 + len then Inl (Failed (Truncated ''sdp pdu body'' (5 + len) (length buf)))
        else Inr (buf ! 0, u16_be_at buf 1, take len (drop 5 buf)))"

definition be_u16 :: "string \<Rightarrow> bytes \<Rightarrow> sdp_fault + u16" where
  "be_u16 what buf =
     (if length buf < 2 then Inl (Failed (Truncated what 2 (length buf))) else Inr (u16_be_at buf 0))"

definition uuids_of :: "data_element \<Rightarrow> uuid list" where
  "uuids_of e = (case as_sequence e of None \<Rightarrow> [] | Some items \<Rightarrow> List.map_filter as_uuid items)"

definition request_encode :: "sdp_request \<Rightarrow> bytes" where
  "request_encode r =
     (case r of
        ServiceSearch tid patterns max_records cont \<Rightarrow>
          sdp_frame 0x02 tid (element_encode (uuid_seq patterns) @ be16 max_records @ cont_encode cont)
      | ServiceAttribute tid rec_handle max_bytes attributes cont \<Rightarrow>
          sdp_frame 0x04 tid (be32 rec_handle @ be16 max_bytes @ attribute_list attributes @ cont_encode cont)
      | ServiceSearchAttribute tid patterns max_bytes attributes cont \<Rightarrow>
          sdp_frame 0x06 tid (element_encode (uuid_seq patterns) @ be16 max_bytes
            @ attribute_list attributes @ cont_encode cont))"

definition request_decode :: "bytes \<Rightarrow> sdp_fault + sdp_request" where
  "request_decode buf =
     bindE (sdp_unframe buf) (\<lambda>(pdu, tid, params).
       if pdu = 0x02 then
         bindE (element_decode params) (\<lambda>(pattern, used).
         let rest = drop used params in
         bindE (be_u16 ''max record count'' rest) (\<lambda>max_records.
         bindE (cont_decode (drop 2 rest)) (\<lambda>(cont, _).
         Inr (ServiceSearch tid (uuids_of pattern) max_records cont))))
       else if pdu = 0x04 then
         if length params < 6 then Inl (Failed (Truncated ''service attribute request'' 6 (length params)))
         else
           bindE (decode_attribute_list (drop 6 params)) (\<lambda>(attributes, used).
           bindE (cont_decode (drop (6 + used) params)) (\<lambda>(cont, _).
           Inr (ServiceAttribute tid (u32_be_at params 0) (u16_be_at params 4) attributes cont)))
       else if pdu = 0x06 then
         bindE (element_decode params) (\<lambda>(pattern, used).
         let rest = drop used params in
         bindE (be_u16 ''max attribute byte count'' rest) (\<lambda>max_bytes.
         bindE (decode_attribute_list (drop 2 rest)) (\<lambda>(attributes, used2).
         bindE (cont_decode (drop (2 + used2) rest)) (\<lambda>(cont, _).
         Inr (ServiceSearchAttribute tid (uuids_of pattern) max_bytes attributes cont)))))
       else Inl (Failed (UnsupportedPdu pdu)))"

definition response_encode :: "sdp_response \<Rightarrow> bytes" where
  "response_encode r =
     (case r of
        ErrorRsp tid code \<Rightarrow> sdp_frame 0x01 tid (be16 code)
      | ServiceSearchRsp tid count handles cont \<Rightarrow>
          sdp_frame 0x03 tid (be16 count @ be16 (u16_or_max (length handles))
            @ concat (map be32 handles) @ cont_encode cont)
      | ServiceAttributeRsp tid attributes cont \<Rightarrow>
          sdp_frame 0x05 tid (be16 (u16_or_max (length attributes)) @ attributes @ cont_encode cont)
      | ServiceSearchAttributeRsp tid chunk cont \<Rightarrow>
          sdp_frame 0x07 tid (be16 (u16_or_max (length chunk)) @ chunk @ cont_encode cont))"

definition response_decode :: "bytes \<Rightarrow> sdp_fault + sdp_response" where
  "response_decode buf =
     bindE (sdp_unframe buf) (\<lambda>(pdu, tid, params).
       if pdu = 0x01 then bindE (be_u16 ''error code'' params) (\<lambda>code. Inr (ErrorRsp tid code))
       else if pdu = 0x03 then
         bindE (be_u16 ''total record count'' params) (\<lambda>total.
         bindE (be_u16 ''current record count'' (drop 2 params)) (\<lambda>current.
         let n = unat current in
         if length params < 4 + n * 4 then
           Inl (Failed (Truncated ''service search handles'' (4 + n * 4) (length params)))
         else
           bindE (cont_decode (drop (4 + n * 4) params)) (\<lambda>(cont, _).
           Inr (ServiceSearchRsp tid total (map (\<lambda>i. u32_be_at params (4 + i * 4)) [0..<n]) cont))))
       else if pdu = 0x05 \<or> pdu = 0x07 then
         bindE (be_u16 ''attribute byte count'' params) (\<lambda>c.
         let count = unat c in
         if length params < 2 + count then Inl (Failed (Truncated ''attribute list'' (2 + count) (length params)))
         else
           let body = take count (drop 2 params) in
           bindE (cont_decode (drop (2 + count) params)) (\<lambda>(cont, _).
           Inr (if pdu = 0x05 then ServiceAttributeRsp tid body cont else ServiceSearchAttributeRsp tid body cont)))
       else Inl (Failed (UnsupportedPdu pdu)))"

section \<open>Round trips\<close>

lemma u16_or_max_read: "n < 65536 \<Longrightarrow> unat (u16_or_max n) = n"
  by (simp add: u16_or_max_fits)

lemma unframe_frame:
  assumes "length params < 65536"
  shows "sdp_unframe (sdp_frame pdu tid params) = Inr (pdu, tid, params)"
proof -
  obtain a b where ab: "be16 tid = [a, b]" "from_be16 a b = tid"
    by (simp add: be16_def)
  obtain c d where cd: "be16 (u16_or_max (length params)) = [c, d]" "from_be16 c d = u16_or_max (length params)"
    by (simp add: be16_def)
  show ?thesis
    using assms by (simp add: sdp_unframe_def sdp_frame_def ab cd u16_be_at_def u16_or_max_read)
qed

lemma cont_roundtrip:
  "length c \<le> 16 \<Longrightarrow> cont_decode (cont_encode c @ rest) = Inr (c, Suc (length c))"
  by (simp add: cont_decode_def cont_encode_def)

lemma cont_roundtrip_end: "length c \<le> 16 \<Longrightarrow> cont_decode (cont_encode c) = Inr (c, Suc (length c))"
  using cont_roundtrip [of c "[]"] by simp

lemma length_cont_encode [simp]: "length (cont_encode c) = Suc (length c)"
  by (simp add: cont_encode_def)

lemma length_sdp_frame [simp]: "length (sdp_frame pdu tid params) = length params + 5"
  by (simp add: sdp_frame_def)

lemma range_tags [simp]: "element_tag 1 1 = 0x09" "element_tag 1 2 = 0x0A" "element_tag 6 5 = 0x35" "element_tag 6 6 = 0x36"
  by (simp_all add: element_tag_def)

lemma decode_entries_range:
  "decode_entries (range_encode r @ rest) = bindE (decode_entries rest) (\<lambda>out. Inr (r # out))"
  by (cases r; subst decode_entries.simps)
     (simp_all add: range_encode_def be16_def u16_be_at_def split: attribute_range.splits)

lemma attribute_list_sized:
  "attribute_list ranges = sized_header type_sequence (length (concat (map range_encode ranges))) @ concat (map range_encode ranges)"
  by (simp add: attribute_list_def sized_header_def Let_def)

interpretation entries: stream_codec range_encode "\<lambda>_. True" decode_entries
  by unfold_locales (simp add: decode_entries.simps, rule decode_entries_range)

definition ranges_fit :: "attribute_range list \<Rightarrow> bool" where
  "ranges_fit ranges \<longleftrightarrow> length (concat (map range_encode ranges)) < 2 ^ 16"

lemma attribute_list_decode:
  "ranges_fit ranges \<Longrightarrow>
   decode_attribute_list (attribute_list ranges @ rest) = Inr (ranges, length (attribute_list ranges))"
  using entries.dec_all [of ranges]
  by (simp add: decode_attribute_list_def attribute_list_sized ranges_fit_def split_sized list_all_iff)

definition patterns_fit :: "uuid list \<Rightarrow> bool" where
  "patterns_fit us \<longleftrightarrow> list_all uuid_wf us \<and> length (concat (map put_uuid us)) < 2 ^ 16"

lemma uuid_seq_decode:
  assumes "patterns_fit us"
  shows "element_decode (element_encode (uuid_seq us) @ rest) =
           Inr (uuid_seq us, length (element_encode (uuid_seq us)))"
    and "uuids_of (uuid_seq us) = us"
proof -
  have "element_wf (uuid_seq us)"
    using assms by (simp add: uuid_seq_def patterns_fit_def list_all_iff comp_def)
  moreover have "element_depth (uuid_seq us) \<le> 16"
    by (simp add: uuid_seq_def foldr_max_le)
  moreover have "unpinned (uuid_seq us) = uuid_seq us"
    by (simp add: uuid_seq_def)
  ultimately show "element_decode (element_encode (uuid_seq us) @ rest) =
      Inr (uuid_seq us, length (element_encode (uuid_seq us)))"
    using decode_at_encode [of "uuid_seq us" 0] by (simp add: element_decode_def max_depth_def)
  show "uuids_of (uuid_seq us) = us"
    by (induction us) (simp_all add: uuids_of_def as_sequence_def as_uuid_def uuid_seq_def List.map_filter_def)
qed

text \<open>A request whose fields fit the length fields in front of them.\<close>

definition request_fits :: "sdp_request \<Rightarrow> bool" where
  "request_fits r \<longleftrightarrow>
     length (request_encode r) < 2 ^ 16 + 5 \<and>
     (case r of
        ServiceSearch _ patterns _ cont \<Rightarrow> patterns_fit patterns \<and> length cont \<le> 16
      | ServiceAttribute _ _ _ attributes cont \<Rightarrow> ranges_fit attributes \<and> length cont \<le> 16
      | ServiceSearchAttribute _ patterns _ attributes cont \<Rightarrow>
          patterns_fit patterns \<and> ranges_fit attributes \<and> length cont \<le> 16)"

lemma request_decode_encode:
  assumes "request_fits r"
  shows "request_decode (request_encode r) = Inr r"
proof (cases r)
  case (ServiceSearch tid patterns max_records cont)
  then show ?thesis
    using assms
    by (simp add: request_fits_def request_encode_def request_decode_def unframe_frame uuid_seq_decode
        be_u16_def u16_be_at_be16 cont_roundtrip_end)
next
  case (ServiceAttribute tid rec_handle max_bytes attributes cont)
  then show ?thesis
    using assms
    by (simp add: request_fits_def request_encode_def request_decode_def unframe_frame attribute_list_decode
        u32_be_at_be32 u16_be_at_append u16_be_at_be16 cont_roundtrip_end)
next
  case (ServiceSearchAttribute tid patterns max_bytes attributes cont)
  then show ?thesis
    using assms
    by (simp add: request_fits_def request_encode_def request_decode_def unframe_frame uuid_seq_decode
        be_u16_def u16_be_at_be16 attribute_list_decode cont_roundtrip_end)
qed

text \<open>
  Every request whose fields fit their length fields is decoded from its
  encoding unchanged, so single attribute ids and ranges of them are told apart by the width
  alone.
\<close>

theorem sdp_request_roundtrip: "request_fits r \<Longrightarrow> request_decode (request_encode r) = Inr r"
  by (rule request_decode_encode)

lemma sdp_request_roundtrip_witness:
  "request_decode (request_encode (ServiceSearchAttribute 7 [uuid_short 0x110C] 672
     [IdRange 0 0xFFFF, SingleId 0xFFFF] cont_none)) =
   Inr (ServiceSearchAttribute 7 [uuid_short 0x110C] 672 [IdRange 0 0xFFFF, SingleId 0xFFFF] cont_none)"
  by (rule sdp_request_roundtrip)
     (simp add: request_fits_def request_encode_def patterns_fit_def ranges_fit_def uuid_wf_def uuid_short_def
       uuid_base_def uuid_as_short_def put_uuid_def range_encode_def cont_none_def cont_encode_def
       uuid_seq_def put_container_def attribute_list_def)

lemma handle_at:
  "i < length hs \<Longrightarrow> u32_be_at (concat (map be32 hs) @ rest) (i * 4) = hs ! i"
proof (induction hs arbitrary: i)
  case (Cons h hs)
  then show ?case
    by (cases i) (simp_all add: u32_be_at_be32 u32_be_at_append)
qed simp

lemma length_handles [simp]: "length (concat (map be32 hs)) = length hs * 4"
  by (induction hs) simp_all

lemma handles_read:
  "map (\<lambda>i. u32_be_at (be16 a @ be16 b @ concat (map be32 hs) @ rest) (4 + i * 4)) [0..<length hs] = hs"
  by (rule nth_equalityI) (simp_all add: u32_be_at_append handle_at)

definition response_fits :: "sdp_response \<Rightarrow> bool" where
  "response_fits r \<longleftrightarrow>
     length (response_encode r) < 2 ^ 16 + 5 \<and>
     (case r of ErrorRsp _ _ \<Rightarrow> True | ServiceSearchRsp _ _ _ cont \<Rightarrow> length cont \<le> 16
      | ServiceAttributeRsp _ _ cont \<Rightarrow> length cont \<le> 16
      | ServiceSearchAttributeRsp _ _ cont \<Rightarrow> length cont \<le> 16)"

lemma response_decode_encode:
  assumes "response_fits r"
  shows "response_decode (response_encode r) = Inr r"
  using assms
  by (cases r)
     (simp_all add: response_fits_def response_encode_def response_decode_def unframe_frame be_u16_def
       u16_be_at_be16 u16_be_at_append u16_or_max_read cont_roundtrip_end handles_read)

text \<open>
  Every response whose fields fit their length fields is decoded from its
  encoding unchanged.
\<close>

theorem sdp_response_roundtrip: "response_fits r \<Longrightarrow> response_decode (response_encode r) = Inr r"
  by (rule response_decode_encode)

lemma sdp_response_roundtrip_witness:
  "response_decode (response_encode (ServiceSearchRsp 7 2 [0x10000, 0x10001] (cont_at 5))) =
   Inr (ServiceSearchRsp 7 2 [0x10000, 0x10001] (cont_at 5))"
  by (rule sdp_response_roundtrip) (simp add: response_fits_def response_encode_def cont_at_def)

text \<open>Decoding never runs out of fuel.\<close>

lemma decode_entries_fuel: "decode_entries rest \<noteq> Inl OutOfFuel"
  by (induction rest rule: decode_entries.induct)
     (subst decode_entries.simps, auto simp: bindE_eq_Inl Let_def split_header_fuel)

lemma request_decode_fuel: "request_decode buf \<noteq> Inl OutOfFuel"
  by (auto simp: request_decode_def sdp_unframe_def bindE_eq_Inl Let_def element_decode_def decode_at_fuel
      be_u16_def cont_decode_def decode_attribute_list_def split_header_fuel decode_entries_fuel
      split: if_splits list.splits)

end
