(* ===== verification/Sdp.thy ===== *)
theory Sdp
  imports Sdp_Pdu
begin

text \<open>
  \<^verbatim>\<open>crates/substrate-sdp/src/record.rs\<close>, \<^verbatim>\<open>server.rs\<close> and \<^verbatim>\<open>client.rs\<close>: service records, the
  server that answers for ours and the query that reads a peer's. A record's \<open>BTreeMap\<close> is a
  list of its entries in ascending order of their ids.
\<close>

section \<open>Records\<close>

type_synonym service_record = "(u16 \<times> data_element) list"

definition attr_service_record_handle :: u16 where "attr_service_record_handle = 0x0000"
definition attr_service_class_id_list :: u16 where "attr_service_class_id_list = 0x0001"
definition attr_protocol_descriptor_list :: u16 where "attr_protocol_descriptor_list = 0x0004"
definition attr_browse_group_list :: u16 where "attr_browse_group_list = 0x0005"
definition attr_language_base :: u16 where "attr_language_base = 0x0006"
definition attr_profile_descriptor_list :: u16 where "attr_profile_descriptor_list = 0x0009"
definition attr_additional_protocols :: u16 where "attr_additional_protocols = 0x000D"
definition attr_service_name :: u16 where "attr_service_name = 0x0100"
definition attr_supported_features :: u16 where "attr_supported_features = 0x0311"

lemmas attr_defs = attr_service_record_handle_def attr_service_class_id_list_def
  attr_protocol_descriptor_list_def attr_browse_group_list_def attr_language_base_def
  attr_profile_descriptor_list_def attr_additional_protocols_def attr_service_name_def
  attr_supported_features_def

definition record_new :: service_record where "record_new = []"

fun record_with :: "u16 \<Rightarrow> data_element \<Rightarrow> service_record \<Rightarrow> service_record" where
  "record_with k v [] = [(k, v)]"
| "record_with k v ((k', v') # r) =
     (if k < k' then (k, v) # (k', v') # r
      else if k = k' then (k, v) # r
      else (k', v') # record_with k v r)"

definition record_get :: "service_record \<Rightarrow> u16 \<Rightarrow> data_element option" where
  "record_get r k = map_of r k"

definition record_handle :: "service_record \<Rightarrow> u32 option" where
  "record_handle r =
     Option.bind (record_get r attr_service_record_handle) (\<lambda>e.
     Option.bind (as_uint e) (\<lambda>v. if unat v < 2 ^ 32 then Some (ucast v) else None))"

definition has_class :: "service_record \<Rightarrow> uuid \<Rightarrow> bool" where
  "has_class r cls =
     (case Option.bind (record_get r attr_service_class_id_list) as_sequence of
        None \<Rightarrow> False
      | Some items \<Rightarrow> list_ex (\<lambda>u. uuid_bytes u = uuid_bytes cls) (List.map_filter as_uuid items))"

definition first_element :: "data_element list \<Rightarrow> data_element option" where
  "first_element items = (case items of [] \<Rightarrow> None | x # _ \<Rightarrow> Some x)"

definition uuid_l2cap :: uuid where "uuid_l2cap = uuid_short 0x0100"
definition uuid_avdtp :: uuid where "uuid_avdtp = uuid_short 0x0019"
definition uuid_avctp :: uuid where "uuid_avctp = uuid_short 0x0017"
definition uuid_obex :: uuid where "uuid_obex = uuid_short 0x0008"
definition uuid_audio_sink :: uuid where "uuid_audio_sink = uuid_short 0x110B"
definition uuid_audio_distribution :: uuid where "uuid_audio_distribution = uuid_short 0x110D"
definition uuid_remote_target :: uuid where "uuid_remote_target = uuid_short 0x110C"
definition uuid_remote :: uuid where "uuid_remote = uuid_short 0x110E"
definition uuid_remote_controller :: uuid where "uuid_remote_controller = uuid_short 0x110F"
definition uuid_browse_root :: uuid where "uuid_browse_root = uuid_short 0x1002"

text \<open>The UUID a layer of a protocol stack starts with.\<close>

definition layer_protocol :: "data_element \<Rightarrow> uuid option" where
  "layer_protocol layer = Option.bind (as_sequence layer) (\<lambda>parts. Option.bind (first_element parts) as_uuid)"

fun find_psm :: "data_element list \<Rightarrow> u16 option" where
  "find_psm [] = None"
| "find_psm (layer # layers) =
     (case as_sequence layer of
        None \<Rightarrow> None
      | Some parts \<Rightarrow>
        (case Option.bind (first_element parts) as_uuid of
           None \<Rightarrow> find_psm layers
         | Some p \<Rightarrow>
           if uuid_bytes p = uuid_bytes uuid_l2cap then
             (case Option.bind (if 1 < length parts then Some (parts ! 1) else None) as_uint of
                None \<Rightarrow> find_psm layers
              | Some psm \<Rightarrow> u16_try_from (unat psm))
           else find_psm layers))"

definition matches_protocol :: "data_element list \<Rightarrow> uuid option \<Rightarrow> bool" where
  "matches_protocol layers protocol =
     (case protocol of
        None \<Rightarrow> True
      | Some wanted \<Rightarrow>
        list_ex (\<lambda>layer. case layer_protocol layer of None \<Rightarrow> False | Some u \<Rightarrow> uuid_bytes u = uuid_bytes wanted)
          (drop 1 layers))"

definition psm_from_stack :: "data_element list \<Rightarrow> uuid option \<Rightarrow> u16 option" where
  "psm_from_stack layers protocol = (if matches_protocol layers protocol then find_psm layers else None)"

text \<open>The first stack of a list of stacks that has the channel.\<close>

fun psm_from_stacks :: "data_element list \<Rightarrow> uuid option \<Rightarrow> u16 option" where
  "psm_from_stacks [] protocol = None"
| "psm_from_stacks (stack # rest) protocol =
     (case as_sequence stack of
        None \<Rightarrow> psm_from_stacks rest protocol
      | Some layers \<Rightarrow>
        (case psm_from_stack layers protocol of
           Some psm \<Rightarrow> Some psm
         | None \<Rightarrow> psm_from_stacks rest protocol))"

definition l2cap_psm_under :: "service_record \<Rightarrow> u16 \<Rightarrow> uuid option \<Rightarrow> u16 option" where
  "l2cap_psm_under r attribute protocol =
     Option.bind (Option.bind (record_get r attribute) as_sequence) (\<lambda>list.
       if Option.bind (first_element list) layer_protocol \<noteq> None
       then psm_from_stack list protocol
       else psm_from_stacks list protocol)"

definition l2cap_psm :: "service_record \<Rightarrow> u16 \<Rightarrow> u16 option" where
  "l2cap_psm r attribute = l2cap_psm_under r attribute None"

definition record_name :: "service_record \<Rightarrow> bytes option" where
  "record_name r = (case record_get r attr_service_name of Some (TextString s) \<Rightarrow> Some s | _ \<Rightarrow> None)"

section \<open>The records we publish\<close>

definition proto :: "uuid \<Rightarrow> data_element list \<Rightarrow> data_element" where
  "proto u params = Sequence (Uuid u # params)"

definition profile :: "uuid \<Rightarrow> u16 \<Rightarrow> data_element" where
  "profile u version = Sequence [Uuid u, Uint16 version]"

definition base_record :: "u32 \<Rightarrow> bytes \<Rightarrow> uuid list \<Rightarrow> service_record" where
  "base_record h name classes =
     record_with attr_service_name (TextString name)
     (record_with attr_language_base (Sequence [Uint16 0x656E, Uint16 106, Uint16 0x0100])
     (record_with attr_browse_group_list (uuid_seq [uuid_browse_root])
     (record_with attr_service_class_id_list (uuid_seq classes)
     (record_with attr_service_record_handle (Uint32 h) record_new))))"

definition a2dp_sink :: "u32 \<Rightarrow> bytes \<Rightarrow> service_record" where
  "a2dp_sink h name =
     record_with attr_supported_features (Uint16 (push_bit 1 1))
     (record_with attr_profile_descriptor_list (Sequence [profile uuid_audio_distribution 0x0103])
     (record_with attr_protocol_descriptor_list
        (Sequence [proto uuid_l2cap [Uint16 0x0019], proto uuid_avdtp [Uint16 0x0103]])
     (base_record h name [uuid_audio_sink, uuid_audio_distribution])))"

definition avrcp_controller :: "u32 \<Rightarrow> bytes \<Rightarrow> service_record" where
  "avrcp_controller h name =
     record_with attr_supported_features (Uint16 (push_bit 0 1 OR push_bit 9 1))
     (record_with attr_profile_descriptor_list (Sequence [profile uuid_remote 0x0106])
     (record_with attr_protocol_descriptor_list
        (Sequence [proto uuid_l2cap [Uint16 0x0017], proto uuid_avctp [Uint16 0x0104]])
     (base_record h name [uuid_remote, uuid_remote_controller])))"

definition avrcp_target :: "u32 \<Rightarrow> bytes \<Rightarrow> service_record" where
  "avrcp_target h name =
     record_with attr_supported_features (Uint16 (push_bit 1 1))
     (record_with attr_profile_descriptor_list (Sequence [profile uuid_remote 0x0106])
     (record_with attr_protocol_descriptor_list
        (Sequence [proto uuid_l2cap [Uint16 0x0017], proto uuid_avctp [Uint16 0x0104]])
     (base_record h name [uuid_remote_target])))"

section \<open>The server\<close>

type_synonym sdp_server = "service_record list"

definition server_add :: "service_record \<Rightarrow> sdp_server \<Rightarrow> sdp_server" where
  "server_add r srv = srv @ [r]"

fun element_contains :: "data_element \<Rightarrow> uuid \<Rightarrow> bool" where
  "element_contains (Uuid u) uuid = (uuid_bytes u = uuid_bytes uuid)"
| "element_contains (Sequence items) uuid = list_ex (\<lambda>i. element_contains i uuid) items"
| "element_contains (Alternative items) uuid = list_ex (\<lambda>i. element_contains i uuid) items"
| "element_contains _ uuid = False"

definition record_contains :: "service_record \<Rightarrow> uuid \<Rightarrow> bool" where
  "record_contains r uuid = list_ex (\<lambda>(_, v). element_contains v uuid) r"

definition matching :: "sdp_server \<Rightarrow> uuid list \<Rightarrow> service_record list" where
  "matching srv patterns = filter (\<lambda>r. list_all (\<lambda>p. record_contains r p) patterns) srv"

definition wrap_sequence :: "bytes \<Rightarrow> bytes" where
  "wrap_sequence body =
     (if length body < 2 ^ 8 then [element_tag 6 5, of_nat (length body)]
      else element_tag 6 6 # be16 (u16_or_max (length body))) @ body"

definition encode_attributes :: "service_record \<Rightarrow> attribute_range list \<Rightarrow> bytes" where
  "encode_attributes r wanted =
     wrap_sequence (concat (map (\<lambda>(i, v). element_tag 1 1 # be16 i @ element_encode v)
       (filter (\<lambda>(i, _). list_ex (\<lambda>w. range_contains w i) wanted) r)))"

definition slice :: "bytes \<Rightarrow> u16 \<Rightarrow> continuation_state \<Rightarrow> (bytes \<times> continuation_state) option" where
  "slice full max_bytes cont =
     Option.bind (if cont_is_more cont then map_option unat (cont_offset cont) else Some 0) (\<lambda>start.
       if length full < start then None
       else
         let budget = max (unat max_bytes - 8) 1;
             fin = min (start + budget) (length full);
             chunk = take (fin - start) (drop start full);
             next_cont = (if fin < length full then cont_at (u16_or_max fin) else cont_none)
         in Some (chunk, next_cont))"

definition dispatch :: "sdp_server \<Rightarrow> sdp_request \<Rightarrow> sdp_response" where
  "dispatch srv req =
     (case req of
        ServiceSearch tid patterns max_records _ \<Rightarrow>
          let handles = take (max (unat max_records) 1) (List.map_filter record_handle (matching srv patterns))
          in ServiceSearchRsp tid (u16_or_max (length handles)) handles cont_none
      | ServiceAttribute tid h max_bytes attributes cont \<Rightarrow>
          (case find (\<lambda>r. record_handle r = Some h) srv of
             None \<Rightarrow> ErrorRsp tid 0x0002
           | Some r \<Rightarrow>
             (case slice (encode_attributes r attributes) max_bytes cont of
                Some (chunk, c) \<Rightarrow> ServiceAttributeRsp tid chunk c
              | None \<Rightarrow> ErrorRsp tid 0x0005))
      | ServiceSearchAttribute tid patterns max_bytes attributes cont \<Rightarrow>
          let full = wrap_sequence (concat (map (\<lambda>r. encode_attributes r attributes) (matching srv patterns))) in
          (case slice full max_bytes cont of
             Some (chunk, c) \<Rightarrow> ServiceSearchAttributeRsp tid chunk c
           | None \<Rightarrow> ErrorRsp tid 0x0005))"

definition peek_tid :: "bytes \<Rightarrow> u16" where
  "peek_tid buf = (if 3 \<le> length buf then u16_be_at buf 1 else 0)"

text \<open>Without a value where the decoder panics.\<close>

definition server_handle :: "sdp_server \<Rightarrow> bytes \<Rightarrow> bytes option" where
  "server_handle srv request =
     (case request_decode request of
        Inr req \<Rightarrow> Some (response_encode (dispatch srv req))
      | Inl (Failed (UnsupportedPdu _)) \<Rightarrow> Some (response_encode (ErrorRsp (peek_tid request) 0x0003))
      | Inl (Failed _) \<Rightarrow> Some (response_encode (ErrorRsp (peek_tid request) 0x0004))
      | Inl _ \<Rightarrow> None)"

section \<open>Reading a peer's records\<close>

fun chunk_pairs :: "data_element list \<Rightarrow> service_record \<Rightarrow> service_record" where
  "chunk_pairs (i # v # rest) r =
     chunk_pairs rest
       (case Option.bind (as_uint i) (\<lambda>n. u16_try_from (unat n)) of
          Some k \<Rightarrow> record_with k v r
        | None \<Rightarrow> r)"
| "chunk_pairs _ r = r"

definition parse_records :: "bytes \<Rightarrow> sdp_fault + service_record list" where
  "parse_records bs =
     bindE (element_decode bs) (\<lambda>(element, _).
       case as_sequence element of
         None \<Rightarrow> Inl (Failed (Missing ''attribute lists sequence''))
       | Some rs \<Rightarrow> Inr (map (\<lambda>items. chunk_pairs items record_new) (List.map_filter as_sequence rs)))"

definition join :: "bytes list \<Rightarrow> bytes" where
  "join fragments = concat fragments"

section \<open>The client\<close>

definition max_query_bytes :: nat where "max_query_bytes = 64 * 1024"

record query =
  q_patterns :: "uuid list"
  q_attributes :: "attribute_range list"
  q_max_bytes :: u16
  q_tid :: u16
  q_fragments :: "bytes list"
  q_total :: nat
  q_cont :: continuation_state
  q_done :: bool

definition query_new :: "u16 \<Rightarrow> uuid list \<Rightarrow> attribute_range list \<Rightarrow> u16 \<Rightarrow> query" where
  "query_new tid patterns attributes max_bytes =
     \<lparr> q_patterns = patterns, q_attributes = attributes, q_max_bytes = max_bytes, q_tid = tid,
       q_fragments = [], q_total = 0, q_cont = cont_none, q_done = False \<rparr>"

definition query_avrcp_target :: "u16 \<Rightarrow> query" where
  "query_avrcp_target tid = query_new tid [uuid_remote_target] [IdRange 0x0000 0xFFFF] 672"

definition query_request :: "query \<Rightarrow> sdp_request" where
  "query_request q = ServiceSearchAttribute (q_tid q) (q_patterns q) (q_max_bytes q) (q_attributes q) (q_cont q)"

definition next_request :: "query \<Rightarrow> bytes option" where
  "next_request q = (if q_done q then None else Some (request_encode (query_request q)))"

definition feed :: "bytes \<Rightarrow> (query, sdp_fault, bool) meth" where
  "feed response q =
     (case response_decode response of
        Inl e \<Rightarrow> (Inl e, q)
      | Inr (ServiceSearchAttributeRsp _ chunk cont) \<Rightarrow>
        if unat (q_max_bytes q) < length chunk then
          (Inl (Failed (TooLarge ''attribute list fragment'' (unat (q_max_bytes q)) (length chunk))), q)
        else
          let total_bytes = q_total q + length chunk in
          if max_query_bytes < total_bytes then
            (Inl (Failed (TooLarge ''reassembled attribute lists'' max_query_bytes total_bytes)), q)
          else
            let q1 = q\<lparr> q_total := total_bytes, q_fragments := q_fragments q @ [chunk] \<rparr>;
                q2 = (if cont_is_more cont then q1\<lparr> q_cont := cont \<rparr> else q1\<lparr> q_done := True \<rparr>)
            in (Inr (q_done q2), q2)
      | Inr (ErrorRsp _ code) \<Rightarrow> (Inl (Failed (PeerError code)), q)
      | Inr _ \<Rightarrow> (Inl (Failed (Missing ''service search attribute response'')), q))"

definition query_records :: "query \<Rightarrow> sdp_fault + service_record list" where
  "query_records q = parse_records (join (q_fragments q))"

definition find_map :: "('a \<Rightarrow> 'b option) \<Rightarrow> 'a list \<Rightarrow> 'b option" where
  "find_map f xs = (case List.map_filter f xs of [] \<Rightarrow> None | y # _ \<Rightarrow> Some y)"

definition cover_art_psm :: "query \<Rightarrow> sdp_fault + u16 option" where
  "cover_art_psm q = bindE (query_records q) (\<lambda>rs.
     Inr (find_map (\<lambda>r. l2cap_psm_under r attr_additional_protocols (Some uuid_obex)) rs))"

definition supported_features :: "query \<Rightarrow> sdp_fault + u16 option" where
  "supported_features q = bindE (query_records q) (\<lambda>rs.
     Inr (find_map (\<lambda>r. Option.bind (record_get r attr_supported_features) (\<lambda>e.
       Option.bind (as_uint e) (\<lambda>v. u16_try_from (unat v)))) rs))"

section \<open>Records are ordered\<close>

definition record_ok :: "service_record \<Rightarrow> bool" where
  "record_ok r \<longleftrightarrow> sorted_wrt (<) (map fst r)"

lemma record_with_keys: "set (map fst (record_with k v r)) = insert k (set (map fst r))"
  by (induction k v r rule: record_with.induct) auto

lemma record_with_ok: "record_ok r \<Longrightarrow> record_ok (record_with k v r)"
  unfolding record_ok_def
proof (induction k v r rule: record_with.induct)
  case (2 k v k' v' r)
  then show ?case
    using record_with_keys [of k v r] by (auto simp: less_imp_neq dest: less_trans) 
qed simp

lemma record_get_with: "record_get (record_with k v r) k' = (if k' = k then Some v else record_get r k')"
  if "record_ok r"
  using that unfolding record_get_def record_ok_def
  by (induction k v r rule: record_with.induct) (auto simp: map_of_eq_None_iff less_le dest: map_of_SomeD)

lemma record_with_last:
  "\<forall>k'\<in>set (map fst r). k' < k \<Longrightarrow> record_with k v r = r @ [(k, v)]"
  by (induction k v r rule: record_with.induct) auto

section \<open>The protocol data units of a query\<close>

lemma wrap_sized: "wrap_sequence body = sized_header type_sequence (length body) @ body"
  by (simp add: wrap_sequence_def sized_header_def)

lemma wrap_not_Nil: "wrap_sequence body \<noteq> []"
  by (simp add: wrap_sequence_def)

definition all_attributes :: "sdp_server \<Rightarrow> uuid list \<Rightarrow> attribute_range list \<Rightarrow> bytes" where
  "all_attributes srv patterns attributes =
     wrap_sequence (concat (map (\<lambda>r. encode_attributes r attributes) (matching srv patterns)))"

definition chunk_budget :: "u16 \<Rightarrow> nat" where
  "chunk_budget max_bytes = max (unat max_bytes - 8) 1"

text \<open>The query as far as the offset \<open>off\<close>: what it has collected, and the token it goes on with.\<close>

definition query_at :: "query \<Rightarrow> bytes \<Rightarrow> nat \<Rightarrow> bool" where
  "query_at q full off \<longleftrightarrow>
     \<not> q_done q \<and> join (q_fragments q) = take off full \<and> q_total q = off \<and> off < length full \<and>
     q_cont q = (if off = 0 then cont_none else cont_at (of_nat off))"

text \<open>One round trip, and as many as the fuel allows.\<close>

fun exchange :: "nat \<Rightarrow> sdp_server \<Rightarrow> query \<Rightarrow> query" where
  "exchange 0 srv q = q"
| "exchange (Suc n) srv q =
     (case Option.bind (next_request q) (server_handle srv) of
        None \<Rightarrow> q
      | Some rsp \<Rightarrow> exchange n srv (snd (feed rsp q)))"

lemma slice_at:
  assumes "off < length full" "length full < 65536"
    and "cont = (if off = 0 then cont_none else cont_at (of_nat off))"
  shows "slice full max_bytes cont =
     (let fin = min (off + chunk_budget max_bytes) (length full) in
      Some (take (fin - off) (drop off full), if fin < length full then cont_at (of_nat fin) else cont_none))"
  using assms
  by (auto simp: slice_def cont_is_more_def cont_none_def cont_at_def cont_offset_def u16_be_at_be16
      chunk_budget_def Let_def u16_or_max_fits)

lemma feed_chunk:
  assumes "response_decode rsp = Inr (ServiceSearchAttributeRsp tid chunk c)"
    and "length chunk \<le> unat (q_max_bytes q)" "q_total q + length chunk \<le> max_query_bytes"
  shows "snd (feed rsp q) =
     (let q1 = q\<lparr> q_total := q_total q + length chunk, q_fragments := q_fragments q @ [chunk] \<rparr> in
      if cont_is_more c then q1\<lparr> q_cont := c \<rparr> else q1\<lparr> q_done := True \<rparr>)"
  using assms by (simp add: feed_def Let_def)

lemma search_request_fits:
  "request_fits (ServiceSearchAttribute tid p mb attrs c) \<longleftrightarrow>
     patterns_fit p \<and> ranges_fit attrs \<and> length c \<le> 16 \<and>
     length (element_encode (uuid_seq p)) + length (attribute_list attrs) + length c < 65533"
  by (auto simp: request_fits_def request_encode_def)

text \<open>The requests of a query fit, with the longest token the server issues.\<close>

definition query_fits :: "query \<Rightarrow> bool" where
  "query_fits q \<longleftrightarrow> 0 < q_max_bytes q \<and> request_fits (query_request (q\<lparr> q_cont := cont_at 0 \<rparr>))"

lemma query_fits_request:
  "\<lbrakk>query_fits q; length (q_cont q) \<le> 2\<rbrakk> \<Longrightarrow> request_fits (query_request q)"
  by (auto simp: query_fits_def query_request_def search_request_fits cont_at_def)

lemma exchange_round:
  assumes q: "query_at q full off" and full: "full = all_attributes srv (q_patterns q) (q_attributes q)"
    and size: "length full < 65536" and fits: "query_fits q"
  shows "\<exists>rsp. Option.bind (next_request q) (server_handle srv) = Some rsp \<and>
     (let q' = snd (feed rsp q); fin = off + chunk_budget (q_max_bytes q) in
      q_patterns q' = q_patterns q \<and> q_attributes q' = q_attributes q \<and> q_max_bytes q' = q_max_bytes q
      \<and> query_fits q' \<and>
      (if fin < length full then query_at q' full fin
       else q_done q' \<and> join (q_fragments q') = full))"
proof -
  let ?fin = "min (off + chunk_budget (q_max_bytes q)) (length full)"
  let ?chunk = "take (?fin - off) (drop off full)"
  let ?cont = "if ?fin < length full then cont_at (of_nat ?fin) else cont_none"
  let ?rsp = "ServiceSearchAttributeRsp (q_tid q) ?chunk ?cont"
  have off: "off < length full" and cont: "q_cont q = (if off = 0 then cont_none else cont_at (of_nat off))"
    using q by (simp_all add: query_at_def)
  have decoded: "request_decode (request_encode (query_request q)) = Inr (query_request q)"
    using cont by (intro request_decode_encode query_fits_request fits) (simp add: cont_at_def cont_none_def)
  have answer: "dispatch srv (query_request q) = ?rsp"
    using slice_at [OF off size cont] full
    by (simp add: dispatch_def query_request_def all_attributes_def Let_def)
  have pos': "1 \<le> unat (q_max_bytes q)" using fits by (auto simp: query_fits_def Suc_le_eq word_less_nat_alt)
  have budget: "1 \<le> chunk_budget (q_max_bytes q)" by (simp add: chunk_budget_def)
  have "unat (q_max_bytes q) < 65536" using unsigned_less [of "q_max_bytes q"] by simp
  then have budget': "chunk_budget (q_max_bytes q) \<le> 65527" by (simp add: chunk_budget_def)
  have len: "length ?chunk \<le> chunk_budget (q_max_bytes q)" by simp
  also have "\<dots> \<le> unat (q_max_bytes q)" using pos' by (simp add: chunk_budget_def)
  finally have short: "length ?chunk \<le> unat (q_max_bytes q)" .
  have cont_len: "length ?cont \<le> 2" by (simp add: cont_at_def cont_none_def)
  have "length ?chunk \<le> 65527"
    using len budget' by (rule order_trans)
  then have "response_fits ?rsp"
    using cont_len unfolding response_fits_def response_encode_def sdp_response.case by simp
  then have rsp: "response_decode (response_encode ?rsp) = Inr ?rsp"
    by (rule response_decode_encode)
  have total: "q_total q + length ?chunk \<le> max_query_bytes"
    using q off size by (simp add: query_at_def max_query_bytes_def)
  have "join (q_fragments q @ [?chunk]) = take off full @ take (?fin - off) (drop off full)"
    using q by (simp add: query_at_def join_def)
  also have "\<dots> = take (off + (?fin - off)) full" by (simp only: take_add)
  also have "off + (?fin - off) = ?fin" using off by simp
  finally have joined: "join (q_fragments q @ [?chunk]) = take ?fin full" .
  have more: "cont_is_more ?cont \<longleftrightarrow> ?fin < length full"
    by (simp add: cont_is_more_def cont_at_def cont_none_def min_def)
  have served: "Option.bind (next_request q) (server_handle srv) = Some (response_encode ?rsp)"
    using q decoded answer by (simp add: next_request_def query_at_def server_handle_def)
  have total': "q_total q + length ?chunk = ?fin"
    using q off by (simp add: query_at_def)
  have fed: "snd (feed (response_encode ?rsp) q) =
      (let q1 = q\<lparr> q_total := ?fin, q_fragments := q_fragments q @ [?chunk] \<rparr> in
       if ?fin < length full then q1\<lparr> q_cont := ?cont \<rparr> else q1\<lparr> q_done := True \<rparr>)"
    unfolding feed_chunk [OF rsp short total] total' more ..
  have fits': "query_fits (q\<lparr> q_total := t, q_fragments := fs, q_cont := c \<rparr>)"
    "query_fits (q\<lparr> q_total := t, q_fragments := fs, q_done := d \<rparr>)" for t fs c d
    using fits by (simp_all add: query_fits_def query_request_def)
  let ?upto = "off + chunk_budget (q_max_bytes q)"
  show ?thesis
  proof (intro exI conjI)
    show "Option.bind (next_request q) (server_handle srv) = Some (response_encode ?rsp)"
      by (rule served)
    show "let q' = snd (feed (response_encode ?rsp) q); fin = ?upto in
      q_patterns q' = q_patterns q \<and> q_attributes q' = q_attributes q \<and> q_max_bytes q' = q_max_bytes q
      \<and> query_fits q' \<and>
      (if fin < length full then query_at q' full fin else q_done q' \<and> join (q_fragments q') = full)"
    proof (cases "?upto < length full")
      case True
      then have fin: "?fin = ?upto" by simp
      show ?thesis
        using True joined q budget fits'(1) unfolding fed unfolding fin Let_def
        by (simp add: query_at_def)
    next
      case False
      then have fin: "?fin = length full" by simp
      show ?thesis
        using False joined fits'(2) unfolding fed unfolding fin Let_def by simp
    qed
  qed
qed

lemma exchange_from:
  assumes "query_at q full off" "full = all_attributes srv (q_patterns q) (q_attributes q)"
    and "length full < 65536" "query_fits q" "length full - off \<le> n"
  shows "q_done (exchange n srv q) \<and> join (q_fragments (exchange n srv q)) = full"
  using assms
proof (induction n arbitrary: q off)
  case 0
  then show ?case by (simp add: query_at_def)
next
  case (Suc n)
  obtain rsp where rsp: "Option.bind (next_request q) (server_handle srv) = Some rsp"
    and next_q: "let q' = snd (feed rsp q); fin = off + chunk_budget (q_max_bytes q) in
      q_patterns q' = q_patterns q \<and> q_attributes q' = q_attributes q \<and> q_max_bytes q' = q_max_bytes q
      \<and> query_fits q' \<and>
      (if fin < length full then query_at q' full fin
       else q_done q' \<and> join (q_fragments q') = full)"
    using exchange_round [OF Suc.prems(1-4)] by blast
  let ?q = "snd (feed rsp q)"
  let ?fin = "off + chunk_budget (q_max_bytes q)"
  show ?case
  proof (cases "?fin < length full")
    case True
    then have "query_at ?q full ?fin" "query_fits ?q" "full = all_attributes srv (q_patterns ?q) (q_attributes ?q)"
      using next_q Suc.prems(2) by (simp_all add: Let_def)
    moreover have "length full - ?fin \<le> n"
      using Suc.prems(5) by (simp add: chunk_budget_def)
    ultimately have "q_done (exchange n srv ?q) \<and> join (q_fragments (exchange n srv ?q)) = full"
      using Suc.prems(3) by (intro Suc.IH)
    then show ?thesis using rsp by simp
  next
    case False
    then have done_q: "q_done ?q" "join (q_fragments ?q) = full" using next_q by (simp_all add: Let_def)
    have "exchange n srv ?q = ?q"
      using done_q(1) by (cases n) (simp_all add: next_request_def)
    then show ?thesis using rsp done_q by simp
  qed
qed

section \<open>What the peer reads\<close>

definition wanted :: "attribute_range list \<Rightarrow> service_record \<Rightarrow> service_record" where
  "wanted attributes r = filter (\<lambda>(i, _). list_ex (\<lambda>w. range_contains w i) attributes) r"

text \<open>The element that the answer to a query is the encoding of.\<close>

definition record_element :: "service_record \<Rightarrow> data_element" where
  "record_element r = Sequence (concat (map (\<lambda>(i, v). [Uint16 i, v]) r))"

definition answer_element :: "sdp_server \<Rightarrow> uuid list \<Rightarrow> attribute_range list \<Rightarrow> data_element" where
  "answer_element srv patterns attributes =
     Sequence (map (\<lambda>r. record_element (wanted attributes r)) (matching srv patterns))"

definition unpinned_record :: "service_record \<Rightarrow> service_record" where
  "unpinned_record r = map (\<lambda>(i, v). (i, unpinned v)) r"

lemma pairs_encode:
  "concat (map element_encode (concat (map (\<lambda>(i, v). [Uint16 i, v]) r))) =
   concat (map (\<lambda>(i, v). element_tag 1 1 # be16 i @ element_encode v) r)"
  by (induction r) (auto simp: type_uint_def)

lemma encode_attributes_element: "encode_attributes r attributes = element_encode (record_element (wanted attributes r))"
  by (simp add: encode_attributes_def record_element_def wanted_def pairs_encode wrap_sequence_def
      put_container_def type_sequence_def)

lemma all_attributes_element: "all_attributes srv patterns attributes = element_encode (answer_element srv patterns attributes)"
  by (simp add: all_attributes_def answer_element_def encode_attributes_element wrap_sequence_def
      put_container_def type_sequence_def comp_def)

lemma chunk_pairs_append:
  "sorted_wrt (<) (map fst (acc @ r)) \<Longrightarrow>
   chunk_pairs (concat (map (\<lambda>(i, v). [Uint (ucast i), v]) r)) acc = acc @ r"
proof (induction r arbitrary: acc)
  case (Cons e r)
  obtain i v where e: "e = (i, v)" by (cases e)
  have "record_with i v acc = acc @ [(i, v)]"
    using Cons.prems e by (intro record_with_last) (auto simp: sorted_wrt_append)
  moreover have "unat (ucast i :: u64) = unat i"
    by (simp add: unsigned_ucast_eq take_bit_nat_eq_self unsigned_less [THEN order.strict_trans2])
  ultimately show ?case
    using Cons e by (simp add: as_uint_def)
qed simp

lemma record_ok_wanted: "record_ok r \<Longrightarrow> record_ok (wanted attributes r)"
  by (simp add: record_ok_def wanted_def sorted_wrt_map sorted_wrt_filter)

lemma chunk_pairs_record:
  assumes "record_ok r" "unpinned (record_element r) = Sequence items"
  shows "chunk_pairs items record_new = unpinned_record r"
proof -
  have "items = concat (map (\<lambda>(i, v). [Uint (ucast i), v]) (unpinned_record r))"
    using assms(2) by (auto simp: record_element_def unpinned_record_def map_concat case_prod_beta comp_def)
  moreover have "sorted_wrt (<) (map fst ([] @ unpinned_record r))"
    using assms(1) by (simp add: record_ok_def unpinned_record_def comp_def case_prod_beta)
  ultimately show ?thesis
    using chunk_pairs_append [of "[]" "unpinned_record r"] by (simp add: record_new_def)
qed

lemma as_sequence_Sequence [simp]: "as_sequence (Sequence items) = Some items"
  by (simp add: as_sequence_def)

lemma map_filter_sequences: "List.map_filter as_sequence (map (\<lambda>x. Sequence (h x)) xs) = map h xs"
  by (induction xs) (simp_all add: List.map_filter_simps)

lemma parse_answer:
  assumes "element_wf (answer_element srv patterns attributes)"
    and "element_depth (answer_element srv patterns attributes) \<le> max_depth" "list_all record_ok srv"
  shows "parse_records (element_encode (answer_element srv patterns attributes)) =
    Inr (map (\<lambda>r. unpinned_record (wanted attributes r)) (matching srv patterns))"
proof -
  let ?items = "\<lambda>r. concat (map (\<lambda>x. [Uint (ucast (fst x)), unpinned (snd x)]) (wanted attributes r))"
  have un: "unpinned (record_element (wanted attributes r)) = Sequence (?items r)" for r
    by (simp add: record_element_def map_concat comp_def case_prod_beta)
  have "chunk_pairs (?items r) record_new = unpinned_record (wanted attributes r)" if "r \<in> set (matching srv patterns)" for r
    using that assms(3) by (intro chunk_pairs_record un record_ok_wanted) (auto simp: matching_def list_all_iff)
  then show ?thesis
    using decode_at_encode [of _ 0 "[]", OF assms(1)] assms(2)
    by (simp add: parse_records_def element_decode_def answer_element_def comp_def un
        map_filter_sequences)
qed

section \<open>Properties of the exchange\<close>

lemma exchange_new:
  assumes "query_fits (query_new tid patterns attributes max_bytes)"
    and "length (all_attributes srv patterns attributes) < 2 ^ 16"
    and "length (all_attributes srv patterns attributes) \<le> n"
  shows "q_done (exchange n srv (query_new tid patterns attributes max_bytes)) \<and>
    join (q_fragments (exchange n srv (query_new tid patterns attributes max_bytes))) =
      all_attributes srv patterns attributes"
proof (rule exchange_from [where off = 0])
  show "query_at (query_new tid patterns attributes max_bytes) (all_attributes srv patterns attributes) 0"
    by (simp add: query_at_def query_new_def join_def all_attributes_def wrap_not_Nil)
qed (use assms in \<open>simp_all add: query_new_def\<close>)

text \<open>
  C16. A query that runs against the server, through as many continuation
  round trips as its byte ceiling makes necessary, ends, and the records it then parses are the
  matching records of the server, reduced to the attributes asked for, with every value intact up
  to the width of its integers. One round trip for each byte of the answer is always enough.
\<close>

theorem published_records_read_back:
  assumes "query_fits (query_new tid patterns attributes max_bytes)" "list_all record_ok srv"
    and "element_wf (answer_element srv patterns attributes)"
    and "element_depth (answer_element srv patterns attributes) \<le> max_depth"
    and "length (all_attributes srv patterns attributes) < 2 ^ 16"
    and "length (all_attributes srv patterns attributes) \<le> n"
  shows "query_records (exchange n srv (query_new tid patterns attributes max_bytes)) =
    Inr (map (\<lambda>r. unpinned_record (wanted attributes r)) (matching srv patterns))"
  using exchange_new [OF assms(1,5,6)] parse_answer [OF assms(3,4,2)]
  by (simp add: query_records_def all_attributes_element)

lemma published_records_read_back_witness:
  "query_records (exchange 60 [record_with 1 (uuid_seq [uuid_audio_sink]) (record_with 0 (Uint32 0x10000) record_new)]
     (query_new 7 [uuid_audio_sink] [IdRange 0 0xFFFF] 12)) =
   Inr [[(0, Uint 0x10000), (1, uuid_seq [uuid_audio_sink])]]"
proof -
  let ?srv = "[record_with 1 (uuid_seq [uuid_audio_sink]) (record_with 0 (Uint32 0x10000) record_new)]"
  let ?ranges = "[IdRange 0 0xFFFF]"
  have u: "uuid_wf uuid_audio_sink"
    by (simp add: uuid_wf_def uuid_audio_sink_def uuid_short_def uuid_base_def uuid_as_short_def)
  have m: "matching ?srv [uuid_audio_sink] = ?srv"
    by (simp add: matching_def record_contains_def record_new_def uuid_seq_def)
  have answer: "answer_element ?srv [uuid_audio_sink] ?ranges =
      Sequence [Sequence [Uint16 0, Uint32 0x10000, Uint16 1, Sequence [Uuid uuid_audio_sink]]]"
    unfolding answer_element_def m
    by (simp add: record_new_def wanted_def range_contains_def record_element_def uuid_seq_def)
  have len: "length (put_uuid uuid_audio_sink) = 3"
    by (simp add: put_uuid_def uuid_audio_sink_def uuid_short_def)
  have full: "length (all_attributes ?srv [uuid_audio_sink] ?ranges) = 20"
    unfolding all_attributes_element answer by (simp add: put_container_def len)
  have fits: "query_fits (query_new 7 [uuid_audio_sink] ?ranges 12)"
    by (simp add: query_fits_def query_new_def query_request_def search_request_fits patterns_fit_def u len
        ranges_fit_def range_encode_def cont_at_def uuid_seq_def put_container_def attribute_list_def word_less_nat_alt)
  have "element_wf (answer_element ?srv [uuid_audio_sink] ?ranges)"
    "element_depth (answer_element ?srv [uuid_audio_sink] ?ranges) \<le> max_depth"
    unfolding answer by (simp_all add: u len put_container_def max_depth_def)
  moreover have "list_all record_ok ?srv"
    by (simp add: record_ok_def record_new_def)
  ultimately show ?thesis
    using published_records_read_back [OF fits, of ?srv 60] full unfolding m
    by (simp add: unpinned_record_def wanted_def range_contains_def record_new_def uuid_seq_def)
qed

text \<open>What a query has collected is bounded by what it agreed to accept, whatever it is fed.\<close>

definition query_ok :: "query \<Rightarrow> bool" where
  "query_ok q \<longleftrightarrow> q_total q = length (join (q_fragments q)) \<and> q_total q \<le> max_query_bytes \<and>
     list_all (\<lambda>f. length f \<le> unat (q_max_bytes q)) (q_fragments q)"

definition feed_step :: "bytes \<Rightarrow> query \<Rightarrow> query" where
  "feed_step rsp q = snd (feed rsp q)"

interpretation queries: machine feed_step query_ok
  by unfold_locales
    (auto simp: feed_step_def feed_def query_ok_def Let_def join_def split: sum.splits sdp_response.splits)

lemma query_new_ok: "query_ok (query_new tid patterns attributes max_bytes)"
  by (simp add: query_ok_def query_new_def join_def)

text \<open>
  Whatever a peer answers, in whatever order, a query never holds more than
  \<open>max_query_bytes\<close> bytes of answers.
\<close>

theorem query_bounded:
  "length (join (q_fragments (fold feed_step rsps (query_new tid patterns attributes max_bytes)))) \<le> max_query_bytes"
  using queries.run_ok [OF query_new_ok] by (metis query_ok_def)

text \<open>A fragment without bytes counts for nothing.\<close>

lemma feed_empty:
  assumes "\<not> q_done q" "q_total q \<le> max_query_bytes"
  shows "feed (response_encode (ServiceSearchAttributeRsp tid [] (cont_at off))) q =
     (Inr False, q\<lparr> q_fragments := q_fragments q @ [[]], q_cont := cont_at off \<rparr>)"
proof -
  have "response_fits (ServiceSearchAttributeRsp tid [] (cont_at off))"
    by (simp add: response_fits_def response_encode_def cont_at_def)
  then show ?thesis
    using assms by (simp add: feed_def response_decode_encode Let_def cont_is_more_def cont_at_def)
qed

text \<open>
  Fragments without bytes do not count towards that limit: a peer that
  keeps returning a token and no bytes keeps the query open for any number of rounds, each of
  which adds an entry to the list of fragments.
\<close>

theorem empty_fragments_unbounded:
  "length (q_fragments (fold feed_step (replicate n (response_encode (ServiceSearchAttributeRsp tid [] (cont_at off))))
     (query_new tid patterns attributes max_bytes))) = n \<and>
   \<not> q_done (fold feed_step (replicate n (response_encode (ServiceSearchAttributeRsp tid [] (cont_at off))))
     (query_new tid patterns attributes max_bytes))"
proof -
  let ?rsp = "response_encode (ServiceSearchAttributeRsp tid [] (cont_at off))"
  have "\<not> q_done q \<Longrightarrow> q_total q \<le> max_query_bytes \<Longrightarrow>
      length (q_fragments (fold feed_step (replicate n ?rsp) q)) = length (q_fragments q) + n \<and>
      \<not> q_done (fold feed_step (replicate n ?rsp) q)" for q
    by (induction n arbitrary: q) (simp_all add: feed_step_def feed_empty)
  then show ?thesis by (simp add: query_new_def)
qed

text \<open>Every answer carries the transaction id of the request it answers.\<close>

definition frame_tid :: "bytes \<Rightarrow> u16" where
  "frame_tid buf = u16_be_at buf 1"

lemma frame_tid_frame: "frame_tid (sdp_frame pdu tid params) = tid"
  by (simp add: frame_tid_def sdp_frame_def u16_be_at_def be16_def)

definition response_tid :: "sdp_response \<Rightarrow> u16" where
  "response_tid r = (case r of ErrorRsp tid _ \<Rightarrow> tid | ServiceSearchRsp tid _ _ _ \<Rightarrow> tid
     | ServiceAttributeRsp tid _ _ \<Rightarrow> tid | ServiceSearchAttributeRsp tid _ _ \<Rightarrow> tid)"

lemma response_frame_tid: "frame_tid (response_encode r) = response_tid r"
  by (simp add: response_encode_def response_tid_def frame_tid_frame split: sdp_response.splits)

lemma dispatch_tid: "response_tid (dispatch srv req) = request_tid req"
  by (auto simp: dispatch_def request_tid_def response_tid_def Let_def split: sdp_request.splits option.splits)

lemma request_decode_tid: "request_decode buf = Inr req \<Longrightarrow> request_tid req = frame_tid buf \<and> 5 \<le> length buf"
  by (auto simp: request_decode_def sdp_unframe_def frame_tid_def request_tid_def bindE_eq_Inr Let_def split: if_splits)

lemma response_tid_error [simp]: "response_tid (ErrorRsp tid code) = tid"
  by (simp add: response_tid_def)

lemma peek_tid_frame: "3 \<le> length buf \<Longrightarrow> peek_tid buf = frame_tid buf"
  by (simp add: peek_tid_def frame_tid_def)

lemma server_handle_tid:
  assumes "3 \<le> length request" "server_handle srv request = Some rsp"
  shows "frame_tid rsp = frame_tid request"
  using assms
  by (auto simp: server_handle_def response_frame_tid dispatch_tid request_decode_tid peek_tid_frame
      split: sum.splits sdp_fault.splits sdp_error.splits)

lemma server_handle_None: "server_handle srv request = None \<longleftrightarrow> request_decode request = Inl Panicked"
  using request_decode_fuel [of request]
  by (auto simp: server_handle_def split: sum.splits sdp_fault.splits sdp_error.splits)

lemma cont_decode_calm: "cont_decode buf \<noteq> Inl Panicked"
  by (auto simp: cont_decode_def Let_def split: list.splits)

lemma entries_calm: "decode_entries rest \<noteq> Inl Panicked"
  by (induction rest rule: decode_entries.induct)
     (subst decode_entries.simps, auto simp: bindE_eq_Inl Let_def split_header_calm)

lemma attribute_list_calm: "decode_attribute_list buf \<noteq> Inl Panicked"
  by (auto simp: decode_attribute_list_def bindE_eq_Inl Let_def split_header_calm entries_calm)

lemma be_u16_calm: "be_u16 what buf \<noteq> Inl Panicked"
  by (simp add: be_u16_def)

lemma request_panics:
  assumes "request_decode request = Inl Panicked"
  shows "holds_empty_integer request"
proof -
  obtain n where p: "element_decode (take n (drop 5 request)) = Inl Panicked"
    using assms
    by (auto simp: request_decode_def sdp_unframe_def bindE_eq_Inl Let_def be_u16_calm cont_decode_calm
        attribute_list_calm split: if_splits)
  then show ?thesis unfolding element_decode_def by (blast dest: decode_at_panics holds_take holds_drop)
qed

text \<open>
  C36. In a build with overflow checks, every request of at least three bytes, malformed ones
  included, is answered with the transaction id it came with, unless a signed integer of length zero stands
  somewhere in it; and such an integer at the front of a search pattern, whatever follows it, does
  end the server.
\<close>

theorem server_answers_all:
  assumes "3 \<le> length request" "length rest < 65534"
  shows "(case server_handle srv request of
        Some rsp \<Rightarrow> frame_tid rsp = frame_tid request
      | None \<Rightarrow> holds_empty_integer request)
    \<and> server_handle srv (sdp_frame 0x02 tid (0x15 # 0x00 # rest)) = None"
proof
  show "case server_handle srv request of
        Some rsp \<Rightarrow> frame_tid rsp = frame_tid request
      | None \<Rightarrow> holds_empty_integer request"
    using server_handle_tid [OF assms(1)] by (auto simp: server_handle_None request_panics split: option.split)
  show "server_handle srv (sdp_frame 0x02 tid (0x15 # 0x00 # rest)) = None"
    using assms(2) by (simp add: server_handle_None request_decode_def unframe_frame empty_integer_panics)
qed

lemma server_answers_all_witness:
  "\<exists>rsp. server_handle [] [0x09, 0x12, 0x34] = Some rsp \<and> frame_tid rsp = 0x1234"
proof -
  have "frame_tid [0x09, 0x12, 0x34] = 0x1234" "request_decode [0x09, 0x12, 0x34] \<noteq> Inl Panicked"
    by (simp_all add: request_decode_def sdp_unframe_def frame_tid_def u16_be_at_def from_be16_def)
  then show ?thesis using server_answers_all [of "[0x09, 0x12, 0x34]" "[]" "[]" 0]
    by (auto simp: server_handle_None split: option.splits)
qed

section \<open>Finding a channel in a record\<close>

text \<open>A layer that is L2CAP on channel \<open>psm\<close>, and a stack over such a layer with \<open>protocol\<close> above it.\<close>

definition l2cap_layer :: "u16 \<Rightarrow> data_element \<Rightarrow> bool" where
  "l2cap_layer psm layer \<longleftrightarrow>
     (\<exists>u v rest w. as_sequence layer = Some (Uuid u # v # rest) \<and> uuid_bytes u = uuid_bytes uuid_l2cap
        \<and> as_uint v = Some w \<and> unat w = unat psm)"

definition stack_offers :: "data_element list \<Rightarrow> u16 \<Rightarrow> uuid \<Rightarrow> bool" where
  "stack_offers layers psm protocol \<longleftrightarrow>
     (\<exists>layer\<in>set layers. l2cap_layer psm layer) \<and>
     (\<exists>layer\<in>set (drop 1 layers). \<exists>u. layer_protocol layer = Some u \<and> uuid_bytes u = uuid_bytes protocol)"

lemma as_uuid_Some [simp]: "as_uuid e = Some u \<longleftrightarrow> e = Uuid u"
  by (cases e) (auto simp: as_uuid_def)

lemma u16_try_from_unat_eq: "u16_try_from n = Some w \<Longrightarrow> n = unat w"
  by (auto simp: u16_try_from_def split: if_splits)

lemma find_psm_layer: "find_psm layers = Some psm \<Longrightarrow> \<exists>layer\<in>set layers. l2cap_layer psm layer"
proof (induction layers)
  case (Cons layer layers)
  show ?case
  proof (cases "find_psm layers = Some psm")
    case True
    then show ?thesis using Cons.IH by auto
  next
    case False
    then obtain u parts w where "as_sequence layer = Some parts" "first_element parts = Some (Uuid u)"
      "uuid_bytes u = uuid_bytes uuid_l2cap" "1 < length parts" "as_uint (parts ! 1) = Some w"
      "u16_try_from (unat w) = Some psm"
      using Cons.prems by (auto split: option.splits if_splits simp: Option.bind_eq_Some_conv)
    then have "l2cap_layer psm layer"
      unfolding l2cap_layer_def
      by (auto simp: first_element_def neq_Nil_conv less_Suc_eq_0_disj dest: u16_try_from_unat_eq split: list.splits)
    then show ?thesis by simp
  qed
qed simp

lemma psm_from_stack_offers:
  "psm_from_stack layers (Some protocol) = Some psm \<Longrightarrow> stack_offers layers psm protocol"
  by (auto simp: psm_from_stack_def matches_protocol_def stack_offers_def list_ex_iff
      split: if_splits option.splits dest: find_psm_layer)

lemma psm_from_stacks_offers:
  "psm_from_stacks stacks (Some protocol) = Some psm \<Longrightarrow>
   \<exists>stack\<in>set stacks. \<exists>layers. as_sequence stack = Some layers \<and> stack_offers layers psm protocol"
  by (induction stacks) (auto split: option.splits dest: psm_from_stack_offers)

text \<open>
  A channel that is looked up by the protocol above it is the L2CAP
  channel of a stack of the attribute in which that protocol lies above the lowest layer, not
  merely the first channel of the list.
\<close>

theorem channel_found_under_protocol:
  assumes "l2cap_psm_under r attribute (Some protocol) = Some psm"
  shows "\<exists>e items. record_get r attribute = Some e \<and> as_sequence e = Some items \<and>
    (stack_offers items psm protocol \<or>
     (\<exists>stack\<in>set items. \<exists>layers. as_sequence stack = Some layers \<and> stack_offers layers psm protocol))"
  using assms
  by (auto simp: l2cap_psm_under_def Option.bind_eq_Some_conv split: if_splits
      dest: psm_from_stack_offers psm_from_stacks_offers)

lemma channel_found_under_protocol_witness:
  "l2cap_psm_under [(0x0D, Sequence
       [Sequence [proto uuid_l2cap [Uint 0x1B], proto uuid_avctp [Uint16 0x0104]],
        Sequence [proto uuid_l2cap [Uint 0x1005], proto uuid_obex []]])] 0x0D (Some uuid_obex) = Some 0x1005 \<and>
   (\<exists>e items. record_get [(0x0D, Sequence
       [Sequence [proto uuid_l2cap [Uint 0x1B], proto uuid_avctp [Uint16 0x0104]],
        Sequence [proto uuid_l2cap [Uint 0x1005], proto uuid_obex []]])] 0x0D = Some e \<and>
      as_sequence e = Some items)"
proof -
  let ?r = "[(0x0D :: u16, Sequence
       [Sequence [proto uuid_l2cap [Uint 0x1B], proto uuid_avctp [Uint16 0x0104]],
        Sequence [proto uuid_l2cap [Uint 0x1005], proto uuid_obex []]])]"
  have "l2cap_psm_under ?r 0x0D (Some uuid_obex) = Some 0x1005"
    by (simp add: l2cap_psm_under_def record_get_def first_element_def layer_protocol_def proto_def as_sequence_def
        as_uuid_def psm_from_stack_def matches_protocol_def uuid_l2cap_def uuid_avctp_def uuid_obex_def
        uuid_short_def uuid_base_def as_uint_def u16_try_from_def)
  then show ?thesis using channel_found_under_protocol by blast
qed

text \<open>The records we publish say what they are for.\<close>

definition publishes :: "service_record \<Rightarrow> u32 \<Rightarrow> bytes \<Rightarrow> uuid \<Rightarrow> u16 \<Rightarrow> bool" where
  "publishes r h name cls psm \<longleftrightarrow>
     record_ok r \<and> record_handle r = Some h \<and> record_name r = Some name \<and> has_class r cls \<and>
     l2cap_psm r attr_protocol_descriptor_list = Some psm \<and> record_contains r uuid_l2cap"

lemma handle_narrow: "unat (ucast h :: u64) < 2 ^ 32" "ucast (ucast h :: u64) = h" for h :: u32
proof -
  have "unat h < 2 ^ 32" using unsigned_less [of h] by simp
  moreover have "take_bit 64 (unat h) = unat h"
    using calculation by (intro take_bit_nat_eq_self) simp
  ultimately show "unat (ucast h :: u64) < 2 ^ 32" by (simp add: unsigned_ucast_eq)
  show "ucast (ucast h :: u64) = h" by (rule bit_word_eqI) (simp add: bit_simps)
qed

lemmas record_queries = publishes_def record_ok_def record_handle_def record_name_def has_class_def l2cap_psm_def
  l2cap_psm_under_def record_get_def first_element_def layer_protocol_def proto_def as_sequence_def
  psm_from_stack_def matches_protocol_def as_uint_def u16_try_from_def record_contains_def uuid_seq_def

text \<open>
  The records for the sink, the controller and the target carry the handle and
  name they were made with, their service class and the channel they are served on, with their
  attributes in ascending order.
\<close>

theorem published_records:
  "publishes (a2dp_sink h name) h name uuid_audio_sink 0x0019 \<and>
   publishes (avrcp_controller h name) h name uuid_remote_controller 0x0017 \<and>
   publishes (avrcp_target h name) h name uuid_remote_target 0x0017"
  using handle_narrow [of h]
  by (simp add: record_queries a2dp_sink_def avrcp_controller_def avrcp_target_def base_record_def record_new_def
      attr_defs List.map_filter_simps as_uuid_def profile_def)

end
