(* ===== verification/A2dp_Codec.thy ===== *)
theory A2dp_Codec
  imports Wire
begin

text \<open>
  \<^verbatim>\<open>crates/proto-bluetooth-audio/src/codec.rs\<close> and \<^verbatim>\<open>error.rs\<close>: the codec capabilities a
  sender chooses from. One structure is both an offer, with several bits set in each field, and
  a configuration, with one. The log and display strings are left out.
\<close>

section \<open>Errors and formats\<close>

datatype audio_error =
    AudioTruncated string nat nat
  | UnsupportedCodec string u32
  | UnknownSignal u8
  | InvalidSeid u8
  | WrongState string string
  | AmbiguousConfiguration string
  | AudioRejected string u8
  | BadMediaPacket string
  | BadImageProperties bytes

datatype audio_codec = Alac | AacCodec | Opus | Pcm | SbcCodec | AptXCodec | AptXHdCodec | LdacCodec

text \<open>A rate and a number of channels, neither of them zero.\<close>

type_synonym audio_format = "u32 \<times> u16"

definition format_from_hz :: "u32 \<Rightarrow> u16 \<Rightarrow> audio_format option" where
  "format_from_hz sample_rate channels =
     (if sample_rate \<noteq> 0 \<and> channels \<noteq> 0 then Some (sample_rate, channels) else None)"

section \<open>Sets of rates and channel modes\<close>

definition count_ones :: "'a::len word \<Rightarrow> nat" where
  "count_ones w = length (filter (bit w) [0..<LENGTH('a)])"

type_synonym sample_rates = u8
type_synonym channel_modes = u8

definition rates_from_bits :: "u8 \<Rightarrow> sample_rates" where "rates_from_bits bits = bits AND 0x0F"

definition rates_contains :: "sample_rates \<Rightarrow> sample_rates \<Rightarrow> bool" where
  "rates_contains s other \<longleftrightarrow> s AND other = other"

definition is_single :: "u8 \<Rightarrow> bool" where "is_single s \<longleftrightarrow> count_ones s = 1"

definition rates_hz :: "sample_rates \<Rightarrow> u32 option" where
  "rates_hz s =
     (if s = 0b1000 then Some 16000 else if s = 0b0100 then Some 32000
      else if s = 0b0010 then Some 44100 else if s = 0b0001 then Some 48000 else None)"

definition rates_best :: "sample_rates \<Rightarrow> sample_rates" where
  "rates_best s =
     (if s AND 0b0001 \<noteq> 0 then 0b0001 else if s AND 0b0010 \<noteq> 0 then 0b0010
      else if s AND 0b0100 \<noteq> 0 then 0b0100 else 0b1000)"

definition rates_common :: sample_rates where "rates_common = 0b0010 OR 0b0001"

definition modes_from_bits :: "u8 \<Rightarrow> channel_modes" where "modes_from_bits bits = bits AND 0x0F"

definition modes_best :: "channel_modes \<Rightarrow> channel_modes" where
  "modes_best s =
     (if s AND 0b0001 \<noteq> 0 then 0b0001 else if s AND 0b0010 \<noteq> 0 then 0b0010
      else if s AND 0b0100 \<noteq> 0 then 0b0100 else 0b1000)"

definition modes_channel_count :: "channel_modes \<Rightarrow> u8" where
  "modes_channel_count s = (if s = 0b1000 then 1 else 2)"

section \<open>Capabilities\<close>

datatype codec_capability =
    Sbc (sbc_rates: sample_rates) (sbc_channels: channel_modes) (block_lengths: u8) (subbands: u8)
        (allocations: u8) (min_bitpool: u8) (max_bitpool: u8)
  | Aac (object_types: u8) (aac_rate_bits: u16) (aac_channel_bits: u8) (vbr: bool) (aac_bitrate: u32)
  | AptX sample_rates channel_modes
  | AptXHd sample_rates channel_modes
  | Ldac u8 u8

fun capability_codec :: "codec_capability \<Rightarrow> audio_codec" where
  "capability_codec (Sbc _ _ _ _ _ _ _) = SbcCodec"
| "capability_codec (Aac _ _ _ _ _) = AacCodec"
| "capability_codec (AptX _ _) = AptXCodec"
| "capability_codec (AptXHd _ _) = AptXHdCodec"
| "capability_codec (Ldac _ _) = LdacCodec"

fun preference :: "codec_capability \<Rightarrow> u8" where
  "preference (Ldac _ _) = 0"
| "preference (AptXHd _ _) = 1"
| "preference (AptX _ _) = 2"
| "preference (Aac _ _ _ _ _) = 3"
| "preference (Sbc _ _ _ _ _ _ _) = 4"

fun is_configuration :: "codec_capability \<Rightarrow> bool" where
  "is_configuration (Sbc r c bl sb al _ _) =
     (is_single r \<and> is_single c \<and> count_ones bl = 1 \<and> count_ones sb = 1 \<and> count_ones al = 1)"
| "is_configuration (Aac ot r c _ _) = (count_ones ot = 1 \<and> count_ones r = 1 \<and> count_ones c = 1)"
| "is_configuration (AptX r c) = (is_single r \<and> is_single c)"
| "is_configuration (AptXHd r c) = (is_single r \<and> is_single c)"
| "is_configuration (Ldac r c) = (count_ones r = 1 \<and> count_ones c = 1)"

definition aac_rate_hz :: "u16 \<Rightarrow> u32 option" where
  "aac_rate_hz bits =
     (if bits = 0b100000000000 then Some 8000 else if bits = 0b010000000000 then Some 11025
      else if bits = 0b001000000000 then Some 12000 else if bits = 0b000100000000 then Some 16000
      else if bits = 0b000010000000 then Some 22050 else if bits = 0b000001000000 then Some 24000
      else if bits = 0b000000100000 then Some 32000 else if bits = 0b000000010000 then Some 44100
      else if bits = 0b000000001000 then Some 48000 else if bits = 0b000000000100 then Some 64000
      else if bits = 0b000000000010 then Some 88200 else if bits = 0b000000000001 then Some 96000
      else None)"

definition ldac_rate_hz :: "u8 \<Rightarrow> u32 option" where
  "ldac_rate_hz bits =
     (if bits = 0b100000 then Some 44100 else if bits = 0b010000 then Some 48000
      else if bits = 0b001000 then Some 88200 else if bits = 0b000100 then Some 96000
      else if bits = 0b000010 then Some 176400 else if bits = 0b000001 then Some 192000
      else None)"

fun capability_sample_rate :: "codec_capability \<Rightarrow> u32 option" where
  "capability_sample_rate (Sbc r _ _ _ _ _ _) = rates_hz r"
| "capability_sample_rate (Aac _ r _ _ _) = aac_rate_hz r"
| "capability_sample_rate (AptX r _) = rates_hz r"
| "capability_sample_rate (AptXHd r _) = rates_hz r"
| "capability_sample_rate (Ldac r _) = ldac_rate_hz r"

fun capability_channel_count :: "codec_capability \<Rightarrow> u8 option" where
  "capability_channel_count (Sbc _ c _ _ _ _ _) = (if is_single c then Some (modes_channel_count c) else None)"
| "capability_channel_count (AptX _ c) = (if is_single c then Some (modes_channel_count c) else None)"
| "capability_channel_count (AptXHd _ c) = (if is_single c then Some (modes_channel_count c) else None)"
| "capability_channel_count (Aac _ _ c _ _) = (if c = 0b10 then Some 1 else if c = 0b01 then Some 2 else None)"
| "capability_channel_count (Ldac _ c) = (if c = 0b100 then Some 1 else if c = 0b010 \<or> c = 0b001 then Some 2 else None)"

definition capability_format :: "codec_capability \<Rightarrow> audio_format option" where
  "capability_format c =
     Option.bind (capability_sample_rate c) (\<lambda>rate.
     Option.bind (capability_channel_count c) (\<lambda>n. format_from_hz rate (ucast n)))"

definition capability_bitrate :: "codec_capability \<Rightarrow> u32 option" where
  "capability_bitrate c =
     Option.bind (capability_sample_rate c) (\<lambda>rate.
     Option.bind (capability_channel_count c) (\<lambda>n.
       case c of
         AptX _ _ \<Rightarrow> Some (rate * ucast n * 4)
       | AptXHd _ _ \<Rightarrow> Some (rate * ucast n * 6)
       | Aac _ _ _ _ b \<Rightarrow> (if b \<noteq> 0 then Some b else None)
       | _ \<Rightarrow> None))"

section \<open>The codec block\<close>

definition le32 :: "u32 \<Rightarrow> bytes" where
  "le32 w = [ucast w, ucast (drop_bit 8 w), ucast (drop_bit 16 w), ucast (drop_bit 24 w)]"

definition put_vendor :: "u32 \<Rightarrow> u16 \<Rightarrow> bytes" where
  "put_vendor vendor_id codec_id = le32 vendor_id @ le16 codec_id"

definition vendor_apt :: u32 where "vendor_apt = 0x4F"
definition vendor_qualcomm :: u32 where "vendor_qualcomm = 0xD7"
definition vendor_sony :: u32 where "vendor_sony = 0x12D"
definition aptx_codec :: u16 where "aptx_codec = 0x0001"
definition aptx_hd_codec :: u16 where "aptx_hd_codec = 0x0024"
definition ldac_codec :: u16 where "ldac_codec = 0x00AA"

lemmas vendor_defs = vendor_apt_def vendor_qualcomm_def vendor_sony_def aptx_codec_def aptx_hd_codec_def ldac_codec_def

fun capability_encode :: "codec_capability \<Rightarrow> bytes" where
  "capability_encode (Sbc r c bl sb al lo hi) =
     [0x00, 0x00, push_bit 4 r OR c, push_bit 4 bl OR push_bit 2 sb OR al, lo, hi]"
| "capability_encode (Aac ot r c v b) =
     (let br = b AND 0x007FFFFF in
      [0x00, 0x02, ot, ucast (drop_bit 4 r), push_bit 4 (ucast (r AND 0x000F)) OR push_bit 2 c,
       push_bit 7 (if v then 1 else 0) OR ucast (drop_bit 16 br), ucast (drop_bit 8 br), ucast br])"
| "capability_encode (AptX r c) = [0x00, 0xFF] @ put_vendor vendor_apt aptx_codec @ [push_bit 4 r OR c]"
| "capability_encode (AptXHd r c) =
     [0x00, 0xFF] @ put_vendor vendor_qualcomm aptx_hd_codec @ [push_bit 4 r OR c, 0, 0, 0, 0]"
| "capability_encode (Ldac r c) = [0x00, 0xFF] @ put_vendor vendor_sony ldac_codec @ [r AND 0x3F, c AND 0x07]"

definition need_bytes :: "bytes \<Rightarrow> nat \<Rightarrow> audio_error + unit" where
  "need_bytes buf n =
     (if length buf < n then Inl (AudioTruncated ''media codec capability'' n (length buf)) else Inr ())"

definition from_le32 :: "u8 \<Rightarrow> u8 \<Rightarrow> u8 \<Rightarrow> u8 \<Rightarrow> u32" where
  "from_le32 a b c d = from_be32 d c b a"

definition decode_vendor :: "bytes \<Rightarrow> audio_error + codec_capability" where
  "decode_vendor buf =
     (let vendor_id = from_le32 (buf ! 2) (buf ! 3) (buf ! 4) (buf ! 5);
          codec_id = from_le16 (buf ! 6) (buf ! 7) in
      if vendor_id = vendor_apt \<and> codec_id = aptx_codec then
        bindE (need_bytes buf 9) (\<lambda>_. Inr (AptX (rates_from_bits (drop_bit 4 (buf ! 8))) (modes_from_bits (buf ! 8 AND 0x0F))))
      else if vendor_id = vendor_qualcomm \<and> codec_id = aptx_hd_codec then
        bindE (need_bytes buf 9) (\<lambda>_. Inr (AptXHd (rates_from_bits (drop_bit 4 (buf ! 8))) (modes_from_bits (buf ! 8 AND 0x0F))))
      else if vendor_id = vendor_sony \<and> codec_id = ldac_codec then
        bindE (need_bytes buf 10) (\<lambda>_. Inr (Ldac (buf ! 8 AND 0x3F) (buf ! 9 AND 0x07)))
      else Inl (UnsupportedCodec ''vendor codec'' vendor_id))"

definition capability_decode :: "bytes \<Rightarrow> audio_error + codec_capability" where
  "capability_decode buf =
     bindE (need_bytes buf 2) (\<lambda>_.
       let media_type = drop_bit 4 (buf ! 0) in
       if media_type \<noteq> 0 then Inl (UnsupportedCodec ''media type'' (ucast media_type))
       else if buf ! 1 = 0x00 then
         bindE (need_bytes buf 6) (\<lambda>_. Inr (Sbc (rates_from_bits (drop_bit 4 (buf ! 2))) (modes_from_bits (buf ! 2 AND 0x0F))
           (drop_bit 4 (buf ! 3)) (drop_bit 2 (buf ! 3) AND 0x03) (buf ! 3 AND 0x03) (buf ! 4) (buf ! 5)))
       else if buf ! 1 = 0x02 then
         bindE (need_bytes buf 8) (\<lambda>_. Inr (Aac (buf ! 2)
           (push_bit 4 (ucast (buf ! 3)) OR ucast (drop_bit 4 (buf ! 4)))
           (drop_bit 2 (buf ! 4) AND 0x03)
           (buf ! 5 AND 0x80 \<noteq> 0)
           (push_bit 16 (ucast (buf ! 5 AND 0x7F)) OR push_bit 8 (ucast (buf ! 6)) OR ucast (buf ! 7))))
       else if buf ! 1 = 0xFF then bindE (need_bytes buf 8) (\<lambda>_. decode_vendor buf)
       else Inl (UnsupportedCodec ''codec type'' (ucast (buf ! 1))))"

section \<open>What we offer\<close>

definition advertised_codecs :: "audio_codec list \<Rightarrow> codec_capability list" where
  "advertised_codecs decodable =
     (if LdacCodec \<in> set decodable then [Ldac 0b111100 0b111] else [])
     @ (if AptXHdCodec \<in> set decodable then [AptXHd rates_common (0b0010 OR 0b0001)] else [])
     @ (if AptXCodec \<in> set decodable then [AptX rates_common (0b0010 OR 0b0001)] else [])
     @ (if AacCodec \<in> set decodable then [Aac (push_bit 6 1) (push_bit 4 1 OR push_bit 3 1) 0b11 True 320000] else [])
     @ [Sbc 0b1111 0b1111 0b1111 0b11 0b11 2 53]"

section \<open>Bits\<close>

lemma count_ones_single:
  fixes w :: "'a::len word"
  assumes "count_ones w = 1"
  obtains i where "i < LENGTH('a)" "w = push_bit i 1"
proof -
  obtain i where i: "filter (bit w) [0..<LENGTH('a)] = [i]"
    using assms unfolding count_ones_def by (metis (no_types) One_nat_def length_0_conv length_Suc_conv)
  have "j < LENGTH('a) \<and> bit w j \<longleftrightarrow> j = i" for j
    using arg_cong [OF i, of set] by (auto simp: set_eq_iff)
  then have "w = push_bit i 1"
    by (intro bit_word_eqI) (auto simp: bit_simps)
  moreover have "i < LENGTH('a)"
    using arg_cong [OF i, of set] by (auto simp: set_eq_iff)
  ultimately show ?thesis by (rule that [rotated])
qed

text \<open>The fields of a capability are as wide as the block has room for.\<close>

fun capability_wf :: "codec_capability \<Rightarrow> bool" where
  "capability_wf (Sbc r c bl sb al _ _) = (r < 16 \<and> c < 16 \<and> bl < 16 \<and> sb < 4 \<and> al < 4)"
| "capability_wf (Aac _ r c _ b) = (r < 4096 \<and> c < 4 \<and> b < 0x800000)"
| "capability_wf (AptX r c) = (r < 16 \<and> c < 16)"
| "capability_wf (AptXHd r c) = (r < 16 \<and> c < 16)"
| "capability_wf (Ldac r c) = (r < 64 \<and> c < 8)"

lemma below:
  "bit w n \<Longrightarrow> (w :: u8) < 4 \<Longrightarrow> n < 2" "bit w n \<Longrightarrow> (w :: u8) < 8 \<Longrightarrow> n < 3"
  "bit w n \<Longrightarrow> (w :: u8) < 16 \<Longrightarrow> n < 4" "bit w n \<Longrightarrow> (w :: u8) < 64 \<Longrightarrow> n < 6"
  "bit v n \<Longrightarrow> (v :: u16) < 4096 \<Longrightarrow> n < 12" "bit u n \<Longrightarrow> (u :: u32) < 0x800000 \<Longrightarrow> n < 23"
  by (erule bit_below [rotated], simp add: word_less_nat_alt)+

lemma masks:
  "(0x03 :: u8) = mask 2" "(0x07 :: u8) = mask 3" "(0x0F :: u8) = mask 4" "(0x3F :: u8) = mask 6" "(0x7F :: u8) = mask 7"
  "(0x0F :: u16) = mask 4" "(0x7FFFFF :: u32) = mask 23"
  by (simp_all add: mask_eq_exp_minus_1)

lemma nibbles:
  fixes r c :: u8
  assumes "r < 16" "c < 16"
  shows "rates_from_bits (drop_bit 4 (push_bit 4 r OR c)) = r" "modes_from_bits ((push_bit 4 r OR c) AND 0x0F) = c"
  using assms unfolding rates_from_bits_def modes_from_bits_def masks
  by (auto intro!: bit_word_eqI simp: bit_simps dest: below)

lemma sbc_fields:
  fixes bl sb al :: u8
  assumes "bl < 16" "sb < 4" "al < 4"
  shows "drop_bit 4 (push_bit 4 bl OR push_bit 2 sb OR al) = bl"
    "drop_bit 2 (push_bit 4 bl OR push_bit 2 sb OR al) AND 0x03 = sb"
    "(push_bit 4 bl OR push_bit 2 sb OR al) AND 0x03 = al"
proof -
  note [dest] = below(3) [OF _ assms(1)] below(1) [OF _ assms(2)] below(1) [OF _ assms(3)]
  show "drop_bit 4 (push_bit 4 bl OR push_bit 2 sb OR al) = bl"
    "drop_bit 2 (push_bit 4 bl OR push_bit 2 sb OR al) AND 0x03 = sb"
    "(push_bit 4 bl OR push_bit 2 sb OR al) AND 0x03 = al"
    unfolding masks by (rule bit_word_eqI; auto simp: bit_simps)+
qed

lemma from_le_fields [simp]:
  "from_le32 (ucast w) (ucast (drop_bit 8 w)) (ucast (drop_bit 16 w)) (ucast (drop_bit 24 w)) = w"
  by (simp add: from_le32_def)

lemma aac_fields:
  fixes r :: u16 and c :: u8
  assumes "r < 4096" "c < 4"
  shows "push_bit 4 (ucast (ucast (drop_bit 4 r) :: u8)) OR
      ucast (drop_bit 4 (push_bit 4 (ucast (r AND 0x000F)) OR push_bit 2 c :: u8)) = (r :: u16)"
    "drop_bit 2 (push_bit 4 (ucast (r AND 0x000F)) OR push_bit 2 c) AND 0x03 = c"
proof -
  note [dest] = below(5) [OF _ assms(1)] below(1) [OF _ assms(2)]
  show "push_bit 4 (ucast (ucast (drop_bit 4 r) :: u8)) OR
      ucast (drop_bit 4 (push_bit 4 (ucast (r AND 0x000F)) OR push_bit 2 c :: u8)) = r"
  proof (rule bit_word_eqI)
    fix n :: nat
    show "bit (push_bit 4 (ucast (ucast (drop_bit 4 r) :: u8)) OR
      ucast (drop_bit 4 (push_bit 4 (ucast (r AND 0x000F)) OR push_bit 2 c :: u8)) :: u16) n = bit r n"
      unfolding masks by (cases "n < 4") (auto simp: bit_simps)
  qed
  show "drop_bit 2 (push_bit 4 (ucast (r AND 0x000F)) OR push_bit 2 c) AND 0x03 = c"
    unfolding masks by (rule bit_word_eqI) (auto simp: bit_simps)
qed

lemma bitrate_fields:
  fixes b :: u32 and x :: u8
  assumes "b < 0x800000" "x = (if v then 1 else 0)"
  shows "push_bit 16 (ucast ((push_bit 7 x OR ucast (drop_bit 16 (b AND 0x7FFFFF)) :: u8) AND 0x7F)) OR
      push_bit 8 (ucast (ucast (drop_bit 8 (b AND 0x7FFFFF)) :: u8)) OR ucast (ucast (b AND 0x7FFFFF) :: u8) = b"
    "(push_bit 7 x OR ucast (drop_bit 16 (b AND 0x7FFFFF)) :: u8) AND 0x80 \<noteq> 0 \<longleftrightarrow> v"
proof -
  note [dest] = below(6) [OF _ assms(1)]
  have x: "bit x n \<longleftrightarrow> v \<and> n = 0" for n
    by (simp add: assms(2) bit_simps)
  show "push_bit 16 (ucast ((push_bit 7 x OR ucast (drop_bit 16 (b AND 0x7FFFFF)) :: u8) AND 0x7F)) OR
      push_bit 8 (ucast (ucast (drop_bit 8 (b AND 0x7FFFFF)) :: u8)) OR ucast (ucast (b AND 0x7FFFFF) :: u8) = b"
  proof (rule bit_word_eqI)
    fix n :: nat
    consider "n < 8" | "8 \<le> n" "n < 16" | "16 \<le> n" by linarith
    then show "bit (push_bit 16 (ucast ((push_bit 7 x OR ucast (drop_bit 16 (b AND 0x7FFFFF)) :: u8) AND 0x7F)) OR
      push_bit 8 (ucast (ucast (drop_bit 8 (b AND 0x7FFFFF)) :: u8)) OR ucast (ucast (b AND 0x7FFFFF) :: u8) :: u32) n = bit b n"
      unfolding masks by cases (auto simp: bit_simps x)
  qed
  have "(0x80 :: u8) = push_bit 7 1" by simp
  then have "w AND 0x80 \<noteq> 0 \<longleftrightarrow> bit w 7" for w :: u8
    by (metis bit_iff_and_push_bit_not_eq_0)
  moreover have "bit (push_bit 7 x OR ucast (drop_bit 16 (b AND 0x7FFFFF)) :: u8) 7 \<longleftrightarrow> v"
    unfolding masks by (auto simp: bit_simps x)
  ultimately show "(push_bit 7 x OR ucast (drop_bit 16 (b AND 0x7FFFFF)) :: u8) AND 0x80 \<noteq> 0 \<longleftrightarrow> v"
    by blast
qed

lemma ldac_fields: "r < 64 \<Longrightarrow> r AND 0x3F = r" "c < 8 \<Longrightarrow> c AND 0x07 = c" for r c :: u8
  unfolding masks by (auto intro!: bit_word_eqI simp: bit_simps dest: below)

lemma capability_decode_encode:
  "capability_wf c \<Longrightarrow> capability_decode (capability_encode c @ rest) = Inr c"
proof (cases c)
  case (Aac ot r ch v b)
  assume "capability_wf c"
  then have wf: "r < 4096" "ch < 4" "b < 0x800000" using Aac by simp_all
  show ?thesis
    unfolding Aac
    using aac_fields [OF wf(1,2)] bitrate_fields [OF wf(3) refl, of v]
    by (simp add: capability_decode_def need_bytes_def Let_def del: drop_bit_or)
qed (simp_all add: capability_decode_def need_bytes_def Let_def decode_vendor_def put_vendor_def le32_def le16_def
     vendor_defs nibbles sbc_fields ldac_fields from_le32_def from_be32_def from_le16_def del: drop_bit_or)

section \<open>Every configuration can be decoded\<close>

lemma single_below:
  fixes w :: "'a::len word"
  assumes "count_ones w = 1" "unat w < 2 ^ k"
  obtains i where "i < k" "w = push_bit i 1"
proof -
  obtain i where i: "i < LENGTH('a)" "w = push_bit i 1"
    using assms(1) by (rule count_ones_single)
  have "bit w i" using i by (simp add: bit_simps)
  then have "i < k" by (rule bit_below [OF assms(2)])
  then show ?thesis using i(2) by (rule that)
qed

lemma nat_below:
  "i < 2 \<Longrightarrow> i = 0 \<or> i = Suc 0" "i < 3 \<Longrightarrow> i = 0 \<or> i = Suc 0 \<or> i = 2" "i < 4 \<Longrightarrow> i = 0 \<or> i = Suc 0 \<or> i = 2 \<or> i = 3"
  "i < 6 \<Longrightarrow> i = 0 \<or> i = Suc 0 \<or> i = 2 \<or> i = 3 \<or> i = 4 \<or> i = 5"
  "i < 12 \<Longrightarrow> i = 0 \<or> i = Suc 0 \<or> i = 2 \<or> i = 3 \<or> i = 4 \<or> i = 5 \<or> i = 6 \<or> i = 7 \<or> i = 8 \<or> i = 9 \<or> i = 10 \<or> i = 11"
  for i :: nat
  by presburger+

lemma rates_hz_single: "\<lbrakk>is_single r; r < 16\<rbrakk> \<Longrightarrow> \<exists>hz. rates_hz r = Some hz \<and> hz \<noteq> 0"
  unfolding is_single_def
  by (erule single_below [where k = 4]) (auto simp: word_less_nat_alt rates_hz_def dest!: nat_below)

lemma aac_rate_single: "\<lbrakk>count_ones r = 1; r < 4096\<rbrakk> \<Longrightarrow> \<exists>hz. aac_rate_hz r = Some hz \<and> hz \<noteq> 0"
  by (erule single_below [where k = 12]) (auto simp: word_less_nat_alt aac_rate_hz_def dest!: nat_below)

lemma ldac_rate_single: "\<lbrakk>count_ones r = 1; r < 64\<rbrakk> \<Longrightarrow> \<exists>hz. ldac_rate_hz r = Some hz \<and> hz \<noteq> 0"
  by (erule single_below [where k = 6]) (auto simp: word_less_nat_alt ldac_rate_hz_def dest!: nat_below)

lemma channel_count_single:
  assumes "capability_wf c" "is_configuration c"
  shows "\<exists>n. capability_channel_count c = Some n \<and> (n = 1 \<or> n = 2)"
proof (cases c)
  case (Aac ot r ch v b)
  then have "count_ones ch = 1" "unat ch < 2 ^ 2" using assms by (simp_all add: word_less_nat_alt)
  then obtain i where "i < 2" "ch = push_bit i 1" by (rule single_below)
  then show ?thesis using Aac by (auto dest!: nat_below)
next
  case (Ldac r ch)
  then have "count_ones ch = 1" "unat ch < 2 ^ 3" using assms by (simp_all add: word_less_nat_alt)
  then obtain i where "i < 3" "ch = push_bit i 1" by (rule single_below)
  then show ?thesis using Ldac by (auto dest!: nat_below)
qed (use assms in \<open>auto simp: modes_channel_count_def\<close>)

lemma sample_rate_single:
  assumes "capability_wf c" "is_configuration c"
  shows "\<exists>hz. capability_sample_rate c = Some hz \<and> hz \<noteq> 0"
  using assms by (cases c) (auto simp flip: One_nat_def dest: rates_hz_single aac_rate_single ldac_rate_single)

lemma configuration_format:
  assumes "capability_wf c" "is_configuration c"
  obtains rate channels where "capability_format c = Some (rate, channels)" "rate \<noteq> 0" "channels = 1 \<or> channels = 2"
  using channel_count_single [OF assms] sample_rate_single [OF assms]
  by (auto simp: capability_format_def format_from_hz_def)

lemma take_bit_below: "take_bit k w = w \<Longrightarrow> unat w < 2 ^ k"
  by (metis unsigned_take_bit_eq take_bit_nat_less_exp)

lemma masked_below:
  "b AND 0x03 < 4" "b AND 0x07 < 8" "b AND 0x0F < 16" "b AND 0x3F < 64" "drop_bit 4 b < 16" for b :: u8
proof -
  have below: "unat (b AND mask n) < 2 ^ n" for n by (simp add: unsigned_take_bit_eq flip: take_bit_eq_mask)
  show "b AND 0x03 < 4" "b AND 0x07 < 8" "b AND 0x0F < 16" "b AND 0x3F < 64"
    unfolding masks word_less_nat_alt using below [of 2] below [of 3] below [of 4] below [of 6] by simp_all
  have "take_bit 4 (drop_bit 4 b) = drop_bit 4 b"
    by (rule bit_word_eqI) (auto simp: bit_simps dest: bit_imp_le_length)
  then show "drop_bit 4 b < 16" using take_bit_below unfolding word_less_nat_alt by fastforce
qed

lemma aac_rate_below: "push_bit 4 (ucast (a :: u8)) OR ucast (drop_bit 4 (b :: u8)) < (4096 :: u16)"
proof -
  let ?w = "push_bit 4 (ucast a) OR ucast (drop_bit 4 b) :: u16"
  have "take_bit 12 ?w = ?w"
    by (rule bit_word_eqI) (auto simp: bit_simps dest: bit_imp_le_length)
  then have "unat ?w < 2 ^ 12" by (rule take_bit_below)
  then show ?thesis by (simp add: word_less_nat_alt)
qed

lemma aac_bitrate_below:
  "push_bit 16 (ucast ((a :: u8) AND 0x7F)) OR push_bit 8 (ucast (b :: u8)) OR ucast (c :: u8) < (0x800000 :: u32)"
proof -
  let ?w = "push_bit 16 (ucast (a AND 0x7F)) OR push_bit 8 (ucast b) OR ucast c :: u32"
  have "take_bit 23 ?w = ?w"
    unfolding masks by (rule bit_word_eqI) (auto simp: bit_simps dest: bit_imp_le_length)
  then have "unat ?w < 2 ^ 23" by (rule take_bit_below)
  then show ?thesis by (simp add: word_less_nat_alt)
qed

lemma capability_decode_wf: "capability_decode buf = Inr c \<Longrightarrow> capability_wf c"
  by (auto simp: capability_decode_def decode_vendor_def need_bytes_def Let_def rates_from_bits_def modes_from_bits_def
      masked_below aac_rate_below aac_bitrate_below split: if_splits)

section \<open>Properties\<close>

text \<open>
  A capability whose fields fit the block is decoded from its encoding unchanged,
  the little-endian vendor identifiers and the split rate field of AAC included.
\<close>

theorem codec_block_roundtrip:
  "capability_wf c \<Longrightarrow> capability_decode (capability_encode c @ rest) = Inr c"
  by (rule capability_decode_encode)

lemma codec_block_roundtrip_witness:
  "capability_decode (capability_encode (Aac 0x80 0x100 0b01 True 320000) @ [8, 0]) = Inr (Aac 0x80 0x100 0b01 True 320000)"
  by (rule codec_block_roundtrip) simp

text \<open>
  Whatever block a sender configures, if it decodes and selects one option
  in each field, then it has one rate and one or two channels, so a decoder can be opened for it:
  the last check of SET_CONFIGURATION never refuses what passed the ones before it.
\<close>

theorem configuration_is_playable:
  assumes "capability_decode buf = Inr c" "is_configuration c"
  shows "\<exists>rate channels. capability_format c = Some (rate, channels) \<and> rate \<noteq> 0 \<and> (channels = 1 \<or> channels = 2)"
  using configuration_format [OF capability_decode_wf [OF assms(1)] assms(2)] by blast

lemma configuration_is_playable_witness:
  "capability_decode [0, 0, 0x21, 0x15, 2, 53] = Inr (Sbc 2 1 1 1 1 2 53) \<and>
   (\<exists>rate channels. capability_format (Sbc 2 1 1 1 1 2 53) = Some (rate, channels) \<and> rate \<noteq> 0 \<and> (channels = 1 \<or> channels = 2))"
proof -
  have "capability_decode [0, 0, 0x21, 0x15, 2, 53] = Inr (Sbc 2 1 1 1 1 2 53)"
    by (simp add: capability_decode_def need_bytes_def rates_from_bits_def modes_from_bits_def)
  moreover have "is_configuration (Sbc 2 1 1 1 1 2 53)" by code_simp
  ultimately show ?thesis using configuration_is_playable by blast
qed

text \<open>
  The offer is ordered by preference, ends with the mandatory SBC, and
  names no codec but SBC that the build cannot decode.
\<close>

theorem offer_in_order_of_preference:
  "sorted (map preference (advertised_codecs decodable)) \<and>
   capability_codec (last (advertised_codecs decodable)) = SbcCodec \<and>
   list_all (\<lambda>c. capability_wf c \<and> (capability_codec c = SbcCodec \<or> capability_codec c \<in> set decodable)) (advertised_codecs decodable)"
  by (auto simp: advertised_codecs_def rates_common_def)

end
