(* ===== verification/Avdtp.thy ===== *)
theory Avdtp
  imports A2dp_Codec
begin

text \<open>
  \<^verbatim>\<open>crates/proto-bluetooth-audio/src/avdtp.rs\<close> and \<^verbatim>\<open>sink.rs\<close>: the signalling of an audio
  stream and the sink session that answers it. A \<open>Seid\<close> is the byte it wraps.
\<close>

section \<open>Signals and messages\<close>

datatype signal = Discover | GetCapabilities | SetConfiguration | GetConfiguration | Reconfigure | Open | Start
  | Close | Suspend | Abort | SecurityControl | GetAllCapabilities | DelayReport

fun signal_id :: "signal \<Rightarrow> u8" where
  "signal_id Discover = 0x01"
| "signal_id GetCapabilities = 0x02"
| "signal_id SetConfiguration = 0x03"
| "signal_id GetConfiguration = 0x04"
| "signal_id Reconfigure = 0x05"
| "signal_id Open = 0x06"
| "signal_id Start = 0x07"
| "signal_id Close = 0x08"
| "signal_id Suspend = 0x09"
| "signal_id Abort = 0x0A"
| "signal_id SecurityControl = 0x0B"
| "signal_id GetAllCapabilities = 0x0C"
| "signal_id DelayReport = 0x0D"

definition signal_from_id :: "u8 \<Rightarrow> audio_error + signal" where
  "signal_from_id i =
     (if i = 0x01 then Inr Discover else if i = 0x02 then Inr GetCapabilities
      else if i = 0x03 then Inr SetConfiguration else if i = 0x04 then Inr GetConfiguration
      else if i = 0x05 then Inr Reconfigure else if i = 0x06 then Inr Open
      else if i = 0x07 then Inr Start else if i = 0x08 then Inr Close
      else if i = 0x09 then Inr Suspend else if i = 0x0A then Inr Abort
      else if i = 0x0B then Inr SecurityControl else if i = 0x0C then Inr GetAllCapabilities
      else if i = 0x0D then Inr DelayReport else Inl (UnknownSignal i))"

datatype message_type = Command | GeneralReject | ResponseAccept | ResponseReject

fun type_bits :: "message_type \<Rightarrow> u8" where
  "type_bits Command = 0b00"
| "type_bits GeneralReject = 0b01"
| "type_bits ResponseAccept = 0b10"
| "type_bits ResponseReject = 0b11"

definition type_from_bits :: "u8 \<Rightarrow> message_type" where
  "type_from_bits bits =
     (let b = bits AND 0b11 in
      if b = 0b00 then Command else if b = 0b01 then GeneralReject
      else if b = 0b10 then ResponseAccept else ResponseReject)"

type_synonym seid = u8

definition seid_max :: u8 where "seid_max = 0x3E"

definition seid_new :: "u8 \<Rightarrow> audio_error + seid" where
  "seid_new raw = (if raw = 0 \<or> seid_max < raw then Inl (InvalidSeid raw) else Inr raw)"

definition seid_shifted :: "seid \<Rightarrow> u8" where "seid_shifted s = push_bit 2 s"

definition seid_from_shifted :: "u8 \<Rightarrow> audio_error + seid" where
  "seid_from_shifted byte = seid_new (drop_bit 2 byte)"

record message =
  m_transaction :: u8
  m_type :: message_type
  m_signal :: signal
  m_payload :: bytes

definition message_of :: "u8 \<Rightarrow> message_type \<Rightarrow> signal \<Rightarrow> bytes \<Rightarrow> message" where
  "message_of t ty s p = \<lparr> m_transaction = t, m_type = ty, m_signal = s, m_payload = p \<rparr>"

definition general_reject :: "u8 \<Rightarrow> u8 \<Rightarrow> bytes" where
  "general_reject transaction sig = [push_bit 4 transaction OR type_bits GeneralReject, sig]"

definition refusable_header :: "bytes \<Rightarrow> (u8 \<times> u8) option" where
  "refusable_header buf =
     (case buf of
        header # sig # _ \<Rightarrow> if type_from_bits header = Command then Some (drop_bit 4 header, sig) else None
      | _ \<Rightarrow> None)"

definition message_command :: "u8 \<Rightarrow> signal \<Rightarrow> bytes \<Rightarrow> message" where
  "message_command t s p = message_of t Command s p"

definition message_accept :: "message \<Rightarrow> bytes \<Rightarrow> message" where
  "message_accept c p = message_of (m_transaction c) ResponseAccept (m_signal c) p"

definition message_reject :: "message \<Rightarrow> u8 \<Rightarrow> message" where
  "message_reject c code = message_of (m_transaction c) ResponseReject (m_signal c) [code]"

definition message_delay_report :: "u8 \<Rightarrow> seid \<Rightarrow> u16 \<Rightarrow> message" where
  "message_delay_report t s delay = message_command t DelayReport (seid_shifted s # be16 delay)"

definition message_suspend :: "u8 \<Rightarrow> seid \<Rightarrow> message" where
  "message_suspend t s = message_command t Suspend [seid_shifted s]"

definition message_encode :: "message \<Rightarrow> bytes" where
  "message_encode m = (push_bit 4 (m_transaction m) OR type_bits (m_type m)) # signal_id (m_signal m) # m_payload m"

definition message_decode :: "bytes \<Rightarrow> audio_error + message" where
  "message_decode buf =
     (if length buf < 2 then Inl (AudioTruncated ''avdtp header'' 2 (length buf))
      else if drop_bit 2 (buf ! 0) AND 0b11 \<noteq> 0 then
        Inl (BadMediaPacket ''fragmented AVDTP signaling is not supported'')
      else bindE (signal_from_id (buf ! 1)) (\<lambda>s.
        Inr (message_of (drop_bit 4 (buf ! 0)) (type_from_bits (buf ! 0)) s (drop 2 buf))))"

section \<open>Capability lists\<close>

definition category_media_transport :: u8 where "category_media_transport = 0x01"
definition category_media_codec :: u8 where "category_media_codec = 0x07"
definition category_delay_reporting :: u8 where "category_delay_reporting = 0x08"

record stream_endpoint =
  sep_seid :: seid
  sep_capability :: codec_capability
  sep_in_use :: bool

definition discover_bytes :: "stream_endpoint \<Rightarrow> bytes" where
  "discover_bytes sep =
     [seid_shifted (sep_seid sep) OR push_bit 1 (if sep_in_use sep then 1 else 0), push_bit 4 0x00 OR push_bit 3 1]"

definition codec_entry :: "codec_capability \<Rightarrow> bytes" where
  "codec_entry c = category_media_codec # u8_or_max (length (capability_encode c)) # capability_encode c"

definition capability_bytes :: "stream_endpoint \<Rightarrow> bool \<Rightarrow> bytes" where
  "capability_bytes sep include_delay =
     [category_media_transport, 0] @ codec_entry (sep_capability sep)
     @ (if include_delay then [category_delay_reporting, 0] else [])"

definition delay_from_duration :: "duration \<Rightarrow> u16" where
  "delay_from_duration d = u16_or_max (d div 1000 div 100)"

function lists_category :: "bytes \<Rightarrow> u8 \<Rightarrow> bool" where
  "lists_category buf cat =
     (if length buf < 2 then False
      else if buf ! 0 = cat then True
      else if length buf < 2 + unat (buf ! 1) then False
      else lists_category (drop (2 + unat (buf ! 1)) buf) cat)"
  by pat_completeness auto
termination by (relation "measure (\<lambda>(buf, _). length buf)") auto

declare lists_category.simps [simp del]

function find_codec_capability :: "bytes \<Rightarrow> audio_error + codec_capability" where
  "find_codec_capability buf =
     (if length buf < 2 then Inl (AudioTruncated ''media codec capability in list'' 2 (length buf))
      else
        let len = unat (buf ! 1) in
        if length buf < 2 + len then Inl (AudioTruncated ''service capability'' (2 + len) (length buf))
        else if buf ! 0 = category_media_codec then capability_decode (take len (drop 2 buf))
        else find_codec_capability (drop (2 + len) buf))"
  by pat_completeness auto
termination by (relation "measure length") auto

declare find_codec_capability.simps [simp del]

section \<open>The session\<close>

datatype stream_state = Idle | Configured | Opened | Streaming

record stream_context =
  ctx_active :: seid
  ctx_peer_endpoint :: "seid option"
  ctx_configuration :: codec_capability
  ctx_delay_reporting :: bool

datatype stream =
    IdleStream
  | ConfiguredStream stream_context
  | OpenStream stream_context
  | LiveStream stream_context "u8 option"

datatype sink_event =
    Reply message
  | SendCommand message
  | ConfiguredEvent audio_codec audio_format codec_capability
  | OpenedEvent
  | StartedEvent
  | SuspendedEvent
  | SuspendRefused
  | ClosedEvent

record sink_session =
  ss_endpoints :: "stream_endpoint list"
  ss_stream :: stream
  ss_delay_reporting :: bool
  ss_reported_delay :: u16
  ss_next_transaction :: u8

fun stream_ctx :: "stream \<Rightarrow> stream_context option" where
  "stream_ctx IdleStream = None"
| "stream_ctx (ConfiguredStream c) = Some c"
| "stream_ctx (OpenStream c) = Some c"
| "stream_ctx (LiveStream c _) = Some c"

definition default_sink_delay :: duration where "default_sink_delay = from_millis 300"

definition endpoint_of :: "nat \<times> codec_capability \<Rightarrow> stream_endpoint option" where
  "endpoint_of ic =
     (let i = fst ic in
      if i + 1 < 2 ^ 8 then
        (case seid_new (of_nat (i + 1)) of
           Inr s \<Rightarrow> Some \<lparr> sep_seid = s, sep_capability = snd ic, sep_in_use = False \<rparr>
         | Inl _ \<Rightarrow> None)
      else None)"

definition sink_new :: "codec_capability list \<Rightarrow> sink_session" where
  "sink_new caps =
     \<lparr> ss_endpoints = List.map_filter endpoint_of (zip [0..<length caps] caps),
       ss_stream = IdleStream,
       ss_delay_reporting = True,
       ss_reported_delay = delay_from_duration default_sink_delay,
       ss_next_transaction = 0 \<rparr>"

definition set_reported_delay :: "duration \<Rightarrow> sink_session \<Rightarrow> sink_session" where
  "set_reported_delay d s = s\<lparr> ss_reported_delay := delay_from_duration d \<rparr>"

fun state_of :: "stream \<Rightarrow> stream_state" where
  "state_of IdleStream = Idle"
| "state_of (ConfiguredStream _) = Configured"
| "state_of (OpenStream _) = Opened"
| "state_of (LiveStream _ _) = Streaming"

definition sink_state :: "sink_session \<Rightarrow> stream_state" where
  "sink_state s = state_of (ss_stream s)"

definition sink_configuration :: "sink_session \<Rightarrow> codec_capability option" where
  "sink_configuration s = map_option ctx_configuration (stream_ctx (ss_stream s))"

type_synonym handler = "message \<Rightarrow> sink_session \<Rightarrow> sink_event list \<times> sink_session"

definition bad_acp_seid :: u8 where "bad_acp_seid = 0x22"
definition sep_in_use_code :: u8 where "sep_in_use_code = 0x23"
definition bad_state :: u8 where "bad_state = 0x31"
definition unsupported_configuration :: u8 where "unsupported_configuration = 0x29"
definition invalid_codec_parameter :: u8 where "invalid_codec_parameter = 0xE2"

definition reject :: "message \<Rightarrow> u8 \<Rightarrow> sink_event list" where
  "reject msg code = [Reply (message_reject msg code)]"

definition reject_config :: "message \<Rightarrow> u8 \<Rightarrow> u8 \<Rightarrow> sink_event list" where
  "reject_config msg cat code = [Reply (message_of (m_transaction msg) ResponseReject (m_signal msg) [cat, code])]"

definition reject_stream :: "message \<Rightarrow> seid option \<Rightarrow> u8 \<Rightarrow> sink_event list" where
  "reject_stream msg s code =
     [Reply (message_of (m_transaction msg) ResponseReject (m_signal msg)
        [case s of None \<Rightarrow> 0 | Some x \<Rightarrow> seid_shifted x, code])]"

definition reject_code :: "message \<Rightarrow> u8 option" where
  "reject_code msg =
     (if m_type msg \<noteq> ResponseReject then None
      else if m_signal msg \<in> {SetConfiguration, Reconfigure, Start, Suspend} then
        (if 1 < length (m_payload msg) then Some (m_payload msg ! 1) else None)
      else (case m_payload msg of [] \<Rightarrow> None | b # _ \<Rightarrow> Some b))"

definition accept :: "message \<Rightarrow> bytes \<Rightarrow> sink_event" where
  "accept msg p = Reply (message_accept msg p)"

definition on_discover :: handler where
  "on_discover msg s = ([accept msg (concat (map discover_bytes (ss_endpoints s)))], s)"

definition find_endpoint :: "seid \<Rightarrow> sink_session \<Rightarrow> stream_endpoint option" where
  "find_endpoint i s = find (\<lambda>sep. sep_seid sep = i) (ss_endpoints s)"

definition on_get_capabilities :: "bool \<Rightarrow> handler" where
  "on_get_capabilities all msg s =
     (case m_payload msg of
        [] \<Rightarrow> (reject msg bad_acp_seid, s)
      | b # _ \<Rightarrow>
        (case seid_from_shifted b of
           Inl _ \<Rightarrow> (reject msg bad_acp_seid, s)
         | Inr i \<Rightarrow>
           (case find_endpoint i s of
              None \<Rightarrow> (reject msg bad_acp_seid, s)
            | Some sep \<Rightarrow> ([accept msg (capability_bytes sep (all \<and> ss_delay_reporting s))], s))))"

definition delay_report :: "sink_session \<Rightarrow> sink_event list \<times> sink_session" where
  "delay_report s =
     (case stream_ctx (ss_stream s) of
        None \<Rightarrow> ([], s)
      | Some ctx \<Rightarrow>
        if \<not> ctx_delay_reporting ctx then ([], s)
        else ([SendCommand (message_delay_report (ss_next_transaction s) (ctx_active ctx) (ss_reported_delay s))],
              s\<lparr> ss_next_transaction := (ss_next_transaction s + 1) mod 16 \<rparr>))"

definition mark_endpoint :: "seid \<Rightarrow> bool \<Rightarrow> stream_endpoint list \<Rightarrow> stream_endpoint list" where
  "mark_endpoint i used seps =
     (case List.extract (\<lambda>sep. sep_seid sep = i) seps of
        None \<Rightarrow> seps
      | Some (xs, sep, ys) \<Rightarrow> xs @ sep\<lparr> sep_in_use := used \<rparr> # ys)"

text \<open>
  What the codec block of a SET_CONFIGURATION or RECONFIGURE must be, for the endpoint it names:
  the same checks in the same order in both.
\<close>

definition check_configuration :: "message \<Rightarrow> stream_endpoint \<Rightarrow> bytes \<Rightarrow> sink_event list + (codec_capability \<times> audio_format)" where
  "check_configuration msg sep caps =
     (case find_codec_capability caps of
        Inl _ \<Rightarrow> Inl (reject_config msg 0x07 unsupported_configuration)
      | Inr c \<Rightarrow>
        if \<not> is_configuration c then Inl (reject_config msg 0x07 invalid_codec_parameter)
        else if capability_codec c \<noteq> capability_codec (sep_capability sep) then
          Inl (reject_config msg 0x07 unsupported_configuration)
        else
          (case capability_format c of
             None \<Rightarrow> Inl (reject_config msg 0x07 invalid_codec_parameter)
           | Some f \<Rightarrow> Inr (c, f)))"

definition on_set_configuration :: handler where
  "on_set_configuration msg s =
     (if length (m_payload msg) < 2 then (reject_config msg 0 bad_acp_seid, s)
      else case seid_from_shifted (m_payload msg ! 0) of
        Inl _ \<Rightarrow> (reject_config msg 0 bad_acp_seid, s)
      | Inr i \<Rightarrow>
        (case find_endpoint i s of
           None \<Rightarrow> (reject_config msg 0 bad_acp_seid, s)
         | Some sep \<Rightarrow>
           if ss_stream s \<noteq> IdleStream then (reject_config msg 0 sep_in_use_code, s)
           else case check_configuration msg sep (drop 2 (m_payload msg)) of
             Inl r \<Rightarrow> (r, s)
           | Inr (c, f) \<Rightarrow>
             let ctx = \<lparr> ctx_active = i,
                         ctx_peer_endpoint = (case seid_from_shifted (m_payload msg ! 1) of Inr p \<Rightarrow> Some p | Inl _ \<Rightarrow> None),
                         ctx_configuration = c,
                         ctx_delay_reporting = (ss_delay_reporting s
                           \<and> lists_category (drop 2 (m_payload msg)) category_delay_reporting) \<rparr>;
                 s1 = s\<lparr> ss_endpoints := mark_endpoint i True (ss_endpoints s), ss_stream := ConfiguredStream ctx \<rparr>;
                 (report, s2) = delay_report s1
             in ([accept msg [], ConfiguredEvent (capability_codec c) f c] @ report, s2)))"

definition suspend_peer :: "sink_session \<Rightarrow> sink_event option \<times> sink_session" where
  "suspend_peer s =
     (case ss_stream s of
        LiveStream ctx None \<Rightarrow>
          (case ctx_peer_endpoint ctx of
             None \<Rightarrow> (None, s)
           | Some peer \<Rightarrow>
             let t = ss_next_transaction s in
             (Some (SendCommand (message_suspend t peer)),
              s\<lparr> ss_next_transaction := (t + 1) mod 16, ss_stream := LiveStream ctx (Some t) \<rparr>))
      | _ \<Rightarrow> (None, s))"

definition suspend_outstanding :: "sink_session \<Rightarrow> bool" where
  "suspend_outstanding s \<longleftrightarrow> (case ss_stream s of LiveStream _ (Some _) \<Rightarrow> True | _ \<Rightarrow> False)"

definition on_response :: handler where
  "on_response msg s =
     (case ss_stream s of
        LiveStream ctx (Some t) \<Rightarrow>
          if m_signal msg \<noteq> Suspend \<or> t \<noteq> m_transaction msg then ([], s)
          else if m_type msg = ResponseAccept then ([SuspendedEvent], s\<lparr> ss_stream := OpenStream ctx \<rparr>)
          else ([SuspendRefused], s\<lparr> ss_stream := LiveStream ctx None \<rparr>)
      | _ \<Rightarrow> ([], s))"

definition on_reconfigure :: handler where
  "on_reconfigure msg s =
     (case ss_stream s of
        OpenStream ctx \<Rightarrow>
          (case m_payload msg of
             [] \<Rightarrow> (reject_config msg 0 bad_acp_seid, s)
           | b # caps \<Rightarrow>
             (case seid_from_shifted b of
                Inl _ \<Rightarrow> (reject_config msg 0 bad_acp_seid, s)
              | Inr i \<Rightarrow>
                if ctx_active ctx \<noteq> i then (reject_config msg 0 bad_acp_seid, s)
                else case find_endpoint i s of
                  None \<Rightarrow> (reject_config msg 0 bad_acp_seid, s)
                | Some sep \<Rightarrow>
                  (case check_configuration msg sep caps of
                     Inl r \<Rightarrow> (r, s)
                   | Inr (c, f) \<Rightarrow>
                     ([accept msg [], ConfiguredEvent (capability_codec c) f c],
                      s\<lparr> ss_stream := OpenStream (ctx\<lparr> ctx_configuration := c \<rparr>) \<rparr>))))
      | _ \<Rightarrow> (reject_config msg 0 bad_state, s))"

definition on_get_configuration :: handler where
  "on_get_configuration msg s =
     (case sink_configuration s of
        None \<Rightarrow> (reject msg bad_state, s)
      | Some c \<Rightarrow> ([accept msg (codec_entry c)], s))"

definition on_open :: handler where
  "on_open msg s =
     (case ss_stream s of
        ConfiguredStream ctx \<Rightarrow> ([accept msg [], OpenedEvent], s\<lparr> ss_stream := OpenStream ctx \<rparr>)
      | _ \<Rightarrow> (reject msg bad_state, s))"

definition active_seid :: "sink_session \<Rightarrow> seid option" where
  "active_seid s = map_option ctx_active (stream_ctx (ss_stream s))"

definition on_start :: handler where
  "on_start msg s =
     (case ss_stream s of
        OpenStream ctx \<Rightarrow> ([accept msg [], StartedEvent], s\<lparr> ss_stream := LiveStream ctx None \<rparr>)
      | _ \<Rightarrow> (reject_stream msg (active_seid s) bad_state, s))"

definition on_suspend :: handler where
  "on_suspend msg s =
     (case ss_stream s of
        LiveStream ctx _ \<Rightarrow> ([accept msg [], SuspendedEvent], s\<lparr> ss_stream := OpenStream ctx \<rparr>)
      | _ \<Rightarrow> (reject_stream msg (active_seid s) bad_state, s))"

definition teardown :: "sink_session \<Rightarrow> sink_session" where
  "teardown s =
     (let s1 = (case stream_ctx (ss_stream s) of
                  None \<Rightarrow> s
                | Some ctx \<Rightarrow> s\<lparr> ss_endpoints := mark_endpoint (ctx_active ctx) False (ss_endpoints s) \<rparr>)
      in s1\<lparr> ss_stream := IdleStream \<rparr>)"

definition on_close :: handler where
  "on_close msg s =
     (if ss_stream s = IdleStream then (reject msg bad_state, s)
      else ([accept msg [], ClosedEvent], teardown s))"

definition on_abort :: handler where
  "on_abort msg s = (accept msg [] # (if ss_stream s \<noteq> IdleStream then [ClosedEvent] else []), teardown s)"

definition sink_link_down :: "sink_session \<Rightarrow> sink_event list \<times> sink_session" where
  "sink_link_down s = (if ss_stream s = IdleStream then ([], s) else ([ClosedEvent], teardown s))"

definition sink_handle :: handler where
  "sink_handle msg s =
     (if m_type msg \<noteq> Command then on_response msg s
      else case m_signal msg of
        Discover \<Rightarrow> on_discover msg s
      | GetCapabilities \<Rightarrow> on_get_capabilities False msg s
      | GetAllCapabilities \<Rightarrow> on_get_capabilities True msg s
      | SetConfiguration \<Rightarrow> on_set_configuration msg s
      | GetConfiguration \<Rightarrow> on_get_configuration msg s
      | Open \<Rightarrow> on_open msg s
      | Start \<Rightarrow> on_start msg s
      | Suspend \<Rightarrow> on_suspend msg s
      | Close \<Rightarrow> on_close msg s
      | Abort \<Rightarrow> on_abort msg s
      | Reconfigure \<Rightarrow> on_reconfigure msg s
      | SecurityControl \<Rightarrow> ([accept msg []], s)
      | DelayReport \<Rightarrow> ([accept msg []], s))"

section \<open>The endpoint in use is the one that is streaming\<close>

lemma mark_endpoint_map:
  "distinct (map sep_seid seps) \<Longrightarrow>
   mark_endpoint i used seps = map (\<lambda>sep. if sep_seid sep = i then sep\<lparr> sep_in_use := used \<rparr> else sep) seps"
proof (induction seps)
  case Nil
  then show ?case by (simp add: mark_endpoint_def extract_Nil_code)
next
  case (Cons sep seps)
  have same: "map (\<lambda>x. if sep_seid x = i then x\<lparr>sep_in_use := used\<rparr> else x) seps = seps" if "sep_seid sep = i"
  proof (rule map_idI)
    fix x
    assume "x \<in> set seps"
    then have "sep_seid x \<in> sep_seid ` set seps" by (rule imageI)
    then have "sep_seid x \<noteq> i" using Cons.prems that by auto
    then show "(if sep_seid x = i then x\<lparr>sep_in_use := used\<rparr> else x) = x" by simp
  qed
  have "mark_endpoint i used (sep # seps) =
      (if sep_seid sep = i then sep\<lparr>sep_in_use := used\<rparr> # seps else sep # mark_endpoint i used seps)"
    by (auto simp: mark_endpoint_def extract_Cons_code split: option.splits)
  then show ?case using Cons same by simp
qed

lemma mark_endpoint_seids:
  "distinct (map sep_seid seps) \<Longrightarrow> map sep_seid (mark_endpoint i used seps) = map sep_seid seps"
  by (simp add: mark_endpoint_map)

lemma mark_endpoint_set:
  "distinct (map sep_seid seps) \<Longrightarrow>
   set (mark_endpoint i used seps) = (\<lambda>sep. if sep_seid sep = i then sep\<lparr> sep_in_use := used \<rparr> else sep) ` set seps"
  by (simp add: mark_endpoint_map)

definition endpoint_ok :: "stream_endpoint \<Rightarrow> bool" where
  "endpoint_ok sep \<longleftrightarrow> 0 < sep_seid sep \<and> sep_seid sep \<le> seid_max"

definition used_by :: "stream_context \<Rightarrow> stream_endpoint list \<Rightarrow> bool" where
  "used_by ctx seps \<longleftrightarrow>
     (\<exists>sep\<in>set seps. sep_seid sep = ctx_active ctx \<and>
        capability_codec (sep_capability sep) = capability_codec (ctx_configuration ctx)) \<and>
     (\<forall>sep\<in>set seps. sep_in_use sep \<longleftrightarrow> sep_seid sep = ctx_active ctx) \<and>
     is_configuration (ctx_configuration ctx) \<and> capability_wf (ctx_configuration ctx)"

definition sink_ok :: "sink_session \<Rightarrow> bool" where
  "sink_ok s \<longleftrightarrow>
     distinct (map sep_seid (ss_endpoints s)) \<and> list_all endpoint_ok (ss_endpoints s) \<and>
     ss_next_transaction s < 16 \<and>
     (case stream_ctx (ss_stream s) of
        None \<Rightarrow> \<forall>sep\<in>set (ss_endpoints s). \<not> sep_in_use sep
      | Some ctx \<Rightarrow> used_by ctx (ss_endpoints s))"

lemma find_codec_wf: "find_codec_capability buf = Inr c \<Longrightarrow> capability_wf c"
  by (induction buf rule: find_codec_capability.induct)
     (subst (asm) (2) find_codec_capability.simps, auto simp: Let_def split: if_splits dest: capability_decode_wf)

lemma check_configuration_Inr:
  "check_configuration msg sep caps = Inr (c, f) \<Longrightarrow>
   is_configuration c \<and> capability_wf c \<and> capability_codec c = capability_codec (sep_capability sep) \<and>
   capability_format c = Some f"
  by (auto simp: check_configuration_def split: sum.splits if_splits option.splits dest: find_codec_wf)

lemma find_endpoint_Some: "find_endpoint i s = Some sep \<Longrightarrow> sep \<in> set (ss_endpoints s) \<and> sep_seid sep = i"
  by (auto simp: find_endpoint_def find_Some_iff)

lemma mod_16_less: "(t :: u8) mod 16 < 16"
  by (simp add: word_less_nat_alt unat_mod)

lemma sink_ok_teardown: "sink_ok s \<Longrightarrow> sink_ok (teardown s)"
  by (auto simp: sink_ok_def teardown_def mark_endpoint_seids mark_endpoint_set used_by_def list_all_iff endpoint_ok_def
      split: option.splits)

lemma sink_ok_stream:
  "\<lbrakk>sink_ok s; stream_ctx (ss_stream s) = Some ctx; stream_ctx st = Some ctx\<rbrakk> \<Longrightarrow> sink_ok (s\<lparr> ss_stream := st \<rparr>)"
  by (simp add: sink_ok_def)

lemma sink_ok_delay_report: "sink_ok s \<Longrightarrow> sink_ok (snd (delay_report s))"
  by (auto simp: delay_report_def sink_ok_def mod_16_less split: option.splits)

lemma sink_ok_configured:
  assumes "sink_ok s" "ss_stream s = IdleStream" "find_endpoint i s = Some sep" "check_configuration msg sep caps = Inr (c, f)"
    and "ctx_active ctx = i" "ctx_configuration ctx = c"
  shows "sink_ok (s\<lparr> ss_endpoints := mark_endpoint i True (ss_endpoints s), ss_stream := ConfiguredStream ctx \<rparr>)"
proof -
  let ?mark = "\<lambda>sep. if sep_seid sep = i then sep\<lparr> sep_in_use := True \<rparr> else sep"
  have sep: "sep \<in> set (ss_endpoints s)" "sep_seid sep = i"
    using find_endpoint_Some [OF assms(3)] by simp_all
  have "?mark sep \<in> ?mark ` set (ss_endpoints s)" using sep(1) by (rule imageI)
  moreover have "sep_seid (?mark sep) = i \<and> capability_codec (sep_capability (?mark sep)) = capability_codec c"
    using sep(2) check_configuration_Inr [OF assms(4)] by simp
  ultimately have "\<exists>x\<in>?mark ` set (ss_endpoints s). sep_seid x = i \<and> capability_codec (sep_capability x) = capability_codec c"
    by blast
  then have "used_by ctx (mark_endpoint i True (ss_endpoints s))"
    using assms check_configuration_Inr [OF assms(4)] by (auto simp: sink_ok_def used_by_def mark_endpoint_set)
  then show ?thesis
    using assms(1,2) by (auto simp: sink_ok_def mark_endpoint_seids mark_endpoint_set list_all_iff endpoint_ok_def)
qed

lemma sink_ok_set_configuration:
  assumes "sink_ok s"
  shows "sink_ok (snd (on_set_configuration msg s))"
  using assms
  by (auto simp: on_set_configuration_def Let_def case_prod_beta split: sum.splits option.splits
      intro!: sink_ok_delay_report intro: sink_ok_configured)

lemma sink_ok_reconfigure:
  assumes "sink_ok s"
  shows "sink_ok (snd (on_reconfigure msg s))"
proof -
  have "sink_ok (s\<lparr> ss_stream := OpenStream (ctx\<lparr> ctx_configuration := c \<rparr>) \<rparr>)"
    if "ss_stream s = OpenStream ctx" "find_endpoint (ctx_active ctx) s = Some sep"
      "check_configuration msg sep caps = Inr (c, f)" for ctx sep caps c f
    using assms that find_endpoint_Some [OF that(2)] check_configuration_Inr [OF that(3)]
    by (auto simp: sink_ok_def used_by_def)
  then show ?thesis
    using assms by (auto simp: on_reconfigure_def split: stream.splits list.splits sum.splits option.splits)
qed

lemma sink_ok_suspend_peer: "sink_ok s \<Longrightarrow> sink_ok (snd (suspend_peer s))"
  by (auto simp: suspend_peer_def sink_ok_def mod_16_less Let_def split: stream.splits option.splits)

lemma sink_ok_handle: "sink_ok s \<Longrightarrow> sink_ok (snd (sink_handle msg s))"
  by (auto simp: sink_handle_def on_response_def on_discover_def on_get_capabilities_def on_get_configuration_def
      on_open_def on_start_def on_suspend_def on_close_def on_abort_def
      sink_ok_set_configuration sink_ok_reconfigure sink_ok_teardown sink_ok_stream
      split: signal.splits stream.splits option.splits list.splits sum.splits)

lemma endpoint_of_Some:
  assumes "endpoint_of (i, c) = Some sep"
  shows "sep_seid sep = of_nat (i + 1) \<and> i < 62 \<and> \<not> sep_in_use sep"
proof -
  have i: "i + 1 < 256" and sep: "seid_new (of_nat (i + 1)) = Inr (sep_seid sep)" "\<not> sep_in_use sep"
    using assms by (auto simp: endpoint_of_def Let_def split: if_splits sum.splits)
  have "unat (of_nat (i + 1) :: u8) = i + 1" using i by (rule unat_of_nat8)
  then show ?thesis
    using sep by (auto simp: seid_new_def seid_max_def word_le_nat_alt not_less simp del: of_nat_add split: if_splits)
qed

lemma endpoint_of_ok: "endpoint_of ic = Some sep \<Longrightarrow> endpoint_ok sep"
  by (cases ic) (auto simp: endpoint_of_def seid_new_def endpoint_ok_def Let_def not_less word_gt_0 split: if_splits sum.splits)

lemma map_filter_zip:
  "sep \<in> set (List.map_filter f xs) \<longleftrightarrow> (\<exists>x\<in>set xs. f x = Some sep)"
  by (auto simp: List.map_filter_def image_iff)

lemma endpoint_of_seids:
  "sep \<in> set (List.map_filter endpoint_of (zip [a..<b] caps)) \<Longrightarrow> \<exists>i\<ge>a. i < 62 \<and> sep_seid sep = of_nat (i + 1)"
  by (auto simp: map_filter_zip dest!: endpoint_of_Some set_zip_leftD) 

lemma distinct_endpoints: "distinct (map sep_seid (List.map_filter endpoint_of (zip [a..<a + length caps] caps)))"
proof (induction caps arbitrary: a)
  case (Cons c caps)
  have up: "zip [a..<a + length (c # caps)] (c # caps) = (a, c) # zip [Suc a..<Suc a + length caps] caps"
    using upt_conv_Cons [of a "a + length (c # caps)"] by (simp del: upt_Suc)
  have "sep_seid sep \<noteq> sep_seid sep'"
    if sep: "endpoint_of (a, c) = Some sep"
      and sep': "sep' \<in> set (List.map_filter endpoint_of (zip [Suc a..<Suc a + length caps] caps))" for sep sep'
  proof -
    obtain i where i: "Suc a \<le> i" "i < 62" "sep_seid sep' = of_nat (i + 1)"
      using endpoint_of_seids [OF sep'] by auto
    have "unat (of_nat (a + 1) :: u8) = a + 1" "unat (of_nat (i + 1) :: u8) = i + 1"
      by (rule unat_of_nat8, use i in simp)+
    then show ?thesis using i endpoint_of_Some [OF sep] by (metis Suc_n_not_le_n add_right_cancel)
  qed
  then show ?case
    using Cons.IH [of "Suc a"] unfolding up
    by (auto simp: List.map_filter_simps split: option.splits)
qed (simp add: List.map_filter_simps)

lemma sink_ok_new: "sink_ok (sink_new caps)"
  using distinct_endpoints [of 0 caps]
  by (auto simp: sink_ok_def sink_new_def list_all_iff map_filter_zip endpoint_of_ok dest: endpoint_of_Some)

section \<open>Runs of a session\<close>

datatype sink_input = HandleMsg message | SuspendPeer | LinkDown | SetDelay duration

definition sink_react :: "sink_input \<Rightarrow> sink_session \<Rightarrow> sink_event list \<times> sink_session" where
  "sink_react i s =
     (case i of
        HandleMsg msg \<Rightarrow> sink_handle msg s
      | SuspendPeer \<Rightarrow> (case suspend_peer s of (e, s') \<Rightarrow> (case e of None \<Rightarrow> [] | Some x \<Rightarrow> [x], s'))
      | LinkDown \<Rightarrow> sink_link_down s
      | SetDelay d \<Rightarrow> ([], set_reported_delay d s))"

definition sink_step :: "sink_input \<Rightarrow> sink_session \<Rightarrow> sink_session" where
  "sink_step i s = snd (sink_react i s)"

lemma sink_ok_set_delay: "sink_ok s \<Longrightarrow> sink_ok (set_reported_delay d s)"
  by (simp add: sink_ok_def set_reported_delay_def cong: option.case_cong)

lemma sink_ok_step: "sink_ok s \<Longrightarrow> sink_ok (sink_step i s)"
  by (auto simp: sink_step_def sink_react_def sink_link_down_def sink_ok_handle sink_ok_teardown
      sink_ok_set_delay sink_ok_suspend_peer case_prod_beta split: sink_input.splits)

interpretation sinks: machine sink_step sink_ok
  by unfold_locales (rule sink_ok_step)

text \<open>
  C28. After any sequence of messages, link failures, delay updates and suspensions, the
  endpoints keep distinct legal identifiers, exactly the endpoint of the configured stream is marked
  as in use, the configuration in force is one for the codec of that endpoint, and transaction
  labels stay in their four bits.
\<close>

theorem sink_invariant: "sink_ok (fold sink_step inputs (sink_new caps))"
  by (rule sinks.run_ok [OF sink_ok_new])

section \<open>The events tell the caller the state\<close>

fun observe :: "sink_event \<Rightarrow> stream_state \<Rightarrow> stream_state" where
  "observe (ConfiguredEvent _ _ _) st = (if st = Idle then Configured else st)"
| "observe OpenedEvent st = Opened"
| "observe StartedEvent st = Streaming"
| "observe SuspendedEvent st = Opened"
| "observe ClosedEvent st = Idle"
| "observe _ st = st"

fun sink_events :: "sink_input list \<Rightarrow> sink_session \<Rightarrow> sink_event list" where
  "sink_events [] s = []"
| "sink_events (i # is) s = fst (sink_react i s) @ sink_events is (sink_step i s)"

lemmas sink_handlers = sink_handle_def on_response_def on_discover_def on_get_capabilities_def on_get_configuration_def
  on_open_def on_start_def on_suspend_def on_close_def on_abort_def reject_def reject_config_def reject_stream_def
  accept_def teardown_def sink_state_def

lemma state_Idle_iff: "state_of st = Idle \<longleftrightarrow> st = IdleStream"
  by (cases st) simp_all

lemma delay_report_stream: "ss_stream (snd (delay_report s)) = ss_stream s"
  by (auto simp: delay_report_def split: option.splits)

lemma delay_report_events: "fold observe (fst (delay_report s)) st = st"
  by (auto simp: delay_report_def split: option.splits)

lemma check_configuration_Inl: "check_configuration msg sep caps = Inl r \<Longrightarrow> \<exists>m. r = [Reply m]"
  by (auto simp: check_configuration_def reject_config_def split: sum.splits if_splits option.splits)

lemma observe_set_configuration:
  "fold observe (fst (on_set_configuration msg s)) (sink_state s) = sink_state (snd (on_set_configuration msg s))"
  by (auto simp: on_set_configuration_def sink_state_def Let_def case_prod_beta delay_report_stream delay_report_events
      accept_def reject_config_def dest!: check_configuration_Inl split: sum.splits option.splits)

lemma observe_reconfigure:
  "fold observe (fst (on_reconfigure msg s)) (sink_state s) = sink_state (snd (on_reconfigure msg s))"
  by (auto simp: on_reconfigure_def sink_state_def reject_config_def accept_def dest!: check_configuration_Inl
      split: stream.splits list.splits sum.splits option.splits)

lemma observe_handle:
  "fold observe (fst (sink_handle msg s)) (sink_state s) = sink_state (snd (sink_handle msg s))"
proof (cases "m_type msg = Command \<and> m_signal msg \<in> {SetConfiguration, Reconfigure}")
  case True
  then show ?thesis using observe_set_configuration observe_reconfigure by (auto simp: sink_handle_def)
next
  case False
  then show ?thesis
    by (auto simp: sink_handlers Let_def split: signal.splits stream.splits option.splits list.splits sum.splits)
qed

lemma observe_react: "fold observe (fst (sink_react i s)) (sink_state s) = sink_state (sink_step i s)"
  by (cases i)
     (auto simp: sink_react_def sink_step_def observe_handle [unfolded sink_state_def] suspend_peer_def sink_link_down_def set_reported_delay_def
       sink_state_def teardown_def Let_def split: stream.splits option.splits)

text \<open>
  A caller that follows the events of a session from its start always knows the
  state the stream is in.
\<close>

theorem events_tell_state:
  "fold observe (sink_events inputs (sink_new caps)) Idle = sink_state (fold sink_step inputs (sink_new caps))"
proof -
  have "fold observe (sink_events inputs s) (sink_state s) = sink_state (fold sink_step inputs s)" for s
    by (induction inputs arbitrary: s) (simp_all add: observe_react)
  from this [of "sink_new caps"] show ?thesis by (simp add: sink_state_def sink_new_def)
qed

section \<open>Every command is answered\<close>

text \<open>Where a command is legal, and where it leaves the stream when it is accepted.\<close>

fun legal :: "signal \<Rightarrow> stream_state \<Rightarrow> bool" where
  "legal SetConfiguration st = (st = Idle)"
| "legal GetConfiguration st = (st \<noteq> Idle)"
| "legal Open st = (st = Configured)"
| "legal Start st = (st = Opened)"
| "legal Reconfigure st = (st = Opened)"
| "legal Suspend st = (st = Streaming)"
| "legal Close st = (st \<noteq> Idle)"
| "legal _ st = True"

fun after :: "signal \<Rightarrow> stream_state \<Rightarrow> stream_state" where
  "after SetConfiguration st = Configured"
| "after Open st = Opened"
| "after Start st = Streaming"
| "after Suspend st = Opened"
| "after Close st = Idle"
| "after Abort st = Idle"
| "after _ st = st"

fun is_reply :: "sink_event \<Rightarrow> bool" where
  "is_reply (Reply _) = True"
| "is_reply _ = False"

text \<open>The codec block that a SET_CONFIGURATION or a RECONFIGURE names.\<close>

definition named_configuration :: "message \<Rightarrow> audio_error + codec_capability" where
  "named_configuration msg =
     find_codec_capability (drop (if m_signal msg = SetConfiguration then 2 else 1) (m_payload msg))"

text \<open>
  What an accepted command does to the session: which stream is configured, with which codec block, and
  which endpoints are marked as in use. SET_CONFIGURATION puts the named endpoint in use with the named block,
  RECONFIGURE replaces the block and nothing else, CLOSE and ABORT free the endpoint and forget the
  block, and no other command touches any of the three.
\<close>

definition carried_out :: "message \<Rightarrow> sink_session \<Rightarrow> sink_session \<Rightarrow> bool" where
  "carried_out msg s s' \<longleftrightarrow>
     sink_state s' = after (m_signal msg) (sink_state s)
     \<and> (if m_signal msg = SetConfiguration then
          (\<exists>i c. seid_from_shifted (m_payload msg ! 0) = Inr i \<and> active_seid s' = Some i
            \<and> named_configuration msg = Inr c \<and> sink_configuration s' = Some c
            \<and> ss_endpoints s' = mark_endpoint i True (ss_endpoints s))
        else if m_signal msg = Reconfigure then
          (\<exists>c. named_configuration msg = Inr c \<and> sink_configuration s' = Some c)
          \<and> active_seid s' = active_seid s \<and> ss_endpoints s' = ss_endpoints s
        else if m_signal msg \<in> {Close, Abort} then
          sink_configuration s' = None
          \<and> ss_endpoints s' = (case active_seid s of None \<Rightarrow> ss_endpoints s | Some i \<Rightarrow> mark_endpoint i False (ss_endpoints s))
        else stream_ctx (ss_stream s') = stream_ctx (ss_stream s) \<and> ss_endpoints s' = ss_endpoints s)"

text \<open>
  The events of a command: one reply, which comes first, carries the label and the signal of the
  command, and accepts only what is legal, which is then carried out; a rejection leaves the whole session
  as it was and says why.
\<close>

definition answers :: "message \<Rightarrow> sink_session \<Rightarrow> sink_event list \<Rightarrow> sink_session \<Rightarrow> bool" where
  "answers msg s events s' \<longleftrightarrow>
     (case events of
        Reply r # rest \<Rightarrow>
          m_transaction r = m_transaction msg \<and> m_signal r = m_signal msg \<and> list_all (\<lambda>e. \<not> is_reply e) rest \<and>
          (if m_type r = ResponseAccept then legal (m_signal msg) (sink_state s) \<and> carried_out msg s s'
           else m_type r = ResponseReject \<and> rest = [] \<and> s' = s \<and> reject_code r \<noteq> None)
      | _ \<Rightarrow> False)"

lemma delay_report_no_reply: "list_all (\<lambda>e. \<not> is_reply e) (fst (delay_report s))"
  by (auto simp: delay_report_def split: option.splits)

lemma check_configuration_rejects:
  "check_configuration msg sep caps = Inl r \<Longrightarrow> \<exists>cat code. r = reject_config msg cat code"
  by (auto simp: check_configuration_def split: sum.splits if_splits option.splits)

lemma delay_report_keeps:
  "ss_stream (snd (delay_report s)) = ss_stream s" "ss_endpoints (snd (delay_report s)) = ss_endpoints s"
  by (auto simp: delay_report_def split: option.splits)

lemma check_configuration_named:
  "check_configuration msg sep caps = Inr (c, f) \<Longrightarrow> find_codec_capability caps = Inr c"
  by (auto simp: check_configuration_def split: sum.splits if_splits option.splits)

lemmas carried_defs = carried_out_def named_configuration_def active_seid_def sink_configuration_def sink_state_def

lemma answers_set_configuration:
  "m_signal msg = SetConfiguration \<Longrightarrow>
   answers msg s (fst (on_set_configuration msg s)) (snd (on_set_configuration msg s))"
  by (auto simp: on_set_configuration_def answers_def carried_defs Let_def case_prod_beta delay_report_keeps
      delay_report_no_reply accept_def message_accept_def reject_config_def message_of_def reject_code_def
      dest!: check_configuration_rejects dest: check_configuration_named split: sum.splits option.splits)

lemma answers_reconfigure:
  "m_signal msg = Reconfigure \<Longrightarrow>
   answers msg s (fst (on_reconfigure msg s)) (snd (on_reconfigure msg s))"
  by (auto simp: on_reconfigure_def answers_def carried_defs accept_def message_accept_def reject_config_def
      message_of_def reject_code_def dest!: check_configuration_rejects dest: check_configuration_named
      split: stream.splits list.splits sum.splits option.splits)

lemma answers_handle:
  assumes "m_type msg = Command"
  shows "answers msg s (fst (sink_handle msg s)) (snd (sink_handle msg s))"
proof (cases "m_signal msg \<in> {SetConfiguration, Reconfigure}")
  case True
  then show ?thesis using assms answers_set_configuration answers_reconfigure by (auto simp: sink_handle_def)
next
  case False
  then show ?thesis
    using assms
    by (cases "m_signal msg"; cases "ss_stream s")
       (auto simp: sink_handlers answers_def carried_defs message_accept_def message_reject_def message_of_def reject_code_def
         Let_def split: option.splits list.splits sum.splits)
qed

text \<open>
  C27. Every command gets exactly one reply, ahead of all other events, with its label
  and signal. It is accepted only in a state in which it is legal, and then the stream, its codec block and
  the marks of the endpoints become what the protocol prescribes for it; a rejection leaves the whole
  session as it was and carries an error code that can be read where that signal has it.
\<close>

theorem commands_answered:
  assumes "m_type msg = Command"
  shows "answers msg s (fst (sink_handle msg s)) (snd (sink_handle msg s))"
  by (rule answers_handle [OF assms])

lemma commands_answered_witness:
  "answers (message_command 3 Start [4]) (sink_new [])
     (fst (sink_handle (message_command 3 Start [4]) (sink_new []))) (sink_new [])"
proof -
  have "m_type (message_command 3 Start [4]) = Command"
    "snd (sink_handle (message_command 3 Start [4]) (sink_new [])) = sink_new []"
    by (simp_all add: message_command_def message_of_def sink_handlers sink_new_def)
  then show ?thesis using commands_answered [of "message_command 3 Start [4]" "sink_new []"] by simp
qed

text \<open>The commands without a configuration in them are accepted wherever they are legal.\<close>

text \<open>
  OPEN, START, SUSPEND and CLOSE are accepted in every state in which they are
  legal, and ABORT always.
\<close>

theorem lifecycle_accepted:
  assumes "m_type msg = Command" "m_signal msg \<in> {Open, Start, Suspend, Close, Abort}" "legal (m_signal msg) (sink_state s)"
  shows "\<exists>rest. fst (sink_handle msg s) = accept msg [] # rest \<and>
    sink_state (snd (sink_handle msg s)) = after (m_signal msg) (sink_state s)"
  using assms by (cases "ss_stream s") (auto simp: sink_handlers Let_def)

lemma lifecycle_accepted_witness:
  "\<exists>rest. fst (sink_handle (message_command 1 Abort [4]) (sink_new [])) = accept (message_command 1 Abort [4]) [] # rest"
proof -
  have "m_type (message_command 1 Abort [4]) = Command" "m_signal (message_command 1 Abort [4]) = Abort"
    by (simp_all add: message_command_def message_of_def)
  then show ?thesis using lifecycle_accepted [of "message_command 1 Abort [4]" "sink_new []"] by auto
qed

section \<open>The commands a sink sends\<close>

lemma delay_report_sends:
  "SendCommand m \<in> set (fst (delay_report s)) \<Longrightarrow>
   \<exists>ctx. stream_ctx (ss_stream s) = Some ctx \<and> ctx_delay_reporting ctx \<and>
     m = message_delay_report (ss_next_transaction s) (ctx_active ctx) (ss_reported_delay s)"
  by (auto simp: delay_report_def split: option.splits if_splits)

text \<open>
  A DELAYREPORT is sent only after the acceptance of a configuration
  that asked for delay reporting, addresses the endpoint that was configured, and takes the next
  transaction label.
\<close>

theorem delay_reported_only_on_request:
  assumes "SendCommand m \<in> set (fst (sink_handle msg s))"
  shows "m_type msg = Command \<and> m_signal msg = SetConfiguration \<and>
    lists_category (drop 2 (m_payload msg)) category_delay_reporting \<and>
    (\<exists>i. seid_from_shifted (m_payload msg ! 0) = Inr i \<and>
      m = message_delay_report (ss_next_transaction s) i (ss_reported_delay s)) \<and>
    (\<exists>e. fst (sink_handle msg s) = [accept msg [], e, SendCommand m])"
proof -
  have sig: "m_type msg = Command \<and> m_signal msg = SetConfiguration"
    using assms
    by (auto simp: sink_handlers on_reconfigure_def Let_def
        split: if_splits signal.splits stream.splits option.splits list.splits sum.splits dest!: check_configuration_Inl)
  then have handle: "sink_handle msg s = on_set_configuration msg s" by (simp add: sink_handle_def)
  show ?thesis
    using assms sig unfolding handle
    by (auto simp: on_set_configuration_def Let_def case_prod_beta accept_def reject_config_def delay_report_def
        dest!: check_configuration_Inl split: sum.splits option.splits if_splits)
qed

text \<open>
  An input that leaves a SUSPEND of ours with label \<open>t\<close> open: not its answer, and nothing by which
  the peer stops the stream itself.
\<close>

fun leaves_open :: "u8 \<Rightarrow> sink_input \<Rightarrow> bool" where
  "leaves_open t (HandleMsg m) =
     (if m_type m = Command then m_signal m \<notin> {Suspend, Close, Abort}
      else \<not> (m_signal m = Suspend \<and> m_transaction m = t))"
| "leaves_open t SuspendPeer = True"
| "leaves_open t LinkDown = False"
| "leaves_open t (SetDelay d) = True"

fun sends_command :: "sink_event \<Rightarrow> bool" where
  "sends_command (SendCommand _) = True"
| "sends_command _ = False"

lemma handle_while_suspending:
  "\<lbrakk>ss_stream s = LiveStream ctx (Some t); leaves_open t (HandleMsg m)\<rbrakk> \<Longrightarrow>
     ss_stream (snd (sink_handle m s)) = LiveStream ctx (Some t) \<and> list_all (\<lambda>e. \<not> sends_command e) (fst (sink_handle m s))"
  by (auto simp: sink_handlers on_set_configuration_def on_reconfigure_def
      split: signal.splits option.splits list.splits sum.splits if_splits)

lemma step_while_suspending:
  "\<lbrakk>ss_stream s = LiveStream ctx (Some t); leaves_open t i\<rbrakk> \<Longrightarrow>
     ss_stream (sink_step i s) = LiveStream ctx (Some t) \<and> list_all (\<lambda>e. \<not> sends_command e) (fst (sink_react i s))"
  using handle_while_suspending [of s ctx t]
  by (cases i) (auto simp: sink_step_def sink_react_def suspend_peer_def set_reported_delay_def)

lemma run_while_suspending:
  "\<lbrakk>ss_stream s = LiveStream ctx (Some t); list_all (leaves_open t) is\<rbrakk> \<Longrightarrow>
     ss_stream (fold sink_step is s) = LiveStream ctx (Some t) \<and> list_all (\<lambda>e. \<not> sends_command e) (sink_events is s)"
proof (induction "is" arbitrary: s)
  case (Cons i "is")
  then show ?case using step_while_suspending [of s ctx t i] by simp
qed simp

text \<open>
  C29. Once a SUSPEND is sent, then through any further messages, delay updates and requests
  to suspend, the stream goes on and no command at all is sent, until a response to it with its label comes or the
  stream ends otherwise: by a SUSPEND, CLOSE or ABORT of the peer's own or by the loss of the link.
  The response decides: an acceptance opens the stream again, anything else leaves it streaming and lets a
  next request to suspend be sent; a response with another label or signal is ignored.
\<close>

theorem suspend_handshake:
  assumes sent: "suspend_peer s = (Some (SendCommand c), s1)" and run: "list_all (leaves_open (m_transaction c)) is"
  defines "s2 \<equiv> fold sink_step is s1"
  shows "m_signal c = Suspend \<and> list_all (\<lambda>e. \<not> sends_command e) (sink_events is s1)
    \<and> sink_state s2 = Streaming \<and> fst (suspend_peer s2) = None
    \<and> (m_type a \<noteq> Command \<longrightarrow>
        (if m_signal a = Suspend \<and> m_transaction a = m_transaction c then
           if m_type a = ResponseAccept
           then fst (sink_handle a s2) = [SuspendedEvent] \<and> sink_state (snd (sink_handle a s2)) = Opened
           else fst (sink_handle a s2) = [SuspendRefused] \<and> sink_state (snd (sink_handle a s2)) = Streaming \<and>
             fst (suspend_peer (snd (sink_handle a s2))) \<noteq> None
         else sink_handle a s2 = ([], s2)))"
proof -
  obtain ctx peer where ctx: "ctx_peer_endpoint ctx = Some peer" "m_signal c = Suspend"
    and s1: "ss_stream s1 = LiveStream ctx (Some (m_transaction c))"
    using sent by (auto simp: suspend_peer_def message_suspend_def message_command_def message_of_def Let_def
        split: stream.splits option.splits)
  have s2: "ss_stream s2 = LiveStream ctx (Some (m_transaction c))" "list_all (\<lambda>e. \<not> sends_command e) (sink_events is s1)"
    using run_while_suspending [OF s1 run] by (simp_all add: s2_def)
  then show ?thesis using ctx
    by (auto simp: suspend_peer_def sink_handle_def on_response_def sink_state_def Let_def)
qed

definition sample_sink :: sink_session where
  "sample_sink =
     \<lparr> ss_endpoints = [\<lparr> sep_seid = 1, sep_capability = Ldac 0b111100 0b111, sep_in_use = False \<rparr>],
       ss_stream = IdleStream, ss_delay_reporting = True, ss_reported_delay = 3000, ss_next_transaction = 15 \<rparr>"

definition sample_configuration :: "bytes \<Rightarrow> message" where
  "sample_configuration tail =
     message_command 2 SetConfiguration ([4, 8, 7, 10] @ capability_encode (Ldac 0b010000 0b001) @ tail)"

lemma delay_reported_only_on_request_witness:
  "fst (sink_handle (sample_configuration [8, 0]) sample_sink) =
     [accept (sample_configuration [8, 0]) [], ConfiguredEvent LdacCodec (48000, 2) (Ldac 0b010000 0b001),
      SendCommand (message_delay_report 15 1 3000)] \<and>
   lists_category (drop 2 (m_payload (sample_configuration [8, 0]))) category_delay_reporting"
proof -
  have events: "fst (sink_handle (sample_configuration [8, 0]) sample_sink) =
     [accept (sample_configuration [8, 0]) [], ConfiguredEvent LdacCodec (48000, 2) (Ldac 0b010000 0b001),
      SendCommand (message_delay_report 15 1 3000)]"
    by code_simp
  then have "SendCommand (message_delay_report 15 1 3000) \<in> set (fst (sink_handle (sample_configuration [8, 0]) sample_sink))"
    by simp
  then show ?thesis
    using delay_reported_only_on_request events by blast
qed

definition sample_live :: sink_session where
  "sample_live =
     sample_sink\<lparr> ss_stream := LiveStream
       \<lparr> ctx_active = 1, ctx_peer_endpoint = Some 2, ctx_configuration = Ldac 0b010000 0b001,
         ctx_delay_reporting = False \<rparr> None \<rparr>"

lemma suspend_handshake_witness:
  "\<exists>c s1. suspend_peer sample_live = (Some (SendCommand c), s1) \<and>
     (let is = [SuspendPeer, HandleMsg (message_command 4 Start [4]), SetDelay 0];
          s2 = fold sink_step is s1 in
        list_all (\<lambda>e. \<not> sends_command e) (sink_events is s1) \<and> sink_state s2 = Streaming
        \<and> fst (sink_handle (message_of (m_transaction c) ResponseAccept Suspend []) s2) = [SuspendedEvent])"
proof -
  obtain c s1 where sent: "suspend_peer sample_live = (Some (SendCommand c), s1)"
    by (simp add: suspend_peer_def sample_live_def Let_def)
  have "list_all (leaves_open (m_transaction c)) [SuspendPeer, HandleMsg (message_command 4 Start [4]), SetDelay 0]"
    by (simp add: message_command_def message_of_def)
  from suspend_handshake [OF sent this, of "message_of (m_transaction c) ResponseAccept Suspend []"] sent
  show ?thesis by (auto simp: message_of_def Let_def)
qed

text \<open>A configuration is checked against the codec of the endpoint, not against its offer.\<close>

text \<open>
  A configuration is not compared with the offer it should have been chosen
  from: our LDAC endpoint, which does not offer 192 kHz, accepts it.
\<close>

theorem unoffered_rate_accepted:
  "fst (sink_handle (message_command 2 SetConfiguration ([4, 8, 7, 10] @ capability_encode (Ldac 0b000001 0b001))) sample_sink) =
     [Reply (message_of 2 ResponseAccept SetConfiguration []), ConfiguredEvent LdacCodec (192000, 2) (Ldac 0b000001 0b001)] \<and>
   Ldac 0b111100 0b111 \<in> set (advertised_codecs [LdacCodec]) \<and> (0b111100 AND 0b000001 :: u8) = 0"
proof -
  have "fst (sink_handle (message_command 2 SetConfiguration ([4, 8, 7, 10] @ capability_encode (Ldac 0b000001 0b001))) sample_sink) =
     [Reply (message_of 2 ResponseAccept SetConfiguration []), ConfiguredEvent LdacCodec (192000, 2) (Ldac 0b000001 0b001)]"
    by code_simp
  then show ?thesis by (simp add: advertised_codecs_def)
qed

end
