(* ===== verification/Host.thy ===== *)
theory Host
  imports Hci_Event Hci_Flow
begin

text \<open>
  \<^verbatim>\<open>crates/proto-bluetooth-audio/src/host.rs\<close> and the inquiry response it publishes
  (\<^verbatim>\<open>crates/substrate-hci/src/eir.rs\<close>): bring-up of the controller, the pairing policy and the
  watchdog, every command through the window of \<open>Hci_Flow\<close>. Logging is left out.
\<close>

section \<open>The extended inquiry response\<close>

definition ad_complete_local_name :: u8 where "ad_complete_local_name = 0x09"
definition ad_shortened_local_name :: u8 where "ad_shortened_local_name = 0x08"
definition ad_complete_uuids16 :: u8 where "ad_complete_uuids16 = 0x03"
definition ad_overhead :: nat where "ad_overhead = 2"
definition eir_capacity :: nat where "eir_capacity = 240"

text \<open>An \<open>Eir\<close> is the bytes written so far.\<close>

definition eir_remaining :: "bytes \<Rightarrow> nat" where
  "eir_remaining buf = eir_capacity - length buf"

definition eir_push :: "string \<Rightarrow> u8 \<Rightarrow> bytes \<Rightarrow> bytes \<Rightarrow> hci_error + bytes" where
  "eir_push what ad_type data buf =
     (let needed = length data + ad_overhead in
      if \<not> (length data + 1 < 2 ^ 8 \<and> needed \<le> eir_remaining buf)
      then Inl (HciTooLong what (length buf + needed) eir_capacity)
      else Inr (buf @ [of_nat (length data + 1), ad_type] @ data))"

definition with_uuids16 :: "u16 list \<Rightarrow> bytes \<Rightarrow> hci_error + bytes" where
  "with_uuids16 uuids buf =
     (if uuids = [] then Inr buf
      else eir_push ''EIR service class list'' ad_complete_uuids16 (concat (map le16 uuids)) buf)"

text \<open>The offsets at which the characters of a \<open>String\<close> end, from its UTF-8 bytes.\<close>

function char_ends :: "nat \<Rightarrow> bytes \<Rightarrow> nat list" where
  "char_ends i [] = []"
| "char_ends i (b # rest) = (let n = max 1 (utf8_len b) in (i + n) # char_ends (i + n) (drop (n - 1) rest))"
  by pat_completeness auto
termination by (relation "measure (\<lambda>(_, bs). length bs)") auto

definition shortened_at :: "nat \<Rightarrow> bytes \<Rightarrow> nat" where
  "shortened_at budget name =
     (case rev (takeWhile (\<lambda>stop. stop \<le> budget) (char_ends 0 name)) of [] \<Rightarrow> 0 | stop # _ \<Rightarrow> stop)"

definition with_name :: "bytes \<Rightarrow> bytes \<Rightarrow> bytes" where
  "with_name name buf =
     (let budget = eir_remaining buf - ad_overhead;
          (ad_type, text) = (if length name \<le> budget then (ad_complete_local_name, name)
            else (ad_shortened_local_name, take (shortened_at budget name) name))
      in if text = [] then buf
         else (case eir_push ''EIR local name'' ad_type text buf of Inr buf' \<Rightarrow> buf' | Inl _ \<Rightarrow> buf))"

section \<open>What a peer reads in an inquiry response\<close>

text \<open>
  The reader of the specification: structures of a length, a type and data, up to a length of
  zero, which is where the padding starts.
\<close>

function ad_parse :: "bytes \<Rightarrow> (u8 \<times> bytes) list option" where
  "ad_parse [] = Some []"
| "ad_parse (n # rest) =
     (if n = 0 then Some []
      else if length rest < unat n then None
      else (case ad_parse (drop (unat n) rest) of None \<Rightarrow> None
            | Some ads \<Rightarrow> Some ((hd rest, take (unat n - 1) (tl rest)) # ads)))"
  by pat_completeness auto
termination by (relation "measure length") auto

lemma ad_parse_structure:
  assumes "length data + 1 < 2 ^ 8"
  shows "ad_parse (of_nat (length data + 1) # ad_type # data @ rest) =
    (case ad_parse rest of None \<Rightarrow> None | Some ads \<Rightarrow> Some ((ad_type, data) # ads))"
proof -
  have n: "unat (of_nat (length data + 1) :: u8) = length data + 1"
    using assms by (intro unat_of_nat8) simp
  then have "(of_nat (length data + 1) :: u8) \<noteq> 0" by (metis add_is_0 one_neq_zero unat_0)
  then show ?thesis using n by (cases "ad_parse rest") (simp_all del: of_nat_Suc of_nat_add)
qed

lemma ad_parse_padding [simp]: "ad_parse (replicate n 0) = Some []"
  by (cases n) simp_all

lemma shortened_at_le: "shortened_at budget name \<le> budget"
proof -
  have "x \<in> set (takeWhile (\<lambda>stop. stop \<le> budget) (char_ends 0 name)) \<Longrightarrow> x \<le> budget" for x
    by (meson set_takeWhileD)
  then show ?thesis unfolding shortened_at_def by (auto split: list.split)
qed

lemma shortened_at_boundary: "shortened_at budget name \<in> insert 0 (set (char_ends 0 name))"
proof (cases "rev (takeWhile (\<lambda>stop. stop \<le> budget) (char_ends 0 name))")
  case (Cons stop rest)
  then have "stop \<in> set (takeWhile (\<lambda>stop. stop \<le> budget) (char_ends 0 name))"
    by (metis list.set_intros(1) set_rev)
  then have "stop \<in> set (char_ends 0 name)" by (metis set_takeWhileD)
  then show ?thesis using Cons by (simp add: shortened_at_def)
qed (simp add: shortened_at_def)

definition service_classes :: "u16 list" where
  "service_classes = [0x110B, 0x110C, 0x110D, 0x110E, 0x110F]"

definition eir_of :: "bytes \<Rightarrow> bytes" where
  "eir_of name = with_name name (case with_uuids16 service_classes [] of Inr buf \<Rightarrow> buf | Inl _ \<Rightarrow> [])"

text \<open>What the response says of the name: nothing, the whole name, or a cut marked as one.\<close>

definition name_text :: "bytes \<Rightarrow> bytes" where
  "name_text name = (if length name \<le> 226 then name else take (shortened_at 226 name) name)"

definition name_type :: "bytes \<Rightarrow> u8" where
  "name_type name = (if length name \<le> 226 then ad_complete_local_name else ad_shortened_local_name)"

definition advertised_name :: "bytes \<Rightarrow> (u8 \<times> bytes) list" where
  "advertised_name name = (if name_text name = [] then [] else [(name_type name, name_text name)])"

lemma eir_uuids:
  "with_uuids16 service_classes [] = Inr (11 # 0x03 # concat (map le16 service_classes))"
  "length (concat (map le16 service_classes)) = 10"
  by code_simp+

lemma name_text_small: "length (name_text name) \<le> 226"
  using shortened_at_le [of 226 name] by (auto simp: name_text_def)

lemma eir_of_eq:
  "eir_of name = 11 # 0x03 # concat (map le16 service_classes) @
     (if name_text name = [] then [] else of_nat (length (name_text name) + 1) # name_type name # name_text name)"
proof -
  have "eir_remaining (11 # 0x03 # concat (map le16 service_classes)) = 228"
    by (simp add: eir_remaining_def eir_capacity_def eir_uuids(2))
  then show ?thesis using name_text_small [of name]
    unfolding eir_of_def with_name_def Let_def eir_uuids(1)
    by (auto simp: ad_overhead_def eir_push_def name_text_def name_type_def split: if_splits)
qed

text \<open>
  The inquiry response that bring-up publishes is one a peer can read,
  whatever the configured name: it always fits the controller's 240 bytes, so the command
  encodes, and read as the specification says it gives the five service classes and then the
  name, whole and marked so, or cut at the end of a character and marked as cut.
\<close>

theorem inquiry_response_read_back:
  "\<exists>data. command_params (WriteExtendedInquiryResponse fec (eir_of name)) = Inr (bool_byte fec # data)
    \<and> length data = 240
    \<and> ad_parse data = Some ((ad_complete_uuids16, concat (map le16 service_classes)) # advertised_name name)
    \<and> name_text name \<in> insert name ((\<lambda>k. take k name) ` insert 0 (set (char_ends 0 name)))"
proof -
  let ?uuids = "concat (map le16 service_classes)"
  have len: "length (eir_of name) \<le> 240"
    using name_text_small [of name] by (auto simp: eir_of_eq eir_uuids(2))
  have tail: "ad_parse ((if name_text name = [] then [] else of_nat (length (name_text name) + 1) # name_type name # name_text name)
      @ replicate n 0) = Some (advertised_name name)" for n
    using name_text_small [of name] ad_parse_structure [of "name_text name" "name_type name" "replicate n 0"]
    by (auto simp: advertised_name_def simp del: of_nat_Suc of_nat_add)
  have "ad_parse (eir_of name @ replicate n 0) = Some ((ad_complete_uuids16, ?uuids) # advertised_name name)" for n
    using ad_parse_structure [of ?uuids ad_complete_uuids16] tail [of n]
    by (simp add: eir_of_eq eir_uuids(2) ad_complete_uuids16_def del: of_nat_Suc of_nat_add ad_parse.simps)
  moreover have "name_text name \<in> insert name ((\<lambda>k. take k name) ` insert 0 (set (char_ends 0 name)))"
    using shortened_at_boundary [of 226 name] unfolding name_text_def by (metis imageI insertCI)
  ultimately show ?thesis using len by (simp add: eir_len_def)
qed

section \<open>The host\<close>

datatype host_state = Down | Initializing | Ready

datatype host_action =
    SendAction command
  | ReadyAction bd_addr u16 u16
  | LinkUpAction handle bd_addr
  | LinkDownAction handle bd_addr status
  | PeerNameAction bd_addr bytes
  | PairedAction bd_addr bytes
  | UnpairedAction bd_addr
  | CreditsAction handle u16

record host_config =
  hc_name :: bytes
  hc_class_of_device :: u32
  hc_discoverable :: bool

definition command_timeout :: duration where "command_timeout = from_secs 5"
definition inquiry_scan_interval :: u16 where "inquiry_scan_interval = 0x0400"
definition inquiry_scan_window :: u16 where "inquiry_scan_window = 0x0060"

definition addr_zero :: bd_addr where "addr_zero = [0, 0, 0, 0, 0, 0]"

definition rejected_limited_resources :: status where "rejected_limited_resources = 0x0D"

record host =
  h_config :: host_config
  h_state :: host_state
  h_pending :: "command list"
  h_address :: bd_addr
  h_acl_credits :: u16
  h_acl_mtu :: u16
  h_link_keys :: "(bd_addr, bytes) tbl"
  h_connections :: "(u16, bd_addr) tbl"
  h_commands :: command_credits
  h_unanswered_for :: duration

definition host_new :: "host_config \<Rightarrow> host" where
  "host_new config =
     \<lparr>h_config = config, h_state = Down, h_pending = [], h_address = addr_zero, h_acl_credits = 1,
      h_acl_mtu = 339, h_link_keys = [], h_connections = [], h_commands = cc_new,
      h_unanswered_for = 0\<rparr>"

definition load_link_keys :: "(bd_addr \<times> bytes) list \<Rightarrow> host \<Rightarrow> host" where
  "load_link_keys keys h = h\<lparr>h_link_keys := fold (\<lambda>(a, k). tbl_put a k) keys (h_link_keys h)\<rparr>"

definition knows :: "bd_addr \<Rightarrow> host \<Rightarrow> bool" where
  "knows peer h = (tbl_get (h_link_keys h) peer \<noteq> None)"

definition idle_scan :: "host_config \<Rightarrow> scan_enable" where
  "idle_scan config = (if hc_discoverable config then DiscoverableAndConnectable else ConnectableOnly)"

text \<open>Every command takes a slot of the window or waits for one; other actions pass.\<close>

fun pace :: "host_action list \<Rightarrow> host \<Rightarrow> host_action list \<times> host" where
  "pace [] h = ([], h)"
| "pace (SendAction cmd # actions) h =
     (let (now, c) = submit cmd (h_commands h); (rest, h') = pace actions (h\<lparr>h_commands := c\<rparr>) in
      ((case now of None \<Rightarrow> [] | Some cmd \<Rightarrow> [SendAction cmd]) @ rest, h'))"
| "pace (other # actions) h = (let (rest, h') = pace actions h in (other # rest, h'))"

definition bring_up :: "host_config \<Rightarrow> command list" where
  "bring_up config =
     [ReadLocalVersion, ReadBufferSize, ReadBdAddr, SetEventMask 0xFFFFFFFFFFFFFFFF,
      WriteClassOfDevice (hc_class_of_device config), WriteLocalName (hc_name config),
      WriteExtendedInquiryResponse False (eir_of (hc_name config)), WriteSimplePairingMode True,
      WriteInquiryScanActivity inquiry_scan_interval inquiry_scan_window, WriteInquiryScanType True,
      WritePageScanType True, WriteScanEnable (idle_scan config)]"

definition host_start :: "host \<Rightarrow> host_action list \<times> host" where
  "host_start h =
     pace [SendAction Reset] (h\<lparr>h_state := Initializing, h_pending := bring_up (h_config h)\<rparr>)"

definition set_discoverable :: "bool \<Rightarrow> host \<Rightarrow> host_action list \<times> host" where
  "set_discoverable discoverable h =
     (let scan = if discoverable then idle_scan (h_config h) else ConnectableOnly in
      pace [SendAction (WriteScanEnable scan)] h)"

definition advance_bring_up :: "host \<Rightarrow> host_action list \<times> host" where
  "advance_bring_up h =
     (case h_pending h of
        [] \<Rightarrow> ([ReadyAction (h_address h) (h_acl_credits h) (h_acl_mtu h)], h\<lparr>h_state := Ready\<rparr>)
      | cmd # rest \<Rightarrow> ([SendAction cmd], h\<lparr>h_pending := rest\<rparr>))"

text \<open>The informational results, kept when they parse: \<open>0x1005\<close> is Read Buffer Size, \<open>0x1009\<close> Read BD_ADDR.\<close>

definition note_result :: "opcode \<Rightarrow> bytes \<Rightarrow> host \<Rightarrow> host" where
  "note_result op params h =
     (if op = 0x1005 then
        (case buffer_size_parse params of
           Inl _ \<Rightarrow> h
         | Inr bs \<Rightarrow> h\<lparr>h_acl_mtu := max (bs_acl_max_len bs) 1, h_acl_credits := max (bs_total_packets bs) 1\<rparr>)
      else if op = 0x1009 then
        (case parse_bd_addr params of Inl _ \<Rightarrow> h | Inr a \<Rightarrow> h\<lparr>h_address := a\<rparr>)
      else h)"

definition on_command_complete :: "opcode \<Rightarrow> bytes \<Rightarrow> host \<Rightarrow> host_action list \<times> host" where
  "on_command_complete op params h =
     (let h = note_result op params h in
      if h_state h \<noteq> Initializing then ([], h) else advance_bring_up h)"

fun handle_event :: "event \<Rightarrow> host \<Rightarrow> host_action list \<times> host" where
  "handle_event (CommandComplete _ op params) h = on_command_complete op params h"
| "handle_event (CommandStatus status _ op) h =
     (if h_state h = Initializing then advance_bring_up h else ([], h))"
| "handle_event (ConnectionRequestEvent a _ link) h =
     (if link = Acl then ([SendAction (AcceptConnectionRequest a RemainPeripheral)], h)
      else ([SendAction (RejectConnectionRequest a rejected_limited_resources)], h))"
| "handle_event (ConnectionComplete status hdl a _ _) h =
     (if status_is_success status
      then ([LinkUpAction hdl a, SendAction (RemoteNameRequest a)],
            h\<lparr>h_connections := tbl_put hdl a (h_connections h)\<rparr>)
      else ([], h))"
| "handle_event (DisconnectionComplete _ hdl reason) h =
     ([LinkDownAction hdl (case tbl_get (h_connections h) hdl of Some a \<Rightarrow> a | None \<Rightarrow> addr_zero) reason],
      h\<lparr>h_connections := tbl_del hdl (h_connections h)\<rparr>)"
| "handle_event (IoCapabilityRequest a) h =
     ([SendAction (IoCapabilityRequestReply a NoInputNoOutput GeneralBondingNoMitm)], h)"
| "handle_event (UserConfirmationRequest a _) h = ([SendAction (UserConfirmationRequestReply a)], h)"
| "handle_event (LinkKeyRequest a) h =
     (case tbl_get (h_link_keys h) a of
        None \<Rightarrow> ([SendAction (LinkKeyRequestNegativeReply a)], h)
      | Some key \<Rightarrow> ([SendAction (LinkKeyRequestReply a key)], h))"
| "handle_event (LinkKeyNotification a key _) h =
     ([PairedAction a key], h\<lparr>h_link_keys := tbl_put a key (h_link_keys h)\<rparr>)"
| "handle_event (PinCodeRequest a) h = ([SendAction (PinCodeRequestNegativeReply a)], h)"
| "handle_event (RemoteNameRequestComplete status a name) h =
     (if status_is_success status \<and> trim name \<noteq> [] then ([PeerNameAction a (trim name)], h) else ([], h))"
| "handle_event (AuthenticationComplete status hdl) h =
     (if status_is_success status then ([], h)
      else (case tbl_get (h_connections h) hdl of
              None \<Rightarrow> ([], h)
            | Some a \<Rightarrow>
                if knows a h
                then ([UnpairedAction a], h\<lparr>h_link_keys := tbl_del a (h_link_keys h)\<rparr>)
                else ([], h)))"
| "handle_event (NumberOfCompletedPackets pairs) h = (map (\<lambda>(hdl, n). CreditsAction hdl n) pairs, h)"
| "handle_event _ h = ([], h)"

text \<open>An answer to a command moves the window before the event itself is looked at.\<close>

fun open_window :: "event \<Rightarrow> host \<Rightarrow> host_action list \<times> host" where
  "open_window (CommandComplete allowed op _) h =
     (let (cmds, c) = answered op allowed (h_commands h) in
      (map SendAction cmds, h\<lparr>h_unanswered_for := 0, h_commands := c\<rparr>))"
| "open_window (CommandStatus _ allowed op) h =
     (let (cmds, c) = answered op allowed (h_commands h) in
      (map SendAction cmds, h\<lparr>h_unanswered_for := 0, h_commands := c\<rparr>))"
| "open_window _ h = ([], h)"

definition on_event :: "event \<Rightarrow> host \<Rightarrow> host_action list \<times> host" where
  "on_event ev h =
     (let (actions, h) = open_window ev h; (fresh, h) = handle_event ev h; (paced, h) = pace fresh h in
      (actions @ paced, h))"

definition host_next_timeout :: "host \<Rightarrow> duration option" where
  "host_next_timeout h =
     (if 0 < length (cc_in_flight (h_commands h)) then Some (command_timeout - h_unanswered_for h) else None)"

definition host_tick :: "duration \<Rightarrow> host \<Rightarrow> host_action list \<times> host" where
  "host_tick elapsed h =
     (if length (cc_in_flight (h_commands h)) = 0 then ([], h\<lparr>h_unanswered_for := 0\<rparr>)
      else let h = h\<lparr>h_unanswered_for := h_unanswered_for h + elapsed\<rparr> in
        if h_unanswered_for h < command_timeout then ([], h)
        else let ((lost, released), c) = abandon_oldest (h_commands h);
               h = h\<lparr>h_unanswered_for := 0, h_commands := c\<rparr>;
               actions = map SendAction released
             in
               if h_state h = Initializing
               then let (fresh, h) = advance_bring_up h; (paced, h) = pace fresh h in (actions @ paced, h)
               else (actions, h))"

end
