(* ===== verification/Host_Run.thy ===== *)
theory Host_Run
  imports Host "HOL-Library.Sublist"
begin

text \<open>
  What any sequence of events, ticks and calls does to the host controller: an invariant, what
  its actions tell of the links and keys, the order of bring-up, the answers of a pairing, and
  whether bring-up ends. A command counts as asked for when it is sent or waits for a slot.
\<close>

section \<open>What the window keeps\<close>

fun sends :: "host_action list \<Rightarrow> command list" where
  "sends [] = []"
| "sends (SendAction cmd # actions) = cmd # sends actions"
| "sends (_ # actions) = sends actions"

lemma sends_append [simp]: "sends (xs @ ys) = sends xs @ sends ys"
  by (induction xs rule: sends.induct) simp_all

lemma sends_map [simp]: "sends (map SendAction cmds) = cmds"
  by (induction cmds) simp_all

lemma sends_mem [simp]: "cmd \<in> set (sends actions) \<longleftrightarrow> SendAction cmd \<in> set actions"
  by (induction actions rule: sends.induct) auto

definition window_ok :: "command_credits \<Rightarrow> bool" where
  "window_ok c \<longleftrightarrow> (cc_available c > 0 \<longrightarrow> cc_waiting c = [])"

text \<open>The commands handed out so far and those that wait for a slot.\<close>

definition queued :: "host_action list \<Rightarrow> host \<Rightarrow> command list" where
  "queued out h = sends out @ cc_waiting (h_commands h)"

lemma submit_window:
  assumes "window_ok c" "submit cmd c = (now, c')"
  shows "window_ok c'" "(case now of None \<Rightarrow> [] | Some x \<Rightarrow> [x]) @ cc_waiting c' = cc_waiting c @ [cmd]"
    "cc_in_flight c \<noteq> [] \<or> 0 < cc_available c \<Longrightarrow> cc_in_flight c' \<noteq> []"
  using assms by (auto simp: submit_def window_ok_def word_gt_0 split: if_splits)

lemma pace_effect:
  "\<lbrakk>window_ok (h_commands h); pace actions h = (out, h')\<rbrakk> \<Longrightarrow>
     window_ok (h_commands h') \<and> h' = h\<lparr>h_commands := h_commands h'\<rparr>
     \<and> queued out h' = cc_waiting (h_commands h) @ sends actions
     \<and> filter (\<lambda>a. sends [a] = []) out = filter (\<lambda>a. sends [a] = []) actions
     \<and> (cc_in_flight (h_commands h) \<noteq> [] \<longrightarrow> cc_in_flight (h_commands h') \<noteq> [])"
proof (induction actions h arbitrary: out h' rule: pace.induct)
  case (2 cmd actions h)
  obtain now c where s: "submit cmd (h_commands h) = (now, c)" by fastforce
  obtain rest h2 where p: "pace actions (h\<lparr>h_commands := c\<rparr>) = (rest, h2)" by fastforce
  note w = submit_window [OF 2(2) s]
  have ih: "window_ok (h_commands h2) \<and> h2 = h\<lparr>h_commands := c\<rparr>\<lparr>h_commands := h_commands h2\<rparr>
     \<and> queued rest h2 = cc_waiting c @ sends actions
     \<and> filter (\<lambda>a. sends [a] = []) rest = filter (\<lambda>a. sends [a] = []) actions
     \<and> (cc_in_flight c \<noteq> [] \<longrightarrow> cc_in_flight (h_commands h2) \<noteq> [])"
    using 2(1) [OF s [symmetric] refl _ p] w(1) by simp
  have out: "out = (case now of None \<Rightarrow> [] | Some cmd \<Rightarrow> [SendAction cmd]) @ rest" "h' = h2"
    using 2(3) by (simp_all add: s p)
  have "queued out h' = (case now of None \<Rightarrow> [] | Some x \<Rightarrow> [x]) @ queued rest h2"
    by (simp add: out queued_def split: option.split)
  also have "\<dots> = cc_waiting (h_commands h) @ [cmd] @ sends actions"
    using ih w(2) by simp
  finally show ?case using ih w(3) unfolding out by (auto split: option.split)
qed (auto simp: queued_def split: prod.splits)

lemmas pace_window = pace_effect [THEN conjunct1]
  and pace_frame = pace_effect [THEN conjunct2, THEN conjunct1]
  and pace_queued = pace_effect [THEN conjunct2, THEN conjunct2, THEN conjunct1]
  and pace_flight = pace_effect [THEN conjunct2, THEN conjunct2, THEN conjunct2, THEN conjunct2, rule_format]

lemma release_window:
  assumes "release c = (cmds, c')"
  shows "window_ok c'" "cmds @ cc_waiting c' = cc_waiting c"
    "cc_in_flight c' = cc_in_flight c @ map command_opcode cmds"
    "0 < cc_available c \<Longrightarrow> cmds \<noteq> [] \<or> (cc_waiting c = [] \<and> 0 < cc_available c')"
proof -
  show "window_ok c'" using assms by (auto simp: release_eq window_ok_def dest: release_exhausts)
  show "cmds @ cc_waiting c' = cc_waiting c" "cc_in_flight c' = cc_in_flight c @ map command_opcode cmds"
    using assms by (auto simp: release_eq)
  show "0 < cc_available c \<Longrightarrow> cmds \<noteq> [] \<or> (cc_waiting c = [] \<and> 0 < cc_available c')"
    using assms by (auto simp: release_eq unat_eq_zero)
qed

section \<open>Runs of the host\<close>

datatype host_input = Start | Event event | Tick duration | Discoverable bool

fun host_step :: "host_input \<Rightarrow> host \<Rightarrow> host_action list \<times> host" where
  "host_step Start h = host_start h"
| "host_step (Event ev) h = on_event ev h"
| "host_step (Tick d) h = host_tick d h"
| "host_step (Discoverable on) h = set_discoverable on h"

definition host_ok :: "host \<Rightarrow> bool" where
  "host_ok h \<longleftrightarrow> window_ok (h_commands h) \<and> suffix (h_pending h) (bring_up (h_config h))
     \<and> (h_state h \<noteq> Initializing \<longrightarrow> h_pending h = [])
     \<and> tbl_ok (h_link_keys h) \<and> tbl_ok (h_connections h)
     \<and> 0 < h_acl_mtu h \<and> 0 < h_acl_credits h \<and> h_unanswered_for h < command_timeout"

text \<open>
  A step is the part that makes actions, then the part that finds them a slot. \<open>decide\<close> is the
  first: what was released from the queue, the fresh actions, and the host between the two.
\<close>

fun decide :: "host_input \<Rightarrow> host \<Rightarrow> command list \<times> host_action list \<times> host" where
  "decide Start h = ([], [SendAction Reset], h\<lparr>h_state := Initializing, h_pending := bring_up (h_config h)\<rparr>)"
| "decide (Event ev) h =
     (let (actions, h) = open_window ev h; (fresh, h) = handle_event ev h in (sends actions, fresh, h))"
| "decide (Tick elapsed) h =
     (if cc_in_flight (h_commands h) = [] then ([], [], h\<lparr>h_unanswered_for := 0\<rparr>)
      else if h_unanswered_for h + elapsed < command_timeout
      then ([], [], h\<lparr>h_unanswered_for := h_unanswered_for h + elapsed\<rparr>)
      else let ((lost, released), c) = abandon_oldest (h_commands h);
               h = h\<lparr>h_unanswered_for := 0, h_commands := c\<rparr>;
               (fresh, h) = (if h_state h = Initializing then advance_bring_up h else ([], h))
           in (released, fresh, h))"
| "decide (Discoverable on) h =
     ([], [SendAction (WriteScanEnable (if on then idle_scan (h_config h) else ConnectableOnly))], h)"

lemma open_window_map: "\<exists>cmds. fst (open_window ev h) = map SendAction cmds"
  by (cases ev) (auto simp: split_beta intro: exI [of _ "[]"])

lemma step_decide:
  "host_step i h = (let (released, fresh, h) = decide i h; (paced, h) = pace fresh h in (map SendAction released @ paced, h))"
proof (cases i)
  case (Event ev)
  obtain cmds where "fst (open_window ev h) = map SendAction cmds" using open_window_map by blast
  then show ?thesis by (auto simp: Event on_event_def split_beta)
qed (auto simp: host_start_def set_discoverable_def host_tick_def Let_def split_beta)

lemma advance_effect:
  assumes "host_ok h" "h_state h = Initializing" "advance_bring_up h = (fresh, h')"
  shows "host_ok h'" "h_commands h' = h_commands h" "sends fresh @ h_pending h' = h_pending h"
    "h' = h\<lparr>h_pending := h_pending h', h_state := h_state h'\<rparr>"
    "h_pending h = [] \<Longrightarrow> h_state h' = Ready \<and> fresh = [ReadyAction (h_address h) (h_acl_credits h) (h_acl_mtu h)]"
    "h_pending h \<noteq> [] \<Longrightarrow> h_state h' = Initializing \<and> length (h_pending h) = Suc (length (h_pending h'))
       \<and> fresh = [SendAction (hd (h_pending h))]"
  using assms by (auto simp: advance_bring_up_def host_ok_def split: list.splits dest: suffix_ConsD)

lemma note_result_frame:
  "host_ok h \<Longrightarrow> host_ok (note_result op params h)"
  "h_commands (note_result op params h) = h_commands h"
  "h_state (note_result op params h) = h_state h"
  "h_pending (note_result op params h) = h_pending h"
  "h_link_keys (note_result op params h) = h_link_keys h"
  "h_connections (note_result op params h) = h_connections h"
  by (auto simp: note_result_def host_ok_def max_def word_gt_0 word_le_nat_alt split: sum.splits)

lemma handle_effect:
  assumes "host_ok h" "handle_event ev h = (fresh, h')"
  shows "host_ok h' \<and> h_commands h' = h_commands h"
proof (cases ev)
  case (CommandComplete n op params)
  let ?n = "note_result op params h"
  have "host_ok ?n" using assms(1) by (rule note_result_frame)
  then show ?thesis using assms(2) advance_effect(1,2) [of ?n fresh h'] note_result_frame(2,3) [of op params h]
    by (cases "h_state h = Initializing") (auto simp: CommandComplete on_command_complete_def)
next
  case (CommandStatus st n op)
  then show ?thesis using assms advance_effect(1,2) [of h fresh h']
    by (cases "h_state h = Initializing") simp_all
qed (use assms in \<open>auto simp: host_ok_def distinct_update distinct_delete split: if_splits option.splits\<close>)

lemma answered_release:
  assumes "answered op n c = (cmds, c')"
  shows "window_ok c'" "cmds @ cc_waiting c' = cc_waiting c"
  using release_window(1,2) [of "c\<lparr>cc_in_flight := remove1 op (cc_in_flight c), cc_available := n\<rparr>" cmds c'] assms
  by (simp_all add: answered_def)

lemma open_window_effect:
  assumes "host_ok h" "open_window ev h = (out, h')"
  shows "host_ok h' \<and> sends out @ cc_waiting (h_commands h') = cc_waiting (h_commands h)
    \<and> h' = h\<lparr>h_commands := h_commands h', h_unanswered_for := h_unanswered_for h'\<rparr>"
  using assms answered_release
  by (cases ev) (fastforce simp: host_ok_def command_timeout_def from_secs_def split: prod.splits)+

lemma abandon_release:
  assumes "cc_in_flight c \<noteq> []" "abandon_oldest c = ((lost, cmds), c')"
  shows "window_ok c'" "cmds @ cc_waiting c' = cc_waiting c" "cc_in_flight c' \<noteq> [] \<or> 0 < cc_available c'"
proof -
  obtain op rest where fl: "cc_in_flight c = op # rest" using assms(1) by (cases "cc_in_flight c") auto
  let ?c = "c\<lparr>cc_in_flight := rest, cc_available := max (cc_available c) 1\<rparr>"
  have r: "release ?c = (cmds, c')" using assms(2) by (auto simp: abandon_oldest_def fl Let_def split: prod.splits)
  note w = release_window [OF r]
  show "window_ok c'" "cmds @ cc_waiting c' = cc_waiting c" using w(1,2) by simp_all
  have "0 < cc_available ?c" by (auto simp: max_def word_gt_0)
  then show "cc_in_flight c' \<noteq> [] \<or> 0 < cc_available c'" using w(3,4) by auto
qed

lemma decide_effect:
  assumes ok: "host_ok h" and d: "decide i h = (released, fresh, h1)"
  shows "host_ok h1 \<and> released @ cc_waiting (h_commands h1) = cc_waiting (h_commands h)"
proof (cases i)
  case (Event ev)
  obtain out h2 where o: "open_window ev h = (out, h2)" by fastforce
  note e = open_window_effect [OF ok o]
  have "handle_event ev h2 = (fresh, h1)" "released = sends out" using d by (auto simp: Event o split: prod.splits)
  then show ?thesis using handle_effect [of h2 ev] e by auto
next
  case (Tick elapsed)
  show ?thesis
  proof (cases "cc_in_flight (h_commands h) = [] \<or> h_unanswered_for h + elapsed < command_timeout")
    case True
    then show ?thesis using ok d
      by (auto simp: Tick host_ok_def command_timeout_def from_secs_def split: if_splits)
  next
    case False
    obtain lost cmds c where a: "abandon_oldest (h_commands h) = ((lost, cmds), c)" by (metis surj_pair)
    let ?h = "h\<lparr>h_unanswered_for := 0, h_commands := c\<rparr>"
    note w = abandon_release [OF _ a]
    have "host_ok ?h" using ok w(1) False by (auto simp: host_ok_def command_timeout_def from_secs_def)
    then show ?thesis using advance_effect(1,2) [of ?h] d w(2) False
      by (auto simp: Tick a Let_def split: if_splits prod.splits)
  qed
qed (use ok d in \<open>auto simp: host_ok_def\<close>)

lemma step_effect:
  assumes ok: "host_ok h" and d: "decide i h = (released, fresh, h1)" and s: "host_step i h = (out, h')"
  shows "host_ok h' \<and> queued out h' = cc_waiting (h_commands h) @ sends fresh
    \<and> h' = h1\<lparr>h_commands := h_commands h'\<rparr>
    \<and> filter (\<lambda>a. sends [a] = []) out = filter (\<lambda>a. sends [a] = []) fresh"
proof -
  note e = decide_effect [OF ok d]
  obtain paced h2 where p: "pace fresh h1 = (paced, h2)" by fastforce
  have out: "out = map SendAction released @ paced" "h' = h2" using s by (simp_all add: step_decide d p)
  have w: "window_ok (h_commands h1)" using e by (simp add: host_ok_def)
  note pe = pace_effect [OF w p]
  obtain c where c: "h2 = h1\<lparr>h_commands := c\<rparr>" "window_ok c" using pe by metis
  then have "host_ok h'" using e by (simp add: out host_ok_def)
  moreover have "queued out h' = released @ queued paced h2" by (simp add: out queued_def)
  moreover have "filter (\<lambda>a. sends [a] = []) (map SendAction released) = []" by (induction released) simp_all
  ultimately show ?thesis using e pe c(1) by (simp add: out)
qed

text \<open>A run keeps the actions the host asked for, in order.\<close>

fun run_step :: "host_input \<Rightarrow> host \<times> host_action list \<Rightarrow> host \<times> host_action list" where
  "run_step i (h, log) = (let (out, h') = host_step i h in (h', log @ out))"

lemma run_step_effect:
  assumes "host_ok h" "run_step i (h, log) = (h', log')" "decide i h = (released, fresh, h1)"
  shows "host_ok h'" "queued log' h' = queued log h @ sends fresh" "h' = h1\<lparr>h_commands := h_commands h'\<rparr>"
    "filter (\<lambda>a. sends [a] = []) log' = filter (\<lambda>a. sends [a] = []) (log @ fresh)"
proof -
  obtain out where out: "host_step i h = (out, h')" "log' = log @ out"
    using assms(2) by (auto split: prod.splits)
  note e = step_effect [OF assms(1,3) out(1)]
  show "host_ok h'" "h' = h1\<lparr>h_commands := h_commands h'\<rparr>"
    "filter (\<lambda>a. sends [a] = []) log' = filter (\<lambda>a. sends [a] = []) (log @ fresh)"
    using e by (auto simp: out(2))
  show "queued log' h' = queued log h @ sends fresh" using e by (simp add: queued_def out(2))
qed

definition boot :: "host_config \<Rightarrow> (bd_addr \<times> bytes) list \<Rightarrow> host" where
  "boot config keys = load_link_keys keys (host_new config)"

lemma loaded_keys:
  "tbl_ok t \<Longrightarrow> tbl_ok (fold (\<lambda>(a, k). tbl_put a k) keys t)"
  "tbl_get (fold (\<lambda>(a, k). tbl_put a k) keys t) = fold (\<lambda>(a, k) m. m(a \<mapsto> k)) keys (tbl_get t)"
  by (induction keys arbitrary: t) (auto simp: distinct_update update_conv' split: prod.splits)

lemma host_ok_boot [simp]: "host_ok (boot config keys)"
  by (simp add: host_ok_def boot_def load_link_keys_def host_new_def window_ok_def cc_new_def loaded_keys
    command_timeout_def from_secs_def)

interpretation host_inv: machine run_step "\<lambda>(h, log). host_ok h"
proof
  fix s :: "host \<times> host_action list" and i
  assume "case s of (h, log) \<Rightarrow> host_ok h"
  moreover obtain h log where "s = (h, log)" by fastforce
  moreover obtain released fresh h1 where "decide i h = (released, fresh, h1)" by (metis surj_pair)
  ultimately show "case run_step i s of (h, log) \<Rightarrow> host_ok h"
    using run_step_effect(1) by (metis case_prodE case_prodI2 prod.inject)
qed

section \<open>Links and keys\<close>

type_synonym links_and_keys = "(u16 \<Rightarrow> bd_addr option) \<times> (bd_addr \<Rightarrow> bytes option)"

text \<open>What the actor above the host learns from an action.\<close>

fun note_action :: "host_action \<Rightarrow> links_and_keys \<Rightarrow> links_and_keys" where
  "note_action (LinkUpAction hdl a) (links, keys) = (links(hdl \<mapsto> a), keys)"
| "note_action (LinkDownAction hdl _ _) (links, keys) = (links(hdl := None), keys)"
| "note_action (PairedAction a k) (links, keys) = (links, keys(a \<mapsto> k))"
| "note_action (UnpairedAction a) (links, keys) = (links, keys(a := None))"
| "note_action _ m = m"

definition host_tables :: "host \<Rightarrow> links_and_keys" where
  "host_tables h = (tbl_get (h_connections h), tbl_get (h_link_keys h))"

lemma note_action_other: "sends [a] \<noteq> [] \<Longrightarrow> note_action a = id"
  by (cases a) (auto intro!: ext)

lemma fold_note_filter: "fold note_action log m = fold note_action (filter (\<lambda>a. sends [a] = []) log) m"
  by (induction log arbitrary: m) (simp_all add: note_action_other)

lemma note_credits [simp]: "fold note_action (map (\<lambda>(hdl, n). CreditsAction hdl n) pairs) m = m"
  by (induction pairs) auto

lemma advance_tables: "advance_bring_up h = (fresh, h') \<Longrightarrow> host_tables h' = fold note_action fresh (host_tables h)"
  by (auto simp: advance_bring_up_def host_tables_def split: list.splits)

lemma note_result_tables [simp]: "host_tables (note_result op params h) = host_tables h"
  by (simp add: host_tables_def note_result_frame)

lemma handle_tables:
  assumes "handle_event ev h = (fresh, h')"
  shows "host_tables h' = fold note_action fresh (host_tables h)"
proof (cases ev)
  case (CommandComplete n op params)
  then show ?thesis using assms advance_tables [of "note_result op params h"]
    by (auto simp: on_command_complete_def Let_def split: if_splits)
next
  case (CommandStatus st n op)
  then show ?thesis using assms advance_tables by (auto split: if_splits)
qed (use assms in \<open>auto simp: host_tables_def table_simps intro!: ext split: if_splits option.splits\<close>)

lemma decide_tables:
  assumes ok: "host_ok h" and d: "decide i h = (released, fresh, h1)"
  shows "host_tables h1 = fold note_action fresh (host_tables h)"
proof (cases i)
  case (Event ev)
  obtain out h2 where o: "open_window ev h = (out, h2)" by fastforce
  have "host_tables h2 = host_tables h"
    using open_window_effect [OF ok o] by (metis host_tables_def host.select_convs(7,8) host.surjective host.update_convs(9,10))
  moreover have "handle_event ev h2 = (fresh, h1)" using d by (auto simp: Event o split: prod.splits)
  ultimately show ?thesis using handle_tables by metis
next
  case (Tick elapsed)
  obtain lost cmds c where a: "abandon_oldest (h_commands h) = ((lost, cmds), c)" by (metis surj_pair)
  have "host_tables (h\<lparr>h_unanswered_for := 0, h_commands := c\<rparr>) = host_tables h" by (simp add: host_tables_def)
  then show ?thesis using d advance_tables [of "h\<lparr>h_unanswered_for := 0, h_commands := c\<rparr>"]
    by (auto simp: Tick a Let_def host_tables_def split: if_splits prod.splits)
qed (use d in \<open>auto simp: host_tables_def\<close>)

definition tables_follow :: "links_and_keys \<Rightarrow> host \<times> host_action list \<Rightarrow> bool" where
  "tables_follow m = (\<lambda>(h, log). host_ok h \<and> host_tables h = fold note_action log m)"

interpretation tables: machine run_step "tables_follow m" for m
proof
  fix s :: "host \<times> host_action list" and i
  assume ok: "tables_follow m s"
  obtain h log h' log' where s: "s = (h, log)" "run_step i s = (h', log')" by fastforce
  obtain released fresh h1 where d: "decide i h = (released, fresh, h1)" by (metis surj_pair)
  have h: "host_ok h" "host_tables h = fold note_action log m" using ok by (auto simp: tables_follow_def s(1))
  note e = run_step_effect [OF h(1) s(2) [unfolded s(1)] d]
  have "host_tables h' = host_tables h1" by (subst e(3)) (simp add: host_tables_def)
  also have "\<dots> = fold note_action (log @ fresh) m" by (simp add: decide_tables [OF h(1) d] h(2))
  also have "\<dots> = fold note_action log' m" by (metis fold_note_filter e(4))
  finally show "tables_follow m (run_step i s)" using e(1) by (simp add: s(2) tables_follow_def)
qed

text \<open>
  C31. The actions of the host tell the actor above it all there is to know of links
  and bonds. After any sequence of events, timeouts and calls, replaying the LinkUp, LinkDown,
  Paired and Unpaired actions on the keys loaded at the start gives exactly the host's tables
  of connections and link keys, so the copy on disk never drifts from the one in memory.
\<close>

theorem host_tables_told:
  "case fold run_step inputs (boot config keys, []) of (h, log) \<Rightarrow>
     fold note_action log (Map.empty, fold (\<lambda>(a, k) m. m(a \<mapsto> k)) keys Map.empty)
       = (tbl_get (h_connections h), tbl_get (h_link_keys h))"
proof -
  have "tables_follow (Map.empty, fold (\<lambda>(a, k) m. m(a \<mapsto> k)) keys Map.empty) (boot config keys, [])"
    by (simp add: tables_follow_def host_tables_def boot_def load_link_keys_def host_new_def loaded_keys
      host_ok_boot [unfolded boot_def load_link_keys_def host_new_def, simplified])
  from tables.run_ok [OF this, of inputs] show ?thesis
    by (auto simp: tables_follow_def host_tables_def split: prod.splits)
qed

text \<open>
  Every sequence of calls keeps the host well formed: no command waits while a
  slot is free, what bring-up has left is an end of its list and nothing once it is Ready, no
  peer or handle is recorded twice, the data buffer geometry is never zero, and the watchdog
  is always strictly before its deadline.
\<close>

theorem host_invariant:
  "host_ok (fst (fold run_step inputs (boot config keys, [])))"
  using host_inv.run_ok [of "(boot config keys, [])" inputs] by (simp add: split_beta)

section \<open>Scanning starts after secure pairing\<close>

fun scan_ok :: "bool \<Rightarrow> command list \<Rightarrow> bool" where
  "scan_ok secure [] \<longleftrightarrow> True"
| "scan_ok secure (WriteScanEnable s # cmds) \<longleftrightarrow> secure \<and> scan_ok secure cmds"
| "scan_ok secure (WriteSimplePairingMode on # cmds) \<longleftrightarrow> scan_ok (secure \<or> on) cmds"
| "scan_ok secure (cmd # cmds) \<longleftrightarrow> scan_ok secure cmds"

lemma scan_ok_append:
  "scan_ok secure (xs @ ys) \<longleftrightarrow> scan_ok secure xs \<and> scan_ok (secure \<or> WriteSimplePairingMode True \<in> set xs) ys"
proof (induction secure xs rule: scan_ok.induct)
  case (3 secure on cmds)
  then show ?case by (cases on) auto
qed auto

lemma scan_ok_quiet: "(\<forall>s. WriteScanEnable s \<notin> set cmds) \<Longrightarrow> scan_ok secure cmds"
  by (induction secure cmds rule: scan_ok.induct) auto

lemma scan_ok_split: "scan_ok False (xs @ WriteScanEnable s # ys) \<Longrightarrow> WriteSimplePairingMode True \<in> set xs"
  by (simp add: scan_ok_append)

lemma bring_up_scan_last:
  "suffix (WriteScanEnable s # rest) (bring_up config) \<Longrightarrow> WriteSimplePairingMode True \<notin> set (WriteScanEnable s # rest)"
  by (auto simp: bring_up_def suffix_Cons)

text \<open>A controller's answers and silence move bring-up along its list, and nothing else scans.\<close>

fun world_step :: "event + duration \<Rightarrow> host \<times> host_action list \<Rightarrow> host \<times> host_action list" where
  "world_step (Inl ev) s = run_step (Event ev) s"
| "world_step (Inr d) s = run_step (Tick d) s"

definition moves :: "command list \<Rightarrow> command list \<Rightarrow> command list \<Rightarrow> bool" where
  "moves pending fresh pending' \<longleftrightarrow>
     (fresh @ pending' = pending \<and> length fresh \<le> 1)
     \<or> (pending' = pending \<and> (\<forall>s. WriteScanEnable s \<notin> set fresh))"

lemma advance_moves:
  "advance_bring_up h = (fresh, h') \<Longrightarrow> moves (h_pending h) (sends fresh) (h_pending h')"
  by (auto simp: advance_bring_up_def moves_def split: list.splits)

lemma handle_moves:
  assumes "handle_event ev h = (fresh, h')"
  shows "moves (h_pending h) (sends fresh) (h_pending h')"
proof (cases ev)
  case (CommandComplete n op params)
  then show ?thesis using assms advance_moves [of "note_result op params h" fresh h'] note_result_frame(4) [of op params h]
    by (cases "h_state (note_result op params h) = Initializing")
      (auto simp: on_command_complete_def moves_def)
next
  case (CommandStatus st n op)
  then show ?thesis using assms advance_moves by (auto simp: moves_def split: if_splits)
next
  case (NumberOfCompletedPackets pairs)
  have "sends (map (\<lambda>(hdl, n). CreditsAction hdl n) pairs) = []" by (induction pairs) auto
  then show ?thesis using assms by (auto simp: NumberOfCompletedPackets moves_def)
qed (use assms in \<open>auto simp: moves_def split: if_splits option.splits\<close>)

lemma decide_moves:
  assumes ok: "host_ok h" and d: "decide i h = (released, fresh, h1)" and i: "\<exists>ev e. i = Event ev \<or> i = Tick e"
  shows "moves (h_pending h) (sends fresh) (h_pending h1)"
proof (cases i)
  case (Event ev)
  obtain out h2 where o: "open_window ev h = (out, h2)" by fastforce
  have "h_pending h2 = h_pending h"
    using open_window_effect [OF ok o] by (metis host.select_convs(3) host.surjective host.update_convs(9,10))
  moreover have "handle_event ev h2 = (fresh, h1)" using d by (auto simp: Event o split: prod.splits)
  ultimately show ?thesis using handle_moves by metis
next
  case (Tick elapsed)
  obtain lost cmds c where a: "abandon_oldest (h_commands h) = ((lost, cmds), c)" by (metis surj_pair)
  show ?thesis using d advance_moves [of "h\<lparr>h_unanswered_for := 0, h_commands := c\<rparr>" fresh h1]
    by (auto simp: Tick a Let_def moves_def split: if_splits prod.splits)
qed (use i in auto)

fun secure_first :: "host \<times> host_action list \<Rightarrow> bool" where
  "secure_first (h, log) \<longleftrightarrow> host_ok h \<and> scan_ok False (queued log h)
     \<and> (WriteSimplePairingMode True \<in> set (queued log h) \<or> WriteSimplePairingMode True \<in> set (h_pending h))"

lemma run_secure:
  assumes ok: "secure_first (h, log)" and i: "\<exists>ev e. i = Event ev \<or> i = Tick e"
  shows "secure_first (run_step i (h, log))"
proof -
  obtain h' log' where s: "run_step i (h, log) = (h', log')" by fastforce
  obtain released fresh h1 where d: "decide i h = (released, fresh, h1)" by (metis surj_pair)
  have h: "host_ok h" using ok by simp
  note e = run_step_effect [OF h s d]
  have p: "h_pending h' = h_pending h1" by (subst e(3)) simp
  note m = decide_moves [OF h d i]
  show ?thesis
  proof (cases "h_pending h1 = h_pending h \<and> (\<forall>s. WriteScanEnable s \<notin> set (sends fresh))")
    case True
    then show ?thesis using ok e(1,2) p by (auto simp: s scan_ok_append simp del: sends_mem run_step.simps intro: scan_ok_quiet)
  next
    case False
    then have f: "sends fresh @ h_pending h1 = h_pending h" "length (sends fresh) \<le> 1" using m by (auto simp: moves_def)
    have "scan_ok (WriteSimplePairingMode True \<in> set (queued log h)) (sends fresh)"
    proof (cases "\<exists>s. sends fresh = [WriteScanEnable s]")
      case True
      then have "WriteSimplePairingMode True \<notin> set (h_pending h)"
        using bring_up_scan_last h f(1) by (metis append_Cons append_Nil host_ok_def)
      then show ?thesis using ok True by auto
    next
      case False
      then show ?thesis using f(2) by (intro scan_ok_quiet) (cases "sends fresh"; auto)
    qed
    moreover have "set (h_pending h) = set (sends fresh) \<union> set (h_pending h1)" using f(1) by (metis set_append)
    ultimately show ?thesis using ok e(1,2) p by (auto simp: s scan_ok_append simp del: sends_mem run_step.simps)
  qed
qed

interpretation secure: machine world_step secure_first
proof
  fix s :: "host \<times> host_action list" and i :: "event + duration"
  assume "secure_first s"
  then show "secure_first (world_step i s)"
    using run_secure by (cases s; cases i) (auto simp del: run_step.simps secure_first.simps)
qed

lemma secure_start:
  assumes "run_step Start (boot config keys, []) = (h, log)"
  shows "secure_first (h, log)"
proof -
  obtain released fresh h1 where d: "decide Start (boot config keys) = (released, fresh, h1)" by (metis surj_pair)
  note e = run_step_effect [OF host_ok_boot assms d]
  have "queued [] (boot config keys) = []" by (simp add: queued_def boot_def load_link_keys_def host_new_def cc_new_def)
  moreover have "h_pending h = bring_up (h_config (boot config keys))" using d by (subst e(3)) auto
  ultimately show ?thesis using e(1,2) d by (auto simp: bring_up_def)
qed

text \<open>
  Whatever the controller answers, refuses or ignores, the host never asks for scanning
  before it has asked for secure simple pairing: in every run from a start, a scan command that
  is sent comes after the command that enables it. A peer cannot page us in between and fall
  into the PIN pairing we refuse.
\<close>

theorem secure_pairing_before_scan:
  assumes "fold world_step inputs (run_step Start (boot config keys, [])) = (h, log)"
    and "log = before @ SendAction (WriteScanEnable s) # after"
  shows "SendAction (WriteSimplePairingMode True) \<in> set before"
proof -
  obtain h0 log0 where "run_step Start (boot config keys, []) = (h0, log0)" by fastforce
  then have "secure_first (h, log)"
    using secure.run_ok [of "(h0, log0)" inputs] secure_start assms(1) by metis
  then have "scan_ok False (sends before @ WriteScanEnable s # sends after @ cc_waiting (h_commands h))"
    by (simp add: queued_def assms(2))
  then show ?thesis using scan_ok_split by fastforce
qed

section \<open>Pairing\<close>

text \<open>
  What the host should remember, read off the events alone: a link that came up or went down, a key
  that was notified, and a failed authentication on a known link, which makes the peer's key stale.
\<close>

fun remembered :: "host_input \<Rightarrow> links_and_keys \<Rightarrow> links_and_keys" where
  "remembered (Event (ConnectionComplete st hdl a _ _)) (links, keys) =
     (if status_is_success st then links(hdl \<mapsto> a) else links, keys)"
| "remembered (Event (DisconnectionComplete _ hdl _)) (links, keys) = (links(hdl := None), keys)"
| "remembered (Event (LinkKeyNotification a k _)) (links, keys) = (links, keys(a \<mapsto> k))"
| "remembered (Event (AuthenticationComplete st hdl)) (links, keys) =
     (case links hdl of
        Some a \<Rightarrow> (links, if status_is_success st then keys else keys(a := None))
      | None \<Rightarrow> (links, keys))"
| "remembered _ m = m"

text \<open>The commands that answer a controller's questions of a pairing, with all they carry.\<close>

fun answer_to :: "host_input \<Rightarrow> links_and_keys \<Rightarrow> command list" where
  "answer_to (Event (IoCapabilityRequest a)) m = [IoCapabilityRequestReply a NoInputNoOutput GeneralBondingNoMitm]"
| "answer_to (Event (UserConfirmationRequest a _)) m = [UserConfirmationRequestReply a]"
| "answer_to (Event (LinkKeyRequest a)) m =
     (case snd m a of Some k \<Rightarrow> [LinkKeyRequestReply a k] | None \<Rightarrow> [LinkKeyRequestNegativeReply a])"
| "answer_to (Event (PinCodeRequest a)) m = [PinCodeRequestNegativeReply a]"
| "answer_to _ m = []"

fun answers_due :: "host_input list \<Rightarrow> links_and_keys \<Rightarrow> command list" where
  "answers_due [] m = []"
| "answers_due (i # is) m = answer_to i m @ answers_due is (remembered i m)"

fun is_answer :: "command \<Rightarrow> bool" where
  "is_answer (IoCapabilityRequestReply _ _ _) = True"
| "is_answer (UserConfirmationRequestReply _) = True"
| "is_answer (LinkKeyRequestReply _ _) = True"
| "is_answer (LinkKeyRequestNegativeReply _) = True"
| "is_answer (PinCodeRequestNegativeReply _) = True"
| "is_answer _ = False"

lemma bring_up_silent: "cmd \<in> set (bring_up config) \<Longrightarrow> \<not> is_answer cmd"
  by (auto simp: bring_up_def)

lemma advance_silent:
  assumes "host_ok h" "advance_bring_up h = (fresh, h')"
  shows "filter is_answer (sends fresh) = []" "host_tables h' = host_tables h"
proof -
  have "set (h_pending h) \<subseteq> set (bring_up (h_config h))" using assms(1) by (simp add: host_ok_def set_mono_suffix)
  then show "filter is_answer (sends fresh) = []"
    using assms(2) bring_up_silent by (auto simp: advance_bring_up_def split: list.splits)
  show "host_tables h' = host_tables h" using assms(2) by (auto simp: advance_bring_up_def host_tables_def split: list.splits)
qed

lemma handle_answers:
  assumes "host_ok h" "handle_event ev h = (fresh, h')"
  shows "filter is_answer (sends fresh) = answer_to (Event ev) (host_tables h)
    \<and> host_tables h' = remembered (Event ev) (host_tables h)"
proof (cases ev)
  case (CommandComplete n op params)
  then show ?thesis using assms advance_silent [of "note_result op params h"] note_result_frame(1) [OF assms(1)]
    by (auto simp: on_command_complete_def Let_def split: if_splits)
next
  case (CommandStatus st n op)
  then show ?thesis using assms advance_silent by (auto split: if_splits)
next
  case (NumberOfCompletedPackets pairs)
  have "sends (map (\<lambda>(hdl, n). CreditsAction hdl n) pairs) = []" by (induction pairs) auto
  then show ?thesis using assms by (auto simp: NumberOfCompletedPackets)
qed (use assms in \<open>auto simp: host_tables_def knows_def table_simps intro!: ext split: if_splits option.splits\<close>)

lemma decide_answers:
  assumes ok: "host_ok h" and d: "decide i h = (released, fresh, h1)"
  shows "filter is_answer (sends fresh) = answer_to i (host_tables h) \<and> host_tables h1 = remembered i (host_tables h)"
proof (cases i)
  case (Event ev)
  obtain out h2 where o: "open_window ev h = (out, h2)" by fastforce
  have "host_ok h2" using open_window_effect [OF ok o] by simp
  moreover have "host_tables h2 = host_tables h"
    using open_window_effect [OF ok o] by (metis host_tables_def host.select_convs(7,8) host.surjective host.update_convs(9,10))
  moreover have "handle_event ev h2 = (fresh, h1)" using d by (auto simp: Event o split: prod.splits)
  ultimately show ?thesis using handle_answers Event by metis
next
  case (Tick elapsed)
  have t: "host_tables (h\<lparr>h_unanswered_for := x\<rparr>) = host_tables h" "host_tables (h\<lparr>h_unanswered_for := x, h_commands := c\<rparr>) = host_tables h"
    for x c by (simp_all add: host_tables_def)
  show ?thesis
  proof (cases "cc_in_flight (h_commands h) = [] \<or> h_unanswered_for h + elapsed < command_timeout")
    case False
    obtain lost cmds c where a: "abandon_oldest (h_commands h) = ((lost, cmds), c)" by (metis surj_pair)
    let ?h = "h\<lparr>h_unanswered_for := 0, h_commands := c\<rparr>"
    have "host_ok ?h" using ok abandon_release(1) [OF _ a] False
      by (auto simp: host_ok_def command_timeout_def from_secs_def)
    then show ?thesis using advance_silent [of ?h] d False
      by (auto simp: Tick a t Let_def split: if_splits prod.splits)
  qed (use d in \<open>auto simp: Tick t split: if_splits\<close>)
qed (use d in \<open>auto simp: host_tables_def\<close>)

lemma run_answers:
  "\<lbrakk>host_ok h; fold run_step inputs (h, log) = (h', log')\<rbrakk>
    \<Longrightarrow> filter is_answer (queued log' h') = filter is_answer (queued log h) @ answers_due inputs (host_tables h)"
proof (induction inputs arbitrary: h log)
  case (Cons i inputs)
  obtain h2 log2 where s: "run_step i (h, log) = (h2, log2)" by fastforce
  obtain released fresh h1 where d: "decide i h = (released, fresh, h1)" by (metis surj_pair)
  note e = run_step_effect [OF Cons.prems(1) s d]
  have "host_tables h2 = host_tables h1" by (subst e(3)) (simp add: host_tables_def)
  then show ?case using Cons.IH [OF e(1)] Cons.prems(2) e(2) decide_answers [OF Cons.prems(1) d]
    by (simp add: s del: run_step.simps)
qed simp

text \<open>
  C32. Through any windows, timeouts and other traffic, the pairing answers the host has sent, followed by those
  still waiting for the controller's command window, are exactly the answers its events call for, one for
  each request and in the order of the requests: to a request of capabilities, no input and no output with
  general bonding; to a confirmation, an acceptance; to a PIN, a refusal; to a request of a
  key, the key last loaded or notified for that peer, and a negative answer when there is none or when an authentication has failed
  since on one of the peer's links.
\<close>

theorem pairing_answered_once_in_order:
  "case fold run_step inputs (boot config keys, []) of (h, log) \<Rightarrow>
     filter is_answer (sends log @ cc_waiting (h_commands h))
       = answers_due inputs (Map.empty, fold (\<lambda>(a, k) m. m(a \<mapsto> k)) keys Map.empty)"
proof -
  have "queued [] (boot config keys) = []"
    "host_tables (boot config keys) = (Map.empty, fold (\<lambda>(a, k) m. m(a \<mapsto> k)) keys Map.empty)"
    by (simp_all add: queued_def boot_def load_link_keys_def host_new_def cc_new_def host_tables_def loaded_keys)
  then show ?thesis using run_answers [OF host_ok_boot, of inputs config keys "[]"]
    by (simp add: queued_def split: prod.splits)
qed

section \<open>Link keys are told to their owner only\<close>

text \<open>The bonds a run starts with and the ones it makes.\<close>

fun bonds :: "host_input \<Rightarrow> (bd_addr \<times> bytes) set" where
  "bonds (Event (LinkKeyNotification a k _)) = {(a, k)}"
| "bonds _ = {}"

definition keys_sent :: "command list \<Rightarrow> (bd_addr \<times> bytes) set" where
  "keys_sent cmds = {(a, k). LinkKeyRequestReply a k \<in> set cmds}"

lemma keys_sent_append [simp]: "keys_sent (xs @ ys) = keys_sent xs \<union> keys_sent ys"
  by (auto simp: keys_sent_def)

lemma advance_keys:
  assumes "host_ok h" "advance_bring_up h = (fresh, h')"
  shows "keys_sent (sends fresh) = {} \<and> h_link_keys h' = h_link_keys h"
proof -
  have "set (h_pending h) \<subseteq> set (bring_up (h_config h))" using assms(1) by (simp add: host_ok_def set_mono_suffix)
  then show ?thesis using assms(2) bring_up_silent
    by (fastforce simp: advance_bring_up_def keys_sent_def split: list.splits)
qed

lemma handle_keys:
  assumes "host_ok h" "handle_event ev h = (fresh, h')"
  shows "keys_sent (sends fresh) \<subseteq> set (h_link_keys h) \<and> set (h_link_keys h') \<subseteq> set (h_link_keys h) \<union> bonds (Event ev)"
proof (cases ev)
  case (CommandComplete n op params)
  then show ?thesis using assms advance_keys [of "note_result op params h"] note_result_frame(1) [OF assms(1)] note_result_frame(5) [of op params h]
    by (auto simp: on_command_complete_def Let_def keys_sent_def split: if_splits)
next
  case (CommandStatus st n op)
  then show ?thesis using assms advance_keys by (auto simp: keys_sent_def split: if_splits)
next
  case (NumberOfCompletedPackets pairs)
  have "sends (map (\<lambda>(hdl, n). CreditsAction hdl n) pairs) = []" by (induction pairs) auto
  then show ?thesis using assms by (auto simp: NumberOfCompletedPackets keys_sent_def)
next
  case (LinkKeyNotification a k t)
  have "set (tbl_put a k (h_link_keys h)) \<subseteq> insert (a, k) (set (h_link_keys h))"
    by (rule tbl_put_subset)
  then show ?thesis using assms by (auto simp: LinkKeyNotification keys_sent_def)
qed (use assms in \<open>auto simp: keys_sent_def AList.delete_eq dest: map_of_SomeD split: if_splits option.splits\<close>)

lemma decide_keys:
  assumes ok: "host_ok h" and d: "decide i h = (released, fresh, h1)"
  shows "keys_sent (sends fresh) \<subseteq> set (h_link_keys h) \<and> set (h_link_keys h1) \<subseteq> set (h_link_keys h) \<union> bonds i"
proof (cases i)
  case (Event ev)
  obtain out h2 where o: "open_window ev h = (out, h2)" by fastforce
  note e = open_window_effect [OF ok o]
  have "h_link_keys h2 = h_link_keys h"
    using e by (metis host.select_convs(7) host.surjective host.update_convs(9,10))
  moreover have "handle_event ev h2 = (fresh, h1)" using d by (auto simp: Event o split: prod.splits)
  ultimately show ?thesis using handle_keys [of h2 ev fresh h1] e Event by auto
next
  case (Tick elapsed)
  show ?thesis
  proof (cases "cc_in_flight (h_commands h) = [] \<or> h_unanswered_for h + elapsed < command_timeout")
    case False
    obtain lost cmds c where a: "abandon_oldest (h_commands h) = ((lost, cmds), c)" by (metis surj_pair)
    let ?h = "h\<lparr>h_unanswered_for := 0, h_commands := c\<rparr>"
    have "host_ok ?h" using ok abandon_release(1) [OF _ a] False
      by (auto simp: host_ok_def command_timeout_def from_secs_def)
    then show ?thesis using advance_keys [of ?h fresh h1] d False
      by (auto simp: Tick a Let_def keys_sent_def split: if_splits prod.splits)
  qed (use d in \<open>auto simp: Tick keys_sent_def split: if_splits\<close>)
qed (use d in \<open>auto simp: keys_sent_def\<close>)

lemma run_keys:
  "\<lbrakk>host_ok h; fold run_step inputs (h, log) = (h', log')\<rbrakk>
    \<Longrightarrow> keys_sent (queued log' h') \<subseteq> keys_sent (queued log h) \<union> set (h_link_keys h) \<union> (\<Union>i\<in>set inputs. bonds i)"
proof (induction inputs arbitrary: h log)
  case (Cons i inputs)
  obtain h2 log2 where s: "run_step i (h, log) = (h2, log2)" by fastforce
  obtain released fresh h1 where d: "decide i h = (released, fresh, h1)" by (metis surj_pair)
  note e = run_step_effect [OF Cons.prems(1) s d]
  have "h_link_keys h2 = h_link_keys h1" by (subst e(3)) simp
  moreover have "keys_sent (queued log' h') \<subseteq> keys_sent (queued log2 h2) \<union> set (h_link_keys h2) \<union> (\<Union>i\<in>set inputs. bonds i)"
    using Cons.IH [OF e(1)] Cons.prems(2) by (simp add: s del: run_step.simps)
  ultimately show ?case using e(2) decide_keys [OF Cons.prems(1) d] by auto
qed auto

lemma loaded_subset: "set (fold (\<lambda>(a, k). tbl_put a k) keys t) \<subseteq> set keys \<union> set t"
proof (induction keys arbitrary: t)
  case (Cons ak keys)
  then show ?case using tbl_put_subset [of "fst ak" "snd ak" t] by (fastforce simp: split_beta)
qed simp

text \<open>
  A link key is only ever sent for the peer it belongs to: every key in a reply
  is one that was loaded for that address or notified for it during the run.
\<close>

theorem keys_told_to_owner:
  "case fold run_step inputs (boot config keys, []) of (h, log) \<Rightarrow>
     keys_sent (sends log) \<subseteq> set keys \<union> (\<Union>i\<in>set inputs. bonds i)"
proof -
  have "queued [] (boot config keys) = []" "set (h_link_keys (boot config keys)) \<subseteq> set keys"
    using loaded_subset [of keys "[]"]
    by (auto simp: queued_def boot_def load_link_keys_def host_new_def cc_new_def)
  then show ?thesis using run_keys [OF host_ok_boot, of inputs config keys "[]"]
    by (fastforce simp: queued_def keys_sent_def split: prod.splits)
qed

text \<open>
  After an authentication fails on a link to a peer, no further key is sent
  for that peer until it has paired again, whatever else happens: what could still go out is a
  reply that was already waiting for a slot.
\<close>

theorem stale_key_forgotten:
  assumes ok: "host_ok h" and link: "tbl_get (h_connections h) hdl = Some a" and st: "\<not> status_is_success st"
    and unpaired: "\<forall>i\<in>set inputs. \<forall>k. (a, k) \<notin> bonds i"
    and run: "fold run_step (Event (AuthenticationComplete st hdl) # inputs) (h, []) = (h', log)"
  shows "keys_sent (sends log) \<inter> {a} \<times> UNIV \<subseteq> keys_sent (cc_waiting (h_commands h))"
proof -
  let ?i = "Event (AuthenticationComplete st hdl)"
  obtain h2 log2 where s: "run_step ?i (h, []) = (h2, log2)" by fastforce
  obtain released fresh h1 where d: "decide ?i h = (released, fresh, h1)" by (metis surj_pair)
  note e = run_step_effect [OF ok s d]
  have f: "sends fresh = []" "(a, k) \<notin> set (h_link_keys h1)" for k
    using d st link by (auto simp: knows_def AList.delete_eq map_of_eq_None_iff rev_image_eqI split: if_splits)
  have "h_link_keys h2 = h_link_keys h1" by (subst e(3)) simp
  then have "keys_sent (queued log h') \<inter> {a} \<times> UNIV \<subseteq> keys_sent (queued log2 h2)"
    using run_keys [OF e(1), of inputs log2 h' log] run f(2) unpaired by (auto simp: s simp del: run_step.simps)
  moreover have "queued log2 h2 = cc_waiting (h_commands h)" using e(2) f(1) by (simp add: queued_def)
  ultimately have "keys_sent (queued log h') \<inter> {a} \<times> UNIV \<subseteq> keys_sent (cc_waiting (h_commands h))"
    by (simp only:)
  then show ?thesis by (simp add: queued_def Int_Un_distrib2)
qed

section \<open>Bring-up ends\<close>

lemma pace_single_flight:
  assumes "window_ok (h_commands h)" "pace [SendAction cmd] h = (out, h')"
    "cc_in_flight (h_commands h) \<noteq> [] \<or> 0 < cc_available (h_commands h)"
  shows "cc_in_flight (h_commands h') \<noteq> []"
  using submit_window(3) [OF assms(1)] assms(2,3) by (auto split: prod.splits)

text \<open>A timeout during bring-up.\<close>

lemma timeout_advances:
  assumes ok: "host_ok h" and st: "h_state h = Initializing" and fl: "cc_in_flight (h_commands h) \<noteq> []"
    and d: "command_timeout \<le> d" and s: "run_step (Tick d) (h, log) = (h', log')"
  shows "host_ok h'" "queued log' h' @ h_pending h' = queued log h @ h_pending h"
    "h_pending h = [] \<Longrightarrow> h_state h' = Ready \<and> h_pending h' = []
       \<and> ReadyAction (h_address h) (h_acl_credits h) (h_acl_mtu h) \<in> set log'"
    "h_pending h \<noteq> [] \<Longrightarrow> h_state h' = Initializing \<and> length (h_pending h) = Suc (length (h_pending h'))
       \<and> cc_in_flight (h_commands h') \<noteq> []"
    "h_address h' = h_address h \<and> h_acl_credits h' = h_acl_credits h \<and> h_acl_mtu h' = h_acl_mtu h"
proof -
  obtain lost cmds c where a: "abandon_oldest (h_commands h) = ((lost, cmds), c)" by (metis surj_pair)
  let ?h = "h\<lparr>h_unanswered_for := 0, h_commands := c\<rparr>"
  obtain fresh h1 where adv: "advance_bring_up ?h = (fresh, h1)" by fastforce
  have late: "\<not> h_unanswered_for h + d < command_timeout" using d by simp
  have dec: "decide (Tick d) h = (cmds, fresh, h1)" using fl st adv late by (simp add: a Let_def)
  note e = run_step_effect [OF ok s dec]
  note w = abandon_release [OF fl a]
  have "host_ok ?h" using ok w(1) by (auto simp: host_ok_def command_timeout_def from_secs_def)
  note v = advance_effect [OF this _ adv, simplified, OF st]
  have h': "h_state h' = h_state h1" "h_pending h' = h_pending h1" "h_address h' = h_address h1"
    "h_acl_credits h' = h_acl_credits h1" "h_acl_mtu h' = h_acl_mtu h1" by (subst e(3), simp)+
  show "host_ok h'" by (rule e(1))
  show "queued log' h' @ h_pending h' = queued log h @ h_pending h" using e(2) v(3) h'(2) by simp
  show "h_address h' = h_address h \<and> h_acl_credits h' = h_acl_credits h \<and> h_acl_mtu h' = h_acl_mtu h"
    unfolding h' by (subst (1 2 3) v(4)) simp
  show "h_state h' = Ready \<and> h_pending h' = [] \<and> ReadyAction (h_address h) (h_acl_credits h) (h_acl_mtu h) \<in> set log'"
    if "h_pending h = []"
  proof -
    have "fresh = [ReadyAction (h_address h) (h_acl_credits h) (h_acl_mtu h)]" using v(5) that by simp
    then have "ReadyAction (h_address h) (h_acl_credits h) (h_acl_mtu h) \<in> set (filter (\<lambda>a. sends [a] = []) log')"
      unfolding e(4) by simp
    then show ?thesis using v(3,5) that h' by simp
  qed
  show "h_state h' = Initializing \<and> length (h_pending h) = Suc (length (h_pending h')) \<and> cc_in_flight (h_commands h') \<noteq> []"
    if "h_pending h \<noteq> []"
  proof -
    have f: "fresh = [SendAction (hd (h_pending h))]" "h_commands h1 = c" using v(2,6) that by simp_all
    obtain paced h2 where p: "pace fresh h1 = (paced, h2)" by fastforce
    have "h' = h2" using s by (auto simp: step_decide dec p simp del: decide.simps host_step.simps)
    then have "cc_in_flight (h_commands h') \<noteq> []"
      using pace_single_flight [OF _ p [unfolded f(1)]] w(1,3) f(2) by simp
    then show ?thesis using v(6) that h' by simp
  qed
qed

lemma silence_run:
  "\<lbrakk>host_ok h; h_state h = Initializing; cc_in_flight (h_commands h) \<noteq> []; \<forall>d\<in>set ds. command_timeout \<le> d;
    length ds = Suc (length (h_pending h)); fold run_step (map Tick ds) (h, log) = (h', log')\<rbrakk>
    \<Longrightarrow> h_state h' = Ready \<and> queued log' h' = queued log h @ h_pending h
      \<and> ReadyAction (h_address h) (h_acl_credits h) (h_acl_mtu h) \<in> set log'"
proof (induction ds arbitrary: h log)
  case (Cons d ds)
  obtain h1 log1 where s: "run_step (Tick d) (h, log) = (h1, log1)" by fastforce
  have d: "command_timeout \<le> d" using Cons.prems(4) by simp
  note t = timeout_advances [OF Cons.prems(1-3) d s]
  show ?case
  proof (cases "h_pending h = []")
    case True
    then show ?thesis using Cons.prems(5,6) t(2,3) by (auto simp: s simp del: run_step.simps)
  next
    case False
    then show ?thesis using Cons.IH [of h1 log1] Cons.prems(4-6) t
      by (auto simp: s simp del: run_step.simps)
  qed
qed simp

text \<open>
  C30. Bring-up ends under a controller that stops answering. From any
  well-formed host in bring-up with a command in flight, one timeout for each command left and one more
  make it Ready, and every command left was asked for in order.
\<close>

theorem silent_controller_brought_up:
  assumes "host_ok h" "h_state h = Initializing" "cc_in_flight (h_commands h) \<noteq> []"
    and "\<forall>d\<in>set ds. command_timeout \<le> d" "length ds = Suc (length (h_pending h))"
    and "fold run_step (map Tick ds) (h, []) = (h', log)"
  shows "h_state h' = Ready \<and> sends log @ cc_waiting (h_commands h') = cc_waiting (h_commands h) @ h_pending h
    \<and> ReadyAction (h_address h) (h_acl_credits h) (h_acl_mtu h) \<in> set log"
  using silence_run [OF assms] by (simp add: queued_def)

section \<open>A window of zero ends it\<close>

lemma stuck_tick: "stuck (h_commands h) \<Longrightarrow> host_tick d h = ([], h\<lparr>h_unanswered_for := 0\<rparr>)"
  by (simp add: host_tick_def stuck_def)

text \<open>
  The watchdog does not cover a controller that answers Reset with a
  window of zero and then falls silent: nothing is in flight, so no timer is armed, no timeout does
  anything, and the host stays in bring-up with its next command waiting for ever.
\<close>

theorem zero_window_stops_bring_up:
  "case fold run_step (Start # Event (CommandComplete 0 (command_opcode Reset) params) # map Tick ds) (boot config keys, [])
   of (h, log) \<Rightarrow> log = [SendAction Reset] \<and> h_state h = Initializing \<and> host_next_timeout h = None
     \<and> cc_waiting (h_commands h) = [ReadLocalVersion]"
proof -
  obtain h log where s: "fold run_step [Start, Event (CommandComplete 0 (command_opcode Reset) params)] (boot config keys, []) = (h, log)"
    by fastforce
  have "h_commands (boot config keys) = cc_new" "h_config (boot config keys) = config"
    by (simp_all add: boot_def load_link_keys_def host_new_def)
  then have h: "log = [SendAction Reset]" "stuck (h_commands h)" "h_state h = Initializing"
    "cc_waiting (h_commands h) = [ReadLocalVersion]"
    using s by (auto simp: host_start_def on_event_def on_command_complete_def note_result_def submit_def cc_new_def
      answered_def release_eq advance_bring_up_def bring_up_def stuck_def)
  have "fold run_step (map Tick ds) (h, log) = (h\<lparr>h_unanswered_for := if ds = [] then h_unanswered_for h else 0\<rparr>, log)"
    using h(2) by (induction ds arbitrary: h) (auto simp: stuck_tick)
  then show ?thesis using s h by (auto simp: host_next_timeout_def stuck_def simp del: run_step.simps)
qed

theorem failed_disconnection_drops_link:
  "on_event (DisconnectionComplete status hdl reason) h =
     ([LinkDownAction hdl (case tbl_get (h_connections h) hdl of Some a \<Rightarrow> a | None \<Rightarrow> addr_zero) reason],
      h\<lparr>h_connections := tbl_del hdl (h_connections h)\<rparr>)"
  by (simp add: on_event_def)

section \<open>Witnesses\<close>

definition sample_config :: host_config where
  "sample_config = \<lparr>hc_name = [0x62, 0x6F, 0x78], hc_class_of_device = 0x240414, hc_discoverable = True\<rparr>"

lemma secure_pairing_before_scan_witness:
  "\<exists>h log before s after.
     fold world_step (map (\<lambda>op. Inl (CommandComplete 1 op [])) (map command_opcode (Reset # butlast (bring_up sample_config))))
       (run_step Start (boot sample_config [], [])) = (h, log)
     \<and> log = before @ SendAction (WriteScanEnable s) # after
     \<and> SendAction (WriteSimplePairingMode True) \<in> set before"
proof -
  let ?inputs = "map (\<lambda>op. Inl (CommandComplete 1 op [])) (map command_opcode (Reset # butlast (bring_up sample_config))) :: (event + duration) list"
  obtain h log where run: "fold world_step ?inputs (run_step Start (boot sample_config [], [])) = (h, log)"
    by fastforce
  have "SendAction (WriteScanEnable DiscoverableAndConnectable)
      \<in> set (snd (fold world_step ?inputs (run_step Start (boot sample_config [], []))))"
    by code_simp
  then obtain before after where "log = before @ SendAction (WriteScanEnable DiscoverableAndConnectable) # after"
    unfolding run by (metis snd_conv split_list)
  then show ?thesis using secure_pairing_before_scan [OF run] run by blast
qed

lemma stale_key_forgotten_witness:
  "\<exists>h. fold run_step [Event (AuthenticationComplete 0x06 42), Event (LinkKeyRequest [1, 2, 3, 4, 5, 6])]
      ((boot sample_config [([1, 2, 3, 4, 5, 6], replicate 16 7)])\<lparr>h_connections := [(42, [1, 2, 3, 4, 5, 6])]\<rparr>, [])
     = (h, [UnpairedAction [1, 2, 3, 4, 5, 6], SendAction (LinkKeyRequestNegativeReply [1, 2, 3, 4, 5, 6])])
   \<and> keys_sent (sends [UnpairedAction [1, 2, 3, 4, 5, 6], SendAction (LinkKeyRequestNegativeReply [1, 2, 3, 4, 5, 6])])
       \<inter> {[1, 2, 3, 4, 5, 6]} \<times> UNIV \<subseteq> keys_sent []"
proof -
  let ?a = "[1, 2, 3, 4, 5, 6] :: bd_addr"
  let ?h = "(boot sample_config [(?a, replicate 16 7)])\<lparr>h_connections := [(42, ?a)]\<rparr>"
  obtain h log where run: "fold run_step [Event (AuthenticationComplete 0x06 42), Event (LinkKeyRequest ?a)] (?h, []) = (h, log)"
    by fastforce
  have "snd (fold run_step [Event (AuthenticationComplete 0x06 42), Event (LinkKeyRequest ?a)] (?h, []))
      = [UnpairedAction ?a, SendAction (LinkKeyRequestNegativeReply ?a)]"
    by code_simp
  then have log: "log = [UnpairedAction ?a, SendAction (LinkKeyRequestNegativeReply ?a)]" by (simp only: run snd_conv)
  have w: "cc_waiting (h_commands ?h) = []" by (simp add: boot_def load_link_keys_def host_new_def cc_new_def)
  have "host_ok ?h" using host_ok_boot [of sample_config "[(?a, replicate 16 7)]"] by (simp add: host_ok_def)
  then have "keys_sent (sends log) \<inter> {?a} \<times> UNIV \<subseteq> keys_sent (cc_waiting (h_commands ?h))"
    by (rule stale_key_forgotten [OF _ _ _ _ run]) (simp_all add: status_is_success_def)
  then show ?thesis using run unfolding log w by blast
qed

lemma silent_controller_brought_up_witness:
  "\<exists>h log. fold run_step (map Tick (replicate 13 command_timeout)) (snd (host_start (boot sample_config [])), []) = (h, log)
     \<and> h_state h = Ready \<and> sends log @ cc_waiting (h_commands h) = bring_up sample_config
     \<and> ReadyAction addr_zero 1 339 \<in> set log"
proof -
  let ?h = "snd (host_start (boot sample_config []))"
  obtain h log where run: "fold run_step (map Tick (replicate 13 command_timeout)) (?h, []) = (h, log)" by fastforce
  have "run_step Start (boot sample_config [], []) = (?h, fst (host_start (boot sample_config [])))"
    by (simp add: split_beta)
  from run_step_effect(1) [OF host_ok_boot this, of "fst (decide Start (boot sample_config []))" "fst (snd (decide Start (boot sample_config [])))"]
  have "host_ok ?h" by simp
  moreover have "h_state ?h = Initializing" "cc_in_flight (h_commands ?h) \<noteq> []" "h_pending ?h = bring_up sample_config"
    "cc_waiting (h_commands ?h) = []" "h_address ?h = addr_zero" "h_acl_credits ?h = 1" "h_acl_mtu ?h = 339"
    by (simp_all add: host_start_def boot_def load_link_keys_def host_new_def cc_new_def submit_def)
  moreover have "length (replicate 13 command_timeout) = Suc (length (bring_up sample_config))"
    by (simp add: bring_up_def)
  ultimately show ?thesis
    using silent_controller_brought_up [OF _ _ _ _ _ run] run by simp
qed

end
