(* ===== verification/Avrcp.thy ===== *)
theory Avrcp
  imports A2dp_Codec Session
begin

text \<open>
  \<^verbatim>\<open>crates/proto-bluetooth-audio/src/avctp.rs\<close> and \<^verbatim>\<open>avrcp.rs\<close>: the transport of remote control, the
  AV/C frame in it, track metadata, player settings and passthrough keys; the control handle of
  \<^verbatim>\<open>control.rs\<close> and the reassembly of fragmented responses in \<^verbatim>\<open>adapter.rs\<close>. Not modelled: the
  two conversions between a volume and a \<^verbatim>\<open>f32\<close>.
\<close>

section \<open>AVCTP messages\<close>

definition pid_avrcp :: u16 where "pid_avrcp = 0x110E"

datatype command_response = CommandMsg | ResponseMsg

record avctp_message =
  av_transaction :: u8
  av_cr :: command_response
  av_pid :: u16
  av_body :: bytes

definition avctp_command :: "u8 \<Rightarrow> bytes \<Rightarrow> avctp_message" where
  "avctp_command transaction body =
     \<lparr>av_transaction = transaction, av_cr = CommandMsg, av_pid = pid_avrcp, av_body = body\<rparr>"

definition avctp_response :: "avctp_message \<Rightarrow> bytes \<Rightarrow> avctp_message" where
  "avctp_response command body =
     \<lparr>av_transaction = av_transaction command, av_cr = ResponseMsg, av_pid = av_pid command, av_body = body\<rparr>"

definition avctp_encode :: "avctp_message \<Rightarrow> bytes" where
  "avctp_encode m =
     (let cr = (if av_cr m = ResponseMsg then 1 else 0) in
      (push_bit 4 (av_transaction m) OR push_bit 1 cr) # be16 (av_pid m) @ av_body m)"

definition avctp_decode :: "bytes \<Rightarrow> audio_error + avctp_message" where
  "avctp_decode buf =
     (if length buf < 3 then Inl (AudioTruncated ''avctp header'' 3 (length buf))
      else if drop_bit 2 (buf ! 0) AND 0b11 \<noteq> 0 then Inl (BadMediaPacket ''fragmented AVCTP is not supported'')
      else if buf ! 0 AND 0x01 \<noteq> 0 then Inl (BadMediaPacket ''peer rejected the profile id'')
      else Inr \<lparr>av_transaction = drop_bit 4 (buf ! 0),
                av_cr = (if buf ! 0 AND 0b10 = 0 then CommandMsg else ResponseMsg),
                av_pid = from_be16 (buf ! 1) (buf ! 2),
                av_body = drop 3 buf\<rparr>)"

section \<open>AV/C frames\<close>

datatype ctype =
    CtControl | CtStatus | CtNotify | CtNotImplemented | CtAccepted | CtRejected | CtStable
  | CtInterim | CtChanged | CtOther u8

fun ctype_bits :: "ctype \<Rightarrow> u8" where
  "ctype_bits CtControl = 0x0"
| "ctype_bits CtStatus = 0x1"
| "ctype_bits CtNotify = 0x3"
| "ctype_bits CtNotImplemented = 0x8"
| "ctype_bits CtAccepted = 0x9"
| "ctype_bits CtRejected = 0xA"
| "ctype_bits CtStable = 0xC"
| "ctype_bits CtChanged = 0xD"
| "ctype_bits CtInterim = 0xF"
| "ctype_bits (CtOther raw) = raw AND 0x0F"

definition ctype_from_bits :: "u8 \<Rightarrow> ctype" where
  "ctype_from_bits bits =
     (let b = bits AND 0x0F in
      if b = 0x0 then CtControl else if b = 0x1 then CtStatus else if b = 0x3 then CtNotify
      else if b = 0x8 then CtNotImplemented else if b = 0x9 then CtAccepted
      else if b = 0xA then CtRejected else if b = 0xC then CtStable else if b = 0xD then CtChanged
      else if b = 0xF then CtInterim else CtOther b)"

definition ctype_is_failure :: "ctype \<Rightarrow> bool" where
  "ctype_is_failure c \<longleftrightarrow> c \<in> {CtRejected, CtNotImplemented}"

definition ctype_is_response :: "ctype \<Rightarrow> bool" where
  "ctype_is_response c \<longleftrightarrow> 0x8 \<le> ctype_bits c"

definition op_vendor_dependent :: u8 where "op_vendor_dependent = 0x00"
definition op_unit_info :: u8 where "op_unit_info = 0x30"
definition op_subunit_info :: u8 where "op_subunit_info = 0x31"
definition op_pass_through :: u8 where "op_pass_through = 0x7C"
definition subunit_panel :: u8 where "subunit_panel = 0x09"

record avc_frame =
  af_ctype :: ctype
  af_opcode :: u8
  af_operands :: bytes

definition avc_panel :: "ctype \<Rightarrow> u8 \<Rightarrow> bytes \<Rightarrow> avc_frame" where
  "avc_panel c op operands = \<lparr>af_ctype = c, af_opcode = op, af_operands = operands\<rparr>"

definition avc_encode :: "avc_frame \<Rightarrow> bytes" where
  "avc_encode f = [ctype_bits (af_ctype f), push_bit 3 subunit_panel, af_opcode f] @ af_operands f"

definition avc_decode :: "bytes \<Rightarrow> audio_error + avc_frame" where
  "avc_decode buf =
     (if length buf < 3 then Inl (AudioTruncated ''av/c frame'' 3 (length buf))
      else Inr \<lparr>af_ctype = ctype_from_bits (buf ! 0), af_opcode = buf ! 2, af_operands = drop 3 buf\<rparr>)"

section \<open>Passthrough keys\<close>

definition key_play :: u8 where "key_play = 0x44"
definition key_stop :: u8 where "key_stop = 0x45"
definition key_pause :: u8 where "key_pause = 0x46"
definition key_forward :: u8 where "key_forward = 0x4B"
definition key_backward :: u8 where "key_backward = 0x4C"
definition key_mute :: u8 where "key_mute = 0x43"

fun operation_for :: "'m control_txn \<Rightarrow> u8 option" where
  "operation_for TxnPlay = Some key_play"
| "operation_for TxnPause = Some key_pause"
| "operation_for TxnStop = Some key_stop"
| "operation_for TxnNext = Some key_forward"
| "operation_for TxnPrevious = Some key_backward"
| "operation_for (TxnMute _) = Some key_mute"
| "operation_for _ = None"

text \<open>The sets of \<^verbatim>\<open>ControlCapabilities\<close> that the profile names.\<close>

definition cap_transport :: capabilities where
  "cap_transport = push_bit 0 1 OR push_bit 1 1 OR push_bit 6 1 OR push_bit 7 1"

definition cap_stop :: capabilities where "cap_stop = push_bit 2 1"
definition cap_mute :: capabilities where "cap_mute = push_bit 5 1"
definition cap_shuffle :: capabilities where "cap_shuffle = push_bit 9 1"
definition cap_repeat :: capabilities where "cap_repeat = push_bit 10 1"

definition capabilities_for_passthrough :: capabilities where
  "capabilities_for_passthrough = cap_or (cap_or cap_transport cap_stop) cap_mute"

definition category_1_player :: u16 where "category_1_player = 0x0001"
definition category_2_amplifier :: u16 where "category_2_amplifier = 0x0002"

definition capabilities_from_features :: "u16 option \<Rightarrow> capabilities" where
  "capabilities_from_features features =
     (case features of
        None \<Rightarrow> capabilities_for_passthrough
      | Some f \<Rightarrow>
          let caps = cap_none;
              caps = (if f AND category_1_player \<noteq> 0 then cap_or caps (cap_or cap_transport cap_stop) else caps)
          in if f AND category_2_amplifier \<noteq> 0 then cap_or caps cap_mute else caps)"

definition release_bit :: u8 where "release_bit = 0x80"

definition passthrough_frame :: "u8 \<Rightarrow> avc_frame" where
  "passthrough_frame op = avc_panel CtControl op_pass_through [op, 0x00]"

definition passthrough :: "u8 \<Rightarrow> avc_frame list" where
  "passthrough operation = [passthrough_frame operation, passthrough_frame (operation OR release_bit)]"

section \<open>Vendor-dependent PDUs\<close>

definition company_id :: bytes where "company_id = [0x00, 0x19, 0x58]"

definition pdu_get_capabilities :: u8 where "pdu_get_capabilities = 0x10"
definition pdu_list_setting_attributes :: u8 where "pdu_list_setting_attributes = 0x11"
definition pdu_list_setting_values :: u8 where "pdu_list_setting_values = 0x12"
definition pdu_get_current_settings :: u8 where "pdu_get_current_settings = 0x13"
definition pdu_set_setting_value :: u8 where "pdu_set_setting_value = 0x14"
definition pdu_get_element_attributes :: u8 where "pdu_get_element_attributes = 0x20"
definition pdu_get_play_status :: u8 where "pdu_get_play_status = 0x30"
definition pdu_register_notification :: u8 where "pdu_register_notification = 0x31"
definition pdu_request_continuing :: u8 where "pdu_request_continuing = 0x40"
definition pdu_abort_continuing :: u8 where "pdu_abort_continuing = 0x41"

definition event_volume_changed :: u8 where "event_volume_changed = 0x0D"

definition vendor_command :: "ctype \<Rightarrow> u8 \<Rightarrow> bytes \<Rightarrow> avc_frame" where
  "vendor_command c pdu_id parameters =
     avc_panel c op_vendor_dependent
       (company_id @ [pdu_id, 0x00] @ be16 (u16_or_max (length parameters)) @ parameters)"

definition unit_info :: avc_frame where
  "unit_info = avc_panel CtStable op_unit_info ([0x07, push_bit 3 0x09] @ company_id)"

definition subunit_info :: avc_frame where
  "subunit_info = avc_panel CtStable op_subunit_info [0x07, push_bit 3 0x09, 0xFF, 0xFF, 0xFF]"

definition supported_events :: bytes where "supported_events = [event_volume_changed]"

definition capabilities_response :: "bytes \<Rightarrow> bytes" where
  "capabilities_response parameters =
     (case parameters of
        [] \<Rightarrow> [0, 0]
      | cap # _ \<Rightarrow>
          if cap = 0x02 then [0x02, 1] @ company_id
          else if cap = 0x03
          then [0x03, (if length supported_events < 256 then of_nat (length supported_events) else 0)] @ supported_events
          else [cap, 0])"

datatype packet_type = SinglePacket | StartPacket | ContinuePacket | EndPacket

definition packet_type_from_bits :: "u8 \<Rightarrow> packet_type" where
  "packet_type_from_bits bits =
     (let b = bits AND 0b11 in
      if b = 1 then StartPacket else if b = 2 then ContinuePacket else if b = 3 then EndPacket else SinglePacket)"

definition expects_more :: "packet_type \<Rightarrow> bool" where
  "expects_more p \<longleftrightarrow> p \<in> {StartPacket, ContinuePacket}"

record vendor_pdu =
  vp_pdu_id :: u8
  vp_packet_type :: packet_type
  vp_parameters :: bytes

definition vendor_parse :: "bytes \<Rightarrow> audio_error + vendor_pdu" where
  "vendor_parse operands =
     (if length operands < 7 then Inl (AudioTruncated ''avrcp vendor pdu header'' 7 (length operands))
      else let len = unat (from_be16 (operands ! 5) (operands ! 6)) in
        if length operands < 7 + len
        then Inl (AudioTruncated ''avrcp vendor pdu parameters'' (7 + len) (length operands))
        else Inr \<lparr>vp_pdu_id = operands ! 3, vp_packet_type = packet_type_from_bits (operands ! 4),
                  vp_parameters = take len (drop 7 operands)\<rparr>)"

definition request_continuing :: "u8 \<Rightarrow> avc_frame" where
  "request_continuing pdu_id = vendor_command CtControl pdu_request_continuing [pdu_id]"

definition abort_continuing :: "u8 \<Rightarrow> avc_frame" where
  "abort_continuing pdu_id = vendor_command CtControl pdu_abort_continuing [pdu_id]"

definition register_notification :: "u8 \<Rightarrow> u32 \<Rightarrow> avc_frame" where
  "register_notification event_id interval_secs =
     vendor_command CtNotify pdu_register_notification (event_id # be32 interval_secs)"

definition volume_changed_response :: "ctype \<Rightarrow> u8 \<Rightarrow> avc_frame" where
  "volume_changed_response c volume =
     vendor_command c pdu_register_notification [event_volume_changed, volume AND 0x7F]"

definition get_play_status :: avc_frame where
  "get_play_status = vendor_command CtStatus pdu_get_play_status []"

section \<open>Track metadata\<close>

datatype playback_state = Stopped | Playing | Paused | SeekingForward | SeekingBackward | PlaybackError

text \<open>The artwork is only passed on: it is the type \<open>'a\<close>.\<close>

record 'a now_playing =
  np_title :: "bytes option"
  np_artist :: "bytes option"
  np_album :: "bytes option"
  np_genre :: "bytes option"
  np_track :: "(u32 \<times> u32 option) option"
  np_duration :: "duration option"
  np_position :: "duration option"
  np_state :: playback_state
  np_artwork :: "'a option"
  np_shuffle :: "bool option"
  np_repeat :: "repeat_mode option"

definition now_playing_default :: "'a now_playing" where
  "now_playing_default =
     \<lparr>np_title = None, np_artist = None, np_album = None, np_genre = None, np_track = None,
      np_duration = None, np_position = None, np_state = Stopped, np_artwork = None,
      np_shuffle = None, np_repeat = None\<rparr>"

definition attr_title :: u32 where "attr_title = 1"
definition attr_artist :: u32 where "attr_artist = 2"
definition attr_album :: u32 where "attr_album = 3"
definition attr_track_number :: u32 where "attr_track_number = 4"
definition attr_total_tracks :: u32 where "attr_total_tracks = 5"
definition attr_genre :: u32 where "attr_genre = 6"
definition attr_playing_time :: u32 where "attr_playing_time = 7"
definition attr_cover_art_handle :: u32 where "attr_cover_art_handle = 8"

definition attributes_text :: "u32 list" where
  "attributes_text =
     [attr_title, attr_artist, attr_album, attr_track_number, attr_total_tracks, attr_genre, attr_playing_time]"

definition attributes_all :: "u32 list" where
  "attributes_all =
     [attr_title, attr_artist, attr_album, attr_track_number, attr_total_tracks, attr_genre, attr_playing_time,
      attr_cover_art_handle]"

definition get_element_attributes :: "u32 list \<Rightarrow> avc_frame" where
  "get_element_attributes attributes =
     vendor_command CtStatus pdu_get_element_attributes
       (be64 0 @ [u8_or_max (length attributes)] @ concat (map be32 attributes))"

definition parse_attribute_request :: "bytes \<Rightarrow> audio_error + u32 list" where
  "parse_attribute_request params =
     (if length params < 9 then Inl (AudioTruncated ''get element attributes request'' 9 (length params))
      else let count = unat (params ! 8) in
        if count = 0 then Inr attributes_all
        else if length params < 9 + count * 4
        then Inl (AudioTruncated ''get element attributes request ids'' (9 + count * 4) (length params))
        else Inr (map (\<lambda>i. u32_be_at params (9 + i * 4)) [0..<count]))"

definition max_response_parameters :: nat where "max_response_parameters = 450"

definition attribute_value :: "'a now_playing \<Rightarrow> u32 \<Rightarrow> bytes option" where
  "attribute_value now attr =
     (if attr = attr_title then np_title now
      else if attr = attr_artist then np_artist now
      else if attr = attr_album then np_album now
      else if attr = attr_genre then np_genre now
      else if attr = attr_track_number
      then map_option (\<lambda>(number, _). decimal (unat number)) (np_track now)
      else if attr = attr_total_tracks
      then (case np_track now of Some (_, Some n) \<Rightarrow> Some (decimal (unat n)) | _ \<Rightarrow> None)
      else if attr = attr_playing_time
      then map_option (\<lambda>d. decimal (min (as_millis d) u64_max)) (np_duration now)
      else None)"

fun attribute_values :: "'a now_playing \<Rightarrow> u32 list \<Rightarrow> (u32 \<times> bytes) list" where
  "attribute_values now [] = []"
| "attribute_values now (attr # requested) =
     (case attribute_value now attr of
        None \<Rightarrow> attribute_values now requested
      | Some v \<Rightarrow> (attr, v) # attribute_values now requested)"

definition attribute_entry :: "u32 \<Rightarrow> bytes \<Rightarrow> bytes" where
  "attribute_entry attr v = be32 attr @ be16 106 @ be16 (u16_or_max (length v)) @ v"

fun write_attributes :: "(u32 \<times> bytes) list \<Rightarrow> u8 \<Rightarrow> bytes \<Rightarrow> u8 \<times> bytes" where
  "write_attributes [] written params = (written, params)"
| "write_attributes ((attr, v) # values) written params =
     (if max_response_parameters < length params + 8 + length v \<or> written = 0xFF then (written, params)
      else write_attributes values (written + 1) (params @ attribute_entry attr v))"

definition element_attributes_response :: "'a now_playing \<Rightarrow> u32 list \<Rightarrow> avc_frame" where
  "element_attributes_response now requested =
     (let (written, params) = write_attributes (attribute_values now requested) 0 [0] in
      vendor_command CtStable pdu_get_element_attributes (params[0 := written]))"

definition non_empty :: "bytes \<Rightarrow> bytes option" where
  "non_empty s = (if trim s = [] then None else Some (trim s))"

record 'a track_attributes =
  ta_now_playing :: "'a now_playing"
  ta_cover_art_handle :: "bytes option"

text \<open>What the loop over the attributes has set so far: the record, the track number and the total.\<close>

type_synonym 'a attr_acc = "'a track_attributes \<times> u32 option \<times> u32 option"

definition parse_u32 :: "bytes \<Rightarrow> u32 option" where
  "parse_u32 s = map_option of_nat (parse_decimal u32_max s)"

definition record_attribute :: "u32 \<Rightarrow> bytes \<Rightarrow> 'a attr_acc \<Rightarrow> 'a attr_acc" where
  "record_attribute attr v acc =
     (let (out, track_number, total_tracks) = acc; now = ta_now_playing out in
      if attr = attr_title then (out\<lparr>ta_now_playing := now\<lparr>np_title := non_empty v\<rparr>\<rparr>, track_number, total_tracks)
      else if attr = attr_artist then (out\<lparr>ta_now_playing := now\<lparr>np_artist := non_empty v\<rparr>\<rparr>, track_number, total_tracks)
      else if attr = attr_album then (out\<lparr>ta_now_playing := now\<lparr>np_album := non_empty v\<rparr>\<rparr>, track_number, total_tracks)
      else if attr = attr_genre then (out\<lparr>ta_now_playing := now\<lparr>np_genre := non_empty v\<rparr>\<rparr>, track_number, total_tracks)
      else if attr = attr_track_number then (out, parse_u32 (trim v), total_tracks)
      else if attr = attr_total_tracks then (out, track_number, parse_u32 (trim v))
      else if attr = attr_playing_time
      then (out\<lparr>ta_now_playing := now\<lparr>np_duration := map_option from_millis (parse_decimal u64_max (trim v))\<rparr>\<rparr>,
            track_number, total_tracks)
      else if attr = attr_cover_art_handle then (out\<lparr>ta_cover_art_handle := non_empty v\<rparr>, track_number, total_tracks)
      else acc)"

fun parse_attributes :: "nat \<Rightarrow> bytes \<Rightarrow> 'a attr_acc \<Rightarrow> audio_error + 'a attr_acc" where
  "parse_attributes 0 rest acc = Inr acc"
| "parse_attributes (Suc count) rest acc =
     (if length rest < 8 then Inl (AudioTruncated ''element attribute header'' 8 (length rest))
      else let attr = u32_be_at rest 0; len = unat (u16_be_at rest 6) in
        if length rest < 8 + len then Inl (AudioTruncated ''element attribute value'' (8 + len) (length rest))
        else parse_attributes count (drop (8 + len) rest)
               (record_attribute attr (utf8_lossy (take len (drop 8 rest))) acc))"

definition finish_attributes :: "'a attr_acc \<Rightarrow> 'a track_attributes" where
  "finish_attributes acc =
     (let (out, track_number, total_tracks) = acc in
      case track_number of
        None \<Rightarrow> out
      | Some n \<Rightarrow> out\<lparr>ta_now_playing := (ta_now_playing out)\<lparr>np_track := Some (n, total_tracks)\<rparr>\<rparr>)"

definition parse_element_attributes :: "bytes \<Rightarrow> audio_error + 'a track_attributes" where
  "parse_element_attributes params =
     (case params of
        [] \<Rightarrow> Inl (AudioTruncated ''element attributes count'' 1 0)
      | count # rest \<Rightarrow>
          bindE (parse_attributes (unat count) rest
              (\<lparr>ta_now_playing = now_playing_default, ta_cover_art_handle = None\<rparr>, None, None))
            (\<lambda>acc. Inr (finish_attributes acc)))"

definition millis_or_none :: "u32 \<Rightarrow> duration option" where
  "millis_or_none raw = (if raw \<noteq> 0xFFFFFFFF then Some (from_millis (unat raw)) else None)"

definition playback_state_of :: "u8 \<Rightarrow> playback_state" where
  "playback_state_of raw =
     (if raw = 0x00 then Stopped else if raw = 0x01 then Playing else if raw = 0x02 then Paused
      else if raw = 0x03 then SeekingForward else if raw = 0x04 then SeekingBackward else PlaybackError)"

definition parse_play_status :: "bytes \<Rightarrow> audio_error + (duration option \<times> duration option \<times> playback_state)" where
  "parse_play_status params =
     (if length params < 9 then Inl (AudioTruncated ''play status'' 9 (length params))
      else Inr (millis_or_none (u32_be_at params 0), millis_or_none (u32_be_at params 4),
                playback_state_of (params ! 8)))"

section \<open>Player settings\<close>

datatype setting_attribute = EqualizerAttr | RepeatAttr | ShuffleAttr | ScanAttr

fun attribute_id :: "setting_attribute \<Rightarrow> u8" where
  "attribute_id EqualizerAttr = 0x01"
| "attribute_id RepeatAttr = 0x02"
| "attribute_id ShuffleAttr = 0x03"
| "attribute_id ScanAttr = 0x04"

definition attribute_from_id :: "u8 \<Rightarrow> setting_attribute option" where
  "attribute_from_id w =
     (if w = 0x01 then Some EqualizerAttr else if w = 0x02 then Some RepeatAttr
      else if w = 0x03 then Some ShuffleAttr else if w = 0x04 then Some ScanAttr else None)"

datatype repeat_setting = RepeatSettingOff | SingleTrack | RepeatAllTracks | RepeatGroup

fun repeat_id :: "repeat_setting \<Rightarrow> u8" where
  "repeat_id RepeatSettingOff = 0x01"
| "repeat_id SingleTrack = 0x02"
| "repeat_id RepeatAllTracks = 0x03"
| "repeat_id RepeatGroup = 0x04"

definition repeat_from_id :: "u8 \<Rightarrow> repeat_setting option" where
  "repeat_from_id w =
     (if w = 0x01 then Some RepeatSettingOff else if w = 0x02 then Some SingleTrack
      else if w = 0x03 then Some RepeatAllTracks else if w = 0x04 then Some RepeatGroup else None)"

fun repeat_setting_mode :: "repeat_setting \<Rightarrow> repeat_mode" where
  "repeat_setting_mode RepeatSettingOff = RepeatOff"
| "repeat_setting_mode SingleTrack = RepeatTrack"
| "repeat_setting_mode RepeatAllTracks = RepeatContext"
| "repeat_setting_mode RepeatGroup = RepeatContext"

fun repeat_candidates :: "repeat_mode \<Rightarrow> repeat_setting list" where
  "repeat_candidates RepeatOff = [RepeatSettingOff]"
| "repeat_candidates RepeatTrack = [SingleTrack]"
| "repeat_candidates RepeatContext = [RepeatAllTracks, RepeatGroup]"

definition for_mode :: "repeat_mode \<Rightarrow> repeat_setting list \<Rightarrow> repeat_setting option" where
  "for_mode mode allowed =
     (let candidates = repeat_candidates mode in
      if allowed = [] then (case candidates of [] \<Rightarrow> None | c # _ \<Rightarrow> Some c)
      else find (\<lambda>c. c \<in> set allowed) candidates)"

datatype shuffle_setting = ShuffleOff | ShuffleAllTracks | ShuffleGroup

fun shuffle_id :: "shuffle_setting \<Rightarrow> u8" where
  "shuffle_id ShuffleOff = 0x01"
| "shuffle_id ShuffleAllTracks = 0x02"
| "shuffle_id ShuffleGroup = 0x03"

definition shuffle_from_id :: "u8 \<Rightarrow> shuffle_setting option" where
  "shuffle_from_id w =
     (if w = 0x01 then Some ShuffleOff else if w = 0x02 then Some ShuffleAllTracks
      else if w = 0x03 then Some ShuffleGroup else None)"

definition shuffle_is_on :: "shuffle_setting \<Rightarrow> bool" where
  "shuffle_is_on s \<longleftrightarrow> s \<noteq> ShuffleOff"

definition for_on :: "bool \<Rightarrow> shuffle_setting list \<Rightarrow> shuffle_setting" where
  "for_on on allowed =
     (if \<not> on then ShuffleOff
      else if ShuffleAllTracks \<in> set allowed \<or> allowed = [] then ShuffleAllTracks
      else if ShuffleGroup \<in> set allowed then ShuffleGroup
      else ShuffleAllTracks)"

datatype scan_setting = ScanOff | ScanAllTracks | ScanGroup

fun scan_id :: "scan_setting \<Rightarrow> u8" where
  "scan_id ScanOff = 0x01"
| "scan_id ScanAllTracks = 0x02"
| "scan_id ScanGroup = 0x03"

definition scan_from_id :: "u8 \<Rightarrow> scan_setting option" where
  "scan_from_id w =
     (if w = 0x01 then Some ScanOff else if w = 0x02 then Some ScanAllTracks
      else if w = 0x03 then Some ScanGroup else None)"

datatype setting_value =
    EqualizerValue bool | RepeatValue repeat_setting | ShuffleValue shuffle_setting | ScanValue scan_setting

fun value_attribute :: "setting_value \<Rightarrow> setting_attribute" where
  "value_attribute (EqualizerValue _) = EqualizerAttr"
| "value_attribute (RepeatValue _) = RepeatAttr"
| "value_attribute (ShuffleValue _) = ShuffleAttr"
| "value_attribute (ScanValue _) = ScanAttr"

fun value_id :: "setting_value \<Rightarrow> u8" where
  "value_id (EqualizerValue on) = (if on then 0x02 else 0x01)"
| "value_id (RepeatValue v) = repeat_id v"
| "value_id (ShuffleValue v) = shuffle_id v"
| "value_id (ScanValue v) = scan_id v"

definition value_from_ids :: "u8 \<Rightarrow> u8 \<Rightarrow> setting_value option" where
  "value_from_ids attr v =
     (case attribute_from_id attr of
        Some EqualizerAttr \<Rightarrow>
          if v = 0x01 then Some (EqualizerValue False) else if v = 0x02 then Some (EqualizerValue True) else None
      | Some RepeatAttr \<Rightarrow> map_option RepeatValue (repeat_from_id v)
      | Some ShuffleAttr \<Rightarrow> map_option ShuffleValue (shuffle_from_id v)
      | Some ScanAttr \<Rightarrow> map_option ScanValue (scan_from_id v)
      | None \<Rightarrow> None)"

record setting_attributes =
  sa_known :: "setting_attribute list"
  sa_unknown :: bytes

definition sa_contains :: "setting_attributes \<Rightarrow> setting_attribute \<Rightarrow> bool" where
  "sa_contains s attr \<longleftrightarrow> attr \<in> set (sa_known s)"

record player_settings =
  ps_attributes :: setting_attributes
  ps_repeat_values :: "repeat_setting list"
  ps_shuffle_values :: "shuffle_setting list"

definition player_settings_default :: player_settings where
  "player_settings_default =
     \<lparr>ps_attributes = \<lparr>sa_known = [], sa_unknown = []\<rparr>, ps_repeat_values = [], ps_shuffle_values = []\<rparr>"

definition settings_capabilities :: "player_settings \<Rightarrow> capabilities" where
  "settings_capabilities p =
     (let caps = (if sa_contains (ps_attributes p) ShuffleAttr then cap_or cap_none cap_shuffle else cap_none)
      in if sa_contains (ps_attributes p) RepeatAttr then cap_or caps cap_repeat else caps)"

fun record_value :: "setting_value \<Rightarrow> player_settings \<Rightarrow> player_settings" where
  "record_value (RepeatValue v) p =
     (if v \<in> set (ps_repeat_values p) then p else p\<lparr>ps_repeat_values := ps_repeat_values p @ [v]\<rparr>)"
| "record_value (ShuffleValue v) p =
     (if v \<in> set (ps_shuffle_values p) then p else p\<lparr>ps_shuffle_values := ps_shuffle_values p @ [v]\<rparr>)"
| "record_value _ p = p"

definition record_values :: "setting_value list \<Rightarrow> player_settings \<Rightarrow> player_settings" where
  "record_values values p = fold record_value values p"

fun value_for :: "player_settings \<Rightarrow> 'm control_txn \<Rightarrow> setting_value option" where
  "value_for p (TxnShuffle on) =
     (if sa_contains (ps_attributes p) ShuffleAttr
      then Some (ShuffleValue (for_on on (ps_shuffle_values p))) else None)"
| "value_for p (TxnRepeat mode) =
     (if \<not> sa_contains (ps_attributes p) RepeatAttr then None
      else map_option RepeatValue (for_mode mode (ps_repeat_values p)))"
| "value_for p _ = None"

definition list_setting_attributes :: avc_frame where
  "list_setting_attributes = vendor_command CtStatus pdu_list_setting_attributes []"

definition list_setting_values :: "setting_attribute \<Rightarrow> avc_frame" where
  "list_setting_values attr = vendor_command CtStatus pdu_list_setting_values [attribute_id attr]"

definition get_current_settings :: "setting_attribute list \<Rightarrow> avc_frame" where
  "get_current_settings attributes =
     vendor_command CtStatus pdu_get_current_settings
       (u8_or_max (length attributes) # map attribute_id attributes)"

definition settings_params :: "setting_value list \<Rightarrow> bytes" where
  "settings_params values =
     u8_or_max (length values) # concat (map (\<lambda>v. [attribute_id (value_attribute v), value_id v]) values)"

definition set_setting_value :: "setting_value list \<Rightarrow> avc_frame" where
  "set_setting_value values = vendor_command CtControl pdu_set_setting_value (settings_params values)"

definition note_attribute :: "u8 \<Rightarrow> setting_attributes \<Rightarrow> setting_attributes" where
  "note_attribute w out =
     (case attribute_from_id w of
        Some attr \<Rightarrow> if attr \<in> set (sa_known out) then out else out\<lparr>sa_known := sa_known out @ [attr]\<rparr>
      | None \<Rightarrow> out\<lparr>sa_unknown := sa_unknown out @ [w]\<rparr>)"

definition parse_setting_attributes :: "bytes \<Rightarrow> audio_error + setting_attributes" where
  "parse_setting_attributes params =
     (case params of
        [] \<Rightarrow> Inl (AudioTruncated ''player setting attribute count'' 1 0)
      | n # rest \<Rightarrow>
          let count = unat n in
          if length rest < count
          then Inl (AudioTruncated ''player setting attribute ids'' (1 + count) (length params))
          else Inr (fold note_attribute (take count rest) \<lparr>sa_known = [], sa_unknown = []\<rparr>))"

definition parse_setting_values :: "setting_attribute \<Rightarrow> bytes \<Rightarrow> audio_error + setting_value list" where
  "parse_setting_values attr params =
     (case params of
        [] \<Rightarrow> Inl (AudioTruncated ''player setting value count'' 1 0)
      | n # rest \<Rightarrow>
          let count = unat n in
          if length rest < count
          then Inl (AudioTruncated ''player setting value ids'' (1 + count) (length params))
          else Inr (List.map_filter (value_from_ids (attribute_id attr)) (take count rest)))"

fun pairs_of :: "bytes \<Rightarrow> (u8 \<times> u8) list" where
  "pairs_of (a # b # rest) = (a, b) # pairs_of rest"
| "pairs_of _ = []"

definition parse_current_settings :: "bytes \<Rightarrow> audio_error + setting_value list" where
  "parse_current_settings params =
     (case params of
        [] \<Rightarrow> Inl (AudioTruncated ''player setting count'' 1 0)
      | n # rest \<Rightarrow>
          let count = unat n in
          if length rest < count * 2
          then Inl (AudioTruncated ''player setting pairs'' (1 + count * 2) (length params))
          else Inr (List.map_filter (\<lambda>(a, v). value_from_ids a v) (pairs_of (take (count * 2) rest))))"

definition parse_setting_change :: "bytes \<Rightarrow> audio_error + setting_value list" where
  "parse_setting_change params =
     (case params of
        [] \<Rightarrow> Inl (AudioTruncated ''player setting notification'' 2 0)
      | _ # rest \<Rightarrow> parse_current_settings rest)"

fun apply_settings :: "setting_value list \<Rightarrow> bool \<times> 'a now_playing \<Rightarrow> bool \<times> 'a now_playing" where
  "apply_settings [] (changed, now) = (changed, now)"
| "apply_settings (ShuffleValue v # values) (changed, now) =
     (let on = Some (shuffle_is_on v) in
      apply_settings values (changed \<or> np_shuffle now \<noteq> on, now\<lparr>np_shuffle := on\<rparr>))"
| "apply_settings (RepeatValue v # values) (changed, now) =
     (let mode = Some (repeat_setting_mode v) in
      apply_settings values (changed \<or> np_repeat now \<noteq> mode, now\<lparr>np_repeat := mode\<rparr>))"
| "apply_settings (_ # values) (changed, now) = apply_settings values (changed, now)"

section \<open>The control handle\<close>

text \<open>
  \<^verbatim>\<open>AvrcpControl\<close>: what a verb puts on the channel, which may be closed. The frames sent before a
  failure stay sent.
\<close>

record avrcp_control =
  ctl_capabilities :: capabilities
  ctl_settings :: player_settings
  ctl_sent :: "avc_frame list"
  ctl_open :: bool

definition control_new :: "capabilities \<Rightarrow> bool \<Rightarrow> avrcp_control" where
  "control_new caps open_channel =
     \<lparr>ctl_capabilities = caps, ctl_settings = player_settings_default, ctl_sent = [], ctl_open = open_channel\<rparr>"

definition control_send :: "avc_frame \<Rightarrow> (avrcp_control, core_error, unit) meth" where
  "control_send f c =
     (if ctl_open c then (Inr (), c\<lparr>ctl_sent := ctl_sent c @ [f]\<rparr>)
      else (Inl (AdapterError ''avrcp control channel closed''), c))"

fun control_send_all :: "avc_frame list \<Rightarrow> (avrcp_control, core_error, unit) meth" where
  "control_send_all [] = returnS ()"
| "control_send_all (f # fs) = bindS (control_send f) (\<lambda>_. control_send_all fs)"

fun is_player_setting :: "'m control_txn \<Rightarrow> bool" where
  "is_player_setting (TxnShuffle _) \<longleftrightarrow> True"
| "is_player_setting (TxnRepeat _) \<longleftrightarrow> True"
| "is_player_setting _ \<longleftrightarrow> False"

definition issue_unchecked :: "('m control_txn \<Rightarrow> string) \<Rightarrow> 'm control_txn \<Rightarrow> (avrcp_control, core_error, unit) meth" where
  "issue_unchecked debug txn c =
     (if is_player_setting txn
      then (case value_for (ctl_settings c) txn of
              None \<Rightarrow> (Inl (UnsupportedControl (debug txn)), c)
            | Some v \<Rightarrow> control_send (set_setting_value [v]) c)
      else (case operation_for txn of
              None \<Rightarrow> (Inl (UnsupportedControl (debug txn)), c)
            | Some operation \<Rightarrow> control_send_all (passthrough operation) c))"

section \<open>Reassembly of a fragmented response\<close>

definition max_avrcp_reassembly :: nat where "max_avrcp_reassembly = 64 * 1024"

text \<open>
  The buffer of a link, the frame it makes the receiver send, and the PDU that is whole.
  The transaction label and the channel of the frame are left out.
\<close>

definition avrcp_reassemble ::
  "bool \<Rightarrow> vendor_pdu \<Rightarrow> (u8 \<times> bytes) option \<Rightarrow> vendor_pdu option \<times> avc_frame list \<times> (u8 \<times> bytes) option" where
  "avrcp_reassemble is_response v partial =
     (if \<not> is_response then (Some v, [], partial)
      else case vp_packet_type v of
        SinglePacket \<Rightarrow> (Some v, [], None)
      | EndPacket \<Rightarrow>
          (case partial of
             None \<Rightarrow> (None, [], None)
           | Some (pdu, buffer) \<Rightarrow>
               if pdu \<noteq> vp_pdu_id v then (None, [], None)
               else (Some \<lparr>vp_pdu_id = pdu, vp_packet_type = SinglePacket, vp_parameters = buffer @ vp_parameters v\<rparr>,
                     [], None))
      | _ \<Rightarrow>
          let buffer = (case partial of
                Some (pdu, buffer) \<Rightarrow> if pdu \<noteq> vp_pdu_id v \<or> vp_packet_type v = StartPacket then [] else buffer
              | None \<Rightarrow> []);
              buffer = buffer @ vp_parameters v
          in if max_avrcp_reassembly < length buffer
             then (None, [abort_continuing (vp_pdu_id v)], None)
             else (None, [request_continuing (vp_pdu_id v)], Some (case partial of
                     Some (pdu, _) \<Rightarrow> if pdu \<noteq> vp_pdu_id v \<or> vp_packet_type v = StartPacket then vp_pdu_id v else pdu
                   | None \<Rightarrow> vp_pdu_id v, buffer)))"

end
