(* ===== verification/Avrcp_Props.thy ===== *)
theory Avrcp_Props
  imports Avrcp
begin

text \<open>
  What the codecs of \<open>Avrcp\<close> agree on from end to end: commands, settings and metadata read by
  the parsers of the other side, fragments put together, and controls that do what they offer.
\<close>

section \<open>A command reaches the other end\<close>

lemma unat_u16_or_max: "n < 65536 \<Longrightarrow> unat (u16_or_max n) = n"
  by (simp add: u16_or_max_def u16_try_from_def)

lemma avc_decode_encode:
  "avc_decode (avc_encode f) = Inr (f\<lparr>af_ctype := ctype_from_bits (ctype_bits (af_ctype f))\<rparr>)"
  by (simp add: avc_decode_def avc_encode_def)

definition ctype_canonical :: "ctype \<Rightarrow> bool" where
  "ctype_canonical c \<longleftrightarrow> ctype_from_bits (ctype_bits c) = c"

lemma ctype_canonical_named [simp]:
  "ctype_canonical CtControl" "ctype_canonical CtStatus" "ctype_canonical CtNotify"
  "ctype_canonical CtNotImplemented" "ctype_canonical CtAccepted" "ctype_canonical CtRejected"
  "ctype_canonical CtStable" "ctype_canonical CtInterim" "ctype_canonical CtChanged"
  by (simp_all add: ctype_canonical_def ctype_from_bits_def Let_def)

lemma header_fields:
  fixes t :: u8 and cr :: u8
  assumes "unat t < 2 ^ 4" "cr = 0 \<or> cr = 2"
  shows "drop_bit 4 (push_bit 4 t OR cr) = t"
    "drop_bit 2 (push_bit 4 t OR cr) AND 0b11 = 0"
    "(push_bit 4 t OR cr) AND 0x01 = 0"
    "(push_bit 4 t OR cr) AND 0b10 = cr"
proof -
  note [dest] = bit_below [OF assms(1)]
  have 3: "bit (3 :: u8) n \<longleftrightarrow> n < 2" for n
    using bit_mask_iff [of 2 n, where ?'a = "8 word"] by (auto simp: mask_eq_exp_minus_1)
  have two: "bit (2 :: u8) n \<longleftrightarrow> n = 1" for n
    using bit_exp_iff [of 1 n, where ?'a = "8 word"] by (simp add: possible_bit_def) linarith
  have cr: "bit cr n \<longleftrightarrow> n = 1 \<and> cr = 2" for n
  proof (cases "cr = 2")
    case True
    show ?thesis unfolding True two by simp
  qed (use assms(2) in auto)
  show "drop_bit 4 (push_bit 4 t OR cr) = t"
    by (rule bit_word_eqI) (auto simp: bit_simps cr)
  show "drop_bit 2 (push_bit 4 t OR cr) AND 0b11 = 0"
    by (rule bit_word_eqI) (auto simp: bit_simps 3 cr simp del: bit_numeral_word_iff)
  show "(push_bit 4 t OR cr) AND 0x01 = 0"
    by (rule bit_word_eqI) (auto simp: bit_simps cr)
  show "(push_bit 4 t OR cr) AND 0b10 = cr"
    by (rule bit_word_eqI) (auto simp: bit_simps two cr simp del: bit_numeral_word_iff)
qed

lemma avctp_decode_encode:
  assumes "unat (av_transaction m) < 16"
  shows "avctp_decode (avctp_encode m) = Inr m"
proof -
  let ?cr = "if av_cr m = ResponseMsg then 2 else 0 :: u8"
  have t: "unat (av_transaction m) < 2 ^ 4" "?cr = 0 \<or> ?cr = 2" using assms by simp_all
  note h = header_fields [OF t]
  have e: "avctp_encode m = (push_bit 4 (av_transaction m) OR ?cr) # be16 (av_pid m) @ av_body m"
    by (simp add: avctp_encode_def)
  show ?thesis unfolding avctp_decode_def e
    by (cases "av_cr m") (use h in \<open>simp_all add: be16_def del: drop_bit_or\<close>)
qed

lemma vendor_parse_command:
  assumes "length ps < 65536"
  shows "vendor_parse (af_operands (vendor_command c pdu ps))
    = Inr \<lparr>vp_pdu_id = pdu, vp_packet_type = SinglePacket, vp_parameters = ps\<rparr>"
proof -
  let ?w = "u16_or_max (length ps)"
  have "from_be16 (ucast (drop_bit 8 ?w)) (ucast ?w) = ?w" by simp
  then show ?thesis using unat_u16_or_max [OF assms]
    by (simp add: vendor_parse_def vendor_command_def avc_panel_def company_id_def be16_def
      packet_type_from_bits_def del: from_be16_be16)
qed

text \<open>
  A vendor command survives its three layers: encoded as AV/C frame and AVCTP
  message, the bytes decode to the same transaction, the same command type and opcode, and the
  vendor PDU parses to its id and exactly its parameters, as one packet.
\<close>

theorem command_received:
  assumes "unat t < 16" "length ps < 65536" "ctype_canonical c"
  shows "\<exists>m f. avctp_decode (avctp_encode (avctp_command t (avc_encode (vendor_command c pdu ps)))) = Inr m
    \<and> m = avctp_command t (avc_encode (vendor_command c pdu ps))
    \<and> avc_decode (av_body m) = Inr f \<and> af_ctype f = c \<and> af_opcode f = op_vendor_dependent
    \<and> vendor_parse (af_operands f) = Inr \<lparr>vp_pdu_id = pdu, vp_packet_type = SinglePacket, vp_parameters = ps\<rparr>"
proof -
  let ?f = "vendor_command c pdu ps"
  have "af_ctype ?f = c" "af_opcode ?f = op_vendor_dependent"
    by (simp_all add: vendor_command_def avc_panel_def)
  moreover have "avctp_decode (avctp_encode (avctp_command t (avc_encode ?f))) = Inr (avctp_command t (avc_encode ?f))"
    by (rule avctp_decode_encode) (simp add: avctp_command_def assms(1))
  ultimately show ?thesis using assms(3) vendor_parse_command [OF assms(2), of c pdu]
    by (simp add: avctp_command_def avc_decode_encode ctype_canonical_def)
qed

section \<open>Settings\<close>

lemma value_roundtrip [simp]: "value_from_ids (attribute_id (value_attribute v)) (value_id v) = Some v"
proof (cases v)
  case (RepeatValue r)
  then show ?thesis by (cases r) (simp_all add: value_from_ids_def attribute_from_id_def repeat_from_id_def)
next
  case (ShuffleValue s)
  then show ?thesis by (cases s) (simp_all add: value_from_ids_def attribute_from_id_def shuffle_from_id_def)
next
  case (ScanValue s)
  then show ?thesis by (cases s) (simp_all add: value_from_ids_def attribute_from_id_def scan_from_id_def)
qed (simp add: value_from_ids_def attribute_from_id_def)

lemma pairs_of_settings:
  "List.map_filter (\<lambda>(a, v). value_from_ids a v) (pairs_of (concat (map (\<lambda>v. [attribute_id (value_attribute v), value_id v]) vals))) = vals"
  by (induction vals) (simp_all add: map_filter_simps)

lemma length_settings: "length (concat (map (\<lambda>v. [attribute_id (value_attribute v), value_id v]) vals)) = length vals * 2"
  by (induction vals) simp_all

lemma settings_roundtrip:
  assumes "length vals < 256"
  shows "parse_current_settings (settings_params vals) = Inr vals"
proof -
  have "unat (u8_or_max (length vals)) = length vals" using assms by (simp add: u8_or_max_def)
  then show ?thesis
    by (simp add: parse_current_settings_def settings_params_def Let_def pairs_of_settings length_settings)
qed

lemma for_mode_sound: "for_mode mode allowed = Some v \<Longrightarrow> repeat_setting_mode v = mode \<and> (allowed = [] \<or> v \<in> set allowed)"
  by (cases mode) (auto simp: for_mode_def Let_def split: if_splits)

lemma for_mode_complete: "\<lbrakk>v \<in> set allowed; repeat_setting_mode v = mode\<rbrakk> \<Longrightarrow> for_mode mode allowed \<noteq> None"
  by (cases v) (auto simp: for_mode_def Let_def)

lemma for_on_sound: "shuffle_is_on (for_on on allowed) = on"
  by (auto simp: for_on_def shuffle_is_on_def)

text \<open>What the frame of a setting write tells the peer's parser.\<close>

definition told :: "avc_frame \<Rightarrow> setting_value list option" where
  "told f = (case vendor_parse (af_operands f) of
     Inl _ \<Rightarrow> None
   | Inr v \<Rightarrow> if vp_pdu_id v \<noteq> pdu_set_setting_value then None
      else (case parse_current_settings (vp_parameters v) of Inl _ \<Rightarrow> None | Inr vals \<Rightarrow> Some vals))"

lemma told_set [simp]: "length vals < 256 \<Longrightarrow> told (set_setting_value vals) = Some vals"
proof -
  assume n: "length vals < 256"
  have "length (settings_params vals) < 65536"
    unfolding settings_params_def using n length_settings [of vals] by simp
  then show ?thesis using settings_roundtrip [OF n]
    by (simp add: told_def set_setting_value_def vendor_parse_command)
qed

text \<open>
  A press of repeat that succeeds has put one frame on the channel, and the
  peer's parser reads from it one value that renders as the mode asked for; the player listed
  the setting, and the value is one it offered whenever its offer is known.
\<close>

theorem repeat_press_tells_mode:
  assumes "issue_unchecked debug (TxnRepeat mode) c = (Inr (), c')"
  shows "\<exists>f v. ctl_sent c' = ctl_sent c @ [f] \<and> told f = Some [RepeatValue v] \<and> repeat_setting_mode v = mode
    \<and> sa_contains (ps_attributes (ctl_settings c)) RepeatAttr
    \<and> (ps_repeat_values (ctl_settings c) = [] \<or> v \<in> set (ps_repeat_values (ctl_settings c)))"
proof -
  let ?p = "ctl_settings c"
  obtain v where v: "for_mode mode (ps_repeat_values ?p) = Some v" "sa_contains (ps_attributes ?p) RepeatAttr"
    and c': "ctl_sent c' = ctl_sent c @ [set_setting_value [RepeatValue v]]"
    using assms by (auto simp: issue_unchecked_def control_send_def split: option.splits if_splits)
  show ?thesis using for_mode_sound [OF v(1)] v(2) c'
    by (intro exI [of _ "set_setting_value [RepeatValue v]"] exI [of _ v]) simp
qed

text \<open>
  On an open channel a press of repeat is refused only when the player did not list the
  setting or offered no value that renders as the mode, and then nothing is sent.
\<close>

theorem repeat_refused_only_unexpressible:
  assumes "ctl_open c" "issue_unchecked debug (TxnRepeat mode) c = (Inl e, c')"
  shows "c' = c \<and> e = UnsupportedControl (debug (TxnRepeat mode))
    \<and> (\<not> sa_contains (ps_attributes (ctl_settings c)) RepeatAttr
       \<or> (\<forall>v\<in>set (ps_repeat_values (ctl_settings c)). repeat_setting_mode v \<noteq> mode))"
  using assms for_mode_complete [of _ "ps_repeat_values (ctl_settings c)" mode]
  by (auto simp: issue_unchecked_def control_send_def split: option.splits if_splits)

lemma apply_settings_mono: "fst (apply_settings vals (True, now))"
  by (induction vals "(True, now)" arbitrary: now rule: apply_settings.induct) (auto simp: Let_def)

lemma apply_settings_flag: "\<not> fst (apply_settings vals (X, now)) \<Longrightarrow> \<not> X"
  using apply_settings_mono by (cases X) auto

lemma apply_settings_unchanged:
  "\<not> fst (apply_settings vals (changed, now)) \<Longrightarrow> snd (apply_settings vals (changed, now)) = now"
proof (induction vals arbitrary: changed now)
  case (Cons v vals)
  show ?case
  proof (cases v)
    case (ShuffleValue s)
    have "\<not> (changed \<or> np_shuffle now \<noteq> Some (shuffle_is_on s))"
      by (rule apply_settings_flag) (use Cons.prems in \<open>simp add: ShuffleValue Let_def\<close>)
    then have "now\<lparr>np_shuffle := Some (shuffle_is_on s)\<rparr> = now" by simp
    then show ?thesis using Cons by (auto simp: ShuffleValue Let_def)
  next
    case (RepeatValue r)
    have "\<not> (changed \<or> np_repeat now \<noteq> Some (repeat_setting_mode r))"
      by (rule apply_settings_flag) (use Cons.prems in \<open>simp add: RepeatValue Let_def\<close>)
    then have "now\<lparr>np_repeat := Some (repeat_setting_mode r)\<rparr> = now" by simp
    then show ?thesis using Cons by (auto simp: RepeatValue Let_def)
  qed (use Cons in auto)
qed simp

section \<open>Metadata\<close>

text \<open>A Rust \<open>String\<close> is well-formed UTF-8: decoding it loses nothing.\<close>

definition is_string :: "bytes \<Rightarrow> bool" where
  "is_string s \<longleftrightarrow> utf8_lossy s = s"

lemma is_string_decimal [simp]: "is_string (decimal n)"
  unfolding is_string_def
proof (rule utf8_lossy_ascii)
  have "b < 0x80" if "b \<in> set (decimal n)" for b
    using decimal_digits [OF that] by (auto simp: word_le_nat_alt word_less_nat_alt)
  then show "list_all (\<lambda>b. b < 0x80) (decimal n)" by (simp add: list_all_iff)
qed

lemma length_entry [simp]: "length (attribute_entry attr v) = 8 + length v"
  by (simp add: attribute_entry_def)

lemma parse_attributes_entry:
  assumes "length v < 65536" "is_string v"
  shows "parse_attributes (Suc n) (attribute_entry attr v @ rest) acc
    = parse_attributes n rest (record_attribute attr v acc)"
proof -
  let ?e = "attribute_entry attr v @ rest"
  have "u32_be_at ?e 0 = attr" by (simp add: attribute_entry_def wire_simps)
  moreover have "u16_be_at ?e 6 = u16_or_max (length v)"
    by (simp add: attribute_entry_def wire_simps)
  moreover have "drop 8 ?e = v @ rest" by (simp add: attribute_entry_def)
  moreover have "drop (8 + length v) ?e = rest" by (simp add: attribute_entry_def)
  ultimately show ?thesis using assms by (simp add: Let_def unat_u16_or_max is_string_def)
qed

definition entries :: "(u32 \<times> bytes) list \<Rightarrow> bytes" where
  "entries vs = concat (map (\<lambda>(attr, v). attribute_entry attr v) vs)"

lemma entries_simps [simp]:
  "entries [] = []" "entries ((attr, v) # vs) = attribute_entry attr v @ entries vs"
  "entries (us @ vs) = entries us @ entries vs"
  by (simp_all add: entries_def)

lemma parse_attributes_entries:
  "\<forall>(attr, v)\<in>set vs. length v < 65536 \<and> is_string v
    \<Longrightarrow> parse_attributes (length vs) (entries vs) acc = Inr (fold (\<lambda>(attr, v). record_attribute attr v) vs acc)"
proof (induction vs arbitrary: acc)
  case (Cons av vs)
  obtain attr v where "av = (attr, v)" by fastforce
  then show ?case using Cons parse_attributes_entry [of v "length vs" attr "entries vs" acc]
    by (simp del: parse_attributes.simps(2))
qed simp

text \<open>The writer takes as many of the values as fit, in order.\<close>

lemma write_attributes_prefix:
  assumes "write_attributes vs w params = (w', params')" "unat w + length vs < 256" "length params \<le> max_response_parameters"
  shows "\<exists>k. params' = params @ entries (take k vs) \<and> k \<le> length vs \<and> unat w' = unat w + k
    \<and> length params' \<le> max_response_parameters
    \<and> (length params + length (entries vs) \<le> max_response_parameters \<longrightarrow> k = length vs)"
  using assms
proof (induction vs w params rule: write_attributes.induct)
  case (2 attr v vs w params)
  show ?case
  proof (cases "max_response_parameters < length params + 8 + length v \<or> w = 0xFF")
    case True
    moreover have "w \<noteq> 0xFF" using 2(3) by auto
    ultimately show ?thesis using 2(2,4) by (intro exI [of _ 0]) auto
  next
    case False
    have w: "unat (w + 1) = unat w + 1" using 2(3) by (subst unat_add_lem [THEN iffD1]) auto
    obtain k where "params' = (params @ attribute_entry attr v) @ entries (take k vs)" "k \<le> length vs"
      "unat w' = unat (w + 1) + k" "length params' \<le> max_response_parameters"
      "length (params @ attribute_entry attr v) + length (entries vs) \<le> max_response_parameters \<longrightarrow> k = length vs"
      using 2(1) [OF False] 2(2,3) False w by auto
    then show ?thesis using w by (intro exI [of _ "Suc k"]) auto
  qed
qed (auto intro: exI [of _ 0])

definition attr_start :: "'a attr_acc" where
  "attr_start = (\<lparr>ta_now_playing = now_playing_default, ta_cover_art_handle = None\<rparr>, None, None)"

lemma entry_small: "(attr, v) \<in> set vs \<Longrightarrow> length v \<le> length (entries vs)"
  by (induction vs) auto

lemma length_attribute_values: "length (attribute_values now requested) \<le> length requested"
  by (induction requested) (auto split: option.splits simp: le_Suc_eq)

lemma response_prefix:
  assumes "length requested < 256"
    and strings: "\<forall>(attr, v)\<in>set (attribute_values now requested). is_string v"
  shows "\<exists>k ps. vendor_parse (af_operands (element_attributes_response now requested))
      = Inr \<lparr>vp_pdu_id = pdu_get_element_attributes, vp_packet_type = SinglePacket, vp_parameters = ps\<rparr>
    \<and> length ps \<le> max_response_parameters
    \<and> parse_element_attributes ps = Inr (finish_attributes
         (fold (\<lambda>(attr, v). record_attribute attr v) (take k (attribute_values now requested)) (attr_start :: 'b attr_acc)))
    \<and> (1 + length (entries (attribute_values now requested)) \<le> max_response_parameters
         \<longrightarrow> k = length (attribute_values now requested))"
proof -
  let ?vs = "attribute_values now requested"
  obtain w params where wr: "write_attributes ?vs 0 [0] = (w, params)" by fastforce
  have n: "length ?vs < 256" using assms(1) length_attribute_values [of now requested] by linarith
  obtain k where k: "params = 0 # entries (take k ?vs)" "k \<le> length ?vs" "unat w = k"
    "length params \<le> max_response_parameters"
    "1 + length (entries ?vs) \<le> max_response_parameters \<longrightarrow> k = length ?vs"
    using write_attributes_prefix [OF wr] n by (auto simp: max_response_parameters_def)
  let ?ps = "w # entries (take k ?vs)"
  have ps: "params[0 := w] = ?ps" by (simp add: k(1))
  have len: "length ?ps \<le> max_response_parameters" using k(1,4) by simp
  have small: "length v < 65536" if "(attr, v) \<in> set (take k ?vs)" for attr v
    using entry_small [OF that] len by (simp add: max_response_parameters_def)
  have lk: "length (take k ?vs) = k" using k(2) by simp
  have "parse_attributes (length (take k ?vs)) (entries (take k ?vs)) (attr_start :: 'b attr_acc)
      = Inr (fold (\<lambda>(attr, v). record_attribute attr v) (take k ?vs) attr_start)"
    using small strings by (intro parse_attributes_entries) (auto dest: in_set_takeD)
  then have "parse_element_attributes ?ps = Inr (finish_attributes
      (fold (\<lambda>(attr, v). record_attribute attr v) (take k ?vs) (attr_start :: 'b attr_acc)))"
    unfolding lk by (simp add: parse_element_attributes_def attr_start_def k(3))
  moreover have "vendor_parse (af_operands (element_attributes_response now requested))
      = Inr \<lparr>vp_pdu_id = pdu_get_element_attributes, vp_packet_type = SinglePacket, vp_parameters = ?ps\<rparr>"
    using vendor_parse_command [of ?ps] len
    by (simp add: element_attributes_response_def wr ps max_response_parameters_def)
  ultimately show ?thesis using len k(5) by blast
qed

text \<open>What of a card the other end can show: text that is not blank, whole milliseconds.\<close>

definition shown_card :: "'a now_playing \<Rightarrow> 'b now_playing" where
  "shown_card now = now_playing_default
     \<lparr>np_title := Option.bind (np_title now) non_empty, np_artist := Option.bind (np_artist now) non_empty,
      np_album := Option.bind (np_album now) non_empty, np_genre := Option.bind (np_genre now) non_empty,
      np_track := np_track now,
      np_duration := map_option (\<lambda>d. from_millis (min (as_millis d) u64_max)) (np_duration now)\<rparr>"

lemma parse_u32_decimal [simp]: "parse_u32 (decimal (unat (n :: u32))) = Some n"
proof -
  have "unat n < 2 ^ LENGTH(32)" by (rule unsigned_less)
  then have "unat n \<le> u32_max" by (simp add: u32_max_def)
  then show ?thesis by (simp add: parse_u32_def)
qed

lemma fold_attribute_values:
  "fold (\<lambda>(attr, v). record_attribute attr v) (attribute_values now (attr # requested)) acc
    = fold (\<lambda>(attr, v). record_attribute attr v) (attribute_values now requested)
        (case attribute_value now attr of None \<Rightarrow> acc | Some v \<Rightarrow> record_attribute attr v acc)"
  by (simp split: option.split)

lemmas attr_defs = attr_title_def attr_artist_def attr_album_def attr_track_number_def attr_total_tracks_def
  attr_genre_def attr_playing_time_def attr_cover_art_handle_def

lemma value_at:
  "attribute_value now attr_title = np_title now"
  "attribute_value now attr_artist = np_artist now"
  "attribute_value now attr_album = np_album now"
  "attribute_value now attr_genre = np_genre now"
  "attribute_value now attr_track_number = map_option (\<lambda>(n, _). decimal (unat n)) (np_track now)"
  "attribute_value now attr_total_tracks = (case np_track now of Some (_, Some n) \<Rightarrow> Some (decimal (unat n)) | _ \<Rightarrow> None)"
  "attribute_value now attr_playing_time = map_option (\<lambda>d. decimal (min (as_millis d) u64_max)) (np_duration now)"
  "attribute_value now attr_cover_art_handle = None"
  by (simp_all add: attribute_value_def attr_defs)

lemma record_at:
  "record_attribute attr_title v (out, n, t) = (out\<lparr>ta_now_playing := (ta_now_playing out)\<lparr>np_title := non_empty v\<rparr>\<rparr>, n, t)"
  "record_attribute attr_artist v (out, n, t) = (out\<lparr>ta_now_playing := (ta_now_playing out)\<lparr>np_artist := non_empty v\<rparr>\<rparr>, n, t)"
  "record_attribute attr_album v (out, n, t) = (out\<lparr>ta_now_playing := (ta_now_playing out)\<lparr>np_album := non_empty v\<rparr>\<rparr>, n, t)"
  "record_attribute attr_genre v (out, n, t) = (out\<lparr>ta_now_playing := (ta_now_playing out)\<lparr>np_genre := non_empty v\<rparr>\<rparr>, n, t)"
  "record_attribute attr_track_number v (out, n, t) = (out, parse_u32 (trim v), t)"
  "record_attribute attr_total_tracks v (out, n, t) = (out, n, parse_u32 (trim v))"
  "record_attribute attr_playing_time v (out, n, t)
    = (out\<lparr>ta_now_playing := (ta_now_playing out)\<lparr>np_duration := map_option from_millis (parse_decimal u64_max (trim v))\<rparr>\<rparr>, n, t)"
  by (simp_all add: record_attribute_def attr_defs Let_def)

lemma recorded_card:
  fixes now :: "'a now_playing"
  shows "finish_attributes (fold (\<lambda>(attr, v). record_attribute attr v) (attribute_values now attributes_all) (attr_start :: 'b attr_acc))
    = \<lparr>ta_now_playing = shown_card now, ta_cover_art_handle = None\<rparr>"
proof -
  have tracks: "np_track now = None \<or> (\<exists>n. np_track now = Some (n, None)) \<or> (\<exists>n t. np_track now = Some (n, Some t))"
    by (metis option.exhaust surj_pair)
  then show ?thesis
    unfolding attributes_all_def fold_attribute_values attr_start_def shown_card_def now_playing_default_def
    by (elim disjE exE; cases "np_title now"; cases "np_artist now"; cases "np_album now"; cases "np_genre now";
        cases "np_duration now")
      (simp_all add: value_at record_at finish_attributes_def)
qed

text \<open>
  A head unit that asks for every attribute reads our card: for strings and when the
  answer fits one packet, the response parses, without an error, to the title, artist, album
  and genre that are not blank, the track number with its total, the duration in whole
  milliseconds, and no image handle.
\<close>

theorem card_read_back:
  assumes "\<forall>(attr, v)\<in>set (attribute_values now attributes_all). is_string v"
    and "1 + length (entries (attribute_values now attributes_all)) \<le> max_response_parameters"
  shows "\<exists>ps. vendor_parse (af_operands (element_attributes_response now attributes_all))
      = Inr \<lparr>vp_pdu_id = pdu_get_element_attributes, vp_packet_type = SinglePacket, vp_parameters = ps\<rparr>
    \<and> parse_element_attributes ps = Inr \<lparr>ta_now_playing = (shown_card now :: 'b now_playing), ta_cover_art_handle = None\<rparr>"
proof -
  have "length attributes_all < 256" by (simp add: attributes_all_def)
  from response_prefix [OF this assms(1), where ?'b = 'b] show ?thesis
    using assms(2) recorded_card [of now, where ?'b = 'b] by auto
qed

section \<open>Reassembly\<close>

fun reassemble_all :: "vendor_pdu list \<Rightarrow> (u8 \<times> bytes) option \<Rightarrow> vendor_pdu list \<times> avc_frame list \<times> (u8 \<times> bytes) option" where
  "reassemble_all [] partial = ([], [], partial)"
| "reassemble_all (v # vs) partial =
     (let (whole, frames, partial) = avrcp_reassemble True v partial;
          (wholes, more_frames, partial) = reassemble_all vs partial
      in ((case whole of None \<Rightarrow> [] | Some w \<Rightarrow> [w]) @ wholes, frames @ more_frames, partial))"

definition fragments :: "u8 \<Rightarrow> bytes \<Rightarrow> bytes list \<Rightarrow> bytes \<Rightarrow> vendor_pdu list" where
  "fragments pdu first mids final =
     \<lparr>vp_pdu_id = pdu, vp_packet_type = StartPacket, vp_parameters = first\<rparr>
     # map (\<lambda>ps. \<lparr>vp_pdu_id = pdu, vp_packet_type = ContinuePacket, vp_parameters = ps\<rparr>) mids
     @ [\<lparr>vp_pdu_id = pdu, vp_packet_type = EndPacket, vp_parameters = final\<rparr>]"

lemma reassemble_middle:
  "length buffer + length (concat mids) \<le> max_avrcp_reassembly \<Longrightarrow>
   reassemble_all (map (\<lambda>ps. \<lparr>vp_pdu_id = pdu, vp_packet_type = ContinuePacket, vp_parameters = ps\<rparr>) mids
     @ [\<lparr>vp_pdu_id = pdu, vp_packet_type = EndPacket, vp_parameters = final\<rparr>]) (Some (pdu, buffer))
   = ([\<lparr>vp_pdu_id = pdu, vp_packet_type = SinglePacket, vp_parameters = buffer @ concat mids @ final\<rparr>],
      replicate (length mids) (request_continuing pdu), None)"
  by (induction mids arbitrary: buffer) (simp_all add: avrcp_reassemble_def Let_def)

text \<open>
  A response in fragments comes out whole: a start, any number of continuations and an
  end of one PDU, within the limit, give exactly one PDU with the parameters joined in order,
  one request for more after each fragment but the last, and an empty buffer, whatever was in
  the buffer before.
\<close>

theorem fragments_reassembled:
  assumes "length first + length (concat mids) \<le> max_avrcp_reassembly"
  shows "reassemble_all (fragments pdu first mids final) partial
    = ([\<lparr>vp_pdu_id = pdu, vp_packet_type = SinglePacket, vp_parameters = first @ concat mids @ final\<rparr>],
       replicate (Suc (length mids)) (request_continuing pdu), None)"
proof -
  have "length first \<le> max_avrcp_reassembly" using assms by simp
  then have "avrcp_reassemble True \<lparr>vp_pdu_id = pdu, vp_packet_type = StartPacket, vp_parameters = first\<rparr> partial
      = (None, [request_continuing pdu], Some (pdu, first))"
    by (auto simp: avrcp_reassemble_def Let_def split: option.split)
  then show ?thesis using reassemble_middle [OF assms, of pdu final]
    by (simp add: fragments_def)
qed

definition partial_ok :: "(u8 \<times> bytes) option \<Rightarrow> bool" where
  "partial_ok partial \<longleftrightarrow> (case partial of None \<Rightarrow> True | Some (_, buffer) \<Rightarrow> length buffer \<le> max_avrcp_reassembly)"

lemma reassemble_bounded: "partial_ok partial \<Longrightarrow> partial_ok (snd (snd (avrcp_reassemble r v partial)))"
  by (auto simp: avrcp_reassemble_def partial_ok_def Let_def split: option.split packet_type.split)

interpretation reassembly: machine "\<lambda>(r, v) partial. snd (snd (avrcp_reassemble r v partial))" partial_ok
  by unfold_locales (auto simp: reassemble_bounded split_beta)

text \<open>
  However many fragments a peer sends, and of whatever PDUs, the reassembly buffer never
  holds more than 64 KiB.
\<close>

theorem reassembly_bounded:
  "partial_ok (fold (\<lambda>(r, v) partial. snd (snd (avrcp_reassemble r v partial))) pdus None)"
  by (rule reassembly.run_ok) (simp add: partial_ok_def)

text \<open>
  A continuation with nothing in flight is taken as a start: after it, an end
  fragment completes a PDU that lacks its beginning, and it is passed on as whole.
\<close>

theorem headless_response_accepted:
  assumes "length a \<le> max_avrcp_reassembly"
  shows "reassemble_all
      [\<lparr>vp_pdu_id = pdu, vp_packet_type = ContinuePacket, vp_parameters = a\<rparr>,
       \<lparr>vp_pdu_id = pdu, vp_packet_type = EndPacket, vp_parameters = b\<rparr>] None
    = ([\<lparr>vp_pdu_id = pdu, vp_packet_type = SinglePacket, vp_parameters = a @ b\<rparr>], [request_continuing pdu], None)"
  using assms by (simp add: avrcp_reassemble_def Let_def)

section \<open>Controls that are offered\<close>

text \<open>
  Every control offered on the strength of a peer's feature bits, or of the default
  for a record that could not be read, has a passthrough key, and issuing it sends exactly the
  press and the release of that key.
\<close>

theorem offered_control_expressible:
  assumes "cap_supports (capabilities_from_features features) txn"
  shows "\<exists>key. operation_for txn = Some key
    \<and> issue_unchecked debug txn c = control_send_all (passthrough key) c
    \<and> map (\<lambda>f. af_operands f ! 0) (passthrough key) = [key, key OR 0x80]"
  using assms
  by (cases txn; cases features)
    (auto simp: cap_supports_def cap_contains_def capabilities_from_features_def capabilities_for_passthrough_def
      cap_or_def cap_none_def cap_transport_def cap_stop_def cap_mute_def issue_unchecked_def passthrough_def
      passthrough_frame_def avc_panel_def release_bit_def Let_def split: if_splits)

section \<open>Witnesses\<close>

definition sample_card :: "unit now_playing" where
  "sample_card = now_playing_default
     \<lparr>np_title := Some [0x20, 0x41, 0x62], np_album := Some [0x20], np_track := Some (3, Some 12),
      np_duration := Some 0\<rparr>"

lemma card_read_back_witness:
  "\<exists>ps. vendor_parse (af_operands (element_attributes_response sample_card attributes_all))
      = Inr \<lparr>vp_pdu_id = pdu_get_element_attributes, vp_packet_type = SinglePacket, vp_parameters = ps\<rparr>
    \<and> parse_element_attributes ps = Inr \<lparr>ta_now_playing = (shown_card sample_card :: unit now_playing), ta_cover_art_handle = None\<rparr>"
proof (rule card_read_back)
  have vals: "attribute_values sample_card attributes_all
    = [(1, [0x20, 0x41, 0x62]), (3, [0x20]), (4, decimal 3), (5, decimal 12), (7, decimal 0)]"
    by (simp add: attributes_all_def value_at sample_card_def now_playing_default_def as_millis_def)
      (simp add: attr_defs)
  have "is_string [0x20, 0x41, 0x62]" "is_string [0x20]" by code_simp+
  then show "\<forall>(attr, v)\<in>set (attribute_values sample_card attributes_all). is_string v"
    unfolding vals by simp
  have "length (decimal 3) = 1" "length (decimal 12) = 2" "length (decimal 0) = 1" by code_simp+
  then show "1 + length (entries (attribute_values sample_card attributes_all)) \<le> max_response_parameters"
    unfolding vals by (simp add: max_response_parameters_def)
qed

lemma fragments_reassembled_witness:
  "length [1 :: u8, 2] + length (concat [[3, 4], [5 :: u8]]) \<le> max_avrcp_reassembly
   \<and> reassemble_all (fragments 0x20 [1, 2] [[3, 4], [5]] [6]) (Some (0x20, [9]))
     = ([\<lparr>vp_pdu_id = 0x20, vp_packet_type = SinglePacket, vp_parameters = [1, 2, 3, 4, 5, 6]\<rparr>],
        replicate 3 (request_continuing 0x20), None)"
proof -
  have "length [1 :: u8, 2] + length (concat [[3, 4], [5 :: u8]]) \<le> max_avrcp_reassembly"
    by (simp add: max_avrcp_reassembly_def)
  from fragments_reassembled [OF this, of "0x20" "[6]" "Some (0x20, [9])"] this show ?thesis by (simp add: eval_nat_numeral)
qed

lemma headless_response_accepted_witness:
  "length [5 :: u8] \<le> max_avrcp_reassembly
   \<and> reassemble_all
      [\<lparr>vp_pdu_id = 0x20, vp_packet_type = ContinuePacket, vp_parameters = [5]\<rparr>,
       \<lparr>vp_pdu_id = 0x20, vp_packet_type = EndPacket, vp_parameters = [6]\<rparr>] None
    = ([\<lparr>vp_pdu_id = 0x20, vp_packet_type = SinglePacket, vp_parameters = [5, 6]\<rparr>], [request_continuing 0x20], None)"
proof -
  have "length [5 :: u8] \<le> max_avrcp_reassembly" by (simp add: max_avrcp_reassembly_def)
  from headless_response_accepted [OF this, of "0x20" "[6]"] this show ?thesis by (simp del: reassemble_all.simps)
qed

definition sample_player :: player_settings where
  "sample_player = \<lparr>ps_attributes = \<lparr>sa_known = [RepeatAttr], sa_unknown = []\<rparr>,
     ps_repeat_values = [RepeatSettingOff, RepeatGroup], ps_shuffle_values = []\<rparr>"

lemma repeat_press_tells_mode_witness:
  "\<exists>c' f v. issue_unchecked (\<lambda>_ :: unit control_txn. ''repeat'') (TxnRepeat RepeatContext)
       ((control_new 0 True)\<lparr>ctl_settings := sample_player\<rparr>) = (Inr (), c')
     \<and> ctl_sent c' = [f] \<and> told f = Some [RepeatValue v] \<and> v = RepeatGroup"
proof -
  let ?c = "(control_new 0 True)\<lparr>ctl_settings := sample_player\<rparr>"
  obtain r c' where run: "issue_unchecked (\<lambda>_ :: unit control_txn. ''repeat'') (TxnRepeat RepeatContext) ?c = (r, c')"
    by fastforce
  have "fst (issue_unchecked (\<lambda>_ :: unit control_txn. ''repeat'') (TxnRepeat RepeatContext) ?c) = Inr ()"
    by (simp add: issue_unchecked_def sample_player_def for_mode_def control_new_def control_send_def sa_contains_def)
  then have r: "issue_unchecked (\<lambda>_ :: unit control_txn. ''repeat'') (TxnRepeat RepeatContext) ?c = (Inr (), c')"
    using run by simp
  obtain f v where "ctl_sent c' = ctl_sent ?c @ [f]" "told f = Some [RepeatValue v]" "repeat_setting_mode v = RepeatContext"
    "ps_repeat_values (ctl_settings ?c) = [] \<or> v \<in> set (ps_repeat_values (ctl_settings ?c))"
    using repeat_press_tells_mode [OF r] by blast
  moreover from this have "v = RepeatGroup" by (cases v) (auto simp: sample_player_def)
  ultimately show ?thesis using r by (auto simp: control_new_def)
qed

lemma offered_control_expressible_witness:
  "\<exists>key. operation_for (TxnNext :: unit control_txn) = Some key
    \<and> issue_unchecked (\<lambda>_. ''next'') (TxnNext :: unit control_txn) (control_new 0 True) = control_send_all (passthrough key) (control_new 0 True)
    \<and> map (\<lambda>f. af_operands f ! 0) (passthrough key) = [key, key OR 0x80]"
proof -
  have "cap_supports (capabilities_from_features (Some 0x0041)) (TxnNext :: unit control_txn)" by code_simp
  then show ?thesis by (rule offered_control_expressible)
qed

end
