(* ===== verification/Text.thy ===== *)
theory Text
  imports Wire
begin

text \<open>
  What \<^verbatim>\<open>str\<close> and \<^verbatim>\<open>String\<close> do beyond bytes: the scalar values of a UTF-8 string,
  \<^verbatim>\<open>encode_utf16\<close> and \<^verbatim>\<open>from_utf16_lossy\<close>, literals, \<^verbatim>\<open>split_once\<close> and ASCII case.
  A scalar value is a natural number.
\<close>

section \<open>Literals and separators\<close>

definition ascii :: "string \<Rightarrow> bytes" where
  "ascii s = map (\<lambda>c. of_nat (of_char c)) s"

fun split_once :: "u8 \<Rightarrow> bytes \<Rightarrow> (bytes \<times> bytes) option" where
  "split_once c [] = None"
| "split_once c (b # bs) =
     (if b = c then Some ([], bs) else map_option (\<lambda>(x, y). (b # x, y)) (split_once c bs))"

definition strip_suffix :: "bytes \<Rightarrow> bytes \<Rightarrow> bytes option" where
  "strip_suffix suf bs =
     (if length suf \<le> length bs \<and> drop (length bs - length suf) bs = suf
      then Some (take (length bs - length suf) bs) else None)"

definition to_ascii_lowercase :: "bytes \<Rightarrow> bytes" where
  "to_ascii_lowercase bs = map (\<lambda>b. if 0x41 \<le> b \<and> b \<le> 0x5A then b + 0x20 else b) bs"

lemma split_once_append: "c \<notin> set xs \<Longrightarrow> split_once c (xs @ c # ys) = Some (xs, ys)"
  by (induction xs) auto

lemma split_once_None: "split_once c bs = None \<longleftrightarrow> c \<notin> set bs"
  by (induction bs) auto

lemma strip_suffix_append [simp]: "strip_suffix suf (xs @ suf) = Some xs"
  by (simp add: strip_suffix_def)

lemma strip_suffix_Some: "strip_suffix suf bs = Some xs \<longleftrightarrow> bs = xs @ suf"
  unfolding strip_suffix_def
  by (auto) (metis append_take_drop_id)

section \<open>Scalar values\<close>

definition scalar :: "nat \<Rightarrow> bool" where
  "scalar n \<longleftrightarrow> n < 0xD800 \<or> (0xDFFF < n \<and> n < 0x110000)"

definition utf8_char :: "nat \<Rightarrow> bytes" where
  "utf8_char n =
     (if n < 0x80 then [of_nat n]
      else if n < 0x800 then [of_nat (0xC0 + n div 64), of_nat (0x80 + n mod 64)]
      else if n < 0x10000
      then [of_nat (0xE0 + n div 4096), of_nat (0x80 + n div 64 mod 64), of_nat (0x80 + n mod 64)]
      else [of_nat (0xF0 + n div 262144), of_nat (0x80 + n div 4096 mod 64), of_nat (0x80 + n div 64 mod 64),
            of_nat (0x80 + n mod 64)])"

definition utf8_encode :: "nat list \<Rightarrow> bytes" where
  "utf8_encode cs = concat (map utf8_char cs)"

text \<open>The value of the sequence that starts with \<open>b\<close>; a string holds only well-formed ones.\<close>

definition point_of :: "u8 \<Rightarrow> bytes \<Rightarrow> nat" where
  "point_of b rest =
     (let cont = (\<lambda>i. unat (rest ! i) - 0x80) in
      if utf8_len b \<le> 1 then unat b
      else if utf8_len b = 2 then (unat b - 0xC0) * 64 + cont 0
      else if utf8_len b = 3 then (unat b - 0xE0) * 4096 + cont 0 * 64 + cont 1
      else (unat b - 0xF0) * 262144 + cont 0 * 4096 + cont 1 * 64 + cont 2)"

function utf8_points :: "bytes \<Rightarrow> nat list" where
  "utf8_points [] = []"
| "utf8_points (b # rest) = point_of b rest # utf8_points (drop (utf8_len b - 1) rest)"
  by pat_completeness auto
termination by (relation "measure length") auto

definition utf16_units :: "nat \<Rightarrow> u16 list" where
  "utf16_units n =
     (if n < 0x10000 then [of_nat n]
      else let m = n - 0x10000 in [of_nat (0xD800 + m div 1024), of_nat (0xDC00 + m mod 1024)])"

definition encode_utf16 :: "bytes \<Rightarrow> u16 list" where
  "encode_utf16 s = concat (map utf16_units (utf8_points s))"

definition high_surrogate :: "u16 \<Rightarrow> bool" where "high_surrogate u \<longleftrightarrow> 0xD800 \<le> u \<and> u \<le> 0xDBFF"
definition low_surrogate :: "u16 \<Rightarrow> bool" where "low_surrogate u \<longleftrightarrow> 0xDC00 \<le> u \<and> u \<le> 0xDFFF"

fun utf16_points :: "u16 list \<Rightarrow> nat list" where
  "utf16_points [] = []"
| "utf16_points (u # us) =
     (if \<not> high_surrogate u \<and> \<not> low_surrogate u then unat u # utf16_points us
      else case us of
        v # vs \<Rightarrow>
          if high_surrogate u \<and> low_surrogate v
          then (0x10000 + (unat u - 0xD800) * 1024 + (unat v - 0xDC00)) # utf16_points vs
          else 0xFFFD # utf16_points us
      | [] \<Rightarrow> [0xFFFD])"

definition from_utf16_lossy :: "u16 list \<Rightarrow> bytes" where
  "from_utf16_lossy us = utf8_encode (utf16_points us)"

section \<open>Round trips\<close>

lemma base_64:
  "n div 64 * 64 + n mod 64 = (n :: nat)"
  "n div 4096 * 4096 + n div 64 mod 64 * 64 + n mod 64 = n"
  "n div 262144 * 262144 + n div 4096 mod 64 * 4096 + n div 64 mod 64 * 64 + n mod 64 = n"
proof -
  have d: "n div 4096 = n div 64 div 64" "n div 262144 = n div 64 div 64 div 64"
    by (simp_all flip: div_mult2_eq)
  have 1: "n div 64 * 64 + n mod 64 = n" by simp
  have 2: "n div 64 div 64 * 64 + n div 64 mod 64 = n div 64" by (rule div_mult_mod_eq)
  have 3: "n div 64 div 64 div 64 * 64 + n div 64 div 64 mod 64 = n div 64 div 64" by (rule div_mult_mod_eq)
  show "n div 64 * 64 + n mod 64 = n" by (rule 1)
  show "n div 4096 * 4096 + n div 64 mod 64 * 64 + n mod 64 = n"
    unfolding d using 1 2 by linarith
  show "n div 262144 * 262144 + n div 4096 mod 64 * 4096 + n div 64 mod 64 * 64 + n mod 64 = n"
    unfolding d using 1 2 3 by linarith
qed

lemma utf8_char_cases:
  assumes "scalar n"
  obtains (1) "n < 0x80" "utf8_char n = [of_nat n]"
  | (2) "0x80 \<le> n" "n < 0x800" "utf8_char n = [of_nat (0xC0 + n div 64), of_nat (0x80 + n mod 64)]"
      "2 \<le> n div 64" "n div 64 < 32"
  | (3) "0x800 \<le> n" "n < 0x10000"
      "utf8_char n = [of_nat (0xE0 + n div 4096), of_nat (0x80 + n div 64 mod 64), of_nat (0x80 + n mod 64)]"
      "n div 4096 < 16" "n div 4096 = 0 \<longrightarrow> 32 \<le> n div 64 mod 64" "n div 4096 = 13 \<longrightarrow> n div 64 mod 64 < 32"
  | (4) "0x10000 \<le> n" "n < 0x110000"
      "utf8_char n = [of_nat (0xF0 + n div 262144), of_nat (0x80 + n div 4096 mod 64), of_nat (0x80 + n div 64 mod 64),
            of_nat (0x80 + n mod 64)]"
      "n div 262144 \<le> 4" "n div 262144 = 0 \<longrightarrow> 16 \<le> n div 4096 mod 64" "n div 262144 = 4 \<longrightarrow> n div 4096 mod 64 < 16"
proof -
  consider "n < 0x80" | "0x80 \<le> n" "n < 0x800" | "0x800 \<le> n" "n < 0x10000" | "0x10000 \<le> n" "n < 0x110000"
    using assms by (force simp: scalar_def)
  then show thesis
  proof cases
    case 1
    then show thesis using that(1) by (simp add: utf8_char_def)
  next
    case 2
    then have "2 \<le> n div 64" "n div 64 < 32" by linarith+
    then show thesis using 2 that(2) by (simp add: utf8_char_def)
  next
    case 3
    have b: "n div 4096 * 4096 + n div 64 mod 64 * 64 + n mod 64 = n" "n mod 64 < 64" by (simp_all add: base_64)
    have "n div 4096 < 16" using 3 by linarith
    moreover have "n div 4096 = 0 \<longrightarrow> 32 \<le> n div 64 mod 64" using 3 b by linarith
    moreover have "n div 4096 = 13 \<longrightarrow> n div 64 mod 64 < 32"
    proof
      assume q: "n div 4096 = 13"
      then have "n < 0xE000" using b mod_less_divisor [of 64 "n div 64"] by linarith
      then have "n < 0xD800" using assms by (simp add: scalar_def)
      then show "n div 64 mod 64 < 32" using b q by linarith
    qed
    ultimately show thesis using 3 that(3) by (simp add: utf8_char_def)
  next
    case 4
    have b: "n div 262144 * 262144 + n div 4096 mod 64 * 4096 + n div 64 mod 64 * 64 + n mod 64 = n"
      "n mod 64 < 64" "n div 64 mod 64 < 64" by (simp_all add: base_64)
    have "n div 262144 \<le> 4" using 4 by linarith
    moreover have "n div 262144 = 0 \<longrightarrow> 16 \<le> n div 4096 mod 64" using 4 b by linarith
    moreover have "n div 262144 = 4 \<longrightarrow> n div 4096 mod 64 < 16" using 4 b by linarith
    ultimately show thesis using 4 that(4) by (simp add: utf8_char_def)
  qed
qed

lemma byte_nat: "n < 256 \<Longrightarrow> unat (of_nat n :: u8) = n"
  by (rule unat_of_nat8)

lemma byte_eq: "n < 256 \<Longrightarrow> of_nat n = (w :: u8) \<longleftrightarrow> n = unat w"
  using byte_nat by fastforce

lemmas byte_simps = word_le_nat_alt word_less_nat_alt byte_nat byte_eq

lemma continuation_byte: "k < 64 \<Longrightarrow> continuation (of_nat (0x80 + k))"
  by (simp add: continuation_def in_range_def byte_simps del: of_nat_add)

lemma lead_len:
  "n < 0x80 \<Longrightarrow> utf8_len (of_nat n) = 1"
  "\<lbrakk>2 \<le> k; k < 32\<rbrakk> \<Longrightarrow> utf8_len (of_nat (0xC0 + k)) = 2"
  "k < 16 \<Longrightarrow> utf8_len (of_nat (0xE0 + k)) = 3"
  "k \<le> 4 \<Longrightarrow> utf8_len (of_nat (0xF0 + k)) = 4"
  by (simp_all add: utf8_len_def in_range_def byte_simps del: of_nat_add)

lemma lead_follows:
  "\<lbrakk>2 \<le> k; k < 32; i < 64\<rbrakk> \<Longrightarrow> follows (of_nat (0xC0 + k)) (of_nat (0x80 + i))"
  "\<lbrakk>k < 16; i < 64; k = 0 \<longrightarrow> 32 \<le> i; k = 13 \<longrightarrow> i < 32\<rbrakk> \<Longrightarrow> follows (of_nat (0xE0 + k)) (of_nat (0x80 + i))"
  "\<lbrakk>k \<le> 4; i < 64; k = 0 \<longrightarrow> 16 \<le> i; k = 4 \<longrightarrow> i < 16\<rbrakk> \<Longrightarrow> follows (of_nat (0xF0 + k)) (of_nat (0x80 + i))"
  by (auto simp: follows_def in_range_def byte_simps simp del: of_nat_add)

lemma points_sequences:
  "n < 0x80 \<Longrightarrow> utf8_points (of_nat n # rest) = n # utf8_points rest"
  "\<lbrakk>2 \<le> k; k < 32; i < 64\<rbrakk> \<Longrightarrow>
    utf8_points (of_nat (0xC0 + k) # of_nat (0x80 + i) # rest) = (k * 64 + i) # utf8_points rest"
  "\<lbrakk>k < 16; i < 64; j < 64\<rbrakk> \<Longrightarrow>
    utf8_points (of_nat (0xE0 + k) # of_nat (0x80 + i) # of_nat (0x80 + j) # rest)
      = (k * 4096 + i * 64 + j) # utf8_points rest"
  "\<lbrakk>k \<le> 4; i < 64; j < 64; l < 64\<rbrakk> \<Longrightarrow>
    utf8_points (of_nat (0xF0 + k) # of_nat (0x80 + i) # of_nat (0x80 + j) # of_nat (0x80 + l) # rest)
      = (k * 262144 + i * 4096 + j * 64 + l) # utf8_points rest"
  by (simp_all add: lead_len point_of_def byte_nat del: of_nat_add)

lemma lossy_sequences:
  "n < 0x80 \<Longrightarrow> utf8_lossy (of_nat n # rest) = of_nat n # utf8_lossy rest"
  "\<lbrakk>2 \<le> k; k < 32; i < 64\<rbrakk> \<Longrightarrow>
    utf8_lossy (of_nat (0xC0 + k) # of_nat (0x80 + i) # rest) = of_nat (0xC0 + k) # of_nat (0x80 + i) # utf8_lossy rest"
  "\<lbrakk>k < 16; i < 64; j < 64; k = 0 \<longrightarrow> 32 \<le> i; k = 13 \<longrightarrow> i < 32\<rbrakk> \<Longrightarrow>
    utf8_lossy (of_nat (0xE0 + k) # of_nat (0x80 + i) # of_nat (0x80 + j) # rest)
      = of_nat (0xE0 + k) # of_nat (0x80 + i) # of_nat (0x80 + j) # utf8_lossy rest"
  "\<lbrakk>k \<le> 4; i < 64; j < 64; l < 64; k = 0 \<longrightarrow> 16 \<le> i; k = 4 \<longrightarrow> i < 16\<rbrakk> \<Longrightarrow>
    utf8_lossy (of_nat (0xF0 + k) # of_nat (0x80 + i) # of_nat (0x80 + j) # of_nat (0x80 + l) # rest)
      = of_nat (0xF0 + k) # of_nat (0x80 + i) # of_nat (0x80 + j) # of_nat (0x80 + l) # utf8_lossy rest"
  by (simp_all add: lead_len good_tail_def lead_follows continuation_byte Let_def del: of_nat_add)

lemma utf8_points_char: "scalar n \<Longrightarrow> utf8_points (utf8_char n @ rest) = n # utf8_points rest"
  by (erule utf8_char_cases) (simp_all add: points_sequences base_64 del: of_nat_add utf8_points.simps)

lemma utf8_lossy_char: "scalar n \<Longrightarrow> utf8_lossy (utf8_char n @ rest) = utf8_char n @ utf8_lossy rest"
  by (erule utf8_char_cases) (simp_all add: lossy_sequences del: of_nat_add utf8_lossy.simps)

lemma utf8_points_encode: "list_all scalar cs \<Longrightarrow> utf8_points (utf8_encode cs) = cs"
  by (induction cs) (simp_all add: utf8_encode_def utf8_points_char)

lemma utf8_lossy_encode: "list_all scalar cs \<Longrightarrow> utf8_lossy (utf8_encode cs) = utf8_encode cs"
  by (induction cs) (simp_all add: utf8_encode_def utf8_lossy_char)

lemma unit_nat: "n < 65536 \<Longrightarrow> unat (of_nat n :: u16) = n"
  by (rule unat_of_nat16)

lemma utf16_points_units: "scalar n \<Longrightarrow> utf16_points (utf16_units n @ rest) = n # utf16_points rest"
proof -
  assume n: "scalar n"
  show ?thesis
  proof (cases "n < 0x10000")
    case True
    then show ?thesis using n
      by (auto simp: utf16_units_def high_surrogate_def low_surrogate_def word_le_nat_alt unit_nat scalar_def)
  next
    case False
    let ?m = "n - 0x10000"
    have m: "?m div 1024 < 1024" "?m mod 1024 < 1024" "?m div 1024 * 1024 + ?m mod 1024 = ?m"
      using n False by (auto simp: scalar_def)
    have "n = 0x10000 + ?m div 1024 * 1024 + ?m mod 1024" using m(3) False by linarith
    then show ?thesis using m(1,2) False
      by (simp add: utf16_units_def Let_def high_surrogate_def low_surrogate_def word_le_nat_alt unit_nat del: of_nat_add)
  qed
qed

lemma utf16_points_encode: "list_all scalar cs \<Longrightarrow> utf16_points (concat (map utf16_units cs)) = cs"
  by (induction cs) (simp_all add: utf16_points_units)

text \<open>A string, and one without the null that ends a text header.\<close>

definition is_text :: "bytes \<Rightarrow> bool" where
  "is_text s \<longleftrightarrow> (\<exists>cs. list_all (\<lambda>c. scalar c \<and> c \<noteq> 0) cs \<and> s = utf8_encode cs)"

definition is_utf8 :: "bytes \<Rightarrow> bool" where
  "is_utf8 s \<longleftrightarrow> (\<exists>cs. list_all scalar cs \<and> s = utf8_encode cs)"

lemma is_text_utf8: "is_text s \<Longrightarrow> is_utf8 s"
  unfolding is_text_def is_utf8_def by (metis (no_types, lifting) list.pred_mono_strong)

lemma is_utf8_lossy: "is_utf8 s \<Longrightarrow> utf8_lossy s = s"
  by (auto simp: is_utf8_def utf8_lossy_encode)

lemma utf16_roundtrip: "is_utf8 s \<Longrightarrow> from_utf16_lossy (encode_utf16 s) = s"
  by (auto simp: is_utf8_def from_utf16_lossy_def encode_utf16_def utf8_points_encode utf16_points_encode)

lemma units_not_null: "\<lbrakk>scalar n; n \<noteq> 0; u \<in> set (utf16_units n)\<rbrakk> \<Longrightarrow> u \<noteq> 0"
proof (cases "n < 0x10000")
  case True
  assume "n \<noteq> 0" "u \<in> set (utf16_units n)"
  then have "unat u = n" "n \<noteq> 0" using True unit_nat [of n] by (auto simp: utf16_units_def)
  then show "u \<noteq> 0" by auto
next
  case False
  let ?m = "n - 0x10000"
  assume "scalar n" "u \<in> set (utf16_units n)"
  then have m: "?m div 1024 < 1024" "?m mod 1024 < 1024"
    and u: "u = of_nat (0xD800 + ?m div 1024) \<or> u = of_nat (0xDC00 + ?m mod 1024)"
    using False by (auto simp: scalar_def utf16_units_def Let_def simp del: of_nat_add)
  have "unat (of_nat (0xD800 + ?m div 1024) :: u16) = 0xD800 + ?m div 1024"
    "unat (of_nat (0xDC00 + ?m mod 1024) :: u16) = 0xDC00 + ?m mod 1024"
    using m by (intro unit_nat; linarith)+
  then have "unat u \<noteq> 0" using u by auto
  then show "u \<noteq> 0" by auto
qed

lemma encode_utf16_no_null: "is_text s \<Longrightarrow> 0 \<notin> set (encode_utf16 s)"
proof -
  assume "is_text s"
  then obtain cs where cs: "list_all (\<lambda>c. scalar c \<and> c \<noteq> 0) cs" "s = utf8_encode cs" by (auto simp: is_text_def)
  then have "list_all scalar cs" by (metis (no_types, lifting) list.pred_mono_strong)
  then show ?thesis using cs units_not_null by (fastforce simp: encode_utf16_def utf8_points_encode list_all_iff)
qed

end
