(* ===== verification/Image_Listing.thy ===== *)
theory Image_Listing
  imports Text A2dp_Codec
begin

text \<open>
  Image properties of \<^verbatim>\<open>crates/proto-bluetooth-audio/src/obex.rs\<close>: what a peer lists of an
  image, and which form and size of it to ask for; with \<^verbatim>\<open>ImageFormat\<close> of
  \<^verbatim>\<open>crates/core/src/nowplaying.rs\<close>. The XML reader is the crate \<^verbatim>\<open>quick_xml\<close>: an \<open>xml\<close> says
  what it reads of a document, the elements that start with the attributes it could read, or
  its error, and the text of the error of a document that is not UTF-8.
\<close>

section \<open>Image formats\<close>

datatype image_format =
    Jpeg | Png | Gif | Bmp | WebP | Tiff | Ico | Tga | Hdr | OpenExr | Pnm | Qoi

definition format_tokens :: "(string \<times> image_format) list" where
  "format_tokens =
     [(''jpeg'', Jpeg), (''jpg'', Jpeg), (''png'', Png), (''gif'', Gif),
      (''bmp'', Bmp), (''x-bmp'', Bmp), (''x-ms-bmp'', Bmp), (''webp'', WebP),
      (''tiff'', Tiff), (''tif'', Tiff), (''ico'', Ico), (''x-icon'', Ico), (''vnd.microsoft.icon'', Ico),
      (''tga'', Tga), (''targa'', Tga), (''x-targa'', Tga), (''x-tga'', Tga),
      (''hdr'', Hdr), (''vnd.radiance'', Hdr), (''exr'', OpenExr), (''x-exr'', OpenExr),
      (''pnm'', Pnm), (''x-portable-anymap'', Pnm), (''x-portable-bitmap'', Pnm), (''x-portable-graymap'', Pnm),
      (''x-portable-pixmap'', Pnm), (''qoi'', Qoi), (''x-qoi'', Qoi)]"

definition after_last :: "u8 \<Rightarrow> bytes \<Rightarrow> bytes" where
  "after_last c s = rev (takeWhile (\<lambda>b. b \<noteq> c) (rev s))"

definition image_format_parse :: "bytes \<Rightarrow> image_format option" where
  "image_format_parse s =
     map_of (map (\<lambda>(t, f). (ascii t, f)) format_tokens) (to_ascii_lowercase (trim (after_last 0x2F s)))"

fun image_mime :: "image_format \<Rightarrow> string" where
  "image_mime Jpeg = ''image/jpeg''"
| "image_mime Png = ''image/png''"
| "image_mime Gif = ''image/gif''"
| "image_mime Bmp = ''image/bmp''"
| "image_mime WebP = ''image/webp''"
| "image_mime Tiff = ''image/tiff''"
| "image_mime Ico = ''image/x-icon''"
| "image_mime Tga = ''image/x-targa''"
| "image_mime Hdr = ''image/vnd.radiance''"
| "image_mime OpenExr = ''image/x-exr''"
| "image_mime Pnm = ''image/x-portable-anymap''"
| "image_mime Qoi = ''image/x-qoi''"

definition starts_with :: "bytes \<Rightarrow> bytes \<Rightarrow> bool" where
  "starts_with prefix data \<longleftrightarrow> take (length prefix) data = prefix"

definition sniff_format :: "bytes \<Rightarrow> image_format option" where
  "sniff_format data =
     (if 12 \<le> length data \<and> starts_with (ascii ''RIFF'') data \<and> take 4 (drop 8 data) = ascii ''WEBP'' then Some WebP
      else if starts_with [0xFF, 0xD8, 0xFF] data then Some Jpeg
      else if starts_with (0x89 # ascii ''PNG'') data then Some Png
      else if starts_with (ascii ''GIF8'') data then Some Gif
      else if starts_with (ascii ''BM'') data then Some Bmp
      else if starts_with (ascii ''II'' @ [0x2A, 0x00]) data \<or> starts_with (ascii ''MM'' @ [0x00, 0x2A]) data then Some Tiff
      else if starts_with [0x00, 0x00, 0x01, 0x00] data then Some Ico
      else if starts_with (ascii ''qoif'') data then Some Qoi
      else if starts_with [0x76, 0x2F, 0x31, 0x01] data then Some OpenExr
      else if starts_with (ascii ''#?RADIANCE'') data \<or> starts_with (ascii ''#?RGBE'') data then Some Hdr
      else (case data of
              p # kind # _ \<Rightarrow> if p = 0x50 \<and> 0x31 \<le> kind \<and> kind \<le> 0x37 then Some Pnm else None
            | _ \<Rightarrow> None))"

datatype encoding = KnownEncoding image_format bytes | UnknownEncoding bytes

definition encoding_parse :: "bytes \<Rightarrow> encoding" where
  "encoding_parse token =
     (case image_format_parse token of None \<Rightarrow> UnknownEncoding token | Some f \<Rightarrow> KnownEncoding f token)"

fun encoding_format :: "encoding \<Rightarrow> image_format option" where
  "encoding_format (KnownEncoding f _) = Some f"
| "encoding_format (UnknownEncoding _) = None"

fun encoding_token :: "encoding \<Rightarrow> bytes" where
  "encoding_token (KnownEncoding _ token) = token"
| "encoding_token (UnknownEncoding token) = token"

section \<open>Pixel sizes\<close>

datatype pixel_size =
    FixedSize u16 u16
  | SizeRange u16 u16 u16 u16
  | FixedRatioRange u16 u16 u16

definition is_ascii_digit :: "u8 \<Rightarrow> bool" where
  "is_ascii_digit b \<longleftrightarrow> 0x30 \<le> b \<and> b \<le> 0x39"

definition pixel_number :: "bytes \<Rightarrow> u16 option" where
  "pixel_number s =
     (if s = [] \<or> 5 < length s \<or> \<not> list_all is_ascii_digit s then None
      else map_option of_nat (parse_decimal 65535 s))"

definition dimension :: "bytes \<Rightarrow> (u16 \<times> u16) option" where
  "dimension s =
     Option.bind (split_once 0x2A s) (\<lambda>(w, h).
       Option.bind (pixel_number w) (\<lambda>w. Option.bind (pixel_number h) (\<lambda>h. Some (w, h))))"

definition pixel_parse :: "bytes \<Rightarrow> pixel_size option" where
  "pixel_parse v =
     (case split_once 0x2D v of
        None \<Rightarrow> Option.bind (dimension v) (\<lambda>(w, h). Some (FixedSize w h))
      | Some (lower, upper) \<Rightarrow>
          Option.bind (dimension upper) (\<lambda>(max_w, max_h).
            case strip_suffix [0x2A, 0x2A] lower of
              Some mw \<Rightarrow>
                Option.bind (pixel_number mw) (\<lambda>min_w.
                  if min_w \<le> max_w then Some (FixedRatioRange min_w max_w max_h) else None)
            | None \<Rightarrow>
                Option.bind (dimension lower) (\<lambda>(min_w, min_h).
                  if min_w \<le> max_w \<and> min_h \<le> max_h then Some (SizeRange min_w min_h max_w max_h) else None)))"

definition print16 :: "u16 \<Rightarrow> bytes" where
  "print16 w = decimal (unat w)"

fun as_written :: "pixel_size \<Rightarrow> bytes" where
  "as_written (FixedSize w h) = print16 w @ [0x2A] @ print16 h"
| "as_written (SizeRange min_w min_h max_w max_h) =
     print16 min_w @ [0x2A] @ print16 min_h @ [0x2D] @ print16 max_w @ [0x2A] @ print16 max_h"
| "as_written (FixedRatioRange min_w max_w max_h) =
     print16 min_w @ [0x2A, 0x2A, 0x2D] @ print16 max_w @ [0x2A] @ print16 max_h"

fun largest_size :: "pixel_size \<Rightarrow> u16 \<times> u16" where
  "largest_size (FixedSize w h) = (w, h)"
| "largest_size (SizeRange _ _ max_w max_h) = (max_w, max_h)"
| "largest_size (FixedRatioRange _ max_w max_h) = (max_w, max_h)"

definition scaled :: "u16 \<Rightarrow> u16 \<Rightarrow> u16 \<Rightarrow> u16" where
  "scaled v numerator denominator =
     (let s = ((ucast v :: u32) * ucast numerator) div ucast (max denominator 1) in u16_or_max (unat s))"

fun best_within :: "u16 \<Rightarrow> pixel_size \<Rightarrow> (u16 \<times> u16) option" where
  "best_within max_side (FixedSize w h) = (if w \<le> max_side \<and> h \<le> max_side then Some (w, h) else None)"
| "best_within max_side (SizeRange min_w min_h max_w max_h) =
     (if max_side < min_w \<or> max_side < min_h then None else Some (min max_w max_side, min max_h max_side))"
| "best_within max_side (FixedRatioRange min_w max_w max_h) =
     (let longest = max max_w max_h in
      if longest \<le> max_side then Some (max_w, max_h)
      else let w = scaled max_w max_side longest; h = scaled max_h max_side longest in
        if min_w \<le> w then Some (w, h) else None)"

section \<open>The listing\<close>

datatype variant_kind = NativeImage | VariantImage

datatype byte_size = Exact nat | AtMost nat

record image_variant =
  iv_kind :: variant_kind
  iv_encoding :: encoding
  iv_pixel :: "pixel_size option"
  iv_size :: "byte_size option"

record image_properties =
  ip_handle :: "bytes option"
  ip_variants :: "image_variant list"

type_synonym xml_element = "bytes \<times> (bytes \<times> bytes) list"

record xml =
  xml_read :: "bytes \<Rightarrow> bytes + xml_element list"
  xml_utf8_error :: "bytes \<Rightarrow> bytes"

definition xml_attribute :: "xml_element \<Rightarrow> string \<Rightarrow> bytes option" where
  "xml_attribute e key =
     map_option (\<lambda>(_, v). trim (utf8_lossy v)) (find (\<lambda>(k, _). k = ascii key) (snd e))"

definition variant_of :: "variant_kind \<Rightarrow> xml_element \<Rightarrow> image_variant option" where
  "variant_of kind e =
     map_option (\<lambda>enc.
         \<lparr>iv_kind = kind, iv_encoding = encoding_parse enc,
          iv_pixel = Option.bind (xml_attribute e ''pixel'') pixel_parse,
          iv_size =
            (if kind = NativeImage
             then map_option Exact (Option.bind (xml_attribute e ''size'') (parse_decimal u64_max))
             else map_option AtMost (Option.bind (xml_attribute e ''maxsize'') (parse_decimal u64_max)))\<rparr>)
       (xml_attribute e ''encoding'')"

fun read_elements :: "xml_element list \<Rightarrow> bool \<times> image_properties \<Rightarrow> bool \<times> image_properties" where
  "read_elements [] (saw_root, out) = (saw_root, out)"
| "read_elements (e # es) (saw_root, out) =
     (if fst e = ascii ''image-properties''
      then read_elements es (True, out\<lparr>ip_handle := xml_attribute e ''handle''\<rparr>)
      else if fst e = ascii ''native'' \<or> fst e = ascii ''variant''
      then (case variant_of (if fst e = ascii ''native'' then NativeImage else VariantImage) e of
              None \<Rightarrow> read_elements es (saw_root, out)
            | Some v \<Rightarrow> read_elements es (saw_root, out\<lparr>ip_variants := ip_variants out @ [v]\<rparr>))
      else read_elements es (saw_root, out))"

definition properties_parse :: "xml \<Rightarrow> bytes \<Rightarrow> audio_error + image_properties" where
  "properties_parse x doc =
     (if utf8_lossy doc \<noteq> doc then Inl (BadImageProperties (xml_utf8_error x doc))
      else case xml_read x doc of
        Inl e \<Rightarrow> Inl (BadImageProperties e)
      | Inr es \<Rightarrow>
          let (saw_root, out) = read_elements es (False, \<lparr>ip_handle = None, ip_variants = []\<rparr>) in
          if \<not> saw_root then Inl (BadImageProperties (ascii ''no image-properties element'')) else Inr out)"

record chosen_image =
  ci_variant :: image_variant
  ci_size :: "u16 \<times> u16"

definition quoted :: "bytes \<Rightarrow> bytes" where
  "quoted s = [0x22] @ s @ [0x22]"

definition descriptor_xml :: "chosen_image \<Rightarrow> bytes" where
  "descriptor_xml c =
     (let (w, h) = ci_size c in
      ascii ''<image-descriptor version='' @ quoted (ascii ''1.0'') @ ascii ''>'' @ [0x0A]
      @ ascii ''<image encoding='' @ quoted (encoding_token (iv_encoding (ci_variant c)))
      @ ascii '' pixel='' @ quoted (print16 w @ [0x2A] @ print16 h) @ ascii ''/>'' @ [0x0A]
      @ ascii ''</image-descriptor>'' @ [0x0A])"

definition cheap_for_the_radio :: "chosen_image \<Rightarrow> bool" where
  "cheap_for_the_radio c \<longleftrightarrow> encoding_format (iv_encoding (ci_variant c)) = Some Jpeg"

definition affordable :: "nat \<Rightarrow> image_variant \<Rightarrow> bool" where
  "affordable max_bytes v \<longleftrightarrow>
     (case iv_size v of Some (Exact n) \<Rightarrow> n \<le> max_bytes | Some (AtMost n) \<Rightarrow> n \<le> max_bytes | None \<Rightarrow> True)"

definition candidate :: "u16 \<Rightarrow> image_variant \<Rightarrow> chosen_image option" where
  "candidate max_side v =
     Option.bind (iv_pixel v) (\<lambda>p. Option.bind (best_within max_side p) (\<lambda>s. Some \<lparr>ci_variant = v, ci_size = s\<rparr>))"

definition image_key :: "chosen_image \<Rightarrow> u32 \<times> bool" where
  "image_key c = (ucast (fst (ci_size c)) * ucast (snd (ci_size c)), cheap_for_the_radio c)"

definition key_le :: "u32 \<times> bool \<Rightarrow> u32 \<times> bool \<Rightarrow> bool" where
  "key_le a b \<longleftrightarrow> fst a < fst b \<or> (fst a = fst b \<and> (snd a \<longrightarrow> snd b))"

text \<open>\<open>max_by_key\<close> keeps the last of equal maxima.\<close>

fun max_image :: "chosen_image list \<Rightarrow> chosen_image option" where
  "max_image [] = None"
| "max_image (c # cs) =
     (case max_image cs of
        None \<Rightarrow> Some c
      | Some d \<Rightarrow> if key_le (image_key c) (image_key d) then Some d else Some c)"

definition largest_decodable_within :: "u16 \<Rightarrow> nat \<Rightarrow> image_properties \<Rightarrow> chosen_image option" where
  "largest_decodable_within max_side max_bytes p =
     max_image (List.map_filter (candidate max_side)
       (filter (affordable max_bytes) (filter (\<lambda>v. encoding_format (iv_encoding v) \<noteq> None) (ip_variants p))))"

definition largest_decodable :: "image_properties \<Rightarrow> chosen_image option" where
  "largest_decodable p = largest_decodable_within 0xFFFF u64_max p"

section \<open>Pixel sizes are read as they are written\<close>

fun pixel_ok :: "pixel_size \<Rightarrow> bool" where
  "pixel_ok (FixedSize _ _) \<longleftrightarrow> True"
| "pixel_ok (SizeRange min_w min_h max_w max_h) \<longleftrightarrow> min_w \<le> max_w \<and> min_h \<le> max_h"
| "pixel_ok (FixedRatioRange min_w max_w _) \<longleftrightarrow> min_w \<le> max_w"

lemma decimal_length: "n < 10 ^ k \<Longrightarrow> 0 < k \<Longrightarrow> length (decimal n) \<le> k"
proof (induction k arbitrary: n)
  case (Suc k)
  show ?case
  proof (cases "n < 10")
    case True
    then show ?thesis by (subst decimal.simps) simp
  next
    case False
    then have "k \<noteq> 0" using Suc.prems by (cases k) auto
    moreover have "n div 10 < 10 ^ k" using Suc.prems(1) by (simp add: less_mult_imp_div_less mult.commute)
    ultimately have "length (decimal (n div 10)) \<le> k" using Suc.IH by simp
    then show ?thesis using False by (subst decimal.simps) simp
  qed
qed simp

lemma print16_digits: "b \<in> set (print16 w) \<Longrightarrow> is_ascii_digit b"
  using decimal_digits by (auto simp: print16_def is_ascii_digit_def)

lemma print16_clean [simp]: "0x2A \<notin> set (print16 w)" "0x2D \<notin> set (print16 w)" "print16 w \<noteq> []"
proof -
  show "0x2A \<notin> set (print16 w)" "0x2D \<notin> set (print16 w)"
    using print16_digits by (fastforce simp: is_ascii_digit_def)+
  show "print16 w \<noteq> []" by (simp add: print16_def)
qed

lemma pixel_number_print [simp]: "pixel_number (print16 w) = Some w"
proof -
  have w: "unat w < 2 ^ LENGTH(16)" by (rule unsigned_less)
  have "length (print16 w) \<le> 5" unfolding print16_def using w by (intro decimal_length) simp_all
  moreover have "list_all is_ascii_digit (print16 w)" using print16_digits by (simp add: list_all_iff)
  moreover have "parse_decimal 65535 (print16 w) = Some (unat w)"
    unfolding print16_def using w by (intro parse_decimal_decimal) simp
  ultimately show ?thesis by (simp add: pixel_number_def)
qed

lemma dimension_print [simp]: "dimension (print16 w @ 0x2A # print16 h) = Some (w, h)"
  by (simp add: dimension_def split_once_append)

lemma strip_stars:
  "strip_suffix [0x2A, 0x2A] (xs @ [0x2A, 0x2A]) = Some xs"
  "strip_suffix [0x2A, 0x2A] (xs @ 0x2A # print16 h) = None"
proof -
  show "strip_suffix [0x2A, 0x2A] (xs @ [0x2A, 0x2A]) = Some xs" by (rule strip_suffix_append)
  have "last (xs @ 0x2A # print16 h) \<noteq> 0x2A"
    using print16_clean(1,3) [of h] by (metis last_ConsR last_appendR last_in_set list.distinct(1))
  moreover have "last (ys @ [0x2A, 0x2A]) = (0x2A :: u8)" for ys by simp
  ultimately show "strip_suffix [0x2A, 0x2A] (xs @ 0x2A # print16 h) = None"
    using strip_suffix_Some by (metis option.exhaust)
qed

lemma pixel_roundtrip_raw:
  "pixel_ok p \<Longrightarrow> pixel_parse (as_written p) = Some p"
proof (cases p)
  case (FixedSize w h)
  have "split_once 0x2D (print16 w @ 0x2A # print16 h) = None" by (auto simp: split_once_None)
  then show ?thesis by (simp add: FixedSize pixel_parse_def)
next
  case (SizeRange min_w min_h max_w max_h)
  assume "pixel_ok p"
  moreover have "split_once 0x2D ((print16 min_w @ 0x2A # print16 min_h) @ 0x2D # print16 max_w @ 0x2A # print16 max_h)
      = Some (print16 min_w @ 0x2A # print16 min_h, print16 max_w @ 0x2A # print16 max_h)"
    by (rule split_once_append) auto
  ultimately show ?thesis by (simp add: SizeRange pixel_parse_def strip_stars)
next
  case (FixedRatioRange min_w max_w max_h)
  assume "pixel_ok p"
  moreover have "split_once 0x2D ((print16 min_w @ [0x2A, 0x2A]) @ 0x2D # print16 max_w @ 0x2A # print16 max_h)
      = Some (print16 min_w @ [0x2A, 0x2A], print16 max_w @ 0x2A # print16 max_h)"
    by (rule split_once_append) auto
  ultimately show ?thesis by (simp add: FixedRatioRange pixel_parse_def strip_stars)
qed

lemma pixel_parse_ok: "pixel_parse v = Some p \<Longrightarrow> pixel_ok p"
  by (auto simp: pixel_parse_def bind_eq_Some_conv split: option.splits prod.splits if_splits)

text \<open>
  The three spellings of a pixel size read back: a descriptor is one the parser can give (the
  lower bounds do not exceed the upper ones) if and only if it parses from its own text.
\<close>

theorem pixel_roundtrip: "pixel_ok p \<longleftrightarrow> pixel_parse (as_written p) = Some p"
  using pixel_roundtrip_raw pixel_parse_ok by blast

section \<open>The size asked for\<close>

text \<open>The sizes a descriptor offers. A pinned ratio is kept to within a pixel.\<close>

fun offers :: "pixel_size \<Rightarrow> u16 \<Rightarrow> u16 \<Rightarrow> bool" where
  "offers (FixedSize w h) w' h' \<longleftrightarrow> w' = w \<and> h' = h"
| "offers (SizeRange min_w min_h max_w max_h) w h \<longleftrightarrow> min_w \<le> w \<and> w \<le> max_w \<and> min_h \<le> h \<and> h \<le> max_h"
| "offers (FixedRatioRange min_w max_w max_h) w h \<longleftrightarrow>
     min_w \<le> w \<and> w \<le> max_w \<and> h \<le> max_h
     \<and> unat w * unat max_h \<le> (unat h + 1) * unat max_w \<and> unat h * unat max_w \<le> (unat w + 1) * unat max_h"

lemma unat_scaled:
  assumes "v \<le> d" "0 < d"
  shows "unat (scaled v n d) = unat v * unat n div unat d"
proof -
  have v: "unat v < 2 ^ LENGTH(16)" "unat n < 2 ^ LENGTH(16)" by (rule unsigned_less)+
  have "unat v * unat n \<le> 65535 * 65535" using v by (intro mult_mono) simp_all
  then have m: "unat ((ucast v :: u32) * ucast n) = unat v * unat n"
    using v by (subst unat_mult_lem [THEN iffD1]) (simp_all add: unsigned_ucast_eq take_bit_nat_eq_self)
  have "1 \<le> d" using assms(2) by (simp add: word_le_nat_alt word_less_nat_alt)
  then have d: "max d 1 = d" by (simp add: max_def)
  have ud: "unat (ucast d :: u32) = unat d"
  proof -
    have "unat d < 2 ^ LENGTH(16)" by (rule unsigned_less)
    then show ?thesis by (simp add: unsigned_ucast_eq take_bit_nat_eq_self)
  qed
  have "unat v * unat n div unat d \<le> unat n"
  proof -
    have "unat v * unat n \<le> unat d * unat n" using assms(1) by (simp add: word_le_nat_alt)
    then have "unat v * unat n div unat d \<le> unat d * unat n div unat d" by (rule div_le_mono)
    moreover have "unat d \<noteq> 0" using assms(2) by (simp add: word_less_nat_alt)
    ultimately show ?thesis by simp
  qed
  then have "unat v * unat n div unat d < 2 ^ 16" using v(2) by simp
  then show ?thesis
    by (simp add: scaled_def Let_def d unat_div m ud u16_or_max_def u16_try_from_def)
qed

lemma scaled_within:
  fixes W H m L :: nat
  assumes "W \<le> L" "0 < L" "m \<le> L"
  shows "W * m div L \<le> m" "W * m div L \<le> W"
proof -
  have "W * m div L \<le> L * m div L" "W * m div L \<le> W * L div L"
    using assms by (intro div_le_mono mult_le_mono; simp)+
  then show "W * m div L \<le> m" "W * m div L \<le> W" using assms(2) by simp_all
qed

lemma quotient_below: "0 < (d :: nat) \<Longrightarrow> n \<le> (n div d + 1) * d"
  by (metis add.commute add_le_cancel_left div_mult_mod_eq less_imp_le mod_less_divisor mult_Suc plus_1_eq_Suc)

lemma scaled_ratio:
  fixes W H m :: nat
  assumes "0 < max W H"
  shows "W * m div max W H * H \<le> (H * m div max W H + 1) * W"
proof (cases "H \<le> W")
  case True
  then have "W * m div max W H = m" using assms by (simp add: max_def)
  moreover have "H * m \<le> (H * m div W + 1) * W" using assms True by (intro quotient_below) (simp add: max_def)
  ultimately show ?thesis using True by (simp add: max_def mult.commute)
next
  case False
  then have "H * m div max W H = m" by (simp add: max_def)
  moreover have "W * m div H * H \<le> m * W" by (metis mult.commute div_times_less_eq_dividend)
  moreover have "m * W \<le> (m + 1) * W" by simp
  ultimately show ?thesis using False by (simp add: max_def)
qed

lemma unat_max: "unat (max a b) = max (unat a) (unat b)"
  by (simp add: max_def word_le_nat_alt)

lemma ratio_size:
  assumes "max_side < max max_w max_h"
  shows "unat (scaled max_w max_side (max max_w max_h)) = unat max_w * unat max_side div max (unat max_w) (unat max_h)"
    "unat (scaled max_h max_side (max max_w max_h)) = unat max_h * unat max_side div max (unat max_w) (unat max_h)"
    "0 < max (unat max_w) (unat max_h)" "unat max_side \<le> max (unat max_w) (unat max_h)"
proof -
  have m: "unat max_side < max (unat max_w) (unat max_h)" using assms by (simp add: word_less_nat_alt unat_max)
  then have "0 < max max_w max_h" unfolding word_less_nat_alt by (simp add: unat_max)
  then show "unat (scaled max_w max_side (max max_w max_h)) = unat max_w * unat max_side div max (unat max_w) (unat max_h)"
    "unat (scaled max_h max_side (max max_w max_h)) = unat max_h * unat max_side div max (unat max_w) (unat max_h)"
    by (simp_all add: unat_scaled unat_max)
  show "0 < max (unat max_w) (unat max_h)" "unat max_side \<le> max (unat max_w) (unat max_h)" using m by linarith+
qed

lemma best_within_ratio:
  "max_side < max max_w max_h \<Longrightarrow>
    best_within max_side (FixedRatioRange min_w max_w max_h) =
      (let w = scaled max_w max_side (max max_w max_h); h = scaled max_h max_side (max max_w max_h) in
        if min_w \<le> w then Some (w, h) else None)"
  unfolding best_within.simps Let_def by (simp only: not_le [symmetric] if_False)

lemma best_within_sound:
  assumes ok: "pixel_ok p" and b: "best_within max_side p = Some (w, h)"
  shows "w \<le> max_side \<and> h \<le> max_side \<and> offers p w h"
proof (cases p)
  case (FixedRatioRange min_w max_w max_h)
  show ?thesis
  proof (cases "max max_w max_h \<le> max_side")
    case True
    then show ?thesis using b ok by (auto simp: FixedRatioRange)
  next
    case False
    then have big: "max_side < max max_w max_h" by (simp only: not_le)
    let ?W = "unat max_w" and ?H = "unat max_h" and ?m = "unat max_side"
    have wh: "w = scaled max_w max_side (max max_w max_h)" "h = scaled max_h max_side (max max_w max_h)" "min_w \<le> w"
      using b unfolding FixedRatioRange best_within_ratio [OF big] by (simp_all only: Let_def split: if_splits) simp_all
    note r = ratio_size [OF big]
    have u: "unat w = ?W * ?m div max ?W ?H" "unat h = ?H * ?m div max ?W ?H" using r(1,2) wh by simp_all
    have "unat w \<le> ?m" "unat w \<le> ?W" unfolding u(1) using r(3,4) by (intro scaled_within; simp)+
    moreover have "unat h \<le> ?m" "unat h \<le> ?H" unfolding u(2) using r(3,4) by (intro scaled_within; simp)+
    moreover have "unat w * ?H \<le> (unat h + 1) * ?W" unfolding u using scaled_ratio [OF r(3)] .
    moreover have "unat h * ?W \<le> (unat w + 1) * ?H"
      unfolding u using scaled_ratio [of ?H ?W ?m] r(3) by (simp add: max.commute)
    ultimately show ?thesis using wh(3) by (simp add: FixedRatioRange word_le_nat_alt)
  qed
qed (use ok b in \<open>auto split: if_splits\<close>)

text \<open>The smallest form of a descriptor is over the ceiling.\<close>

fun smallest_over :: "u16 \<Rightarrow> pixel_size \<Rightarrow> bool" where
  "smallest_over m (FixedSize w h) \<longleftrightarrow> m < w \<or> m < h"
| "smallest_over m (SizeRange min_w min_h _ _) \<longleftrightarrow> m < min_w \<or> m < min_h"
| "smallest_over m (FixedRatioRange min_w max_w max_h) \<longleftrightarrow>
     m < min_w \<or> unat m * unat max_w < unat min_w * unat max_h"

lemma best_within_None:
  assumes "pixel_ok p"
  shows "best_within max_side p = None \<longleftrightarrow> smallest_over max_side p"
proof (cases p)
  case (FixedRatioRange min_w max_w max_h)
  let ?W = "unat max_w" and ?H = "unat max_h" and ?m = "unat max_side" and ?l = "unat min_w"
  have l: "?l \<le> ?W" using assms by (simp add: FixedRatioRange word_le_nat_alt)
  show ?thesis
  proof (cases "max max_w max_h \<le> max_side")
    case True
    then have "max_w \<le> max_side" "max_h \<le> max_side" by simp_all
    then have "?W \<le> ?m" "?H \<le> ?m" by (simp_all only: word_le_nat_alt)
    then have "?l * ?H \<le> ?W * ?m" "?l \<le> ?m" using l by (auto intro: mult_le_mono)
    then show ?thesis using True by (simp add: FixedRatioRange word_less_nat_alt mult.commute not_less)
  next
    case False
    then have big: "max_side < max max_w max_h" by (simp only: not_le)
    note r = ratio_size [OF big]
    have "best_within max_side p = None \<longleftrightarrow> ?W * ?m div max ?W ?H < ?l"
      unfolding FixedRatioRange best_within_ratio [OF big] by (simp add: Let_def word_le_nat_alt r(1) not_le)
    also have "\<dots> \<longleftrightarrow> ?m < ?l \<or> ?m * ?W < ?l * ?H"
    proof (cases "?H \<le> ?W")
      case True
      then have "?W * ?m div max ?W ?H = ?m" using r(3) by (simp add: max_def)
      moreover have "?l * ?H \<le> ?m * ?W" if "?l \<le> ?m" using that True by (rule mult_le_mono)
      ultimately show ?thesis by (metis not_less)
    next
      case False
      then have d: "?W * ?m div max ?W ?H < ?l \<longleftrightarrow> ?W * ?m < ?l * ?H"
        by (simp add: max_def div_less_iff_less_mult)
      moreover have "?m * ?W < ?l * ?H" if "?m < ?l"
      proof -
        have "?m * ?W \<le> ?m * ?H" using False by simp
        also have "\<dots> < ?l * ?H" using that False by simp
        finally show ?thesis .
      qed
      ultimately show ?thesis by (auto simp: mult.commute)
    qed
    finally show ?thesis by (simp add: FixedRatioRange word_less_nat_alt)
  qed
qed (use assms in \<open>auto simp: not_le\<close>)

section \<open>The form asked for\<close>

lemma key_le_trans: "\<lbrakk>key_le a b; key_le b c\<rbrakk> \<Longrightarrow> key_le a c"
  by (auto simp: key_le_def)

lemma key_le_total: "key_le a b \<or> key_le b a"
  by (auto simp: key_le_def)

lemma key_le_refl [simp]: "key_le a a"
  by (simp add: key_le_def)

lemma max_image_best: "max_image cs = Some c \<Longrightarrow> c \<in> set cs \<and> (\<forall>d\<in>set cs. key_le (image_key d) (image_key c))"
proof (induction cs arbitrary: c)
  case (Cons x cs)
  show ?case
  proof (cases "max_image cs")
    case None
    then have "cs = []" by (cases cs) (auto split: option.splits if_splits)
    then show ?thesis using Cons.prems by auto
  next
    case (Some d)
    note ih = Cons.IH [OF Some]
    show ?thesis
    proof (cases "key_le (image_key x) (image_key d)")
      case True
      then show ?thesis using Cons.prems Some ih by auto
    next
      case False
      then have "key_le (image_key d) (image_key x)" using key_le_total by blast
      moreover have "c = x" using False Cons.prems Some by simp
      ultimately show ?thesis using ih key_le_trans [of _ "image_key d"] by auto
    qed
  qed
qed simp

lemma variant_pixel_ok: "\<lbrakk>variant_of k e = Some v; iv_pixel v = Some s\<rbrakk> \<Longrightarrow> pixel_ok s"
  by (auto simp: variant_of_def bind_eq_Some_conv intro: pixel_parse_ok)

lemma read_elements_pixel_ok:
  "\<lbrakk>read_elements es (r, out) = (r', out'); \<forall>v\<in>set (ip_variants out). \<forall>s. iv_pixel v = Some s \<longrightarrow> pixel_ok s\<rbrakk>
    \<Longrightarrow> \<forall>v\<in>set (ip_variants out'). \<forall>s. iv_pixel v = Some s \<longrightarrow> pixel_ok s"
proof (induction es arbitrary: r out)
  case (Cons e es)
  note ih = Cons.IH and prems = Cons.prems
  show ?case
  proof (cases "fst e = ascii ''image-properties''")
    case True
    then show ?thesis using prems ih [of True "out\<lparr>ip_handle := xml_attribute e ''handle''\<rparr>"] by simp
  next
    case False
    let ?k = "if fst e = ascii ''native'' then NativeImage else VariantImage"
    show ?thesis
    proof (cases "(fst e = ascii ''native'' \<or> fst e = ascii ''variant'') \<and> variant_of ?k e \<noteq> None")
      case True
      then obtain v where v: "variant_of ?k e = Some v" by blast
      then have "\<forall>s. iv_pixel v = Some s \<longrightarrow> pixel_ok s" using variant_pixel_ok by blast
      then show ?thesis
        using prems False True v ih [of r "out\<lparr>ip_variants := ip_variants out @ [v]\<rparr>"]
        by (auto simp del: if_split)
    next
      case False
      then show ?thesis using prems ih [of r out] \<open>fst e \<noteq> ascii ''image-properties''\<close>
        by (auto split: if_splits option.splits)
    qed
  qed
qed simp

lemma properties_pixel_ok:
  "\<lbrakk>properties_parse x doc = Inr p; v \<in> set (ip_variants p); iv_pixel v = Some s\<rbrakk> \<Longrightarrow> pixel_ok s"
  using read_elements_pixel_ok [where r = False and out = "\<lparr>ip_handle = None, ip_variants = []\<rparr>"]
  by (auto simp: properties_parse_def Let_def split: if_splits sum.splits prod.splits)

definition in_budget :: "nat \<Rightarrow> image_variant \<Rightarrow> bool" where
  "in_budget max_bytes v \<longleftrightarrow> encoding_format (iv_encoding v) \<noteq> None \<and> affordable max_bytes v"

lemma candidates_set:
  "set (List.map_filter (candidate m) (filter (affordable b) (filter (\<lambda>v. encoding_format (iv_encoding v) \<noteq> None) vs)))
    = {c. \<exists>v\<in>set vs. in_budget b v \<and> candidate m v = Some c}"
  by (auto simp: List.map_filter_def in_budget_def image_iff) force

text \<open>
  The form of an image the session asks for is one the peer listed, in an encoding the receiver
  decodes and within the byte budget where a size is stated; its width and height are within
  the ceiling and are ones the descriptor offers, a pinned ratio kept to within a pixel; and no
  other form within the budget ranks higher by area, a JPEG first among equals.
\<close>

theorem image_choice:
  assumes doc: "properties_parse x doc = Inr p" and c: "largest_decodable_within max_side max_bytes p = Some c"
  shows "ci_variant c \<in> set (ip_variants p) \<and> in_budget max_bytes (ci_variant c)
    \<and> fst (ci_size c) \<le> max_side \<and> snd (ci_size c) \<le> max_side
    \<and> (\<exists>s. iv_pixel (ci_variant c) = Some s \<and> offers s (fst (ci_size c)) (snd (ci_size c)))
    \<and> (\<forall>v\<in>set (ip_variants p). \<forall>d. in_budget max_bytes v \<and> candidate max_side v = Some d
         \<longrightarrow> key_le (image_key d) (image_key c))"
proof -
  obtain v where v: "v \<in> set (ip_variants p)" "in_budget max_bytes v" "candidate max_side v = Some c"
    and best: "\<forall>v\<in>set (ip_variants p). \<forall>d. in_budget max_bytes v \<and> candidate max_side v = Some d
         \<longrightarrow> key_le (image_key d) (image_key c)"
    using max_image_best [OF c [unfolded largest_decodable_within_def]] unfolding candidates_set by blast
  obtain s wh where s: "iv_pixel v = Some s" "best_within max_side s = Some wh" "c = \<lparr>ci_variant = v, ci_size = wh\<rparr>"
    using v(3) by (auto simp: candidate_def bind_eq_Some_conv)
  obtain w h where wh: "wh = (w, h)" by fastforce
  have "w \<le> max_side \<and> h \<le> max_side \<and> offers s w h"
    using best_within_sound properties_pixel_ok [OF doc v(1) s(1)] s(2) wh by blast
  then show ?thesis using v best s wh by auto
qed

text \<open>
  When nothing is chosen, every listed form that is decodable, in budget and states a size is
  one whose smallest size is already over the ceiling.
\<close>

theorem nothing_chosen:
  assumes doc: "properties_parse x doc = Inr p" and none: "largest_decodable_within max_side max_bytes p = None"
    and v: "v \<in> set (ip_variants p)" "in_budget max_bytes v" "iv_pixel v = Some s"
  shows "smallest_over max_side s"
proof -
  have "max_image cs = None \<Longrightarrow> cs = []" for cs by (cases cs) (auto split: option.splits if_splits)
  note empty = this [OF none [unfolded largest_decodable_within_def]]
  have "{c. \<exists>v\<in>set (ip_variants p). in_budget max_bytes v \<and> candidate max_side v = Some c} = {}"
    unfolding candidates_set [symmetric] empty by simp
  then have "candidate max_side v = None" using v(1,2) by (cases "candidate max_side v") auto
  then have "best_within max_side s = None" using v(3) by (simp add: candidate_def bind_eq_None_conv)
  then show ?thesis using best_within_None properties_pixel_ok [OF doc v(1,3)] by blast
qed

text \<open>
  A fixed-ratio range of a very flat image is clamped to a request for zero rows, which no
  descriptor offers as an image.
\<close>

theorem ratio_asks_for_no_rows:
  "best_within 512 (FixedRatioRange 1 65535 1) = Some (512, 0)"
proof -
  have "max (65535 :: u16) 1 = 65535" by (simp add: max_def word_le_nat_alt)
  then show ?thesis
    by (simp add: Let_def scaled_def u16_or_max_def u16_try_from_def word_le_nat_alt)
qed

section \<open>A listing\<close>

definition listing_xml :: xml where
  "listing_xml = \<lparr>xml_read = (\<lambda>_. Inr
      [(ascii ''image-properties'', []),
       (ascii ''native'', [(ascii ''encoding'', ascii ''JPEG''), (ascii ''pixel'', as_written (FixedSize 9 8))]),
       (ascii ''variant'', [(ascii ''encoding'', ascii ''PNG''), (ascii ''pixel'', as_written (SizeRange 7 7 12 9))])]),
     xml_utf8_error = (\<lambda>_. [])\<rparr>"

definition native_form :: image_variant where
  "native_form = \<lparr>iv_kind = NativeImage, iv_encoding = KnownEncoding Jpeg (ascii ''JPEG''),
     iv_pixel = Some (FixedSize 9 8), iv_size = None\<rparr>"

definition variant_form :: image_variant where
  "variant_form = \<lparr>iv_kind = VariantImage, iv_encoding = KnownEncoding Png (ascii ''PNG''),
     iv_pixel = Some (SizeRange 7 7 12 9), iv_size = None\<rparr>"

lemma listing_attributes:
  "trim (utf8_lossy (ascii ''JPEG'')) = ascii ''JPEG''" "trim (utf8_lossy (ascii ''PNG'')) = ascii ''PNG''"
  "trim (utf8_lossy (as_written (FixedSize 9 8))) = as_written (FixedSize 9 8)"
  "trim (utf8_lossy (as_written (SizeRange 7 7 12 9))) = as_written (SizeRange 7 7 12 9)"
  "encoding_parse (ascii ''JPEG'') = KnownEncoding Jpeg (ascii ''JPEG'')"
  "encoding_parse (ascii ''PNG'') = KnownEncoding Png (ascii ''PNG'')"
  by code_simp+

lemma listing_forms:
  "variant_of NativeImage (ascii ''native'', [(ascii ''encoding'', ascii ''JPEG''), (ascii ''pixel'', as_written (FixedSize 9 8))]) = Some native_form"
  "variant_of VariantImage (ascii ''variant'', [(ascii ''encoding'', ascii ''PNG''), (ascii ''pixel'', as_written (SizeRange 7 7 12 9))]) = Some variant_form"
  using pixel_roundtrip_raw [of "FixedSize 9 8"] pixel_roundtrip_raw [of "SizeRange 7 7 12 9"]
  by (simp_all add: variant_of_def xml_attribute_def listing_attributes native_form_def variant_form_def
    del: as_written.simps) (simp_all add: ascii_def del: as_written.simps)

lemma listing_parsed:
  "properties_parse listing_xml [] = Inr \<lparr>ip_handle = None, ip_variants = [native_form, variant_form]\<rparr>"
proof -
  have "utf8_lossy [] = []" by code_simp
  moreover have "ascii ''native'' \<noteq> ascii ''image-properties''" "ascii ''variant'' \<noteq> ascii ''image-properties''"
    "ascii ''variant'' \<noteq> ascii ''native''" by code_simp+
  ultimately show ?thesis
    using listing_forms
    by (simp add: properties_parse_def listing_xml_def xml_attribute_def del: as_written.simps)
qed

lemma listing_choice:
  "largest_decodable_within 10 1000 \<lparr>ip_handle = None, ip_variants = [native_form, variant_form]\<rparr>
    = Some \<lparr>ci_variant = variant_form, ci_size = (10, 9)\<rparr>"
  by code_simp

theorem image_choice_witness:
  "\<exists>p. properties_parse listing_xml [] = Inr p
    \<and> largest_decodable_within 10 1000 p = Some \<lparr>ci_variant = variant_form, ci_size = (10, 9)\<rparr>
    \<and> in_budget 1000 variant_form \<and> offers (SizeRange 7 7 12 9) 10 9"
  using image_choice [OF listing_parsed listing_choice] listing_parsed listing_choice
  by (auto simp: variant_form_def)

end
