(* ===== verification/Obex.thy ===== *)
theory Obex
  imports Image_Listing
begin

text \<open>
  OBEX packets and the cover-art session of \<^verbatim>\<open>crates/proto-bluetooth-audio/src/obex.rs\<close>.
\<close>

section \<open>Headers\<close>

datatype header =
    Name bytes
  | ImageHandle bytes
  | TypeHeader bytes
  | ImageDescription bytes
  | Body bytes
  | EndOfBody bytes
  | Target bytes
  | Who bytes
  | ConnectionId u32
  | LengthHeader u32
  | SingleResponseMode u8
  | OtherHeader u8 bytes

definition put_bytes :: "u8 \<Rightarrow> bytes \<Rightarrow> bytes" where
  "put_bytes i value = i # be16 (u16_or_max (3 + length value)) @ value"

definition put_unicode :: "u8 \<Rightarrow> bytes \<Rightarrow> bytes" where
  "put_unicode i s = put_bytes i (concat (map be16 (encode_utf16 s)) @ be16 0)"

fun pairs16 :: "bytes \<Rightarrow> u16 list" where
  "pairs16 (a # b # rest) = from_be16 a b # pairs16 rest"
| "pairs16 _ = []"

definition from_unicode :: "bytes \<Rightarrow> bytes" where
  "from_unicode value = from_utf16_lossy (takeWhile (\<lambda>u. u \<noteq> 0) (pairs16 value))"

definition four :: "bytes \<Rightarrow> bytes" where
  "four value = take 4 (value @ replicate 4 0)"

definition quad :: "bytes \<Rightarrow> u32" where
  "quad value = (let f = four value in from_be32 (f ! 0) (f ! 1) (f ! 2) (f ! 3))"

definition first_or_zero :: "bytes \<Rightarrow> u8" where
  "first_or_zero value = (case value of [] \<Rightarrow> 0 | b # _ \<Rightarrow> b)"

fun header_encode :: "header \<Rightarrow> bytes" where
  "header_encode (Name s) = put_unicode 0x01 s"
| "header_encode (ImageHandle s) = put_unicode 0x30 s"
| "header_encode (ImageDescription s) = put_bytes 0x71 s"
| "header_encode (TypeHeader s) = put_bytes 0x42 (s @ [0])"
| "header_encode (Body b) = put_bytes 0x48 b"
| "header_encode (EndOfBody b) = put_bytes 0x49 b"
| "header_encode (Target b) = put_bytes 0x46 b"
| "header_encode (Who b) = put_bytes 0x4A b"
| "header_encode (ConnectionId v) = 0xCB # be32 v"
| "header_encode (LengthHeader v) = 0xC3 # be32 v"
| "header_encode (SingleResponseMode v) = [0x97, v]"
| "header_encode (OtherHeader i value) =
     (let width = drop_bit 6 i in
      if width = 0 \<or> width = 1 then put_bytes i value
      else if width = 2 then [i, first_or_zero value]
      else i # four value)"

definition header_value :: "bytes \<Rightarrow> audio_error + bytes \<times> nat" where
  "header_value buf =
     (let width = drop_bit 6 (buf ! 0) in
      if width = 0 \<or> width = 1 then
        if length buf < 3 then Inl (AudioTruncated ''obex header length'' 3 (length buf))
        else let len = unat (from_be16 (buf ! 1) (buf ! 2)) in
          if len < 3 \<or> length buf < len then Inl (AudioTruncated ''obex header value'' (max len 3) (length buf))
          else Inr (take (len - 3) (drop 3 buf), len)
      else if width = 2 then
        if length buf < 2 then Inl (AudioTruncated ''obex byte header'' 2 (length buf))
        else Inr (take 1 (drop 1 buf), 2)
      else if length buf < 5 then Inl (AudioTruncated ''obex quad header'' 5 (length buf))
      else Inr (take 4 (drop 1 buf), 5))"

definition header_of :: "u8 \<Rightarrow> bytes \<Rightarrow> header" where
  "header_of i value =
     (if i = 0x01 then Name (from_unicode value)
      else if i = 0x30 then ImageHandle (from_unicode value)
      else if i = 0x71 then ImageDescription (utf8_lossy value)
      else if i = 0x42 then
        TypeHeader (utf8_lossy (case strip_suffix [0] value of None \<Rightarrow> value | Some v \<Rightarrow> v))
      else if i = 0x48 then Body value
      else if i = 0x49 then EndOfBody value
      else if i = 0x46 then Target value
      else if i = 0x4A then Who value
      else if i = 0xCB then ConnectionId (quad value)
      else if i = 0xC3 then LengthHeader (quad value)
      else if i = 0x97 then SingleResponseMode (first_or_zero value)
      else OtherHeader i value)"

lemma header_value_used: "header_value buf = Inr (v, n) \<Longrightarrow> 0 < n"
  by (auto simp: header_value_def Let_def split: if_splits)

function decode_headers :: "bytes \<Rightarrow> audio_error + header list" where
  "decode_headers [] = Inr []"
| "decode_headers (i # rest) =
     (case header_value (i # rest) of
        Inl e \<Rightarrow> Inl e
      | Inr (v, used) \<Rightarrow> bindE (decode_headers (drop used (i # rest))) (\<lambda>hs. Inr (header_of i v # hs)))"
  by pat_completeness auto
termination by (relation "measure length") (auto dest: header_value_used)

record obex_packet =
  ob_code :: u8
  ob_prefix :: bytes
  ob_headers :: "header list"

definition obex_encode :: "obex_packet \<Rightarrow> bytes" where
  "obex_encode p =
     (let body = ob_prefix p @ concat (map header_encode (ob_headers p)) in
      ob_code p # be16 (u16_or_max (3 + length body)) @ body)"

definition obex_decode :: "bytes \<Rightarrow> nat \<Rightarrow> audio_error + obex_packet" where
  "obex_decode buf prefix_len =
     (if length buf < 3 then Inl (AudioTruncated ''obex header'' 3 (length buf))
      else let len = unat (from_be16 (buf ! 1) (buf ! 2)) in
        if len < 3 \<or> length buf < len then Inl (AudioTruncated ''obex packet'' (max len 3) (length buf))
        else let body = take (len - 3) (drop 3 buf); split = min prefix_len (length body) in
          bindE (decode_headers (drop split body)) (\<lambda>hs.
            Inr \<lparr>ob_code = buf ! 0, ob_prefix = take split body, ob_headers = hs\<rparr>))"

definition obex_response :: "obex_packet \<Rightarrow> u8" where
  "obex_response p = ob_code p AND 0x7F"

section \<open>The session\<close>

datatype fetch_state = FetchConnecting | FetchReady | FetchFetching | FetchFailed

datatype srm = SrmOffered | SrmActive | SrmDeclined

datatype fetch =
    FetchThumbnail bytes
  | FetchProperties bytes
  | FetchImage bytes bytes

fun fetch_handle :: "fetch \<Rightarrow> bytes" where
  "fetch_handle (FetchThumbnail h) = h"
| "fetch_handle (FetchProperties h) = h"
| "fetch_handle (FetchImage h _) = h"

fun fetch_mime :: "fetch \<Rightarrow> bytes" where
  "fetch_mime (FetchThumbnail _) = ascii ''x-bt/img-thm''"
| "fetch_mime (FetchProperties _) = ascii ''x-bt/img-properties''"
| "fetch_mime (FetchImage _ _) = ascii ''x-bt/img-img''"

fun fetch_descriptor :: "fetch \<Rightarrow> bytes option" where
  "fetch_descriptor (FetchImage _ d) = Some d"
| "fetch_descriptor _ = None"

datatype fetched = FetchedArtwork image_format bytes | FetchedProperties image_properties

record cover_art =
  ca_state :: fetch_state
  ca_fetch :: "fetch option"
  ca_connection_id :: "u32 option"
  ca_body :: bytes
  ca_max_packet :: u16
  ca_srm :: "srm option"

definition cover_art_new :: "u16 \<Rightarrow> cover_art" where
  "cover_art_new max_packet =
     \<lparr>ca_state = FetchConnecting, ca_fetch = None, ca_connection_id = None, ca_body = [],
      ca_max_packet = max 0x00FF (min 0x1000 max_packet), ca_srm = None\<rparr>"

definition is_ready :: "cover_art \<Rightarrow> bool" where
  "is_ready s \<longleftrightarrow> ca_state s = FetchReady"

definition start_fetch :: "fetch \<Rightarrow> cover_art \<Rightarrow> bool \<times> cover_art" where
  "start_fetch f s =
     (if \<not> is_ready s then (False, s)
      else (True, s\<lparr>ca_fetch := Some f, ca_body := [], ca_srm := None, ca_state := FetchFetching\<rparr>))"

definition fetch_thumbnail :: "bytes \<Rightarrow> cover_art \<Rightarrow> bool \<times> cover_art" where
  "fetch_thumbnail handle = start_fetch (FetchThumbnail handle)"

definition fetch_properties :: "bytes \<Rightarrow> cover_art \<Rightarrow> bool \<times> cover_art" where
  "fetch_properties handle = start_fetch (FetchProperties handle)"

definition fetch_image :: "bytes \<Rightarrow> chosen_image \<Rightarrow> cover_art \<Rightarrow> bool \<times> cover_art" where
  "fetch_image handle chosen = start_fetch (FetchImage handle (descriptor_xml chosen))"

definition COVER_ART_TARGET :: bytes where
  "COVER_ART_TARGET =
     [0x71, 0x63, 0xDD, 0x54, 0x4A, 0x7E, 0x11, 0xE2, 0xB4, 0x7C, 0x00, 0x50, 0xC2, 0x49, 0x00, 0x48]"

definition connect_packet :: "cover_art \<Rightarrow> obex_packet" where
  "connect_packet s =
     \<lparr>ob_code = 0x80, ob_prefix = [0x10, 0x00] @ be16 (ca_max_packet s), ob_headers = [Target COVER_ART_TARGET]\<rparr>"

definition connection_headers :: "cover_art \<Rightarrow> header list" where
  "connection_headers s = (case ca_connection_id s of None \<Rightarrow> [] | Some i \<Rightarrow> [ConnectionId i])"

definition fetch_headers :: "fetch \<Rightarrow> header list" where
  "fetch_headers f =
     [TypeHeader (fetch_mime f), ImageHandle (fetch_handle f)]
     @ (case fetch_descriptor f of None \<Rightarrow> [] | Some d \<Rightarrow> [ImageDescription d])"

definition get_packet :: "header list \<Rightarrow> obex_packet" where
  "get_packet hs = \<lparr>ob_code = 0x83, ob_prefix = [], ob_headers = hs\<rparr>"

definition first_get :: "cover_art \<Rightarrow> obex_packet" where
  "first_get s =
     get_packet (connection_headers s @ [SingleResponseMode 1]
       @ (case ca_fetch s of None \<Rightarrow> [] | Some f \<Rightarrow> fetch_headers f))"

definition art_next_request :: "cover_art \<Rightarrow> bytes option \<times> cover_art" where
  "art_next_request s =
     (case ca_state s of
        FetchConnecting \<Rightarrow> (Some (obex_encode (connect_packet s)), s)
      | FetchFetching \<Rightarrow>
          (case ca_srm s of
             None \<Rightarrow> (Some (obex_encode (first_get s)), s\<lparr>ca_srm := Some SrmOffered\<rparr>)
           | Some SrmActive \<Rightarrow> (None, s)
           | Some SrmOffered \<Rightarrow> (None, s)
           | Some SrmDeclined \<Rightarrow> (Some (obex_encode (get_packet (connection_headers s))), s))
      | FetchReady \<Rightarrow> (None, s)
      | FetchFailed \<Rightarrow> (None, s))"

fun last_connection_id :: "u32 option \<Rightarrow> header list \<Rightarrow> u32 option" where
  "last_connection_id c [] = c"
| "last_connection_id c (ConnectionId i # hs) = last_connection_id (Some i) hs"
| "last_connection_id c (_ # hs) = last_connection_id c hs"

fun body_of :: "header list \<Rightarrow> bytes" where
  "body_of [] = []"
| "body_of (Body b # hs) = b @ body_of hs"
| "body_of (EndOfBody b # hs) = b @ body_of hs"
| "body_of (_ # hs) = body_of hs"

definition settle_srm :: "header list \<Rightarrow> cover_art \<Rightarrow> cover_art" where
  "settle_srm hs s =
     (if ca_srm s = Some SrmOffered
      then s\<lparr>ca_srm := Some (if SingleResponseMode 1 \<in> set hs then SrmActive else SrmDeclined)\<rparr>
      else s)"

definition completed :: "xml \<Rightarrow> fetch option \<Rightarrow> bytes \<Rightarrow> audio_error + fetched option" where
  "completed x f data =
     (if data = [] then Inl (BadMediaPacket ''cover art response was empty'')
      else case f of
        Some (FetchProperties _) \<Rightarrow>
          bindE (properties_parse x data) (\<lambda>p. Inr (Some (FetchedProperties p)))
      | _ \<Rightarrow>
          (case sniff_format data of
             None \<Rightarrow> Inl (BadMediaPacket ''cover art is not a format we decode'')
           | Some fmt \<Rightarrow> Inr (Some (FetchedArtwork fmt data))))"

definition feed_fetching :: "xml \<Rightarrow> obex_packet \<Rightarrow> cover_art \<Rightarrow> (audio_error + fetched option) \<times> cover_art" where
  "feed_fetching x p s =
     (let s = settle_srm (ob_headers p) s;
          s = s\<lparr>ca_body := ca_body s @ body_of (ob_headers p)\<rparr> in
      if obex_response p = 0x10 then (Inr None, s)
      else if obex_response p = 0x20
      then (completed x (ca_fetch s) (ca_body s), s\<lparr>ca_state := FetchReady, ca_fetch := None, ca_srm := None, ca_body := []\<rparr>)
      else (Inl (BadMediaPacket ''cover art fetch was refused''),
            s\<lparr>ca_state := FetchReady, ca_fetch := None, ca_body := [], ca_srm := None\<rparr>))"

definition cover_art_feed :: "xml \<Rightarrow> bytes \<Rightarrow> cover_art \<Rightarrow> (audio_error + fetched option) \<times> cover_art" where
  "cover_art_feed x packet s =
     (case obex_decode packet (if ca_state s = FetchConnecting then 4 else 0) of
        Inl e \<Rightarrow> (Inl e, s)
      | Inr p \<Rightarrow>
          (case ca_state s of
             FetchConnecting \<Rightarrow>
               if obex_response p \<noteq> 0x20
               then (Inl (BadMediaPacket ''cover art responder refused connect''), s\<lparr>ca_state := FetchFailed\<rparr>)
               else (Inr None, s\<lparr>ca_connection_id := last_connection_id (ca_connection_id s) (ob_headers p),
                                ca_state := FetchReady\<rparr>)
           | FetchFetching \<Rightarrow> feed_fetching x p s
           | FetchReady \<Rightarrow> (Inr None, s)
           | FetchFailed \<Rightarrow> (Inr None, s)))"

section \<open>Headers read back\<close>

definition known_headers :: "u8 list" where
  "known_headers = [0x01, 0x30, 0x71, 0x42, 0x48, 0x49, 0x46, 0x4A, 0xCB, 0xC3, 0x97]"

fun header_ok :: "header \<Rightarrow> bool" where
  "header_ok (Name s) \<longleftrightarrow> is_text s \<and> 2 * length (encode_utf16 s) + 5 \<le> 65535"
| "header_ok (ImageHandle s) \<longleftrightarrow> is_text s \<and> 2 * length (encode_utf16 s) + 5 \<le> 65535"
| "header_ok (ImageDescription s) \<longleftrightarrow> is_utf8 s \<and> length s + 3 \<le> 65535"
| "header_ok (TypeHeader s) \<longleftrightarrow> is_utf8 s \<and> length s + 4 \<le> 65535"
| "header_ok (Body b) \<longleftrightarrow> length b + 3 \<le> 65535"
| "header_ok (EndOfBody b) \<longleftrightarrow> length b + 3 \<le> 65535"
| "header_ok (Target b) \<longleftrightarrow> length b + 3 \<le> 65535"
| "header_ok (Who b) \<longleftrightarrow> length b + 3 \<le> 65535"
| "header_ok (ConnectionId _) \<longleftrightarrow> True"
| "header_ok (LengthHeader _) \<longleftrightarrow> True"
| "header_ok (SingleResponseMode _) \<longleftrightarrow> True"
| "header_ok (OtherHeader i v) \<longleftrightarrow> i \<notin> set known_headers \<and>
     (if drop_bit 6 i = 0 \<or> drop_bit 6 i = 1 then length v + 3 \<le> 65535
      else if drop_bit 6 i = 2 then length v = 1 else length v = 4)"

lemma pairs16_units: "pairs16 (concat (map be16 us) @ rest) = us @ pairs16 rest"
  by (induction us) (simp_all add: be16_def)

lemma from_unicode_units:
  assumes "is_text s"
  shows "from_unicode (concat (map be16 (encode_utf16 s)) @ be16 0) = s"
proof -
  have "takeWhile (\<lambda>u. u \<noteq> 0) (encode_utf16 s @ pairs16 (be16 0)) = encode_utf16 s"
    using encode_utf16_no_null [OF assms] by (subst takeWhile_append2) (auto simp: be16_def from_be16_def)
  then show ?thesis
    using utf16_roundtrip [OF is_text_utf8 [OF assms]] by (simp add: from_unicode_def pairs16_units)
qed

lemma length_units [simp]: "length (concat (map be16 us)) = 2 * length us"
  by (induction us) simp_all

lemma u16_or_max_unat: "n \<le> 65535 \<Longrightarrow> unat (u16_or_max n) = n"
  by (simp add: u16_or_max_def u16_try_from_def unat_of_nat take_bit_nat_eq_self)

lemma header_value_bytes:
  assumes "drop_bit 6 i = 0 \<or> drop_bit 6 i = 1" "length v + 3 \<le> 65535"
  shows "header_value (put_bytes i v @ rest) = Inr (v, length v + 3)"
  using assms u16_or_max_unat [of "3 + length v"]
  by (simp add: header_value_def put_bytes_def Let_def be16_def)

lemma decode_header:
  assumes "header_value (e @ rest) = Inr (v, length e)" "e \<noteq> []"
  shows "decode_headers (e @ rest) = bindE (decode_headers rest) (\<lambda>hs. Inr (header_of (e ! 0) v # hs))"
  using assms by (cases e) simp_all

lemma decode_bytes:
  assumes "drop_bit 6 i = 0 \<or> drop_bit 6 i = 1" "length v + 3 \<le> 65535"
  shows "decode_headers (put_bytes i v @ rest) = bindE (decode_headers rest) (\<lambda>hs. Inr (header_of i v # hs))"
proof -
  have "length (put_bytes i v) = length v + 3" "put_bytes i v ! 0 = i" "put_bytes i v \<noteq> []"
    by (simp_all add: put_bytes_def)
  then show ?thesis using decode_header [of "put_bytes i v" rest v] header_value_bytes [OF assms] by simp
qed

lemma decode_byte:
  assumes "drop_bit 6 i = 2"
  shows "decode_headers ([i, b] @ rest) = bindE (decode_headers rest) (\<lambda>hs. Inr (header_of i [b] # hs))"
  using assms by (subst decode_header) (simp_all add: header_value_def Let_def)

lemma width_top: "drop_bit 6 (i :: u8) \<noteq> 0 \<Longrightarrow> drop_bit 6 i \<noteq> 1 \<Longrightarrow> drop_bit 6 i \<noteq> 2 \<Longrightarrow> drop_bit 6 i = 3"
proof -
  have "unat (drop_bit 6 i) < 4"
  proof -
    have "unat i < 2 ^ LENGTH(8)" by (rule unsigned_less)
    then have "drop_bit 6 (unat i) < 4" by (simp add: drop_bit_eq_div)
    then show ?thesis by (simp only: unat_drop_bit_eq)
  qed
  then have "unat (drop_bit 6 i) \<in> {0, 1, 2, 3}" by auto
  then show "drop_bit 6 i \<noteq> 0 \<Longrightarrow> drop_bit 6 i \<noteq> 1 \<Longrightarrow> drop_bit 6 i \<noteq> 2 \<Longrightarrow> drop_bit 6 i = 3"
    by (auto simp: word_unat_eq_iff)
qed

lemma decode_four:
  assumes "drop_bit 6 i = 3" "length v = 4"
  shows "decode_headers ((i # v) @ rest) = bindE (decode_headers rest) (\<lambda>hs. Inr (header_of i v # hs))"
  using assms by (subst decode_header) (simp_all add: header_value_def Let_def)

lemma quad_be32 [simp]: "quad (be32 w) = w"
  by (simp add: quad_def four_def be32_def Let_def)

lemma four_id [simp]: "length v = 4 \<Longrightarrow> four v = v"
  by (simp add: four_def)

lemma other_header: "i \<notin> set known_headers \<Longrightarrow> header_of i v = OtherHeader i v"
  by (simp add: header_of_def known_headers_def)

lemma header_step:
  assumes "header_ok h"
  shows "decode_headers (header_encode h @ rest) = bindE (decode_headers rest) (\<lambda>hs. Inr (h # hs))"
proof (cases h)
  case (OtherHeader i v)
  consider "drop_bit 6 i = 0 \<or> drop_bit 6 i = 1" | "drop_bit 6 i = 2" | "drop_bit 6 i = 3"
    using width_top by blast
  then show ?thesis
  proof cases
    case 1
    then show ?thesis using assms by (simp add: OtherHeader decode_bytes other_header)
  next
    case 2
    moreover obtain b where "v = [b]" using assms 2 by (auto simp: OtherHeader length_Suc_conv)
    ultimately show ?thesis
      using assms decode_byte [where i = i and b = b and rest = rest] by (simp add: OtherHeader other_header first_or_zero_def)
  next
    case 3
    then show ?thesis using assms decode_four [where i = i and v = v and rest = rest] by (simp add: OtherHeader other_header)
  qed
next
  case (ConnectionId w)
  then show ?thesis using decode_four [where i = "0xCB" and v = "be32 w" and rest = rest]
    by (simp add: header_of_def del: decode_headers.simps)
next
  case (LengthHeader w)
  then show ?thesis using decode_four [where i = "0xC3" and v = "be32 w" and rest = rest]
    by (simp add: header_of_def del: decode_headers.simps)
next
  case (SingleResponseMode b)
  then show ?thesis using decode_byte [where i = "0x97" and b = b and rest = rest]
    by (simp add: header_of_def first_or_zero_def del: decode_headers.simps)
qed (use assms in
     \<open>simp_all add: put_unicode_def decode_bytes header_of_def from_unicode_units is_utf8_lossy first_or_zero_def\<close>)

interpretation headers: stream_codec header_encode header_ok decode_headers
  by unfold_locales (auto simp: header_step)

definition obex_packet_ok :: "obex_packet \<Rightarrow> bool" where
  "obex_packet_ok p \<longleftrightarrow> list_all header_ok (ob_headers p)
     \<and> 3 + length (ob_prefix p) + length (concat (map header_encode (ob_headers p))) \<le> 65535"

text \<open>
  An OBEX packet that fits its length field decodes to itself, whatever follows it in the
  buffer: code, the bytes before the headers and every header, UTF-16 handles, null-terminated
  types, byte, quad and unknown headers among them.
\<close>

theorem packet_read_back:
  assumes "obex_packet_ok p"
  shows "obex_decode (obex_encode p @ rest) (length (ob_prefix p)) = Inr p"
proof -
  let ?hs = "concat (map header_encode (ob_headers p))"
  have n: "unat (u16_or_max (3 + (length (ob_prefix p) + length ?hs))) = 3 + (length (ob_prefix p) + length ?hs)"
    using assms by (intro u16_or_max_unat) (simp add: obex_packet_ok_def)
  have hs: "decode_headers ?hs = Inr (ob_headers p)" using assms by (simp add: obex_packet_ok_def headers.dec_all)
  show ?thesis
    using hs n by (simp add: obex_decode_def obex_encode_def Let_def be16_def min_def)
qed

section \<open>An object fetched\<close>

text \<open>
  A responder's answers for an object in chunks: \<open>CONTINUE\<close> with a body for each but the last,
  \<open>SUCCESS\<close> with the end of the body; the first also carries \<open>hs\<close>, the grant of single response
  mode. \<open>talk\<close> is a client that asks for its next request before each answer.
\<close>

definition answer :: "u8 \<Rightarrow> header list \<Rightarrow> bytes" where
  "answer code hs = obex_encode \<lparr>ob_code = code, ob_prefix = [], ob_headers = hs\<rparr>"

fun chunk_answers :: "header list \<Rightarrow> bytes list \<Rightarrow> bytes list" where
  "chunk_answers hs [] = []"
| "chunk_answers hs [c] = [answer 0xA0 (hs @ [EndOfBody c])]"
| "chunk_answers hs (c # cs) = answer 0x90 (hs @ [Body c]) # chunk_answers [] cs"

fun talk :: "xml \<Rightarrow> bytes list \<Rightarrow> cover_art \<Rightarrow> bytes option list \<times> (audio_error + fetched option) list \<times> cover_art" where
  "talk x [] s = ([], [], s)"
| "talk x (p # ps) s =
     (let (r, s) = art_next_request s; (v, s) = cover_art_feed x p s; (rs, vs, s) = talk x ps s in
      (r # rs, v # vs, s))"

lemma answer_decoded:
  assumes "list_all header_ok hs" "length (concat (map header_encode hs)) + 3 \<le> 65535"
  shows "obex_decode (answer code hs) 0 = Inr \<lparr>ob_code = code, ob_prefix = [], ob_headers = hs\<rparr>"
  using packet_read_back [of "\<lparr>ob_code = code, ob_prefix = [], ob_headers = hs\<rparr>" "[]"] assms
  by (simp add: answer_def obex_packet_ok_def add.commute)

definition grant :: "bool \<Rightarrow> header list" where
  "grant g = (if g then [SingleResponseMode 1] else [])"

lemma length_put_bytes [simp]: "length (put_bytes i v) = length v + 3"
  by (simp add: put_bytes_def)

lemma chunk_decoded:
  assumes "length c + 8 \<le> 65535" "b \<in> {Body c, EndOfBody c}"
  shows "obex_decode (answer code (grant g @ [b])) 0 = Inr \<lparr>ob_code = code, ob_prefix = [], ob_headers = grant g @ [b]\<rparr>"
  using assms by (intro answer_decoded) (auto simp: grant_def)

lemma grant_body [simp]: "body_of (grant g @ hs) = body_of hs" "SingleResponseMode 1 \<in> set (grant g) \<longleftrightarrow> g"
  by (simp_all add: grant_def)

lemma response_codes [simp]:
  "obex_response \<lparr>ob_code = 0xA0, ob_prefix = p, ob_headers = hs\<rparr> = 0x20"
  "obex_response \<lparr>ob_code = 0x90, ob_prefix = p, ob_headers = hs\<rparr> = 0x10"
  by (simp_all add: obex_response_def)

lemma continue_fed:
  assumes "ca_state s = FetchFetching" "length c + 8 \<le> 65535"
  shows "cover_art_feed x (answer 0x90 (grant g @ [Body c])) s =
    (Inr None, settle_srm (grant g @ [Body c]) s\<lparr>ca_body := ca_body s @ c\<rparr>)"
  using assms by (simp add: cover_art_feed_def chunk_decoded feed_fetching_def Let_def settle_srm_def)

lemma last_fed:
  assumes "ca_state s = FetchFetching" "length c + 8 \<le> 65535"
  shows "cover_art_feed x (answer 0xA0 (grant g @ [EndOfBody c])) s =
    (completed x (ca_fetch s) (ca_body s @ c),
     s\<lparr>ca_state := FetchReady, ca_fetch := None, ca_srm := None, ca_body := []\<rparr>)"
  using assms by (simp add: cover_art_feed_def chunk_decoded feed_fetching_def Let_def settle_srm_def)

text \<open>The rest of an object once the mode is settled.\<close>

lemma rest_fetched:
  assumes "ca_state s = FetchFetching" "ca_srm s = Some (if g then SrmActive else SrmDeclined)"
    "cs \<noteq> []" "\<forall>c\<in>set cs. length c + 8 \<le> 65535"
  shows "talk x (chunk_answers [] cs) s =
    (replicate (length cs) (if g then None else Some (obex_encode (get_packet (connection_headers s)))),
     replicate (length cs - 1) (Inr None) @ [completed x (ca_fetch s) (ca_body s @ concat cs)],
     s\<lparr>ca_state := FetchReady, ca_fetch := None, ca_srm := None, ca_body := []\<rparr>)"
  using assms
proof (induction cs arbitrary: s)
  case (Cons c cs)
  have r: "art_next_request s = (if g then None else Some (obex_encode (get_packet (connection_headers s))), s)"
    using Cons.prems by (simp add: art_next_request_def)
  show ?case
  proof (cases cs)
    case Nil
    then show ?thesis using Cons.prems r last_fed [of s c x False] by (simp add: grant_def)
  next
    case (Cons d ds)
    let ?s = "s\<lparr>ca_body := ca_body s @ c\<rparr>"
    have settled: "settle_srm hs s = s" for hs using Cons.prems by (simp add: settle_srm_def)
    have "talk x (chunk_answers [] cs) ?s =
      (replicate (length cs) (if g then None else Some (obex_encode (get_packet (connection_headers s)))),
       replicate (length cs - 1) (Inr None) @ [completed x (ca_fetch s) (ca_body s @ c @ concat cs)],
       ?s\<lparr>ca_state := FetchReady, ca_fetch := None, ca_srm := None, ca_body := []\<rparr>)"
      using Cons.IH [of ?s] Cons.prems Cons by (simp add: connection_headers_def)
    then show ?thesis
      using Cons.prems Cons r continue_fed [of s c x False] settled by (simp add: grant_def)
  qed
qed simp

text \<open>
  C33. Any object, in any number of chunks, arrives whole on a free session, and the session is free
  again at the end. With single response mode granted one request is sent and none while the
  responder streams; with it declined one request is sent for each chunk. Every answer but the
  last yields nothing, the last yields the object the bytes make.
\<close>

theorem object_fetched:
  fixes f :: fetch
  assumes "is_ready s" "cs \<noteq> []" "\<forall>c\<in>set cs. length c + 8 \<le> 65535"
  shows "talk x (chunk_answers (grant g) cs) (snd (start_fetch f s)) =
    (Some (obex_encode (first_get (snd (start_fetch f s))))
       # replicate (length cs - 1) (if g then None else Some (obex_encode (get_packet (connection_headers s)))),
     replicate (length cs - 1) (Inr None) @ [completed x (Some f) (concat cs)],
     s\<lparr>ca_fetch := None, ca_body := [], ca_srm := None\<rparr>)"
proof -
  let ?s = "s\<lparr>ca_fetch := Some f, ca_body := [], ca_srm := Some SrmOffered, ca_state := FetchFetching\<rparr>"
  have s1: "snd (start_fetch f s) = s\<lparr>ca_fetch := Some f, ca_body := [], ca_srm := None, ca_state := FetchFetching\<rparr>"
    using assms(1) by (simp add: start_fetch_def)
  have r: "art_next_request (snd (start_fetch f s)) = (Some (obex_encode (first_get (snd (start_fetch f s)))), ?s)"
    unfolding s1 by (simp add: art_next_request_def)
  have again: "s\<lparr>ca_state := FetchReady\<rparr> = s" using assms(1) by (cases s) (simp add: is_ready_def)
  obtain c cs' where cs: "cs = c # cs'" using assms(2) by (cases cs) auto
  have c: "length c + 8 \<le> 65535" using assms(3) cs by simp
  show ?thesis
  proof (cases cs')
    case Nil
    then show ?thesis using r last_fed [of ?s c x g] cs c again by (simp add: Let_def)
  next
    case (Cons d ds)
    let ?t = "?s\<lparr>ca_srm := Some (if g then SrmActive else SrmDeclined), ca_body := c\<rparr>"
    have "settle_srm (grant g @ [Body c]) ?s = ?s\<lparr>ca_srm := Some (if g then SrmActive else SrmDeclined)\<rparr>"
      by (simp add: settle_srm_def)
    then have "cover_art_feed x (answer 0x90 (grant g @ [Body c])) ?s = (Inr None, ?t)"
      using continue_fed [of ?s c x g] c by simp
    then show ?thesis
      using r rest_fetched [of ?t g cs' x] assms(3) cs Cons again
      by (simp add: connection_headers_def)
  qed
qed

section \<open>The session\<close>

text \<open>Between objects nothing is kept of the last one; only a connected session has an object.\<close>

definition cover_art_ok :: "cover_art \<Rightarrow> bool" where
  "cover_art_ok s \<longleftrightarrow>
     (ca_state s = FetchFetching \<longleftrightarrow> ca_fetch s \<noteq> None)
     \<and> (ca_state s \<noteq> FetchFetching \<longrightarrow> ca_srm s = None \<and> ca_body s = [])
     \<and> 255 \<le> ca_max_packet s \<and> ca_max_packet s \<le> 4096"

datatype cover_art_input =
    Start fetch
  | NextRequest
  | Feed bytes

fun cover_art_step :: "xml \<Rightarrow> cover_art_input \<Rightarrow> cover_art \<Rightarrow> cover_art" where
  "cover_art_step x (Start f) s = snd (start_fetch f s)"
| "cover_art_step x NextRequest s = snd (art_next_request s)"
| "cover_art_step x (Feed p) s = snd (cover_art_feed x p s)"

lemma cover_art_new_ok: "cover_art_ok (cover_art_new m)"
  by (simp add: cover_art_ok_def cover_art_new_def max_def min_def word_le_nat_alt)

lemma cover_art_step_ok: "cover_art_ok s \<Longrightarrow> cover_art_ok (cover_art_step x i s)"
  by (cases i)
    (auto simp: cover_art_ok_def start_fetch_def is_ready_def art_next_request_def cover_art_feed_def feed_fetching_def
      settle_srm_def Let_def split: fetch_state.splits option.splits srm.splits sum.splits)

interpretation cover_arts: machine "cover_art_step x" cover_art_ok
  by unfold_locales (rule cover_art_step_ok)

text \<open>A connected session stays connected, under the number it was given, whatever comes again.\<close>

definition connected_as :: "u32 option \<Rightarrow> cover_art \<Rightarrow> bool" where
  "connected_as c s \<longleftrightarrow> ca_state s \<in> {FetchReady, FetchFetching} \<and> ca_connection_id s = c"

lemma connected_step: "connected_as c s \<Longrightarrow> connected_as c (cover_art_step x i s)"
  by (cases i)
    (auto simp: connected_as_def start_fetch_def is_ready_def art_next_request_def cover_art_feed_def feed_fetching_def
      settle_srm_def Let_def split: fetch_state.splits option.splits srm.splits sum.splits)

interpretation connected: machine "cover_art_step x" "connected_as c"
  by unfold_locales (rule connected_step)

text \<open>
  Once connected, a session is connected for good and under the number it was given, whatever
  is asked of it and whatever bytes the responder sends.
\<close>

theorem session_outlives_objects:
  assumes "is_ready s"
  shows "connected_as (ca_connection_id s) (fold (cover_art_step x) ins s)"
  by (rule connected.run_ok) (use assms in \<open>simp add: is_ready_def connected_as_def\<close>)

text \<open>A refused object is reported, and the next one is asked for on the same session.\<close>

text \<open>
  A refused object is reported as such, keeps nothing of what had arrived, and the next fetch is
  taken.
\<close>

theorem refusal_frees_session:
  assumes "ca_state s = FetchFetching" "obex_decode packet 0 = Inr p" "obex_response p \<notin> {0x10, 0x20}"
  shows "cover_art_feed x packet s =
      (Inl (BadMediaPacket ''cover art fetch was refused''),
       s\<lparr>ca_state := FetchReady, ca_fetch := None, ca_body := [], ca_srm := None\<rparr>)
    \<and> (\<forall>f. fst (start_fetch f (snd (cover_art_feed x packet s))))"
  using assms
  by (simp add: cover_art_feed_def feed_fetching_def Let_def start_fetch_def is_ready_def settle_srm_def)

text \<open>The session comes up with the connection number of the answer.\<close>

text \<open>
  The connect answer brings a new session up under the last connection number it carries.
\<close>

theorem connected_with_number:
  assumes "list_all header_ok hs" "length (concat (map header_encode hs)) + 7 \<le> 65535" "length v = 4"
  shows "cover_art_feed x (obex_encode \<lparr>ob_code = 0xA0, ob_prefix = v, ob_headers = hs\<rparr>) (cover_art_new m) =
    (Inr None, (cover_art_new m)\<lparr>ca_connection_id := last_connection_id None hs, ca_state := FetchReady\<rparr>)"
  using packet_read_back [of "\<lparr>ob_code = 0xA0, ob_prefix = v, ob_headers = hs\<rparr>" "[]"] assms
  by (simp add: cover_art_feed_def cover_art_new_def obex_packet_ok_def add.commute)

section \<open>Concrete exchanges\<close>

definition no_xml :: xml where
  "no_xml = \<lparr>xml_read = (\<lambda>_. Inl []), xml_utf8_error = (\<lambda>_. [])\<rparr>"

definition ready_session :: cover_art where
  "ready_session = (cover_art_new 512)\<lparr>ca_state := FetchReady, ca_connection_id := Some 1\<rparr>"

theorem object_fetched_witness:
  "is_ready ready_session
   \<and> fst (snd (talk no_xml (chunk_answers (grant True) [[0xFF, 0xD8, 0xFF], [1, 2]])
        (snd (start_fetch (FetchThumbnail (ascii ''7'')) ready_session))))
     = [Inr None, Inr (Some (FetchedArtwork Jpeg [0xFF, 0xD8, 0xFF, 1, 2]))]
   \<and> ca_state (snd (snd (talk no_xml (chunk_answers (grant False) [[0xFF, 0xD8, 0xFF], [1, 2]])
        (snd (start_fetch (FetchThumbnail (ascii ''7'')) ready_session))))) = FetchReady"
proof -
  have r: "is_ready ready_session" by (simp add: ready_session_def is_ready_def)
  moreover have "completed no_xml (Some (FetchThumbnail (ascii ''7''))) [0xFF, 0xD8, 0xFF, 1, 2]
      = Inr (Some (FetchedArtwork Jpeg [0xFF, 0xD8, 0xFF, 1, 2]))"
    by (simp add: completed_def sniff_format_def starts_with_def ascii_def)
  moreover have "ca_state ready_session = FetchReady" by (simp add: ready_session_def)
  ultimately show ?thesis
    using object_fetched [OF r, of "[[0xFF, 0xD8, 0xFF], [1, 2]]" no_xml True "FetchThumbnail (ascii ''7'')"]
      object_fetched [OF r, of "[[0xFF, 0xD8, 0xFF], [1, 2]]" no_xml False "FetchThumbnail (ascii ''7'')"]
    by simp
qed

theorem packet_read_back_witness:
  "obex_decode (obex_encode \<lparr>ob_code = 0x80, ob_prefix = [0x10, 0, 2, 0],
       ob_headers = [Target COVER_ART_TARGET, ImageHandle [0x41]]\<rparr>) 4
   = Inr \<lparr>ob_code = 0x80, ob_prefix = [0x10, 0, 2, 0],
       ob_headers = [Target COVER_ART_TARGET, ImageHandle [0x41]]\<rparr>"
proof -
  have u: "utf8_encode [0x41] = [0x41]" by (simp add: utf8_encode_def utf8_char_def)
  have t: "is_text [0x41]" unfolding is_text_def by (rule exI [of _ "[0x41]"]) (simp add: u scalar_def)
  have "length (encode_utf16 [0x41]) = 1"
    using utf8_points_encode [of "[0x41]"] u by (simp add: encode_utf16_def utf16_units_def scalar_def)
  then have "obex_packet_ok \<lparr>ob_code = 0x80, ob_prefix = [0x10, 0, 2, 0],
       ob_headers = [Target COVER_ART_TARGET, ImageHandle [0x41]]\<rparr>"
    using t by (simp add: obex_packet_ok_def put_unicode_def COVER_ART_TARGET_def)
  from packet_read_back [OF this, of "[]"] show ?thesis by (simp add: eval_nat_numeral)
qed

end
