(* ===== verification/Acl_Writer.thy ===== *)
theory Acl_Writer
  imports Hci_Flow L2cap_Pdu
begin

text \<open>
  The writer task of \<^verbatim>\<open>crates/proto-bluetooth-audio/src/acl.rs\<close>: every outbound PDU
  of every link passes through one task, that claims a buffer of the controller for each
  fragment. The task and its clients share the buffers under a lock, so the unit of
  interleaving is what one of them does between two awaits: a client's call is a step of
  \<open>client_call\<close>, the task's next step is \<open>pump_next\<close>. \<open>Notify\<close> keeps at most one permit for a
  task that is not waiting yet; a call's notification is a step of its own, since the lock is
  released first.
\<close>

section \<open>The writer\<close>

record acl_job =
  jb_handle :: handle
  jb_pdu :: l2cap_pdu

text \<open>Where the task is; the packets are the fragments of its PDU that are not sent.\<close>

datatype pump_at =
    PumpIdle
  | PumpTaken acl_job
  | PumpEncoded handle bytes
  | PumpClaiming handle "acl_packet list"
  | PumpWaiting handle "acl_packet list"
  | PumpParked handle "acl_packet list"
  | PumpSending handle "acl_packet list"
  | PumpStopped

record acl_writer =
  aw_queue :: "acl_job list"
  aw_credits :: acl_credits
  aw_mtu :: u16
  aw_dead :: "handle set"
  aw_permit :: bool
  aw_notes :: nat
  aw_pump :: pump_at
  aw_sent :: "acl_packet list"

definition writer_spawn :: acl_writer where
  "writer_spawn =
     \<lparr>aw_queue = [], aw_credits = acl_credits_new 1, aw_mtu = 255, aw_dead = {}, aw_permit = False,
      aw_notes = 0, aw_pump = PumpIdle, aw_sent = []\<rparr>"

datatype writer_call =
    ConfigurePool u16 u16
  | QueuePdu handle l2cap_pdu
  | PacketsCompleted handle u16
  | LinkLost handle
  | LinkFound handle
  | NotifyWriter

definition notify_one :: "acl_writer \<Rightarrow> acl_writer" where
  "notify_one w =
     (case aw_pump w of
        PumpParked h ps \<Rightarrow> w\<lparr>aw_pump := PumpClaiming h ps\<rparr>
      | _ \<Rightarrow> w\<lparr>aw_permit := True\<rparr>)"

fun client_call :: "writer_call \<Rightarrow> acl_writer \<Rightarrow> acl_writer" where
  "client_call (ConfigurePool capacity mtu) w =
     w\<lparr>aw_credits := acl_set_capacity capacity (aw_credits w), aw_mtu := max mtu 1, aw_notes := aw_notes w + 1\<rparr>"
| "client_call (QueuePdu h pdu) w =
     (if aw_pump w = PumpStopped then w else w\<lparr>aw_queue := aw_queue w @ [\<lparr>jb_handle = h, jb_pdu = pdu\<rparr>]\<rparr>)"
| "client_call (PacketsCompleted h n) w =
     (let (released, c) = acl_complete h n (aw_credits w) in
      w\<lparr>aw_credits := c, aw_notes := aw_notes w + of_bool (0 < released)\<rparr>)"
| "client_call (LinkLost h) w =
     (let (reclaimed, c) = acl_link_down h (aw_credits w) in
      w\<lparr>aw_credits := c, aw_dead := insert h (aw_dead w), aw_notes := aw_notes w + 1 + of_bool (0 < reclaimed)\<rparr>)"
| "client_call (LinkFound h) w = w\<lparr>aw_dead := aw_dead w - {h}\<rparr>"
| "client_call NotifyWriter w = (if aw_notes w = 0 then w else notify_one (w\<lparr>aw_notes := aw_notes w - 1\<rparr>))"

text \<open>\<open>chunks\<close> of a slice, for a positive length.\<close>

function chunks :: "nat \<Rightarrow> bytes \<Rightarrow> bytes list" where
  "chunks n bs = (if bs = [] \<or> n = 0 then [] else take n bs # chunks n (drop n bs))"
  by pat_completeness auto
termination by (relation "measure (\<lambda>(n, bs). length bs)") auto

declare chunks.simps [simp del]

definition acl_fragments :: "nat \<Rightarrow> handle \<Rightarrow> bytes \<Rightarrow> acl_packet list" where
  "acl_fragments mtu h bs =
     (case chunks mtu bs of
        [] \<Rightarrow> []
      | c # cs \<Rightarrow> acl_new h FirstFlushable c # map (acl_new h Continuing) cs)"

text \<open>One step of the task; \<open>taken\<close> is whether the transport takes the packet handed to it.\<close>

definition pump_next :: "bool \<Rightarrow> acl_writer \<Rightarrow> acl_writer option" where
  "pump_next taken w =
     (case aw_pump w of
        PumpIdle \<Rightarrow> (case aw_queue w of [] \<Rightarrow> None | j # q \<Rightarrow> Some (w\<lparr>aw_queue := q, aw_pump := PumpTaken j\<rparr>))
      | PumpTaken j \<Rightarrow>
          Some (w\<lparr>aw_pump :=
            (if jb_handle j \<in> aw_dead w then PumpIdle
             else case pdu_encode (jb_pdu j) of Inl _ \<Rightarrow> PumpIdle | Inr bs \<Rightarrow> PumpEncoded (jb_handle j) bs)\<rparr>)
      | PumpEncoded h bs \<Rightarrow> Some (w\<lparr>aw_pump := PumpClaiming h (acl_fragments (unat (max (aw_mtu w) 1)) h bs)\<rparr>)
      | PumpClaiming h ps \<Rightarrow>
          Some (if ps = [] \<or> h \<in> aw_dead w then w\<lparr>aw_pump := PumpIdle\<rparr>
            else let (ok, c) = acl_claim h (aw_credits w) in
              w\<lparr>aw_credits := c, aw_pump := (if ok then PumpSending h ps else PumpWaiting h ps)\<rparr>)
      | PumpWaiting h ps \<Rightarrow>
          Some (if aw_permit w then w\<lparr>aw_permit := False, aw_pump := PumpClaiming h ps\<rparr>
            else w\<lparr>aw_pump := PumpParked h ps\<rparr>)
      | PumpSending h (p # ps) \<Rightarrow>
          Some (if taken then w\<lparr>aw_sent := aw_sent w @ [p], aw_pump := PumpClaiming h ps\<rparr>
            else w\<lparr>aw_queue := [], aw_pump := PumpStopped\<rparr>)
      | PumpSending h [] \<Rightarrow> None
      | PumpParked h ps \<Rightarrow> None
      | PumpStopped \<Rightarrow> None)"

text \<open>
  The writers that a run reaches: with the jobs the clients queued, in order, and the handles
  that a link was ever lost on.
\<close>

fun queued_by :: "writer_call \<Rightarrow> acl_writer \<Rightarrow> acl_job list" where
  "queued_by (QueuePdu h pdu) w = (if aw_pump w = PumpStopped then [] else [\<lparr>jb_handle = h, jb_pdu = pdu\<rparr>])"
| "queued_by _ w = []"

fun lost_by :: "writer_call \<Rightarrow> handle set" where
  "lost_by (LinkLost h) = {h}"
| "lost_by _ = {}"

inductive writer_run :: "acl_job list \<Rightarrow> handle set \<Rightarrow> acl_writer \<Rightarrow> bool" where
  spawned: "writer_run [] {} writer_spawn"
| called: "writer_run js L w \<Longrightarrow> writer_run (js @ queued_by c w) (L \<union> lost_by c) (client_call c w)"
| pumped: "\<lbrakk>writer_run js L w; pump_next taken w = Some w'\<rbrakk> \<Longrightarrow> writer_run js L w'"

section \<open>Buffers and wakeups\<close>

text \<open>A task may wait for \<open>h\<close> only while its link lives and the controller has no buffer.\<close>

definition may_wait :: "handle \<Rightarrow> acl_writer \<Rightarrow> bool" where
  "may_wait h w \<longleftrightarrow> h \<notin> aw_dead w \<and> acl_available (aw_credits w) = 0"

definition woken :: "acl_writer \<Rightarrow> bool" where
  "woken w \<longleftrightarrow>
     (case aw_pump w of
        PumpParked h ps \<Rightarrow> ps \<noteq> [] \<and> (may_wait h w \<or> 0 < aw_notes w)
      | PumpWaiting h ps \<Rightarrow> ps \<noteq> [] \<and> (may_wait h w \<or> 0 < aw_notes w \<or> aw_permit w)
      | PumpSending h ps \<Rightarrow> ps \<noteq> []
      | _ \<Rightarrow> True)"

definition writer_ok :: "acl_writer \<Rightarrow> bool" where
  "writer_ok w \<longleftrightarrow>
     acl_ok (aw_credits w)
     \<and> (\<forall>h\<in>aw_dead w. count (held (ac_outstanding (aw_credits w))) h = 0)
     \<and> woken w"

lemma spawn_ok: "writer_ok writer_spawn"
  by (simp add: writer_ok_def writer_spawn_def acl_ok_def acl_credits_new_def woken_def tbl_all_def)

lemma claim_facts:
  assumes "acl_ok c"
  shows "acl_ok (snd (acl_claim h c)) \<and> (fst (acl_claim h c) \<longleftrightarrow> acl_available c \<noteq> 0)
    \<and> (\<not> fst (acl_claim h c) \<longrightarrow> snd (acl_claim h c) = c)
    \<and> (\<forall>g. g \<noteq> h \<longrightarrow> count (held (ac_outstanding (snd (acl_claim h c)))) g = count (held (ac_outstanding c)) g)"
proof (cases "acl_available c = 0")
  case True
  then show ?thesis using assms by (simp add: acl_claim_def)
next
  case False
  then show ?thesis using acl_claim_sim [OF assms False, of h] by (simp add: acl_claim_def)
qed

lemma complete_none:
  assumes "acl_ok c" "acl_complete h n c = (0, c')"
  shows "acl_available c' = acl_available c"
proof -
  note sim = acl_complete_sim [OF assms]
  have "held (ac_outstanding c') = held (ac_outstanding c)"
    by (rule multiset_eqI) (use sim in \<open>auto simp: min_def split: if_splits\<close>)
  then have "unat (ac_total c') = unat (ac_total c)" using sim assms(1) by (metis acl_ok_def)
  then have "ac_total c' = ac_total c" by (simp add: word_unat_eq_iff)
  then show ?thesis using sim by (simp add: acl_available_def)
qed

lemma may_wait_fields:
  "may_wait h (w\<lparr>aw_pump := p\<rparr>) = may_wait h w" "may_wait h (w\<lparr>aw_permit := b\<rparr>) = may_wait h w"
  "may_wait h (w\<lparr>aw_notes := n\<rparr>) = may_wait h w" "may_wait h (w\<lparr>aw_queue := q\<rparr>) = may_wait h w"
  "may_wait h (w\<lparr>aw_sent := ps\<rparr>) = may_wait h w"
  by (simp_all add: may_wait_def)

lemma call_ok:
  assumes "writer_ok w"
  shows "writer_ok (client_call c w)"
proof (cases c)
  case (PacketsCompleted h n)
  obtain k c' where r: "acl_complete h n (aw_credits w) = (k, c')" by fastforce
  have ok: "acl_ok (aw_credits w)" using assms by (simp add: writer_ok_def)
  note sim = acl_complete_sim [OF ok r]
  have "acl_available c' = acl_available (aw_credits w)" if "k = 0" using complete_none [OF ok] r that by simp
  then have "woken (client_call c w)"
    using assms by (cases "k = 0")
      (auto simp: PacketsCompleted r writer_ok_def woken_def may_wait_def word_gt_0 split: pump_at.splits)
  moreover have "\<forall>g\<in>aw_dead w. count (held (ac_outstanding c')) g = 0"
    using assms sim by (simp add: writer_ok_def del: count_eq_zero_iff)
  ultimately show ?thesis using sim by (simp add: PacketsCompleted r writer_ok_def)
next
  case (LinkLost h)
  obtain k c' where r: "acl_link_down h (aw_credits w) = (k, c')" by fastforce
  have ok: "acl_ok (aw_credits w)" using assms by (simp add: writer_ok_def)
  note sim = acl_link_down_sim [OF ok r]
  have "\<forall>g\<in>insert h (aw_dead w). count (held (ac_outstanding c')) g = 0"
    using assms sim by (simp add: writer_ok_def del: count_eq_zero_iff)
  moreover have "woken (client_call c w)"
    using assms by (auto simp: LinkLost r writer_ok_def woken_def split: pump_at.splits)
  ultimately show ?thesis using sim by (simp add: LinkLost r writer_ok_def)
next
  case NotifyWriter
  then show ?thesis using assms
    by (auto simp: writer_ok_def woken_def notify_one_def may_wait_fields split: pump_at.splits)
qed (use assms in \<open>auto simp: writer_ok_def woken_def may_wait_def acl_set_capacity_def acl_ok_def split: pump_at.splits\<close>)

lemma pump_ok:
  assumes ok: "writer_ok w" and step: "pump_next taken w = Some w'"
  shows "writer_ok w'"
proof (cases "aw_pump w")
  case (PumpClaiming h ps)
  show ?thesis
  proof (cases "ps = [] \<or> h \<in> aw_dead w")
    case True
    then show ?thesis using ok step by (auto simp: PumpClaiming pump_next_def writer_ok_def woken_def)
  next
    case False
    obtain b c where r: "acl_claim h (aw_credits w) = (b, c)" by fastforce
    have f: "acl_ok c" "b \<longleftrightarrow> acl_available (aw_credits w) \<noteq> 0" "\<not> b \<Longrightarrow> c = aw_credits w"
      "\<And>g. g \<noteq> h \<Longrightarrow> count (held (ac_outstanding c)) g = count (held (ac_outstanding (aw_credits w))) g"
      using claim_facts [of "aw_credits w" h] ok r by (auto simp: writer_ok_def)
    have w': "w' = w\<lparr>aw_credits := c, aw_pump := (if b then PumpSending h ps else PumpWaiting h ps)\<rparr>"
      using step False r by (auto simp: PumpClaiming pump_next_def)
    have "woken w'" using False f by (auto simp: w' woken_def may_wait_def)
    moreover have "\<forall>g\<in>aw_dead w. count (held (ac_outstanding c)) g = 0"
      using ok False f(4) by (metis (no_types, lifting) writer_ok_def)
    ultimately show ?thesis using f(1) by (simp add: writer_ok_def w')
  qed
qed (use ok step in
  \<open>auto simp: pump_next_def writer_ok_def woken_def may_wait_fields split: list.splits if_splits sum.splits\<close>)

lemma reached_ok: "writer_run js L w \<Longrightarrow> writer_ok w"
  by (induction rule: writer_run.induct) (auto intro: spawn_ok call_ok pump_ok)

lemma dead_were_lost: "writer_run js L w \<Longrightarrow> aw_dead w \<subseteq> L"
proof (induction rule: writer_run.induct)
  case (called js L w c)
  then show ?case by (cases c) (auto simp: Let_def notify_one_def split: prod.splits pump_at.splits)
next
  case (pumped js L w taken w')
  then show ?case
    by (auto simp: pump_next_def Let_def split: pump_at.splits list.splits if_splits prod.splits sum.splits)
qed (simp add: writer_spawn_def)

text \<open>A parked task whose link is gone, or that has a buffer to claim, is about to be woken, and then acts.\<close>

text \<open>
  C20. The writer task never sleeps past its work: in any state that a run of the task and its
  clients reaches, if the task is parked and its link is gone or the controller has a buffer
  free, then a notification is still to be delivered, and with it the task abandons the PDU or
  claims the buffer.
\<close>

theorem no_wakeup_lost:
  assumes run: "writer_run js L w" and parked: "aw_pump w = PumpParked h ps"
    and ready: "h \<in> aw_dead w \<or> acl_available (aw_credits w) \<noteq> 0"
  shows "0 < aw_notes w
    \<and> (\<exists>w'. pump_next taken (client_call NotifyWriter w) = Some w'
         \<and> aw_pump w' = (if h \<in> aw_dead w then PumpIdle else PumpSending h ps))"
proof -
  have ok: "writer_ok w" using run by (rule reached_ok)
  then have n: "0 < aw_notes w" "ps \<noteq> []" using parked ready by (auto simp: writer_ok_def woken_def may_wait_def)
  have "fst (acl_claim h (aw_credits w)) \<longleftrightarrow> acl_available (aw_credits w) \<noteq> 0"
    using claim_facts ok by (simp add: writer_ok_def)
  then show ?thesis using n parked ready
    by (auto simp: notify_one_def pump_next_def Let_def split: prod.splits)
qed

section \<open>What a link is sent\<close>

text \<open>
  \<open>written L js ps\<close>: the packets \<open>ps\<close> are the jobs \<open>js\<close> one after another, each cut into
  fragments; a job is missing if its PDU has no encoding, and cut short only on a lost link.
\<close>

inductive written :: "handle set \<Rightarrow> acl_job list \<Rightarrow> acl_packet list \<Rightarrow> bool" for L where
  none: "written L [] []"
| unencodable: "\<lbrakk>written L js ps; pdu_encode (jb_pdu j) = Inl e\<rbrakk> \<Longrightarrow> written L (js @ [j]) ps"
| whole: "\<lbrakk>written L js ps; pdu_encode (jb_pdu j) = Inr bs; 0 < m\<rbrakk>
    \<Longrightarrow> written L (js @ [j]) (ps @ acl_fragments m (jb_handle j) bs)"
| cut: "\<lbrakk>written L js ps; pdu_encode (jb_pdu j) = Inr bs; 0 < m; jb_handle j \<in> L\<rbrakk>
    \<Longrightarrow> written L (js @ [j]) (ps @ take k (acl_fragments m (jb_handle j) bs))"

lemma written_mono: "written L js ps \<Longrightarrow> L \<subseteq> L' \<Longrightarrow> written L' js ps"
  by (induction rule: written.induct) (auto intro: written.intros)

lemma written_dead: "\<lbrakk>written L js ps; jb_handle j \<in> L\<rbrakk> \<Longrightarrow> written L (js @ [j]) ps"
  using unencodable [of L js ps j] cut [of L js ps j _ 1 0] by (cases "pdu_encode (jb_pdu j)") auto

definition under_way :: "handle set \<Rightarrow> handle \<Rightarrow> acl_packet list \<Rightarrow> acl_job list \<Rightarrow> acl_packet list \<Rightarrow> bool" where
  "under_way L h rest js ps \<longleftrightarrow>
     (\<exists>t j bs m done ps0. js = t @ [j] \<and> jb_handle j = h \<and> pdu_encode (jb_pdu j) = Inr bs \<and> 0 < m
        \<and> acl_fragments m h bs = done @ rest \<and> written L t ps0 \<and> ps = ps0 @ done)"

text \<open>How the packets sent stand to the jobs taken from the queue, by where the task is.\<close>

fun stands :: "handle set \<Rightarrow> pump_at \<Rightarrow> acl_job list \<Rightarrow> acl_packet list \<Rightarrow> bool" where
  "stands L PumpIdle js ps = written L js ps"
| "stands L (PumpTaken j) js ps = (\<exists>t. js = t @ [j] \<and> written L t ps)"
| "stands L (PumpEncoded h bs) js ps =
     (\<exists>t j. js = t @ [j] \<and> jb_handle j = h \<and> pdu_encode (jb_pdu j) = Inr bs \<and> written L t ps)"
| "stands L (PumpClaiming h rest) js ps = under_way L h rest js ps"
| "stands L (PumpWaiting h rest) js ps = under_way L h rest js ps"
| "stands L (PumpParked h rest) js ps = under_way L h rest js ps"
| "stands L (PumpSending h rest) js ps = under_way L h rest js ps"
| "stands L PumpStopped js ps = (\<exists>h rest js' more'. js = js' @ more' \<and> under_way L h rest js' ps)"

lemma under_way_mono: "under_way L h rest js ps \<Longrightarrow> L \<subseteq> L' \<Longrightarrow> under_way L' h rest js ps"
  unfolding under_way_def by (blast intro: written_mono)

lemma stands_mono: "stands L p js ps \<Longrightarrow> L \<subseteq> L' \<Longrightarrow> stands L' p js ps"
  by (cases p) (auto intro: written_mono under_way_mono)

lemma under_way_done: "under_way L h [] js ps \<Longrightarrow> written L js ps"
  by (auto simp: under_way_def intro: whole)

lemma under_way_dead: "\<lbrakk>under_way L h rest js ps; h \<in> L\<rbrakk> \<Longrightarrow> written L js ps"
  unfolding under_way_def using cut by (metis append_eq_conv_conj)

lemma under_way_sent: "under_way L h (p # rest) js ps \<Longrightarrow> under_way L h rest js (ps @ [p])"
  unfolding under_way_def by (metis append.assoc append_Cons append_Nil)

definition jobs_accounted :: "acl_job list \<Rightarrow> handle set \<Rightarrow> acl_writer \<Rightarrow> bool" where
  "jobs_accounted js L w \<longleftrightarrow> (\<exists>t. js = t @ aw_queue w \<and> stands L (aw_pump w) t (aw_sent w))"

lemma call_accounted:
  assumes "jobs_accounted js L w"
  shows "jobs_accounted (js @ queued_by c w) (L \<union> lost_by c) (client_call c w)"
proof -
  obtain t where t: "js = t @ aw_queue w" "stands L (aw_pump w) t (aw_sent w)"
    using assms by (auto simp: jobs_accounted_def)
  note grown = stands_mono [OF t(2), of "L \<union> lost_by c"]
  show ?thesis
  proof (cases c)
    case NotifyWriter
    then show ?thesis using t
      by (auto simp: jobs_accounted_def notify_one_def split: pump_at.splits)
  qed (use t grown in \<open>auto simp: jobs_accounted_def Let_def split: prod.splits\<close>)
qed

lemma fragments_of_encoded:
  "written L t ps \<Longrightarrow> pdu_encode (jb_pdu j) = Inr bs \<Longrightarrow> 0 < m
    \<Longrightarrow> under_way L (jb_handle j) (acl_fragments m (jb_handle j) bs) (t @ [j]) ps"
  unfolding under_way_def by force

lemma mtu_positive: "0 < unat (max (m :: u16) 1)"
proof -
  have "1 \<le> max m 1" by simp
  then show ?thesis by (simp add: word_le_nat_alt)
qed

lemma pump_accounted:
  assumes acc: "jobs_accounted js L w" and dead: "aw_dead w \<subseteq> L" and step: "pump_next taken w = Some w'"
  shows "jobs_accounted js L w'"
proof -
  obtain t where t: "js = t @ aw_queue w" "stands L (aw_pump w) t (aw_sent w)"
    using acc by (auto simp: jobs_accounted_def)
  show ?thesis
  proof (cases "aw_pump w")
    case (PumpTaken j)
    then obtain t' where t': "t = t' @ [j]" "written L t' (aw_sent w)" using t(2) by auto
    have "written L t (aw_sent w)" if "jb_handle j \<in> aw_dead w"
      using written_dead t' dead that by auto
    moreover have "written L t (aw_sent w)" if "pdu_encode (jb_pdu j) = Inl e" for e
      using unencodable t' that by auto
    ultimately show ?thesis using step t t'
      by (auto simp: PumpTaken pump_next_def jobs_accounted_def split: if_splits sum.splits)
  next
    case (PumpEncoded h bs)
    then obtain t' j where t': "t = t' @ [j]" "jb_handle j = h" "pdu_encode (jb_pdu j) = Inr bs" "written L t' (aw_sent w)"
      using t(2) by auto
    have "under_way L h (acl_fragments (unat (max (aw_mtu w) 1)) h bs) t (aw_sent w)"
      using fragments_of_encoded [OF t'(4,3) mtu_positive] t'(1,2) by simp
    then show ?thesis using step t(1) PumpEncoded by (auto simp: pump_next_def jobs_accounted_def)
  next
    case (PumpClaiming h ps)
    have "written L t (aw_sent w)" if "ps = [] \<or> h \<in> aw_dead w"
      using that t(2) dead under_way_done under_way_dead by (auto simp: PumpClaiming)
    then show ?thesis using step t
      by (auto simp: PumpClaiming pump_next_def jobs_accounted_def Let_def split: if_splits prod.splits)
  next
    case (PumpSending h ps)
    then obtain p rest where ps: "ps = p # rest" using step by (auto simp: pump_next_def split: list.splits)
    have u: "under_way L h (p # rest) t (aw_sent w)" using t(2) PumpSending ps by simp
    show ?thesis
    proof (cases taken)
      case True
      then show ?thesis using step t(1) under_way_sent [OF u] by (auto simp: PumpSending ps pump_next_def jobs_accounted_def)
    next
      case False
      then have "w' = w\<lparr>aw_queue := [], aw_pump := PumpStopped\<rparr>"
        using step by (simp add: PumpSending ps pump_next_def)
      moreover have "stands L PumpStopped js (aw_sent w)" using u t(1) by auto
      ultimately show ?thesis by (simp add: jobs_accounted_def)
    qed
  qed (use step t in \<open>auto simp: pump_next_def jobs_accounted_def split: list.splits if_splits\<close>)
qed

lemma reached_accounted: "writer_run js L w \<Longrightarrow> jobs_accounted js L w"
proof (induction rule: writer_run.induct)
  case (called js L w c)
  then show ?case by (intro call_accounted)
next
  case (pumped js L w taken w')
  then show ?case using pump_accounted dead_were_lost by blast
qed (simp add: jobs_accounted_def writer_spawn_def written.none)

text \<open>What the peer makes of the fragments: a first fragment begins a PDU, the others go on with it.\<close>

definition join_fragment :: "bytes list \<Rightarrow> acl_packet \<Rightarrow> bytes list" where
  "join_fragment acc p =
     (if starts_pdu (acl_boundary p) then acc @ [acl_data p]
      else if acc = [] then [] else butlast acc @ [last acc @ acl_data p])"

definition on_link :: "handle \<Rightarrow> acl_packet list \<Rightarrow> acl_packet list" where
  "on_link h ps = filter (\<lambda>p. acl_handle p = h) ps"

definition encoded_for :: "handle \<Rightarrow> acl_job list \<Rightarrow> bytes list" where
  "encoded_for h js =
     concat (map (\<lambda>j. if jb_handle j = h then case pdu_encode (jb_pdu j) of Inl _ \<Rightarrow> [] | Inr bs \<Rightarrow> [bs] else []) js)"

lemma concat_chunks: "0 < n \<Longrightarrow> concat (chunks n bs) = bs"
  by (induction n bs rule: chunks.induct) (simp add: chunks.simps)

lemma join_continuing: "foldl join_fragment (acc @ [x]) (map (acl_new h Continuing) cs) = acc @ [x @ concat cs]"
  by (induction cs arbitrary: x) (simp_all add: join_fragment_def acl_new_def starts_pdu_def)

lemma join_fragments:
  assumes "0 < m" "bs \<noteq> []"
  shows "foldl join_fragment acc (acl_fragments m h bs) = acc @ [bs]"
proof -
  obtain c cs where c: "chunks m bs = c # cs" using assms by (metis chunks.simps neq0_conv)
  have "c @ concat cs = bs" using concat_chunks [OF assms(1), of bs] c by simp
  then show ?thesis
    using join_continuing [of acc c h cs] by (simp add: acl_fragments_def c join_fragment_def acl_new_def starts_pdu_def)
qed

lemma fragments_on_link: "on_link g (acl_fragments m h bs) = (if g = h then acl_fragments m h bs else [])"
  by (auto simp: on_link_def acl_fragments_def acl_new_def filter_id_conv filter_empty_conv split: list.splits)

lemma take_on_link: "g \<noteq> h \<Longrightarrow> on_link g (take k (acl_fragments m h bs)) = []"
  using fragments_on_link [of g m h bs]
  by (auto simp: on_link_def filter_empty_conv dest: in_set_takeD)

lemma on_link_append [simp]: "on_link h (ps @ qs) = on_link h ps @ on_link h qs"
  by (simp add: on_link_def)

lemma encoded_not_empty: "pdu_encode p = Inr bs \<Longrightarrow> bs \<noteq> []"
  by (auto simp: pdu_encode_def le16_def split: option.splits)

lemma written_on_link:
  "\<lbrakk>written L js ps; h \<notin> L\<rbrakk> \<Longrightarrow> foldl join_fragment [] (on_link h ps) = encoded_for h js"
proof (induction rule: written.induct)
  case (whole js ps j bs m)
  then show ?case using join_fragments encoded_not_empty
    by (auto simp: fragments_on_link encoded_for_def)
next
  case (cut js ps j bs m k)
  then have "jb_handle j \<noteq> h" by auto
  then show ?case using cut take_on_link [of h "jb_handle j"] by (simp add: encoded_for_def)
qed (simp_all add: on_link_def encoded_for_def)

text \<open>
  C19. Whatever the interleaving of the task and its clients, a link that is never lost is sent the
  PDUs queued for it, once each, whole, in order, from first fragment to last, when the task is
  idle with nothing queued: what the peer reassembles is the list of the encodable PDUs.
\<close>

theorem link_gets_its_pdus:
  assumes "writer_run js L w" "h \<notin> L" "aw_pump w = PumpIdle" "aw_queue w = []"
  shows "foldl join_fragment [] (on_link h (aw_sent w)) = encoded_for h js"
  using reached_accounted [OF assms(1)] assms(2-) by (auto simp: jobs_accounted_def written_on_link)

text \<open>At any time: whole jobs one after another, and then the beginning of at most one more.\<close>

lemma under_way_begun:
  assumes "under_way L h rest t qs"
  shows "\<exists>t' j ps begun bs m k. t = t' @ [j] \<and> written L t' ps \<and> qs = ps @ begun
    \<and> pdu_encode (jb_pdu j) = Inr bs \<and> begun = take k (acl_fragments m (jb_handle j) bs)"
  using assms unfolding under_way_def by (metis append_eq_conv_conj)

definition in_order :: "handle set \<Rightarrow> acl_job list \<Rightarrow> acl_packet list \<Rightarrow> bool" where
  "in_order L js qs \<longleftrightarrow>
     (\<exists>t rest ps begun. js = t @ rest \<and> written L t ps \<and> qs = ps @ begun
       \<and> (begun \<noteq> [] \<longrightarrow> (\<exists>j rest' bs m k. rest = j # rest' \<and> pdu_encode (jb_pdu j) = Inr bs
            \<and> begun = take k (acl_fragments m (jb_handle j) bs))))"

lemma in_order_under_way: "under_way L h rest t qs \<Longrightarrow> in_order L (t @ q) qs"
  using under_way_begun [of L h rest t qs] unfolding in_order_def by (metis append_Cons append_Nil append_assoc)

lemma in_order_written: "written L t qs \<Longrightarrow> in_order L (t @ q) qs"
  unfolding in_order_def by force

text \<open>
  At any time what the transport was given is the jobs in the order they were queued, each
  as the fragments of its PDU with nothing in between, a job cut short only on a link that was
  lost, and at the end the beginning of at most one more job.
\<close>

theorem writes_never_interleave:
  assumes "writer_run js L w"
  shows "in_order L js (aw_sent w)"
proof -
  obtain t where t: "js = t @ aw_queue w" "stands L (aw_pump w) t (aw_sent w)"
    using reached_accounted [OF assms] by (auto simp: jobs_accounted_def)
  show ?thesis
    using t(2) unfolding t(1)
    by (cases "aw_pump w")
      (auto simp del: append_assoc intro: in_order_written in_order_under_way
        simp: append_assoc [of _ "[_]", simplified] append_assoc)
qed

text \<open>
  A link that is lost and whose handle is used again before the task looks: the rest of a PDU
  of the old link is sent to the new one, whose first packet continues a PDU it never began.
\<close>

definition old_pdu :: l2cap_pdu where "old_pdu = \<lparr>pdu_cid = 1, pdu_payload = [1, 2]\<rparr>"

fun pump_times :: "nat \<Rightarrow> acl_writer \<Rightarrow> acl_writer" where
  "pump_times 0 w = w"
| "pump_times (Suc n) w = (case pump_next True w of None \<Rightarrow> w | Some w' \<Rightarrow> pump_times n w')"

lemma pump_numeral:
  "pump_times (numeral k) w = (case pump_next True w of None \<Rightarrow> w | Some w' \<Rightarrow> pump_times (pred_numeral k) w')"
  by (simp add: numeral_eq_Suc)

lemma pump_times_run: "writer_run js L w \<Longrightarrow> writer_run js L (pump_times n w)"
  by (induction n arbitrary: w) (auto intro: pumped split: option.splits)

definition half_sent :: acl_writer where
  "half_sent =
     pump_times 9 (client_call (QueuePdu 1 old_pdu) (client_call NotifyWriter (client_call (ConfigurePool 1 3) writer_spawn)))"

definition link_replaced :: acl_writer where
  "link_replaced = client_call NotifyWriter (client_call (LinkFound 1) (client_call (LinkLost 1) half_sent))"

lemma old_pdu_encoded: "pdu_encode old_pdu = Inr [2, 0, 1, 0, 1, 2]"
  by (simp add: pdu_encode_def old_pdu_def u16_try_from_def le16_def)

lemma old_pdu_cut: "acl_fragments 3 1 [2, 0, 1, 0, 1, 2] = [acl_new 1 FirstFlushable [2, 0, 1], acl_new 1 Continuing [0, 1, 2]]"
  by code_simp

lemma three_bytes: "max (3 :: u16) 1 = 3"
  by (simp add: max_def word_le_nat_alt)

lemma half_sent_reached:
  "half_sent = \<lparr>aw_queue = [], aw_credits = \<lparr>ac_capacity = 1, ac_outstanding = [(1, 1)], ac_total = 1\<rparr>, aw_mtu = 3,
     aw_dead = {}, aw_permit = False, aw_notes = 0, aw_pump = PumpParked 1 [acl_new 1 Continuing [0, 1, 2]],
     aw_sent = [acl_new 1 FirstFlushable [2, 0, 1]]\<rparr>"
  by (simp add: half_sent_def pump_numeral pump_next_def writer_spawn_def notify_one_def old_pdu_encoded
    acl_set_capacity_def acl_credits_new_def three_bytes old_pdu_cut acl_claim_def acl_available_def sat_sub_def
    or_zero_def)

lemma link_replaced_reached:
  "link_replaced = half_sent\<lparr>aw_credits := \<lparr>ac_capacity = 1, ac_outstanding = [], ac_total = 0\<rparr>, aw_notes := 1,
     aw_pump := PumpClaiming 1 [acl_new 1 Continuing [0, 1, 2]]\<rparr>"
  by (simp add: link_replaced_def half_sent_reached acl_link_down_def or_zero_def Let_def notify_one_def AList.delete_eq)

lemma rest_sent:
  "pump_times 2 link_replaced = half_sent\<lparr>aw_notes := 1, aw_pump := PumpClaiming 1 [],
     aw_sent := [acl_new 1 FirstFlushable [2, 0, 1], acl_new 1 Continuing [0, 1, 2]]\<rparr>"
  by (simp add: link_replaced_reached half_sent_reached pump_numeral pump_next_def acl_claim_def acl_available_def
    sat_sub_def or_zero_def)

lemma half_sent_run: "writer_run [\<lparr>jb_handle = 1, jb_pdu = old_pdu\<rparr>] {} half_sent"
  unfolding half_sent_def
  by (rule pump_times_run)
    (use called [OF called [OF called [OF spawned, of "ConfigurePool 1 3"], of NotifyWriter], of "QueuePdu 1 old_pdu"]
     in \<open>simp add: writer_spawn_def notify_one_def\<close>)

text \<open>
  A link lost in the middle of a PDU whose handle is in use again before the task looks is not
  noticed: the rest of the old PDU is sent on the new link, which begins with a continuation.
\<close>

theorem stale_fragment_on_new_link:
  "writer_run [\<lparr>jb_handle = 1, jb_pdu = old_pdu\<rparr>] {1} (pump_times 2 link_replaced)
   \<and> 1 \<notin> aw_dead (pump_times 2 link_replaced)
   \<and> map (\<lambda>p. (acl_boundary p, acl_data p)) (aw_sent half_sent) = [(FirstFlushable, [2, 0, 1])]
   \<and> map (\<lambda>p. (acl_boundary p, acl_data p)) (aw_sent (pump_times 2 link_replaced))
       = [(FirstFlushable, [2, 0, 1]), (Continuing, [0, 1, 2])]"
proof -
  have "writer_run [\<lparr>jb_handle = 1, jb_pdu = old_pdu\<rparr>] {1} link_replaced"
    unfolding link_replaced_def
    using called [OF called [OF called [OF half_sent_run, of "LinkLost 1"], of "LinkFound 1"], of NotifyWriter] by simp
  then have "writer_run [\<lparr>jb_handle = 1, jb_pdu = old_pdu\<rparr>] {1} (pump_times 2 link_replaced)" by (rule pump_times_run)
  moreover have "map (\<lambda>p. (acl_boundary p, acl_data p)) (aw_sent (pump_times 2 link_replaced))
       = [(FirstFlushable, [2, 0, 1]), (Continuing, [0, 1, 2])]"
    "map (\<lambda>p. (acl_boundary p, acl_data p)) (aw_sent half_sent) = [(FirstFlushable, [2, 0, 1])]"
    "1 \<notin> aw_dead (pump_times 2 link_replaced)"
    by (simp_all add: rest_sent half_sent_reached acl_new_def)
  ultimately show ?thesis by blast
qed

theorem no_wakeup_lost_witness:
  "\<exists>w'. pump_next True (client_call NotifyWriter (client_call (LinkLost 1) half_sent)) = Some w' \<and> aw_pump w' = PumpIdle"
proof -
  have "aw_pump (client_call (LinkLost 1) half_sent) = PumpParked 1 [acl_new 1 Continuing [0, 1, 2]]"
    "1 \<in> aw_dead (client_call (LinkLost 1) half_sent)"
    by (simp_all add: half_sent_reached acl_link_down_def Let_def)
  then show ?thesis
    using no_wakeup_lost [OF called [OF half_sent_run, of "LinkLost 1"], of 1 _ True] by auto
qed

definition all_sent :: acl_writer where
  "all_sent = pump_times 8 (client_call (QueuePdu 1 old_pdu) (client_call (ConfigurePool 2 3) writer_spawn))"

lemma all_sent_reached: "aw_pump all_sent = PumpIdle \<and> aw_queue all_sent = [] \<and> length (aw_sent all_sent) = 2"
  by (simp add: all_sent_def pump_numeral pump_next_def writer_spawn_def notify_one_def old_pdu_encoded
    acl_set_capacity_def acl_credits_new_def three_bytes old_pdu_cut acl_claim_def acl_available_def sat_sub_def
    or_zero_def max_def word_le_nat_alt word_less_nat_alt)

theorem link_gets_its_pdus_witness:
  "length (aw_sent all_sent) = 2
   \<and> foldl join_fragment [] (on_link 1 (aw_sent all_sent)) = [[2, 0, 1, 0, 1, 2]]"
proof -
  have "writer_run [\<lparr>jb_handle = 1, jb_pdu = old_pdu\<rparr>] {} all_sent"
    unfolding all_sent_def
    by (rule pump_times_run)
      (use called [OF called [OF spawned, of "ConfigurePool 2 3"], of "QueuePdu 1 old_pdu"] in \<open>simp add: writer_spawn_def\<close>)
  from link_gets_its_pdus [OF this, of 1] show ?thesis
    using all_sent_reached by (simp add: encoded_for_def old_pdu_encoded)
qed

end
