(* ===== verification/Media.thy ===== *)
theory Media
  imports Rtp A2dp_Codec
begin

text \<open>
  Audio off the air: \<^verbatim>\<open>ldac.rs\<close> (the frame headers of an LDAC payload), \<^verbatim>\<open>latm.rs\<close> (the
  multiplex that carries AAC) and \<^verbatim>\<open>media.rs\<close> (the depacketizer of a negotiated codec), of
  \<^verbatim>\<open>crates/proto-bluetooth-audio/src\<close>. A \<open>BitReader\<close> is its bytes and the position of the next
  bit; a reading operation returns its value and the reader after it.
\<close>

section \<open>LDAC frames\<close>

datatype ldac_rate = Hz44100 | Hz48000 | Hz88200 | Hz96000

fun ldac_rate_of :: "u8 \<Rightarrow> audio_error + ldac_rate" where
  "ldac_rate_of i =
     (if i = 0 then Inr Hz44100 else if i = 1 then Inr Hz48000 else if i = 2 then Inr Hz88200
      else if i = 3 then Inr Hz96000 else Inl (UnsupportedCodec ''ldac sample rate index'' (ucast i)))"

fun ldac_hz :: "ldac_rate \<Rightarrow> u32" where
  "ldac_hz Hz44100 = 44100"
| "ldac_hz Hz48000 = 48000"
| "ldac_hz Hz88200 = 88200"
| "ldac_hz Hz96000 = 96000"

fun ldac_rate_index :: "ldac_rate \<Rightarrow> u8" where
  "ldac_rate_index Hz44100 = 0"
| "ldac_rate_index Hz48000 = 1"
| "ldac_rate_index Hz88200 = 2"
| "ldac_rate_index Hz96000 = 3"

fun frame_samples :: "ldac_rate \<Rightarrow> u16" where
  "frame_samples Hz44100 = 128"
| "frame_samples Hz48000 = 128"
| "frame_samples Hz88200 = 256"
| "frame_samples Hz96000 = 256"

datatype ldac_channels = Mono | DualChannel | Stereo

fun ldac_channels_of :: "u8 \<Rightarrow> audio_error + ldac_channels" where
  "ldac_channels_of i =
     (if i = 0 then Inr Mono else if i = 1 then Inr DualChannel else if i = 2 then Inr Stereo
      else Inl (UnsupportedCodec ''ldac channel config index'' (ucast i)))"

fun ldac_channels_index :: "ldac_channels \<Rightarrow> u8" where
  "ldac_channels_index Mono = 0"
| "ldac_channels_index DualChannel = 1"
| "ldac_channels_index Stereo = 2"

fun ldac_channel_count :: "ldac_channels \<Rightarrow> u8" where
  "ldac_channel_count Mono = 1"
| "ldac_channel_count DualChannel = 2"
| "ldac_channel_count Stereo = 2"

record ldac_header =
  lh_rate :: ldac_rate
  lh_channels :: ldac_channels
  lh_payload_len :: u16
  lh_status :: u8

fun ldac_parse :: "bytes \<Rightarrow> audio_error + ldac_header" where
  "ldac_parse (b0 # b1 # b2 # rest) =
     (if b0 \<noteq> 0xAA then Inl (BadMediaPacket ''ldac frame does not start with its syncword'')
      else
        let length_field = push_bit 6 (ucast (b1 AND 0x07)) OR ucast (drop_bit 2 b2) in
        bindE (ldac_rate_of (drop_bit 5 b1)) (\<lambda>rate.
        bindE (ldac_channels_of (drop_bit 3 b1 AND 0x03)) (\<lambda>channels.
          Inr \<lparr>lh_rate = rate, lh_channels = channels, lh_payload_len = length_field + 1, lh_status = b2 AND 0x03\<rparr>)))"
| "ldac_parse buf = Inl (AudioTruncated ''ldac frame header'' 3 (length buf))"

definition ldac_encode :: "ldac_header \<Rightarrow> bytes" where
  "ldac_encode h =
     (let length_field = sat_sub (lh_payload_len h) 1 AND 0x01FF in
      [0xAA,
       push_bit 5 (ldac_rate_index (lh_rate h)) OR push_bit 3 (ldac_channels_index (lh_channels h))
         OR (ucast (drop_bit 6 length_field) AND 0x07),
       push_bit 2 (ucast (length_field AND 0x3F)) OR (lh_status h AND 0x03)])"

definition ldac_frame_len :: "ldac_header \<Rightarrow> nat" where
  "ldac_frame_len h = 3 + unat (lh_payload_len h)"

record ldac_stream =
  ls_rate :: ldac_rate
  ls_channels :: ldac_channels
  ls_frames :: u16

function walk_frames :: "u16 \<Rightarrow> bytes \<Rightarrow> u16" where
  "walk_frames frames rest =
     (case ldac_parse rest of
        Inl _ \<Rightarrow> frames
      | Inr h \<Rightarrow>
          if length rest < ldac_frame_len h then frames
          else walk_frames (sat_add frames 1) (drop (ldac_frame_len h) rest))"
  by pat_completeness auto
termination
  by (relation "measure (\<lambda>(f, rest). length rest)") (auto simp: ldac_frame_len_def)

declare walk_frames.simps [simp del]

definition ldac_stream_parse :: "bytes \<Rightarrow> audio_error + ldac_stream" where
  "ldac_stream_parse payload =
     bindE (ldac_parse payload) (\<lambda>first.
       Inr \<lparr>ls_rate = lh_rate first, ls_channels = lh_channels first, ls_frames = walk_frames 0 payload\<rparr>)"

definition ldac_pcm_frames :: "ldac_stream \<Rightarrow> u32" where
  "ldac_pcm_frames s = ucast (frame_samples (ls_rate s)) * ucast (ls_frames s)"

section \<open>Bits\<close>

type_synonym reader = "bytes \<times> nat"

type_synonym 'a reads = "reader \<Rightarrow> audio_error + 'a \<times> reader"

definition bindR :: "'a reads \<Rightarrow> ('a \<Rightarrow> 'b reads) \<Rightarrow> 'b reads" where
  "bindR m f r = bindE (m r) (\<lambda>(v, r). f v r)"

definition returnR :: "'a \<Rightarrow> 'a reads" where
  "returnR v r = Inr (v, r)"

definition failR :: "string \<Rightarrow> 'a reads" where
  "failR e r = Inl (BadMediaPacket e)"

definition next_bit :: "u32 reads" where
  "next_bit r =
     (case r of (bs, k) \<Rightarrow>
        if length bs \<le> k div 8 then Inl (BadMediaPacket ''LATM header ran past the packet'')
        else Inr (ucast (drop_bit (7 - k mod 8) (bs ! (k div 8)) AND 1), (bs, k + 1)))"

fun read_more :: "nat \<Rightarrow> u32 \<Rightarrow> u32 reads" where
  "read_more 0 v = returnR v"
| "read_more (Suc n) v = bindR next_bit (\<lambda>b. read_more n (push_bit 1 v OR b))"

definition rd :: "nat \<Rightarrow> u32 reads" where
  "rd count = read_more count 0"

definition rd_u8 :: "nat \<Rightarrow> u8 reads" where
  "rd_u8 count =
     bindR (rd (min count 8)) (\<lambda>v.
       if v < 256 then returnR (ucast v) else failR ''LATM field is too wide'')"

definition rd_value :: "u32 reads" where
  "rd_value = bindR (rd 2) (\<lambda>extra. rd (unat ((extra + 1) * 8)))"

fun copy_bits :: "nat \<Rightarrow> nat \<Rightarrow> bytes \<Rightarrow> bytes reads" where
  "copy_bits 0 i out = returnR out"
| "copy_bits (Suc n) i out =
     bindR (rd 1) (\<lambda>b.
       copy_bits n (i + 1)
         (if b = 1 then out[i div 8 := (out ! (i div 8)) OR push_bit (7 - i mod 8) 1] else out))"

text \<open>The buffer is allocated, zeroed, before a bit is read.\<close>

definition asc_buffer :: "nat \<Rightarrow> bytes" where
  "asc_buffer count = replicate ((count + 7) div 8) 0"

definition rd_bytes :: "nat \<Rightarrow> bytes reads" where
  "rd_bytes count = copy_bits count 0 (asc_buffer count)"

definition bit_position :: "nat reads" where
  "bit_position r = Inr (snd r, r)"

definition seek :: "nat \<Rightarrow> unit reads" where
  "seek k r = Inr ((), (fst r, k))"

section \<open>The multiplex\<close>

record mux_config =
  mc_asc :: bytes
  mc_object_type :: u8
  mc_rate :: u32
  mc_channels :: u8

definition latm_rates :: "u32 list" where
  "latm_rates = [96000, 88200, 64000, 48000, 44100, 32000, 24000, 22050, 16000, 12000, 11025, 8000, 7350]"

definition u32_or_zero :: "nat \<Rightarrow> u32" where
  "u32_or_zero n = (if n < 2 ^ 32 then of_nat n else 0)"

text \<open>The fields before the \<open>AudioSpecificConfig\<close> is copied: version, type, rate, channels, length and start.\<close>

definition mux_fields :: "(u32 \<times> u8 \<times> u32 \<times> u8 \<times> u32 \<times> nat) reads" where
  "mux_fields =
     bindR (rd 1) (\<lambda>version.
     bindR (if version = 1 then rd 1 else returnR 0) (\<lambda>version_a.
     if version_a \<noteq> 0 then failR ''LATM audioMuxVersionA is reserved''
     else
     bindR (if version = 1 then rd_value else returnR 0) (\<lambda>_.
     bindR (rd 1) (\<lambda>_.
     bindR (rd 6) (\<lambda>num_sub_frames.
     bindR (rd 4) (\<lambda>num_program.
     bindR (rd 3) (\<lambda>num_layer.
     if num_sub_frames \<noteq> 0 then failR ''LATM numSubFrames > 0 is not implemented''
     else if num_program \<noteq> 0 \<or> num_layer \<noteq> 0 then failR ''LATM multi-program/multi-layer streams are not implemented''
     else
     bindR (if version = 1 then bindR rd_value (\<lambda>n. returnR (Some n)) else returnR None) (\<lambda>asc_len.
     bindR bit_position (\<lambda>asc_start.
     bindR (rd_u8 5) (\<lambda>object_type.
     bindR (rd 4) (\<lambda>frequency_index.
     bindR (rd_u8 4) (\<lambda>channels.
     if length latm_rates \<le> unat frequency_index
     then failR ''LATM names a sampling frequency index we cannot resolve''
     else
     bindR bit_position (\<lambda>here.
     returnR (version, object_type, latm_rates ! unat frequency_index, channels,
       (case asc_len of Some n \<Rightarrow> n | None \<Rightarrow> u32_or_zero (here - asc_start) + 3), asc_start))))))))))))))"

function escapes :: "reader \<Rightarrow> audio_error + unit \<times> reader" where
  "escapes r =
     (case rd 1 r of
        Inl e \<Rightarrow> Inl e
      | Inr (escape, r1) \<Rightarrow>
          (case rd 8 r1 of
             Inl e \<Rightarrow> Inl e
           | Inr (_, r2) \<Rightarrow> if escape = 0 then Inr ((), r2) else escapes r2))"
  by pat_completeness auto

lemma next_bit_Inr:
  "next_bit r = Inr (b, r') \<longleftrightarrow>
     snd r < 8 * length (fst r) \<and> r' = (fst r, snd r + 1)
     \<and> b = ucast (drop_bit (7 - snd r mod 8) (fst r ! (snd r div 8)) AND 1)"
proof -
  have "length (fst r) \<le> snd r div 8 \<longleftrightarrow> \<not> snd r < 8 * length (fst r)" by linarith
  then show ?thesis by (auto simp: next_bit_def split: prod.splits)
qed

lemma bindR_Inr: "bindR m f r = Inr y \<longleftrightarrow> (\<exists>v r'. m r = Inr (v, r') \<and> f v r' = Inr y)"
  by (cases "m r") (auto simp: bindR_def)

lemma read_more_moves:
  "read_more n v r = Inr (w, r') \<Longrightarrow> r' = (fst r, snd r + n) \<and> (0 < n \<longrightarrow> snd r + n \<le> 8 * length (fst r))"
proof (induction n arbitrary: v r)
  case 0
  then show ?case by (cases r) (simp add: returnR_def)
next
  case (Suc n)
  then obtain b r1 where b: "next_bit r = Inr (b, r1)" "read_more n (push_bit 1 v OR b) r1 = Inr (w, r')"
    by (auto simp: bindR_Inr)
  show ?case using Suc.IH [OF b(2)] b(1) by (auto simp: next_bit_Inr)
qed

lemma rd_moves: "rd n r = Inr (w, r') \<Longrightarrow> r' = (fst r, snd r + n) \<and> (0 < n \<longrightarrow> snd r + n \<le> 8 * length (fst r))"
  unfolding rd_def by (rule read_more_moves)

termination escapes
  by (relation "measure (\<lambda>r. 8 * length (fst r) - snd r)") (auto dest!: rd_moves)

declare escapes.simps [simp del]

definition other_data :: "u32 \<Rightarrow> unit reads" where
  "other_data version =
     (if version = 1 then bindR rd_value (\<lambda>_. returnR ()) else escapes)"

definition stream_mux_config :: "mux_config reads" where
  "stream_mux_config =
     bindR mux_fields (\<lambda>(version, object_type, rate, channels, asc_len, asc_start).
     bindR (seek asc_start) (\<lambda>_.
     bindR (rd_bytes (unat asc_len)) (\<lambda>asc.
     bindR (rd 3) (\<lambda>_.
     bindR (rd 8) (\<lambda>_.
     bindR (rd 1) (\<lambda>present.
     bindR (if present = 1 then other_data version else returnR ()) (\<lambda>_.
     bindR (rd 1) (\<lambda>crc.
     bindR (if crc = 1 then rd 8 else returnR 0) (\<lambda>_.
       returnR \<lparr>mc_asc = asc, mc_object_type = object_type, mc_rate = rate, mc_channels = channels\<rparr>)))))))))"

function payload_length :: "nat \<Rightarrow> reader \<Rightarrow> audio_error + nat \<times> reader" where
  "payload_length n r =
     (case rd 8 r of
        Inl e \<Rightarrow> Inl e
      | Inr (b, r1) \<Rightarrow>
          if unat b \<noteq> 255 then Inr (n + unat b, r1) else payload_length (n + unat b) r1)"
  by pat_completeness auto
termination
  by (relation "measure (\<lambda>(n, r). 8 * length (fst r) - snd r)") (auto dest!: rd_moves)

declare payload_length.simps [simp del]

text \<open>The rest of an element, once its configuration is settled.\<close>

definition access_payload :: "bytes \<Rightarrow> reader \<Rightarrow> audio_error + bytes" where
  "access_payload payload r =
     bindE (payload_length 0 r) (\<lambda>(len, r).
       if snd r mod 8 \<noteq> 0 then Inl (BadMediaPacket ''LATM payload does not start on a byte boundary'')
       else let start = snd r div 8 in
         if length payload < start + len then Inl (BadMediaPacket ''LATM payload length runs past the packet'')
         else Inr (take len (drop start payload)))"

definition access_unit :: "bytes \<Rightarrow> mux_config option \<Rightarrow> (audio_error + bytes) \<times> mux_config option" where
  "access_unit payload config =
     (case rd 1 (payload, 0) of
        Inl e \<Rightarrow> (Inl e, config)
      | Inr (same, r) \<Rightarrow>
          if same = 0 then
            (case stream_mux_config r of
               Inl e \<Rightarrow> (Inl e, config)
             | Inr (c, r) \<Rightarrow> (access_payload payload r, Some c))
          else if config = None
          then (Inl (BadMediaPacket ''LATM packet reuses a configuration we have never been sent''), config)
          else (access_payload payload r, config))"

section \<open>The depacketizer\<close>

datatype framing = FrameRtp | FrameRtpWithHeader | FrameRaw

fun framing_for :: "audio_codec \<Rightarrow> framing" where
  "framing_for SbcCodec = FrameRtpWithHeader"
| "framing_for LdacCodec = FrameRtpWithHeader"
| "framing_for AacCodec = FrameRtp"
| "framing_for AptXHdCodec = FrameRtp"
| "framing_for AptXCodec = FrameRaw"
| "framing_for Alac = FrameRtp"
| "framing_for Opus = FrameRtp"
| "framing_for Pcm = FrameRtp"

record depacketizer =
  dp_codec :: audio_codec
  dp_framing :: framing
  dp_rate :: u32
  dp_base :: "u32 option"
  dp_frames_seen :: u64
  dp_bitpool :: "u8 option"
  dp_latm :: "mux_config option option"
  dp_last_sequence :: "u16 option"
  dp_lost :: u64
  dp_gaps :: u64
  dp_ldac :: "ldac_stream option"

definition depacketizer_new :: "audio_codec \<Rightarrow> u32 \<Rightarrow> depacketizer" where
  "depacketizer_new codec rate =
     \<lparr>dp_codec = codec, dp_framing = framing_for codec, dp_rate = max rate 1, dp_base = None, dp_frames_seen = 0,
      dp_bitpool = None, dp_latm = (if codec = AacCodec then Some None else None), dp_last_sequence = None,
      dp_lost = 0, dp_gaps = 0, dp_ldac = None\<rparr>"

definition reconfigured :: "audio_codec \<Rightarrow> u32 \<Rightarrow> depacketizer \<Rightarrow> depacketizer" where
  "reconfigured codec rate d = (depacketizer_new codec rate)\<lparr>dp_lost := dp_lost d, dp_gaps := dp_gaps d\<rparr>"

definition note_sequence :: "u16 \<Rightarrow> depacketizer \<Rightarrow> depacketizer" where
  "note_sequence s d =
     (case dp_last_sequence d of
        None \<Rightarrow> d\<lparr>dp_last_sequence := Some s\<rparr>
      | Some previous \<Rightarrow>
          let delta = s - previous; d = d\<lparr>dp_last_sequence := Some s\<rparr> in
          if 1 < delta \<and> delta < 32767 then d\<lparr>dp_gaps := dp_gaps d + 1, dp_lost := dp_lost d + ucast (delta - 1)\<rparr>
          else d)"

definition expects_rtp :: "depacketizer \<Rightarrow> bool" where
  "expects_rtp d \<longleftrightarrow> dp_framing d \<noteq> FrameRaw"

text \<open>A multiplication that saturates, and nanoseconds of samples.\<close>

definition sat_mul :: "u64 \<Rightarrow> u64 \<Rightarrow> u64" where
  "sat_mul a b = (if unat a * unat b < 2 ^ 64 then a * b else - 1)"

definition nanos_of :: "u64 \<Rightarrow> u32 \<Rightarrow> u64" where
  "nanos_of samples rate = (if rate = 0 then 0 else sat_mul samples 1000000000 div ucast rate)"

definition pts_from :: "u32 \<Rightarrow> depacketizer \<Rightarrow> u64 \<times> depacketizer" where
  "pts_from t d =
     (let base = (case dp_base d of None \<Rightarrow> t | Some b \<Rightarrow> b) in
      (nanos_of (ucast (t - base)) (dp_rate d), d\<lparr>dp_base := Some base\<rparr>))"

definition elapsed :: "depacketizer \<Rightarrow> u64" where
  "elapsed d = nanos_of (dp_frames_seen d) (dp_rate d)"

record encoded_frame =
  ef_codec :: audio_codec
  ef_pts :: u64
  ef_data :: bytes

text \<open>What the bytes of a payload behind its codec header say of the stream.\<close>

definition note_codec :: "bytes \<Rightarrow> depacketizer \<Rightarrow> audio_error + depacketizer" where
  "note_codec payload d =
     (if dp_codec d = LdacCodec
      then bindE (ldac_stream_parse payload) (\<lambda>s. Inr (d\<lparr>dp_ldac := Some s\<rparr>))
      else if dp_codec d = SbcCodec
      then Inr (case payload of
          b # _ # bitpool # _ \<Rightarrow> if b = 0x9C then d\<lparr>dp_bitpool := Some bitpool\<rparr> else d
        | _ \<Rightarrow> d)
      else Inr d)"

definition unwrap_latm :: "bytes \<Rightarrow> depacketizer \<Rightarrow> (audio_error + bytes) \<times> depacketizer" where
  "unwrap_latm payload d =
     (case dp_latm d of
        None \<Rightarrow> (Inr payload, d)
      | Some config \<Rightarrow>
          let (r, config) = access_unit payload config in (r, d\<lparr>dp_latm := Some config\<rparr>))"

definition push_rtp :: "rtp_packet \<Rightarrow> depacketizer \<Rightarrow> (audio_error + encoded_frame) \<times> depacketizer" where
  "push_rtp rtp d =
     (let d = note_sequence (rh_sequence (rp_header rtp)) d;
          (pts, d) = pts_from (rh_timestamp (rp_header rtp)) d;
          framed = (if dp_framing d = FrameRtpWithHeader then
              if rp_payload rtp = [] then Inl (BadMediaPacket ''media packet has no codec header'')
              else bindE (note_codec (tl (rp_payload rtp)) d) (\<lambda>d. Inr (tl (rp_payload rtp), d))
            else Inr (rp_payload rtp, d)) in
      case framed of
        Inl e \<Rightarrow> (Inl e, d)
      | Inr (payload, d) \<Rightarrow>
          if payload = [] then (Inl (BadMediaPacket ''media packet has no payload''), d)
          else let (r, d) = unwrap_latm payload d in
            (bindE r (\<lambda>data. Inr \<lparr>ef_codec = dp_codec d, ef_pts = pts, ef_data = data\<rparr>), d))"

definition depacketize :: "bytes \<Rightarrow> depacketizer \<Rightarrow> (audio_error + encoded_frame) \<times> depacketizer" where
  "depacketize packet d =
     (if dp_framing d = FrameRaw then
        if packet = [] then (Inl (BadMediaPacket ''empty aptX packet''), d)
        else (Inr \<lparr>ef_codec = dp_codec d, ef_pts = elapsed d, ef_data = packet\<rparr>,
              d\<lparr>dp_frames_seen := dp_frames_seen d + of_nat (length packet)\<rparr>)
      else
        (case rtp_parse packet of
           Inl _ \<Rightarrow> (Inl (BadMediaPacket ''malformed RTP header''), d)
         | Inr rtp \<Rightarrow> push_rtp rtp d))"

section \<open>LDAC frames read back\<close>

definition ldac_header_ok :: "ldac_header \<Rightarrow> bool" where
  "ldac_header_ok h \<longleftrightarrow> 1 \<le> lh_payload_len h \<and> lh_payload_len h \<le> 512 \<and> lh_status h < 4"

lemma rate_index: "ldac_rate_index r < 8" "ldac_rate_of (ldac_rate_index r) = Inr r"
  by (cases r; simp)+

lemma channels_index: "ldac_channels_index c < 4" "ldac_channels_of (ldac_channels_index c) = Inr c"
  by (cases c; simp)+

lemma ldac_byte:
  fixes r c x :: u8
  assumes "r < 8" "c < 4" "x < 8"
  shows "drop_bit 5 (push_bit 5 r OR push_bit 3 c OR x) = r"
    "drop_bit 3 (push_bit 5 r OR push_bit 3 c OR x) AND 3 = c"
    "(push_bit 5 r OR push_bit 3 c OR x) AND 7 = x"
proof -
  have r: "bit r n \<Longrightarrow> n < 3" for n using assms(1) bit_below [of r 3 n] by (simp add: word_less_nat_alt)
  have c: "bit c n \<Longrightarrow> n < 2" for n using assms(2) bit_below [of c 2 n] by (simp add: word_less_nat_alt)
  have x: "bit x n \<Longrightarrow> n < 3" for n using assms(3) bit_below [of x 3 n] by (simp add: word_less_nat_alt)
  show "drop_bit 5 (push_bit 5 r OR push_bit 3 c OR x) = r"
    by (rule bit_word_eqI) (auto simp: bit_simps dest: r c x)
  show "drop_bit 3 (push_bit 5 r OR push_bit 3 c OR x) AND 3 = c"
    unfolding masks by (rule bit_word_eqI) (auto simp: bit_simps dest: r c x)
  show "(push_bit 5 r OR push_bit 3 c OR x) AND 7 = x"
    unfolding masks by (rule bit_word_eqI) (auto simp: bit_simps dest: r c x)
qed

lemma ldac_length_field:
  fixes n :: u16
  assumes "1 \<le> n" "n \<le> 512"
  shows "push_bit 6 (ucast (ucast (drop_bit 6 (n - 1)) :: u8)) OR (ucast (ucast ((n - 1) AND 0x3F) :: u8)) = n - 1"
    "(ucast (drop_bit 6 (n - 1)) :: u8) < 8"
    "sat_sub n 1 AND 0x01FF = n - 1"
    "(ucast (drop_bit 6 (n - 1)) :: u8) AND 7 = ucast (drop_bit 6 (n - 1))"
    "(ucast ((n - 1) AND 0x3F) :: u8) < 64"
proof -
  have "unat (n - 1) = unat n - 1" using assms(1) by (simp add: unat_sub)
  then have u: "unat (n - 1) < 2 ^ 9" using assms by (simp add: word_le_nat_alt)
  then have b: "bit (n - 1) k \<Longrightarrow> k < 9" for k by (rule bit_below)
  have m: "(0x3F :: u16) = mask 6" "(0x01FF :: u16) = mask 9" by (simp_all add: mask_eq_exp_minus_1)
  show "push_bit 6 (ucast (ucast (drop_bit 6 (n - 1)) :: u8)) OR (ucast (ucast ((n - 1) AND 0x3F) :: u8)) = n - 1"
    unfolding m by (rule bit_word_eqI) (auto simp: bit_simps dest: b)
  show "sat_sub n 1 AND 0x01FF = n - 1"
    unfolding m using assms(1) by (intro bit_word_eqI) (auto simp: bit_simps sat_sub_def dest: b)
  show "(ucast (drop_bit 6 (n - 1)) :: u8) AND 7 = ucast (drop_bit 6 (n - 1))"
    unfolding masks by (rule bit_word_eqI) (auto simp: bit_simps dest: b)
  have "unat (ucast (drop_bit 6 (n - 1)) :: u8) \<le> unat (drop_bit 6 (n - 1))"
    by (simp add: unsigned_ucast_eq take_bit_eq_mod)
  also have "\<dots> < 8"
  proof -
    have "drop_bit 6 (unat (n - 1)) < 8" using u by (simp add: drop_bit_eq_div)
    then show ?thesis by (simp only: unat_drop_bit_eq)
  qed
  finally show "(ucast (drop_bit 6 (n - 1)) :: u8) < 8" by (simp add: word_less_nat_alt)
  have "unat (ucast ((n - 1) AND mask 6) :: u8) \<le> unat ((n - 1) AND mask 6)"
    by (simp add: unsigned_ucast_eq take_bit_eq_mod)
  also have "\<dots> < 64"
    using take_bit_nat_less_exp [of 6 "unat (n - 1)"]
    by (simp only: take_bit_eq_mask [symmetric] unsigned_take_bit_eq) simp
  finally show "(ucast ((n - 1) AND 0x3F) :: u8) < 64" by (simp add: word_less_nat_alt m)
qed

lemma ldac_last_byte:
  fixes x s :: u8
  assumes "x < 64" "s < 4"
  shows "drop_bit 2 (push_bit 2 x OR (s AND 3)) = x" "(push_bit 2 x OR (s AND 3)) AND 3 = s"
proof -
  have x: "bit x n \<Longrightarrow> n < 6" for n using assms(1) bit_below [of x 6 n] by (simp add: word_less_nat_alt)
  have s: "bit s n \<Longrightarrow> n < 2" for n using assms(2) bit_below [of s 2 n] by (simp add: word_less_nat_alt)
  show "drop_bit 2 (push_bit 2 x OR (s AND 3)) = x" "(push_bit 2 x OR (s AND 3)) AND 3 = s"
    unfolding masks by (rule bit_word_eqI; auto simp: bit_simps dest: x s)+
qed

text \<open>
  An LDAC frame header with a length of 1 to 512 and a two-bit status reads back from its
  three bytes, whatever follows them.
\<close>

theorem ldac_roundtrip:
  assumes "ldac_header_ok h"
  shows "ldac_parse (ldac_encode h @ rest) = Inr h"
proof -
  have n: "1 \<le> lh_payload_len h" "lh_payload_len h \<le> 512" and s: "lh_status h < 4"
    using assms by (auto simp: ldac_header_ok_def)
  note f = ldac_length_field [OF n]
  note b = ldac_byte [OF rate_index(1) channels_index(1) f(2), of "lh_rate h" "lh_channels h"]
  note l = ldac_last_byte [OF f(5) s]
  obtain b1 b2 where enc: "ldac_encode h = [0xAA, b1, b2]"
    and b1: "b1 = push_bit 5 (ldac_rate_index (lh_rate h)) OR push_bit 3 (ldac_channels_index (lh_channels h))
      OR ucast (drop_bit 6 (lh_payload_len h - 1))"
    and b2: "b2 = push_bit 2 (ucast ((lh_payload_len h - 1) AND 0x3F)) OR (lh_status h AND 3)"
    by (simp add: ldac_encode_def Let_def f(3,4))
  have "drop_bit 5 b1 = ldac_rate_index (lh_rate h)" "drop_bit 3 b1 AND 3 = ldac_channels_index (lh_channels h)"
    "b1 AND 7 = ucast (drop_bit 6 (lh_payload_len h - 1))"
    unfolding b1 by (rule b)+
  moreover have "drop_bit 2 b2 = ucast ((lh_payload_len h - 1) AND 0x3F)" "b2 AND 3 = lh_status h"
    unfolding b2 by (rule l)+
  ultimately show ?thesis
    by (simp add: enc f(1) rate_index(2) channels_index(2) del: ldac_rate_of.simps ldac_channels_of.simps)
qed

text \<open>A payload of whole frames is walked to its end.\<close>

definition ldac_frame :: "ldac_header \<times> bytes \<Rightarrow> bytes" where
  "ldac_frame f = ldac_encode (fst f) @ snd f"

definition ldac_frame_ok :: "ldac_header \<times> bytes \<Rightarrow> bool" where
  "ldac_frame_ok f \<longleftrightarrow> ldac_header_ok (fst f) \<and> length (snd f) = unat (lh_payload_len (fst f))"

lemma length_ldac_encode [simp]: "length (ldac_encode h) = 3"
  by (simp add: ldac_encode_def Let_def)

lemma walk_frame:
  assumes "ldac_frame_ok f"
  shows "walk_frames n (ldac_frame f @ rest) = walk_frames (sat_add n 1) rest"
proof -
  have "ldac_parse (ldac_frame f @ rest) = Inr (fst f)"
    using assms ldac_roundtrip by (simp add: ldac_frame_ok_def ldac_frame_def)
  then show ?thesis using assms
    by (subst walk_frames.simps) (simp add: ldac_frame_len_def ldac_frame_ok_def ldac_frame_def)
qed

lemma walk_all:
  "\<lbrakk>list_all ldac_frame_ok fs; unat n + length fs \<le> 65535\<rbrakk>
    \<Longrightarrow> walk_frames n (concat (map ldac_frame fs)) = n + of_nat (length fs)"
proof (induction fs arbitrary: n)
  case Nil
  then show ?case by (simp add: walk_frames.simps)
next
  case (Cons f fs)
  have "unat (n + 1) = unat n + 1" using Cons.prems by (simp add: unat_word_ariths)
  moreover have "sat_add n 1 = n + 1" using Cons.prems by (simp add: sat_add_def)
  ultimately show ?case using Cons walk_frame [of f n "concat (map ldac_frame fs)"] by simp
qed

text \<open>
  A payload of whole LDAC frames is reported with the rate and channels of its first frame and
  the exact number of frames, found by walking the lengths the headers state.
\<close>

theorem ldac_frames_counted:
  assumes "list_all ldac_frame_ok (f # fs)" "length fs < 65535"
  shows "ldac_stream_parse (concat (map ldac_frame (f # fs)))
    = Inr \<lparr>ls_rate = lh_rate (fst f), ls_channels = lh_channels (fst f), ls_frames = of_nat (length (f # fs))\<rparr>"
proof -
  have "ldac_parse (concat (map ldac_frame (f # fs))) = Inr (fst f)"
    using assms(1) ldac_roundtrip by (simp add: ldac_frame_def ldac_frame_ok_def)
  moreover have "walk_frames 0 (concat (map ldac_frame (f # fs))) = of_nat (length (f # fs))"
    using walk_all [OF assms(1), of 0] assms(2) by simp
  ultimately show ?thesis by (simp add: ldac_stream_parse_def)
qed

end
