(* ===== verification/Media_Props.thy ===== *)
theory Media_Props
  imports Media
begin

text \<open>
  Properties of the depacketizer: which multiplexes of AAC are unwrapped and which are refused,
  against an element as a sender writes it, bit by bit; the loss counter; presentation times.
\<close>

section \<open>Where an access unit may start\<close>

lemma payload_length_moves:
  "payload_length n r = Inr (m, r') \<Longrightarrow> \<exists>k. r' = (fst r, snd r + 8 * k)"
proof (induction n r arbitrary: m r' rule: payload_length.induct)
  case (1 n r)
  obtain b r1 where b: "rd 8 r = Inr (b, r1)" using "1.prems" by (auto simp: payload_length.simps [of n r] split: sum.splits)
  note r1 = rd_moves [OF b, THEN conjunct1]
  show ?case
  proof (cases "unat b = 255")
    case True
    then have "payload_length (n + 255) r1 = Inr (m, r')" using "1.prems" b by (simp add: payload_length.simps [of n r])
    then obtain k where "r' = (fst r1, snd r1 + 8 * k)" using "1.IH" [OF b refl] True by auto
    then show ?thesis by (intro exI [of _ "k + 1"]) (simp add: r1)
  next
    case False
    then have "r' = r1" using "1.prems" b by (simp add: payload_length.simps [of n r])
    then show ?thesis by (intro exI [of _ 1]) (simp add: r1)
  qed
qed

lemma access_aligned: "access_payload payload r = Inr au \<Longrightarrow> snd r mod 8 = 0"
  using payload_length_moves [of 0 r]
  by (cases "payload_length 0 r") (fastforce simp: access_payload_def dvd_eq_mod_eq_0 split: if_splits)+

text \<open>
  The bit that says the configuration is left out puts every length byte, and so the payload, one
  bit off a byte boundary.
\<close>

text \<open>
  A packet that leaves the LATM configuration out is refused, whatever configuration the
  parser keeps and whatever the packet holds: the payload behind the one-bit header never
  starts on a byte boundary.
\<close>

theorem reused_configuration_refused:
  assumes "rd 1 (payload, 0) = Inr (same, r)" "same \<noteq> 0"
  shows "\<exists>e. access_unit payload config = (Inl e, config)"
proof -
  have "snd r = 1" using rd_moves [OF assms(1)] by simp
  then have "access_payload payload r = Inr au \<Longrightarrow> False" for au using access_aligned [of payload r au] by simp
  then obtain e where "access_payload payload r = Inl e" by (cases "access_payload payload r") auto
  then show ?thesis using assms by (auto simp: access_unit_def)
qed

theorem reused_configuration_refused_witness:
  "\<exists>e. access_unit [0x81, 0x00] (Some \<lparr>mc_asc = [0x12, 0x10], mc_object_type = 2, mc_rate = 44100, mc_channels = 2\<rparr>)
     = (Inl e, Some \<lparr>mc_asc = [0x12, 0x10], mc_object_type = 2, mc_rate = 44100, mc_channels = 2\<rparr>)"
proof (rule reused_configuration_refused)
  show "rd 1 ([0x81, 0x00], 0) = Inr (1, ([0x81, 0x00], 1))" by code_simp
  show "(1 :: u32) \<noteq> 0" by simp
qed

text \<open>Copying a field allocates for the length the packet states, before any of it is read.\<close>

definition long_config :: bytes where
  "long_config = [0x40, 0x00, 0x00, 0x1F, 0xFF, 0xFF, 0xFF, 0xF8, 0x90, 0x80]"

text \<open>
  Ten bytes from the air make the parser allocate half a gigabyte: the length the packet
  states for its configuration is not compared with the bytes that are there.
\<close>

theorem length_field_allocates:
  "mux_fields (long_config, 1) = Inr ((1, 2, 44100, 2, 0xFFFFFFFF, 61), (long_config, 74))
   \<and> length (asc_buffer (unat (0xFFFFFFFF :: u32))) = 2 ^ 29"
proof
  show "mux_fields (long_config, 1) = Inr ((1, 2, 44100, 2, 0xFFFFFFFF, 61), (long_config, 74))"
    by code_simp
  show "length (asc_buffer (unat (0xFFFFFFFF :: u32))) = 2 ^ 29" by (simp add: asc_buffer_def)
qed

section \<open>Bits in order\<close>

definition bits_of :: "bytes \<Rightarrow> bool list" where
  "bits_of bs = concat (map (\<lambda>b. map (\<lambda>i. bit b (7 - i)) [0..<8]) bs)"

lemma bits_of_simps [simp]: "bits_of [] = []" "bits_of (b # bs) = map (\<lambda>i. bit b (7 - i)) [0..<8] @ bits_of bs"
  "bits_of (as @ bs) = bits_of as @ bits_of bs"
  by (simp_all add: bits_of_def)

lemma length_bits_of [simp]: "length (bits_of bs) = 8 * length bs"
  by (induction bs) (simp_all del: upt_rec_numeral)

lemma nth_bits_of: "k < 8 * length bs \<Longrightarrow> bits_of bs ! k = bit (bs ! (k div 8)) (7 - k mod 8)"
proof (induction bs arbitrary: k)
  case (Cons b bs)
  show ?case
  proof (cases "k < 8")
    case True
    then show ?thesis by (simp add: nth_append del: upt_rec_numeral)
  next
    case False
    then have "k div 8 = Suc ((k - 8) div 8)" "(k - 8) mod 8 = k mod 8" by (simp_all add: le_div_geq le_mod_geq)
    then show ?thesis using Cons False by (simp add: nth_append del: upt_rec_numeral)
  qed
qed simp

definition number :: "u32 \<Rightarrow> bool list \<Rightarrow> u32" where
  "number v xs = foldl (\<lambda>v b. push_bit 1 v OR of_bool b) v xs"

text \<open>The bits \<open>xs\<close> stand at position \<open>k\<close>.\<close>

definition stand :: "bytes \<Rightarrow> nat \<Rightarrow> bool list \<Rightarrow> bool" where
  "stand bs k xs \<longleftrightarrow> (\<exists>pre post. bits_of bs = pre @ xs @ post \<and> length pre = k)"

lemma stand_append: "stand bs k (xs @ ys) \<longleftrightarrow> stand bs k xs \<and> stand bs (k + length xs) ys"
proof
  assume "stand bs k xs \<and> stand bs (k + length xs) ys"
  then obtain a b c d where p: "bits_of bs = a @ xs @ b" "bits_of bs = c @ ys @ d"
    and l: "length a = k" "length c = k + length xs"
    unfolding stand_def by blast
  have "(a @ xs) @ b = c @ (ys @ d)" using trans [OF p(1) [symmetric] p(2)] by (simp only: append_assoc)
  moreover have "length (a @ xs) = length c" by (simp only: l length_append)
  ultimately have "b = ys @ d" using append_eq_append_conv [of "a @ xs" c b "ys @ d"] by blast
  then show "stand bs k (xs @ ys)" using p(1) l(1) by (simp only: stand_def append_assoc) blast
next
  assume "stand bs k (xs @ ys)"
  then obtain pre post where p: "bits_of bs = pre @ (xs @ ys) @ post" "length pre = k" by (auto simp: stand_def)
  then have "bits_of bs = pre @ xs @ (ys @ post)" "bits_of bs = (pre @ xs) @ ys @ post" "length (pre @ xs) = k + length xs"
    by simp_all
  then show "stand bs k xs \<and> stand bs (k + length xs) ys" using p(2) unfolding stand_def by blast
qed

lemma next_bit_stand: "stand bs k (b # xs) \<Longrightarrow> next_bit (bs, k) = Inr (of_bool b, (bs, k + 1))"
proof -
  assume "stand bs k (b # xs)"
  then obtain pre post where p: "bits_of bs = pre @ b # post" "length pre = k" by (auto simp: stand_def)
  have k: "k < 8 * length bs" proof -
    have "8 * length bs = length (pre @ b # post)" using p(1) by (metis length_bits_of)
    then show ?thesis using p(2) by simp
  qed
  have "b = bit (bs ! (k div 8)) (7 - k mod 8)" using nth_bits_of [OF k] p by (simp add: nth_append)
  moreover have "ucast (drop_bit j w AND 1 :: u8) = (of_bool (bit w j) :: u32)" for w :: u8 and j
    by (rule bit_word_eqI) (auto simp: bit_simps)
  ultimately show ?thesis using k by (simp add: next_bit_Inr)
qed

lemma read_more_stand:
  "stand bs k xs \<Longrightarrow> read_more (length xs) v (bs, k) = Inr (number v xs, (bs, k + length xs))"
proof (induction xs arbitrary: k v)
  case Nil
  then show ?case by (simp add: returnR_def number_def)
next
  case (Cons b xs)
  have "stand bs (k + 1) xs" using Cons.prems stand_append [of bs k "[b]" xs] by simp
  then show ?case using Cons.IH next_bit_stand [OF Cons.prems] by (simp add: bindR_def number_def)
qed

lemma rd_stand: "\<lbrakk>stand bs k xs; length xs = n\<rbrakk> \<Longrightarrow> rd n (bs, k) = Inr (number 0 xs, (bs, k + n))"
  using read_more_stand by (auto simp: rd_def)

text \<open>A field of \<open>n\<close> bits.\<close>

definition field :: "nat \<Rightarrow> u32 \<Rightarrow> bool list" where
  "field n v = map (bit v) (rev [0..<n])"

lemma length_field [simp]: "length (field n v) = n"
  by (simp add: field_def)

lemma field_Suc: "field (Suc n) v = bit v n # field n v"
  by (simp add: field_def)

lemma number_field: "number a (field n v) = push_bit n a OR take_bit n v"
proof (induction n arbitrary: a)
  case 0
  then show ?case by (simp add: number_def field_def)
next
  case (Suc n)
  have "push_bit n (push_bit 1 a OR of_bool (bit v n)) OR take_bit n v = push_bit (Suc n) a OR take_bit (Suc n) v"
    by (rule bit_word_eqI) (auto simp: bit_simps less_Suc_eq)
  then show ?case using Suc by (simp add: field_Suc number_def)
qed

lemma rd_field: "\<lbrakk>stand bs k (field n v); take_bit n v = v\<rbrakk> \<Longrightarrow> rd n (bs, k) = Inr (v, (bs, k + n))"
  using rd_stand [of bs k "field n v" n] by (simp add: number_field)

section \<open>Copying a field out\<close>

lemma set_bit_bits:
  assumes "i < 8 * length out"
  shows "bits_of (out[i div 8 := (out ! (i div 8)) OR push_bit (7 - i mod 8) 1]) = (bits_of out)[i := True]"
proof (rule nth_equalityI)
  fix j assume "j < length (bits_of (out[i div 8 := (out ! (i div 8)) OR push_bit (7 - i mod 8) 1]))"
  then have j: "j < 8 * length out" by simp
  have "i mod 8 < 8" "j mod 8 < 8" by simp_all
  then have "7 - i mod 8 = 7 - j mod 8 \<and> i div 8 = j div 8 \<longleftrightarrow> i = j"
  proof -
    have "7 - i mod 8 = 7 - j mod 8 \<Longrightarrow> i mod 8 = j mod 8" using \<open>i mod 8 < 8\<close> \<open>j mod 8 < 8\<close> by linarith
    then show ?thesis by (metis div_mult_mod_eq)
  qed
  then show "bits_of (out[i div 8 := (out ! (i div 8)) OR push_bit (7 - i mod 8) 1]) ! j = (bits_of out)[i := True] ! j"
    using assms j by (auto simp: nth_bits_of nth_list_update bit_simps)
qed simp

lemma copy_bits_stand:
  assumes "stand bs k xs" "i + length xs \<le> 8 * length out" "drop i (bits_of out) = replicate (8 * length out - i) False"
  shows "\<exists>out'. copy_bits (length xs) i out (bs, k) = Inr (out', (bs, k + length xs)) \<and> length out' = length out
    \<and> bits_of out' = take i (bits_of out) @ xs @ replicate (8 * length out - i - length xs) False"
  using assms
proof (induction xs arbitrary: k i out)
  case Nil
  then show ?case by (simp add: returnR_def) (metis append_take_drop_id)
next
  case (Cons b xs)
  let ?out = "if b then out[i div 8 := (out ! (i div 8)) OR push_bit (7 - i mod 8) 1] else out"
  have i: "i < 8 * length out" using Cons.prems by simp
  have s: "stand bs (k + 1) xs" using Cons.prems stand_append [of bs k "[b]" xs] by simp
  have r: "rd 1 (bs, k) = Inr (of_bool b, (bs, k + 1))"
    using next_bit_stand [OF Cons.prems(1)] by (simp add: rd_def bindR_def returnR_def)
  have bits: "bits_of ?out = take i (bits_of out) @ b # replicate (8 * length out - (i + 1)) False"
  proof -
    have "bits_of out = take i (bits_of out) @ replicate (8 * length out - i) False"
      using Cons.prems(3) by (metis append_take_drop_id)
    moreover have "replicate (8 * length out - i) False = False # replicate (8 * length out - (i + 1)) False"
      using i by (metis Suc_diff_Suc Suc_eq_plus1 replicate_Suc)
    ultimately have o: "bits_of out = take i (bits_of out) @ False # replicate (8 * length out - (i + 1)) False" by simp
    have "(bits_of out)[i := True] = take i (bits_of out) @ True # replicate (8 * length out - (i + 1)) False"
      by (subst o) (use i in \<open>simp add: list_update_append\<close>)
    then show ?thesis using o set_bit_bits [OF i] by simp
  qed
  obtain o1 where o1: "o1 = ?out" by blast
  have len: "length o1 = length out" by (simp add: o1)
  have bits1: "bits_of o1 = take i (bits_of out) @ b # replicate (8 * length out - (i + 1)) False" unfolding o1 by (rule bits)
  have t: "take (i + 1) (bits_of o1) = take i (bits_of out) @ [b]"
    and d: "drop (i + 1) (bits_of o1) = replicate (8 * length o1 - (i + 1)) False"
    unfolding bits1 len using i by simp_all
  obtain out' where out': "copy_bits (length xs) (i + 1) o1 (bs, k + 1) = Inr (out', (bs, k + 1 + length xs))"
    "length out' = length o1"
    "bits_of out' = take (i + 1) (bits_of o1) @ xs @ replicate (8 * length o1 - (i + 1) - length xs) False"
    using Cons.IH [OF s _ d] Cons.prems(2) by (auto simp: len)
  have "copy_bits (length (b # xs)) i out (bs, k) = copy_bits (length xs) (i + 1) o1 (bs, k + 1)"
    using r by (simp add: bindR_def o1)
  then show ?case using out' unfolding t len by simp
qed

lemma rd_bytes_stand:
  assumes "stand bs k xs"
  shows "\<exists>out. rd_bytes (length xs) (bs, k) = Inr (out, (bs, k + length xs))
    \<and> (\<exists>pad. bits_of out = xs @ replicate pad False \<and> pad < 8)"
proof -
  let ?n = "(length xs + 7) div 8"
  have n: "length xs \<le> 8 * ?n" "8 * ?n - length xs < 8" by linarith+
  have "bits_of (replicate m 0) = replicate (8 * m) False" for m
    by (induction m) (simp_all add: numeral_eq_Suc upt_rec)
  then show ?thesis using copy_bits_stand [OF assms, of 0 "asc_buffer (length xs)"] n
    by (auto simp: rd_bytes_def asc_buffer_def)
qed

section \<open>An element as a sender writes it\<close>

text \<open>
  \<open>AudioMuxElement\<close> of one access unit with its configuration, \<open>audioMuxVersion\<close> 1: a number is two
  bits that say how many bytes it has, and the bytes; \<open>asc\<close> is the \<open>AudioSpecificConfig\<close>.
\<close>

definition latm_number :: "u32 \<Rightarrow> u32 \<Rightarrow> bool list" where
  "latm_number extra v = field 2 extra @ field (unat ((extra + 1) * 8)) v"

definition number_ok :: "u32 \<Rightarrow> u32 \<Rightarrow> bool" where
  "number_ok extra v \<longleftrightarrow> take_bit 2 extra = extra \<and> take_bit (unat ((extra + 1) * 8)) v = v"

record mux_element =
  me_tara :: "u32 \<times> u32"
  me_same_time :: bool
  me_asc_extra :: u32
  me_object_type :: u32
  me_rate_index :: u32
  me_channels :: u32
  me_asc_rest :: "bool list"
  me_frame_length_type :: u32
  me_fullness :: u32
  me_other_length :: "(u32 \<times> u32) option"
  me_crc :: "u32 option"

text \<open>
  The other data, whose length the header states, stand behind the payload; the checksum is of the header.
\<close>

definition me_options :: "mux_element \<Rightarrow> bool list" where
  "me_options e =
     (case me_other_length e of None \<Rightarrow> [False] | Some (extra, n) \<Rightarrow> [True] @ latm_number extra n)
     @ (case me_crc e of None \<Rightarrow> [False] | Some crc \<Rightarrow> [True] @ field 8 crc)"

definition me_asc :: "mux_element \<Rightarrow> bool list" where
  "me_asc e = field 5 (me_object_type e) @ field 4 (me_rate_index e) @ field 4 (me_channels e) @ me_asc_rest e"

definition me_header :: "mux_element \<Rightarrow> bool list" where
  "me_header e =
     [False] @ [True] @ [False] @ latm_number (fst (me_tara e)) (snd (me_tara e)) @ [me_same_time e]
     @ field 6 0 @ field 4 0 @ field 3 0 @ latm_number (me_asc_extra e) (of_nat (length (me_asc e)))
     @ me_asc e @ field 3 (me_frame_length_type e) @ field 8 (me_fullness e) @ me_options e"

definition me_ok :: "mux_element \<Rightarrow> bool" where
  "me_ok e \<longleftrightarrow>
     number_ok (fst (me_tara e)) (snd (me_tara e)) \<and> number_ok (me_asc_extra e) (of_nat (length (me_asc e)))
     \<and> length (me_asc e) < 2 ^ 32
     \<and> take_bit 5 (me_object_type e) = me_object_type e \<and> unat (me_rate_index e) < 13
     \<and> take_bit 4 (me_channels e) = me_channels e
     \<and> take_bit 3 (me_frame_length_type e) = me_frame_length_type e \<and> take_bit 8 (me_fullness e) = me_fullness e
     \<and> (case me_other_length e of None \<Rightarrow> True | Some (extra, n) \<Rightarrow> number_ok extra n)
     \<and> (case me_crc e of None \<Rightarrow> True | Some crc \<Rightarrow> take_bit 8 crc = crc)
     \<and> length (me_header e) mod 8 = 0"

definition length_bytes :: "nat \<Rightarrow> bytes" where
  "length_bytes n = replicate (n div 255) 255 @ [of_nat (n mod 255)]"

lemma rd_value_stand:
  assumes "stand bs k (latm_number extra v)" "number_ok extra v"
  shows "rd_value (bs, k) = Inr (v, (bs, k + length (latm_number extra v)))"
proof -
  have "stand bs k (field 2 extra)" "stand bs (k + 2) (field (unat ((extra + 1) * 8)) v)"
    using assms(1) by (simp_all add: latm_number_def stand_append)
  then show ?thesis using assms(2)
    by (simp add: rd_value_def bindR_def rd_field number_ok_def latm_number_def add.assoc)
qed

lemma rd_bit_stand: "stand bs k [b] \<Longrightarrow> rd 1 (bs, k) = Inr (of_bool b, (bs, k + 1))"
  using rd_stand [of bs k "[b]" 1] by (simp add: number_def)

lemma rd_u8_stand:
  assumes "stand bs k (field n v)" "take_bit n v = v" "n \<le> 8"
  shows "rd_u8 n (bs, k) = Inr (ucast v, (bs, k + n))"
proof -
  have "unat v < 2 ^ n" using assms(2) take_bit_nat_less_exp [of n "unat v"] by (metis unsigned_take_bit_eq)
  also have "\<dots> \<le> 2 ^ 8" using assms(3) by (intro power_increasing) simp_all
  finally have "v < 256" by (simp add: word_less_nat_alt)
  then show ?thesis using assms by (simp add: rd_u8_def bindR_def rd_field returnR_def min_def)
qed

lemma bindR_step: "m r = Inr (v, r') \<Longrightarrow> bindR m f r = f v r'"
  by (simp add: bindR_def)

lemma bindR_rules:
  "bindR bit_position f r = f (snd r) r" "bindR (returnR v) f r = f v r"
  "bindR (bindR m g) f r = bindR m (\<lambda>v. bindR (g v) f) r" "bindR (seek k) h r = h () (fst r, k)"
  by (auto simp: bindR_def returnR_def bit_position_def seek_def bindE_def split: sum.splits prod.splits)

lemma mux_fields_stand:
  assumes ok: "me_ok e"
    and s: "stand bs 1 ([True] @ [False] @ latm_number (fst (me_tara e)) (snd (me_tara e)) @ [me_same_time e]
     @ field 6 0 @ field 4 0 @ field 3 0 @ latm_number (me_asc_extra e) (of_nat (length (me_asc e))) @ me_asc e)"
  shows "\<exists>k r. mux_fields (bs, 1) = Inr ((1, ucast (me_object_type e), latm_rates ! unat (me_rate_index e),
      ucast (me_channels e), of_nat (length (me_asc e)), k), r)
    \<and> k = 17 + length (latm_number (fst (me_tara e)) (snd (me_tara e)))
        + length (latm_number (me_asc_extra e) (of_nat (length (me_asc e)))) \<and> fst r = bs"
proof -
  let ?t = "latm_number (fst (me_tara e)) (snd (me_tara e))" and ?n = "latm_number (me_asc_extra e) (of_nat (length (me_asc e)))"
  have r4: "take_bit 4 (me_rate_index e) = me_rate_index e"
  proof -
    have "unat (me_rate_index e) < 2 ^ 4" using ok by (simp add: me_ok_def)
    then show ?thesis by (metis take_bit_nat_eq_self unsigned_take_bit_eq word_unat_eq_iff)
  qed
  let ?k4 = "1 + 1 + 1 + length ?t"
  let ?k8 = "?k4 + 1 + 6 + 4 + 3"
  let ?k9 = "?k8 + length ?n"
  have st: "stand bs 1 [True]" "stand bs (1 + 1) [False]" "stand bs (1 + 1 + 1) ?t" "stand bs ?k4 [me_same_time e]"
    "stand bs (?k4 + 1) (field 6 0)" "stand bs (?k4 + 1 + 6) (field 4 0)"
    "stand bs (?k4 + 1 + 6 + 4) (field 3 0)" "stand bs ?k8 ?n"
    "stand bs ?k9 (field 5 (me_object_type e))"
    "stand bs (?k9 + 5) (field 4 (me_rate_index e))"
    "stand bs (?k9 + 5 + 4) (field 4 (me_channels e))"
    using s unfolding stand_append me_asc_def by (simp_all add: add.assoc)
  have o: "number_ok (fst (me_tara e)) (snd (me_tara e))" "number_ok (me_asc_extra e) (of_nat (length (me_asc e)))"
    "take_bit 5 (me_object_type e) = me_object_type e" "take_bit 4 (me_channels e) = me_channels e"
    using ok by (simp_all add: me_ok_def)
  have z: "take_bit n (0 :: u32) = 0" for n by simp
  have "length latm_rates = 13" by (simp add: latm_rates_def)
  then have index: "(length latm_rates \<le> unat (me_rate_index e)) = False" using ok by (simp add: me_ok_def)
  note reads = rd_bit_stand [OF st(1)] rd_bit_stand [OF st(2)] rd_value_stand [OF st(3) o(1)] rd_bit_stand [OF st(4)]
    rd_field [OF st(5) z] rd_field [OF st(6) z] rd_field [OF st(7) z] rd_value_stand [OF st(8) o(2)]
    rd_u8_stand [OF st(9) o(3)] rd_field [OF st(10) r4] rd_u8_stand [OF st(11) o(4)]
  have "mux_fields (bs, 1) = Inr ((1, ucast (me_object_type e), latm_rates ! unat (me_rate_index e),
      ucast (me_channels e), of_nat (length (me_asc e)), ?k9), (bs, ?k9 + 5 + 4 + 4))"
    by (simp only: mux_fields_def bindR_def returnR_def bit_position_def reads bindE_simps prod.case of_bool_eq simp_thms
      if_True if_False index zero_neq_one option.case snd_conv)
  then show ?thesis by simp
qed

lemma rd_byte_stand:
  assumes "stand bs k (bits_of [b])"
  shows "rd 8 (bs, k) = Inr (ucast b, (bs, k + 8))"
proof -
  have "bits_of [b] = field 8 (ucast b)" by (simp add: field_def bit_simps numeral_eq_Suc upt_rec)
  then show ?thesis using assms proof (intro rd_field)
    show "take_bit 8 (ucast b :: u32) = ucast b"
      by (rule bit_word_eqI) (auto simp: bit_simps dest: bit_imp_le_length)
  qed simp
qed

lemma unat_byte_wide [simp]: "unat (ucast (b :: u8) :: u32) = unat b"
proof -
  have "unat b < 2 ^ LENGTH(8)" by (rule unsigned_less)
  then show ?thesis by (simp add: unsigned_ucast_eq take_bit_nat_eq_self)
qed

lemma payload_length_stand:
  assumes "stand bs k (bits_of (replicate m 255 @ [b]))" "b \<noteq> 255"
  shows "payload_length n (bs, k) = Inr (n + 255 * m + unat b, (bs, k + 8 * (m + 1)))"
  using assms(1)
proof (induction m arbitrary: n k)
  case 0
  then have "rd 8 (bs, k) = Inr (ucast b, (bs, k + 8))" by (intro rd_byte_stand) simp
  moreover have "unat b \<noteq> 255" using assms(2) by (simp add: word_unat_eq_iff)
  ultimately show ?case by (subst payload_length.simps) simp
next
  case (Suc m)
  have "bits_of (replicate (Suc m) 255 @ [b]) = bits_of [255] @ bits_of (replicate m 255 @ [b])"
    by (simp del: upt_rec_numeral)
  then have s: "stand bs k (bits_of [255])" "stand bs (k + 8) (bits_of (replicate m 255 @ [b]))"
    using Suc.prems stand_append [of bs k "bits_of [255]" "bits_of (replicate m 255 @ [b])"]
    by (simp_all only: length_bits_of) simp_all
  have "payload_length n (bs, k) = payload_length (n + 255) (bs, k + 8)"
    by (subst payload_length.simps) (simp only: rd_byte_stand [OF s(1)], simp)
  then show ?case using Suc.IH [OF s(2), of "n + 255"] by simp
qed

lemma bits_of_drop: "bits_of (drop j bs) = drop (8 * j) (bits_of bs)"
proof (induction j arbitrary: bs)
  case (Suc j)
  then show ?case by (cases bs) (simp_all del: upt_rec_numeral)
qed simp

lemma bits_of_inj: "bits_of xs = bits_of ys \<Longrightarrow> xs = ys"
proof (induction xs arbitrary: ys)
  case Nil
  then have "length (bits_of ys) = 0" by simp
  then show ?case by simp
next
  case (Cons x xs)
  have "8 * length ys = 8 * length (x # xs)" using Cons.prems by (metis length_bits_of)
  then obtain y ys' where ys: "ys = y # ys'" by (cases ys) auto
  have b: "map (\<lambda>i. bit x (7 - i)) [0..<8] = map (\<lambda>i. bit y (7 - i)) [0..<8]" "bits_of xs = bits_of ys'"
    using Cons.prems by (simp_all add: ys del: upt_rec_numeral)
  have "x = y"
  proof (rule bit_word_eqI)
    fix n assume "n < LENGTH(8)"
    then have "7 - n < 8" "7 - (7 - n) = n" by simp_all
    moreover have "map (\<lambda>i. bit x (7 - i)) [0..<8] ! (7 - n) = map (\<lambda>i. bit y (7 - i)) [0..<8] ! (7 - n)"
      using b(1) by simp
    ultimately show "bit x n = bit y n" by (simp del: upt_rec_numeral)
  qed
  then show ?case using Cons.IH b(2) ys by blast
qed

text \<open>The payload behind a header that ends on a byte boundary.\<close>

lemma payload_behind:
  assumes bits: "bits_of payload = hdr @ bits_of (length_bytes (length au) @ au @ tail)" and aligned: "length hdr mod 8 = 0"
  shows "access_payload payload (payload, length hdr) = Inr au"
proof -
  let ?m = "length au div 255" and ?b = "of_nat (length au mod 255) :: u8"
  obtain h where h: "length hdr = 8 * h" using aligned by (metis mod_eq_0_iff_dvd dvd_def)
  have l: "length_bytes (length au) = replicate ?m 255 @ [?b]" by (simp add: length_bytes_def)
  have "length au mod 255 < 255" by simp
  then have ub: "unat ?b = length au mod 255" by (simp add: unat_of_nat take_bit_nat_eq_self)
  have "?b \<noteq> 255"
  proof
    assume "?b = 255"
    then have "unat ?b = 255" by simp
    then show False using ub \<open>length au mod 255 < 255\<close> by simp
  qed
  moreover have "stand payload (length hdr) (bits_of (replicate ?m 255 @ [?b]))"
    using bits unfolding stand_def l by (metis append_assoc bits_of_simps(3))
  ultimately have pl: "payload_length 0 (payload, length hdr) = Inr (length au, (payload, 8 * (h + ?m + 1)))"
    using payload_length_stand [of payload "length hdr" ?m ?b 0] by (simp add: ub h add_mult_distrib2)
  have "bits_of (drop h payload) = bits_of (length_bytes (length au) @ au @ tail)"
    using bits by (simp add: bits_of_drop h [symmetric])
  then have "drop h payload = length_bytes (length au) @ au @ tail" by (rule bits_of_inj)
  then have "drop (?m + 1) (drop h payload) = au @ tail" by (simp add: l)
  then have d: "drop (h + ?m + 1) payload = au @ tail" by (simp add: add.commute add.left_commute)
  have "8 * length payload = length (hdr @ bits_of (length_bytes (length au) @ au @ tail))"
    using bits by (metis length_bits_of)
  then have "h + ?m + 1 + length au \<le> length payload" by (simp add: h l)
  then show ?thesis using pl d by (simp add: access_payload_def)
qed

text \<open>What the header has behind its buffer fullness is read over.\<close>

definition skip_options :: "u32 \<Rightarrow> unit reads" where
  "skip_options version =
     bindR (rd 1) (\<lambda>present. bindR (if present = 1 then other_data version else returnR ()) (\<lambda>_.
     bindR (rd 1) (\<lambda>crc. bindR (if crc = 1 then rd 8 else returnR 0) (\<lambda>_. returnR ()))))"

lemma options_stand:
  assumes s: "stand bs k (me_options e)"
    and o: "case me_other_length e of None \<Rightarrow> True | Some (extra, n) \<Rightarrow> number_ok extra n"
    and c: "case me_crc e of None \<Rightarrow> True | Some crc \<Rightarrow> take_bit 8 crc = crc"
  shows "skip_options 1 (bs, k) = Inr ((), (bs, k + length (me_options e)))"
proof -
  let ?o = "case me_other_length e of None \<Rightarrow> [False] | Some (extra, n) \<Rightarrow> [True] @ latm_number extra n"
  let ?c = "case me_crc e of None \<Rightarrow> [False] | Some crc \<Rightarrow> [True] @ field 8 crc"
  have st: "stand bs k ?o" "stand bs (k + length ?o) ?c" using s unfolding me_options_def stand_append by simp_all
  have other: "bindR (rd 1) (\<lambda>present. bindR (if present = 1 then other_data 1 else returnR ()) g) (bs, k) = g () (bs, k + length ?o)"
    for g :: "unit \<Rightarrow> unit reads"
  proof (cases "me_other_length e")
    case None
    then have "stand bs k [False]" using st(1) by simp
    from rd_bit_stand [OF this] show ?thesis by (simp add: None bindR_def returnR_def)
  next
    case (Some p)
    obtain extra n where p: "p = (extra, n)" by (cases p)
    have t: "stand bs k [True]" "stand bs (k + 1) (latm_number extra n)"
      using st(1) unfolding Some p option.case prod.case stand_append by simp_all
    have ok: "number_ok extra n" using o by (simp add: Some p)
    show ?thesis
      using rd_bit_stand [OF t(1)] rd_value_stand [OF t(2) ok]
      by (simp add: Some p bindR_def returnR_def other_data_def)
  qed
  have crc: "bindR (rd 1) (\<lambda>crc. bindR (if crc = 1 then rd 8 else returnR 0) (\<lambda>_. returnR ())) (bs, k + length ?o)
      = Inr ((), (bs, k + length ?o + length ?c))"
  proof (cases "me_crc e")
    case None
    then have "stand bs (k + length ?o) [False]" using st(2) by simp
    from rd_bit_stand [OF this] show ?thesis by (simp add: None bindR_def returnR_def)
  next
    case (Some crc)
    have t: "stand bs (k + length ?o) [True]" "stand bs (k + length ?o + 1) (field 8 crc)"
      using st(2) unfolding Some option.case stand_append by simp_all
    have ok: "take_bit 8 crc = crc" using c by (simp add: Some)
    show ?thesis
      using rd_bit_stand [OF t(1)] rd_field [OF t(2) ok]
      by (simp add: Some bindR_def returnR_def)
  qed
  show ?thesis unfolding skip_options_def other crc by (simp add: me_options_def add.assoc)
qed

lemma config_options:
  "stream_mux_config =
     bindR mux_fields (\<lambda>(version, object_type, rate, channels, asc_len, asc_start).
     bindR (seek asc_start) (\<lambda>_.
     bindR (rd_bytes (unat asc_len)) (\<lambda>asc.
     bindR (rd 3) (\<lambda>_.
     bindR (rd 8) (\<lambda>_.
     bindR (skip_options version) (\<lambda>_.
       returnR \<lparr>mc_asc = asc, mc_object_type = object_type, mc_rate = rate, mc_channels = channels\<rparr>))))))"
  unfolding stream_mux_config_def skip_options_def
  by (rule ext) (simp add: bindR_def returnR_def bindE_def case_prod_beta split: sum.split)

text \<open>
  C21. An AAC access unit comes out of its multiplex exactly, whatever follows it, for every element
  of audioMuxVersion 1 that carries its configuration, with one frame, one program and one layer (others
  are refused), a sampling rate of the table, whose header ends on a byte boundary, with or without
  other data and a checksum. The configuration kept is the one the element states, and its
  AudioSpecificConfig is lifted out bit for bit, padded to a byte with zeros.
\<close>

theorem element_unwrapped:
  assumes ok: "me_ok e" and payload: "bits_of payload = me_header e @ bits_of (length_bytes (length au) @ au @ tail)"
  shows "\<exists>asc pad. access_unit payload config =
      (Inr au, Some \<lparr>mc_asc = asc, mc_object_type = ucast (me_object_type e),
         mc_rate = latm_rates ! unat (me_rate_index e), mc_channels = ucast (me_channels e)\<rparr>)
    \<and> bits_of asc = me_asc e @ replicate pad False \<and> pad < 8"
proof -
  let ?t = "latm_number (fst (me_tara e)) (snd (me_tara e))"
  let ?n = "latm_number (me_asc_extra e) (of_nat (length (me_asc e)))"
  let ?k = "17 + length ?t + length ?n"
  have hdr: "stand payload 0 (me_header e)" using payload by (auto simp: stand_def)
  have same: "rd 1 (payload, 0) = Inr (0, (payload, 1))"
    using hdr unfolding me_header_def stand_append by (auto dest!: rd_bit_stand)
  obtain r where fields: "mux_fields (payload, 1) = Inr ((1, ucast (me_object_type e), latm_rates ! unat (me_rate_index e),
      ucast (me_channels e), of_nat (length (me_asc e)), ?k), r)" and r: "fst r = payload"
    using mux_fields_stand [OF ok, of payload] hdr unfolding me_header_def stand_append by auto
  have st: "stand payload ?k (me_asc e)" "stand payload (?k + length (me_asc e)) (field 3 (me_frame_length_type e))"
    "stand payload (?k + length (me_asc e) + 3) (field 8 (me_fullness e))"
    "stand payload (?k + length (me_asc e) + 3 + 8) (me_options e)"
    using hdr unfolding me_header_def stand_append by (simp_all add: add.assoc)
  obtain asc pad where asc: "rd_bytes (length (me_asc e)) (payload, ?k) = Inr (asc, (payload, ?k + length (me_asc e)))"
    "bits_of asc = me_asc e @ replicate pad False" "pad < 8"
    using rd_bytes_stand [OF st(1)] by blast
  have o: "take_bit 3 (me_frame_length_type e) = me_frame_length_type e" "take_bit 8 (me_fullness e) = me_fullness e"
    "unat (of_nat (length (me_asc e)) :: u32) = length (me_asc e)"
    using ok by (simp_all add: me_ok_def unat_of_nat take_bit_nat_eq_self)
  have options: "skip_options 1 (payload, ?k + length (me_asc e) + 3 + 8)
      = Inr ((), (payload, ?k + length (me_asc e) + 3 + 8 + length (me_options e)))"
    by (rule options_stand [OF st(4)]) (use ok in \<open>simp_all add: me_ok_def\<close>)
  have "stream_mux_config (payload, 1) = Inr (\<lparr>mc_asc = asc, mc_object_type = ucast (me_object_type e),
         mc_rate = latm_rates ! unat (me_rate_index e), mc_channels = ucast (me_channels e)\<rparr>,
       (payload, ?k + length (me_asc e) + 3 + 8 + length (me_options e)))"
    by (simp only: config_options bindR_def returnR_def seek_def fields r fst_conv o(3) asc(1) bindE_simps prod.case
      rd_field [OF st(2) o(1)] rd_field [OF st(3) o(2)] options)
  moreover have "?k + length (me_asc e) + 3 + 8 + length (me_options e) = length (me_header e)" by (simp add: me_header_def)
  moreover have "access_payload payload (payload, length (me_header e)) = Inr au"
    using payload_behind [OF payload] ok by (simp add: me_ok_def)
  ultimately have "access_unit payload config =
      (Inr au, Some \<lparr>mc_asc = asc, mc_object_type = ucast (me_object_type e),
         mc_rate = latm_rates ! unat (me_rate_index e), mc_channels = ucast (me_channels e)\<rparr>)"
    using same by (simp add: access_unit_def)
  then show ?thesis using asc(2,3) by blast
qed

definition phone_element :: mux_element where
  "phone_element =
     \<lparr>me_tara = (0, 0), me_same_time = True, me_asc_extra = 0, me_object_type = 2, me_rate_index = 4, me_channels = 2,
      me_asc_rest = replicate 9 False, me_frame_length_type = 0, me_fullness = 0xFF,
      me_other_length = None, me_crc = None\<rparr>"

lemma phone_element_ok: "me_ok phone_element"
  by (simp add: me_ok_def number_ok_def me_header_def me_asc_def me_options_def latm_number_def phone_element_def)

definition phone_payload :: bytes where
  "phone_payload = [0x40, 0x04, 0x00, 0x00, 0xB0, 0x90, 0x80, 0x03, 0xFC, 0x03, 1, 2, 3]"

lemma phone_payload_bits:
  "bits_of phone_payload = me_header phone_element @ bits_of (length_bytes (length [1, 2, 3 :: u8]) @ [1, 2, 3] @ [])"
  by code_simp

theorem element_unwrapped_witness:
  "\<exists>config. access_unit phone_payload None = (Inr [1, 2, 3], Some config)
     \<and> mc_object_type config = 2 \<and> mc_rate config = 44100 \<and> mc_channels config = 2"
  using element_unwrapped [OF phone_element_ok phone_payload_bits, of None]
  by (auto simp: phone_element_def latm_rates_def)

section \<open>Losses\<close>

text \<open>A media packet with the number that is \<open>i\<close> after \<open>s\<close>.\<close>

definition seq_numbered :: "u16 \<Rightarrow> nat \<Rightarrow> bytes \<Rightarrow> bool" where
  "seq_numbered s i p \<longleftrightarrow> (\<exists>rtp. rtp_parse p = Inr rtp \<and> rh_sequence (rp_header rtp) = s + of_nat i)"

text \<open>Numbers that grow by less than the gap that is taken for a restart.\<close>

fun close_after :: "nat \<Rightarrow> nat list \<Rightarrow> bool" where
  "close_after i [] \<longleftrightarrow> True"
| "close_after i (j # js) \<longleftrightarrow> i < j \<and> j < i + 32767 \<and> close_after j js"

lemma note_codec_keeps:
  "note_codec payload d = Inr d' \<Longrightarrow> dp_lost d' = dp_lost d \<and> dp_gaps d' = dp_gaps d
    \<and> dp_last_sequence d' = dp_last_sequence d \<and> dp_framing d' = dp_framing d \<and> dp_base d' = dp_base d
    \<and> dp_rate d' = dp_rate d"
  by (auto simp: note_codec_def bindE_eq_Inr split: if_splits list.splits)

lemma depacketize_keeps:
  assumes "dp_framing d \<noteq> FrameRaw" "rtp_parse p = Inr rtp"
  defines "n \<equiv> note_sequence (rh_sequence (rp_header rtp)) d"
  shows "dp_lost (snd (depacketize p d)) = dp_lost n \<and> dp_gaps (snd (depacketize p d)) = dp_gaps n
    \<and> dp_last_sequence (snd (depacketize p d)) = dp_last_sequence n \<and> dp_framing (snd (depacketize p d)) = dp_framing d
    \<and> dp_rate (snd (depacketize p d)) = dp_rate d"
proof -
  have "dp_framing n = dp_framing d" "dp_rate n = dp_rate d"
    by (auto simp: n_def note_sequence_def Let_def split: option.splits)
  then show ?thesis using assms(1,2) n_def
    by (auto simp: depacketize_def push_rtp_def pts_from_def Let_def unwrap_latm_def bindE_eq_Inr
      split: sum.splits option.splits prod.splits if_splits dest!: note_codec_keeps)
qed

definition play_in :: "bytes list \<Rightarrow> depacketizer \<Rightarrow> depacketizer" where
  "play_in ps d = fold (\<lambda>p d. snd (depacketize p d)) ps d"

lemma losses_after:
  "\<lbrakk>dp_framing d \<noteq> FrameRaw; dp_last_sequence d = Some (s + of_nat i); close_after i js; list_all2 (seq_numbered s) js ps\<rbrakk>
    \<Longrightarrow> dp_lost (play_in ps d) = dp_lost d + of_nat (last (i # js) - i - length js)
      \<and> length js \<le> last (i # js) - i"
proof (induction js arbitrary: i ps d)
  case Nil
  then show ?case by (simp add: play_in_def)
next
  case (Cons j js)
  obtain p qs where ps: "ps = p # qs" "seq_numbered s j p" "list_all2 (seq_numbered s) js qs"
    using Cons.prems(4) by (auto simp: list_all2_Cons1)
  obtain rtp where rtp: "rtp_parse p = Inr rtp" "rh_sequence (rp_header rtp) = s + of_nat j"
    using ps(2) by (auto simp: seq_numbered_def)
  note keeps = depacketize_keeps [OF Cons.prems(1) rtp(1)]
  have ij: "i < j" "j < i + 32767" "close_after j js" using Cons.prems(3) by simp_all
  have delta: "s + of_nat j - (s + of_nat i) = (of_nat (j - i) :: u16)" using ij(1) by (simp add: of_nat_diff)
  have "j - i < 2 ^ 16" using ij by simp
  then have ud: "unat (of_nat (j - i) :: u16) = j - i" by (simp add: unat_of_nat take_bit_nat_eq_self)
  have lost: "dp_lost (note_sequence (s + of_nat j) d) = dp_lost d + of_nat (j - i - 1)"
  proof (cases "j - i = 1")
    case True
    then show ?thesis using Cons.prems(2) delta by (simp add: note_sequence_def Let_def)
  next
    case False
    then have "1 < (of_nat (j - i) :: u16)" "(of_nat (j - i) :: u16) < 32767"
      using ij ud by (simp_all add: word_less_nat_alt)
    moreover have "ucast ((of_nat (j - i) :: u16) - 1) = (of_nat (j - i - 1) :: u64)"
    proof -
      have "(of_nat (j - i) :: u16) - 1 = of_nat (j - i - 1)" using ij(1) by (simp add: of_nat_diff)
      then show ?thesis using \<open>j - i < 2 ^ 16\<close> by (simp add: word_unat_eq_iff unsigned_ucast_eq unat_of_nat take_bit_nat_eq_self)
    qed
    ultimately show ?thesis using Cons.prems(2) delta by (simp add: note_sequence_def Let_def)
  qed
  have last': "dp_last_sequence (note_sequence (s + of_nat j) d) = Some (s + of_nat j)"
    using Cons.prems(2) by (simp add: note_sequence_def Let_def)
  have "dp_lost (play_in qs (snd (depacketize p d))) = dp_lost (snd (depacketize p d)) + of_nat (last (j # js) - j - length js)
      \<and> length js \<le> last (j # js) - j"
    by (rule Cons.IH) (use Cons.prems(1) keeps rtp(2) last' ij(3) ps(3) in auto)
  moreover have "close_after k ks \<Longrightarrow> k \<le> last (k # ks)" for k ks
    by (induction ks arbitrary: k) (auto intro: order_trans less_imp_le split: if_splits)
  then have "j \<le> last (j # js)" using ij(3) by blast
  moreover obtain L where L: "L = last (j # js)" by blast
  moreover have "L - i - length (j # js) = (j - i - 1) + (L - j - length js) \<and> length (j # js) \<le> L - i"
    if "length js \<le> L - j" "j \<le> L" using that ij(1) by simp
  moreover have "last (i # j # js) = L" "play_in ps d = play_in qs (snd (depacketize p d))"
    by (simp_all add: L ps(1) play_in_def)
  moreover have "dp_lost (snd (depacketize p d)) = dp_lost d + of_nat (j - i - 1)" using keeps lost rtp(2) by simp
  ultimately show ?case by simp
qed

text \<open>
  C26. The loss counter tells the truth: for packets whose numbers grow by less than half the
  space, across the wrap of the sequence number too, the packets counted as lost are the numbers
  between the first and the last that did not arrive.
\<close>

theorem losses_counted:
  assumes "dp_framing d \<noteq> FrameRaw" "dp_last_sequence d = None" "seq_numbered s i p"
    "close_after i js" "list_all2 (seq_numbered s) js ps"
  shows "dp_lost (play_in (p # ps) d) = dp_lost d + of_nat (Suc (last (i # js)) - i - length (i # js))"
proof -
  obtain rtp where rtp: "rtp_parse p = Inr rtp" "rh_sequence (rp_header rtp) = s + of_nat i"
    using assms(3) by (auto simp: seq_numbered_def)
  note keeps = depacketize_keeps [OF assms(1) rtp(1)]
  have "dp_lost (snd (depacketize p d)) = dp_lost d" "dp_last_sequence (snd (depacketize p d)) = Some (s + of_nat i)"
    "dp_framing (snd (depacketize p d)) \<noteq> FrameRaw"
    using keeps rtp(2) assms(1,2) by (simp_all add: note_sequence_def)
  then have "dp_lost (play_in ps (snd (depacketize p d))) = dp_lost d + of_nat (last (i # js) - i - length js)"
    using losses_after [of "snd (depacketize p d)" s i js ps] assms(4,5) by simp
  then show ?thesis by (simp add: play_in_def)
qed

text \<open>Twelve bytes of header and one of audio.\<close>

definition media_packet :: "u16 \<Rightarrow> bytes" where
  "media_packet n = [0x80, 0x60] @ be16 n @ [0, 0, 0, 0] @ [0, 0, 0, 0] @ [0x55]"

lemma media_packet_parsed:
  "\<exists>rtp. rtp_parse (media_packet n) = Inr rtp \<and> rh_sequence (rp_header rtp) = n"
  by (simp add: rtp_parse_def media_packet_def rtp_payload_end_def Let_def be16_def)

theorem losses_counted_witness:
  "dp_lost (play_in (map media_packet [0xFFFE, 0xFFFF, 2]) (depacketizer_new AptXHdCodec 48000)) = 2"
proof -
  have n: "seq_numbered 0xFFFE i (media_packet (0xFFFE + of_nat i))" for i
    using media_packet_parsed by (auto simp: seq_numbered_def)
  have "seq_numbered 0xFFFE 0 (media_packet 0xFFFE)" "seq_numbered 0xFFFE 1 (media_packet 0xFFFF)" "seq_numbered 0xFFFE 4 (media_packet 2)"
  proof -
    have e: "(0xFFFE + of_nat 4 :: u16) = 2" "(0xFFFE + of_nat 1 :: u16) = 0xFFFF" by code_simp+
    show "seq_numbered 0xFFFE 0 (media_packet 0xFFFE)" using n [of 0] by simp
    show "seq_numbered 0xFFFE 1 (media_packet 0xFFFF)" using n [of 1] unfolding e .
    show "seq_numbered 0xFFFE 4 (media_packet 2)" using n [of 4] unfolding e .
  qed
  then show ?thesis
    using losses_counted [where d = "depacketizer_new AptXHdCodec 48000" and s = "0xFFFE" and i = 0
        and p = "media_packet 0xFFFE" and js = "[1, 4]" and ps = "[media_packet 0xFFFF, media_packet 2]"]
    by (simp add: depacketizer_new_def)
qed

section \<open>Presentation times\<close>

lemma nanos_exact:
  assumes "n < 2 ^ 32" "rate \<noteq> 0"
  shows "unat (nanos_of (of_nat n) rate) = n * 1000000000 div unat rate"
proof -
  have u: "unat (of_nat n :: u64) = n" using assms(1) by (simp add: unat_of_nat take_bit_nat_eq_self)
  have "n * 1000000000 < 2 ^ 32 * 1000000000" using assms(1) by simp
  also have "\<dots> < (2 ^ 64 :: nat)" by simp
  finally have m: "n * 1000000000 < 2 ^ 64" .
  then have p: "unat ((of_nat n :: u64) * 1000000000) = n * 1000000000"
    using u by (subst unat_mult_lem [THEN iffD1]) simp_all
  have "unat rate < 2 ^ LENGTH(32)" by (rule unsigned_less)
  then have r: "unat (ucast rate :: u64) = unat rate" by (simp add: unsigned_ucast_eq take_bit_nat_eq_self)
  show ?thesis using m u p r assms(2) by (simp add: nanos_of_def sat_mul_def unat_div)
qed

text \<open>
  The presentation time of a frame is the time its timestamp is after the first one, in
  nanoseconds rounded down, for a timestamp that wraps too, with no saturation.
\<close>

theorem pts_exact:
  assumes "dp_framing d \<noteq> FrameRaw" "dp_rate d \<noteq> 0" "dp_base d = Some b" "n < 2 ^ 32"
    "rtp_parse p = Inr rtp" "rh_timestamp (rp_header rtp) = b + of_nat n"
    and frame: "depacketize p d = (Inr f, d')"
  shows "unat (ef_pts f) = n * 1000000000 div unat (dp_rate d)"
proof -
  have keep: "dp_base (note_sequence q d) = Some b" "dp_rate (note_sequence q d) = dp_rate d" for q
    using assms(3) by (simp_all add: note_sequence_def Let_def split: option.splits)
  have "ucast (of_nat n :: u32) = (of_nat n :: u64)"
    using assms(4) by (simp add: word_unat_eq_iff unsigned_ucast_eq unat_of_nat take_bit_nat_eq_self)
  then have "ef_pts f = nanos_of (of_nat n) (dp_rate d)"
    using assms(1,5,6) frame
    by (auto simp: depacketize_def push_rtp_def pts_from_def Let_def keep bindE_eq_Inr split: sum.splits prod.splits if_splits)
  then show ?thesis using nanos_exact [OF assms(4,2)] by simp
qed

end
