(* ===== verification/Wfd_Text.thy ===== *)
theory Wfd_Text
  imports Text
begin

text \<open>
  The text of a \<^verbatim>\<open>text/parameters\<close> body: what \<^verbatim>\<open>crates/proto-miracast\<close> uses of
  \<^verbatim>\<open>str\<close> beyond \<open>Text\<close> (hexadecimal numbers of a fixed width, white-space separated fields,
  lines, separators, prefixes and ASCII case), and that what is printed is read back.
\<close>

section \<open>Case and prefixes\<close>

definition to_ascii_uppercase :: "bytes \<Rightarrow> bytes" where
  "to_ascii_uppercase bs = map (\<lambda>b. if 0x61 \<le> b \<and> b \<le> 0x7A then b - 0x20 else b) bs"

definition eq_ignore_ascii_case :: "bytes \<Rightarrow> bytes \<Rightarrow> bool" where
  "eq_ignore_ascii_case a b \<longleftrightarrow> to_ascii_lowercase a = to_ascii_lowercase b"

definition strip_prefix :: "bytes \<Rightarrow> bytes \<Rightarrow> bytes option" where
  "strip_prefix p bs = (if take (length p) bs = p then Some (drop (length p) bs) else None)"

definition trim_end_byte :: "u8 \<Rightarrow> bytes \<Rightarrow> bytes" where
  "trim_end_byte c bs = rev (dropWhile (\<lambda>b. b = c) (rev bs))"

definition ascii_whitespace :: "u8 \<Rightarrow> bool" where
  "ascii_whitespace b \<longleftrightarrow> b \<in> {0x20, 0x09, 0x0A, 0x0C, 0x0D}"

section \<open>Pieces\<close>

text \<open>\<open>split\<close> at a byte.\<close>

fun split_at :: "u8 \<Rightarrow> bytes \<Rightarrow> bytes list" where
  "split_at c [] = [[]]"
| "split_at c (b # bs) =
     (if b = c then [] # split_at c bs
      else case split_at c bs of [] \<Rightarrow> [[b]] | p # ps \<Rightarrow> (b # p) # ps)"

text \<open>\<open>split_whitespace\<close>: the runs between white space, none of them empty.\<close>

function fields_from :: "bytes \<Rightarrow> bytes \<Rightarrow> bytes list" where
  "fields_from acc [] = (if acc = [] then [] else [acc])"
| "fields_from acc (b # bs) =
     (case leading white_space (b # bs) of
        0 \<Rightarrow> fields_from (acc @ [b]) bs
      | Suc n \<Rightarrow> (if acc = [] then [] else [acc]) @ fields_from [] (drop n bs))"
  by pat_completeness auto
termination by (relation "measure (\<lambda>(acc, bs). length bs)") auto

definition split_fields :: "bytes \<Rightarrow> bytes list" where
  "split_fields bs = fields_from [] bs"

text \<open>\<open>lines\<close>: cut after each line feed, with one carriage return before it removed.\<close>

definition text_lines :: "bytes \<Rightarrow> bytes list" where
  "text_lines bs =
     (let pieces = split_at 0x0A bs;
          whole = (if last pieces = [] then butlast pieces else pieces);
          cut = (\<lambda>p. case strip_suffix [0x0D] p of None \<Rightarrow> p | Some q \<Rightarrow> q) in
      if last pieces = [] then map cut whole else map cut (butlast whole) @ [last whole])"

section \<open>Hexadecimal numbers\<close>

definition hex_digit :: "nat \<Rightarrow> u8" where
  "hex_digit n = (if n < 10 then 0x30 + of_nat n else 0x41 + of_nat (n - 10))"

text \<open>\<open>{:0wX}\<close> of a value that fits in \<open>w\<close> digits.\<close>

fun hex :: "nat \<Rightarrow> nat \<Rightarrow> bytes" where
  "hex 0 n = []"
| "hex (Suc w) n = hex w (n div 16) @ [hex_digit (n mod 16)]"

definition hex_value :: "u8 \<Rightarrow> nat option" where
  "hex_value b =
     (if 0x30 \<le> b \<and> b \<le> 0x39 then Some (unat b - 0x30)
      else if 0x41 \<le> b \<and> b \<le> 0x46 then Some (unat b - 0x37)
      else if 0x61 \<le> b \<and> b \<le> 0x66 then Some (unat b - 0x57)
      else None)"

fun hex_digits :: "nat \<Rightarrow> nat \<Rightarrow> bytes \<Rightarrow> nat option" where
  "hex_digits limit acc [] = Some acc"
| "hex_digits limit acc (b # bs) =
     (case hex_value b of
        None \<Rightarrow> None
      | Some d \<Rightarrow> let v = acc * 16 + d in if limit < v then None else hex_digits limit v bs)"

text \<open>\<open>from_str_radix(_, 16)\<close> for a type with the largest value \<open>limit\<close>.\<close>

definition parse_hex :: "nat \<Rightarrow> bytes \<Rightarrow> nat option" where
  "parse_hex limit bs =
     (let digits = (case bs of [] \<Rightarrow> [] | b # rest \<Rightarrow> if b = 0x2B then rest else bs) in
      if digits = [] then None else hex_digits limit 0 digits)"

lemma length_hex [simp]: "length (hex w n) = w"
  by (induction w arbitrary: n) simp_all

lemma hex_digits_append:
  "hex_digits limit acc (xs @ ys) = (case hex_digits limit acc xs of None \<Rightarrow> None | Some v \<Rightarrow> hex_digits limit v ys)"
  by (induction limit acc xs rule: hex_digits.induct) (auto simp: Let_def split: option.splits)

lemma hex_value_digit: "n < 16 \<Longrightarrow> hex_value (hex_digit n) = Some n"
proof -
  assume "n < 16"
  then have "n \<in> set [0..<16]" by simp
  moreover have "\<forall>k\<in>set [0..<16]. hex_value (hex_digit k) = Some k" by code_simp
  ultimately show ?thesis by blast
qed

lemma hex_digits_hex: "\<lbrakk>n < 16 ^ w; n \<le> limit\<rbrakk> \<Longrightarrow> hex_digits limit 0 (hex w n) = Some n"
proof (induction w arbitrary: n)
  case (Suc w)
  have "n div 16 < 16 ^ w" using Suc.prems(1) by (simp add: less_mult_imp_div_less mult.commute)
  moreover have "n div 16 \<le> limit" using Suc.prems(2) by (meson div_le_dividend le_trans)
  ultimately have "hex_digits limit 0 (hex w (n div 16)) = Some (n div 16)" by (rule Suc.IH)
  then show ?case using Suc.prems(2) by (simp add: hex_digits_append hex_value_digit Let_def)
qed simp

lemma hex_digit_solid: "n < 16 \<Longrightarrow> solid (hex_digit n) \<and> hex_digit n \<noteq> 0x2B \<and> hex_digit n \<noteq> 0x2C \<and> hex_digit n \<noteq> 0x6E \<and> hex_digit n \<noteq> 0x4E"
proof -
  assume "n < 16"
  then have "n \<in> set [0..<16]" by simp
  moreover have "\<forall>k\<in>set [0..<16]. solid (hex_digit k) \<and> hex_digit k \<noteq> 0x2B \<and> hex_digit k \<noteq> 0x2C
      \<and> hex_digit k \<noteq> 0x6E \<and> hex_digit k \<noteq> 0x4E"
    by code_simp
  ultimately show ?thesis by blast
qed

lemma hex_bytes: "b \<in> set (hex w n) \<Longrightarrow> solid b \<and> b \<noteq> 0x2B \<and> b \<noteq> 0x2C \<and> b \<noteq> 0x6E \<and> b \<noteq> 0x4E"
  by (induction w arbitrary: n) (auto simp: hex_digit_solid)

lemma parse_hex_hex [simp]: "\<lbrakk>n < 16 ^ w; n \<le> limit; 0 < w\<rbrakk> \<Longrightarrow> parse_hex limit (hex w n) = Some n"
proof -
  assume n: "n < 16 ^ w" "n \<le> limit" "0 < w"
  obtain b rest where d: "hex w n = b # rest" using n(3) by (cases "hex w n") (auto dest: arg_cong [of _ _ length])
  have "b \<noteq> 0x2B" using hex_bytes [of b w n] d by simp
  then show ?thesis using hex_digits_hex [OF n(1,2)] by (simp add: parse_hex_def d)
qed

section \<open>Fields and lines read back\<close>

lemma leading_solid: "solid b \<Longrightarrow> leading white_space (b # bs) = 0"
proof -
  assume b: "solid b"
  have heads: "\<forall>c\<in>set white_space. c \<noteq> [] \<and> \<not> solid (hd c)"
    by (simp add: white_space_def solid_def)
  have "find (\<lambda>c. take (length c) (b # bs) = c) white_space = None"
  proof (subst find_None_iff, clarify)
    fix c
    assume c: "c \<in> set white_space" "take (length c) (b # bs) = c"
    then have "hd c = b" using heads by (metis hd_take length_greater_0_conv list.sel(1))
    then show False using b c(1) heads by auto
  qed
  then show ?thesis by (simp add: leading_def)
qed

lemma leading_space: "leading white_space (0x20 # bs) = 1"
  by (simp add: leading_def white_space_def)

lemma fields_from_solid: "list_all solid w \<Longrightarrow> fields_from acc (w @ rest) = fields_from (acc @ w) rest"
  by (induction w arbitrary: acc) (simp_all add: leading_solid)

definition field_ok :: "bytes \<Rightarrow> bool" where
  "field_ok w \<longleftrightarrow> w \<noteq> [] \<and> list_all solid w"

lemma trim_space: "trim_start white_space bs = bs \<Longrightarrow> trim (0x20 # bs) = trim bs"
proof -
  assume "trim_start white_space bs = bs"
  moreover have "trim_start white_space (0x20 # bs) = trim_start white_space bs"
    by (subst trim_start.simps) (simp add: leading_space)
  ultimately show ?thesis by (simp add: trim_def)
qed

lemma trim_space_solid: "\<lbrakk>bs \<noteq> []; solid (hd bs); solid (last bs)\<rbrakk> \<Longrightarrow> trim (0x20 # bs) = bs"
proof -
  assume bs: "bs \<noteq> []" "solid (hd bs)" "solid (last bs)"
  have "trim_start white_space bs = bs"
    using bs(2) by (intro trim_start_solid) (auto simp: white_space_def solid_def)
  then show ?thesis using bs by (simp add: trim_space trim_solid)
qed

lemma trim_Nil [simp]: "trim [] = []"
  by (simp add: trim_def trim_start.simps)

text \<open>Fields between single spaces.\<close>

definition spaced :: "bytes list \<Rightarrow> bytes" where
  "spaced ws = concat (map (\<lambda>w. 0x20 # w) ws)"

lemma fields_from_spaced: "list_all field_ok ws \<Longrightarrow> fields_from acc (spaced ws) = (if acc = [] then [] else [acc]) @ ws"
proof (induction ws arbitrary: acc)
  case (Cons w ws)
  then show ?case
    by (simp add: spaced_def leading_space fields_from_solid field_ok_def)
qed (simp add: spaced_def)

lemma fields_spaced: "\<lbrakk>field_ok w; list_all field_ok ws\<rbrakk> \<Longrightarrow> split_fields (w @ spaced ws) = w # ws"
  using fields_from_spaced [of ws w] by (simp add: split_fields_def fields_from_solid field_ok_def)

lemma split_at_simple: "c \<notin> set w \<Longrightarrow> split_at c w = [w]"
  by (induction w) auto

lemma split_at_append: "c \<notin> set w \<Longrightarrow> split_at c (w @ c # rest) = w # split_at c rest"
  by (induction w) auto

lemma split_at_not_Nil [simp]: "split_at c bs \<noteq> []"
  by (induction bs) (auto split: list.splits)

definition crlf :: "bytes list \<Rightarrow> bytes" where
  "crlf ls = concat (map (\<lambda>l. l @ [0x0D, 0x0A]) ls)"

lemma split_at_crlf: "list_all (\<lambda>l. 0x0A \<notin> set l) ls \<Longrightarrow> split_at 0x0A (crlf ls) = map (\<lambda>l. l @ [0x0D]) ls @ [[]]"
proof (induction ls)
  case (Cons l ls)
  have "crlf (l # ls) = (l @ [0x0D]) @ 0x0A # crlf ls" by (simp add: crlf_def)
  then show ?case using Cons split_at_append [of "0x0A" "l @ [0x0D]"] by simp
qed (simp add: crlf_def)

lemma text_lines_crlf: "list_all (\<lambda>l. 0x0A \<notin> set l) ls \<Longrightarrow> text_lines (crlf ls) = ls"
  by (simp add: text_lines_def split_at_crlf Let_def comp_def)

end
