(* ===== verification/Wfd_Video.thy ===== *)
theory Wfd_Video
  imports Wfd_Text
begin

text \<open>
  The parameter \<^verbatim>\<open>wfd_video_formats\<close> of \<^verbatim>\<open>crates/proto-miracast/src/video.rs\<close>: the
  three resolution tables, the masks over them, the codec tuples with their printer and
  parser, and the prediction of the format a source chooses.
\<close>

section \<open>Errors\<close>

datatype param_error =
    NotUtf8
  | MissingColon bytes
  | FieldCount string nat nat
  | NotHex string nat
  | OutOfRange string string

section \<open>Resolution tables\<close>

datatype resolution_table = Cea | Vesa | Hh

fun table_wire :: "resolution_table \<Rightarrow> u8" where
  "table_wire Cea = 0"
| "table_wire Vesa = 1"
| "table_wire Hh = 2"

definition table_from_wire :: "u8 \<Rightarrow> resolution_table option" where
  "table_from_wire raw =
     (let t = raw AND 0x07 in
      if t = 0 then Some Cea else if t = 1 then Some Vesa else if t = 2 then Some Hh else None)"

record video_mode =
  vm_width :: u16
  vm_height :: u16
  vm_fps :: u8
  vm_interlaced :: bool

definition new_mode :: "u16 \<Rightarrow> u16 \<Rightarrow> u8 \<Rightarrow> bool \<Rightarrow> video_mode" where
  "new_mode w h f i = \<lparr>vm_width = w, vm_height = h, vm_fps = f, vm_interlaced = i\<rparr>"

text \<open>A score is below \<open>2\<^sup>4\<^sup>1\<close>, so the \<open>u64\<close> products never wrap.\<close>

definition score :: "video_mode \<Rightarrow> nat" where
  "score m = unat (vm_width m) * unat (vm_height m) * unat (vm_fps m) * (if vm_interlaced m then 1 else 2)"

definition CEA_MODES :: "video_mode list" where
  "CEA_MODES =
     [new_mode 640 480 60 False, new_mode 720 480 60 False, new_mode 720 480 60 True,
      new_mode 720 576 50 False, new_mode 720 576 50 True, new_mode 1280 720 30 False,
      new_mode 1280 720 60 False, new_mode 1920 1080 30 False, new_mode 1920 1080 60 False,
      new_mode 1920 1080 60 True, new_mode 1280 720 25 False, new_mode 1280 720 50 False,
      new_mode 1920 1080 25 False, new_mode 1920 1080 50 False, new_mode 1920 1080 50 True,
      new_mode 1280 720 24 False, new_mode 1920 1080 24 False]"

definition VESA_MODES :: "video_mode list" where
  "VESA_MODES =
     [new_mode 800 600 30 False, new_mode 800 600 60 False, new_mode 1024 768 30 False,
      new_mode 1024 768 60 False, new_mode 1152 864 30 False, new_mode 1152 864 60 False,
      new_mode 1280 768 30 False, new_mode 1280 768 60 False, new_mode 1280 800 30 False,
      new_mode 1280 800 60 False, new_mode 1360 768 30 False, new_mode 1360 768 60 False,
      new_mode 1366 768 30 False, new_mode 1366 768 60 False, new_mode 1280 1024 30 False,
      new_mode 1280 1024 60 False, new_mode 1400 1050 30 False, new_mode 1400 1050 60 False,
      new_mode 1440 900 30 False, new_mode 1440 900 60 False, new_mode 1600 900 30 False,
      new_mode 1600 900 60 False, new_mode 1600 1200 30 False, new_mode 1600 1200 60 False,
      new_mode 1680 1024 30 False, new_mode 1680 1024 60 False, new_mode 1680 1050 30 False,
      new_mode 1680 1050 60 False, new_mode 1920 1200 30 False]"

definition HH_MODES :: "video_mode list" where
  "HH_MODES =
     [new_mode 800 480 30 False, new_mode 800 480 60 False, new_mode 854 480 30 False,
      new_mode 854 480 60 False, new_mode 864 480 30 False, new_mode 864 480 60 False,
      new_mode 640 360 30 False, new_mode 640 360 60 False, new_mode 960 540 30 False,
      new_mode 960 540 60 False, new_mode 848 480 30 False, new_mode 848 480 60 False]"

fun table_modes :: "resolution_table \<Rightarrow> video_mode list" where
  "table_modes Cea = CEA_MODES"
| "table_modes Vesa = VESA_MODES"
| "table_modes Hh = HH_MODES"

definition all_tables :: "resolution_table list" where
  "all_tables = [Cea, Vesa, Hh]"

section \<open>Indices\<close>

record resolution_index =
  ri_table :: resolution_table
  ri_index :: u8

definition new_index :: "resolution_table \<Rightarrow> u8 \<Rightarrow> resolution_index option" where
  "new_index t i =
     (if unat i < length (table_modes t) then Some \<lparr>ri_table = t, ri_index = i\<rparr> else None)"

definition index_mode :: "resolution_index \<Rightarrow> video_mode" where
  "index_mode ix =
     (if unat (ri_index ix) < length (table_modes (ri_table ix))
      then table_modes (ri_table ix) ! unat (ri_index ix) else new_mode 0 0 0 False)"

definition to_native_byte :: "resolution_index \<Rightarrow> u8" where
  "to_native_byte ix = push_bit 3 (ri_index ix) OR table_wire (ri_table ix)"

definition from_native_byte :: "u8 \<Rightarrow> resolution_index option" where
  "from_native_byte raw =
     (case table_from_wire raw of None \<Rightarrow> None | Some t \<Rightarrow> new_index t (drop_bit 3 raw))"

section \<open>Masks\<close>

record resolution_mask =
  rm_table :: resolution_table
  rm_bits :: u32

definition mask_from_wire :: "resolution_table \<Rightarrow> u32 \<Rightarrow> resolution_mask" where
  "mask_from_wire t b = \<lparr>rm_table = t, rm_bits = b\<rparr>"

definition mask_empty :: "resolution_table \<Rightarrow> resolution_mask" where
  "mask_empty t = \<lparr>rm_table = t, rm_bits = 0\<rparr>"

definition contains_index :: "resolution_mask \<Rightarrow> nat \<Rightarrow> bool" where
  "contains_index m i \<longleftrightarrow> i < 32 \<and> rm_bits m AND push_bit i 1 \<noteq> 0"

definition lower_rate :: "video_mode \<Rightarrow> video_mode \<Rightarrow> bool" where
  "lower_rate other mode \<longleftrightarrow>
     vm_width other = vm_width mode \<and> vm_height other = vm_height mode
     \<and> vm_interlaced other = vm_interlaced mode \<and> vm_fps other < vm_fps mode"

definition missing_lower :: "resolution_mask \<Rightarrow> video_mode \<Rightarrow> bool" where
  "missing_lower m mode \<longleftrightarrow>
     list_ex (\<lambda>(i, other). lower_rate other mode \<and> \<not> contains_index m i)
       (enumerate 0 (table_modes (rm_table m)))"

definition check_refresh_rate_rule :: "resolution_mask \<Rightarrow> param_error + unit" where
  "check_refresh_rate_rule m =
     (if list_ex (\<lambda>(i, mode). contains_index m i \<and> missing_lower m mode)
           (enumerate 0 (table_modes (rm_table m)))
      then Inl (OutOfRange ''wfd_video_formats''
                  ''a refresh rate is claimed without the lower rates of the same mode'')
      else Inr ())"

fun position :: "('a \<Rightarrow> bool) \<Rightarrow> 'a list \<Rightarrow> nat option" where
  "position P [] = None"
| "position P (x # xs) = (if P x then Some 0 else map_option Suc (position P xs))"

fun advertise_bits :: "resolution_table \<Rightarrow> u32 \<Rightarrow> video_mode list \<Rightarrow> param_error + u32" where
  "advertise_bits t acc [] = Inr acc"
| "advertise_bits t acc (wanted # rest) =
     (case position (\<lambda>m. m = wanted) (table_modes t) of
        None \<Rightarrow> Inl (OutOfRange ''wfd_video_formats'' ''mode is not in the table it was offered for'')
      | Some i \<Rightarrow> advertise_bits t (acc OR push_bit i 1) rest)"

definition advertise :: "resolution_table \<Rightarrow> video_mode list \<Rightarrow> param_error + resolution_mask" where
  "advertise t modes =
     bindE (advertise_bits t 0 modes) (\<lambda>b.
       let m = \<lparr>rm_table = t, rm_bits = b\<rparr> in
       bindE (check_refresh_rate_rule m) (\<lambda>_. Inr m))"

definition mask_contains :: "resolution_mask \<Rightarrow> resolution_index \<Rightarrow> bool" where
  "mask_contains m ix \<longleftrightarrow> ri_table ix = rm_table m \<and> contains_index m (unat (ri_index ix))"

definition mask_modes :: "resolution_mask \<Rightarrow> (resolution_index \<times> video_mode) list" where
  "mask_modes m =
     List.map_filter
       (\<lambda>(i, mode). if i < 256 \<and> rm_bits m AND push_bit i 1 \<noteq> 0
          then map_option (\<lambda>ix. (ix, mode)) (new_index (rm_table m) (of_nat i)) else None)
       (enumerate 0 (table_modes (rm_table m)))"

definition mask_intersect :: "resolution_mask \<Rightarrow> resolution_mask \<Rightarrow> resolution_mask" where
  "mask_intersect a b =
     (if rm_table a = rm_table b then \<lparr>rm_table = rm_table a, rm_bits = rm_bits a AND rm_bits b\<rparr>
      else mask_empty (rm_table a))"

section \<open>Profiles and levels\<close>

datatype profile = ConstrainedBaseline | ConstrainedHigh

text \<open>The derived order of \<open>Profile\<close> is the order of its variants.\<close>

instantiation profile :: linorder
begin

definition less_eq_profile :: "profile \<Rightarrow> profile \<Rightarrow> bool" where
  "less_eq_profile a b \<longleftrightarrow> a = ConstrainedBaseline \<or> b = ConstrainedHigh"

definition less_profile :: "profile \<Rightarrow> profile \<Rightarrow> bool" where
  "less_profile a b \<longleftrightarrow> a = ConstrainedBaseline \<and> b = ConstrainedHigh"

instance
  by (intro_classes; auto simp: less_eq_profile_def less_profile_def intro: profile.exhaust)

end

fun profile_idc :: "profile \<Rightarrow> u8" where
  "profile_idc ConstrainedBaseline = 66"
| "profile_idc ConstrainedHigh = 100"

fun constraint_set :: "profile \<Rightarrow> u8" where
  "constraint_set ConstrainedBaseline = 0xC0"
| "constraint_set ConstrainedHigh = 0x0C"

record profile_set =
  cbp :: bool
  chp :: bool

definition profiles_both :: profile_set where
  "profiles_both = \<lparr>cbp = True, chp = True\<rparr>"

definition profiles_from_bits :: "u8 \<Rightarrow> profile_set" where
  "profiles_from_bits b = \<lparr>cbp = (b AND 0x01 \<noteq> 0), chp = (b AND 0x02 \<noteq> 0)\<rparr>"

definition profiles_bits :: "profile_set \<Rightarrow> u8" where
  "profiles_bits p = of_bool (cbp p) OR push_bit 1 (of_bool (chp p))"

definition profiles_intersect :: "profile_set \<Rightarrow> profile_set \<Rightarrow> profile_set" where
  "profiles_intersect a b = \<lparr>cbp = (cbp a \<and> cbp b), chp = (chp a \<and> chp b)\<rparr>"

definition lowest_profile :: "profile_set \<Rightarrow> profile option" where
  "lowest_profile p =
     (if cbp p then Some ConstrainedBaseline else if chp p then Some ConstrainedHigh else None)"

fun profiles_contain :: "profile_set \<Rightarrow> profile \<Rightarrow> bool" where
  "profiles_contain p ConstrainedBaseline = cbp p"
| "profiles_contain p ConstrainedHigh = chp p"

type_synonym level_set = u8

definition LEVEL_IDCS :: "u8 list" where
  "LEVEL_IDCS = [31, 32, 40, 41, 42, 50, 51, 52]"

definition levels_r1 :: level_set where
  "levels_r1 = 0x1F"

definition levels_intersect :: "level_set \<Rightarrow> level_set \<Rightarrow> level_set" where
  "levels_intersect a b = a AND b"

definition lowest_level :: "level_set \<Rightarrow> u8 option" where
  "lowest_level l =
     map_option (\<lambda>b. LEVEL_IDCS ! b) (find (\<lambda>b. l AND push_bit b 1 \<noteq> 0) [0..<8])"

definition highest_level :: "level_set \<Rightarrow> u8 option" where
  "highest_level l =
     map_option (\<lambda>b. LEVEL_IDCS ! b) (find (\<lambda>b. l AND push_bit b 1 \<noteq> 0) (rev [0..<8]))"

definition contains_idc :: "level_set \<Rightarrow> u8 \<Rightarrow> bool" where
  "contains_idc l idc =
     (case position (\<lambda>v. v = idc) LEVEL_IDCS of None \<Rightarrow> False | Some b \<Rightarrow> l AND push_bit b 1 \<noteq> 0)"

record frame_rate_control =
  frame_skipping :: bool
  max_skip_interval :: u8
  frame_rate_change :: bool

definition frc_from_bits :: "u8 \<Rightarrow> frame_rate_control" where
  "frc_from_bits b =
     \<lparr>frame_skipping = (b AND 0x01 \<noteq> 0), max_skip_interval = drop_bit 1 b AND 0x07,
      frame_rate_change = (b AND 0x10 \<noteq> 0)\<rparr>"

definition frc_bits :: "frame_rate_control \<Rightarrow> u8" where
  "frc_bits f =
     of_bool (frame_skipping f) OR push_bit 1 (max_skip_interval f AND 0x07)
     OR push_bit 4 (of_bool (frame_rate_change f))"

section \<open>Codec tuples\<close>

record h264_codec =
  profiles :: profile_set
  levels :: level_set
  cea :: resolution_mask
  vesa :: resolution_mask
  hh :: resolution_mask
  latency_units :: u8
  min_slice_size :: u16
  slice_enc_params :: u16
  frame_rate :: frame_rate_control
  max_hres :: "u16 option"
  max_vres :: "u16 option"

definition latency_ms :: "u8 \<Rightarrow> u16" where
  "latency_ms u = ucast u * 5"

fun codec_mask :: "h264_codec \<Rightarrow> resolution_table \<Rightarrow> resolution_mask" where
  "codec_mask c Cea = cea c"
| "codec_mask c Vesa = vesa c"
| "codec_mask c Hh = hh c"

definition hex_or_none :: "u16 option \<Rightarrow> bytes" where
  "hex_or_none r = (case r of Some v \<Rightarrow> hex 4 (unat v) | None \<Rightarrow> ascii ''none'')"

definition codec_fields :: "h264_codec \<Rightarrow> bytes list" where
  "codec_fields c =
     [hex 2 (unat (profiles_bits (profiles c))), hex 2 (unat (levels c)),
      hex 8 (unat (rm_bits (cea c))), hex 8 (unat (rm_bits (vesa c))), hex 8 (unat (rm_bits (hh c))),
      hex 2 (unat (latency_units c)), hex 4 (unat (min_slice_size c)), hex 4 (unat (slice_enc_params c)),
      hex 2 (unat (frc_bits (frame_rate c))), hex_or_none (max_hres c), hex_or_none (max_vres c)]"

text \<open>A tuple with the space in front of it, as \<open>VideoFormats\<close> writes each of them.\<close>

definition print_codec :: "h264_codec \<Rightarrow> bytes" where
  "print_codec c = tl (spaced (codec_fields c))"

record video_formats =
  native :: "resolution_index option"
  preferred_display_mode_supported :: bool
  codecs :: "h264_codec list"

definition formats_none :: video_formats where
  "formats_none = \<lparr>native = None, preferred_display_mode_supported = False, codecs = []\<rparr>"

definition print_formats :: "video_formats \<Rightarrow> bytes" where
  "print_formats v =
     (if codecs v = [] then ascii ''none''
      else hex 2 (unat (case native v of None \<Rightarrow> 0 | Some ix \<Rightarrow> to_native_byte ix))
        @ [0x20] @ hex 2 (of_bool (preferred_display_mode_supported v))
        @ concat (map (\<lambda>c. 0x20 # print_codec c) (codecs v)))"

section \<open>Parsing\<close>

definition hex_u8 :: "string \<Rightarrow> nat \<Rightarrow> bytes \<Rightarrow> param_error + u8" where
  "hex_u8 key field s =
     (case parse_hex (2 ^ 8 - 1) s of None \<Rightarrow> Inl (NotHex key field) | Some v \<Rightarrow> Inr (of_nat v))"

definition hex_u16 :: "string \<Rightarrow> nat \<Rightarrow> bytes \<Rightarrow> param_error + u16" where
  "hex_u16 key field s =
     (case parse_hex (2 ^ 16 - 1) s of None \<Rightarrow> Inl (NotHex key field) | Some v \<Rightarrow> Inr (of_nat v))"

definition hex_u32 :: "string \<Rightarrow> nat \<Rightarrow> bytes \<Rightarrow> param_error + u32" where
  "hex_u32 key field s =
     (case parse_hex u32_max s of None \<Rightarrow> Inl (NotHex key field) | Some v \<Rightarrow> Inr (of_nat v))"

definition optional_hex_u16 :: "string \<Rightarrow> nat \<Rightarrow> bytes \<Rightarrow> param_error + u16 option" where
  "optional_hex_u16 key field s =
     (if eq_ignore_ascii_case s (ascii ''none'') then Inr None
      else bindE (hex_u16 key field s) (\<lambda>v. Inr (Some v)))"

definition parse_tuple :: "nat \<Rightarrow> bytes list \<Rightarrow> param_error + h264_codec" where
  "parse_tuple base t =
     (let key = ''wfd_video_formats'' in
      bindE (hex_u8 key base (t ! 0)) (\<lambda>p.
      bindE (hex_u8 key (base + 1) (t ! 1)) (\<lambda>l.
      bindE (hex_u32 key (base + 2) (t ! 2)) (\<lambda>c.
      bindE (hex_u32 key (base + 3) (t ! 3)) (\<lambda>v.
      bindE (hex_u32 key (base + 4) (t ! 4)) (\<lambda>h.
      bindE (hex_u8 key (base + 5) (t ! 5)) (\<lambda>lat.
      bindE (hex_u16 key (base + 6) (t ! 6)) (\<lambda>ms.
      bindE (hex_u16 key (base + 7) (t ! 7)) (\<lambda>se.
      bindE (hex_u8 key (base + 8) (t ! 8)) (\<lambda>fr.
      bindE (optional_hex_u16 key (base + 9) (t ! 9)) (\<lambda>mh.
      bindE (optional_hex_u16 key (base + 10) (t ! 10)) (\<lambda>mv.
        Inr \<lparr>profiles = profiles_from_bits p, levels = l, cea = mask_from_wire Cea c,
             vesa = mask_from_wire Vesa v, hh = mask_from_wire Hh h, latency_units = lat,
             min_slice_size = ms, slice_enc_params = se, frame_rate = frc_from_bits fr,
             max_hres = mh, max_vres = mv\<rparr>))))))))))))"

text \<open>\<open>chunks_exact(11)\<close>, with the number of the first field of each chunk.\<close>

function parse_tuples :: "nat \<Rightarrow> bytes list \<Rightarrow> param_error + h264_codec list" where
  "parse_tuples base rest =
     (if length rest < 11 then Inr []
      else bindE (parse_tuple base (take 11 rest)) (\<lambda>c.
           bindE (parse_tuples (base + 11) (drop 11 rest)) (\<lambda>cs. Inr (c # cs))))"
  by pat_completeness auto
termination by (relation "measure (\<lambda>(_, rest). length rest)") auto

declare parse_tuples.simps [simp del]

definition parse_formats :: "bytes \<Rightarrow> param_error + video_formats" where
  "parse_formats value =
     (let key = ''wfd_video_formats''; trimmed = trim value in
      if eq_ignore_ascii_case trimmed (ascii ''none'') then Inr formats_none
      else let fs = split_fields trimmed in
        if length fs < 13 then Inl (FieldCount key 13 (length fs))
        else bindE (hex_u8 key 0 (fs ! 0)) (\<lambda>raw.
             let nat_ix = (if raw = 0 then None else from_native_byte raw) in
             bindE (hex_u8 key 1 (fs ! 1)) (\<lambda>pref.
             let rest = map (trim_end_byte 0x2C) (drop 2 fs) in
             if length rest mod 11 \<noteq> 0
             then Inl (FieldCount key ((length rest div 11 + 1) * 11) (length rest))
             else bindE (parse_tuples 2 rest) (\<lambda>cs.
               Inr \<lparr>native = nat_ix, preferred_display_mode_supported = (pref \<noteq> 0), codecs = cs\<rparr>))))"

section \<open>Negotiation\<close>

record negotiated_video =
  nv_index :: resolution_index
  nv_profile :: profile
  nv_level :: u8

definition sink_can_decode :: "negotiated_video \<Rightarrow> video_formats \<Rightarrow> bool" where
  "sink_can_decode n sink =
     (case codecs sink of [] \<Rightarrow> False
      | c # _ \<Rightarrow> profiles_contain (profiles c) (nv_profile n) \<and> contains_idc (levels c) (nv_level n)
          \<and> mask_contains (codec_mask c (ri_table (nv_index n))) (nv_index n))"

text \<open>\<open>max_by_key\<close>: of several greatest elements the last.\<close>

definition max_by_key :: "('a \<Rightarrow> 'k :: linorder) \<Rightarrow> 'a list \<Rightarrow> 'a option" where
  "max_by_key key xs =
     (case xs of [] \<Rightarrow> None
      | x # rest \<Rightarrow> Some (fold (\<lambda>y best. if key best \<le> key y then y else best) rest x))"

text \<open>
  \<open>(score, Reverse(index))\<close> as one number: an index is at most 255, so it orders pairs
  lexicographically.
\<close>

definition mode_key :: "resolution_index \<times> video_mode \<Rightarrow> nat" where
  "mode_key p = score (snd p) * 256 + (255 - unat (ri_index (fst p)))"

definition common_modes :: "h264_codec \<Rightarrow> h264_codec \<Rightarrow> (resolution_index \<times> video_mode) list" where
  "common_modes a b = concat (map (\<lambda>t. mask_modes (mask_intersect (codec_mask a t) (codec_mask b t))) all_tables)"

definition pick_best_format :: "video_formats \<Rightarrow> video_formats \<Rightarrow> negotiated_video option" where
  "pick_best_format sink source =
     (case (codecs sink, codecs source) of
        (a # _, b # _) \<Rightarrow>
          (case (lowest_profile (profiles a), lowest_profile (profiles b),
                 lowest_level (levels a), lowest_level (levels b)) of
             (Some pa, Some pb, Some la, Some lb) \<Rightarrow>
               map_option
                 (\<lambda>best. \<lparr>nv_index = fst best, nv_profile = min pa pb, nv_level = min la lb\<rparr>)
                 (max_by_key mode_key (common_modes a b))
           | _ \<Rightarrow> None)
      | _ \<Rightarrow> None)"

section \<open>Greatest elements\<close>

lemma fold_max:
  "let r = fold (\<lambda>y best. if key best \<le> key y then y else best) xs x in
     r \<in> insert x (set xs) \<and> (\<forall>y\<in>insert x (set xs). key y \<le> (key r :: 'k :: linorder))"
proof (induction xs arbitrary: x)
  case (Cons y ys)
  then show ?case unfolding Let_def
    by (smt (verit) fold_simps(2) insert_iff le_cases list.set(2) order_trans)
qed simp

lemma max_by_key_Some:
  "max_by_key key xs = Some r \<Longrightarrow> r \<in> set xs \<and> (\<forall>y\<in>set xs. key y \<le> key r)"
  using fold_max [of key "tl xs" "hd xs"] by (cases xs) (auto simp: max_by_key_def Let_def)

lemma max_by_key_None [simp]: "max_by_key key xs = None \<longleftrightarrow> xs = []"
  by (cases xs) (simp_all add: max_by_key_def)

section \<open>Masks and the modes they name\<close>

lemma table_small: "length (table_modes t) \<le> 29"
  by (cases t) (simp_all add: CEA_MODES_def VESA_MODES_def HH_MODES_def)

lemma mask_modes_iff:
  "(ix, mode) \<in> set (mask_modes m) \<longleftrightarrow>
     mask_contains m ix \<and> unat (ri_index ix) < length (table_modes (rm_table m)) \<and> mode = index_mode ix"
proof -
  have small: "length (table_modes (rm_table m)) \<le> 29" by (rule table_small)
  have 1: "(ix, mode) \<in> set (mask_modes m) \<longleftrightarrow>
      (\<exists>i < length (table_modes (rm_table m)). rm_bits m AND push_bit i 1 \<noteq> 0
         \<and> ix = \<lparr>ri_table = rm_table m, ri_index = of_nat i\<rparr> \<and> mode = table_modes (rm_table m) ! i)"
    using small
    by (auto simp: mask_modes_def map_filter_def in_set_enumerate_eq new_index_def rev_image_eqI image_iff
        split: if_splits)
  show ?thesis
  proof
    assume "(ix, mode) \<in> set (mask_modes m)"
    then show "mask_contains m ix \<and> unat (ri_index ix) < length (table_modes (rm_table m)) \<and> mode = index_mode ix"
      using 1 small by (auto simp: mask_contains_def contains_index_def index_mode_def)
  next
    assume r: "mask_contains m ix \<and> unat (ri_index ix) < length (table_modes (rm_table m)) \<and> mode = index_mode ix"
    have "ix = \<lparr>ri_table = rm_table m, ri_index = of_nat (unat (ri_index ix))\<rparr>"
      using r by (cases ix) (simp add: mask_contains_def)
    then show "(ix, mode) \<in> set (mask_modes m)"
      using 1 r by (auto simp: mask_contains_def contains_index_def index_mode_def)
  qed
qed

lemma mask_bit_set: "(w AND push_bit i 1 \<noteq> 0) = bit (w :: 'a :: len word) i"
  by (simp add: and_exp_eq_0_iff_not_bit)

lemma contains_index_bit: "contains_index m i = bit (rm_bits m) i"
  using bit_imp_le_length [of "rm_bits m" i] by (auto simp: contains_index_def and_exp_eq_0_iff_not_bit)

lemma contains_intersect:
  "rm_table a = rm_table b \<Longrightarrow> mask_contains (mask_intersect a b) ix \<longleftrightarrow> mask_contains a ix \<and> mask_contains b ix"
  by (auto simp: mask_contains_def mask_intersect_def contains_index_bit bit_simps)

section \<open>What is printed is parsed\<close>

declare hex.simps [simp del]

lemma hex_reads [simp]:
  "hex_u8 key f (hex 2 (unat (a :: u8))) = Inr a"
  "hex_u16 key f (hex 4 (unat (b :: u16))) = Inr b"
  "hex_u32 key f (hex 8 (unat (c :: u32))) = Inr c"
proof -
  have "unat a < 256" "unat b < 65536" "unat c < 4294967296"
    using unsigned_less [of a] unsigned_less [of b] unsigned_less [of c] by simp_all
  then show "hex_u8 key f (hex 2 (unat a)) = Inr a" "hex_u16 key f (hex 4 (unat b)) = Inr b"
    "hex_u32 key f (hex 8 (unat c)) = Inr c"
    by (simp_all add: hex_u8_def hex_u16_def hex_u32_def u32_max_def)
qed

lemma hex_not_none:
  assumes "0 < w"
  shows "\<not> eq_ignore_ascii_case (hex w n) (ascii ''none'')"
proof
  assume e: "eq_ignore_ascii_case (hex w n) (ascii ''none'')"
  obtain b rest where h: "hex w n = b # rest" using assms by (cases "hex w n") (auto dest: arg_cong [of _ _ length])
  have "b \<noteq> 0x6E \<and> b \<noteq> 0x4E" using hex_bytes [of b w n] h by simp
  moreover have "b = 0x6E \<or> b = 0x4E"
    using e h by (auto simp: eq_ignore_ascii_case_def to_ascii_lowercase_def ascii_def eq_neg_iff_add_eq_0
        diff_eq_eq [symmetric] split: if_splits)
  ultimately show False by blast
qed

lemma optional_reads [simp]: "optional_hex_u16 key f (hex_or_none r) = Inr r"
proof (cases r)
  case None
  then show ?thesis by (simp add: optional_hex_u16_def hex_or_none_def eq_ignore_ascii_case_def)
next
  case (Some v)
  then show ?thesis using hex_not_none [of 4 "unat v"] by (simp add: optional_hex_u16_def hex_or_none_def)
qed

lemma profiles_read [simp]: "profiles_from_bits (profiles_bits p) = p"
  by (cases p rule: profile_set.cases; simp add: profiles_from_bits_def profiles_bits_def of_bool_def)

lemma frc_read: "max_skip_interval f < 8 \<Longrightarrow> frc_from_bits (frc_bits f) = f"
proof -
  assume s: "max_skip_interval f < 8"
  obtain a n c where f: "f = \<lparr>frame_skipping = a, max_skip_interval = n, frame_rate_change = c\<rparr>"
    by (cases f rule: frame_rate_control.cases) auto
  have "unat n \<in> set [0..<8]" using s f by (simp add: word_less_nat_alt)
  moreover have "\<forall>k\<in>set [0..<8]. \<forall>a\<in>set [True, False]. \<forall>c\<in>set [True, False].
      frc_from_bits (frc_bits \<lparr>frame_skipping = a, max_skip_interval = of_nat k, frame_rate_change = c\<rparr>)
        = \<lparr>frame_skipping = a, max_skip_interval = of_nat k, frame_rate_change = c\<rparr>"
    by code_simp
  moreover have "a \<in> set [True, False]" "c \<in> set [True, False]" by auto
  ultimately have "frc_from_bits (frc_bits \<lparr>frame_skipping = a, max_skip_interval = of_nat (unat n), frame_rate_change = c\<rparr>)
        = \<lparr>frame_skipping = a, max_skip_interval = of_nat (unat n), frame_rate_change = c\<rparr>" by blast
  then show ?thesis by (simp add: f)
qed

definition index_ok :: "resolution_index \<Rightarrow> bool" where
  "index_ok ix \<longleftrightarrow> unat (ri_index ix) < length (table_modes (ri_table ix))"

lemma native_read: "index_ok ix \<Longrightarrow> from_native_byte (to_native_byte ix) = Some ix"
proof -
  assume ok: "index_ok ix"
  obtain t i where ix: "ix = \<lparr>ri_table = t, ri_index = i\<rparr>" by (cases ix rule: resolution_index.cases) auto
  have "unat i \<in> set [0..<length (table_modes t)]" "t \<in> set [Cea, Vesa, Hh]"
    using ok ix by (auto simp: index_ok_def intro: resolution_table.exhaust)
  moreover have "\<forall>t\<in>set [Cea, Vesa, Hh]. \<forall>k\<in>set [0..<length (table_modes t)].
      from_native_byte (to_native_byte \<lparr>ri_table = t, ri_index = of_nat k\<rparr>) = Some \<lparr>ri_table = t, ri_index = of_nat k\<rparr>"
    by code_simp
  ultimately have "from_native_byte (to_native_byte \<lparr>ri_table = t, ri_index = of_nat (unat i)\<rparr>)
      = Some \<lparr>ri_table = t, ri_index = of_nat (unat i)\<rparr>" by blast
  then show ?thesis by (simp add: ix)
qed

definition codec_ok :: "h264_codec \<Rightarrow> bool" where
  "codec_ok c \<longleftrightarrow>
     rm_table (cea c) = Cea \<and> rm_table (vesa c) = Vesa \<and> rm_table (hh c) = Hh
     \<and> max_skip_interval (frame_rate c) < 8"

lemma mask_eta: "rm_table m = t \<Longrightarrow> mask_from_wire t (rm_bits m) = m"
  by (cases m) (simp add: mask_from_wire_def)

lemma parse_tuple_fields: "codec_ok c \<Longrightarrow> parse_tuple base (codec_fields c) = Inr c"
  by (cases c) (simp add: parse_tuple_def codec_fields_def codec_ok_def frc_read mask_eta)

lemma length_codec_fields [simp]: "length (codec_fields c) = 11"
  by (simp add: codec_fields_def)

lemma parse_tuples_fields:
  "list_all codec_ok cs \<Longrightarrow> parse_tuples base (concat (map codec_fields cs)) = Inr cs"
proof (induction cs arbitrary: base)
  case Nil
  show ?case by (subst parse_tuples.simps) simp
next
  case (Cons c cs)
  then show ?case by (subst parse_tuples.simps) (simp add: parse_tuple_fields)
qed

definition formats_ok :: "video_formats \<Rightarrow> bool" where
  "formats_ok v \<longleftrightarrow>
     (if codecs v = [] then v = formats_none
      else list_all codec_ok (codecs v)
        \<and> (case native v of None \<Rightarrow> True | Some ix \<Rightarrow> index_ok ix \<and> to_native_byte ix \<noteq> 0))"

definition format_fields :: "video_formats \<Rightarrow> bytes list" where
  "format_fields v = hex 2 (of_bool (preferred_display_mode_supported v)) # concat (map codec_fields (codecs v))"

definition plain_field :: "bytes \<Rightarrow> bool" where
  "plain_field w \<longleftrightarrow> field_ok w \<and> 0x2C \<notin> set w"

lemma hex_plain: "0 < w \<Longrightarrow> plain_field (hex w n)"
  using hex_bytes [of _ w n] by (auto simp: plain_field_def field_ok_def list_all_iff dest: arg_cong [of _ _ length])

lemma none_plain: "plain_field (ascii ''none'')"
  by (simp add: plain_field_def field_ok_def ascii_def solid_def)

lemma codec_fields_plain: "list_all plain_field (codec_fields c)"
  by (auto simp: codec_fields_def hex_or_none_def hex_plain none_plain split: option.splits)

lemma format_fields_plain: "list_all plain_field (format_fields v)"
  using codec_fields_plain by (auto simp: format_fields_def hex_plain list_all_iff)

lemma trim_end_plain: "plain_field w \<Longrightarrow> trim_end_byte 0x2C w = w"
proof -
  assume "plain_field w"
  then have "dropWhile (\<lambda>b. b = 0x2C) (rev w) = rev w"
    by (metis (mono_tags, lifting) dropWhile_eq_self_iff hd_in_set plain_field_def set_rev)
  then show ?thesis by (simp add: trim_end_byte_def)
qed

lemma spaced_append [simp]: "spaced (xs @ ys) = spaced xs @ spaced ys"
  by (simp add: spaced_def)

lemma spaced_codec: "0x20 # print_codec c = spaced (codec_fields c)"
  by (simp add: print_codec_def codec_fields_def spaced_def)

lemma print_formats_fields:
  "codecs v \<noteq> [] \<Longrightarrow> print_formats v =
     hex 2 (unat (case native v of None \<Rightarrow> 0 | Some ix \<Rightarrow> to_native_byte ix)) @ spaced (format_fields v)"
proof -
  have "concat (map (\<lambda>c. spaced (codec_fields c)) cs) = spaced (concat (map codec_fields cs))" for cs
    by (induction cs) (simp_all, simp add: spaced_def)
  then show "codecs v \<noteq> [] \<Longrightarrow> ?thesis"
    by (simp add: print_formats_def format_fields_def spaced_codec) (simp add: spaced_def)
qed

lemma last_spaced: "\<lbrakk>list_all field_ok ws; ws \<noteq> []\<rbrakk> \<Longrightarrow> solid (last (spaced ws))"
  by (induction ws rule: rev_induct) (simp_all, simp add: spaced_def field_ok_def list_all_iff)

lemma trim_spaced: "\<lbrakk>field_ok w; list_all field_ok ws\<rbrakk> \<Longrightarrow> trim (w @ spaced ws) = w @ spaced ws"
proof (rule trim_solid)
  assume ok: "field_ok w" "list_all field_ok ws"
  then show "w @ spaced ws \<noteq> []" by (simp add: field_ok_def)
  show "solid (hd (w @ spaced ws))" using ok(1) by (cases w) (simp_all add: field_ok_def)
  show "solid (last (w @ spaced ws))"
    using ok last_spaced [of ws] by (cases "ws = []") (auto simp: spaced_def field_ok_def list_all_iff last_append)
qed

lemma eq_ignore_length: "eq_ignore_ascii_case a b \<Longrightarrow> length a = length b"
  unfolding eq_ignore_ascii_case_def to_ascii_lowercase_def by (drule arg_cong [of _ _ length]) simp

lemma length_spaced: "length (spaced ws) = sum_list (map length ws) + length ws"
proof (induction ws)
  case Nil
  show ?case by (simp add: spaced_def)
next
  case (Cons w ws)
  have "spaced (w # ws) = 0x20 # w @ spaced ws" by (simp only: spaced_def list.map concat.simps append_Cons)
  then show ?case using Cons by (simp only: list.map sum_list.Cons list.size length_append)
qed

lemma codec_fields_length: "sum_list (map length (codec_fields c)) = 48"
  by (simp add: codec_fields_def hex_or_none_def ascii_def split: option.splits)

lemma format_fields_length:
  "length (format_fields v) = 1 + 11 * length (codecs v)"
  "length (spaced (format_fields v)) = 3 + 59 * length (codecs v)"
proof -
  have "sum_list (map length (concat (map codec_fields cs))) = 48 * length cs" for cs
    by (induction cs) (simp_all add: codec_fields_length)
  moreover have l: "length (concat (map codec_fields cs)) = 11 * length cs" for cs
    by (induction cs) simp_all
  ultimately show "length (spaced (format_fields v)) = 3 + 59 * length (codecs v)"
    by (simp add: format_fields_def length_spaced)
  show "length (format_fields v) = 1 + 11 * length (codecs v)" by (simp add: format_fields_def l)
qed

lemma format_fields_ok: "list_all field_ok (format_fields v)"
  using format_fields_plain [of v] by (simp add: list_all_iff plain_field_def)

theorem printed_formats_length:
  "codecs v \<noteq> [] \<Longrightarrow> length (print_formats v) = 5 + 59 * length (codecs v)"
  by (simp add: print_formats_fields format_fields_length)

lemma preferred_reads: "hex_u8 key f (hex 2 (of_bool p)) = Inr (of_bool p)"
  using hex_reads(1) [of key f "of_bool p"] by (cases p) simp_all

text \<open>
  C38. A wfd_video_formats value is read back as it was, with any number of
  codec tuples, masks, resolutions or the none token, and a native mode other than the one whose
  byte is zero.
\<close>

theorem video_formats_roundtrip: "formats_ok v \<Longrightarrow> parse_formats (print_formats v) = Inr v"
proof (cases "codecs v = []")
  case True
  assume "formats_ok v"
  then have v: "v = formats_none" using True by (simp add: formats_ok_def)
  have "trim (ascii ''none'') = ascii ''none''" by (rule trim_solid) (simp_all add: ascii_def solid_def)
  then show ?thesis by (simp add: v print_formats_def formats_none_def parse_formats_def eq_ignore_ascii_case_def)
next
  case False
  assume ok: "formats_ok v"
  let ?raw = "case native v of None \<Rightarrow> 0 | Some ix \<Rightarrow> to_native_byte ix"
  let ?w = "hex 2 (unat ?raw)"
  have w: "field_ok ?w" using hex_plain [of 2] by (simp add: plain_field_def)
  have p: "print_formats v = ?w @ spaced (format_fields v)" by (rule print_formats_fields [OF False])
  have t: "trim (print_formats v) = print_formats v" unfolding p by (rule trim_spaced [OF w format_fields_ok])
  have n: "\<not> eq_ignore_ascii_case (print_formats v) (ascii ''none'')"
    using eq_ignore_length [of "print_formats v" "ascii ''none''"] False
    by (auto simp: printed_formats_length ascii_def)
  have s: "split_fields (print_formats v) = ?w # format_fields v" unfolding p by (rule fields_spaced [OF w format_fields_ok])
  have m: "map (trim_end_byte 0x2C) (concat (map codec_fields (codecs v))) = concat (map codec_fields (codecs v))"
    using codec_fields_plain trim_end_plain by (intro map_idI) (auto simp: list_all_iff)
  have l: "length (concat (map codec_fields (codecs v))) = 11 * length (codecs v)"
    using format_fields_length(1) [of v] by (simp add: format_fields_def)
  have c: "parse_tuples 2 (concat (map codec_fields (codecs v))) = Inr (codecs v)"
    using ok False by (intro parse_tuples_fields) (simp add: formats_ok_def)
  have r: "(if ?raw = 0 then None else from_native_byte ?raw) = native v"
    using ok False native_read by (auto simp: formats_ok_def split: option.splits)
  have ge: "\<not> 1 + length (format_fields v) < 13" using False by (cases "codecs v") (simp_all add: format_fields_length)
  have f: "format_fields v ! 0 = hex 2 (of_bool (preferred_display_mode_supported v))"
    "drop 2 (?w # format_fields v) = concat (map codec_fields (codecs v))"
    by (simp_all add: format_fields_def numeral_2_eq_2)
  have h: "(?w # format_fields v) ! 1 = format_fields v ! 0" "(?w # format_fields v) ! 0 = ?w" by simp_all
  have "\<not> length (?w # format_fields v) < 13" using ge by simp
  then show ?thesis
    by (simp add: parse_formats_def t n s Let_def h f preferred_reads r m l c del: nth_Cons_numeral drop_Cons_numeral
        One_nat_def nth_Cons_0 nth_Cons_Suc)
qed

section \<open>What a mask may promise\<close>

text \<open>Every lower refresh rate that the table has of an offered mode is offered too.\<close>

definition rates_closed :: "resolution_table \<Rightarrow> video_mode list \<Rightarrow> bool" where
  "rates_closed t modes \<longleftrightarrow>
     (\<forall>mode\<in>set modes. \<forall>other\<in>set (table_modes t). lower_rate other mode \<longrightarrow> other \<in> set modes)"

definition offered :: "resolution_mask \<Rightarrow> video_mode set" where
  "offered m = {table_modes (rm_table m) ! i | i. i < length (table_modes (rm_table m)) \<and> bit (rm_bits m) i}"

lemma position_Some: "position P xs = Some i \<Longrightarrow> i < length xs \<and> P (xs ! i)"
  by (induction xs arbitrary: i) (auto split: if_splits)

lemma position_None: "position P xs = None \<longleftrightarrow> (\<forall>x\<in>set xs. \<not> P x)"
  by (induction xs) auto

lemma offered_modes: "offered m = snd ` set (mask_modes m)"
proof -
  have "mode \<in> snd ` set (mask_modes m) \<longleftrightarrow> mode \<in> offered m" for mode
  proof -
    have i: "unat (of_nat i :: u8) = i" if "i < length (table_modes (rm_table m))" for i
      using that table_small [of "rm_table m"] by simp
    have "(\<exists>ix. (ix, mode) \<in> set (mask_modes m)) \<longleftrightarrow> mode \<in> offered m"
    proof
      assume "\<exists>ix. (ix, mode) \<in> set (mask_modes m)"
      then show "mode \<in> offered m"
        by (auto simp: mask_modes_iff offered_def mask_contains_def contains_index_bit index_mode_def)
    next
      assume "mode \<in> offered m"
      then obtain i where "i < length (table_modes (rm_table m))" "bit (rm_bits m) i" "mode = table_modes (rm_table m) ! i"
        by (auto simp: offered_def)
      then have "(\<lparr>ri_table = rm_table m, ri_index = of_nat i\<rparr>, mode) \<in> set (mask_modes m)"
        using i by (simp add: mask_modes_iff mask_contains_def contains_index_bit index_mode_def)
      then show "\<exists>ix. (ix, mode) \<in> set (mask_modes m)" by blast
    qed
    then show ?thesis by force
  qed
  then show ?thesis by blast
qed

lemma distinct_tables: "distinct (table_modes t)"
  by (cases t) (simp_all add: CEA_MODES_def VESA_MODES_def HH_MODES_def new_mode_def)

lemma offered_mem:
  "\<lbrakk>i < length (table_modes (rm_table m))\<rbrakk> \<Longrightarrow>
     table_modes (rm_table m) ! i \<in> offered m \<longleftrightarrow> contains_index m i"
  using distinct_tables [of "rm_table m"] by (auto simp: offered_def contains_index_bit nth_eq_iff_index_eq)

lemma list_ex_enumerate: "list_ex P (enumerate 0 xs) \<longleftrightarrow> (\<exists>i<length xs. P (i, xs ! i))"
  by (auto simp: list_ex_iff in_set_enumerate_eq Bex_def)

lemma refresh_rule:
  "check_refresh_rate_rule m = Inr () \<longleftrightarrow>
     (\<forall>mode\<in>offered m. \<forall>other\<in>set (table_modes (rm_table m)). lower_rate other mode \<longrightarrow> other \<in> offered m)"
proof -
  let ?t = "table_modes (rm_table m)"
  have "check_refresh_rate_rule m = Inr () \<longleftrightarrow>
      (\<forall>i < length ?t. contains_index m i \<longrightarrow>
        (\<forall>k < length ?t. lower_rate (?t ! k) (?t ! i) \<longrightarrow> contains_index m k))"
    by (auto simp: check_refresh_rate_rule_def missing_lower_def list_ex_enumerate)
  also have "\<dots> \<longleftrightarrow> (\<forall>mode\<in>offered m. \<forall>other\<in>set ?t. lower_rate other mode \<longrightarrow> other \<in> offered m)"
  proof -
    have all: "(\<forall>mode\<in>offered m. P mode) \<longleftrightarrow> (\<forall>i < length ?t. contains_index m i \<longrightarrow> P (?t ! i))" for P
      by (auto simp: offered_def contains_index_bit)
    show ?thesis unfolding all by (auto simp: all_set_conv_all_nth offered_mem)
  qed
  finally show ?thesis .
qed

lemma offered_add:
  "i < length (table_modes t) \<Longrightarrow>
     offered \<lparr>rm_table = t, rm_bits = b OR push_bit i 1\<rparr> = insert (table_modes t ! i) (offered \<lparr>rm_table = t, rm_bits = b\<rparr>)"
  using table_small [of t] by (fastforce simp: offered_def bit_simps)

lemma advertise_bits_set:
  "(case advertise_bits t acc modes of
      Inl e \<Rightarrow> \<not> set modes \<subseteq> set (table_modes t)
    | Inr b \<Rightarrow> set modes \<subseteq> set (table_modes t)
        \<and> offered \<lparr>rm_table = t, rm_bits = b\<rparr> = offered \<lparr>rm_table = t, rm_bits = acc\<rparr> \<union> set modes)"
proof (induction t acc modes rule: advertise_bits.induct)
  case (2 t acc wanted rest)
  show ?case
  proof (cases "position (\<lambda>m. m = wanted) (table_modes t)")
    case None
    then have "wanted \<notin> set (table_modes t)" by (auto simp: position_None)
    then show ?thesis using None by simp
  next
    case (Some i)
    then have i: "i < length (table_modes t)" "table_modes t ! i = wanted" using position_Some [OF Some] by auto
    then have "wanted \<in> set (table_modes t)" by auto
    then show ?thesis using 2 [OF Some] i Some by (auto simp: offered_add simp del: push_bit_of_1 split: sum.splits)
  qed
qed simp

lemma offered_zero: "offered \<lparr>rm_table = t, rm_bits = 0\<rparr> = {}"
  by (simp add: offered_def)

text \<open>
  A mask over a resolution table can be advertised, and then names exactly the
  modes asked for, just in case every mode is in the table and every lower refresh rate the table
  has of an offered mode is offered too: the conformance rule the constructor checks.
\<close>

theorem advertise_iff:
  "(\<exists>m. advertise t modes = Inr m \<and> snd ` set (mask_modes m) = set modes)
     \<longleftrightarrow> set modes \<subseteq> set (table_modes t) \<and> rates_closed t modes"
proof (cases "advertise_bits t 0 modes")
  case (Inl e)
  then show ?thesis using advertise_bits_set [where t = t and acc = 0 and modes = modes] by (simp add: advertise_def)
next
  case (Inr b)
  let ?m = "\<lparr>rm_table = t, rm_bits = b\<rparr>"
  have o: "set modes \<subseteq> set (table_modes t)" "offered ?m = set modes"
    using advertise_bits_set [where t = t and acc = 0 and modes = modes] Inr by (simp_all add: offered_zero)
  have "(\<exists>m. advertise t modes = Inr m \<and> snd ` set (mask_modes m) = set modes) \<longleftrightarrow> check_refresh_rate_rule ?m = Inr ()"
    using o by (cases "check_refresh_rate_rule ?m") (auto simp: advertise_def Inr simp flip: offered_modes)
  then show ?thesis using o refresh_rule [of ?m] by (simp add: rates_closed_def)
qed

section \<open>What a source chooses\<close>

lemma common_modes_iff:
  "\<lbrakk>codec_ok a; codec_ok b\<rbrakk> \<Longrightarrow> (ix, mode) \<in> set (common_modes a b) \<longleftrightarrow>
     mask_contains (codec_mask a (ri_table ix)) ix \<and> mask_contains (codec_mask b (ri_table ix)) ix
     \<and> index_ok ix \<and> mode = index_mode ix"
proof -
  assume ok: "codec_ok a" "codec_ok b"
  have t: "rm_table (codec_mask a t) = t" "rm_table (codec_mask b t) = t" for t
    using ok by (cases t; simp add: codec_ok_def)+
  have i: "mask_contains (mask_intersect (codec_mask a t) (codec_mask b t)) ix
      \<longleftrightarrow> mask_contains (codec_mask a t) ix \<and> mask_contains (codec_mask b t) ix" for t
    by (rule contains_intersect) (simp add: t)
  have r: "rm_table (mask_intersect (codec_mask a t) (codec_mask b t)) = t" for t
    by (simp add: mask_intersect_def t)
  have w: "mask_contains (codec_mask a t) ix \<Longrightarrow> t = ri_table ix" for t
    by (simp add: mask_contains_def t)
  have "t \<in> set all_tables" for t by (cases t) (simp_all add: all_tables_def)
  then have "(ix, mode) \<in> set (common_modes a b) \<longleftrightarrow>
      (\<exists>t. (ix, mode) \<in> set (mask_modes (mask_intersect (codec_mask a t) (codec_mask b t))))"
    by (auto simp: common_modes_def)
  also have "\<dots> \<longleftrightarrow> mask_contains (codec_mask a (ri_table ix)) ix \<and> mask_contains (codec_mask b (ri_table ix)) ix
     \<and> index_ok ix \<and> mode = index_mode ix"
    using w by (auto simp: mask_modes_iff i r index_ok_def)
  finally show ?thesis .
qed

text \<open>A mode both sides claim.\<close>

definition shared_mode :: "h264_codec \<Rightarrow> h264_codec \<Rightarrow> resolution_index \<Rightarrow> bool" where
  "shared_mode a b ix \<longleftrightarrow>
     mask_contains (codec_mask a (ri_table ix)) ix \<and> mask_contains (codec_mask b (ri_table ix)) ix \<and> index_ok ix"

text \<open>
  What a source is predicted to choose is a mode both peers claim in their
  masks, and no mode both claim has a higher score.
\<close>

theorem best_format_is_best:
  "\<lbrakk>codecs sink = a # as; codecs source = b # bs; codec_ok a; codec_ok b; pick_best_format sink source = Some n\<rbrakk>
   \<Longrightarrow> shared_mode a b (nv_index n)
     \<and> (\<forall>ix. shared_mode a b ix \<longrightarrow> score (index_mode ix) \<le> score (index_mode (nv_index n)))"
proof -
  assume c: "codecs sink = a # as" "codecs source = b # bs" and ok: "codec_ok a" "codec_ok b"
    and p: "pick_best_format sink source = Some n"
  then obtain best where best: "max_by_key mode_key (common_modes a b) = Some best" "nv_index n = fst best"
    by (auto simp: pick_best_format_def split: option.splits)
  obtain ix mode where b: "best = (ix, mode)" by (cases best)
  have m: "(ix, mode) \<in> set (common_modes a b)" "\<forall>y\<in>set (common_modes a b). mode_key y \<le> mode_key (ix, mode)"
    using max_by_key_Some [OF best(1)] b by auto
  then have s: "shared_mode a b ix" "mode = index_mode ix"
    using common_modes_iff [OF ok] by (simp_all add: shared_mode_def)
  have "score (index_mode k) \<le> score (index_mode ix)" if "shared_mode a b k" for k
  proof -
    have "(k, index_mode k) \<in> set (common_modes a b)"
      using that common_modes_iff [OF ok] by (simp add: shared_mode_def)
    then have "mode_key (k, index_mode k) \<le> mode_key (ix, mode)" using m(2) by blast
    then show ?thesis using s(2) by (simp add: mode_key_def)
  qed
  then show ?thesis using s b best(2) by simp
qed

definition lowest_of :: "h264_codec \<Rightarrow> bool" where
  "lowest_of c \<longleftrightarrow> lowest_profile (profiles c) \<noteq> None \<and> lowest_level (levels c) \<noteq> None"

text \<open>The least element of the level list is its first.\<close>

lemma lowest_level_ge: "lowest_level l = Some v \<Longrightarrow> 31 \<le> v"
proof -
  assume "lowest_level l = Some v"
  then have "\<exists>b < 8. v = LEVEL_IDCS ! b" by (auto simp: lowest_level_def find_Some_iff)
  moreover have "\<forall>b\<in>set [0..<8]. 31 \<le> LEVEL_IDCS ! b" by code_simp
  ultimately show ?thesis by auto
qed

lemma r1_lowest: "lowest_level levels_r1 = Some 31"
  by code_simp

lemma r1_contains: "contains_idc levels_r1 31"
  by code_simp

text \<open>
  A sink that claims both profiles and every level of R1 can decode whatever a source derives
  from the two advertisements.
\<close>

text \<open>
  A sink that claims both H.264 profiles and every level of R1 can
  decode whatever a source derives from the two advertisements, although the profile and the
  level are the lower of two floors and no intersection.
\<close>

theorem full_advertisement_decodes:
  "\<lbrakk>codecs sink = a # as; codecs source = b # bs; codec_ok a; codec_ok b; profiles a = profiles_both;
    levels a = levels_r1; pick_best_format sink source = Some n\<rbrakk>
   \<Longrightarrow> sink_can_decode n sink"
proof -
  assume c: "codecs sink = a # as" "codecs source = b # bs" and ok: "codec_ok a" "codec_ok b"
    and full: "profiles a = profiles_both" "levels a = levels_r1"
    and p: "pick_best_format sink source = Some n"
  obtain pb where n: "nv_profile n = min ConstrainedBaseline pb" "nv_level n = 31"
    using p c full lowest_level_ge
    by (auto simp: pick_best_format_def profiles_both_def lowest_profile_def [of "\<lparr>cbp = True, chp = True\<rparr>"]
        r1_lowest split: option.splits)
  have "nv_profile n = ConstrainedBaseline" "nv_level n = 31"
    using n by (simp_all add: min_def less_eq_profile_def)
  moreover have "shared_mode a b (nv_index n)" using best_format_is_best [OF c ok p] by blast
  ultimately show ?thesis using c full by (simp add: sink_can_decode_def shared_mode_def profiles_both_def r1_contains)
qed

section \<open>Two peers\<close>

definition full_codec :: h264_codec where
  "full_codec =
     \<lparr>profiles = profiles_both, levels = levels_r1, cea = mask_from_wire Cea 0x1FFFF,
      vesa = mask_from_wire Vesa 0x1FFFFFFF, hh = mask_from_wire Hh 0xFFF, latency_units = 0,
      min_slice_size = 0, slice_enc_params = 0, frame_rate = frc_from_bits 0x11, max_hres = Some 1920, max_vres = None\<rparr>"

definition phone_codec :: h264_codec where
  "phone_codec = full_codec\<lparr>profiles := \<lparr>cbp = False, chp = True\<rparr>, levels := 0x02, cea := mask_from_wire Cea 0x3F,
     vesa := mask_from_wire Vesa 0, hh := mask_from_wire Hh 0\<rparr>"

definition formats_of :: "h264_codec list \<Rightarrow> video_formats" where
  "formats_of cs = \<lparr>native = Some \<lparr>ri_table = Cea, ri_index = 8\<rparr>, preferred_display_mode_supported = True, codecs = cs\<rparr>"

lemma peers_ok: "codec_ok full_codec" "codec_ok phone_codec"
  by (simp_all add: codec_ok_def full_codec_def phone_codec_def mask_from_wire_def frc_from_bits_def)

definition cea_index :: "u8 \<Rightarrow> resolution_index" where
  "cea_index i = \<lparr>ri_table = Cea, ri_index = i\<rparr>"

lemma first_modes:
  "concat (map (\<lambda>t. mask_modes (mask_intersect (codec_mask full_codec t) (codec_mask phone_codec t))) all_tables)
     = [(cea_index 0, new_mode 640 480 60 False), (cea_index 1, new_mode 720 480 60 False),
        (cea_index 2, new_mode 720 480 60 True), (cea_index 3, new_mode 720 576 50 False),
        (cea_index 4, new_mode 720 576 50 True), (cea_index 5, new_mode 1280 720 30 False)]"
  by code_simp

lemma best_of_first:
  "max_by_key mode_key
     [(cea_index 0, new_mode 640 480 60 False), (cea_index 1, new_mode 720 480 60 False),
      (cea_index 2, new_mode 720 480 60 True), (cea_index 3, new_mode 720 576 50 False),
      (cea_index 4, new_mode 720 576 50 True), (cea_index 5, new_mode 1280 720 30 False)]
     = Some (cea_index 5, new_mode 1280 720 30 False)"
  by (simp add: max_by_key_def mode_key_def score_def new_mode_def cea_index_def)

lemma peers_pick:
  "pick_best_format (formats_of [full_codec]) (formats_of [phone_codec]) =
     Some \<lparr>nv_index = \<lparr>ri_table = Cea, ri_index = 5\<rparr>, nv_profile = ConstrainedBaseline, nv_level = 31\<rparr>"
proof -
  have "lowest_profile (profiles full_codec) = Some ConstrainedBaseline"
    "lowest_profile (profiles phone_codec) = Some ConstrainedHigh"
    "lowest_level (levels full_codec) = Some 31" "lowest_level (levels phone_codec) = Some 32"
    by code_simp+
  moreover have "max_by_key mode_key (common_modes full_codec phone_codec) = Some (cea_index 5, new_mode 1280 720 30 False)"
    unfolding common_modes_def first_modes by (rule best_of_first)
  ultimately show ?thesis
    by (simp add: pick_best_format_def formats_of_def cea_index_def min_def less_eq_profile_def)
qed

theorem video_formats_roundtrip_witness:
  "parse_formats (print_formats (formats_of [full_codec, phone_codec])) = Inr (formats_of [full_codec, phone_codec])"
proof (rule video_formats_roundtrip)
  have "to_native_byte \<lparr>ri_table = Cea, ri_index = 8\<rparr> \<noteq> 0" "index_ok \<lparr>ri_table = Cea, ri_index = 8\<rparr>" by code_simp+
  then show "formats_ok (formats_of [full_codec, phone_codec])"
    by (simp add: formats_ok_def formats_of_def peers_ok)
qed

theorem best_format_is_best_witness:
  "shared_mode full_codec phone_codec \<lparr>ri_table = Cea, ri_index = 5\<rparr>
     \<and> (\<forall>ix. shared_mode full_codec phone_codec ix \<longrightarrow> score (index_mode ix) \<le> score (new_mode 1280 720 30 False))"
proof -
  have "index_mode \<lparr>ri_table = Cea, ri_index = 5\<rparr> = new_mode 1280 720 30 False" by code_simp
  then show ?thesis
    using best_format_is_best [OF _ _ peers_ok peers_pick, of "[]" "[]"] by (simp add: formats_of_def)
qed

theorem full_advertisement_decodes_witness:
  "sink_can_decode \<lparr>nv_index = \<lparr>ri_table = Cea, ri_index = 5\<rparr>, nv_profile = ConstrainedBaseline, nv_level = 31\<rparr>
     (formats_of [full_codec])"
  by (rule full_advertisement_decodes [OF _ _ peers_ok _ _ peers_pick, of "[]" "[]"])
    (simp_all add: formats_of_def, simp_all add: full_codec_def)

end
