(* ===== verification/Wfd_Params.thy ===== *)
theory Wfd_Params
  imports Wfd_Video
begin

text \<open>
  The parameter language of \<^verbatim>\<open>crates/proto-miracast/src/params.rs\<close>: the \<^verbatim>\<open>text/parameters\<close>
  bodies of the RTSP exchange, one type for each parameter with its parser and printer, and the
  sink's answer to the source's capability query.
\<close>

section \<open>Names\<close>

datatype param_name =
    VideoFormats
  | AudioCodecs
  | ThreeDVideoFormats
  | ContentProtection
  | DisplayEdid
  | CoupledSink
  | TriggerMethod
  | PresentationUrl
  | ClientRtpPorts
  | Route
  | I2c
  | AvFormatChangeTiming
  | PreferredDisplayMode
  | UibcCapability
  | UibcSetting
  | StandbyResumeCapability
  | Standby
  | ConnectorType
  | IdrRequestCapability
  | IdrRequest
  | UnknownParam bytes

fun param_str :: "param_name \<Rightarrow> bytes" where
  "param_str VideoFormats = ascii ''wfd_video_formats''"
| "param_str AudioCodecs = ascii ''wfd_audio_codecs''"
| "param_str ThreeDVideoFormats = ascii ''wfd_3d_video_formats''"
| "param_str ContentProtection = ascii ''wfd_content_protection''"
| "param_str DisplayEdid = ascii ''wfd_display_edid''"
| "param_str CoupledSink = ascii ''wfd_coupled_sink''"
| "param_str TriggerMethod = ascii ''wfd_trigger_method''"
| "param_str PresentationUrl = ascii ''wfd_presentation_URL''"
| "param_str ClientRtpPorts = ascii ''wfd_client_rtp_ports''"
| "param_str Route = ascii ''wfd_route''"
| "param_str I2c = ascii ''wfd_I2C''"
| "param_str AvFormatChangeTiming = ascii ''wfd_av_format_change_timing''"
| "param_str PreferredDisplayMode = ascii ''wfd_preferred_display_mode''"
| "param_str UibcCapability = ascii ''wfd_uibc_capability''"
| "param_str UibcSetting = ascii ''wfd_uibc_setting''"
| "param_str StandbyResumeCapability = ascii ''wfd_standby_resume_capability''"
| "param_str Standby = ascii ''wfd_standby''"
| "param_str ConnectorType = ascii ''wfd_connector_type''"
| "param_str IdrRequestCapability = ascii ''wfd_idr_request_capability''"
| "param_str IdrRequest = ascii ''wfd_idr_request''"
| "param_str (UnknownParam name) = name"

definition KNOWN :: "param_name list" where
  "KNOWN =
     [VideoFormats, AudioCodecs, ThreeDVideoFormats, ContentProtection, DisplayEdid, CoupledSink,
      TriggerMethod, PresentationUrl, ClientRtpPorts, Route, I2c, AvFormatChangeTiming,
      PreferredDisplayMode, UibcCapability, UibcSetting, StandbyResumeCapability, Standby,
      ConnectorType, IdrRequestCapability, IdrRequest]"

definition parse_name :: "bytes \<Rightarrow> param_name" where
  "parse_name name =
     (let trimmed = trim name in
      case find (\<lambda>k. eq_ignore_ascii_case (param_str k) trimmed) KNOWN of
        Some k \<Rightarrow> k
      | None \<Rightarrow> UnknownParam trimmed)"

section \<open>Audio codecs\<close>

datatype audio_format = Lpcm | Aac | Ac3

record audio_codec_entry =
  ac_format :: audio_format
  ac_modes :: u32
  ac_latency :: u8

definition supports_anything :: "audio_codec_entry \<Rightarrow> bool" where
  "supports_anything e \<longleftrightarrow> ac_modes e \<noteq> 0"

fun format_str :: "audio_format \<Rightarrow> bytes" where
  "format_str Lpcm = ascii ''LPCM''"
| "format_str Aac = ascii ''AAC''"
| "format_str Ac3 = ascii ''AC3''"

definition parse_format :: "bytes \<Rightarrow> audio_format option" where
  "parse_format token =
     (let t = to_ascii_uppercase (trim token) in
      if t = ascii ''LPCM'' then Some Lpcm
      else if t = ascii ''AAC'' then Some Aac
      else if t = ascii ''AC3'' then Some Ac3
      else None)"

definition audio_mode :: "audio_format \<Rightarrow> u8 \<Rightarrow> (u32 \<times> u16) option" where
  "audio_mode f b =
     (if f = Lpcm \<and> b = 0 then Some (44100, 2)
      else if f = Lpcm \<and> b = 1 then Some (48000, 2)
      else if (f = Aac \<or> f = Ac3) \<and> b = 0 then Some (48000, 2)
      else if (f = Aac \<or> f = Ac3) \<and> b = 1 then Some (48000, 4)
      else if (f = Aac \<or> f = Ac3) \<and> b = 2 then Some (48000, 6)
      else if f = Aac \<and> b = 3 then Some (48000, 8)
      else None)"

definition print_entry :: "audio_codec_entry \<Rightarrow> bytes" where
  "print_entry e =
     format_str (ac_format e) @ [0x20] @ hex 8 (unat (ac_modes e)) @ [0x20] @ hex 2 (unat (ac_latency e))"

definition audio_default :: "audio_codec_entry list" where
  "audio_default =
     [\<lparr>ac_format = Lpcm, ac_modes = 2, ac_latency = 0\<rparr>, \<lparr>ac_format = Aac, ac_modes = 1, ac_latency = 0\<rparr>]"

definition audio_entry :: "audio_codec_entry list \<Rightarrow> audio_format \<Rightarrow> audio_codec_entry option" where
  "audio_entry es f = find (\<lambda>e. ac_format e = f) es"

fun parse_entries :: "nat \<Rightarrow> bytes list \<Rightarrow> param_error + audio_codec_entry list" where
  "parse_entries i [] = Inr []"
| "parse_entries i (entry # rest) =
     (let key = ''wfd_audio_codecs''; fs = split_fields entry in
      if length fs \<noteq> 3 then Inl (FieldCount key 3 (length fs))
      else case parse_format (fs ! 0) of
        None \<Rightarrow> Inl (OutOfRange key ''audio format is not LPCM, AAC or AC3'')
      | Some f \<Rightarrow>
          bindE (hex_u32 key (i * 3 + 1) (fs ! 1)) (\<lambda>m.
          bindE (hex_u8 key (i * 3 + 2) (fs ! 2)) (\<lambda>l.
          bindE (parse_entries (Suc i) rest) (\<lambda>es.
            Inr (\<lparr>ac_format = f, ac_modes = m, ac_latency = l\<rparr> # es)))))"

definition parse_audio :: "bytes \<Rightarrow> param_error + audio_codec_entry list" where
  "parse_audio value =
     (let trimmed = trim value in
      if eq_ignore_ascii_case trimmed (ascii ''none'') then Inr []
      else parse_entries 0 (split_at 0x2C trimmed))"

fun print_audio :: "audio_codec_entry list \<Rightarrow> bytes" where
  "print_audio [] = ascii ''none''"
| "print_audio (e # es) = print_entry e @ concat (map (\<lambda>x. ascii '', '' @ print_entry x) es)"

section \<open>Ports\<close>

datatype rtp_profile = UdpUnicast | TcpUnicast | TcpInterleaved

fun rtp_profile_str :: "rtp_profile \<Rightarrow> bytes" where
  "rtp_profile_str UdpUnicast = ascii ''RTP/AVP/UDP;unicast''"
| "rtp_profile_str TcpUnicast = ascii ''RTP/AVP/TCP;unicast''"
| "rtp_profile_str TcpInterleaved = ascii ''RTP/AVP/TCP;interleaved''"

record client_rtp_ports =
  rp_profile :: rtp_profile
  rp_port0 :: u16

definition new_ports :: "rtp_profile \<Rightarrow> u16 \<Rightarrow> param_error + client_rtp_ports" where
  "new_ports p port0 =
     (if port0 = 0 then Inl (OutOfRange ''wfd_client_rtp_ports'' ''port0 must be non-zero'')
      else Inr \<lparr>rp_profile = p, rp_port0 = port0\<rparr>)"

definition parse_u16 :: "bytes \<Rightarrow> u16 option" where
  "parse_u16 s = map_option of_nat (parse_decimal (2 ^ 16 - 1) s)"

definition parse_u32 :: "bytes \<Rightarrow> u32 option" where
  "parse_u32 s = map_option of_nat (parse_decimal u32_max s)"

text \<open>The message of the last error has a dash where the code has a long one.\<close>

definition parse_ports :: "bytes \<Rightarrow> param_error + client_rtp_ports" where
  "parse_ports value =
     (let key = ''wfd_client_rtp_ports''; fs = split_fields value;
          is = (\<lambda>p. fs \<noteq> [] \<and> eq_ignore_ascii_case (fs ! 0) (rtp_profile_str p));
          rest = (\<lambda>p.
            if length fs < 3 then Inl (FieldCount key 4 (length fs))
            else case parse_u16 (fs ! 1) of
              None \<Rightarrow> Inl (OutOfRange key ''port0 is not a port number'')
            | Some port0 \<Rightarrow>
                (case parse_u16 (fs ! 2) of
                   None \<Rightarrow> Inl (OutOfRange key ''port1 is not a port number'')
                 | Some port1 \<Rightarrow>
                     if port1 \<noteq> 0
                     then Inl (OutOfRange key ''port1 must be 0 - the WFD profile has no RTCP port here'')
                     else new_ports p port0)) in
      if is UdpUnicast then rest UdpUnicast
      else if is TcpUnicast then rest TcpUnicast
      else if is TcpInterleaved then Inr \<lparr>rp_profile = TcpInterleaved, rp_port0 = 0xFFFF\<rparr>
      else Inl (OutOfRange key ''unknown RTP transport profile''))"

definition print_ports :: "client_rtp_ports \<Rightarrow> bytes" where
  "print_ports r =
     (if rp_profile r = TcpInterleaved then rtp_profile_str TcpInterleaved @ ascii '' mode=play''
      else rtp_profile_str (rp_profile r) @ [0x20] @ decimal (unat (rp_port0 r)) @ ascii '' 0 mode=play'')"

section \<open>Triggers, protection, URLs and connectors\<close>

datatype trigger = TSetup | TPlay | TPause | TTeardown

definition parse_trigger :: "bytes \<Rightarrow> trigger option" where
  "parse_trigger value =
     (let t = to_ascii_uppercase (trim value) in
      if t = ascii ''SETUP'' then Some TSetup
      else if t = ascii ''PLAY'' then Some TPlay
      else if t = ascii ''PAUSE'' then Some TPause
      else if t = ascii ''TEARDOWN'' then Some TTeardown
      else None)"

fun trigger_str :: "trigger \<Rightarrow> bytes" where
  "trigger_str TSetup = ascii ''SETUP''"
| "trigger_str TPlay = ascii ''PLAY''"
| "trigger_str TPause = ascii ''PAUSE''"
| "trigger_str TTeardown = ascii ''TEARDOWN''"

datatype protection = NoProtection | Hdcp2_0 u16 | Hdcp2_1 u16

definition protection_port :: "bytes \<Rightarrow> u16 option" where
  "protection_port rest =
     (case strip_prefix (ascii ''port='') (trim rest) of
        None \<Rightarrow> None
      | Some p \<Rightarrow>
          (case parse_u16 (trim p) of None \<Rightarrow> None | Some v \<Rightarrow> if v \<noteq> 0 then Some v else None))"

definition parse_protection :: "bytes \<Rightarrow> param_error + protection" where
  "parse_protection value =
     (let key = ''wfd_content_protection''; trimmed = trim value in
      if eq_ignore_ascii_case trimmed (ascii ''none'') then Inr NoProtection
      else case split_once 0x20 trimmed of
        None \<Rightarrow> Inl (OutOfRange key ''expected `HDCP2.x port=<n>`'')
      | Some (version, rest) \<Rightarrow>
          (case protection_port rest of
             None \<Rightarrow> Inl (OutOfRange key ''port= is missing or not a port number'')
           | Some port \<Rightarrow>
               if version = ascii ''HDCP2.0'' then Inr (Hdcp2_0 port)
               else if version = ascii ''HDCP2.1'' then Inr (Hdcp2_1 port)
               else Inl (OutOfRange key ''content protection version is not HDCP2.0 or HDCP2.1'')))"

fun print_protection :: "protection \<Rightarrow> bytes" where
  "print_protection NoProtection = ascii ''none''"
| "print_protection (Hdcp2_0 port) = ascii ''HDCP2.0 port='' @ decimal (unat port)"
| "print_protection (Hdcp2_1 port) = ascii ''HDCP2.1 port='' @ decimal (unat port)"

record presentation_urls =
  url0 :: "bytes option"
  url1 :: "bytes option"

definition url_of :: "bytes \<Rightarrow> bytes option" where
  "url_of s = (if \<not> eq_ignore_ascii_case s (ascii ''none'') then Some s else None)"

definition parse_urls :: "bytes \<Rightarrow> param_error + presentation_urls" where
  "parse_urls value =
     (let fs = split_fields value in
      if length fs \<noteq> 2 then Inl (FieldCount ''wfd_presentation_URL'' 2 (length fs))
      else Inr \<lparr>url0 = url_of (fs ! 0), url1 = url_of (fs ! 1)\<rparr>)"

definition print_urls :: "presentation_urls \<Rightarrow> bytes" where
  "print_urls u =
     (case url0 u of Some s \<Rightarrow> s | None \<Rightarrow> ascii ''none'') @ [0x20]
     @ (case url1 u of Some s \<Rightarrow> s | None \<Rightarrow> ascii ''none'')"

datatype connector = Hdmi | DisplayPort | Dvi | Vga | MiracastConnector | OtherConnector u8

fun connector_wire :: "connector \<Rightarrow> u8" where
  "connector_wire Vga = 0"
| "connector_wire Dvi = 4"
| "connector_wire Hdmi = 5"
| "connector_wire MiracastConnector = 7"
| "connector_wire DisplayPort = 10"
| "connector_wire (OtherConnector v) = v"

definition connector_from_wire :: "u8 \<Rightarrow> connector" where
  "connector_from_wire raw =
     (if raw = 0 then Vga else if raw = 4 then Dvi else if raw = 5 then Hdmi
      else if raw = 7 then MiracastConnector else if raw = 10 then DisplayPort else OtherConnector raw)"

definition print_connector :: "connector \<Rightarrow> bytes" where
  "print_connector c = hex 2 (unat (connector_wire c))"

section \<open>Bodies\<close>

record param_line =
  pl_name :: param_name
  pl_value :: "bytes option"

text \<open>\<open>from_utf8\<close> accepts the byte strings that lossy decoding leaves alone.\<close>

definition from_utf8 :: "bytes \<Rightarrow> bytes option" where
  "from_utf8 bs = (if utf8_lossy bs = bs then Some bs else None)"

definition parse_line :: "bytes \<Rightarrow> param_line" where
  "parse_line line =
     (case split_once 0x3A line of
        Some (name, value) \<Rightarrow> \<lparr>pl_name = parse_name name, pl_value = Some (trim value)\<rparr>
      | None \<Rightarrow> \<lparr>pl_name = parse_name line, pl_value = None\<rparr>)"

definition parse_body :: "bytes \<Rightarrow> param_error + param_line list" where
  "parse_body body =
     (case from_utf8 body of
        None \<Rightarrow> Inl NotUtf8
      | Some txt \<Rightarrow> Inr (map parse_line (filter (\<lambda>l. l \<noteq> []) (map trim (text_lines txt)))))"

definition requested_names :: "param_line list \<Rightarrow> param_name list" where
  "requested_names ls = map pl_name ls"

definition body_value :: "param_line list \<Rightarrow> param_name \<Rightarrow> bytes option" where
  "body_value ls n = (case find (\<lambda>l. pl_name l = n) ls of None \<Rightarrow> None | Some l \<Rightarrow> pl_value l)"

definition body_contains :: "param_line list \<Rightarrow> param_name \<Rightarrow> bool" where
  "body_contains ls n = list_ex (\<lambda>l. pl_name l = n) ls"

definition render_line :: "param_name \<times> bytes option \<Rightarrow> bytes" where
  "render_line l =
     (case l of
        (name, Some v) \<Rightarrow> param_str name @ ascii '': '' @ v @ [0x0D, 0x0A]
      | (name, None) \<Rightarrow> param_str name @ [0x0D, 0x0A])"

definition render_body :: "(param_name \<times> bytes option) list \<Rightarrow> bytes" where
  "render_body ls = concat (map render_line ls)"

section \<open>The sink's answer\<close>

record sink_capabilities =
  sc_video :: video_formats
  sc_audio :: "audio_codec_entry list"
  sc_ports :: client_rtp_ports
  sc_protection :: protection
  sc_connector :: connector
  sc_idr_request :: bool
  sc_uibc :: "bytes option"

definition SINK_VIDEO_FORMATS :: bytes where
  "SINK_VIDEO_FORMATS = ascii ''00 00 03 10 0001FFFF 1FFFFFFF 00000FFF 00 0000 0000 00 none none''"

definition SINK_UIBC_CAPABILITY :: bytes where
  "SINK_UIBC_CAPABILITY =
     ascii (''input_category_list=GENERIC, HIDC;generic_cap_list=Mouse, SingleTouch, MultiTouch;''
       @ ''hidc_cap_list=Keyboard/USB, Mouse/USB, MultiTouch/USB;port=none'')"

definition sink_default :: "u16 \<Rightarrow> param_error + sink_capabilities" where
  "sink_default rtp_port =
     bindE (parse_formats SINK_VIDEO_FORMATS) (\<lambda>v.
     bindE (new_ports UdpUnicast rtp_port) (\<lambda>p.
       Inr \<lparr>sc_video = v, sc_audio = audio_default, sc_ports = p, sc_protection = NoProtection,
            sc_connector = Hdmi, sc_idr_request = True, sc_uibc = Some SINK_UIBC_CAPABILITY\<rparr>))"

definition starts_with :: "bytes \<Rightarrow> bytes \<Rightarrow> bool" where
  "starts_with p bs \<longleftrightarrow> take (length p) bs = p"

definition answer_value :: "sink_capabilities \<Rightarrow> param_name \<Rightarrow> bytes option" where
  "answer_value caps name =
     (case name of
        VideoFormats \<Rightarrow> Some (print_formats (sc_video caps))
      | AudioCodecs \<Rightarrow> Some (print_audio (sc_audio caps))
      | ClientRtpPorts \<Rightarrow> Some (print_ports (sc_ports caps))
      | ContentProtection \<Rightarrow> Some (print_protection (sc_protection caps))
      | ConnectorType \<Rightarrow> Some (print_connector (sc_connector caps))
      | IdrRequestCapability \<Rightarrow> Some (decimal (of_bool (sc_idr_request caps)))
      | UibcCapability \<Rightarrow> Some (case sc_uibc caps of Some u \<Rightarrow> u | None \<Rightarrow> ascii ''none'')
      | ThreeDVideoFormats \<Rightarrow> Some (ascii ''none'')
      | CoupledSink \<Rightarrow> Some (ascii ''none'')
      | DisplayEdid \<Rightarrow> Some (ascii ''none'')
      | I2c \<Rightarrow> Some (ascii ''none'')
      | StandbyResumeCapability \<Rightarrow> Some (ascii ''none'')
      | PreferredDisplayMode \<Rightarrow> Some (ascii ''none'')
      | UnknownParam n \<Rightarrow> if starts_with (ascii ''microsoft_'') n then Some (ascii ''none'') else None
      | _ \<Rightarrow> None)"

definition answer_lines :: "sink_capabilities \<Rightarrow> param_name list \<Rightarrow> (param_name \<times> bytes option) list" where
  "answer_lines caps requested =
     List.map_filter (\<lambda>name. map_option (\<lambda>v. (name, Some v)) (answer_value caps name)) requested"

definition respond_to :: "sink_capabilities \<Rightarrow> param_name list \<Rightarrow> bytes" where
  "respond_to caps requested = render_body (answer_lines caps requested)"

section \<open>Text that survives a body\<close>

text \<open>A run of ASCII with no white space at its ends and no line feed: a value as a body carries it.\<close>

definition value_ok :: "bytes \<Rightarrow> bool" where
  "value_ok v \<longleftrightarrow> v \<noteq> [] \<and> solid (hd v) \<and> solid (last v) \<and> list_all (\<lambda>b. b < 0x80 \<and> b \<noteq> 0x0A) v"

lemma value_trim: "value_ok v \<Longrightarrow> trim v = v"
  by (simp add: value_ok_def trim_solid)

lemma value_trim_space: "value_ok v \<Longrightarrow> trim (0x20 # v) = v"
  by (simp add: value_ok_def trim_space_solid)

text \<open>A name that stands for itself when it is read.\<close>

definition name_ok :: "param_name \<Rightarrow> bool" where
  "name_ok n \<longleftrightarrow> value_ok (param_str n) \<and> 0x3A \<notin> set (param_str n) \<and> parse_name (param_str n) = n"

lemma folded_distinct: "distinct (map (\<lambda>n. to_ascii_lowercase (param_str n)) KNOWN)"
  by (simp add: KNOWN_def to_ascii_lowercase_def ascii_def)

lemma find_distinct: "\<lbrakk>distinct (map f xs); x \<in> set xs\<rbrakk> \<Longrightarrow> find (\<lambda>k. f k = f x) xs = Some x"
  by (induction xs) auto

lemma known_text: "n \<in> set KNOWN \<Longrightarrow> value_ok (param_str n) \<and> 0x3A \<notin> set (param_str n)"
  by (auto simp: KNOWN_def value_ok_def ascii_def solid_def)

lemma known_names_ok: "n \<in> set KNOWN \<Longrightarrow> name_ok n"
  using known_text [of n] find_distinct [OF folded_distinct, of n]
  by (simp add: name_ok_def parse_name_def value_trim eq_ignore_ascii_case_def)

lemma name_known: "(\<forall>s. n \<noteq> UnknownParam s) \<Longrightarrow> name_ok n"
  using known_names_ok by (cases n) (simp_all add: KNOWN_def)

definition line_ok :: "param_name \<times> bytes option \<Rightarrow> bool" where
  "line_ok l \<longleftrightarrow> name_ok (fst l) \<and> (case snd l of None \<Rightarrow> True | Some v \<Rightarrow> value_ok v)"

definition bare_line :: "param_name \<times> bytes option \<Rightarrow> bytes" where
  "bare_line l =
     (case l of (name, Some v) \<Rightarrow> param_str name @ 0x3A # 0x20 # v | (name, None) \<Rightarrow> param_str name)"

lemma render_body_crlf: "render_body ls = crlf (map bare_line ls)"
  by (induction ls) (auto simp: render_body_def render_line_def crlf_def bare_line_def ascii_def split: option.splits)

lemma bare_line_value: "line_ok l \<Longrightarrow> value_ok (bare_line l)"
  by (auto simp: line_ok_def bare_line_def name_ok_def value_ok_def split: option.splits prod.splits)

lemma bare_line_parsed: "line_ok l \<Longrightarrow> parse_line (bare_line l) = \<lparr>pl_name = fst l, pl_value = snd l\<rparr>"
  by (auto simp: line_ok_def bare_line_def parse_line_def name_ok_def split_once_append value_trim_space
      split_once_None [THEN iffD2] split: option.splits prod.splits)

lemma crlf_ascii: "list_all value_ok ls \<Longrightarrow> list_all (\<lambda>b. b < 0x80) (crlf ls)"
  by (induction ls) (auto simp: crlf_def value_ok_def list_all_iff)

lemma parse_rendered:
  "list_all line_ok ls \<Longrightarrow>
     parse_body (render_body ls) = Inr (map (\<lambda>l. \<lparr>pl_name = fst l, pl_value = snd l\<rparr>) ls)"
proof -
  assume ok: "list_all line_ok ls"
  let ?bs = "map bare_line ls"
  have v: "list_all value_ok ?bs" using ok bare_line_value by (simp add: list_all_iff)
  have u: "from_utf8 (crlf ?bs) = Some (crlf ?bs)"
    using crlf_ascii [OF v] by (simp add: from_utf8_def utf8_lossy_ascii)
  have t: "text_lines (crlf ?bs) = ?bs"
    using v by (intro text_lines_crlf) (auto simp: list_all_iff value_ok_def)
  have m: "map trim ?bs = ?bs" using v value_trim by (intro map_idI) (auto simp: list_all_iff)
  have f: "filter (\<lambda>l. l \<noteq> []) ?bs = ?bs"
    using v by (intro filter_True) (auto simp: list_all_iff value_ok_def)
  have "map parse_line ?bs = map (\<lambda>l. \<lparr>pl_name = fst l, pl_value = snd l\<rparr>) ls"
    using ok bare_line_parsed by (simp add: list_all_iff)
  then show ?thesis by (simp only: parse_body_def render_body_crlf u t m f option.case)
qed

section \<open>Values that are read back\<close>

lemma format_plain: "plain_field (format_str f)"
  by (cases f) (simp_all add: plain_field_def field_ok_def ascii_def solid_def)

lemma format_read: "parse_format (format_str f) = Some f"
proof -
  have "trim (format_str f) = format_str f"
    using format_plain [of f] by (intro trim_solid) (auto simp: plain_field_def field_ok_def list_all_iff)
  moreover have "\<forall>f\<in>set [Lpcm, Aac, Ac3]. to_ascii_uppercase (format_str f) = format_str f" by code_simp
  then have "to_ascii_uppercase (format_str f) = format_str f" by (cases f) simp_all
  ultimately show ?thesis by (cases f) (simp_all add: parse_format_def ascii_def)
qed

lemma print_entry_spaced:
  "print_entry e = format_str (ac_format e) @ spaced [hex 8 (unat (ac_modes e)), hex 2 (unat (ac_latency e))]"
  by (simp add: print_entry_def spaced_def)

lemma entry_fields_ok: "list_all field_ok [hex 8 m, hex 2 l]"
  using hex_plain [of 8 m] hex_plain [of 2 l] by (simp add: plain_field_def)

lemma entry_fields:
  "split_fields (print_entry e) = [format_str (ac_format e), hex 8 (unat (ac_modes e)), hex 2 (unat (ac_latency e))]"
  using format_plain [of "ac_format e"] entry_fields_ok
  by (simp only: print_entry_spaced fields_spaced plain_field_def)

lemma leading_fields: "split_fields (0x20 # bs) = split_fields bs"
  by (simp add: split_fields_def leading_space)

lemma parse_entry_step:
  "split_fields p = split_fields (print_entry e) \<Longrightarrow>
     parse_entries i (p # ps) = bindE (parse_entries (Suc i) ps) (\<lambda>es. Inr (e # es))"
  by (cases e) (simp add: entry_fields format_read Let_def)

lemma parse_entries_spaced:
  "parse_entries i (map (\<lambda>e. 0x20 # print_entry e) es) = Inr es"
proof (induction es arbitrary: i)
  case (Cons e es)
  then show ?case by (simp only: list.map parse_entry_step [OF leading_fields] bindE_simps)
qed simp

lemma no_comma: "0x2C \<notin> set (print_entry e)"
  using format_plain [of "ac_format e"] hex_plain [of 8 "unat (ac_modes e)"] hex_plain [of 2 "unat (ac_latency e)"]
  by (auto simp: print_entry_def plain_field_def)

lemma split_printed:
  "split_at 0x2C (print_entry e @ concat (map (\<lambda>x. ascii '', '' @ print_entry x) es))
     = print_entry e # map (\<lambda>x. 0x20 # print_entry x) es"
proof -
  have "split_at 0x2C (p @ concat (map (\<lambda>x. ascii '', '' @ print_entry x) es)) = p # map (\<lambda>x. 0x20 # print_entry x) es"
    if "0x2C \<notin> set p" for p
    using that
  proof (induction es arbitrary: p)
    case Nil
    then show ?case by (simp add: split_at_simple)
  next
    case (Cons e es)
    have "0x2C \<notin> set (0x20 # print_entry e)" using no_comma by simp
    then show ?case using Cons.IH Cons.prems by (simp add: ascii_def split_at_append)
  qed
  then show ?thesis using no_comma by blast
qed

lemma entry_ends: "print_entry e \<noteq> []" "solid (hd (print_entry e))" "solid (last (print_entry e))"
  using format_plain [of "ac_format e"] hex_plain [of 2 "unat (ac_latency e)"]
  by (auto simp: print_entry_def plain_field_def field_ok_def list_all_iff hd_append)

lemma audio_ends: "es \<noteq> [] \<Longrightarrow> print_audio es \<noteq> [] \<and> solid (hd (print_audio es)) \<and> solid (last (print_audio es))"
proof (cases es rule: rev_cases)
  case (snoc ys y)
  assume "es \<noteq> []"
  show ?thesis
  proof (cases ys)
    case Nil
    then show ?thesis using snoc entry_ends by simp
  next
    case (Cons z zs)
    then show ?thesis using snoc entry_ends by (auto simp: hd_append)
  qed
qed simp

lemma entry_length: "9 \<le> length (print_entry e)"
  by (cases e) (simp add: print_entry_def)

text \<open>
  Every wfd_audio_codecs value is read back as it was, the empty list as
  none.
\<close>

theorem audio_codecs_roundtrip: "parse_audio (print_audio es) = Inr es"
proof (cases es)
  case Nil
  have "trim (ascii ''none'') = ascii ''none''" by (rule trim_solid) (simp_all add: ascii_def solid_def)
  then show ?thesis by (simp add: Nil parse_audio_def eq_ignore_ascii_case_def)
next
  case (Cons e rest)
  have "9 \<le> length (print_audio es)" using entry_length [of e] by (simp add: Cons)
  then have n: "\<not> eq_ignore_ascii_case (print_audio es) (ascii ''none'')"
    using eq_ignore_length [of "print_audio es" "ascii ''none''"] by (auto simp: ascii_def)
  have t: "trim (print_audio es) = print_audio es"
    using audio_ends [of es] Cons by (intro trim_solid) simp_all
  have "parse_entries 0 (split_at 0x2C (print_audio es)) = Inr es"
    by (simp only: Cons print_audio.simps split_printed parse_entry_step [OF refl] parse_entries_spaced bindE_simps)
  then show ?thesis by (simp add: parse_audio_def t n Let_def)
qed

text \<open>A port as \<open>ClientRtpPorts\<close> keeps it: never zero, and the marker for the interleaved profile.\<close>

definition ports_ok :: "client_rtp_ports \<Rightarrow> bool" where
  "ports_ok r \<longleftrightarrow> rp_port0 r \<noteq> 0 \<and> (if rp_profile r = TcpInterleaved then rp_port0 r = 0xFFFF else True)"

lemma decimal_field: "field_ok (decimal n)"
  by (auto simp: field_ok_def list_all_iff solid_def word_le_nat_alt word_less_nat_alt dest!: decimal_digits)

lemma parse_u16_decimal [simp]: "parse_u16 (decimal (unat (p :: u16))) = Some p"
proof -
  have "unat p < 2 ^ 16" using unsigned_less [of p] by simp
  then have "unat p \<le> 2 ^ 16 - 1" by linarith
  then show ?thesis by (simp add: parse_u16_def)
qed

lemma parse_u16_zero: "parse_u16 (ascii ''0'') = Some 0"
  by (simp add: parse_u16_def parse_decimal_def ascii_def)

lemma ports_fields:
  "split_fields (print_ports r) =
     (if rp_profile r = TcpInterleaved then [rtp_profile_str TcpInterleaved, ascii ''mode=play'']
      else [rtp_profile_str (rp_profile r), decimal (unat (rp_port0 r)), ascii ''0'', ascii ''mode=play''])"
proof -
  have p: "field_ok (rtp_profile_str p)" for p by (cases p) (simp_all add: field_ok_def ascii_def solid_def)
  have w: "field_ok (ascii ''0'')" "field_ok (ascii ''mode=play'')" by (simp_all add: field_ok_def ascii_def solid_def)
  have s: "print_ports r = rtp_profile_str (rp_profile r) @
      spaced (if rp_profile r = TcpInterleaved then [ascii ''mode=play'']
              else [decimal (unat (rp_port0 r)), ascii ''0'', ascii ''mode=play''])"
    by (simp add: print_ports_def spaced_def ascii_def)
  have "split_fields (print_ports r) = rtp_profile_str (rp_profile r) #
      (if rp_profile r = TcpInterleaved then [ascii ''mode=play'']
              else [decimal (unat (rp_port0 r)), ascii ''0'', ascii ''mode=play''])"
    unfolding s by (rule fields_spaced) (simp_all add: p w decimal_field)
  then show ?thesis by simp
qed

text \<open>
  Every wfd_client_rtp_ports value that can be constructed is read back,
  with the RTCP port zero the format demands.
\<close>

theorem client_ports_roundtrip: "ports_ok r \<Longrightarrow> parse_ports (print_ports r) = Inr r"
proof -
  assume ok: "ports_ok r"
  have eq: "\<forall>p\<in>set [UdpUnicast, TcpUnicast, TcpInterleaved]. \<forall>q\<in>set [UdpUnicast, TcpUnicast, TcpInterleaved].
      eq_ignore_ascii_case (rtp_profile_str p) (rtp_profile_str q) = (p = q)"
    by code_simp
  have e: "eq_ignore_ascii_case (rtp_profile_str p) (rtp_profile_str q) = (p = q)" for p q
  proof -
    have "p \<in> set [UdpUnicast, TcpUnicast, TcpInterleaved]" "q \<in> set [UdpUnicast, TcpUnicast, TcpInterleaved]"
      by (cases p; simp) (cases q; simp)
    then show ?thesis using eq by blast
  qed
  show ?thesis
    using ok
    by (cases r; cases "rp_profile r")
      (simp_all add: parse_ports_def ports_fields e parse_u16_zero ports_ok_def new_ports_def Let_def
        del: rtp_profile_str.simps)
qed

section \<open>The smaller values\<close>

lemma trigger_roundtrip: "parse_trigger (trigger_str t) = Some t"
proof -
  have "trim (trigger_str t) = trigger_str t"
    by (intro trim_solid) (cases t; simp add: ascii_def solid_def)+
  moreover have "to_ascii_uppercase (trigger_str t) = trigger_str t"
    by (cases t) (simp_all add: to_ascii_uppercase_def ascii_def)
  ultimately show ?thesis by (cases t) (simp_all add: parse_trigger_def ascii_def)
qed

fun protection_ok :: "protection \<Rightarrow> bool" where
  "protection_ok NoProtection = True"
| "protection_ok (Hdcp2_0 p) = (p \<noteq> 0)"
| "protection_ok (Hdcp2_1 p) = (p \<noteq> 0)"

lemma decimal_ends: "solid (hd (decimal n))" "solid (last (decimal n))" "0x20 \<notin> set (decimal n)"
  using decimal_field [of n] by (auto simp: field_ok_def list_all_iff solid_def)

lemma protection_port_read: "port \<noteq> 0 \<Longrightarrow> protection_port (ascii ''port='' @ decimal (unat port)) = Some port"
proof -
  assume "port \<noteq> 0"
  moreover have "trim (ascii ''port='' @ decimal (unat port)) = ascii ''port='' @ decimal (unat port)"
    using decimal_ends by (intro trim_solid) (simp_all add: ascii_def solid_def)
  ultimately show ?thesis by (simp add: protection_port_def strip_prefix_def)
qed

lemma hdcp_text:
  assumes "v \<in> {''HDCP2.0'', ''HDCP2.1''}" "s = ascii (v @ '' port='') @ decimal (unat port)"
  shows "trim s = s" "\<not> eq_ignore_ascii_case s (ascii ''none'')"
    "split_once 0x20 s = Some (ascii v, ascii ''port='' @ decimal (unat port))"
proof -
  have a: "ascii (v @ w) = ascii v @ ascii w" for w by (simp add: ascii_def)
  show "trim s = s" using assms decimal_ends by (intro trim_solid) (auto simp: ascii_def solid_def)
  show "\<not> eq_ignore_ascii_case s (ascii ''none'')"
    using assms eq_ignore_length [of s "ascii ''none''"] by (auto simp: ascii_def)
  have "0x20 \<notin> set (ascii v)" using assms(1) by (auto simp: ascii_def)
  then show "split_once 0x20 s = Some (ascii v, ascii ''port='' @ decimal (unat port))"
    using split_once_append [of "0x20" "ascii v" "ascii ''port='' @ decimal (unat port)"] assms(2)
    by (simp add: a ascii_def)
qed

text \<open>
  Every wfd_content_protection value with a port is read back.
\<close>

theorem protection_roundtrip: "protection_ok p \<Longrightarrow> parse_protection (print_protection p) = Inr p"
proof (cases p)
  case NoProtection
  have "trim (ascii ''none'') = ascii ''none''" by (rule trim_solid) (simp_all add: ascii_def solid_def)
  then show ?thesis by (simp add: NoProtection parse_protection_def eq_ignore_ascii_case_def)
next
  case (Hdcp2_0 port)
  assume "protection_ok p"
  moreover have "print_protection p = ascii (''HDCP2.0'' @ '' port='') @ decimal (unat port)" by (simp add: Hdcp2_0)
  ultimately show ?thesis
    using hdcp_text [of "''HDCP2.0''" "print_protection p" port] Hdcp2_0 protection_port_read [of port]
    by (simp only: parse_protection_def Let_def if_False option.case prod.case protection_ok.simps simp_thms HOL.if_True
          insert_iff)
next
  case (Hdcp2_1 port)
  assume "protection_ok p"
  moreover have "print_protection p = ascii (''HDCP2.1'' @ '' port='') @ decimal (unat port)" by (simp add: Hdcp2_1)
  ultimately show ?thesis
    using hdcp_text [of "''HDCP2.1''" "print_protection p" port] Hdcp2_1 protection_port_read [of port]
    by (simp only: parse_protection_def Let_def if_False option.case prod.case protection_ok.simps simp_thms HOL.if_True
          insert_iff)
       (simp add: ascii_def)
qed

lemma connector_roundtrip: "connector_from_wire (connector_wire (connector_from_wire b)) = connector_from_wire b"
  by (simp add: connector_from_wire_def)

section \<open>The answer to the capability query\<close>

lemma value_ok_fields:
  "\<lbrakk>field_ok w; list_all field_ok ws\<rbrakk> \<Longrightarrow> value_ok (w @ spaced ws)"
proof -
  assume ok: "field_ok w" "list_all field_ok ws"
  have "b < 0x80 \<and> b \<noteq> 0x0A" if "solid b" for b using that by (auto simp: solid_def)
  moreover have "b = 0x20 \<or> solid b" if "b \<in> set (w @ spaced ws)" for b
    using that ok by (auto simp: spaced_def field_ok_def list_all_iff split: if_splits)
  ultimately have "list_all (\<lambda>b. b < 0x80 \<and> b \<noteq> 0x0A) (w @ spaced ws)" by (fastforce simp: list_all_iff)
  moreover have "solid (hd (w @ spaced ws))" using ok(1) by (cases w) (simp_all add: field_ok_def)
  moreover have "solid (last (w @ spaced ws))"
    using ok last_spaced [of ws] by (cases "ws = []") (auto simp: spaced_def field_ok_def list_all_iff last_append)
  ultimately show ?thesis using ok(1) by (simp add: value_ok_def field_ok_def)
qed

lemma none_value: "value_ok (ascii ''none'')"
  by (simp add: value_ok_def ascii_def solid_def)

lemma formats_value: "value_ok (print_formats v)"
proof (cases "codecs v = []")
  case False
  show ?thesis unfolding print_formats_fields [OF False]
    using hex_plain [of 2] by (intro value_ok_fields format_fields_ok) (simp add: plain_field_def)
qed (simp add: print_formats_def none_value)

lemma decimal_value: "value_ok (decimal n)"
  using decimal_field [of n] value_ok_fields [of "decimal n" "[]"] by (simp add: spaced_def)

lemma ports_value: "value_ok (print_ports r)"
proof -
  have p: "field_ok (rtp_profile_str p)" for p by (cases p) (simp_all add: field_ok_def ascii_def solid_def)
  have w: "field_ok (ascii ''0'')" "field_ok (ascii ''mode=play'')" by (simp_all add: field_ok_def ascii_def solid_def)
  have "print_ports r = rtp_profile_str (rp_profile r) @
      spaced (if rp_profile r = TcpInterleaved then [ascii ''mode=play'']
              else [decimal (unat (rp_port0 r)), ascii ''0'', ascii ''mode=play''])"
    by (simp add: print_ports_def spaced_def ascii_def)
  then show ?thesis by (simp add: value_ok_fields p w decimal_field)
qed

lemma protection_value: "value_ok (print_protection p)"
proof (cases p)
  case NoProtection
  then show ?thesis by (simp add: none_value)
next
  case (Hdcp2_0 port)
  have f: "field_ok (ascii ''port='' @ decimal (unat port))" "field_ok (ascii ''HDCP2.0'')"
    using decimal_field [of "unat port"] by (simp_all add: field_ok_def ascii_def solid_def)
  show ?thesis using value_ok_fields [of "ascii ''HDCP2.0''" "[ascii ''port='' @ decimal (unat port)]"] f
    by (simp add: Hdcp2_0 spaced_def ascii_def)
next
  case (Hdcp2_1 port)
  have f: "field_ok (ascii ''port='' @ decimal (unat port))" "field_ok (ascii ''HDCP2.1'')"
    using decimal_field [of "unat port"] by (simp_all add: field_ok_def ascii_def solid_def)
  show ?thesis using value_ok_fields [of "ascii ''HDCP2.1''" "[ascii ''port='' @ decimal (unat port)]"] f
    by (simp add: Hdcp2_1 spaced_def ascii_def)
qed

lemma audio_bytes: "b \<in> set (print_audio es) \<Longrightarrow> b < 0x80 \<and> b \<noteq> 0x0A"
proof -
  have e: "b = 0x20 \<or> solid b" if "b \<in> set (print_entry e)" for b e
    using that format_plain [of "ac_format e"] hex_bytes [of b]
    by (auto simp: print_entry_def plain_field_def field_ok_def list_all_iff)
  assume "b \<in> set (print_audio es)"
  then have "b = 0x20 \<or> b = 0x2C \<or> solid b"
    using e by (cases es) (auto simp: ascii_def solid_def split: if_splits)
  then show ?thesis by (auto simp: solid_def)
qed

lemma audio_value: "value_ok (print_audio es)"
proof (cases "es = []")
  case False
  then show ?thesis using audio_ends [OF False] audio_bytes by (simp add: value_ok_def list_all_iff)
qed (simp add: none_value)

lemma connector_value: "value_ok (print_connector c)"
  using hex_plain [of 2] value_ok_fields [of _ "[]"] by (simp add: print_connector_def plain_field_def spaced_def)

definition caps_ok :: "sink_capabilities \<Rightarrow> bool" where
  "caps_ok caps \<longleftrightarrow> (case sc_uibc caps of None \<Rightarrow> True | Some u \<Rightarrow> value_ok u)"

lemma answers_ok: "\<lbrakk>caps_ok caps; answer_value caps n = Some v\<rbrakk> \<Longrightarrow> value_ok v"
  by (cases n)
    (auto simp: answer_value_def caps_ok_def formats_value audio_value ports_value protection_value connector_value
       decimal_value none_value split: if_splits option.splits)

lemma answer_lines_ok: "\<lbrakk>caps_ok caps; list_all name_ok req\<rbrakk> \<Longrightarrow> list_all line_ok (answer_lines caps req)"
  by (induction req) (auto simp: answer_lines_def map_filter_simps line_ok_def answers_ok split: option.splits)

lemma answer_names:
  "map fst (answer_lines caps req) = filter (\<lambda>n. answer_value caps n \<noteq> None) req"
  by (induction req) (auto simp: answer_lines_def map_filter_simps split: option.splits)

lemma answer_lookup:
  "body_value (map (\<lambda>l. \<lparr>pl_name = fst l, pl_value = snd l\<rparr>) (answer_lines caps req)) n
     = (if n \<in> set req then answer_value caps n else None)"
  by (induction req) (auto simp: answer_lines_def map_filter_simps body_value_def split: option.splits)

text \<open>
  The source reads from the answer exactly the parameters it asked for that the sink can answer,
  in the order it asked, each with the value the sink holds.
\<close>

text \<open>
  The source reads from the sink's answer to the capability query exactly the
  parameters it asked for that the sink can answer, in the order it asked, each with the value
  the sink holds, and nothing else.
\<close>

theorem capability_answer:
  "\<lbrakk>caps_ok caps; list_all name_ok req\<rbrakk> \<Longrightarrow>
     \<exists>ls. parse_body (respond_to caps req) = Inr ls
       \<and> requested_names ls = filter (\<lambda>n. answer_value caps n \<noteq> None) req
       \<and> (\<forall>n. body_value ls n = (if n \<in> set req then answer_value caps n else None))"
  using parse_rendered [OF answer_lines_ok, of caps req] answer_names [of caps req] answer_lookup [of caps req]
  by (auto simp: respond_to_def requested_names_def comp_def)

section \<open>The sink's own advertisement\<close>

definition default_codec :: h264_codec where
  "default_codec =
     \<lparr>profiles = profiles_both, levels = 0x10, cea = mask_from_wire Cea 0x1FFFF,
      vesa = mask_from_wire Vesa 0x1FFFFFFF, hh = mask_from_wire Hh 0xFFF, latency_units = 0,
      min_slice_size = 0, slice_enc_params = 0, frame_rate = frc_from_bits 0, max_hres = None, max_vres = None\<rparr>"

definition default_formats :: video_formats where
  "default_formats = \<lparr>native = None, preferred_display_mode_supported = False, codecs = [default_codec]\<rparr>"

lemma hex_eight:
  "hex 8 n =
     [hex_digit (n div 16 div 16 div 16 div 16 div 16 div 16 div 16 mod 16),
      hex_digit (n div 16 div 16 div 16 div 16 div 16 div 16 mod 16),
      hex_digit (n div 16 div 16 div 16 div 16 div 16 mod 16),
      hex_digit (n div 16 div 16 div 16 div 16 mod 16), hex_digit (n div 16 div 16 div 16 mod 16),
      hex_digit (n div 16 div 16 mod 16), hex_digit (n div 16 mod 16), hex_digit (n mod 16)]"
proof -
  have e: "(8 :: nat) = Suc (Suc (Suc (Suc (Suc (Suc (Suc (Suc 0)))))))" by simp
  show ?thesis by (simp only: e hex.simps append_Nil append_Cons)
qed

lemma hex_two: "hex 2 n = [hex_digit (n div 16 mod 16), hex_digit (n mod 16)]"
proof -
  have e: "(2 :: nat) = Suc (Suc 0)" by simp
  show ?thesis by (simp only: e hex.simps append_Nil append_Cons)
qed

lemma hex_four:
  "hex 4 n = [hex_digit (n div 16 div 16 div 16 mod 16), hex_digit (n div 16 div 16 mod 16), hex_digit (n div 16 mod 16),
     hex_digit (n mod 16)]"
proof -
  have e: "(4 :: nat) = Suc (Suc (Suc (Suc 0)))" by simp
  show ?thesis by (simp only: e hex.simps append_Nil append_Cons)
qed

lemma default_texts:
  "hex 2 0 = ascii ''00''" "hex 2 3 = ascii ''03''" "hex 2 16 = ascii ''10''" "hex 4 0 = ascii ''0000''"
  by (simp_all add: hex_two hex_four hex_digit_def ascii_def)

lemma default_masks:
  "hex 8 131071 = ascii ''0001FFFF''" "hex 8 536870911 = ascii ''1FFFFFFF''" "hex 8 4095 = ascii ''00000FFF''"
  by (simp_all add: hex_eight hex_digit_def ascii_def)

lemma default_printed: "print_formats default_formats = SINK_VIDEO_FORMATS"
  by (simp add: print_formats_def default_formats_def print_codec_def codec_fields_def default_codec_def
      SINK_VIDEO_FORMATS_def spaced_def hex_or_none_def profiles_bits_def profiles_both_def frc_bits_def frc_from_bits_def
      mask_from_wire_def default_texts default_masks) (simp add: ascii_def)

lemma default_ok: "codec_ok default_codec" "formats_ok default_formats"
  by (simp_all add: formats_ok_def default_formats_def codec_ok_def default_codec_def mask_from_wire_def frc_from_bits_def)

lemma default_parsed: "parse_formats SINK_VIDEO_FORMATS = Inr default_formats"
  using video_formats_roundtrip [OF default_ok(2)] by (simp add: default_printed)

definition windows_query :: "param_name list" where
  "windows_query = [VideoFormats, AudioCodecs, Route, ClientRtpPorts, UibcCapability]"

theorem capability_answer_witness:
  "\<exists>ls. parse_body (respond_to
       \<lparr>sc_video = default_formats, sc_audio = audio_default, sc_ports = \<lparr>rp_profile = UdpUnicast, rp_port0 = 19000\<rparr>,
        sc_protection = NoProtection, sc_connector = Hdmi, sc_idr_request = True, sc_uibc = None\<rparr> windows_query) = Inr ls
     \<and> requested_names ls = [VideoFormats, AudioCodecs, ClientRtpPorts, UibcCapability]"
proof -
  let ?caps = "\<lparr>sc_video = default_formats, sc_audio = audio_default, sc_ports = \<lparr>rp_profile = UdpUnicast, rp_port0 = 19000\<rparr>,
        sc_protection = NoProtection, sc_connector = Hdmi, sc_idr_request = True, sc_uibc = None\<rparr>"
  have "list_all name_ok windows_query" by (simp add: windows_query_def name_known)
  moreover have "filter (\<lambda>n. answer_value ?caps n \<noteq> None) windows_query = [VideoFormats, AudioCodecs, ClientRtpPorts, UibcCapability]"
    by (simp add: windows_query_def answer_value_def)
  ultimately show ?thesis using capability_answer [of ?caps windows_query] by (auto simp: caps_ok_def)
qed

end
