(* ===== verification/Wfd_Session.thy ===== *)
theory Wfd_Session
  imports Wfd_Params
begin

text \<open>
  The RTSP exchange of a Miracast session, \<^verbatim>\<open>crates/proto-miracast/src/session.rs\<close>: the state
  machine that answers the source's requests, sends the sink's own, and correlates the responses.
\<close>

section \<open>Messages\<close>

type_synonym headers = "(bytes \<times> bytes) list"

record wfd_request =
  rq_method :: bytes
  rq_headers :: headers
  rq_body :: bytes

record wfd_response =
  rs_status :: u16
  rs_headers :: headers

definition header :: "headers \<Rightarrow> bytes \<Rightarrow> bytes option" where
  "header hs name = map_option (\<lambda>(_, v). trim v) (find (\<lambda>(k, _). eq_ignore_ascii_case k name) hs)"

record outgoing_response =
  or_status :: u16
  or_cseq :: u32
  or_headers :: headers
  or_body :: bytes

record outgoing_request =
  oq_method :: bytes
  oq_uri :: bytes
  oq_cseq :: u32
  oq_headers :: headers
  oq_body :: bytes

definition WFD_FEATURE :: bytes where "WFD_FEATURE = ascii ''org.wfa.wfd1.0''"
definition SINK_PUBLIC :: bytes where "SINK_PUBLIC = ascii ''org.wfa.wfd1.0, SET_PARAMETER, GET_PARAMETER''"
definition CONTROL_URI :: bytes where "CONTROL_URI = ascii ''rtsp://localhost/wfd1.0''"

record negotiated_config =
  nc_video :: negotiated_video
  nc_audio :: "audio_codec_entry option"
  nc_url :: bytes
  nc_rtp_port :: u16
  nc_uibc_port :: "u16 option"

text \<open>The bit of the one audio mode; 32 when there is none.\<close>

definition trailing_zeros :: "u32 \<Rightarrow> nat" where
  "trailing_zeros w = length (takeWhile (\<lambda>i. w AND push_bit i 1 = 0) [0..<32])"

definition nc_audio_format :: "negotiated_config \<Rightarrow> (u32 \<times> u16) option" where
  "nc_audio_format c =
     (case nc_audio c of None \<Rightarrow> None | Some e \<Rightarrow> audio_mode (ac_format e) (of_nat (trailing_zeros (ac_modes e))))"

datatype sink_output =
    Respond outgoing_response
  | Send outgoing_request
  | MediaStarted negotiated_config
  | UibcPort u16
  | UibcRevoked
  | MediaStopped
  | Ended

datatype pending_request = POptions | PSetup | PPlay | PPause | PTeardown | PIdrRequest

fun pending_str :: "pending_request \<Rightarrow> bytes" where
  "pending_str POptions = ascii ''Options''"
| "pending_str PSetup = ascii ''Setup''"
| "pending_str PPlay = ascii ''Play''"
| "pending_str PPause = ascii ''Pause''"
| "pending_str PTeardown = ascii ''Teardown''"
| "pending_str PIdrRequest = ascii ''IdrRequest''"

section \<open>States\<close>

datatype session_state =
    AwaitingM1
  | Handshaking
  | AwaitingConfiguration
  | Configured negotiated_config
  | SettingUp negotiated_config
  | Ready negotiated_config
  | Playing negotiated_config
  | Paused negotiated_config
  | Closed

fun state_name :: "session_state \<Rightarrow> string" where
  "state_name AwaitingM1 = ''awaiting-m1''"
| "state_name Handshaking = ''handshaking''"
| "state_name AwaitingConfiguration = ''awaiting-configuration''"
| "state_name (Configured _) = ''configured''"
| "state_name (SettingUp _) = ''setting-up''"
| "state_name (Ready _) = ''ready''"
| "state_name (Playing _) = ''playing''"
| "state_name (Paused _) = ''paused''"
| "state_name Closed = ''closed''"

fun state_config :: "session_state \<Rightarrow> negotiated_config option" where
  "state_config (Configured c) = Some c"
| "state_config (SettingUp c) = Some c"
| "state_config (Ready c) = Some c"
| "state_config (Playing c) = Some c"
| "state_config (Paused c) = Some c"
| "state_config _ = None"

text \<open>
  The errors of the session. The text of \<open>UnadvertisedFormat\<close> is a rendering of the mode, the
  profile and the level, which are kept as they are.
\<close>

datatype miracast_error =
    ParamError param_error
  | UnexpectedMessage bytes string
  | UnadvertisedFormat video_mode profile u8
  | NoCommonVideoFormat
  | ContentProtectionRefused bytes

record wfd_session =
  ws_caps :: sink_capabilities
  ws_state :: session_state
  ws_next_cseq :: u32
  ws_pending :: "(u32, pending_request) tbl"
  ws_session_id :: "bytes option"
  ws_timeout :: "u32 option"
  ws_server :: "bytes option"
  ws_methods :: "bytes option"
  ws_last_idr :: "nat option"

definition new_session :: "sink_capabilities \<Rightarrow> wfd_session" where
  "new_session caps =
     \<lparr>ws_caps = caps, ws_state = AwaitingM1, ws_next_cseq = 1, ws_pending = [], ws_session_id = None,
      ws_timeout = None, ws_server = None, ws_methods = None, ws_last_idr = None\<rparr>"

definition source_is_windows :: "wfd_session \<Rightarrow> bool" where
  "source_is_windows s \<longleftrightarrow>
     (case ws_server s of None \<Rightarrow> False | Some v \<Rightarrow> starts_with (ascii ''MSMiracastSource'') v)"

section \<open>Sending\<close>

definition take_cseq :: "wfd_session \<Rightarrow> u32 \<times> wfd_session" where
  "take_cseq s = (ws_next_cseq s, s\<lparr>ws_next_cseq := sat_add (ws_next_cseq s) 1\<rparr>)"

definition new_request :: "string \<Rightarrow> bytes \<Rightarrow> pending_request \<Rightarrow> wfd_session \<Rightarrow> outgoing_request \<times> wfd_session" where
  "new_request m uri p s =
     (let (cseq, s) = take_cseq s in
      (\<lparr>oq_method = ascii m, oq_uri = uri, oq_cseq = cseq,
        oq_headers = (case ws_session_id s of Some sid \<Rightarrow> [(ascii ''Session'', sid)] | None \<Rightarrow> []), oq_body = []\<rparr>,
       s\<lparr>ws_pending := tbl_put cseq p (ws_pending s)\<rparr>))"

definition ok_response :: "u32 \<Rightarrow> outgoing_response" where
  "ok_response cseq = \<lparr>or_status = 200, or_cseq = cseq, or_headers = [], or_body = []\<rparr>"

section \<open>Requests of the source\<close>

definition on_options :: "u32 \<Rightarrow> wfd_session \<Rightarrow> sink_output list \<times> wfd_session" where
  "on_options cseq s =
     (let m1 = Respond \<lparr>or_status = 200, or_cseq = cseq, or_headers = [(ascii ''Public'', SINK_PUBLIC)], or_body = []\<rparr> in
      if ws_state s = AwaitingM1
      then let (m2, s) = new_request ''OPTIONS'' (ascii ''*'') POptions s in
           ([m1, Send (m2\<lparr>oq_headers := oq_headers m2 @ [(ascii ''Require'', WFD_FEATURE)]\<rparr>)],
            s\<lparr>ws_state := Handshaking\<rparr>)
      else ([m1], s))"

definition on_get_parameter :: "u32 \<Rightarrow> bytes \<Rightarrow> (wfd_session, miracast_error, sink_output list) meth" where
  "on_get_parameter cseq body s =
     (if list_all ascii_whitespace body then (Inr [Respond (ok_response cseq)], s)
      else case parse_body body of
        Inl e \<Rightarrow> (Inl (ParamError e), s)
      | Inr ls \<Rightarrow>
          (Inr [Respond \<lparr>or_status = 200, or_cseq = cseq,
                  or_headers = [(ascii ''Content-Type'', ascii ''text/parameters'')],
                  or_body = respond_to (ws_caps s) (requested_names ls)\<rparr>],
           if ws_state s = Handshaking then s\<lparr>ws_state := AwaitingConfiguration\<rparr> else s))"

definition parse_uibc_port :: "bytes \<Rightarrow> u16 option" where
  "parse_uibc_port value =
     (case List.map_filter (\<lambda>f. strip_prefix (ascii ''port='') (trim f)) (split_at 0x3B value) of
        [] \<Rightarrow> None
      | p # _ \<Rightarrow> (case parse_u16 (trim p) of None \<Rightarrow> None | Some v \<Rightarrow> if v \<noteq> 0 then Some v else None))"

definition param :: "param_error + 'a \<Rightarrow> miracast_error + 'a" where
  "param r = (case r of Inl e \<Rightarrow> Inl (ParamError e) | Inr a \<Rightarrow> Inr a)"

definition require :: "miracast_error \<Rightarrow> 'a option \<Rightarrow> miracast_error + 'a" where
  "require e r = (case r of None \<Rightarrow> Inl e | Some a \<Rightarrow> Inr a)"

definition check_protection :: "param_line list \<Rightarrow> miracast_error + unit" where
  "check_protection m4 =
     (case body_value m4 ContentProtection of
        None \<Rightarrow> Inr ()
      | Some v \<Rightarrow> bindE (param (parse_protection v)) (\<lambda>cp.
          if cp = NoProtection then Inr () else Inl (ContentProtectionRefused (print_protection cp))))"

definition chosen_index :: "h264_codec \<Rightarrow> resolution_index option" where
  "chosen_index c =
     map_option fst (max_by_key (\<lambda>p. score (snd p)) (concat (map (\<lambda>t. mask_modes (codec_mask c t)) all_tables)))"

definition chosen_video :: "sink_capabilities \<Rightarrow> param_line list \<Rightarrow> miracast_error + negotiated_video" where
  "chosen_video caps m4 =
     bindE (param (parse_formats (case body_value m4 VideoFormats of Some v \<Rightarrow> v | None \<Rightarrow> ascii ''none''))) (\<lambda>chosen.
     bindE (require NoCommonVideoFormat (case codecs chosen of [] \<Rightarrow> None | c # _ \<Rightarrow> Some c)) (\<lambda>c.
     bindE (require NoCommonVideoFormat (chosen_index c)) (\<lambda>ix.
     bindE (require NoCommonVideoFormat (lowest_profile (profiles c))) (\<lambda>p.
     bindE (require NoCommonVideoFormat (lowest_level (levels c))) (\<lambda>l.
       let v = \<lparr>nv_index = ix, nv_profile = p, nv_level = l\<rparr> in
       if sink_can_decode v (sc_video caps) then Inr v else Inl (UnadvertisedFormat (index_mode ix) p l))))))"

definition negotiate :: "wfd_session \<Rightarrow> param_line list \<Rightarrow> u16 option \<Rightarrow> miracast_error + negotiated_config" where
  "negotiate s m4 uibc =
     bindE (param (parse_urls (case body_value m4 PresentationUrl of Some v \<Rightarrow> v | None \<Rightarrow> []))) (\<lambda>urls.
     bindE (require (UnexpectedMessage (ascii ''M4 with wfd_presentation_URL: none'') (state_name (ws_state s)))
              (url0 urls)) (\<lambda>url.
     bindE (check_protection m4) (\<lambda>_.
     bindE (chosen_video (ws_caps s) m4) (\<lambda>v.
     bindE (case body_value m4 AudioCodecs of
              None \<Rightarrow> Inr None
            | Some a \<Rightarrow> bindE (param (parse_audio a)) (\<lambda>es. Inr (find supports_anything es))) (\<lambda>audio.
     bindE (case body_value m4 ClientRtpPorts of
              None \<Rightarrow> Inr (rp_port0 (sc_ports (ws_caps s)))
            | Some p \<Rightarrow> bindE (param (parse_ports p)) (\<lambda>r. Inr (rp_port0 r))) (\<lambda>port.
       Inr \<lparr>nc_video = v, nc_audio = audio, nc_url = url, nc_rtp_port = port, nc_uibc_port = uibc\<rparr>))))))"

definition on_trigger :: "u32 \<Rightarrow> trigger \<Rightarrow> (wfd_session, miracast_error, sink_output list) meth" where
  "on_trigger cseq t s =
     (case state_config (ws_state s) of
        None \<Rightarrow> (Inl (UnexpectedMessage (ascii ''wfd_trigger_method: '' @ trigger_str t @ ascii '' before M4'')
                       (state_name (ws_state s))), s)
      | Some c \<Rightarrow>
          (case t of
             TSetup \<Rightarrow>
               (let (m6, s) = new_request ''SETUP'' (nc_url c) PSetup s;
                    m6 = m6\<lparr>oq_headers := oq_headers m6 @
                           [(ascii ''Transport'', ascii ''RTP/AVP/UDP;unicast;client_port='' @ decimal (unat (nc_rtp_port c)))]\<rparr> in
                (Inr [Respond (ok_response cseq), Send m6],
                 s\<lparr>ws_state := (case ws_state s of Configured c \<Rightarrow> SettingUp c | _ \<Rightarrow> Closed)\<rparr>))
           | TPlay \<Rightarrow>
               (let (m, s) = new_request ''PLAY'' (nc_url c) PPlay s in (Inr [Respond (ok_response cseq), Send m], s))
           | TPause \<Rightarrow>
               (let (m, s) = new_request ''PAUSE'' (nc_url c) PPause s in (Inr [Respond (ok_response cseq), Send m], s))
           | TTeardown \<Rightarrow>
               (let (m, s) = new_request ''TEARDOWN'' (nc_url c) PTeardown s in
                (Inr [Respond (ok_response cseq), Send m], s))))"

definition on_set_parameter :: "u32 \<Rightarrow> bytes \<Rightarrow> (wfd_session, miracast_error, sink_output list) meth" where
  "on_set_parameter cseq body s =
     (case parse_body body of
        Inl e \<Rightarrow> (Inl (ParamError e), s)
      | Inr parsed \<Rightarrow>
          (case body_value parsed TriggerMethod of
             Some v \<Rightarrow>
               (case parse_trigger v of
                  None \<Rightarrow> (Inl (UnexpectedMessage (ascii ''wfd_trigger_method: '' @ v) (state_name (ws_state s))), s)
                | Some t \<Rightarrow> on_trigger cseq t s)
           | None \<Rightarrow>
               (let uibc = (case body_value parsed UibcCapability of None \<Rightarrow> None | Some v \<Rightarrow> parse_uibc_port v) in
                if body_contains parsed PresentationUrl
                then (case negotiate s parsed uibc of
                        Inl e \<Rightarrow> (Inl e, s)
                      | Inr c \<Rightarrow> (Inr [Respond (ok_response cseq)], s\<lparr>ws_state := Configured c\<rparr>))
                else case uibc of
                  Some port \<Rightarrow> (Inr [Respond (ok_response cseq), UibcPort port], s)
                | None \<Rightarrow>
                    if (case body_value parsed UibcSetting of None \<Rightarrow> False
                        | Some v \<Rightarrow> eq_ignore_ascii_case (trim v) (ascii ''disable''))
                    then (Inr [Respond (ok_response cseq), UibcRevoked], s)
                    else (Inr [Respond (ok_response cseq)], s))))"

definition request_cseq :: "headers \<Rightarrow> u32 option" where
  "request_cseq hs = (case header hs (ascii ''CSeq'') of None \<Rightarrow> None | Some v \<Rightarrow> parse_u32 v)"

definition on_request :: "wfd_request \<Rightarrow> (wfd_session, miracast_error, sink_output list) meth" where
  "on_request req s =
     (case request_cseq (rq_headers req) of
        None \<Rightarrow> (Inl (UnexpectedMessage (rq_method req @ ascii '' without CSeq'') (state_name (ws_state s))), s)
      | Some cseq \<Rightarrow>
          let m = to_ascii_uppercase (rq_method req) in
          if m = ascii ''OPTIONS'' then (let (out, s) = on_options cseq s in (Inr out, s))
          else if m = ascii ''GET_PARAMETER'' then on_get_parameter cseq (rq_body req) s
          else if m = ascii ''SET_PARAMETER'' then on_set_parameter cseq (rq_body req) s
          else if m = ascii ''TEARDOWN''
          then (Inr [Respond (ok_response cseq), Ended], s\<lparr>ws_state := Closed\<rparr>)
          else (Inl (UnexpectedMessage m (state_name (ws_state s))), s))"

section \<open>Responses of the source\<close>

definition session_header :: "bytes \<Rightarrow> bytes \<times> u32 option" where
  "session_header raw =
     (let (sid, params) = (case split_once 0x3B raw of None \<Rightarrow> (raw, []) | Some p \<Rightarrow> p) in
      (trim sid,
       case List.map_filter (\<lambda>p. strip_prefix (ascii ''timeout='') (trim p)) (split_at 0x3B params) of
         [] \<Rightarrow> None
       | t # _ \<Rightarrow> parse_u32 (trim t)))"

definition on_setup_response :: "wfd_response \<Rightarrow> wfd_session \<Rightarrow> sink_output list \<times> wfd_session" where
  "on_setup_response resp s =
     (let s = (case header (rs_headers resp) (ascii ''Session'') of
                 None \<Rightarrow> s
               | Some raw \<Rightarrow> s\<lparr>ws_session_id := Some (fst (session_header raw)), ws_timeout := snd (session_header raw)\<rparr>) in
      case ws_state s of
        SettingUp c \<Rightarrow>
          (let (m7, s) = new_request ''PLAY'' (nc_url c) PPlay (s\<lparr>ws_state := Ready c\<rparr>) in ([Send m7], s))
      | _ \<Rightarrow> ([], s))"

definition on_play_response :: "wfd_session \<Rightarrow> sink_output list \<times> wfd_session" where
  "on_play_response s =
     (let started = (\<lambda>c. (MediaStarted c # (case nc_uibc_port c of None \<Rightarrow> [] | Some p \<Rightarrow> [UibcPort p]),
                          s\<lparr>ws_state := Playing c\<rparr>)) in
      case ws_state s of Ready c \<Rightarrow> started c | Paused c \<Rightarrow> started c | Playing c \<Rightarrow> started c | _ \<Rightarrow> ([], s))"

definition on_pause_response :: "wfd_session \<Rightarrow> sink_output list \<times> wfd_session" where
  "on_pause_response s =
     ([MediaStopped], s\<lparr>ws_state := (case ws_state s of Playing c \<Rightarrow> Paused c | _ \<Rightarrow> Closed)\<rparr>)"

definition accepted :: "pending_request \<Rightarrow> wfd_response \<Rightarrow> wfd_session \<Rightarrow> sink_output list \<times> wfd_session" where
  "accepted p resp s =
     (case p of
        POptions \<Rightarrow>
          ([], s\<lparr>ws_server := header (rs_headers resp) (ascii ''Server''),
                 ws_methods := header (rs_headers resp) (ascii ''Public'')\<rparr>)
      | PSetup \<Rightarrow> on_setup_response resp s
      | PPlay \<Rightarrow> on_play_response s
      | PPause \<Rightarrow> on_pause_response s
      | PTeardown \<Rightarrow> ([Ended], s\<lparr>ws_state := Closed\<rparr>)
      | PIdrRequest \<Rightarrow> ([], s))"

definition on_response :: "wfd_response \<Rightarrow> (wfd_session, miracast_error, sink_output list) meth" where
  "on_response resp s =
     (case request_cseq (rs_headers resp) of
        None \<Rightarrow> (Inr [], s)
      | Some cseq \<Rightarrow>
          (case tbl_get (ws_pending s) cseq of
             None \<Rightarrow> (Inr [], s)
           | Some p \<Rightarrow>
               let s = s\<lparr>ws_pending := tbl_del cseq (ws_pending s)\<rparr> in
               if rs_status resp \<noteq> 200
               then (Inl (UnexpectedMessage (pending_str p @ ascii '' refused with '' @ decimal (unat (rs_status resp)))
                           (state_name (ws_state s))), s)
               else let (out, s) = accepted p resp s in (Inr out, s)))"

section \<open>What the sink starts by itself\<close>

definition IDR_MIN_INTERVAL :: duration where "IDR_MIN_INTERVAL = from_secs 1"

definition idr_allowed :: "nat \<Rightarrow> wfd_session \<Rightarrow> bool" where
  "idr_allowed now s \<longleftrightarrow>
     (case ws_state s of Playing _ \<Rightarrow> True | _ \<Rightarrow> False)
     \<and> (case ws_last_idr s of None \<Rightarrow> True | Some at \<Rightarrow> IDR_MIN_INTERVAL \<le> now - at)"

definition request_idr :: "nat \<Rightarrow> wfd_session \<Rightarrow> sink_output option \<times> wfd_session" where
  "request_idr now s =
     (if \<not> idr_allowed now s then (None, s)
      else let (m13, s) = new_request ''SET_PARAMETER'' CONTROL_URI PIdrRequest (s\<lparr>ws_last_idr := Some now\<rparr>) in
        (Some (Send (m13\<lparr>oq_headers := oq_headers m13 @ [(ascii ''Content-Type'', ascii ''text/parameters'')],
                         oq_body := render_body [(IdrRequest, None)]\<rparr>)), s))"

definition teardown :: "wfd_session \<Rightarrow> sink_output option \<times> wfd_session" where
  "teardown s =
     (case state_config (ws_state s) of
        None \<Rightarrow> (None, s)
      | Some c \<Rightarrow> (let (m8, s) = new_request ''TEARDOWN'' (nc_url c) PTeardown s in (Some (Send m8), s)))"

section \<open>Runs\<close>

text \<open>What the actor feeds the session, and what comes out of each; an error is no output.\<close>

datatype wfd_event = FromSource wfd_request | Answered wfd_response | NeedIdr nat | EndSession

fun wfd_output :: "wfd_event \<Rightarrow> wfd_session \<Rightarrow> sink_output list" where
  "wfd_output (FromSource r) s = (case fst (on_request r s) of Inl _ \<Rightarrow> [] | Inr out \<Rightarrow> out)"
| "wfd_output (Answered r) s = (case fst (on_response r s) of Inl _ \<Rightarrow> [] | Inr out \<Rightarrow> out)"
| "wfd_output (NeedIdr now) s = (case fst (request_idr now s) of None \<Rightarrow> [] | Some m \<Rightarrow> [m])"
| "wfd_output EndSession s = (case fst (teardown s) of None \<Rightarrow> [] | Some m \<Rightarrow> [m])"

fun wfd_step :: "wfd_event \<Rightarrow> wfd_session \<Rightarrow> wfd_session" where
  "wfd_step (FromSource r) s = snd (on_request r s)"
| "wfd_step (Answered r) s = snd (on_response r s)"
| "wfd_step (NeedIdr now) s = snd (request_idr now s)"
| "wfd_step EndSession s = snd (teardown s)"

fun wfd_outputs :: "wfd_event list \<Rightarrow> wfd_session \<Rightarrow> sink_output list" where
  "wfd_outputs [] s = []"
| "wfd_outputs (e # es) s = wfd_output e s @ wfd_outputs es (wfd_step e s)"

section \<open>What an operation leaves\<close>

lemma new_request_eq:
  "new_request m uri p s =
     (\<lparr>oq_method = ascii m, oq_uri = uri, oq_cseq = ws_next_cseq s,
       oq_headers = (case ws_session_id s of Some sid \<Rightarrow> [(ascii ''Session'', sid)] | None \<Rightarrow> []), oq_body = []\<rparr>,
      s\<lparr>ws_next_cseq := sat_add (ws_next_cseq s) 1, ws_pending := tbl_put (ws_next_cseq s) p (ws_pending s)\<rparr>)"
  by (simp add: new_request_def take_cseq_def)

lemmas handler_defs =
  on_options_def on_get_parameter_def on_trigger_def on_set_parameter_def Let_def new_request_eq

text \<open>
  A request is refused without a trace, or answered once, first, with status 200 and its own
  \<open>CSeq\<close>; no request starts media by itself.
\<close>

definition answered_first :: "u32 option \<Rightarrow> sink_output list \<Rightarrow> bool" where
  "answered_first cseq out \<longleftrightarrow>
     (case out of
        Respond r # rest \<Rightarrow> cseq = Some (or_cseq r) \<and> or_status r = 200
          \<and> list_all (\<lambda>x. case x of Respond _ \<Rightarrow> False | MediaStarted _ \<Rightarrow> False | _ \<Rightarrow> True) rest
      | _ \<Rightarrow> False)"

lemma trigger_answered:
  "case on_trigger cseq t s of (Inl e, s') \<Rightarrow> s' = s | (Inr out, s') \<Rightarrow> answered_first (Some cseq) out"
  by (auto simp: handler_defs answered_first_def ok_response_def split: option.split trigger.split)

lemma set_parameter_answered:
  "case on_set_parameter cseq body s of (Inl e, s') \<Rightarrow> s' = s | (Inr out, s') \<Rightarrow> answered_first (Some cseq) out"
proof (cases "parse_body body")
  case (Inr parsed)
  show ?thesis
  proof (cases "body_value parsed TriggerMethod")
    case (Some v)
    show ?thesis
    proof (cases "parse_trigger v")
      case (Some t)
      then show ?thesis using trigger_answered [where cseq = cseq and t = t and s = s] \<open>body_value parsed TriggerMethod = Some v\<close>
        by (simp add: on_set_parameter_def Inr)
    qed (simp add: on_set_parameter_def Inr Some)
  next
    case None
    then show ?thesis
      by (auto simp: on_set_parameter_def Inr Let_def answered_first_def ok_response_def split: sum.split option.split)
  qed
qed (simp add: on_set_parameter_def)

lemma request_cases:
  "on_request req s =
     (case request_cseq (rq_headers req) of
        None \<Rightarrow> (Inl (UnexpectedMessage (rq_method req @ ascii '' without CSeq'') (state_name (ws_state s))), s)
      | Some cseq \<Rightarrow>
          let m = to_ascii_uppercase (rq_method req) in
          if m = ascii ''OPTIONS'' then (Inr (fst (on_options cseq s)), snd (on_options cseq s))
          else if m = ascii ''GET_PARAMETER'' then on_get_parameter cseq (rq_body req) s
          else if m = ascii ''SET_PARAMETER'' then on_set_parameter cseq (rq_body req) s
          else if m = ascii ''TEARDOWN''
          then (Inr [Respond (ok_response cseq), Ended], s\<lparr>ws_state := Closed\<rparr>)
          else (Inl (UnexpectedMessage m (state_name (ws_state s))), s))"
  by (simp add: on_request_def case_prod_beta Let_def split: option.split)

text \<open>
  C23. A request of the source is either refused and leaves the session as it was,
  or answered exactly once, first, with status 200 and the CSeq it came with; no request starts
  media by itself.
\<close>

theorem request_answered:
  "case on_request req s of
     (Inl e, s') \<Rightarrow> s' = s
   | (Inr out, s') \<Rightarrow> answered_first (request_cseq (rq_headers req)) out"
proof (cases "request_cseq (rq_headers req)")
  case (Some cseq)
  obtain P :: "(miracast_error + sink_output list) \<times> wfd_session \<Rightarrow> bool" where P: "P = (\<lambda>r. case r of
      (Inl e, s') \<Rightarrow> s' = s | (Inr out, s') \<Rightarrow> answered_first (Some cseq) out)" by simp
  have o: "P (Inr (fst (on_options cseq s)), snd (on_options cseq s))"
    by (simp add: P handler_defs answered_first_def)
  have g: "P (on_get_parameter cseq (rq_body req) s)"
    by (simp add: P handler_defs answered_first_def ok_response_def split: sum.split)
  have t: "P (Inr [Respond (ok_response cseq), Ended], s\<lparr>ws_state := Closed\<rparr>)"
    by (simp add: P answered_first_def ok_response_def)
  have u: "P (Inl e, s)" for e by (simp add: P)
  have sp: "P (on_set_parameter cseq (rq_body req) s)" unfolding P by (rule set_parameter_answered)
  have "P (on_request req s)"
    using o g t u sp by (simp add: request_cases Some Let_def)
  then show ?thesis unfolding P Some .
qed (simp add: on_request_def)

section \<open>Only what was advertised\<close>

definition config_ok :: "sink_capabilities \<Rightarrow> negotiated_config \<Rightarrow> bool" where
  "config_ok caps c \<longleftrightarrow>
     sink_can_decode (nc_video c) (sc_video caps) \<and> index_ok (nv_index (nc_video c)) \<and> nc_rtp_port c \<noteq> 0"

lemma require_eq: "require e r = Inr a \<longleftrightarrow> r = Some a"
  by (cases r) (simp_all add: require_def)

lemma param_eq: "param r = Inr a \<longleftrightarrow> r = Inr a"
  by (cases r) (simp_all add: param_def)

lemma tbl_all_mono: "\<lbrakk>tbl_all P t; \<And>k v. P k v \<Longrightarrow> Q k v\<rbrakk> \<Longrightarrow> tbl_all Q t"
  by (auto simp: tbl_all_def)

lemma chosen_video_ok:
  "chosen_video caps m4 = Inr v \<Longrightarrow> sink_can_decode v (sc_video caps) \<and> index_ok (nv_index v)"
proof -
  assume "chosen_video caps m4 = Inr v"
  then obtain c ix where ix: "chosen_index c = Some ix" "nv_index v = ix" and d: "sink_can_decode v (sc_video caps)"
    by (auto simp: chosen_video_def bindE_eq_Inr require_eq Let_def split: if_splits)
  then have "\<exists>m mode. (ix, mode) \<in> set (mask_modes m) \<and> rm_table m = ri_table ix"
    using max_by_key_Some
    by (fastforce simp: chosen_index_def mask_modes_iff mask_contains_def)
  then have "index_ok ix" by (auto simp: mask_modes_iff index_ok_def)
  then show ?thesis using d ix by simp
qed

lemma parse_ports_nonzero: "parse_ports v = Inr r \<Longrightarrow> rp_port0 r \<noteq> 0"
  by (auto simp: parse_ports_def new_ports_def Let_def split: if_splits option.splits)

lemma negotiate_ok:
  "\<lbrakk>negotiate s m4 u = Inr c; rp_port0 (sc_ports (ws_caps s)) \<noteq> 0\<rbrakk> \<Longrightarrow> config_ok (ws_caps s) c"
  using parse_ports_nonzero chosen_video_ok
  by (auto simp: negotiate_def bindE_eq_Inr config_ok_def param_eq split: option.splits)

definition session_ok :: "wfd_session \<Rightarrow> bool" where
  "session_ok s \<longleftrightarrow>
     rp_port0 (sc_ports (ws_caps s)) \<noteq> 0
     \<and> (\<forall>c. state_config (ws_state s) = Some c \<longrightarrow> config_ok (ws_caps s) c)
     \<and> tbl_all (\<lambda>k _. k < ws_next_cseq s \<or> ws_next_cseq s = -1) (ws_pending s)"

lemma new_session_ok: "rp_port0 (sc_ports caps) \<noteq> 0 \<Longrightarrow> session_ok (new_session caps)"
  by (simp add: session_ok_def new_session_def)

text \<open>The configuration is the same whatever else a step touches.\<close>

definition same_config :: "wfd_session \<Rightarrow> wfd_session \<Rightarrow> bool" where
  "same_config s s' \<longleftrightarrow>
     ws_caps s' = ws_caps s
     \<and> (state_config (ws_state s') = None \<or> state_config (ws_state s') = state_config (ws_state s))"

lemma counter_mono:
  "k < n \<or> n = (-1 :: u32) \<Longrightarrow> k < sat_add n 1 \<or> sat_add n 1 = -1"
  "n < sat_add n 1 \<or> sat_add n 1 = (-1 :: u32)"
proof -
  have max: "n = -1" if "sat_add n 1 = n" for n :: u32
    using that by (auto simp: sat_add_def split: if_splits)
  have ge: "n \<le> sat_add n 1" by (rule sat_add_ge)
  then show 2: "n < sat_add n 1 \<or> sat_add n 1 = -1" using max [of n] by (cases "sat_add n 1 = n") auto
  show "k < sat_add n 1 \<or> sat_add n 1 = -1" if "k < n \<or> n = -1"
    using that
  proof
    assume "n = -1"
    then have "sat_add n 1 = -1" using 2 by (metis word_not_simps(3) linorder_not_less word_n1_ge)
    then show ?thesis ..
  qed (use ge in auto)
qed

lemma request_ok:
  "session_ok s \<Longrightarrow> session_ok (snd (new_request m uri p s))"
  using counter_mono
  by (auto simp: session_ok_def new_request_eq intro!: table_intros elim!: tbl_all_mono split: option.splits)

lemma session_ok_state:
  "\<lbrakk>session_ok s; state_config st = None \<or> state_config st = state_config (ws_state s)\<rbrakk>
   \<Longrightarrow> session_ok (s\<lparr>ws_state := st\<rparr>)"
  by (auto simp: session_ok_def)

lemma options_ok: "session_ok s \<Longrightarrow> session_ok (snd (on_options cseq s))"
  using request_ok [of s "''OPTIONS''" "ascii ''*''" POptions]
  by (auto simp: on_options_def case_prod_beta Let_def intro!: session_ok_state)

lemma get_parameter_ok: "session_ok s \<Longrightarrow> session_ok (snd (on_get_parameter cseq body s))"
  by (auto simp: on_get_parameter_def intro!: session_ok_state split: sum.split)

lemma trigger_ok: "session_ok s \<Longrightarrow> session_ok (snd (on_trigger cseq t s))"
  using request_ok
  by (auto simp: on_trigger_def case_prod_beta Let_def intro!: session_ok_state split: option.split trigger.split session_state.split)

lemma set_parameter_ok: "session_ok s \<Longrightarrow> session_ok (snd (on_set_parameter cseq body s))"
  using trigger_ok negotiate_ok
  by (auto simp: on_set_parameter_def Let_def session_ok_def split: option.split sum.split)

lemma on_request_ok: "session_ok s \<Longrightarrow> session_ok (snd (on_request req s))"
  by (auto simp: request_cases Let_def options_ok get_parameter_ok set_parameter_ok intro!: session_ok_state split: option.split)

lemma answered_ok: "session_ok s \<Longrightarrow> session_ok (s\<lparr>ws_pending := tbl_del k (ws_pending s)\<rparr>)"
  by (auto simp: session_ok_def intro!: table_intros)

lemma session_ok_other:
  "session_ok (s\<lparr>ws_session_id := a, ws_timeout := b\<rparr>) = session_ok s"
  "session_ok (s\<lparr>ws_server := c, ws_methods := d\<rparr>) = session_ok s"
  "session_ok (s\<lparr>ws_last_idr := e\<rparr>) = session_ok s"
  by (simp_all add: session_ok_def)

lemma setup_response_ok: "session_ok s \<Longrightarrow> session_ok (snd (on_setup_response resp s))"
proof -
  assume ok: "session_ok s"
  let ?s = "case header (rs_headers resp) (ascii ''Session'') of None \<Rightarrow> s
     | Some raw \<Rightarrow> s\<lparr>ws_session_id := Some (fst (session_header raw)), ws_timeout := snd (session_header raw)\<rparr>"
  have "session_ok ?s" using ok by (auto simp: session_ok_other split: option.split)
  then show ?thesis
    by (auto simp: on_setup_response_def Let_def case_prod_beta intro!: request_ok session_ok_state split: session_state.split)
qed

lemma accepted_ok: "session_ok s \<Longrightarrow> session_ok (snd (accepted p resp s))"
  by (cases p)
    (auto simp: accepted_def setup_response_ok on_play_response_def on_pause_response_def session_ok_other Let_def
       intro!: session_ok_state split: session_state.split)

lemma on_response_ok: "session_ok s \<Longrightarrow> session_ok (snd (on_response resp s))"
  using answered_ok accepted_ok by (auto simp: on_response_def Let_def case_prod_beta split: option.split)

lemma wfd_step_ok: "session_ok s \<Longrightarrow> session_ok (wfd_step e s)"
  by (cases e)
    (auto simp: on_request_ok on_response_ok request_idr_def teardown_def Let_def case_prod_beta session_ok_other
       intro!: request_ok split: option.split)

interpretation wfd: machine wfd_step session_ok
  by unfold_locales (rule wfd_step_ok)

section \<open>Sequence numbers\<close>

definition sent_cseqs :: "sink_output list \<Rightarrow> u32 list" where
  "sent_cseqs out = List.map_filter (\<lambda>x. case x of Send m \<Rightarrow> Some (oq_cseq m) | _ \<Rightarrow> None) out"

lemma sent_simps [simp]:
  "sent_cseqs [] = []"
  "sent_cseqs (x # xs) = (case x of Send m \<Rightarrow> oq_cseq m # sent_cseqs xs | _ \<Rightarrow> sent_cseqs xs)"
  "sent_cseqs (xs @ ys) = sent_cseqs xs @ sent_cseqs ys"
  by (simp_all add: sent_cseqs_def map_filter_simps map_filter_def split: sink_output.split)

text \<open>A step sends at most one request, with the next number, and then counts on.\<close>

definition counts :: "wfd_session \<Rightarrow> sink_output list \<Rightarrow> wfd_session \<Rightarrow> bool" where
  "counts s out s' \<longleftrightarrow>
     (sent_cseqs out = [] \<and> ws_next_cseq s' = ws_next_cseq s)
     \<or> (sent_cseqs out = [ws_next_cseq s] \<and> ws_next_cseq s' = sat_add (ws_next_cseq s) 1)"

text \<open>What no step but a keyframe request does: the advertisement and the last request stay.\<close>

definition quiet :: "wfd_session \<Rightarrow> sink_output list \<Rightarrow> wfd_session \<Rightarrow> bool" where
  "quiet s out s' \<longleftrightarrow> counts s out s' \<and> ws_caps s' = ws_caps s \<and> ws_last_idr s' = ws_last_idr s"

definition out_of :: "'e + sink_output list \<Rightarrow> sink_output list" where
  "out_of r = (case r of Inl _ \<Rightarrow> [] | Inr out \<Rightarrow> out)"

lemmas quiet_defs = quiet_def counts_def out_of_def Let_def new_request_eq

lemma quiet_handlers:
  "quiet s (fst (on_options cseq s)) (snd (on_options cseq s))"
  "quiet s (out_of (fst (on_get_parameter cseq body s))) (snd (on_get_parameter cseq body s))"
  "quiet s (out_of (fst (on_trigger cseq t s))) (snd (on_trigger cseq t s))"
  by (auto simp: quiet_defs on_options_def on_get_parameter_def on_trigger_def split: sum.split option.split trigger.split)

lemma quiet_set_parameter:
  "quiet s (out_of (fst (on_set_parameter cseq body s))) (snd (on_set_parameter cseq body s))"
proof (cases "parse_body body")
  case (Inr parsed)
  show ?thesis
  proof (cases "body_value parsed TriggerMethod")
    case (Some v)
    then show ?thesis using quiet_handlers(3)
      by (cases "parse_trigger v") (simp_all add: on_set_parameter_def Inr, simp add: quiet_defs)
  next
    case None
    show ?thesis
    proof (cases "body_contains parsed PresentationUrl")
      case True
      then show ?thesis by (auto simp: on_set_parameter_def Inr None quiet_defs split: sum.split)
    next
      case False
      then show ?thesis by (auto simp: on_set_parameter_def Inr None quiet_defs split: option.split)
    qed
  qed
qed (simp add: on_set_parameter_def quiet_defs)

lemma quiet_request: "quiet s (out_of (fst (on_request r s))) (snd (on_request r s))"
proof (cases "request_cseq (rq_headers r)")
  case (Some cseq)
  have q: "out_of (Inr (fst (on_options cseq s))) = fst (on_options cseq s)" by (simp add: out_of_def)
  have t: "quiet s (out_of (Inr [Respond (ok_response cseq), Ended] :: miracast_error + sink_output list)) (s\<lparr>ws_state := Closed\<rparr>)" by (simp add: quiet_defs)
  have u: "quiet s (out_of (Inl e)) s" for e :: miracast_error by (simp add: quiet_defs)
  show ?thesis
    using quiet_handlers(1,2) quiet_set_parameter t u by (simp add: request_cases Some Let_def q)
qed (simp add: on_request_def quiet_defs)

lemma quiet_accepted:
  "quiet s (fst (accepted p r s)) (snd (accepted p r s))"
  by (cases p)
    (auto simp: quiet_defs accepted_def on_setup_response_def on_play_response_def on_pause_response_def
       split: session_state.split option.split)

lemma quiet_response: "quiet s (out_of (fst (on_response r s))) (snd (on_response r s))"
proof -
  have k: "quiet (s\<lparr>ws_pending := t\<rparr>) out s' \<Longrightarrow> quiet s out s'" for t out s' by (simp add: quiet_def counts_def)
  have a: "quiet s (fst (accepted p r (s\<lparr>ws_pending := t\<rparr>))) (snd (accepted p r (s\<lparr>ws_pending := t\<rparr>)))" for p t
    by (rule k, rule quiet_accepted)
  have n: "quiet s [] (s\<lparr>ws_pending := t\<rparr>)" "quiet s [] s" for t by (simp_all add: quiet_def counts_def)
  show ?thesis
    using a n by (simp add: on_response_def Let_def case_prod_beta out_of_def split: option.split)
qed

lemma quiet_step: "(\<forall>now. e \<noteq> NeedIdr now) \<Longrightarrow> quiet s (wfd_output e s) (wfd_step e s)"
proof (cases e)
  case (FromSource r)
  then show ?thesis using quiet_request [of s r] by (simp add: out_of_def)
next
  case (Answered r)
  then show ?thesis using quiet_response [of s r] by (simp add: out_of_def)
next
  case EndSession
  then show ?thesis by (simp add: quiet_defs teardown_def split: option.split)
qed simp

lemma step_counts: "counts s (wfd_output e s) (wfd_step e s)"
  using quiet_step [of e s]
  by (cases e) (auto simp: quiet_def, simp add: counts_def request_idr_def Let_def new_request_eq)

lemma step_caps: "ws_caps (wfd_step e s) = ws_caps s"
  using quiet_step [of e s]
  by (cases e) (auto simp: quiet_def, simp add: request_idr_def Let_def new_request_eq)

lemma idr_kept: "(\<forall>now. e \<noteq> NeedIdr now) \<Longrightarrow> ws_last_idr (wfd_step e s) = ws_last_idr s"
  using quiet_step [of e s] by (simp add: quiet_def)

section \<open>Media only as advertised\<close>

lemma started_ok:
  "\<lbrakk>session_ok s; MediaStarted c \<in> set (wfd_output e s)\<rbrakk> \<Longrightarrow> config_ok (ws_caps s) c"
proof (cases e)
  case (FromSource r)
  assume "MediaStarted c \<in> set (wfd_output e s)"
  then obtain out where out: "fst (on_request r s) = Inr out" "MediaStarted c \<in> set out"
    using FromSource by (cases "fst (on_request r s)") auto
  then have "answered_first (request_cseq (rq_headers r)) out"
    using request_answered [where req = r and s = s] by (cases "on_request r s") simp
  then show ?thesis using out(2)
    by (fastforce simp: answered_first_def list_all_iff split: list.splits sink_output.splits)
next
  case (Answered r)
  assume ok: "session_ok s" and m: "MediaStarted c \<in> set (wfd_output e s)"
  then obtain p s1 where "MediaStarted c \<in> set (fst (accepted p r s1))" "ws_state s1 = ws_state s" "ws_caps s1 = ws_caps s"
    using Answered by (auto simp: on_response_def Let_def case_prod_beta split: option.splits if_splits)
  then have "state_config (ws_state s) = Some c"
    by (cases p)
      (auto simp: accepted_def on_setup_response_def on_play_response_def on_pause_response_def Let_def case_prod_beta
         split: session_state.splits option.splits)
  then show ?thesis using ok by (simp add: session_ok_def)
qed (auto simp: request_idr_def teardown_def Let_def case_prod_beta split: if_splits option.splits)

lemma outputs_ok:
  "\<lbrakk>session_ok s; MediaStarted c \<in> set (wfd_outputs es s)\<rbrakk> \<Longrightarrow> config_ok (ws_caps s) c"
proof (induction es arbitrary: s)
  case (Cons e es)
  then show ?case using started_ok [of s c e] Cons.IH [of "wfd_step e s"] wfd_step_ok [of s e] step_caps [of e s] by auto
qed simp

text \<open>
  C22. In every run of a session, in any order of requests, responses and
  timers, media is started only with a configuration whose mode, profile and level the sink
  advertised, with a mode that exists and a port that is not zero.
\<close>

theorem only_advertised_media:
  "\<lbrakk>rp_port0 (sc_ports caps) \<noteq> 0; MediaStarted c \<in> set (wfd_outputs es (new_session caps))\<rbrakk> \<Longrightarrow>
     config_ok caps c"
  using outputs_ok [OF new_session_ok, of caps c es] by (simp add: new_session_def)

definition cseq_number :: "nat \<Rightarrow> u32" where
  "cseq_number k = (if k < u32_max then of_nat k else -1)"

lemma u32_max_word: "unat (-1 :: u32) = u32_max" "u32_max < 2 ^ LENGTH(32)" "u32_max + 1 = 2 ^ LENGTH(32)"
  by (simp_all add: unsigned_minus_1_eq_mask mask_eq_exp_minus_1 u32_max_def)

lemma cseq_number_next: "sat_add (cseq_number k) 1 = cseq_number (Suc k)"
proof (rule word_unat_eq_iff [THEN iffD2])
  have "unat (cseq_number k) = min k u32_max" for k
    using u32_max_word by (auto simp: cseq_number_def unat_of_nat take_bit_nat_eq_self min_def)
  then show "unat (sat_add (cseq_number k) 1) = unat (cseq_number (Suc k))"
    using u32_max_word(3) by (simp add: unat_sat_add)
qed

lemma run_counts:
  "ws_next_cseq s = cseq_number k \<Longrightarrow>
     (\<exists>n. sent_cseqs (wfd_outputs es s) = map cseq_number [k..<k + n])"
proof (induction es arbitrary: s k)
  case Nil
  have "sent_cseqs (wfd_outputs [] s) = map cseq_number [k..<k + 0]" by simp
  then show ?case by blast
next
  case (Cons e es)
  from step_counts [of s e] consider
    "sent_cseqs (wfd_output e s) = []" "ws_next_cseq (wfd_step e s) = cseq_number k"
    | "sent_cseqs (wfd_output e s) = [cseq_number k]" "ws_next_cseq (wfd_step e s) = cseq_number (Suc k)"
    using Cons.prems cseq_number_next [of k] by (auto simp: counts_def)
  then show ?case
  proof cases
    case 1
    then show ?thesis using Cons.IH [OF 1(2)] by auto
  next
    case 2
    then obtain n where "sent_cseqs (wfd_outputs es (wfd_step e s)) = map cseq_number [Suc k..<Suc k + n]"
      using Cons.IH [OF 2(2)] by auto
    then have "sent_cseqs (wfd_outputs (e # es) s) = map cseq_number [k..<k + Suc n]"
      using 2(1) by (simp add: upt_conv_Cons [of k "Suc (k + n)"] del: upt_Suc)
    then show ?thesis by blast
  qed
qed

text \<open>
  The requests a session sends carry the CSeqs 1, 2, 3 and so on in the
  order they are sent, whatever the source sends in between, up to the largest number of the
  counter.
\<close>

theorem own_sequence_numbers:
  "\<exists>n. sent_cseqs (wfd_outputs es (new_session caps)) = map cseq_number [1..<1 + n]"
  by (rule run_counts) (simp add: new_session_def cseq_number_def u32_max_def)

section \<open>Keyframe requests\<close>

fun idr_times :: "wfd_event list \<Rightarrow> wfd_session \<Rightarrow> nat list" where
  "idr_times [] s = []"
| "idr_times (e # es) s =
     (case e of NeedIdr now \<Rightarrow> if wfd_output e s = [] then [] else [now] | _ \<Rightarrow> []) @ idr_times es (wfd_step e s)"

definition spaced_after :: "nat option \<Rightarrow> nat list \<Rightarrow> bool" where
  "spaced_after from ts \<longleftrightarrow>
     sorted_wrt (\<lambda>a b. a + from_secs 1 \<le> b) ts \<and> (case from of None \<Rightarrow> True | Some t \<Rightarrow> \<forall>u\<in>set ts. t + from_secs 1 \<le> u)"

lemma idr_spaced: "spaced_after (ws_last_idr s) (idr_times es s)"
proof (induction es arbitrary: s)
  case (Cons e es)
  show ?case
  proof (cases e)
    case (NeedIdr now)
    show ?thesis
    proof (cases "idr_allowed now s")
      case True
      have l: "ws_last_idr (wfd_step e s) = Some now"
        using True by (simp add: NeedIdr request_idr_def Let_def new_request_eq)
      have "wfd_output e s \<noteq> []" using True by (simp add: NeedIdr request_idr_def Let_def new_request_eq)
      moreover have "case ws_last_idr s of None \<Rightarrow> True | Some t \<Rightarrow> t + from_secs 1 \<le> now"
        using True by (auto simp: idr_allowed_def IDR_MIN_INTERVAL_def from_secs_def split: option.splits)
      ultimately show ?thesis
        using Cons.IH [of "wfd_step e s"] l
        by (auto simp: NeedIdr spaced_after_def split: option.splits intro: order_trans)
    next
      case False
      then show ?thesis using Cons.IH [of s] by (simp add: NeedIdr request_idr_def)
    qed
  qed (use Cons.IH [of "wfd_step e s"] idr_kept [of e s] in simp_all)
qed (simp add: spaced_after_def split: option.split)

text \<open>
  The keyframe requests of a run are at least one second apart.
\<close>

theorem keyframe_requests_spaced:
  "sorted_wrt (\<lambda>a b. a + from_secs 1 \<le> b) (idr_times es (new_session caps))"
  using idr_spaced [of "new_session caps" es] by (simp add: spaced_after_def)

section \<open>The handshake\<close>

definition source_request :: "string \<Rightarrow> u32 \<Rightarrow> bytes \<Rightarrow> wfd_event" where
  "source_request m cseq body =
     FromSource \<lparr>rq_method = ascii m, rq_headers = [(ascii ''CSeq'', decimal (unat cseq))], rq_body = body\<rparr>"

definition source_response :: "u32 \<Rightarrow> headers \<Rightarrow> wfd_event" where
  "source_response cseq hs = Answered \<lparr>rs_status = 200, rs_headers = (ascii ''CSeq'', decimal (unat cseq)) # hs\<rparr>"

definition setup_trigger :: bytes where
  "setup_trigger = render_body [(TriggerMethod, Some (ascii ''SETUP''))]"

text \<open>M1 to M7 as a source drives them, with any sequence numbers of its own.\<close>

definition handshake :: "u32 \<Rightarrow> u32 \<Rightarrow> u32 \<Rightarrow> u32 \<Rightarrow> bytes \<Rightarrow> bytes \<Rightarrow> headers \<Rightarrow> wfd_event list" where
  "handshake c1 c2 c3 c4 asked m4 setup_headers =
     [source_request ''OPTIONS'' c1 [], source_response 1 [], source_request ''GET_PARAMETER'' c2 asked,
      source_request ''SET_PARAMETER'' c3 m4, source_request ''SET_PARAMETER'' c4 setup_trigger,
      source_response 2 setup_headers, source_response 3 []]"

lemma own_cseq: "request_cseq ((ascii ''CSeq'', decimal (unat cseq)) # hs) = Some cseq"
proof -
  have "eq_ignore_ascii_case (ascii ''CSeq'') (ascii ''CSeq'')" by (simp add: eq_ignore_ascii_case_def)
  moreover have "unat cseq < 2 ^ 32" using unsigned_less [of cseq] by simp
  then have "unat cseq \<le> u32_max" unfolding u32_max_def by linarith
  ultimately show ?thesis by (simp add: request_cseq_def header_def parse_u32_def)
qed

lemma request_methods:
  "to_ascii_uppercase (ascii ''OPTIONS'') = ascii ''OPTIONS''"
  "to_ascii_uppercase (ascii ''GET_PARAMETER'') = ascii ''GET_PARAMETER''"
  "to_ascii_uppercase (ascii ''SET_PARAMETER'') = ascii ''SET_PARAMETER''"
  "ascii ''GET_PARAMETER'' \<noteq> ascii ''OPTIONS''" "ascii ''SET_PARAMETER'' \<noteq> ascii ''OPTIONS''"
  "ascii ''SET_PARAMETER'' \<noteq> ascii ''GET_PARAMETER''"
  by (simp_all add: ascii_def to_ascii_uppercase_def)

lemma request_steps:
  "wfd_step (source_request ''OPTIONS'' c b) s = snd (on_options c s)"
  "wfd_output (source_request ''OPTIONS'' c b) s = fst (on_options c s)"
  "wfd_step (source_request ''GET_PARAMETER'' c b) s = snd (on_get_parameter c b s)"
  "wfd_output (source_request ''GET_PARAMETER'' c b) s = out_of (fst (on_get_parameter c b s))"
  "wfd_step (source_request ''SET_PARAMETER'' c b) s = snd (on_set_parameter c b s)"
  "wfd_output (source_request ''SET_PARAMETER'' c b) s = out_of (fst (on_set_parameter c b s))"
  by (simp_all add: source_request_def request_cases own_cseq request_methods out_of_def Let_def)

lemma response_steps:
  assumes "tbl_get (ws_pending s) c = Some p"
  shows "wfd_step (source_response c hs) s =
      snd (accepted p \<lparr>rs_status = 200, rs_headers = (ascii ''CSeq'', decimal (unat c)) # hs\<rparr>
        (s\<lparr>ws_pending := tbl_del c (ws_pending s)\<rparr>))"
    "wfd_output (source_response c hs) s =
      fst (accepted p \<lparr>rs_status = 200, rs_headers = (ascii ''CSeq'', decimal (unat c)) # hs\<rparr>
        (s\<lparr>ws_pending := tbl_del c (ws_pending s)\<rparr>))"
  using assms by (simp_all add: source_response_def on_response_def own_cseq case_prod_beta Let_def)

lemma setup_trigger_parsed: "parse_body setup_trigger = Inr [\<lparr>pl_name = TriggerMethod, pl_value = Some (ascii ''SETUP'')\<rparr>]"
proof -
  have "line_ok (TriggerMethod, Some (ascii ''SETUP''))"
    using name_known [of TriggerMethod] by (simp add: line_ok_def value_ok_def ascii_def solid_def)
  then show ?thesis unfolding setup_trigger_def by (subst parse_rendered) simp_all
qed

lemma setup_trigger_step:
  "on_set_parameter c setup_trigger s = on_trigger c TSetup s"
  using trigger_roundtrip [of TSetup]
  by (simp add: on_set_parameter_def setup_trigger_parsed body_value_def)

lemma negotiate_state:
  "\<lbrakk>negotiate s m4 u = Inr c; ws_caps s' = ws_caps s\<rbrakk> \<Longrightarrow> negotiate s' m4 u = Inr c"
  by (auto simp: negotiate_def bindE_eq_Inr require_eq split: option.splits)

definition m4_config :: "sink_capabilities \<Rightarrow> bytes \<Rightarrow> negotiated_config option" where
  "m4_config caps m4 =
     (case parse_body m4 of
        Inl _ \<Rightarrow> None
      | Inr ls \<Rightarrow>
          if body_value ls TriggerMethod = None \<and> body_contains ls PresentationUrl
          then (case negotiate (new_session caps) ls
                       (case body_value ls UibcCapability of None \<Rightarrow> None | Some v \<Rightarrow> parse_uibc_port v) of
                  Inl _ \<Rightarrow> None | Inr c \<Rightarrow> Some c)
          else None)"

lemma m4_step:
  "\<lbrakk>m4_config caps m4 = Some c; ws_caps s = caps\<rbrakk> \<Longrightarrow>
     on_set_parameter cseq m4 s = (Inr [Respond (ok_response cseq)], s\<lparr>ws_state := Configured c\<rparr>)"
  using negotiate_state [of "new_session caps" _ _ c s]
  by (fastforce simp: m4_config_def on_set_parameter_def new_session_def Let_def split: sum.splits if_splits)

definition is_query :: "bytes \<Rightarrow> bool" where
  "is_query b \<longleftrightarrow> \<not> list_all ascii_whitespace b \<and> (case parse_body b of Inl _ \<Rightarrow> False | Inr _ \<Rightarrow> True)"

lemma query_step:
  "is_query b \<Longrightarrow> snd (on_get_parameter c b s) = (if ws_state s = Handshaking then s\<lparr>ws_state := AwaitingConfiguration\<rparr> else s)
     \<and> (\<exists>r. out_of (fst (on_get_parameter c b s)) = [Respond r])"
  by (auto simp: is_query_def on_get_parameter_def out_of_def split: sum.splits)

definition media_outputs :: "sink_output list \<Rightarrow> sink_output list" where
  "media_outputs out = filter (\<lambda>x. case x of MediaStarted _ \<Rightarrow> True | MediaStopped \<Rightarrow> True | Ended \<Rightarrow> True | _ \<Rightarrow> False) out"

definition sent_methods :: "sink_output list \<Rightarrow> (bytes \<times> bytes) list" where
  "sent_methods out = List.map_filter (\<lambda>x. case x of Send m \<Rightarrow> Some (oq_method m, oq_uri m) | _ \<Rightarrow> None) out"

lemma small_cseqs: "sat_add (1 :: u32) 1 = 2" "sat_add (2 :: u32) 1 = 3" "sat_add (3 :: u32) 1 = 4"
  by (simp_all add: sat_add_def)

lemma handshake_run:
  "\<lbrakk>is_query asked; m4_config caps m4 = Some c\<rbrakk> \<Longrightarrow>
     let es = handshake c1 c2 c3 c4 asked m4 hs; out = wfd_outputs es (new_session caps) in
       ws_state (fold wfd_step es (new_session caps)) = Playing c
       \<and> media_outputs out = [MediaStarted c]
       \<and> sent_methods out = [(ascii ''OPTIONS'', ascii ''*''), (ascii ''SETUP'', nc_url c), (ascii ''PLAY'', nc_url c)]"
proof -
  assume q: "is_query asked" and m: "m4_config caps m4 = Some c"
  let ?s0 = "new_session caps"
  obtain s1 where s1: "s1 = wfd_step (source_request ''OPTIONS'' c1 []) ?s0" by simp
  have f1: "ws_caps s1 = caps" "ws_state s1 = Handshaking" "ws_next_cseq s1 = 2" "tbl_get (ws_pending s1) 1 = Some POptions"
    and o1: "media_outputs (wfd_output (source_request ''OPTIONS'' c1 []) ?s0) = []"
      "sent_methods (wfd_output (source_request ''OPTIONS'' c1 []) ?s0) = [(ascii ''OPTIONS'', ascii ''*'')]"
    by (simp_all add: s1 request_steps on_options_def new_session_def new_request_eq small_cseqs media_outputs_def
        sent_methods_def map_filter_simps)
  obtain s2 where s2: "s2 = wfd_step (source_response 1 []) s1" by simp
  have f2: "ws_caps s2 = caps" "ws_state s2 = Handshaking" "ws_next_cseq s2 = 2"
    and o2: "wfd_output (source_response 1 []) s1 = []"
    by (simp_all add: s2 response_steps [OF f1(4)] accepted_def f1)
  obtain s3 where s3: "s3 = wfd_step (source_request ''GET_PARAMETER'' c2 asked) s2" by simp
  have f3: "ws_caps s3 = caps" "ws_next_cseq s3 = 2" "\<exists>r. wfd_output (source_request ''GET_PARAMETER'' c2 asked) s2 = [Respond r]"
    using query_step [OF q, of c2 s2] by (simp_all add: s3 request_steps f2)
  obtain s4 where s4: "s4 = wfd_step (source_request ''SET_PARAMETER'' c3 m4) s3" by simp
  have f4: "ws_state s4 = Configured c" "ws_next_cseq s4 = 2"
    and o4: "wfd_output (source_request ''SET_PARAMETER'' c3 m4) s3 = [Respond (ok_response c3)]"
    using m4_step [OF m f3(1), of c3] by (simp_all add: s4 request_steps f3 out_of_def)
  obtain s5 where s5: "s5 = wfd_step (source_request ''SET_PARAMETER'' c4 setup_trigger) s4" by simp
  have f5: "ws_state s5 = SettingUp c" "ws_next_cseq s5 = 3" "tbl_get (ws_pending s5) 2 = Some PSetup"
    and o5: "media_outputs (wfd_output (source_request ''SET_PARAMETER'' c4 setup_trigger) s4) = []"
      "sent_methods (wfd_output (source_request ''SET_PARAMETER'' c4 setup_trigger) s4) = [(ascii ''SETUP'', nc_url c)]"
    by (simp_all add: s5 request_steps setup_trigger_step on_trigger_def f4 new_request_eq small_cseqs Let_def table_simps
        out_of_def media_outputs_def sent_methods_def map_filter_simps)
  obtain s6 where s6: "s6 = wfd_step (source_response 2 hs) s5" by simp
  have f6: "ws_state s6 = Ready c" "tbl_get (ws_pending s6) 3 = Some PPlay"
    and o6: "media_outputs (wfd_output (source_response 2 hs) s5) = []"
      "sent_methods (wfd_output (source_response 2 hs) s5) = [(ascii ''PLAY'', nc_url c)]"
    by (simp_all add: s6 response_steps [OF f5(3)] accepted_def on_setup_response_def f5 new_request_eq Let_def table_simps
        media_outputs_def sent_methods_def map_filter_simps split: option.split)
  have f7: "ws_state (wfd_step (source_response 3 []) s6) = Playing c"
    and o7: "media_outputs (wfd_output (source_response 3 []) s6) = [MediaStarted c]"
      "sent_methods (wfd_output (source_response 3 []) s6) = []"
    by (simp_all add: response_steps [OF f6(2)] accepted_def on_play_response_def f6 Let_def media_outputs_def
        sent_methods_def map_filter_simps split: option.split)
  have split: "media_outputs (xs @ ys) = media_outputs xs @ media_outputs ys"
    "sent_methods (xs @ ys) = sent_methods xs @ sent_methods ys" for xs ys
    by (simp_all add: media_outputs_def sent_methods_def map_filter_def)
  have nil: "media_outputs [] = []" "sent_methods [] = []" 
    "media_outputs (Respond r # xs) = media_outputs xs" "sent_methods (Respond r # xs) = sent_methods xs" for r xs
    by (simp_all add: media_outputs_def sent_methods_def map_filter_simps)
  obtain r where r: "wfd_output (source_request ''GET_PARAMETER'' c2 asked) s2 = [Respond r]" using f3(3) by blast
  show ?thesis
    unfolding handshake_def Let_def
    by (simp add: s1 [symmetric] s2 [symmetric] s3 [symmetric] s4 [symmetric] s5 [symmetric] s6 [symmetric]
        f7 o1 o2 r o4 o5 o6 o7 split nil)
qed

text \<open>
  C24. A source that probes, asks for the capabilities, configures a session the sink
  accepts and triggers SETUP gets it playing: the sink sends OPTIONS, SETUP and PLAY, the last
  two to the presentation URL, and media starts exactly once, with the negotiated configuration.
\<close>

theorem handshake_plays:
  "\<lbrakk>is_query asked; m4_config caps m4 = Some c\<rbrakk> \<Longrightarrow>
     let es = handshake c1 c2 c3 c4 asked m4 hs; out = wfd_outputs es (new_session caps) in
       ws_state (fold wfd_step es (new_session caps)) = Playing c
       \<and> media_outputs out = [MediaStarted c]
       \<and> sent_methods out = [(ascii ''OPTIONS'', ascii ''*''), (ascii ''SETUP'', nc_url c), (ascii ''PLAY'', nc_url c)]"
  by (rule handshake_run)

section \<open>Two ways to lose a session\<close>

text \<open>
  A second SETUP trigger, or one after the session is ready, is acknowledged and sent on, and
  leaves the session closed: no \<open>Ended\<close> tells the actor, and the response that comes back is dropped.
\<close>

text \<open>
  A SETUP trigger in a session that is past its configuration is
  acknowledged and sent on, but leaves the session closed: nothing tells the actor that it
  ended, and the response to the SETUP is dropped.
\<close>

theorem late_setup_trigger_closes:
  "\<lbrakk>state_config (ws_state s) = Some c; ws_state s \<noteq> Configured c\<rbrakk> \<Longrightarrow>
     ws_state (snd (on_trigger cseq TSetup s)) = Closed
     \<and> media_outputs (out_of (fst (on_trigger cseq TSetup s))) = []
     \<and> fst (on_setup_response resp (snd (on_trigger cseq TSetup s))) = []"
  by (cases "ws_state s")
    (auto simp: on_trigger_def new_request_eq Let_def out_of_def media_outputs_def on_setup_response_def split: option.split)

text \<open>
  The response to a PAUSE sent while the session was paused already reports
  that media stopped and closes the session, without telling anyone that it ended.
\<close>

theorem second_pause_closes:
  "\<lbrakk>ws_state s = Paused c; tbl_get (ws_pending s) cseq = Some PPause\<rbrakk> \<Longrightarrow>
     ws_state (wfd_step (source_response cseq hs) s) = Closed
     \<and> wfd_output (source_response cseq hs) s = [MediaStopped]"
  by (simp add: response_steps accepted_def on_pause_response_def)

section \<open>A source that derives its level\<close>

lemma default_levels: "contains_idc 0x10 l \<longleftrightarrow> l = 42"
  by (auto simp: contains_idc_def LEVEL_IDCS_def split: option.splits)

text \<open>The level that the first codec of a configuration names.\<close>

definition names_level :: "param_line list \<Rightarrow> u8 \<Rightarrow> bool" where
  "names_level m4 l \<longleftrightarrow>
     (\<exists>chosen c cs. parse_formats (case body_value m4 VideoFormats of Some v \<Rightarrow> v | None \<Rightarrow> ascii ''none'') = Inr chosen
        \<and> codecs chosen = c # cs \<and> lowest_level (levels c) = Some l)"

lemma derived_level:
  "\<lbrakk>codecs source = b # bs; lowest_level (levels b) = Some l;
    pick_best_format default_formats source = Some n\<rbrakk> \<Longrightarrow> nv_level n = min 42 l"
proof -
  assume b: "codecs source = b # bs" "lowest_level (levels b) = Some l"
    and p: "pick_best_format default_formats source = Some n"
  have "lowest_level 0x10 = Some 42" by code_simp
  then show ?thesis
    using p b by (auto simp: pick_best_format_def default_formats_def default_codec_def split: option.splits)
qed

lemma unclaimed_level_refused:
  "\<lbrakk>sc_video (ws_caps s) = default_formats; names_level m4 l; l \<noteq> 42\<rbrakk> \<Longrightarrow> \<exists>e. negotiate s m4 uibc = Inl e"
  by (cases "negotiate s m4 uibc")
    (auto simp: negotiate_def chosen_video_def names_level_def bindE_eq_Inr param_def require_def sink_can_decode_def
      default_formats_def default_codec_def default_levels Let_def split: if_splits option.splits)

text \<open>
  C25. The sink's own advertisement claims level 4.2 alone. When a source that claims a
  lower level derives its format from the two as \<open>pick_best_format\<close> does, the configuration (M4) that
  names the level so derived is refused by the session, which stays as it was.
\<close>

theorem default_advertisement_refused:
  assumes "sc_video (ws_caps s) = default_formats"
    and "codecs source = b # bs" "lowest_level (levels b) = Some l" "l < 42"
    and "pick_best_format default_formats source = Some n"
    and "parse_body body = Inr m4" "body_value m4 TriggerMethod = None" "body_contains m4 PresentationUrl"
    and "names_level m4 (nv_level n)"
  shows "\<exists>e. on_set_parameter cseq body s = (Inl e, s)"
proof -
  have "nv_level n \<noteq> 42" using derived_level [OF assms(2,3,5)] assms(4) by (auto simp: min_def)
  then obtain e where "negotiate s m4 (case body_value m4 UibcCapability of None \<Rightarrow> None | Some v \<Rightarrow> parse_uibc_port v) = Inl e"
    using unclaimed_level_refused [OF assms(1,9)] by blast
  then show ?thesis using assms(6-8) by (simp add: on_set_parameter_def Let_def)
qed

section \<open>A session\<close>

definition sample_formats :: video_formats where
  "sample_formats =
     \<lparr>native = None, preferred_display_mode_supported = False,
      codecs = [default_codec\<lparr>profiles := \<lparr>cbp = False, chp = True\<rparr>, cea := mask_from_wire Cea 0x100,
                  vesa := mask_from_wire Vesa 0, hh := mask_from_wire Hh 0\<rparr>]\<rparr>"

definition sample_caps :: sink_capabilities where
  "sample_caps =
     \<lparr>sc_video = default_formats, sc_audio = audio_default, sc_ports = \<lparr>rp_profile = UdpUnicast, rp_port0 = 19000\<rparr>,
      sc_protection = NoProtection, sc_connector = Hdmi, sc_idr_request = True, sc_uibc = Some SINK_UIBC_CAPABILITY\<rparr>"

lemma sample_caps_default: "sink_default 19000 = Inr sample_caps"
  by (simp add: sink_default_def default_parsed new_ports_def sample_caps_def)

definition sample_url :: bytes where "sample_url = ascii ''rtsp://192.168.173.1/wfd1.0/streamid=0''"

definition sample_m4 :: bytes where
  "sample_m4 =
     render_body
       [(VideoFormats, Some (print_formats sample_formats)), (PresentationUrl, Some (sample_url @ spaced [ascii ''none''])),
        (ClientRtpPorts, Some (print_ports \<lparr>rp_profile = UdpUnicast, rp_port0 = 19000\<rparr>))]"

definition sample_config :: negotiated_config where
  "sample_config =
     \<lparr>nc_video = \<lparr>nv_index = \<lparr>ri_table = Cea, ri_index = 8\<rparr>, nv_profile = ConstrainedHigh, nv_level = 42\<rparr>,
      nc_audio = None, nc_url = sample_url, nc_rtp_port = 19000, nc_uibc_port = None\<rparr>"

lemma m4_sample_fields: "field_ok sample_url" "field_ok (ascii ''none'')"
  by (simp_all add: sample_url_def field_ok_def ascii_def solid_def)

lemma sample_m4_parsed:
  "parse_body sample_m4 =
     Inr [\<lparr>pl_name = VideoFormats, pl_value = Some (print_formats sample_formats)\<rparr>,
          \<lparr>pl_name = PresentationUrl, pl_value = Some (sample_url @ spaced [ascii ''none''])\<rparr>,
          \<lparr>pl_name = ClientRtpPorts, pl_value = Some (print_ports \<lparr>rp_profile = UdpUnicast, rp_port0 = 19000\<rparr>)\<rparr>]"
proof -
  have "value_ok (sample_url @ spaced [ascii ''none''])" by (rule value_ok_fields) (simp_all add: m4_sample_fields)
  then show ?thesis unfolding sample_m4_def
    by (subst parse_rendered) (simp_all add: line_ok_def formats_value ports_value name_known)
qed

lemma sample_urls:
  "parse_urls (sample_url @ spaced [ascii ''none'']) = Inr \<lparr>url0 = Some sample_url, url1 = None\<rparr>"
proof -
  have "split_fields (sample_url @ spaced [ascii ''none'']) = [sample_url, ascii ''none'']"
    by (rule fields_spaced) (simp_all add: m4_sample_fields)
  moreover have "\<not> eq_ignore_ascii_case sample_url (ascii ''none'')"
    using eq_ignore_length [of sample_url "ascii ''none''"] by (auto simp: sample_url_def ascii_def)
  moreover have "eq_ignore_ascii_case (ascii ''none'') (ascii ''none'')" by (simp add: eq_ignore_ascii_case_def)
  ultimately show ?thesis by (simp add: parse_urls_def url_of_def Let_def)
qed

lemma sample_formats_parsed: "parse_formats (print_formats sample_formats) = Inr sample_formats"
  by (rule video_formats_roundtrip)
    (simp add: formats_ok_def sample_formats_def codec_ok_def default_codec_def mask_from_wire_def frc_from_bits_def)

lemma sample_index:
  "chosen_index (hd (codecs sample_formats)) = Some \<lparr>ri_table = Cea, ri_index = 8\<rparr>"
  "lowest_level 0x10 = Some 42"
  "mask_contains (mask_from_wire Cea 0x1FFFF) \<lparr>ri_table = Cea, ri_index = 8\<rparr>"
  by code_simp+

lemma sample_negotiated: "m4_config sample_caps sample_m4 = Some sample_config"
proof -
  have p: "parse_ports (print_ports \<lparr>rp_profile = UdpUnicast, rp_port0 = 19000\<rparr>) = Inr \<lparr>rp_profile = UdpUnicast, rp_port0 = 19000\<rparr>"
    by (rule client_ports_roundtrip) (simp add: ports_ok_def)
  show ?thesis
    using sample_index(1)
    by (simp add: m4_config_def sample_m4_parsed body_value_def body_contains_def negotiate_def sample_urls param_def require_def
        check_protection_def chosen_video_def sample_formats_parsed new_session_def p sample_config_def sample_caps_def)
      (simp add: sample_formats_def default_codec_def lowest_profile_def sample_index sink_can_decode_def default_formats_def
        profiles_both_def default_levels)
qed

lemma sample_query: "is_query (render_body [(VideoFormats, None)])"
proof -
  have "parse_body (render_body [(VideoFormats, None)]) = Inr [\<lparr>pl_name = VideoFormats, pl_value = None\<rparr>]"
    by (subst parse_rendered) (simp_all add: line_ok_def name_known)
  moreover have "\<not> list_all ascii_whitespace (render_body [(VideoFormats, None)])"
    by (simp add: render_body_def render_line_def ascii_def ascii_whitespace_def)
  ultimately show ?thesis by (simp add: is_query_def)
qed

theorem handshake_plays_witness:
  "ws_state (fold wfd_step (handshake 0 1 2 3 (render_body [(VideoFormats, None)]) sample_m4 []) (new_session sample_caps))
     = Playing sample_config"
  using handshake_plays [OF sample_query sample_negotiated, of 0 1 2 3 "[]"] by (simp add: Let_def)

theorem only_advertised_media_witness: "config_ok sample_caps sample_config"
proof (rule only_advertised_media)
  show "rp_port0 (sc_ports sample_caps) \<noteq> 0" by (simp add: sample_caps_def)
  let ?out = "wfd_outputs (handshake 0 1 2 3 (render_body [(VideoFormats, None)]) sample_m4 []) (new_session sample_caps)"
  have "media_outputs ?out = [MediaStarted sample_config]"
    using handshake_run [OF sample_query sample_negotiated, of 0 1 2 3 "[]"] by (simp add: Let_def)
  then have "MediaStarted sample_config \<in> set (media_outputs ?out)" by simp
  then show "MediaStarted sample_config \<in> set ?out" by (simp add: media_outputs_def)
qed

definition playing_session :: wfd_session where
  "playing_session = (new_session sample_caps)\<lparr>ws_state := Playing sample_config, ws_next_cseq := 4\<rparr>"

theorem late_setup_trigger_closes_witness:
  "ws_state (snd (on_trigger 9 TSetup playing_session)) = Closed
     \<and> media_outputs (out_of (fst (on_trigger 9 TSetup playing_session))) = []
     \<and> fst (on_setup_response \<lparr>rs_status = 200, rs_headers = []\<rparr> (snd (on_trigger 9 TSetup playing_session))) = []"
  by (rule late_setup_trigger_closes) (simp_all add: playing_session_def)

theorem second_pause_closes_witness:
  "ws_state (wfd_step (source_response 5 []) (playing_session\<lparr>ws_state := Paused sample_config, ws_pending := [(5, PPause)]\<rparr>)) = Closed
     \<and> wfd_output (source_response 5 []) (playing_session\<lparr>ws_state := Paused sample_config, ws_pending := [(5, PPause)]\<rparr>) = [MediaStopped]"
  by (rule second_pause_closes) simp_all

definition aosp_formats :: video_formats where
  "aosp_formats =
     \<lparr>native = None, preferred_display_mode_supported = False,
      codecs = [default_codec\<lparr>profiles := \<lparr>cbp = True, chp = False\<rparr>, levels := 0x01, cea := mask_from_wire Cea 0x3F,
                  vesa := mask_from_wire Vesa 0, hh := mask_from_wire Hh 0\<rparr>]\<rparr>"

definition aosp_modes :: "(resolution_index \<times> video_mode) list" where
  "aosp_modes =
     [(cea_index 0, new_mode 640 480 60 False), (cea_index 1, new_mode 720 480 60 False),
      (cea_index 2, new_mode 720 480 60 True), (cea_index 3, new_mode 720 576 50 False),
      (cea_index 4, new_mode 720 576 50 True), (cea_index 5, new_mode 1280 720 30 False)]"

lemma aosp_common:
  "common_modes default_codec (hd (codecs aosp_formats)) = aosp_modes"
  by code_simp

lemma aosp_pick:
  "pick_best_format default_formats aosp_formats =
     Some \<lparr>nv_index = \<lparr>ri_table = Cea, ri_index = 5\<rparr>, nv_profile = ConstrainedBaseline, nv_level = 31\<rparr>"
proof -
  have l: "lowest_level 0x10 = Some 42" "lowest_level 0x01 = Some 31" by code_simp+
  have c: "max_by_key mode_key (common_modes default_codec (hd (codecs aosp_formats))) = Some (cea_index 5, new_mode 1280 720 30 False)"
    unfolding aosp_common aosp_modes_def by (rule best_of_first)
  then show ?thesis using l
    by (simp add: pick_best_format_def default_formats_def aosp_formats_def)
      (simp add: default_codec_def profiles_both_def lowest_profile_def cea_index_def min_def less_eq_profile_def)
qed

definition aosp_chosen :: video_formats where
  "aosp_chosen =
     \<lparr>native = None, preferred_display_mode_supported = False,
      codecs = [default_codec\<lparr>profiles := \<lparr>cbp = True, chp = False\<rparr>, levels := 0x01, cea := mask_from_wire Cea 0x20,
                  vesa := mask_from_wire Vesa 0, hh := mask_from_wire Hh 0\<rparr>]\<rparr>"

definition aosp_m4 :: bytes where
  "aosp_m4 =
     render_body
       [(VideoFormats, Some (print_formats aosp_chosen)), (PresentationUrl, Some (sample_url @ spaced [ascii ''none'']))]"

lemma aosp_m4_parsed:
  "parse_body aosp_m4 =
     Inr [\<lparr>pl_name = VideoFormats, pl_value = Some (print_formats aosp_chosen)\<rparr>,
          \<lparr>pl_name = PresentationUrl, pl_value = Some (sample_url @ spaced [ascii ''none''])\<rparr>]"
proof -
  have "value_ok (sample_url @ spaced [ascii ''none''])" by (rule value_ok_fields) (simp_all add: m4_sample_fields)
  then show ?thesis unfolding aosp_m4_def
    by (subst parse_rendered) (simp_all add: line_ok_def formats_value name_known)
qed

lemma aosp_chosen_parsed: "parse_formats (print_formats aosp_chosen) = Inr aosp_chosen"
  by (rule video_formats_roundtrip)
    (simp add: formats_ok_def aosp_chosen_def codec_ok_def default_codec_def mask_from_wire_def frc_from_bits_def)

theorem default_advertisement_refused_witness:
  "\<exists>e. on_set_parameter 4 aosp_m4 (new_session sample_caps) = (Inl e, new_session sample_caps)"
proof -
  have l: "lowest_level 0x01 = Some 31" by code_simp
  show ?thesis
  proof (rule default_advertisement_refused [OF _ _ _ _ aosp_pick aosp_m4_parsed])
    show "sc_video (ws_caps (new_session sample_caps)) = default_formats" by (simp add: new_session_def sample_caps_def)
    show "codecs aosp_formats = hd (codecs aosp_formats) # []" by (simp add: aosp_formats_def)
    show "lowest_level (levels (hd (codecs aosp_formats))) = Some 31" using l by (simp add: aosp_formats_def)
    show "(31 :: u8) < 42" by simp
    show "names_level [\<lparr>pl_name = VideoFormats, pl_value = Some (print_formats aosp_chosen)\<rparr>,
          \<lparr>pl_name = PresentationUrl, pl_value = Some (sample_url @ spaced [ascii ''none''])\<rparr>]
        (nv_level \<lparr>nv_index = \<lparr>ri_table = Cea, ri_index = 5\<rparr>, nv_profile = ConstrainedBaseline, nv_level = 31\<rparr>)"
      using l by (simp add: names_level_def body_value_def aosp_chosen_parsed) (simp add: aosp_chosen_def)
  qed (simp_all add: body_value_def body_contains_def)
qed

end
