(* ===== verification/Wfd_Ie.thy ===== *)
theory Wfd_Ie
  imports Wire
begin

text \<open>
  The WFD information element of \<^verbatim>\<open>crates/proto-miracast/src/ie.rs\<close>: the subelements a sink beacons,
  the elements that carry them, split at 251 octets, and the frame they are read back from.
\<close>

section \<open>Subelements\<close>

datatype ie_error = IeTruncated | NotWfd | BadSubelementLength u8 nat nat

datatype subelement_id =
    DeviceInformationId | AssociatedBssid | CoupledSink | ExtendedCapabilityId | LocalIpAddress
  | SessionInformation | AlternativeMacAddress | R2DeviceInformation | OtherId u8

fun subelement_wire :: "subelement_id \<Rightarrow> u8" where
  "subelement_wire DeviceInformationId = 0"
| "subelement_wire AssociatedBssid = 1"
| "subelement_wire CoupledSink = 6"
| "subelement_wire ExtendedCapabilityId = 7"
| "subelement_wire LocalIpAddress = 8"
| "subelement_wire SessionInformation = 9"
| "subelement_wire AlternativeMacAddress = 10"
| "subelement_wire R2DeviceInformation = 11"
| "subelement_wire (OtherId v) = v"

definition subelement_from_wire :: "u8 \<Rightarrow> subelement_id" where
  "subelement_from_wire raw =
     (if raw = 0 then DeviceInformationId else if raw = 1 then AssociatedBssid else if raw = 6 then CoupledSink
      else if raw = 7 then ExtendedCapabilityId else if raw = 8 then LocalIpAddress
      else if raw = 9 then SessionInformation else if raw = 10 then AlternativeMacAddress
      else if raw = 11 then R2DeviceInformation else OtherId raw)"

section \<open>Device information\<close>

datatype device_type = Source | PrimarySink | SecondarySink | SourceAndPrimarySink

fun device_wire :: "device_type \<Rightarrow> u16" where
  "device_wire Source = 0"
| "device_wire PrimarySink = 1"
| "device_wire SecondarySink = 2"
| "device_wire SourceAndPrimarySink = 3"

definition device_from_wire :: "u16 \<Rightarrow> device_type" where
  "device_from_wire raw =
     (let t = raw AND 3 in
      if t = 0 then Source else if t = 1 then PrimarySink else if t = 2 then SecondarySink else SourceAndPrimarySink)"

fun is_sink :: "device_type \<Rightarrow> bool" where
  "is_sink Source = False"
| "is_sink PrimarySink = True"
| "is_sink SecondarySink = True"
| "is_sink SourceAndPrimarySink = True"

datatype session_availability = NotAvailable | Available
datatype preferred_connectivity = WifiDirect | Tdls

record device_information =
  di_device_type :: device_type
  di_availability :: session_availability
  di_connectivity :: preferred_connectivity
  di_content_protection :: bool
  di_service_discovery :: bool
  di_time_sync :: bool
  di_audio_unsupported :: bool
  di_audio_only :: bool
  di_coupled_at_source :: bool
  di_coupled_at_sink :: bool
  di_control_port :: u16
  di_max_throughput :: u16

definition sink_device :: "u16 \<Rightarrow> u16 \<Rightarrow> device_information" where
  "sink_device port mbps =
     \<lparr>di_device_type = PrimarySink, di_availability = Available, di_connectivity = WifiDirect,
      di_content_protection = False, di_service_discovery = False, di_time_sync = False,
      di_audio_unsupported = False, di_audio_only = False, di_coupled_at_source = False,
      di_coupled_at_sink = False, di_control_port = port, di_max_throughput = mbps\<rparr>"

definition busy :: "device_information \<Rightarrow> device_information" where
  "busy d = d\<lparr>di_availability := NotAvailable\<rparr>"

definition bitmap :: "device_information \<Rightarrow> u16" where
  "bitmap d =
     device_wire (di_device_type d)
     OR (if di_coupled_at_source d then 0x0004 else 0)
     OR (if di_coupled_at_sink d then 0x0008 else 0)
     OR (if di_availability d = Available then 0x0010 else 0)
     OR (if di_service_discovery d then 0x0040 else 0)
     OR (if di_connectivity d = Tdls then 0x0080 else 0)
     OR (if di_content_protection d then 0x0100 else 0)
     OR (if di_time_sync d then 0x0200 else 0)
     OR (if di_audio_unsupported d then 0x0400 else 0)
     OR (if di_audio_only d then 0x0800 else 0)"

definition device_parse :: "bytes \<Rightarrow> ie_error + device_information" where
  "device_parse body =
     (if length body < 6 then Inl IeTruncated
      else let bits = u16_be_at body 0 in
        Inr \<lparr>di_device_type = device_from_wire bits,
             di_availability = (if drop_bit 4 bits AND 3 = 1 then Available else NotAvailable),
             di_connectivity = (if bits AND 0x0080 = 0 then WifiDirect else Tdls),
             di_content_protection = (bits AND 0x0100 \<noteq> 0), di_service_discovery = (bits AND 0x0040 \<noteq> 0),
             di_time_sync = (bits AND 0x0200 \<noteq> 0), di_audio_unsupported = (bits AND 0x0400 \<noteq> 0),
             di_audio_only = (bits AND 0x0800 \<noteq> 0), di_coupled_at_source = (bits AND 0x0004 \<noteq> 0),
             di_coupled_at_sink = (bits AND 0x0008 \<noteq> 0), di_control_port = u16_be_at body 2,
             di_max_throughput = u16_be_at body 4\<rparr>)"

definition to_body :: "device_information \<Rightarrow> bytes" where
  "to_body d = be16 (bitmap d) @ be16 (di_control_port d) @ be16 (di_max_throughput d)"

section \<open>Extended capability\<close>

record extended_capability =
  xc_uibc :: bool
  xc_i2c :: bool
  xc_preferred_display_mode :: bool
  xc_standby_resume :: bool
  xc_tdls_persistent :: bool
  xc_tdls_persistent_bssid :: bool

definition extended_bits :: "extended_capability \<Rightarrow> u16" where
  "extended_bits x =
     of_bool (xc_uibc x) OR push_bit 1 (of_bool (xc_i2c x)) OR push_bit 2 (of_bool (xc_preferred_display_mode x))
     OR push_bit 3 (of_bool (xc_standby_resume x)) OR push_bit 4 (of_bool (xc_tdls_persistent x))
     OR push_bit 5 (of_bool (xc_tdls_persistent_bssid x))"

definition extended_from_bits :: "u16 \<Rightarrow> extended_capability" where
  "extended_from_bits bits =
     \<lparr>xc_uibc = (bits AND 0x0001 \<noteq> 0), xc_i2c = (bits AND 0x0002 \<noteq> 0),
      xc_preferred_display_mode = (bits AND 0x0004 \<noteq> 0), xc_standby_resume = (bits AND 0x0008 \<noteq> 0),
      xc_tdls_persistent = (bits AND 0x0010 \<noteq> 0), xc_tdls_persistent_bssid = (bits AND 0x0020 \<noteq> 0)\<rparr>"

section \<open>The element\<close>

definition ELEMENT_ID :: u8 where "ELEMENT_ID = 0xDD"
definition OUI_WFA :: bytes where "OUI_WFA = [0x50, 0x6F, 0x9A]"
definition OUI_TYPE_WFD :: u8 where "OUI_TYPE_WFD = 0x0A"
definition MAX_SUBELEMENTS_PER_IE :: nat where "MAX_SUBELEMENTS_PER_IE = 251"

type_synonym subelement = "subelement_id \<times> bytes"

definition sink_ie :: "device_information \<Rightarrow> extended_capability \<Rightarrow> subelement list" where
  "sink_ie device extended =
     [(DeviceInformationId, to_body device), (ExtendedCapabilityId, be16 (extended_bits extended))]"

definition device_information_of :: "subelement list \<Rightarrow> ie_error + device_information option" where
  "device_information_of subs =
     (case find (\<lambda>s. fst s = DeviceInformationId) subs of
        None \<Rightarrow> Inr None
      | Some s \<Rightarrow> bindE (device_parse (snd s)) (\<lambda>d. Inr (Some d)))"

definition extended_capability_of :: "subelement list \<Rightarrow> extended_capability option" where
  "extended_capability_of subs =
     (case find (\<lambda>s. fst s = ExtendedCapabilityId) subs of
        None \<Rightarrow> None
      | Some s \<Rightarrow> if length (snd s) < 2 then None else Some (extended_from_bits (u16_be_at (snd s) 0)))"

function parse_subelements :: "bytes \<Rightarrow> ie_error + subelement list" where
  "parse_subelements bs =
     (if bs = [] then Inr []
      else if length bs < 3 then Inl IeTruncated
      else let declared = unat (u16_be_at bs 1) in
        if length bs < 3 + declared then Inl (BadSubelementLength (bs ! 0) declared (length bs - 3))
        else bindE (parse_subelements (drop (3 + declared) bs))
               (\<lambda>subs. Inr ((subelement_from_wire (bs ! 0), take declared (drop 3 bs)) # subs)))"
  by pat_completeness auto
termination by (relation "measure length") auto

declare parse_subelements.simps [simp del]

definition wfd_body :: "u8 \<Rightarrow> bytes \<Rightarrow> bool" where
  "wfd_body e body \<longleftrightarrow>
     e = ELEMENT_ID \<and> 3 \<le> length body \<and> take 3 body = OUI_WFA \<and> 4 \<le> length body \<and> body ! 3 = OUI_TYPE_WFD"

function join_elements :: "bytes \<Rightarrow> ie_error + bytes" where
  "join_elements es =
     (if es = [] then Inr []
      else if length es < 2 then Inl IeTruncated
      else let len = unat (es ! 1) in
        if length es < 2 + len then Inl IeTruncated
        else let body = take len (drop 2 es) in
          bindE (join_elements (drop (2 + len) es))
            (\<lambda>rest. Inr ((if wfd_body (es ! 0) body then drop 4 body else []) @ rest)))"
  by pat_completeness auto
termination by (relation "measure length") auto

declare join_elements.simps [simp del]

definition parse_frame :: "bytes \<Rightarrow> ie_error + subelement list" where
  "parse_frame es =
     bindE (join_elements es) (\<lambda>joined. if joined = [] then Inl NotWfd else parse_subelements joined)"

definition sub_encode :: "subelement \<Rightarrow> bytes" where
  "sub_encode s = subelement_wire (fst s) # be16 (u16_or_max (length (snd s))) @ snd s"

definition to_subelements :: "subelement list \<Rightarrow> bytes" where
  "to_subelements subs = concat (map sub_encode subs)"

function body_chunks :: "nat \<Rightarrow> bytes \<Rightarrow> bytes list" where
  "body_chunks n bs = (if bs = [] \<or> n = 0 then [] else take n bs # body_chunks n (drop n bs))"
  by pat_completeness auto
termination by (relation "measure (\<lambda>(_, bs). length bs)") auto

declare body_chunks.simps [simp del]

definition wfd_element :: "bytes \<Rightarrow> bytes" where
  "wfd_element chunk = [ELEMENT_ID, u8_or_max (length chunk + 4)] @ OUI_WFA @ [OUI_TYPE_WFD] @ chunk"

definition to_elements :: "subelement list \<Rightarrow> bytes" where
  "to_elements subs = concat (map wfd_element (body_chunks MAX_SUBELEMENTS_PER_IE (to_subelements subs)))"

definition low_hex_digit :: "nat \<Rightarrow> u8" where
  "low_hex_digit n = (if n < 10 then 0x30 + of_nat n else 0x61 + of_nat (n - 10))"

definition low_hex :: "u8 \<Rightarrow> bytes" where
  "low_hex b = [low_hex_digit (unat b div 16), low_hex_digit (unat b mod 16)]"

definition subelem_set_hex :: "subelement \<Rightarrow> bytes" where
  "subelem_set_hex s = concat (map low_hex (be16 (u16_or_max (length (snd s))) @ snd s))"

section \<open>What is written is read back\<close>

lemma from_wire_id: "(\<forall>v. i = OtherId v \<longrightarrow> v \<notin> {0, 1, 6, 7, 8, 9, 10, 11}) \<Longrightarrow> subelement_from_wire (subelement_wire i) = i"
  by (cases i) (auto simp: subelement_from_wire_def)

lemma if_and: "(if b then x else y) AND z = (if b then x AND z else y AND (z :: 'a::len word))"
  by simp

lemma device_wire_and:
  "device_wire t AND 0x0004 = 0" "device_wire t AND 0x0008 = 0" "device_wire t AND 0x0040 = 0"
  "device_wire t AND 0x0080 = 0" "device_wire t AND 0x0100 = 0" "device_wire t AND 0x0200 = 0"
  "device_wire t AND 0x0400 = 0" "device_wire t AND 0x0800 = 0" "device_wire t AND 3 = device_wire t"
  "drop_bit 4 (device_wire t) = 0"
  by (cases t; simp)+

lemmas bitmap_flags = bitmap_def bit.conj_disj_distrib2 if_and device_wire_and

lemma device_from_bitmap: "device_from_wire (bitmap d) = di_device_type d"
proof -
  have "bitmap d AND 3 = device_wire (di_device_type d)" by (simp add: bitmap_flags)
  then show ?thesis by (cases "di_device_type d") (simp_all add: device_from_wire_def)
qed

lemma availability_from_bitmap: "drop_bit 4 (bitmap d) AND 3 = 1 \<longleftrightarrow> di_availability d = Available"
  by (simp add: bitmap_def bit.conj_disj_distrib2 if_distrib [of "drop_bit 4"] if_and device_wire_and cong: if_cong)

text \<open>
  The six octets of a device information are read back as they were, whatever follows.
\<close>

theorem device_information_roundtrip: "device_parse (to_body d @ rest) = Inr d"
proof -
  have b: "u16_be_at (to_body d @ rest) 0 = bitmap d" "u16_be_at (to_body d @ rest) 2 = di_control_port d"
    "u16_be_at (to_body d @ rest) 4 = di_max_throughput d"
    by (simp_all add: to_body_def wire_simps)
  have c: "bitmap d AND 0x0080 = (if di_connectivity d = Tdls then 0x0080 else 0)"
    "bitmap d AND 0x0100 \<noteq> 0 \<longleftrightarrow> di_content_protection d" "bitmap d AND 0x0040 \<noteq> 0 \<longleftrightarrow> di_service_discovery d"
    "bitmap d AND 0x0200 \<noteq> 0 \<longleftrightarrow> di_time_sync d" "bitmap d AND 0x0400 \<noteq> 0 \<longleftrightarrow> di_audio_unsupported d"
    "bitmap d AND 0x0800 \<noteq> 0 \<longleftrightarrow> di_audio_only d" "bitmap d AND 0x0004 \<noteq> 0 \<longleftrightarrow> di_coupled_at_source d"
    "bitmap d AND 0x0008 \<noteq> 0 \<longleftrightarrow> di_coupled_at_sink d"
    by (simp_all add: bitmap_flags)
  have e: "(if di_availability d = Available then Available else NotAvailable) = di_availability d"
    "(if (if di_connectivity d = Tdls then 0x0080 else 0) = (0 :: u16) then WifiDirect else Tdls) = di_connectivity d"
    by (cases "di_availability d"; simp) (cases "di_connectivity d"; simp)
  have "\<not> length (to_body d @ rest) < 6" by (simp add: to_body_def)
  then show ?thesis
    by (simp only: device_parse_def if_False Let_def b device_from_bitmap availability_from_bitmap c e) simp
qed

text \<open>
  The bitmap of the extended capabilities is read back as it was.
\<close>

theorem extended_capability_roundtrip: "extended_from_bits (extended_bits x) = x"
  by (simp add: extended_from_bits_def extended_bits_def bit.conj_disj_distrib2 of_bool_def if_distrib [of "push_bit _"] if_and
      cong: if_cong)

definition sub_ok :: "subelement \<Rightarrow> bool" where
  "sub_ok s \<longleftrightarrow> length (snd s) < 2 ^ 16 \<and> (\<forall>v. fst s = OtherId v \<longrightarrow> v \<notin> {0, 1, 6, 7, 8, 9, 10, 11})"

lemma parse_sub_step:
  assumes "sub_ok s"
  shows "parse_subelements (sub_encode s @ rest) = bindE (parse_subelements rest) (\<lambda>subs. Inr (s # subs))"
proof -
  obtain i body where s: "s = (i, body)" by (cases s)
  have n: "u16_or_max (length body) = of_nat (length body)" "unat (of_nat (length body) :: u16) = length body"
    using assms by (simp_all add: sub_ok_def s u16_or_max_def u16_try_from_def)
  have e: "sub_encode s @ rest = subelement_wire i # be16 (of_nat (length body)) @ body @ rest"
    by (simp add: sub_encode_def s n)
  obtain bs where bs: "bs = sub_encode s @ rest" by simp
  have d: "unat (u16_be_at bs 1) = length body"
    using n(2) by (simp add: bs e u16_be_at_def be16_def)
  have l: "bs \<noteq> []" "\<not> length bs < 3" "\<not> length bs < 3 + length body"
    by (simp_all add: bs e)
  have t: "take (length body) (drop 3 bs) = body" "bs ! 0 = subelement_wire i" "drop (3 + length body) bs = rest"
    by (simp_all add: bs e be16_def numeral_3_eq_3)
  have "subelement_from_wire (subelement_wire i) = i" using assms by (intro from_wire_id) (simp add: sub_ok_def s)
  then show ?thesis
    unfolding bs [symmetric] using l
    by (subst parse_subelements.simps) (simp add: d [simplified] t s Let_def)
qed

interpretation subelements: stream_codec sub_encode sub_ok parse_subelements
  by unfold_locales (simp_all add: parse_sub_step parse_subelements.simps [of "[]"])

section \<open>Elements of a frame\<close>

type_synonym element = "u8 \<times> bytes"

definition ie_element_encode :: "element \<Rightarrow> bytes" where
  "ie_element_encode e = fst e # of_nat (length (snd e)) # snd e"

definition element_ok :: "element \<Rightarrow> bool" where
  "element_ok e \<longleftrightarrow> length (snd e) < 256"

definition wfd_payload :: "element \<Rightarrow> bytes" where
  "wfd_payload e = (if wfd_body (fst e) (snd e) then drop 4 (snd e) else [])"

lemma join_step:
  assumes "element_ok e"
  shows "join_elements (ie_element_encode e @ rest) = bindE (join_elements rest) (\<lambda>bs. Inr (wfd_payload e @ bs))"
proof -
  obtain i body where e: "e = (i, body)" by (cases e)
  have n: "unat (of_nat (length body) :: u8) = length body" using assms by (simp add: element_ok_def e)
  show ?thesis
    by (subst join_elements.simps) (simp add: ie_element_encode_def e n wfd_payload_def Let_def)
qed

lemma join_all: "list_all element_ok es \<Longrightarrow> join_elements (concat (map ie_element_encode es)) = Inr (concat (map wfd_payload es))"
  by (induction es) (simp_all add: join_step join_elements.simps [of "[]"])

text \<open>
  However the bytes of the subelements are cut into WFD elements, inside a subelement
  too, and whatever other elements are between them, the subelements are read back.
\<close>

theorem ie_frame_roundtrip:
  "\<lbrakk>list_all element_ok es; concat (map wfd_payload es) = to_subelements subs; list_all sub_ok subs; subs \<noteq> []\<rbrakk> \<Longrightarrow>
     parse_frame (concat (map ie_element_encode es)) = Inr subs"
proof -
  assume es: "list_all element_ok es" and joined: "concat (map wfd_payload es) = to_subelements subs"
    and subs: "list_all sub_ok subs" "subs \<noteq> []"
  have "to_subelements subs \<noteq> []" using subs(2) by (cases subs) (simp_all add: to_subelements_def sub_encode_def)
  then show ?thesis
    using subelements.dec_all [OF subs(1)] by (simp add: parse_frame_def join_all [OF es] joined to_subelements_def [symmetric])
qed

lemma concat_body_chunks: "0 < n \<Longrightarrow> concat (body_chunks n bs) = bs"
  by (induction n bs rule: body_chunks.induct) (subst body_chunks.simps, auto)

lemma chunk_length: "c \<in> set (body_chunks n bs) \<Longrightarrow> length c \<le> n"
proof (induction n bs rule: body_chunks.induct)
  case (1 n bs)
  then show ?case by (subst (asm) (2) body_chunks.simps) (auto split: if_splits)
qed

lemma wfd_element_encode:
  assumes "length c \<le> 251"
  shows "wfd_element c = ie_element_encode (ELEMENT_ID, OUI_WFA @ [OUI_TYPE_WFD] @ c)"
    and "element_ok (ELEMENT_ID, OUI_WFA @ [OUI_TYPE_WFD] @ c)"
    and "wfd_payload (ELEMENT_ID, OUI_WFA @ [OUI_TYPE_WFD] @ c) = c"
  using assms by (simp_all add: wfd_element_def ie_element_encode_def element_ok_def u8_or_max_def wfd_payload_def
      wfd_body_def OUI_WFA_def add.commute)

text \<open>A sink's own elements, with the elements of others before and after them.\<close>

text \<open>
  The elements a sink emits, with the elements of others before and after
  them, are read back as its subelements.
\<close>

theorem elements_found_in_frame:
  "\<lbrakk>list_all element_ok es; list_all element_ok fs; \<forall>e\<in>set (es @ fs). \<not> wfd_body (fst e) (snd e);
    list_all sub_ok subs; subs \<noteq> []\<rbrakk> \<Longrightarrow>
     parse_frame (concat (map ie_element_encode es) @ to_elements subs @ concat (map ie_element_encode fs)) = Inr subs"
proof -
  assume es: "list_all element_ok es" and fs: "list_all element_ok fs"
    and foreign: "\<forall>e\<in>set (es @ fs). \<not> wfd_body (fst e) (snd e)"
    and subs: "list_all sub_ok subs" "subs \<noteq> []"
  let ?cs = "body_chunks MAX_SUBELEMENTS_PER_IE (to_subelements subs)"
  let ?el = "\<lambda>c. (ELEMENT_ID, OUI_WFA @ [OUI_TYPE_WFD] @ c)"
  have len: "length c \<le> 251" if "c \<in> set ?cs" for c
    using chunk_length [OF that] by (simp add: MAX_SUBELEMENTS_PER_IE_def)
  have "to_elements subs = concat (map ie_element_encode (map ?el ?cs))"
    unfolding to_elements_def map_map comp_def
    by (intro arg_cong [of _ _ concat] map_cong refl wfd_element_encode(1) len)
  moreover have "list_all element_ok (map ?el ?cs)" using wfd_element_encode(2) len by (auto simp: list_all_iff)
  moreover have p: "concat (map wfd_payload (map ?el ?cs)) = to_subelements subs"
  proof -
    have "map wfd_payload (map ?el ?cs) = ?cs"
      unfolding map_map comp_def by (rule map_idI) (intro wfd_element_encode(3) len)
    then show ?thesis by (simp add: concat_body_chunks MAX_SUBELEMENTS_PER_IE_def)
  qed
  have none: "concat (map wfd_payload es) = []" "concat (map wfd_payload fs) = []"
    using foreign by (auto simp: wfd_payload_def)
  moreover have all: "concat (map wfd_payload (es @ map ?el ?cs @ fs)) = to_subelements subs"
    by (simp only: map_append concat_append none p append_Nil append_Nil2)
  moreover have ok: "list_all element_ok (es @ map ?el ?cs @ fs)" using calculation(2) es fs by simp
  ultimately show ?thesis
    using ie_frame_roundtrip [OF ok all subs] by (simp only: map_append concat_append)
qed

text \<open>
  A source that reads the elements of a sink finds a sink that accepts sessions on its
  port, with its capabilities.
\<close>

theorem sink_is_shown:
  "\<exists>d. bindE (parse_frame (to_elements (sink_ie (sink_device port mbps) x))) device_information_of = Inr (Some d)
     \<and> is_sink (di_device_type d) \<and> di_availability d = Available \<and> di_control_port d = port
     \<and> bindE (parse_frame (to_elements (sink_ie (sink_device port mbps) x))) (\<lambda>s. Inr (extended_capability_of s)) = Inr (Some x)"
proof -
  let ?ie = "sink_ie (sink_device port mbps) x"
  have "parse_frame (to_elements ?ie) = Inr ?ie"
    using elements_found_in_frame [of "[]" "[]" ?ie] by (simp add: sink_ie_def sub_ok_def to_body_def)
  moreover have "device_information_of ?ie = Inr (Some (sink_device port mbps))"
    using device_information_roundtrip [of "sink_device port mbps" "[]"] by (simp add: device_information_of_def sink_ie_def)
  moreover have "extended_capability_of ?ie = Some x"
    using u16_be_at_be16(2) [of "extended_bits x"]
    by (simp add: extended_capability_of_def sink_ie_def extended_capability_roundtrip)
  ultimately show ?thesis by (simp add: sink_device_def)
qed

section \<open>Witnesses\<close>

text \<open>A subelement cut in two, with a Wi-Fi Direct element between the halves.\<close>

theorem ie_frame_roundtrip_witness:
  "parse_frame (concat (map ie_element_encode
     [(0xDD, [0x50, 0x6F, 0x9A, 0x0A, 0, 0]), (0xDD, [0x50, 0x6F, 0x9A, 0x09, 2, 0, 7]), (0xDD, [0x50, 0x6F, 0x9A, 0x0A, 2, 7, 8])]))
   = Inr [(DeviceInformationId, [7, 8])]"
proof (rule ie_frame_roundtrip)
  show "concat (map wfd_payload
     [(0xDD, [0x50, 0x6F, 0x9A, 0x0A, 0, 0]), (0xDD, [0x50, 0x6F, 0x9A, 0x09, 2, 0, 7]), (0xDD, [0x50, 0x6F, 0x9A, 0x0A, 2, 7, 8])])
    = to_subelements [(DeviceInformationId, [7, 8])]"
    by (simp add: wfd_payload_def wfd_body_def ELEMENT_ID_def OUI_WFA_def OUI_TYPE_WFD_def to_subelements_def sub_encode_def
        u16_or_max_def u16_try_from_def be16_def)
qed (simp_all add: element_ok_def sub_ok_def)

theorem elements_found_in_frame_witness:
  "parse_frame (concat (map ie_element_encode [(0, [65, 66])]) @ to_elements [(CoupledSink, [0, 0, 0, 0, 0, 0, 0])]
     @ concat (map ie_element_encode [(0xDD, [0x50, 0x6F, 0x9A, 0x09, 2])])) = Inr [(CoupledSink, [0, 0, 0, 0, 0, 0, 0])]"
  by (rule elements_found_in_frame) (simp_all add: element_ok_def sub_ok_def wfd_body_def ELEMENT_ID_def OUI_TYPE_WFD_def)

end
