(* ===== verification/Mice.thy ===== *)
theory Mice
  imports Text
begin

text \<open>
  Miracast over Infrastructure, \<^verbatim>\<open>crates/proto-miracast/src/mice.rs\<close>: the messages of the control
  channel with their encoder and decoder, the capability a sink announces, and the state
  machine of one channel. SHA-256 is a parameter of the PIN hash.
\<close>

section \<open>Messages\<close>

datatype mice_error =
    MiceTruncated
  | ShortMessage nat
  | TooLong nat
  | UnknownVersion u8
  | UnknownCommand u8
  | MissingTlv u8
  | BadTlvLength u8 nat
  | BadFriendlyName
  | IllegalSecurityOptions u8
  | UnknownPinReason u8
  | QualifiedHostName bytes

definition DEFAULT_RTSP_PORT :: u16 where "DEFAULT_RTSP_PORT = 7236"
definition ESTABLISHMENT_TIMEOUT :: duration where "ESTABLISHMENT_TIMEOUT = from_secs 30"
definition MICE_VERSION :: u8 where "MICE_VERSION = 1"
definition HEADER_LEN :: nat where "HEADER_LEN = 4"

text \<open>Sixteen bytes.\<close>

type_synonym source_id = bytes

datatype pin_reason = Accepted | WrongPin | InvalidMessage

fun reason_bits :: "pin_reason \<Rightarrow> u8" where
  "reason_bits Accepted = 0"
| "reason_bits WrongPin = 1"
| "reason_bits InvalidMessage = 2"

definition reason_from_bits :: "u8 \<Rightarrow> pin_reason option" where
  "reason_from_bits raw =
     (if raw = 0 then Some Accepted else if raw = 1 then Some WrongPin else if raw = 2 then Some InvalidMessage else None)"

record security_options =
  so_dtls :: bool
  so_pin :: bool

definition security_bits :: "security_options \<Rightarrow> u8" where
  "security_bits s = of_bool (so_dtls s) OR push_bit 1 (of_bool (so_pin s))"

definition security_from_bits :: "u8 \<Rightarrow> mice_error + security_options" where
  "security_from_bits raw =
     (let s = \<lparr>so_dtls = (raw AND 1 \<noteq> 0), so_pin = (raw AND 2 \<noteq> 0)\<rparr> in
      if so_pin s \<and> \<not> so_dtls s then Inl (IllegalSecurityOptions raw) else Inr s)"

datatype mice_message =
    SourceReady "bytes option" u16 source_id
  | StopProjection "bytes option" source_id
  | SecurityHandshake bytes
  | SessionRequest bytes source_id security_options
  | PinChallenge source_id bytes
  | PinResponse source_id pin_reason

fun message_name :: "mice_message \<Rightarrow> string" where
  "message_name (SourceReady _ _ _) = ''SOURCE_READY''"
| "message_name (StopProjection _ _) = ''STOP_PROJECTION''"
| "message_name (SecurityHandshake _) = ''SECURITY_HANDSHAKE''"
| "message_name (SessionRequest _ _ _) = ''SESSION_REQUEST''"
| "message_name (PinChallenge _ _) = ''PIN_CHALLENGE''"
| "message_name (PinResponse _ _) = ''PIN_RESPONSE''"

fun command :: "mice_message \<Rightarrow> u8" where
  "command (SourceReady _ _ _) = 1"
| "command (StopProjection _ _) = 2"
| "command (SecurityHandshake _) = 3"
| "command (SessionRequest _ _ _) = 4"
| "command (PinChallenge _ _) = 5"
| "command (PinResponse _ _) = 6"

definition FRIENDLY_NAME :: u8 where "FRIENDLY_NAME = 0"
definition RTSP_PORT :: u8 where "RTSP_PORT = 2"
definition SOURCE_ID :: u8 where "SOURCE_ID = 3"
definition SECURITY_TOKEN :: u8 where "SECURITY_TOKEN = 4"
definition SECURITY_OPTIONS :: u8 where "SECURITY_OPTIONS = 5"
definition PIN_CHALLENGE :: u8 where "PIN_CHALLENGE = 6"
definition PIN_RESPONSE_REASON :: u8 where "PIN_RESPONSE_REASON = 7"

lemmas tlv_kinds = FRIENDLY_NAME_def RTSP_PORT_def SOURCE_ID_def SECURITY_TOKEN_def SECURITY_OPTIONS_def
  PIN_CHALLENGE_def PIN_RESPONSE_REASON_def

section \<open>Fields\<close>

definition put_tlv :: "u8 \<Rightarrow> bytes \<Rightarrow> mice_error + bytes" where
  "put_tlv kind v =
     (case u16_try_from (length v) of None \<Rightarrow> Inl (TooLong (length v)) | Some len \<Rightarrow> Inr (kind # be16 len @ v))"

function tlv_decode_all :: "bytes \<Rightarrow> mice_error + (u8 \<times> bytes) list" where
  "tlv_decode_all buf =
     (if buf = [] then Inr []
      else if length buf < 3 then Inl MiceTruncated
      else let len = unat (u16_be_at buf 1) in
        if len = 0 then Inl (BadTlvLength (buf ! 0) 0)
        else if length buf < 3 + len then Inl MiceTruncated
        else bindE (tlv_decode_all (drop (3 + len) buf)) (\<lambda>ts. Inr ((buf ! 0, take len (drop 3 buf)) # ts)))"
  by pat_completeness auto
termination by (relation "measure length") auto

declare tlv_decode_all.simps [simp del]

text \<open>\<open>Tlvs::get\<close> is \<open>map_of\<close>: the first entry of the kind.\<close>

definition tlv_find :: "(u8 \<times> bytes) list \<Rightarrow> u8 \<Rightarrow> mice_error + bytes" where
  "tlv_find ts kind = (case map_of ts kind of None \<Rightarrow> Inl (MissingTlv kind) | Some v \<Rightarrow> Inr v)"

definition tlv_be16 :: "u8 \<Rightarrow> bytes \<Rightarrow> mice_error + u16" where
  "tlv_be16 kind v = (if length v \<noteq> 2 then Inl (BadTlvLength kind (length v)) else Inr (u16_be_at v 0))"

definition one_byte :: "u8 \<Rightarrow> bytes \<Rightarrow> mice_error + u8" where
  "one_byte kind v = (if length v \<noteq> 1 then Inl (BadTlvLength kind (length v)) else Inr (v ! 0))"

definition encode_utf16le :: "bytes \<Rightarrow> bytes" where
  "encode_utf16le t = concat (map le16 (encode_utf16 t))"

text \<open>\<open>String::from_utf16\<close>: every surrogate belongs to a pair.\<close>

fun paired :: "u16 list \<Rightarrow> bool" where
  "paired [] = True"
| "paired (u # us) =
     (if \<not> high_surrogate u \<and> \<not> low_surrogate u then paired us
      else case us of [] \<Rightarrow> False | v # vs \<Rightarrow> high_surrogate u \<and> low_surrogate v \<and> paired vs)"

fun le_units :: "bytes \<Rightarrow> u16 list" where
  "le_units (a # b # rest) = from_le16 a b # le_units rest"
| "le_units _ = []"

definition decode_utf16le :: "bytes \<Rightarrow> mice_error + bytes" where
  "decode_utf16le v =
     (if odd (length v) then Inl (BadTlvLength FRIENDLY_NAME (length v))
      else let units = filter (\<lambda>u. u \<noteq> 0) (le_units v) in
        if paired units then Inr (utf8_encode (utf16_points units)) else Inl BadFriendlyName)"

section \<open>Encoding and decoding\<close>

definition put_name :: "bytes option \<Rightarrow> mice_error + bytes" where
  "put_name n = (case n of None \<Rightarrow> Inr [] | Some t \<Rightarrow> put_tlv FRIENDLY_NAME (encode_utf16le t))"

definition followed_by :: "mice_error + bytes \<Rightarrow> mice_error + bytes \<Rightarrow> mice_error + bytes" where
  "followed_by a b = bindE a (\<lambda>x. bindE b (\<lambda>y. Inr (x @ y)))"

fun message_body :: "mice_message \<Rightarrow> mice_error + bytes" where
  "message_body (SourceReady n port i) =
     followed_by (put_name n) (followed_by (put_tlv RTSP_PORT (be16 port)) (put_tlv SOURCE_ID i))"
| "message_body (StopProjection n i) = followed_by (put_name n) (put_tlv SOURCE_ID i)"
| "message_body (SecurityHandshake token) = put_tlv SECURITY_TOKEN token"
| "message_body (SessionRequest n i s) =
     followed_by (put_tlv FRIENDLY_NAME (encode_utf16le n))
       (followed_by (put_tlv SOURCE_ID i) (put_tlv SECURITY_OPTIONS [security_bits s]))"
| "message_body (PinChallenge i c) = followed_by (put_tlv SOURCE_ID i) (put_tlv PIN_CHALLENGE c)"
| "message_body (PinResponse i r) = followed_by (put_tlv SOURCE_ID i) (put_tlv PIN_RESPONSE_REASON [reason_bits r])"

definition mice_encode :: "mice_message \<Rightarrow> mice_error + bytes" where
  "mice_encode m =
     bindE (message_body m) (\<lambda>body.
       let len = HEADER_LEN + length body in
       case u16_try_from len of
         None \<Rightarrow> Inl (TooLong len)
       | Some n \<Rightarrow> Inr (be16 n @ [MICE_VERSION, command m] @ body))"

definition framed_len :: "bytes \<Rightarrow> mice_error + nat" where
  "framed_len buf =
     (if length buf < HEADER_LEN then Inl MiceTruncated
      else let n = unat (u16_be_at buf 0) in if n < HEADER_LEN then Inl (ShortMessage n) else Inr n)"

definition get_source_id :: "(u8 \<times> bytes) list \<Rightarrow> mice_error + source_id" where
  "get_source_id ts =
     bindE (tlv_find ts SOURCE_ID) (\<lambda>v. if length v \<noteq> 16 then Inl (BadTlvLength SOURCE_ID (length v)) else Inr v)"

definition get_name :: "(u8 \<times> bytes) list \<Rightarrow> bool \<Rightarrow> mice_error + bytes option" where
  "get_name ts required =
     (case map_of ts FRIENDLY_NAME of
        Some v \<Rightarrow> bindE (decode_utf16le v) (\<lambda>t. Inr (Some t))
      | None \<Rightarrow> if required then Inl (MissingTlv FRIENDLY_NAME) else Inr None)"

definition message_of_tlvs :: "u8 \<Rightarrow> (u8 \<times> bytes) list \<Rightarrow> mice_error + mice_message" where
  "message_of_tlvs c ts =
     (if c = 1 then bindE (get_name ts False) (\<lambda>n.
        bindE (case map_of ts RTSP_PORT of Some v \<Rightarrow> tlv_be16 RTSP_PORT v | None \<Rightarrow> Inr DEFAULT_RTSP_PORT) (\<lambda>port.
        bindE (get_source_id ts) (\<lambda>i. Inr (SourceReady n port i))))
      else if c = 2 then bindE (get_name ts False) (\<lambda>n. bindE (get_source_id ts) (\<lambda>i. Inr (StopProjection n i)))
      else if c = 3 then bindE (tlv_find ts SECURITY_TOKEN) (\<lambda>t. Inr (SecurityHandshake t))
      else if c = 4 then bindE (get_name ts True) (\<lambda>n. bindE (get_source_id ts) (\<lambda>i.
        bindE (tlv_find ts SECURITY_OPTIONS) (\<lambda>v. bindE (one_byte SECURITY_OPTIONS v) (\<lambda>raw.
        bindE (security_from_bits raw) (\<lambda>s. Inr (SessionRequest (case n of None \<Rightarrow> [] | Some t \<Rightarrow> t) i s))))))
      else if c = 5 then bindE (get_source_id ts) (\<lambda>i. bindE (tlv_find ts PIN_CHALLENGE) (\<lambda>v. Inr (PinChallenge i v)))
      else if c = 6 then bindE (tlv_find ts PIN_RESPONSE_REASON) (\<lambda>v. bindE (one_byte PIN_RESPONSE_REASON v) (\<lambda>raw.
        bindE (get_source_id ts) (\<lambda>i.
        case reason_from_bits raw of None \<Rightarrow> Inl (UnknownPinReason raw) | Some r \<Rightarrow> Inr (PinResponse i r))))
      else Inl (UnknownCommand c))"

definition mice_decode :: "bytes \<Rightarrow> mice_error + mice_message" where
  "mice_decode buf =
     bindE (framed_len buf) (\<lambda>n.
       if length buf < n then Inl MiceTruncated
       else let msg = take n buf in
         if msg ! 2 \<noteq> MICE_VERSION then Inl (UnknownVersion (msg ! 2))
         else bindE (tlv_decode_all (drop HEADER_LEN msg)) (message_of_tlvs (msg ! 3)))"

section \<open>What a sink announces\<close>

datatype ip_addr = V4 bytes | V6 bytes

fun octets :: "ip_addr \<Rightarrow> bytes" where
  "octets (V4 bs) = bs"
| "octets (V6 bs) = bs"

definition pin_hash :: "(bytes \<Rightarrow> bytes) \<Rightarrow> bytes \<Rightarrow> ip_addr \<Rightarrow> bytes" where
  "pin_hash sha256 pin address = sha256 (pin @ octets address)"

record capability =
  cap_mice :: bool
  cap_encryption :: bool
  cap_pin :: bool

definition insecure :: capability where
  "insecure = \<lparr>cap_mice = True, cap_encryption = False, cap_pin = False\<rparr>"

definition capability_bits :: "capability \<Rightarrow> u8" where
  "capability_bits c =
     of_bool (cap_mice c) OR push_bit 1 (of_bool (cap_encryption c)) OR push_bit 2 1 OR push_bit 5 (of_bool (cap_pin c))"

definition vendor_extension :: "capability \<Rightarrow> bytes \<Rightarrow> mice_error + bytes" where
  "vendor_extension c host =
     (if 0x2E \<in> set host then Inl (QualifiedHostName host)
      else case u16_try_from (length host) of
        None \<Rightarrow> Inl (TooLong (length host))
      | Some n \<Rightarrow>
          let body = [0x00, 0x01, 0x37] @ be16 0x2001 @ be16 1 @ [capability_bits c] @ be16 0x2002 @ be16 n @ host in
          case u16_try_from (length body) of
            None \<Rightarrow> Inl (TooLong (length body))
          | Some len \<Rightarrow> Inr (be16 0x1049 @ be16 len @ body))"

section \<open>One channel\<close>

datatype close_reason = SourceStopped | EstablishmentTimeout | Unsupported string | Unexpected string

datatype mice_state = Fresh | Projecting "bytes option" u16 source_id | Closed close_reason

datatype mice_output = Send mice_message | Project u16 "bytes option" | Close close_reason

record mice_session =
  ms_state :: mice_state
  ms_name :: bytes
  ms_since_open :: duration
  ms_established :: bool

definition mice_new :: "bytes \<Rightarrow> mice_session" where
  "mice_new n = \<lparr>ms_state = Fresh, ms_name = n, ms_since_open = 0, ms_established = False\<rparr>"

definition rtsp_established :: "mice_session \<Rightarrow> mice_session" where
  "rtsp_established s = s\<lparr>ms_established := True\<rparr>"

definition closed :: "mice_session \<Rightarrow> bool" where
  "closed s \<longleftrightarrow> (case ms_state s of Closed _ \<Rightarrow> True | _ \<Rightarrow> False)"

definition close :: "close_reason \<Rightarrow> mice_session \<Rightarrow> mice_output list \<times> mice_session" where
  "close r s = (if closed s then ([], s) else ([Close r], s\<lparr>ms_state := Closed r\<rparr>))"

definition tick :: "duration \<Rightarrow> mice_session \<Rightarrow> mice_output list \<times> mice_session" where
  "tick elapsed s =
     (if ms_established s \<or> closed s then ([], s)
      else let s = s\<lparr>ms_since_open := ms_since_open s + elapsed\<rparr> in
        if ms_since_open s < ESTABLISHMENT_TIMEOUT then ([], s) else close EstablishmentTimeout s)"

definition on_message :: "mice_message \<Rightarrow> mice_session \<Rightarrow> mice_output list \<times> mice_session" where
  "on_message m s =
     (case m of
        SourceReady n port i \<Rightarrow>
          (if ms_state s = Fresh then ([Project port n], s\<lparr>ms_state := Projecting n port i\<rparr>)
           else close (Unexpected (message_name m)) s)
      | StopProjection _ _ \<Rightarrow> close SourceStopped s
      | SessionRequest _ _ sec \<Rightarrow>
          (if so_dtls sec then close (Unsupported ''DTLS stream encryption'') s
           else if ms_state s = Fresh then ([], s) else close (Unexpected (message_name m)) s)
      | SecurityHandshake _ \<Rightarrow> close (Unsupported ''a DTLS security handshake'') s
      | PinChallenge _ _ \<Rightarrow> close (Unsupported ''PIN-protected projection'') s
      | PinResponse _ _ \<Rightarrow> close (Unexpected (message_name m)) s)"

definition stop :: "mice_session \<Rightarrow> mice_output list \<times> mice_session" where
  "stop s =
     (let out = (case ms_state s of Projecting _ _ i \<Rightarrow> [Send (StopProjection (Some (ms_name s)) i)] | _ \<Rightarrow> []);
          (rest, s) = close SourceStopped s in (out @ rest, s))"

section \<open>Names\<close>

lemma le_units_le16: "le_units (concat (map le16 us)) = us"
  by (induction us) (simp_all add: le16_def)

lemma length_le16s: "length (concat (map le16 us)) = 2 * length us"
  by (induction us) simp_all

lemma paired_units: "scalar n \<Longrightarrow> paired (utf16_units n @ rest) = paired rest"
proof (cases "n < 0x10000")
  case True
  assume "scalar n"
  then show ?thesis using True
    by (auto simp: utf16_units_def high_surrogate_def low_surrogate_def word_le_nat_alt unit_nat scalar_def)
next
  case False
  assume s: "scalar n"
  let ?m = "n - 0x10000"
  have m: "?m div 1024 < 1024" "?m mod 1024 < 1024" "?m mod 1024 \<le> 1023" using s False by (auto simp: scalar_def)
  then have "unat (of_nat (0xD800 + ?m div 1024) :: u16) = 0xD800 + ?m div 1024"
    "unat (of_nat (0xDC00 + ?m mod 1024) :: u16) = 0xDC00 + ?m mod 1024"
    by (simp_all add: unit_nat del: of_nat_add)
  then show ?thesis using False m
    by (simp add: utf16_units_def Let_def high_surrogate_def low_surrogate_def word_le_nat_alt del: of_nat_add)
qed

lemma paired_encode: "list_all scalar cs \<Longrightarrow> paired (concat (map utf16_units cs))"
  by (induction cs) (simp_all add: paired_units)

text \<open>The decoder drops the NULs of a name, wherever they stand.\<close>

definition without_nuls :: "bytes \<Rightarrow> bytes" where
  "without_nuls t = filter (\<lambda>b. b \<noteq> 0) t"

lemma byte_not_null: "\<lbrakk>0 < k; k < 256\<rbrakk> \<Longrightarrow> of_nat k \<noteq> (0 :: u8)"
  using unat_of_nat8 [of k] by (metis less_irrefl unsigned_0)

lemma byte_sum: "\<lbrakk>b = of_nat (h + k); 0 < h; h + k < 256\<rbrakk> \<Longrightarrow> b \<noteq> (0 :: u8)"
  using byte_not_null [of "h + k"] by (simp del: of_nat_add)

lemma char_bytes:
  assumes c: "scalar c" "c \<noteq> 0" and b: "b \<in> set (utf8_char c)"
  shows "b \<noteq> 0"
proof -
  have lim: "c < 0x110000" using c by (auto simp: scalar_def)
  consider "c < 0x80" | "0x80 \<le> c" "c < 0x800" | "0x800 \<le> c" "c < 0x10000" | "0x10000 \<le> c" by linarith
  then show ?thesis
  proof cases
    case 1
    then show ?thesis using b c(2) byte_not_null [of c] by (simp add: utf8_char_def)
  next
    case 2
    then have "b = of_nat (0xC0 + c div 64) \<or> b = of_nat (0x80 + c mod 64)"
      using b by (auto simp: utf8_char_def simp del: of_nat_add)
    then show ?thesis by (elim disjE) (erule byte_sum; use 2 in simp)+
  next
    case 3
    then have "b = of_nat (0xE0 + c div 4096) \<or> b = of_nat (0x80 + c div 64 mod 64) \<or> b = of_nat (0x80 + c mod 64)"
      using b by (auto simp: utf8_char_def simp del: of_nat_add)
    then show ?thesis by (elim disjE) (erule byte_sum; use 3 in simp)+
  next
    case 4
    then have "b = of_nat (0xF0 + c div 262144) \<or> b = of_nat (0x80 + c div 4096 mod 64)
        \<or> b = of_nat (0x80 + c div 64 mod 64) \<or> b = of_nat (0x80 + c mod 64)"
      using b by (auto simp: utf8_char_def simp del: of_nat_add)
    then show ?thesis by (elim disjE) (erule byte_sum; use lim in simp)+
  qed
qed

lemma char_without_nuls: "scalar c \<Longrightarrow> filter (\<lambda>b. b \<noteq> 0) (utf8_char c) = (if c = 0 then [] else utf8_char c)"
  using char_bytes [of c] by (auto simp: filter_id_conv utf8_char_def [of 0])

lemma utf8_without_nuls:
  "list_all scalar cs \<Longrightarrow> without_nuls (utf8_encode cs) = utf8_encode (filter (\<lambda>c. c \<noteq> 0) cs)"
  by (induction cs) (simp_all add: without_nuls_def utf8_encode_def char_without_nuls)

lemma units_without_nuls:
  "list_all scalar cs \<Longrightarrow>
     filter (\<lambda>u. u \<noteq> 0) (concat (map utf16_units cs)) = concat (map utf16_units (filter (\<lambda>c. c \<noteq> 0) cs))"
proof (induction cs)
  case (Cons c cs)
  have "filter (\<lambda>u. u \<noteq> 0) (utf16_units c) = (if c = 0 then [] else utf16_units c)"
    using Cons.prems units_not_null [of c] by (auto simp: utf16_units_def filter_id_conv)
  then show ?case using Cons by simp
qed simp

lemma name_read_back: "is_utf8 t \<Longrightarrow> decode_utf16le (encode_utf16le t) = Inr (without_nuls t)"
proof -
  assume "is_utf8 t"
  then obtain cs where cs: "list_all scalar cs" "t = utf8_encode cs" by (auto simp: is_utf8_def)
  let ?ds = "filter (\<lambda>c. c \<noteq> 0) cs"
  have ds: "list_all scalar ?ds" using cs(1) by (auto simp: list_all_iff)
  have "filter (\<lambda>u. u \<noteq> 0) (encode_utf16 t) = encode_utf16 (utf8_encode ?ds)"
    using cs ds by (simp add: encode_utf16_def utf8_points_encode units_without_nuls)
  moreover have "paired (encode_utf16 (utf8_encode ?ds))"
    using ds by (simp add: encode_utf16_def utf8_points_encode paired_encode)
  moreover have "utf8_encode (utf16_points (encode_utf16 (utf8_encode ?ds))) = without_nuls t"
    using utf16_roundtrip [of "utf8_encode ?ds"] ds utf8_without_nuls [OF cs(1)]
    by (auto simp: from_utf16_lossy_def cs(2) is_utf8_def)
  ultimately show ?thesis
    by (simp add: decode_utf16le_def encode_utf16le_def le_units_le16 length_le16s Let_def)
qed

lemma utf16_units_not_Nil [simp]: "utf16_units n \<noteq> []"
  by (simp add: utf16_units_def Let_def)

lemma name_not_empty: "t \<noteq> [] \<Longrightarrow> encode_utf16le t \<noteq> []"
  by (cases t) (simp_all add: encode_utf16le_def encode_utf16_def)

section \<open>Messages\<close>

text \<open>What the types of the code say: a name is a \<open>String\<close>, a source identifier is sixteen bytes.\<close>

fun message_typed :: "mice_message \<Rightarrow> bool" where
  "message_typed (SourceReady n _ i) = ((case n of None \<Rightarrow> True | Some t \<Rightarrow> is_utf8 t) \<and> length i = 16)"
| "message_typed (StopProjection n i) = ((case n of None \<Rightarrow> True | Some t \<Rightarrow> is_utf8 t) \<and> length i = 16)"
| "message_typed (SecurityHandshake _) = True"
| "message_typed (SessionRequest n i _) = (is_utf8 n \<and> length i = 16)"
| "message_typed (PinChallenge i _) = (length i = 16)"
| "message_typed (PinResponse i _) = (length i = 16)"

text \<open>
  What the decoder makes of a message: a field without bytes is refused, and so is a PIN without DTLS;
  names lose their NULs; all else is read back.
\<close>

fun as_read :: "mice_message \<Rightarrow> mice_error + mice_message" where
  "as_read (SourceReady n port i) =
     (if n = Some [] then Inl (BadTlvLength FRIENDLY_NAME 0) else Inr (SourceReady (map_option without_nuls n) port i))"
| "as_read (StopProjection n i) =
     (if n = Some [] then Inl (BadTlvLength FRIENDLY_NAME 0) else Inr (StopProjection (map_option without_nuls n) i))"
| "as_read (SecurityHandshake token) =
     (if token = [] then Inl (BadTlvLength SECURITY_TOKEN 0) else Inr (SecurityHandshake token))"
| "as_read (SessionRequest n i s) =
     (if n = [] then Inl (BadTlvLength FRIENDLY_NAME 0)
      else if so_pin s \<and> \<not> so_dtls s then Inl (IllegalSecurityOptions 2)
      else Inr (SessionRequest (without_nuls n) i s))"
| "as_read (PinChallenge i c) = (if c = [] then Inl (BadTlvLength PIN_CHALLENGE 0) else Inr (PinChallenge i c))"
| "as_read (PinResponse i r) = Inr (PinResponse i r)"

lemma tlv_step:
  assumes "put_tlv k v = Inr bs" "v \<noteq> []"
  shows "tlv_decode_all (bs @ rest) = bindE (tlv_decode_all rest) (\<lambda>ts. Inr ((k, v) # ts))"
proof -
  have n: "length v < 2 ^ 16" and bs: "bs = k # be16 (of_nat (length v)) @ v"
    using assms(1) by (auto simp: put_tlv_def u16_try_from_def split: if_splits)
  then have u: "unat (of_nat (length v) :: u16) = length v" by simp
  obtain buf where buf: "buf = bs @ rest" by simp
  have d: "unat (u16_be_at buf (Suc 0)) = length v" using u by (simp add: buf bs u16_be_at_def be16_def)
  have l: "buf \<noteq> []" "\<not> length buf < 3" "\<not> length buf < 3 + length v" by (simp_all add: buf bs)
  have t: "take (length v) (drop 3 buf) = v" "buf ! 0 = k" "drop (3 + length v) buf = rest"
    by (simp_all add: buf bs be16_def numeral_3_eq_3)
  show ?thesis unfolding buf [symmetric] using l assms(2) by (subst tlv_decode_all.simps) (simp add: d t Let_def)
qed

lemma tlv_end: "put_tlv k v = Inr bs \<Longrightarrow> v \<noteq> [] \<Longrightarrow> tlv_decode_all bs = Inr [(k, v)]"
  using tlv_step [of k v bs "[]"] by (simp add: tlv_decode_all.simps [of "[]"])

lemma followed_by_Inr: "followed_by a b = Inr bs \<longleftrightarrow> (\<exists>x y. a = Inr x \<and> b = Inr y \<and> bs = x @ y)"
  by (cases a; cases b) (auto simp: followed_by_def)

lemma security_roundtrip:
  "security_from_bits (security_bits s) = (if so_pin s \<and> \<not> so_dtls s then Inl (IllegalSecurityOptions 2) else Inr s)"
  by (cases s; cases "so_dtls s"; cases "so_pin s") (simp_all add: security_from_bits_def security_bits_def)

lemma reason_roundtrip: "reason_from_bits (reason_bits r) = Some r"
  by (cases r) (simp_all add: reason_from_bits_def)

text \<open>The fields of a message, in the order they travel.\<close>

fun message_tlvs :: "mice_message \<Rightarrow> (u8 \<times> bytes) list" where
  "message_tlvs (SourceReady n port i) =
     (case n of None \<Rightarrow> [] | Some t \<Rightarrow> [(FRIENDLY_NAME, encode_utf16le t)]) @ [(RTSP_PORT, be16 port), (SOURCE_ID, i)]"
| "message_tlvs (StopProjection n i) =
     (case n of None \<Rightarrow> [] | Some t \<Rightarrow> [(FRIENDLY_NAME, encode_utf16le t)]) @ [(SOURCE_ID, i)]"
| "message_tlvs (SecurityHandshake token) = [(SECURITY_TOKEN, token)]"
| "message_tlvs (SessionRequest n i s) =
     [(FRIENDLY_NAME, encode_utf16le n), (SOURCE_ID, i), (SECURITY_OPTIONS, [security_bits s])]"
| "message_tlvs (PinChallenge i c) = [(SOURCE_ID, i), (PIN_CHALLENGE, c)]"
| "message_tlvs (PinResponse i r) = [(SOURCE_ID, i), (PIN_RESPONSE_REASON, [reason_bits r])]"

fun put_tlvs :: "(u8 \<times> bytes) list \<Rightarrow> mice_error + bytes" where
  "put_tlvs [] = Inr []"
| "put_tlvs ((k, v) # ts) = followed_by (put_tlv k v) (put_tlvs ts)"

lemma followed_by_Nil [simp]: "followed_by a (Inr []) = a" "followed_by (Inr []) a = a"
  by (cases a; simp add: followed_by_def)+

lemma message_body_tlvs: "message_body m = put_tlvs (message_tlvs m)"
  by (cases m) (simp_all add: put_name_def split: option.split)

lemma tlv_empty:
  "put_tlv k [] = Inr bs \<Longrightarrow> tlv_decode_all (bs @ rest) = Inl (BadTlvLength k 0)"
  by (subst tlv_decode_all.simps) (auto simp: put_tlv_def u16_try_from_def u16_be_at_def be16_def from_be16_def Let_def)

lemma put_tlvs_read:
  "put_tlvs ts = Inr bs \<Longrightarrow>
     tlv_decode_all bs = (case find (\<lambda>t. snd t = []) ts of None \<Rightarrow> Inr ts | Some t \<Rightarrow> Inl (BadTlvLength (fst t) 0))"
proof (induction ts arbitrary: bs)
  case Nil
  then show ?case by (simp add: tlv_decode_all.simps)
next
  case (Cons t ts)
  obtain k v where t: "t = (k, v)" by (cases t)
  obtain x y where xy: "put_tlv k v = Inr x" "put_tlvs ts = Inr y" "bs = x @ y"
    using Cons.prems by (auto simp: t followed_by_Inr)
  show ?case
  proof (cases "v = []")
    case True
    then show ?thesis using tlv_empty [of k x y] xy by (simp add: t)
  next
    case False
    then show ?thesis using Cons.IH [OF xy(2)] tlv_step [OF xy(1) False, of y] xy(3) by (simp add: t split: option.split)
  qed
qed

lemma length_one_u16 [simp]: "be16 w \<noteq> []" by simp

lemma name_filled: "encode_utf16le t = [] \<longleftrightarrow> t = []"
  using name_not_empty [of t] by (auto simp: encode_utf16le_def encode_utf16_def)

lemma message_read:
  assumes "message_typed m" "message_body m = Inr body"
  shows "bindE (tlv_decode_all body) (message_of_tlvs (command m)) = as_read m"
proof -
  have d: "tlv_decode_all body =
      (case find (\<lambda>t. snd t = []) (message_tlvs m) of None \<Rightarrow> Inr (message_tlvs m) | Some t \<Rightarrow> Inl (BadTlvLength (fst t) 0))"
    using put_tlvs_read [of "message_tlvs m"] assms(2) by (simp add: message_body_tlvs)
  show ?thesis unfolding d using assms(1)
    by (cases m) (auto simp: message_of_tlvs_def get_name_def get_source_id_def tlv_find_def tlv_be16_def one_byte_def tlv_kinds
      name_filled name_read_back security_roundtrip reason_roundtrip wire_simps split: option.splits)
qed

text \<open>
  C40. A message is framed by its own length, whatever follows it on the stream, and is read back as
  it was sent, with three exceptions, stated exactly: the decoder drops the NULs of a name, refuses a field
  without bytes (an empty name, token or challenge) and refuses a PIN without DTLS.
\<close>

theorem message_roundtrip:
  "\<lbrakk>message_typed m; mice_encode m = Inr bs\<rbrakk> \<Longrightarrow> framed_len (bs @ rest) = Inr (length bs) \<and> mice_decode (bs @ rest) = as_read m"
proof -
  assume ok: "message_typed m" and enc: "mice_encode m = Inr bs"
  then obtain body where body: "message_body m = Inr body" "4 + length body < 2 ^ 16"
    and bs: "bs = be16 (of_nat (4 + length body)) @ [MICE_VERSION, command m] @ body"
    by (auto simp: mice_encode_def bindE_eq_Inr HEADER_LEN_def u16_try_from_def Let_def split: if_splits)
  have n: "unat (u16_be_at (bs @ rest) 0) = length bs"
    using body(2) by (simp add: bs wire_simps del: of_nat_add)
  have f: "framed_len (bs @ rest) = Inr (length bs)"
    by (simp add: framed_len_def n HEADER_LEN_def) (simp add: bs)
  have "bs ! 2 = MICE_VERSION" "bs ! 3 = command m" "drop HEADER_LEN bs = body"
    by (simp_all add: bs be16_def HEADER_LEN_def numeral_eq_Suc)
  then have "mice_decode (bs @ rest) = as_read m"
    using message_read [OF ok body(1)] by (simp add: mice_decode_def f)
  then show ?thesis using f by simp
qed

text \<open>A sink without a name ends a projection with a message that it could not read itself.\<close>

text \<open>
  A sink whose name is empty ends a projection with a message that has a field
  of length zero, which the decoder of the same code refuses.
\<close>

theorem empty_name_unreadable:
  "length i = 16 \<Longrightarrow> \<exists>bs. mice_encode (StopProjection (Some []) i) = Inr bs \<and> mice_decode bs = Inl (BadTlvLength 0 0)"
proof -
  assume i: "length i = 16"
  have e: "encode_utf16le [] = []" by (simp add: encode_utf16le_def encode_utf16_def)
  have "mice_encode (StopProjection (Some []) i) = Inr (be16 26 @ [1, 2] @ [0, 0, 0] @ [3] @ be16 16 @ i)"
    by (simp add: mice_encode_def put_name_def e put_tlv_def u16_try_from_def i followed_by_def tlv_kinds HEADER_LEN_def
        MICE_VERSION_def be16_def)
  moreover have "mice_decode (be16 26 @ [1, 2] @ [0, 0, 0] @ [3] @ be16 16 @ i) = Inl (BadTlvLength 0 0)"
  proof -
    have "framed_len (be16 26 @ [1, 2] @ [0, 0, 0] @ [3] @ be16 16 @ i) = Inr 26"
      by (simp add: framed_len_def HEADER_LEN_def wire_simps)
    moreover have "tlv_decode_all (0 # 0 # 0 # 3 # be16 16 @ i) = Inl (BadTlvLength 0 0)"
      by (subst tlv_decode_all.simps) (simp add: u16_be_at_def from_be16_def)
    ultimately show ?thesis by (simp add: mice_decode_def i HEADER_LEN_def MICE_VERSION_def be16_def)
  qed
  ultimately show ?thesis by blast
qed

section \<open>Runs of a channel\<close>

datatype mice_input = Elapsed duration | Received mice_message | RtspUp | StopAsked

fun mice_react :: "mice_input \<Rightarrow> mice_session \<Rightarrow> mice_output list \<times> mice_session" where
  "mice_react (Elapsed t) s = tick t s"
| "mice_react (Received m) s = on_message m s"
| "mice_react RtspUp s = ([], rtsp_established s)"
| "mice_react StopAsked s = stop s"

definition mice_step :: "mice_input \<Rightarrow> mice_session \<Rightarrow> mice_session" where
  "mice_step i s = snd (mice_react i s)"

fun mice_outputs :: "mice_input list \<Rightarrow> mice_session \<Rightarrow> mice_output list" where
  "mice_outputs [] s = []"
| "mice_outputs (i # is) s = fst (mice_react i s) @ mice_outputs is (mice_step i s)"

lemmas channel_defs = mice_step_def tick_def on_message_def stop_def close_def rtsp_established_def closed_def

lemma closed_is_silent: "closed s \<Longrightarrow> fst (mice_react i s) = [] \<and> closed (mice_step i s)"
  by (cases i) (auto simp: channel_defs split: mice_state.splits mice_message.splits)

lemma closed_outputs: "closed s \<Longrightarrow> mice_outputs is s = []"
  by (induction "is" arbitrary: s) (simp_all add: closed_is_silent)

text \<open>What one input does to a channel that projects, and to one that has not begun.\<close>

lemma projecting_step:
  "ms_state s = Projecting f port i \<Longrightarrow>
     (fst (mice_react x s) = [] \<and> ms_state (mice_step x s) = Projecting f port i \<and> ms_name (mice_step x s) = ms_name s)
     \<or> (closed (mice_step x s) \<and> ((\<exists>r. fst (mice_react x s) = [Close r])
          \<or> fst (mice_react x s) = [Send (StopProjection (Some (ms_name s)) i), Close SourceStopped]))"
  by (cases x) (auto simp: channel_defs Let_def split: mice_message.splits)

lemma fresh_step:
  "ms_state s = Fresh \<Longrightarrow>
     (fst (mice_react x s) = [] \<and> ms_state (mice_step x s) = Fresh \<and> ms_name (mice_step x s) = ms_name s)
     \<or> (\<exists>f port i. x = Received (SourceReady f port i) \<and> fst (mice_react x s) = [Project port f]
          \<and> ms_state (mice_step x s) = Projecting f port i \<and> ms_name (mice_step x s) = ms_name s)
     \<or> (closed (mice_step x s) \<and> (\<exists>r. fst (mice_react x s) = [Close r]))"
  by (cases x) (auto simp: channel_defs Let_def split: mice_message.splits)

lemma projecting_outputs:
  "ms_state s = Projecting f port i \<Longrightarrow>
     mice_outputs is s = [] \<or> (\<exists>r. mice_outputs is s = [Close r])
     \<or> mice_outputs is s = [Send (StopProjection (Some (ms_name s)) i), Close SourceStopped]"
proof (induction "is" arbitrary: s)
  case (Cons x xs)
  from projecting_step [OF Cons.prems, of x] show ?case
  proof (elim disjE conjE exE)
    assume "fst (mice_react x s) = []" "ms_state (mice_step x s) = Projecting f port i" "ms_name (mice_step x s) = ms_name s"
    then show ?thesis using Cons.IH [of "mice_step x s"] by simp
  qed (simp_all add: closed_outputs)
qed simp

definition life_of :: "bytes \<Rightarrow> mice_input list \<Rightarrow> mice_output list \<Rightarrow> bool" where
  "life_of n is out \<longleftrightarrow>
     out = [] \<or> (\<exists>r. out = [Close r])
     \<or> (\<exists>f port i. Received (SourceReady f port i) \<in> set is
          \<and> (out = [Project port f] \<or> (\<exists>r. out = [Project port f, Close r])
             \<or> out = [Project port f, Send (StopProjection (Some n) i), Close SourceStopped]))"

lemma fresh_outputs: "ms_state s = Fresh \<Longrightarrow> life_of (ms_name s) is (mice_outputs is s)"
proof (induction "is" arbitrary: s)
  case Nil
  then show ?case by (simp add: life_of_def)
next
  case (Cons x xs)
  from fresh_step [OF Cons.prems, of x] show ?case
  proof (elim disjE conjE exE)
    assume "fst (mice_react x s) = []" "ms_state (mice_step x s) = Fresh" "ms_name (mice_step x s) = ms_name s"
    then show ?thesis using Cons.IH [of "mice_step x s"] by (auto simp: life_of_def)
  next
    fix f port i
    assume "x = Received (SourceReady f port i)" "fst (mice_react x s) = [Project port f]"
      "ms_state (mice_step x s) = Projecting f port i" "ms_name (mice_step x s) = ms_name s"
    then show ?thesis using projecting_outputs [of "mice_step x s" f port i xs] by (auto simp: life_of_def)
  next
    fix r
    assume "closed (mice_step x s)" "fst (mice_react x s) = [Close r]"
    then show ?thesis by (simp add: closed_outputs life_of_def)
  qed
qed

text \<open>
  C39. Whatever a source sends and whenever the timer runs, RTSP comes up or the user stops, a
  channel starts at most one projection, to the port the source named, closes at most once, says
  nothing after that, and tells the source it stopped only with the identifier that source gave.
\<close>

theorem channel_life: "life_of n is (mice_outputs is (mice_new n))"
  using fresh_outputs [of "mice_new n" "is"] by (simp add: mice_new_def)

definition time_passed :: "mice_input list \<Rightarrow> duration" where
  "time_passed is = sum_list (map (\<lambda>i. case i of Elapsed t \<Rightarrow> t | _ \<Rightarrow> 0) is)"

lemma timer_step:
  "\<not> ms_established s \<Longrightarrow> i \<noteq> RtspUp \<Longrightarrow> \<not> ms_established (mice_step i s)
     \<and> (closed (mice_step i s) \<or> (\<not> closed s \<and> ms_since_open (mice_step i s) = ms_since_open s + time_passed [i]
          \<and> (ms_since_open s < ESTABLISHMENT_TIMEOUT \<longrightarrow> ms_since_open (mice_step i s) < ESTABLISHMENT_TIMEOUT)))"
  by (cases i) (auto simp: channel_defs time_passed_def Let_def split: mice_message.splits mice_state.splits)

lemma closed_stays: "closed s \<Longrightarrow> closed (fold mice_step is s)"
  by (induction "is" arbitrary: s) (simp_all add: closed_is_silent)

lemma timer_run:
  "\<lbrakk>\<not> ms_established s; RtspUp \<notin> set is; ms_since_open s < ESTABLISHMENT_TIMEOUT;
    ESTABLISHMENT_TIMEOUT \<le> ms_since_open s + time_passed is\<rbrakk> \<Longrightarrow> closed (fold mice_step is s)"
proof (induction "is" arbitrary: s)
  case Nil
  then show ?case by (simp add: time_passed_def)
next
  case (Cons i "is")
  have "time_passed (i # is) = time_passed [i] + time_passed is" by (simp add: time_passed_def)
  then show ?case using timer_step [of s i] Cons closed_stays [of "mice_step i s" "is"] by (auto simp: add.assoc)
qed

text \<open>
  A channel on which RTSP has not come up is closed once thirty seconds
  have passed, whatever messages arrive.
\<close>

theorem unestablished_channel_closes:
  "\<lbrakk>RtspUp \<notin> set is; from_secs 30 \<le> time_passed is\<rbrakk> \<Longrightarrow> closed (fold mice_step is (mice_new n))"
  using timer_run [of "mice_new n" "is"] by (simp add: mice_new_def ESTABLISHMENT_TIMEOUT_def from_secs_def)

section \<open>Witnesses\<close>

theorem message_roundtrip_witness:
  "\<exists>bs. mice_encode (SourceReady (Some [0x50, 0x43]) 7236 (replicate 16 7)) = Inr bs
     \<and> mice_decode (bs @ [1, 2]) = Inr (SourceReady (Some [0x50, 0x43]) 7236 (replicate 16 7))"
proof -
  let ?m = "SourceReady (Some [0x50, 0x43]) 7236 (replicate 16 7)"
  have e: "encode_utf16le [0x50, 0x43] = [0x50, 0, 0x43, 0]"
    by (simp add: encode_utf16le_def encode_utf16_def point_of_def utf8_len_def utf16_units_def le16_def)
  have "is_utf8 [0x50, 0x43]"
    unfolding is_utf8_def by (rule exI [of _ "[0x50, 0x43]"]) (simp add: scalar_def utf8_encode_def utf8_char_def)
  then have ok: "message_typed ?m" by simp
  obtain bs where bs: "mice_encode ?m = Inr bs"
    by (simp add: mice_encode_def put_name_def put_tlv_def e u16_try_from_def followed_by_def HEADER_LEN_def)
  then show ?thesis using message_roundtrip [OF ok bs, of "[1, 2]"] by (simp add: without_nuls_def)
qed

theorem empty_name_unreadable_witness:
  "\<exists>bs. mice_encode (StopProjection (Some []) (replicate 16 0)) = Inr bs \<and> mice_decode bs = Inl (BadTlvLength 0 0)"
  by (rule empty_name_unreadable) simp

theorem unestablished_channel_closes_witness:
  "closed (fold mice_step [Elapsed (from_secs 20), Received (SourceReady None 7236 (replicate 16 0)), Elapsed (from_secs 10)]
     (mice_new []))"
  by (rule unestablished_channel_closes) (simp_all add: time_passed_def from_secs_def)

end
