(* ===== verification/Uibc.thy ===== *)
theory Uibc
  imports Wire
begin

text \<open>
  The touch back-channel of Miracast, \<^verbatim>\<open>crates/proto-miracast/src/uibc.rs\<close>: generic and HID input
  messages, the frame that carries them, and the contacts of the panel. Where a touch lies in
  the picture is decided by arithmetic on \<open>f32\<close>, which is not modelled: a touch comes with the pixel
  it maps to, if any.
\<close>

section \<open>Messages\<close>

datatype input_category = Generic | Hidc

fun category_wire :: "input_category \<Rightarrow> u8" where
  "category_wire Generic = 0"
| "category_wire Hidc = 1"

definition category_from_wire :: "u8 \<Rightarrow> input_category option" where
  "category_from_wire raw =
     (let c = raw AND 0x0F in if c = 0 then Some Generic else if c = 1 then Some Hidc else None)"

record source_pixel =
  px_x :: u16
  px_y :: u16

record pointer =
  pt_id :: u8
  pt_at :: source_pixel

datatype scroll_unit = Pixels | Notch
datatype scroll_direction = DownOrRight | UpOrLeft

record scroll =
  sc_unit :: scroll_unit
  sc_direction :: scroll_direction
  sc_amount :: u16

definition MAX_SCROLL_UNITS :: u16 where "MAX_SCROLL_UNITS = 0x1FFF"

definition scroll_bits :: "scroll \<Rightarrow> u16" where
  "scroll_bits s =
     (push_bit 14 (case sc_unit s of Pixels \<Rightarrow> 0 | Notch \<Rightarrow> 1)
      OR push_bit 13 (case sc_direction s of DownOrRight \<Rightarrow> 0 | UpOrLeft \<Rightarrow> 1)) OR min (sc_amount s) MAX_SCROLL_UNITS"

definition scroll_from_bits :: "u16 \<Rightarrow> scroll" where
  "scroll_from_bits bits =
     \<lparr>sc_unit = (if drop_bit 14 bits AND 3 = 1 then Notch else Pixels),
      sc_direction = (if bits AND 0x2000 = 0 then DownOrRight else UpOrLeft), sc_amount = bits AND MAX_SCROLL_UNITS\<rparr>"

text \<open>The whole radians of a rotation are an \<open>i8\<close>, kept as the byte that \<open>cast_unsigned\<close> makes of it.\<close>

datatype generic_input =
    TouchDown "pointer list"
  | TouchUp "pointer list"
  | TouchMove "pointer list"
  | KeyDown u16 u16
  | KeyUp u16 u16
  | Zoom source_pixel u8 u8
  | VerticalScroll scroll
  | HorizontalScroll scroll
  | Rotate u8 u8

fun type_id :: "generic_input \<Rightarrow> u8" where
  "type_id (TouchDown _) = 0"
| "type_id (TouchUp _) = 1"
| "type_id (TouchMove _) = 2"
| "type_id (KeyDown _ _) = 3"
| "type_id (KeyUp _ _) = 4"
| "type_id (Zoom _ _ _) = 5"
| "type_id (VerticalScroll _) = 6"
| "type_id (HorizontalScroll _) = 7"
| "type_id (Rotate _ _) = 8"

definition put_pointer :: "pointer \<Rightarrow> bytes" where
  "put_pointer p = pt_id p # be16 (px_x (pt_at p)) @ be16 (px_y (pt_at p))"

definition put_pointers :: "pointer list \<Rightarrow> bytes" where
  "put_pointers ps = u8_or_max (length ps) # concat (map put_pointer ps)"

fun describe :: "generic_input \<Rightarrow> bytes" where
  "describe (TouchDown p) = put_pointers p"
| "describe (TouchUp p) = put_pointers p"
| "describe (TouchMove p) = put_pointers p"
| "describe (KeyDown k1 k2) = 0 # be16 k1 @ be16 k2"
| "describe (KeyUp k1 k2) = 0 # be16 k1 @ be16 k2"
| "describe (Zoom at i f) = be16 (px_x at) @ be16 (px_y at) @ [i, f]"
| "describe (VerticalScroll s) = be16 (scroll_bits s)"
| "describe (HorizontalScroll s) = be16 (scroll_bits s)"
| "describe (Rotate i f) = [i, f]"

definition input_encode :: "generic_input \<Rightarrow> bytes" where
  "input_encode m = type_id m # be16 (u16_or_max (length (describe m))) @ describe m"

fun read_pointers :: "nat \<Rightarrow> bytes \<Rightarrow> pointer list option" where
  "read_pointers 0 bs = Some []"
| "read_pointers (Suc n) bs =
     (if length bs < 5 then None
      else map_option (\<lambda>ps. \<lparr>pt_id = bs ! 0, pt_at = \<lparr>px_x = u16_be_at bs 1, px_y = u16_be_at bs 3\<rparr>\<rparr> # ps)
             (read_pointers n (drop 5 bs)))"

definition get_pointers :: "bytes \<Rightarrow> pointer list option" where
  "get_pointers d = (case d of [] \<Rightarrow> None | count # rest \<Rightarrow> read_pointers (unat count) rest)"

definition get_keys :: "bytes \<Rightarrow> (u16 \<times> u16) option" where
  "get_keys d = (if length d < 5 then None else Some (u16_be_at d 1, u16_be_at d 3))"

definition input_of :: "u8 \<Rightarrow> bytes \<Rightarrow> generic_input option" where
  "input_of t d =
     (if t = 0 then map_option TouchDown (get_pointers d)
      else if t = 1 then map_option TouchUp (get_pointers d)
      else if t = 2 then map_option TouchMove (get_pointers d)
      else if t = 3 then map_option (\<lambda>(k1, k2). KeyDown k1 k2) (get_keys d)
      else if t = 4 then map_option (\<lambda>(k1, k2). KeyUp k1 k2) (get_keys d)
      else if t = 5 then (if length d < 6 then None
        else Some (Zoom \<lparr>px_x = u16_be_at d 0, px_y = u16_be_at d 2\<rparr> (d ! 4) (d ! 5)))
      else if t = 6 then (if length d < 2 then None else Some (VerticalScroll (scroll_from_bits (u16_be_at d 0))))
      else if t = 7 then (if length d < 2 then None else Some (HorizontalScroll (scroll_from_bits (u16_be_at d 0))))
      else if t = 8 then (if length d < 2 then None else Some (Rotate (d ! 0) (d ! 1)))
      else None)"

definition input_decode :: "bytes \<Rightarrow> (generic_input \<times> nat) option" where
  "input_decode bs =
     (if length bs < 3 then None
      else let len = unat (u16_be_at bs 1) in
        if length bs < 3 + len then None
        else map_option (\<lambda>m. (m, 3 + len)) (input_of (bs ! 0) (take len (drop 3 bs))))"

section \<open>HID reports\<close>

datatype hid_path = Infrared | Usb | HidBluetooth | Zigbee | WiFi | OtherPath u8

fun path_wire :: "hid_path \<Rightarrow> u8" where
  "path_wire Infrared = 0"
| "path_wire Usb = 1"
| "path_wire HidBluetooth = 2"
| "path_wire Zigbee = 3"
| "path_wire WiFi = 4"
| "path_wire (OtherPath v) = v"

datatype hid_type =
    Keyboard | Mouse | SingleTouch | MultiTouch | Joystick | Camera | Gesture | RemoteController | OtherType u8

fun hid_type_wire :: "hid_type \<Rightarrow> u8" where
  "hid_type_wire Keyboard = 0"
| "hid_type_wire Mouse = 1"
| "hid_type_wire SingleTouch = 2"
| "hid_type_wire MultiTouch = 3"
| "hid_type_wire Joystick = 4"
| "hid_type_wire Camera = 5"
| "hid_type_wire Gesture = 6"
| "hid_type_wire RemoteController = 7"
| "hid_type_wire (OtherType v) = v"

datatype hid_usage = HidReport | HidDescriptor

fun usage_wire :: "hid_usage \<Rightarrow> u8" where
  "usage_wire HidReport = 0"
| "usage_wire HidDescriptor = 1"

record hidc_message =
  hm_path :: hid_path
  hm_type :: hid_type
  hm_usage :: hid_usage
  hm_value :: bytes

definition hidc_encode :: "hidc_message \<Rightarrow> bytes" where
  "hidc_encode m =
     [path_wire (hm_path m), hid_type_wire (hm_type m), usage_wire (hm_usage m)]
     @ be16 (u16_or_max (length (hm_value m))) @ hm_value m"

section \<open>Frames\<close>

definition HEADER_LEN :: nat where "HEADER_LEN = 4"
definition HEADER_LEN_TIMESTAMPED :: nat where "HEADER_LEN_TIMESTAMPED = 6"

record uibc_frame =
  uf_category :: input_category
  uf_timestamp :: "u16 option"
  uf_body :: bytes

definition generic_frame :: "generic_input list \<Rightarrow> u16 option \<Rightarrow> uibc_frame" where
  "generic_frame ms ts = \<lparr>uf_category = Generic, uf_timestamp = ts, uf_body = concat (map input_encode ms)\<rparr>"

definition hidc_frame :: "hidc_message \<Rightarrow> u16 option \<Rightarrow> uibc_frame" where
  "hidc_frame m ts = \<lparr>uf_category = Hidc, uf_timestamp = ts, uf_body = hidc_encode m\<rparr>"

definition padded_len :: "uibc_frame \<Rightarrow> nat" where
  "padded_len f =
     (let n = (if uf_timestamp f \<noteq> None then HEADER_LEN_TIMESTAMPED else HEADER_LEN) + length (uf_body f) in n + n mod 2)"

definition uibc_encode :: "uibc_frame \<Rightarrow> bytes" where
  "uibc_encode f =
     (let out = [if uf_timestamp f \<noteq> None then 0x10 else 0x00, category_wire (uf_category f)] @ be16 (u16_or_max (padded_len f))
                @ (case uf_timestamp f of None \<Rightarrow> [] | Some ts \<Rightarrow> be16 ts) @ uf_body f in
      out @ replicate (padded_len f - length out) 0)"

definition uibc_parse :: "bytes \<Rightarrow> (uibc_frame \<times> nat) option" where
  "uibc_parse bs =
     (if length bs < HEADER_LEN then None
      else case category_from_wire (bs ! 1) of
        None \<Rightarrow> None
      | Some c \<Rightarrow>
          let declared = unat (u16_be_at bs 2) in
          if declared < HEADER_LEN \<or> length bs < declared then None
          else if bs ! 0 AND 0x10 \<noteq> 0
          then (if length bs < HEADER_LEN_TIMESTAMPED \<or> declared < HEADER_LEN_TIMESTAMPED then None
                else Some (\<lparr>uf_category = c, uf_timestamp = Some (u16_be_at bs 4),
                            uf_body = take (declared - HEADER_LEN_TIMESTAMPED) (drop HEADER_LEN_TIMESTAMPED bs)\<rparr>, declared))
          else Some (\<lparr>uf_category = c, uf_timestamp = None, uf_body = take (declared - HEADER_LEN) (drop HEADER_LEN bs)\<rparr>, declared))"

function read_inputs :: "bytes \<Rightarrow> generic_input list option" where
  "read_inputs rest =
     (if length rest < 3 then Some []
      else case input_decode rest of
        None \<Rightarrow> None
      | Some (m, n) \<Rightarrow> map_option (\<lambda>ms. m # ms) (read_inputs (drop n rest)))"
  by pat_completeness auto
termination by (relation "measure length") (auto simp: input_decode_def Let_def split: if_splits)

declare read_inputs.simps [simp del]

definition generic_messages :: "uibc_frame \<Rightarrow> generic_input list option" where
  "generic_messages f = (if uf_category f \<noteq> Generic then None else read_inputs (uf_body f))"

section \<open>The surface\<close>

definition UIBC_QUEUE :: nat where "UIBC_QUEUE = 32"

record contacts =
  ct_live :: "(u64, u8 \<times> source_pixel) tbl"
  ct_used :: "bool list"

definition contacts_new :: contacts where
  "contacts_new = \<lparr>ct_live = [], ct_used = replicate 256 False\<rparr>"

definition free_id :: "bool list \<Rightarrow> nat option" where
  "free_id used = (let n = length (takeWhile (\<lambda>t. t) used) in if n < length used then Some n else None)"

definition claim :: "u64 \<Rightarrow> source_pixel \<Rightarrow> contacts \<Rightarrow> u8 option \<times> contacts" where
  "claim contact at c =
     (case tbl_get (ct_live c) contact of
        Some (i, _) \<Rightarrow> (Some i, c\<lparr>ct_live := tbl_put contact (i, at) (ct_live c)\<rparr>)
      | None \<Rightarrow>
          (case free_id (ct_used c) of
             None \<Rightarrow> (None, c)
           | Some n \<Rightarrow>
               if n < 256
               then (Some (of_nat n), c\<lparr>ct_used := (ct_used c)[n := True], ct_live := tbl_put contact (of_nat n, at) (ct_live c)\<rparr>)
               else (None, c)))"

definition release :: "u64 \<Rightarrow> contacts \<Rightarrow> (u8 \<times> source_pixel) option \<times> contacts" where
  "release contact c =
     (case tbl_get (ct_live c) contact of
        None \<Rightarrow> (None, c)
      | Some (i, at) \<Rightarrow>
          (Some (i, at), c\<lparr>ct_live := tbl_del contact (ct_live c), ct_used := (ct_used c)[unat i := False]\<rparr>))"

definition drain :: "contacts \<Rightarrow> (u8 \<times> source_pixel) list \<times> contacts" where
  "drain c = (map snd (ct_live c), c\<lparr>ct_used := replicate 256 False, ct_live := []\<rparr>)"

datatype touch_phase = Down | Move | Up | Cancel

text \<open>The frames that wait for the socket, in a channel of bounded capacity.\<close>

record uibc_surface =
  us_contacts :: contacts
  us_queue :: "bytes list"

definition surface_new :: uibc_surface where
  "surface_new = \<lparr>us_contacts = contacts_new, us_queue = []\<rparr>"

definition send :: "generic_input \<Rightarrow> uibc_surface \<Rightarrow> uibc_surface" where
  "send m s =
     (if length (us_queue s) < UIBC_QUEUE then s\<lparr>us_queue := us_queue s @ [uibc_encode (generic_frame [m] None)]\<rparr> else s)"

text \<open>What a touch asks to be sent, and the contacts after it.\<close>

definition touch_message :: "touch_phase \<Rightarrow> u64 \<Rightarrow> source_pixel option \<Rightarrow> contacts \<Rightarrow> generic_input option \<times> contacts" where
  "touch_message phase contact inside c =
     (case phase of
        Down \<Rightarrow>
          (case inside of
             None \<Rightarrow> (None, c)
           | Some at \<Rightarrow>
               (case claim contact at c of
                  (None, c) \<Rightarrow> (None, c)
                | (Some i, c) \<Rightarrow> (Some (TouchDown [\<lparr>pt_id = i, pt_at = at\<rparr>]), c)))
      | Move \<Rightarrow>
          (case (inside, tbl_get (ct_live c) contact) of
             (Some at, Some (i, _)) \<Rightarrow> (Some (TouchMove [\<lparr>pt_id = i, pt_at = at\<rparr>]), snd (claim contact at c))
           | _ \<Rightarrow> (None, c))
      | _ \<Rightarrow>
          (case release contact c of
             (None, c) \<Rightarrow> (None, c)
           | (Some (i, last_at), c) \<Rightarrow>
               (Some (TouchUp [\<lparr>pt_id = i, pt_at = (case inside of None \<Rightarrow> last_at | Some at \<Rightarrow> at)\<rparr>]), c)))"

definition send_opt :: "generic_input option \<times> contacts \<Rightarrow> uibc_surface \<Rightarrow> uibc_surface" where
  "send_opt r s =
     (let s = s\<lparr>us_contacts := snd r\<rparr> in case fst r of None \<Rightarrow> s | Some m \<Rightarrow> send m s)"

definition touch :: "touch_phase \<Rightarrow> u64 \<Rightarrow> source_pixel option \<Rightarrow> uibc_surface \<Rightarrow> uibc_surface" where
  "touch phase contact inside s = send_opt (touch_message phase contact inside (us_contacts s)) s"

text \<open>
  \<open>cancel_all\<close> empties the table of contacts under its lock, gives the lock back, and then sends the release
  of what it found: two steps, between which a touch from the panel's thread may come.
\<close>

type_synonym drained = "(u8 \<times> source_pixel) list"

definition cancel_drain :: "uibc_surface \<Rightarrow> drained \<times> uibc_surface" where
  "cancel_drain s = (let (live, c) = drain (us_contacts s) in (live, s\<lparr>us_contacts := c\<rparr>))"

definition release_message :: "drained \<Rightarrow> generic_input option" where
  "release_message live =
     (if live = [] then None else Some (TouchUp (map (\<lambda>(i, at). \<lparr>pt_id = i, pt_at = at\<rparr>) live)))"

definition cancel_send :: "drained \<Rightarrow> uibc_surface \<Rightarrow> uibc_surface" where
  "cancel_send live s = (case release_message live of None \<Rightarrow> s | Some m \<Rightarrow> send m s)"

definition cancel_all :: "uibc_surface \<Rightarrow> uibc_surface" where
  "cancel_all s = (let (live, s) = cancel_drain s in cancel_send live s)"

section \<open>What is written is read back\<close>

definition pointers_ok :: "pointer list \<Rightarrow> bool" where
  "pointers_ok ps \<longleftrightarrow> length ps < 256"

fun input_ok :: "generic_input \<Rightarrow> bool" where
  "input_ok (TouchDown ps) = pointers_ok ps"
| "input_ok (TouchUp ps) = pointers_ok ps"
| "input_ok (TouchMove ps) = pointers_ok ps"
| "input_ok (VerticalScroll s) = (sc_amount s \<le> MAX_SCROLL_UNITS)"
| "input_ok (HorizontalScroll s) = (sc_amount s \<le> MAX_SCROLL_UNITS)"
| "input_ok _ = True"

lemma be_at_Cons:
  "u16_be_at (x # xs) (Suc i) = u16_be_at xs i" "u16_be_at (x # xs) (numeral k) = u16_be_at xs (pred_numeral k)"
  by (simp_all add: u16_be_at_def numeral_eq_Suc)

lemma drop_pointer: "drop 5 (put_pointer p @ bs) = bs"
proof -
  have "length (put_pointer p) = 5" by (simp add: put_pointer_def)
  then show ?thesis by simp
qed

lemma pointer_read: "u16_be_at (put_pointer p @ bs) 1 = px_x (pt_at p)" "u16_be_at (put_pointer p @ bs) 3 = px_y (pt_at p)"
  "(put_pointer p @ bs) ! 0 = pt_id p" "drop 5 (put_pointer p @ bs) = bs" "\<not> length (put_pointer p @ bs) < 5"
  by (rule drop_pointer | simp add: put_pointer_def be_at_Cons wire_simps)+

lemma read_put_pointers: "read_pointers (length ps) (concat (map put_pointer ps) @ rest) = Some ps"
proof (induction ps)
  case (Cons p ps)
  have "concat (map put_pointer (p # ps)) @ rest = put_pointer p @ concat (map put_pointer ps) @ rest" by simp
  then show ?case using Cons by (simp only: list.size read_pointers.simps add_0_right add_Suc_right pointer_read if_False) simp
qed simp

lemma pointers_roundtrip: "pointers_ok ps \<Longrightarrow> get_pointers (put_pointers ps) = Some ps"
  using read_put_pointers [of ps "[]"] by (simp add: get_pointers_def put_pointers_def pointers_ok_def u8_or_max_def)

lemma pointers_length: "length (put_pointers ps) = 1 + 5 * length ps"
proof -
  have "length (concat (map put_pointer ps)) = 5 * length ps" by (induction ps) (simp_all add: put_pointer_def)
  then show ?thesis by (simp add: put_pointers_def)
qed

lemma scroll_roundtrip: "sc_amount s \<le> MAX_SCROLL_UNITS \<Longrightarrow> scroll_from_bits (scroll_bits s) = s"
proof -
  assume a: "sc_amount s \<le> MAX_SCROLL_UNITS"
  have m: "(0x1FFF :: u16) = mask 13" by (simp add: mask_eq_exp_minus_1)
  have "unat (sc_amount s) < 2 ^ 13" using a by (simp add: MAX_SCROLL_UNITS_def word_le_nat_alt)
  then have n: "bit (sc_amount s) k \<Longrightarrow> k < 13" for k using bit_below [of "sc_amount s" 13 k] by blast
  have min: "min (sc_amount s) MAX_SCROLL_UNITS = sc_amount s" using a by (simp add: min_def)
  let ?u = "(case sc_unit s of Pixels \<Rightarrow> 0 | Notch \<Rightarrow> 1) :: u16"
  let ?d = "(case sc_direction s of DownOrRight \<Rightarrow> 0 | UpOrLeft \<Rightarrow> 1) :: u16"
  have sb: "scroll_bits s = (push_bit 14 ?u OR push_bit 13 ?d) OR sc_amount s" unfolding scroll_bits_def min ..
  have amount: "scroll_bits s AND MAX_SCROLL_UNITS = sc_amount s"
    unfolding sb MAX_SCROLL_UNITS_def m
    by (rule bit_word_eqI) (auto simp: bit_simps dest: n split: scroll_unit.split scroll_direction.split)
  have high: "drop_bit 13 (scroll_bits s) = push_bit 1 ?u OR ?d"
    unfolding sb
    by (rule bit_word_eqI) (auto simp: bit_simps dest: n split: scroll_unit.split scroll_direction.split)
  have "drop_bit 14 (scroll_bits s) = drop_bit 1 (drop_bit 13 (scroll_bits s))" by (simp add: drop_bit_drop_bit)
  then have unit: "drop_bit 14 (scroll_bits s) AND 3 = ?u"
    unfolding high by (simp split: scroll_unit.split scroll_direction.split)
  have "scroll_bits s AND 0x2000 = 0 \<longleftrightarrow> \<not> bit (scroll_bits s) 13"
  proof -
    have p: "(0x2000 :: u16) = push_bit 13 1" by simp
    show ?thesis unfolding p and_exp_eq_0_iff_not_bit [symmetric] by (simp add: push_bit_eq_mult)
  qed
  also have "\<dots> \<longleftrightarrow> \<not> bit (drop_bit 13 (scroll_bits s)) 0" by (simp add: bit_simps)
  also have "\<dots> \<longleftrightarrow> sc_direction s = DownOrRight"
    unfolding high by (simp add: bit_simps split: scroll_unit.split scroll_direction.split)
  finally show ?thesis
    using unit amount by (cases "sc_unit s"; cases "sc_direction s"; cases s) (simp_all add: scroll_from_bits_def)
qed

lemma describe_read: "input_ok m \<Longrightarrow> input_of (type_id m) (describe m) = Some m"
  by (cases m) (simp_all add: input_of_def pointers_roundtrip scroll_roundtrip get_keys_def wire_simps
      be_at_Cons nth_append)

lemma describe_length: "input_ok m \<Longrightarrow> length (describe m) < 2 ^ 16"
  by (cases m) (simp_all add: pointers_length pointers_ok_def)

lemma input_head:
  assumes "length d < 2 ^ 16" "bs = t # be16 (u16_or_max (length d)) @ d @ rest"
  shows "\<not> length bs < 3" "unat (u16_be_at bs 1) = length d" "\<not> length bs < 3 + length d" "bs ! 0 = t"
    "take (length d) (drop 3 bs) = d" "drop (3 + length d) bs = rest"
  using assms by (simp_all add: u16_or_max_def u16_try_from_def u16_be_at_def be16_def numeral_3_eq_3)

text \<open>
  A generic input message is read back as it was, whatever follows it, touches of up to 255
  contacts and scrolls of 13 bits among them.
\<close>

theorem input_roundtrip: "input_ok m \<Longrightarrow> input_decode (input_encode m @ rest) = Some (m, length (input_encode m))"
proof -
  assume ok: "input_ok m"
  obtain bs where bs: "bs = type_id m # be16 (u16_or_max (length (describe m))) @ describe m @ rest" by simp
  note h = input_head [OF describe_length [OF ok] bs]
  have "input_encode m @ rest = bs" by (simp add: bs input_encode_def)
  moreover have "length (input_encode m) = 3 + length (describe m)" by (simp add: input_encode_def)
  ultimately show ?thesis
    by (simp only: input_decode_def h if_False Let_def describe_read [OF ok]) simp
qed

lemma inputs_read:
  "\<lbrakk>list_all input_ok ms; length pad < 3\<rbrakk> \<Longrightarrow> read_inputs (concat (map input_encode ms) @ pad) = Some ms"
proof (induction ms)
  case Nil
  then show ?case by (simp add: read_inputs.simps)
next
  case (Cons m ms)
  let ?rest = "concat (map input_encode ms) @ pad"
  have d: "input_decode (input_encode m @ ?rest) = Some (m, length (input_encode m))" using input_roundtrip Cons.prems by simp
  have l: "\<not> length (input_encode m @ ?rest) < 3" by (simp add: input_encode_def)
  show ?case using Cons d l by (simp add: read_inputs.simps [of "input_encode m @ ?rest"])
qed

text \<open>
  A frame of any generic messages, with or without a timestamp and padded or not, is cut
  off the stream at its own length, and gives its messages back.
\<close>

theorem inputs_read_back:
  "\<lbrakk>list_all input_ok ms; padded_len (generic_frame ms ts) < 2 ^ 16\<rbrakk> \<Longrightarrow>
     \<exists>f. uibc_parse (uibc_encode (generic_frame ms ts) @ rest) = Some (f, length (uibc_encode (generic_frame ms ts)))
       \<and> uf_timestamp f = ts \<and> generic_messages f = Some ms"
proof -
  assume ok: "list_all input_ok ms" and len: "padded_len (generic_frame ms ts) < 2 ^ 16"
  let ?g = "generic_frame ms ts"
  let ?n = "padded_len ?g"
  let ?body = "concat (map input_encode ms)"
  let ?head = "[if ts \<noteq> None then 0x10 else 0x00, 0] @ be16 (of_nat ?n) @ (case ts of None \<Rightarrow> [] | Some t \<Rightarrow> be16 t)"
  let ?k = "if ts \<noteq> None then 6 else 4 :: nat"
  let ?m = "?k + length ?body"
  have n: "?n = ?m + ?m mod 2"
    by (simp add: padded_len_def generic_frame_def HEADER_LEN_def HEADER_LEN_TIMESTAMPED_def Let_def)
  have hl: "length ?head = ?k" by (cases ts) simp_all
  obtain pad where pad: "pad = replicate (?m mod 2) (0 :: u8)" by simp
  have e: "uibc_encode ?g = ?head @ ?body @ pad"
  proof -
    have "u16_or_max ?n = of_nat ?n" using len by (simp add: u16_or_max_def u16_try_from_def)
    then have "uibc_encode ?g = ?head @ ?body @ replicate (?n - length (?head @ ?body)) 0"
      unfolding uibc_encode_def Let_def by (simp add: generic_frame_def)
    moreover have "?n - length (?head @ ?body) = ?m mod 2" using n hl by simp
    ultimately show ?thesis by (simp add: pad)
  qed
  have el: "length (uibc_encode ?g) = ?n" unfolding e n using hl by (simp add: pad)
  have u: "unat (of_nat ?n :: u16) = ?n" using len by simp
  have pl: "length pad < 3" unfolding pad length_replicate by (rule less_trans [of _ 2]) simp_all
  let ?f = "\<lparr>uf_category = Generic, uf_timestamp = ts, uf_body = ?body @ pad\<rparr>"
  have "uibc_parse (uibc_encode ?g @ rest) = Some (?f, ?n)"
  proof -
    obtain bs where bs: "bs = uibc_encode ?g @ rest" by simp
    have b: "bs ! 1 = 0" "u16_be_at bs 2 = of_nat ?n" "bs ! 0 = (if ts \<noteq> None then 0x10 else 0x00)"
      unfolding bs e by (simp_all add: be_at_Cons wire_simps del: of_nat_add)
    have bl: "\<not> length bs < ?n" "\<not> ?n < ?k" unfolding bs using el n by simp_all
    have t: "take (?n - ?k) (drop ?k bs) = ?body @ pad"
    proof -
      have "drop (length ?head) (?head @ ?body @ pad @ rest) = ?body @ pad @ rest"
        by (rule append_eq_conv_conj [THEN iffD1, OF refl, THEN conjunct2, symmetric])
      then have "drop ?k bs = ?body @ pad @ rest" unfolding bs e hl by (simp only: append_assoc)
      moreover have "?n - ?k = length (?body @ pad)" using n by (simp add: pad)
      ultimately show ?thesis by simp
    qed
    have ts: "ts \<noteq> None \<Longrightarrow> Some (u16_be_at bs 4) = ts"
      unfolding bs e by (cases ts) (simp_all add: be_at_Cons wire_simps del: of_nat_add)
    show ?thesis unfolding bs [symmetric]
      using bl t ts b u by (cases ts) (simp_all add: uibc_parse_def category_from_wire_def HEADER_LEN_def HEADER_LEN_TIMESTAMPED_def Let_def)
  qed
  moreover have "generic_messages ?f = Some ms" using inputs_read [OF ok pl] by (simp add: generic_messages_def)
  ultimately show ?thesis using el by auto
qed

section \<open>Contacts\<close>

text \<open>
  Every live contact has an identifier of its own, and the table of used identifiers says which.
\<close>

definition live_ids :: "contacts \<Rightarrow> u8 set" where
  "live_ids c = (\<lambda>(_, i, _). i) ` set (ct_live c)"

definition contacts_ok :: "contacts \<Rightarrow> bool" where
  "contacts_ok c \<longleftrightarrow>
     tbl_ok (ct_live c) \<and> length (ct_used c) = 256 \<and> (\<forall>i. ct_used c ! unat (i :: u8) \<longleftrightarrow> i \<in> live_ids c)
     \<and> distinct (map (\<lambda>(_, i, _). i) (ct_live c))"

lemma byte_small: "unat (i :: u8) < 256"
  using unsigned_less [of i] by simp

lemma contacts_new_ok: "contacts_ok contacts_new"
  by (simp add: contacts_ok_def contacts_new_def live_ids_def byte_small)

lemma free_id_Some: "free_id used = Some n \<Longrightarrow> n < length used \<and> \<not> used ! n"
  by (auto simp: free_id_def Let_def split: if_splits dest: nth_length_takeWhile)

lemma put_same_id:
  "\<lbrakk>tbl_ok t; tbl_get t k = Some (i, a)\<rbrakk> \<Longrightarrow>
     map (\<lambda>(_, i, _). i) (tbl_put k (i, b) t) = map (\<lambda>(_, i, _). i) t"
  by (induction t) auto

lemma put_new: "tbl_get t k = None \<Longrightarrow> tbl_put k v t = t @ [(k, v)]"
  by (induction t) auto

lemma live_ids_map: "live_ids c = set (map (\<lambda>(_, i, _). i) (ct_live c))"
  by (simp add: live_ids_def)

lemma claim_live:
  "\<lbrakk>contacts_ok c; tbl_get (ct_live c) k = Some (i, a)\<rbrakk> \<Longrightarrow>
     fst (claim k at c) = Some i \<and> contacts_ok (snd (claim k at c)) \<and> live_ids (snd (claim k at c)) = live_ids c"
  using put_same_id [of "ct_live c" k i a at]
  by (auto simp: claim_def contacts_ok_def live_ids_map table_simps simp del: set_map)

lemma claim_new:
  assumes ok: "contacts_ok c" and k: "tbl_get (ct_live c) k = None" and r: "claim k at c = (Some i, c')"
  shows "i \<notin> live_ids c \<and> live_ids c' = insert i (live_ids c) \<and> contacts_ok c'"
proof -
  obtain n where n: "free_id (ct_used c) = Some n" "n < 256" "i = of_nat n"
    and c': "c' = c\<lparr>ct_used := (ct_used c)[n := True], ct_live := tbl_put k (i, at) (ct_live c)\<rparr>"
    using r k by (auto simp: claim_def split: option.splits if_splits)
  have u: "unat i = n" using n(2,3) by simp
  have free: "\<not> ct_used c ! n" using free_id_Some [OF n(1)] by simp
  then have new: "i \<notin> live_ids c" using ok u by (auto simp: contacts_ok_def)
  have ids: "map (\<lambda>(_, i, _). i) (ct_live c') = map (\<lambda>(_, i, _). i) (ct_live c) @ [i]"
    using put_new [OF k] by (simp add: c')
  then have live: "live_ids c' = insert i (live_ids c)" by (simp add: live_ids_map del: set_map)
  have "ct_used c' ! unat j \<longleftrightarrow> j \<in> live_ids c'" for j
  proof (cases "j = i")
    case True
    then show ?thesis unfolding live using ok n(2) u by (simp add: c' contacts_ok_def)
  next
    case False
    then have "unat j \<noteq> n" using u by (auto simp: word_unat_eq_iff)
    then show ?thesis unfolding live using ok False by (simp add: c' contacts_ok_def)
  qed
  moreover have "distinct (map (\<lambda>(_, i, _). i) (ct_live c'))"
    using ok new unfolding ids by (simp add: contacts_ok_def live_ids_map del: set_map)
  moreover have "tbl_ok (ct_live c')" "length (ct_used c') = 256" using ok by (simp_all add: c' contacts_ok_def table_simps)
  ultimately have "contacts_ok c'" unfolding contacts_ok_def by blast
  then show ?thesis using new live by simp
qed

lemma del_ids:
  "\<lbrakk>tbl_ok t; tbl_get t k = Some (i, a); distinct (map (\<lambda>(_, i, _). i) t)\<rbrakk> \<Longrightarrow>
     map (\<lambda>(_, i, _). i) (tbl_del k t) = remove1 i (map (\<lambda>(_, i, _). i) t)"
proof (induction t)
  case (Cons e t)
  obtain k' i' a' where e: "e = (k', i', a')" by (cases e)
  show ?case
  proof (cases "k' = k")
    case True
    have "tbl_del k t = t" using Cons.prems(1) True by (force simp: AList.delete_eq filter_id_conv e)
    then show ?thesis using True Cons.prems(2) by (simp add: e)
  next
    case False
    then have g: "tbl_get t k = Some (i, a)" using Cons.prems(2) by (simp add: e)
    then have "i \<in> set (map (\<lambda>(_, i, _). i) t)" by (force dest: map_of_SomeD)
    moreover have "i' \<notin> set (map (\<lambda>(_, i, _). i) t)" using Cons.prems(3) by (simp add: e)
    ultimately have "i \<noteq> i'" by metis
    then show ?thesis using False Cons.IH [OF _ g] Cons.prems by (simp add: e)
  qed
qed simp

lemma release_live:
  assumes ok: "contacts_ok c" and r: "release k c = (Some (i, a), c')"
  shows "i \<in> live_ids c \<and> live_ids c' = live_ids c - {i} \<and> contacts_ok c'"
proof -
  have g: "tbl_get (ct_live c) k = Some (i, a)"
    and c': "c' = c\<lparr>ct_live := tbl_del k (ct_live c), ct_used := (ct_used c)[unat i := False]\<rparr>"
    using r by (auto simp: release_def split: option.splits)
  have d: "distinct (map (\<lambda>(_, i, _). i) (ct_live c))" "tbl_ok (ct_live c)" using ok by (simp_all add: contacts_ok_def)
  have ids: "map (\<lambda>(_, i, _). i) (ct_live c') = remove1 i (map (\<lambda>(_, i, _). i) (ct_live c))"
    using del_ids [OF d(2) g d(1)] by (simp add: c')
  then have live: "live_ids c' = live_ids c - {i}" using d(1) by (simp add: live_ids_map del: set_map)
  have "i \<in> live_ids c" using g by (force simp: live_ids_def dest: map_of_SomeD)
  moreover have "ct_used c' ! unat j \<longleftrightarrow> j \<in> live_ids c'" for j
  proof (cases "j = i")
    case True
    then show ?thesis unfolding live using ok byte_small [of i] by (simp add: c' contacts_ok_def)
  next
    case False
    then have "unat j \<noteq> unat i" by (auto simp: word_unat_eq_iff)
    then show ?thesis unfolding live using ok False by (simp add: c' contacts_ok_def)
  qed
  moreover have "distinct (map (\<lambda>(_, i, _). i) (ct_live c'))" unfolding ids using d(1) by (rule distinct_remove1)
  moreover have "tbl_ok (ct_live c')" "length (ct_used c') = 256" using ok by (simp_all add: c' contacts_ok_def table_simps)
  ultimately have "contacts_ok c'" unfolding contacts_ok_def by blast
  then show ?thesis using \<open>i \<in> live_ids c\<close> live by simp
qed

lemma drained_ok: "contacts_ok c \<Longrightarrow> contacts_ok (snd (drain c)) \<and> live_ids (snd (drain c)) = {}"
  using byte_small by (simp add: drain_def contacts_ok_def live_ids_def)

section \<open>What the source sees\<close>

text \<open>
  The contacts a source believes to be down, or nothing when a message does not fit them: a
  press of a contact that is down, a move or release of one that is not.
\<close>

definition ids_of :: "pointer list \<Rightarrow> u8 list" where
  "ids_of ps = map pt_id ps"

fun source_sees :: "generic_input \<Rightarrow> u8 set \<Rightarrow> u8 set option" where
  "source_sees (TouchDown ps) down =
     (if distinct (ids_of ps) \<and> set (ids_of ps) \<inter> down = {} then Some (down \<union> set (ids_of ps)) else None)"
| "source_sees (TouchMove ps) down = (if set (ids_of ps) \<subseteq> down then Some down else None)"
| "source_sees (TouchUp ps) down = (if set (ids_of ps) \<subseteq> down then Some (down - set (ids_of ps)) else None)"
| "source_sees _ down = Some down"

fun source_sees_all :: "generic_input list \<Rightarrow> u8 set \<Rightarrow> u8 set option" where
  "source_sees_all [] down = Some down"
| "source_sees_all (m # ms) down = Option.bind (source_sees m down) (source_sees_all ms)"

text \<open>
  What happens on the panel's side: a touch, and the two steps of a \<open>cancel_all\<close>. Only one such call is under way at
  a time (\<^verbatim>\<open>TouchHandle::set\<close> makes it under a lock of its own), so a second one waits. Beside the
  contacts, what the call in progress has drained and not yet released.
\<close>

datatype surface_input = Touched touch_phase u64 "source_pixel option" | Drained | Released

fun asked :: "surface_input \<Rightarrow> drained option \<times> contacts \<Rightarrow> generic_input option \<times> drained option \<times> contacts" where
  "asked (Touched phase contact inside) (w, c) = (let (m, c) = touch_message phase contact inside c in (m, w, c))"
| "asked Drained (w, c) =
     (case w of None \<Rightarrow> (let (live, c) = drain c in (None, Some live, c)) | Some _ \<Rightarrow> (None, w, c))"
| "asked Released (w, c) =
     (case w of None \<Rightarrow> (None, None, c) | Some live \<Rightarrow> (release_message live, None, c))"

fun messages_asked :: "surface_input list \<Rightarrow> drained option \<times> contacts \<Rightarrow> generic_input list" where
  "messages_asked [] st = []"
| "messages_asked (i # is) st =
     (case fst (asked i st) of None \<Rightarrow> [] | Some m \<Rightarrow> [m]) @ messages_asked is (snd (asked i st))"

text \<open>
  The router presses no contact that is down, nor any while a cancel has yet to send its release, and
  no cancel finds all 256 identifiers taken.
\<close>

fun orderly :: "surface_input \<Rightarrow> drained option \<times> contacts \<Rightarrow> bool" where
  "orderly (Touched Down k _) (w, c) = (tbl_get (ct_live c) k = None \<and> w = None)"
| "orderly Drained (w, c) = (length (ct_live c) < 256)"
| "orderly _ _ = True"

fun all_orderly :: "surface_input list \<Rightarrow> drained option \<times> contacts \<Rightarrow> bool" where
  "all_orderly [] st = True"
| "all_orderly (i # is) st = (orderly i st \<and> all_orderly is (snd (asked i st)))"

text \<open>The identifiers the source has not been told are up.\<close>

fun still_down :: "drained option \<times> contacts \<Rightarrow> u8 set" where
  "still_down (w, c) = live_ids c \<union> (case w of None \<Rightarrow> {} | Some live \<Rightarrow> fst ` set live)"

fun panel_ok :: "drained option \<times> contacts \<Rightarrow> bool" where
  "panel_ok (w, c) \<longleftrightarrow>
     contacts_ok c \<and> (case w of None \<Rightarrow> True | Some live \<Rightarrow> live_ids c = {} \<and> length live < 256)"

lemma touch_sound:
  assumes ok: "contacts_ok c" and fresh: "phase = Down \<longrightarrow> tbl_get (ct_live c) k = None"
  shows "contacts_ok (snd (touch_message phase k inside c))
     \<and> (phase = Down \<or> live_ids (snd (touch_message phase k inside c)) \<subseteq> live_ids c)
     \<and> (case fst (touch_message phase k inside c) of
          None \<Rightarrow> live_ids (snd (touch_message phase k inside c)) = live_ids c
        | Some m \<Rightarrow> input_ok m \<and> source_sees m (live_ids c) = Some (live_ids (snd (touch_message phase k inside c))))"
proof -
  have release: ?thesis if p: "phase = Up \<or> phase = Cancel"
  proof (cases "release k c")
    case (Pair r c')
    then show ?thesis
    proof (cases r)
      case None
      then have "c' = c" using Pair by (auto simp: release_def split: option.splits)
      then show ?thesis using p ok Pair None by (elim disjE) (simp_all add: touch_message_def)
    next
      case (Some e)
      obtain j a where e: "e = (j, a)" by (cases e)
      have r: "release k c = (Some (j, a), c')" using Pair by (simp add: Some e)
      note l = release_live [OF ok r]
      from p show ?thesis by (elim disjE) (simp_all add: touch_message_def r ids_of_def pointers_ok_def l)
    qed
  qed
  show ?thesis
  proof (cases phase)
    case Down
    then have k: "tbl_get (ct_live c) k = None" using fresh by simp
    show ?thesis
    proof (cases inside)
      case None
      then show ?thesis using ok by (simp add: Down touch_message_def)
    next
      case (Some at)
      obtain r c' where r: "claim k at c = (r, c')" by (cases "claim k at c")
      show ?thesis
      proof (cases r)
        case None
        then have "c' = c" using r k by (auto simp: claim_def split: option.splits if_splits)
        then show ?thesis using ok r None by (simp add: Down Some touch_message_def)
      next
        case (Some j)
        then show ?thesis using claim_new [OF ok k, of at j c'] r \<open>inside = Some at\<close>
          by (simp add: Down touch_message_def ids_of_def pointers_ok_def)
      qed
    qed
  next
    case Move
    show ?thesis
    proof (cases "\<exists>at j a. inside = Some at \<and> tbl_get (ct_live c) k = Some (j, a)")
      case True
      then obtain at j a where at: "inside = Some at" and g: "tbl_get (ct_live c) k = Some (j, a)" by blast
      have "j \<in> live_ids c" using g by (force simp: live_ids_def dest: map_of_SomeD)
      then show ?thesis using claim_live [OF ok g, of at]
        by (simp add: Move touch_message_def at g ids_of_def pointers_ok_def)
    next
      case False
      then show ?thesis using ok
        by (cases inside; cases "tbl_get (ct_live c) k") (auto simp: Move touch_message_def)
    qed
  qed (use release in simp_all)
qed

lemma asked_sound:
  assumes ok: "panel_ok st" and fine: "orderly i st"
  shows "panel_ok (snd (asked i st))
     \<and> (case fst (asked i st) of
          None \<Rightarrow> still_down (snd (asked i st)) = still_down st
        | Some m \<Rightarrow> input_ok m \<and> source_sees m (still_down st) = Some (still_down (snd (asked i st))))"
proof -
  obtain w c where st: "st = (w, c)" by (cases st)
  have c: "contacts_ok c" using ok by (simp add: st)
  show ?thesis
  proof (cases i)
    case (Touched phase k inside)
    obtain m c' where t: "touch_message phase k inside c = (m, c')" by (cases "touch_message phase k inside c")
    have fresh: "phase = Down \<longrightarrow> tbl_get (ct_live c) k = None \<and> w = None" using fine by (cases phase) (simp_all add: Touched st)
    show ?thesis
    proof (cases w)
      case None
      then show ?thesis using touch_sound [OF c, of phase k inside] fresh
        by (simp add: st Touched t split: option.splits)
    next
      case (Some live)
      then have e: "live_ids c = {}" and "phase \<noteq> Down" using ok fresh by (simp_all add: st)
      then have n: "tbl_get (ct_live c) k = None" by (cases "ct_live c") (auto simp: live_ids_def)
      have "m = None \<and> c' = c"
        using t n \<open>phase \<noteq> Down\<close> by (cases phase; cases inside) (auto simp: touch_message_def release_def)
      then show ?thesis using ok Some by (simp add: st Touched t)
    qed
  next
    case Drained
    have l: "fst ` set (map snd (ct_live c)) = live_ids c" by (force simp: live_ids_def)
    show ?thesis
    proof (cases w)
      case None
      then show ?thesis using drained_ok [OF c] fine l
        by (simp add: Drained st case_prod_beta) (simp add: drain_def)
    qed (use ok in \<open>simp add: Drained st\<close>)
  next
    case Released
    show ?thesis
    proof (cases w)
      case (Some live)
      have "set (ids_of (map (\<lambda>(i, at). \<lparr>pt_id = i, pt_at = at\<rparr>) live)) = fst ` set live"
        by (force simp: ids_of_def)
      then show ?thesis using ok Some by (simp add: Released st release_message_def pointers_ok_def)
    qed (use ok in \<open>simp add: Released st\<close>)
  qed
qed

lemma asked_all_sound:
  "\<lbrakk>panel_ok st; all_orderly is st\<rbrakk> \<Longrightarrow>
     list_all input_ok (messages_asked is st)
     \<and> source_sees_all (messages_asked is st) (still_down st) = Some (still_down (fold (\<lambda>i st. snd (asked i st)) is st))"
proof (induction "is" arbitrary: st)
  case (Cons i "is")
  note s = asked_sound [OF Cons.prems(1), of i]
  then show ?case using Cons.IH [of "snd (asked i st)"] Cons.prems(2) by (auto split: option.splits)
qed simp

section \<open>Through the queue\<close>

text \<open>What the source reads off the connection: frame after frame, each with its messages.\<close>

function read_stream :: "bytes \<Rightarrow> generic_input list option" where
  "read_stream bs =
     (if bs = [] then Some []
      else case uibc_parse bs of
        None \<Rightarrow> None
      | Some (f, n) \<Rightarrow>
          if n = 0 then None
          else Option.bind (generic_messages f) (\<lambda>ms. map_option ((@) ms) (read_stream (drop n bs))))"
  by pat_completeness auto
termination by (relation "measure length") auto

declare read_stream.simps [simp del]

definition frame_for :: "generic_input \<Rightarrow> bytes" where
  "frame_for m = uibc_encode (generic_frame [m] None)"

lemma input_length: "input_ok m \<Longrightarrow> length (describe m) \<le> 1276"
  by (cases m) (simp_all add: pointers_length pointers_ok_def)

lemma frame_read:
  assumes "input_ok m"
  shows "\<exists>f. uibc_parse (frame_for m @ rest) = Some (f, length (frame_for m)) \<and> generic_messages f = Some [m]"
    and "frame_for m \<noteq> []"
proof -
  have "length (input_encode m) \<le> 1279" using input_length [OF assms] by (simp add: input_encode_def)
  then have "padded_len (generic_frame [m] None) < 2 ^ 16"
    by (simp add: padded_len_def generic_frame_def HEADER_LEN_def Let_def)
  then show "\<exists>f. uibc_parse (frame_for m @ rest) = Some (f, length (frame_for m)) \<and> generic_messages f = Some [m]"
    using inputs_read_back [of "[m]" None rest] assms unfolding frame_for_def by auto
  show "frame_for m \<noteq> []" by (simp add: frame_for_def uibc_encode_def Let_def)
qed

lemma stream_read: "list_all input_ok ms \<Longrightarrow> read_stream (concat (map frame_for ms)) = Some ms"
proof (induction ms)
  case Nil
  then show ?case by (simp add: read_stream.simps)
next
  case (Cons m ms)
  let ?rest = "concat (map frame_for ms)"
  have ok: "input_ok m" using Cons.prems by simp
  obtain f where f: "uibc_parse (frame_for m @ ?rest) = Some (f, length (frame_for m))" "generic_messages f = Some [m]"
    using frame_read(1) [OF ok] by blast
  show ?case using Cons f frame_read(2) [OF ok] by (subst read_stream.simps) simp
qed

datatype queue_event = Input surface_input | FrameTaken

type_synonym panel = "drained option \<times> uibc_surface"

fun take_input :: "surface_input \<Rightarrow> panel \<Rightarrow> panel" where
  "take_input (Touched phase k inside) (w, s) = (w, touch phase k inside s)"
| "take_input Drained (w, s) =
     (case w of None \<Rightarrow> (let (live, s) = cancel_drain s in (Some live, s)) | Some _ \<Rightarrow> (w, s))"
| "take_input Released (w, s) =
     (case w of None \<Rightarrow> (None, s) | Some live \<Rightarrow> (None, cancel_send live s))"

text \<open>The frames the socket takes, in order, and the surface after the run.\<close>

fun surface_run :: "queue_event list \<Rightarrow> panel \<Rightarrow> bytes list \<times> panel" where
  "surface_run [] p = ([], p)"
| "surface_run (Input i # es) p = surface_run es (take_input i p)"
| "surface_run (FrameTaken # es) (w, s) =
     (let (taken, p) = surface_run es (w, s\<lparr>us_queue := tl (us_queue s)\<rparr>) in (take 1 (us_queue s) @ taken, p))"

fun room_throughout :: "queue_event list \<Rightarrow> panel \<Rightarrow> bool" where
  "room_throughout [] p = True"
| "room_throughout (Input i # es) p = (length (us_queue (snd p)) < UIBC_QUEUE \<and> room_throughout es (take_input i p))"
| "room_throughout (FrameTaken # es) (w, s) = room_throughout es (w, s\<lparr>us_queue := tl (us_queue s)\<rparr>)"

fun inputs_of :: "queue_event list \<Rightarrow> surface_input list" where
  "inputs_of [] = []"
| "inputs_of (Input i # es) = i # inputs_of es"
| "inputs_of (FrameTaken # es) = inputs_of es"

fun contacts_of :: "panel \<Rightarrow> drained option \<times> contacts" where
  "contacts_of (w, s) = (w, us_contacts s)"

definition panel_new :: panel where
  "panel_new = (None, surface_new)"

lemma take_input_room:
  "length (us_queue (snd p)) < UIBC_QUEUE \<Longrightarrow>
     contacts_of (take_input i p) = snd (asked i (contacts_of p))
     \<and> us_queue (snd (take_input i p))
         = us_queue (snd p) @ (case fst (asked i (contacts_of p)) of None \<Rightarrow> [] | Some m \<Rightarrow> [frame_for m])"
  by (cases p; cases i)
    (simp_all add: touch_def send_opt_def cancel_drain_def cancel_send_def send_def frame_for_def case_prod_beta Let_def
      split: option.split)

lemma frames_in_order:
  "room_throughout es p \<Longrightarrow>
     fst (surface_run es p) @ us_queue (snd (snd (surface_run es p)))
       = us_queue (snd p) @ map frame_for (messages_asked (inputs_of es) (contacts_of p))
     \<and> contacts_of (snd (surface_run es p)) = fold (\<lambda>i st. snd (asked i st)) (inputs_of es) (contacts_of p)"
proof (induction es p rule: surface_run.induct)
  case (2 i es p)
  then show ?case using take_input_room [of p i] by (auto split: option.splits)
next
  case (3 es w s)
  then show ?case by (cases "us_queue s") (simp_all add: case_prod_beta Let_def)
qed simp

text \<open>
  C37. While the queue to the socket never fills, the router presses no contact twice and
  none between the two steps of a cancel, and no cancel finds all 256 identifiers taken, the bytes the source is sent are read as
  messages that fit together: every press is of an identifier that is up, every move and release of
  one that is down, also when the panel is taken away. When it has read them all, the identifiers it holds for down are those of
  the contacts still on the panel and of a cancel that has not yet sent its release.
\<close>

theorem source_sees_gestures:
  "\<lbrakk>all_orderly (inputs_of es) (None, contacts_new); room_throughout es panel_new\<rbrakk> \<Longrightarrow>
     (case surface_run es panel_new of (taken, w, s) \<Rightarrow>
        Option.bind (read_stream (concat (taken @ us_queue s))) (\<lambda>ms. source_sees_all ms {})
          = Some (still_down (w, us_contacts s)))"
proof -
  assume fine: "all_orderly (inputs_of es) (None, contacts_new)" and room: "room_throughout es panel_new"
  let ?st = "(None, contacts_new)" and ?ms = "messages_asked (inputs_of es) (None, contacts_new)"
  have new: "panel_ok ?st" "still_down ?st = {}" by (simp_all add: contacts_new_ok) (simp add: live_ids_def contacts_new_def)
  obtain taken w s where run: "surface_run es panel_new = (taken, w, s)" by (cases "surface_run es panel_new") auto
  have "taken @ us_queue s = map frame_for ?ms" "(w, us_contacts s) = fold (\<lambda>i st. snd (asked i st)) (inputs_of es) ?st"
    using frames_in_order [OF room] run by (simp_all add: panel_new_def surface_new_def)
  then show ?thesis using asked_all_sound [OF new(1) fine] stream_read [of ?ms] new(2)
    unfolding run prod.case by (simp del: concat_append still_down.simps)
qed

text \<open>
  A press between the two steps of a cancel is given an identifier that the source
  still holds for down, and the release that follows lifts it while the finger is on the panel.
\<close>

theorem press_overtakes_cancel:
  "k \<noteq> l \<Longrightarrow>
   (case surface_run (map Input [Touched Down k (Some at), Drained, Touched Down l (Some at), Released]) panel_new of (taken, w, s) \<Rightarrow>
      us_queue s = map frame_for [TouchDown [\<lparr>pt_id = 0, pt_at = at\<rparr>], TouchDown [\<lparr>pt_id = 0, pt_at = at\<rparr>],
        TouchUp [\<lparr>pt_id = 0, pt_at = at\<rparr>]]
      \<and> still_down (w, us_contacts s) = {0})"
  by (simp add: panel_new_def surface_new_def touch_def touch_message_def send_opt_def send_def claim_def drain_def cancel_drain_def
      cancel_send_def release_message_def free_id_def contacts_new_def UIBC_QUEUE_def frame_for_def live_ids_def Let_def)

text \<open>
  A queue that is full when a finger goes down and has room when it is
  lifted lets the release through, for a contact of which the source has seen no press.
\<close>

theorem full_queue_splits_gesture:
  "\<lbrakk>length (us_queue s) = UIBC_QUEUE; us_contacts s = contacts_new\<rbrakk> \<Longrightarrow>
     us_queue (snd (snd (surface_run [Input (Touched Down k (Some at)), FrameTaken, Input (Touched Up k None)] (None, s))))
       = tl (us_queue s) @ [frame_for (TouchUp [\<lparr>pt_id = 0, pt_at = at\<rparr>])]
     \<and> source_sees (TouchUp [\<lparr>pt_id = 0, pt_at = at\<rparr>]) {} = None"
  by (simp add: touch_def touch_message_def send_opt_def send_def claim_def release_def free_id_def contacts_new_def
      UIBC_QUEUE_def frame_for_def ids_of_def Let_def)

section \<open>Witnesses\<close>

definition some_pixel :: source_pixel where
  "some_pixel = \<lparr>px_x = 1919, px_y = 1079\<rparr>"

theorem input_roundtrip_witness:
  "input_decode (input_encode (TouchDown [\<lparr>pt_id = 3, pt_at = some_pixel\<rparr>]) @ [9])
     = Some (TouchDown [\<lparr>pt_id = 3, pt_at = some_pixel\<rparr>], length (input_encode (TouchDown [\<lparr>pt_id = 3, pt_at = some_pixel\<rparr>])))"
  by (rule input_roundtrip) (simp add: pointers_ok_def)

text \<open>Two messages of thirteen bytes in all: a byte of padding is added.\<close>

theorem inputs_read_back_witness:
  "\<exists>f. uibc_parse (uibc_encode (generic_frame [KeyDown 0x61 0, Rotate 1 128] (Some 7)) @ [1])
        = Some (f, length (uibc_encode (generic_frame [KeyDown 0x61 0, Rotate 1 128] (Some 7))))
     \<and> uf_timestamp f = Some 7 \<and> generic_messages f = Some [KeyDown 0x61 0, Rotate 1 128]"
  by (rule inputs_read_back)
    (simp_all add: padded_len_def generic_frame_def input_encode_def HEADER_LEN_TIMESTAMPED_def)

theorem source_sees_gestures_witness:
  "(case surface_run [Input (Touched Down 70 (Some some_pixel)), Input (Touched Move 70 (Some some_pixel)), FrameTaken,
        Input (Touched Down 71 (Some some_pixel)), Input (Touched Up 70 None), Input Drained] panel_new of (taken, w, s) \<Rightarrow>
      Option.bind (read_stream (concat (taken @ us_queue s))) (\<lambda>ms. source_sees_all ms {}) = Some (still_down (w, us_contacts s)))"
  by (rule source_sees_gestures)
    (simp_all add: panel_new_def surface_new_def contacts_new_def UIBC_QUEUE_def touch_def touch_message_def send_opt_def
      send_def claim_def release_def free_id_def drain_def cancel_drain_def Let_def)

theorem press_overtakes_cancel_witness:
  "case surface_run (map Input [Touched Down 70 (Some some_pixel), Drained, Touched Down 71 (Some some_pixel), Released]) panel_new
     of (taken, w, s) \<Rightarrow> length (us_queue s) = 3"
  using press_overtakes_cancel [of 70 71 some_pixel] by (simp split: prod.splits del: surface_run.simps)

theorem full_queue_splits_gesture_witness:
  "us_queue (snd (snd (surface_run [Input (Touched Down 70 (Some some_pixel)), FrameTaken, Input (Touched Up 70 None)]
       (None, \<lparr>us_contacts = contacts_new, us_queue = replicate 32 []\<rparr>))))
     = replicate 31 [] @ [frame_for (TouchUp [\<lparr>pt_id = 0, pt_at = some_pixel\<rparr>])]"
  using full_queue_splits_gesture [of "\<lparr>us_contacts = contacts_new, us_queue = replicate 32 []\<rparr>" 70 some_pixel]
  by (simp add: UIBC_QUEUE_def del: surface_run.simps)

end
