(* ===== verification/Mpegts.thy ===== *)
theory Mpegts
  imports Media
begin

text \<open>
  The MPEG-2 transport stream demultiplexer of \<^verbatim>\<open>crates/proto-miracast/src/ts.rs\<close> and the
  media receiver of \<^verbatim>\<open>media.rs\<close> that puts it behind the RTP reorder buffer: program tables,
  packetised elementary streams, continuity, the 90 kHz clock and the search for keyframes.
\<close>

section \<open>Slices\<close>

text \<open>\<open>get(a..)\<close> and \<open>get(a..b)\<close>.\<close>

definition get_from :: "nat \<Rightarrow> bytes \<Rightarrow> bytes option" where
  "get_from a bs = (if a \<le> length bs then Some (drop a bs) else None)"

definition get_range :: "nat \<Rightarrow> nat \<Rightarrow> bytes \<Rightarrow> bytes option" where
  "get_range a b bs = (if a \<le> b \<and> b \<le> length bs then Some (take (b - a) (drop a bs)) else None)"

section \<open>Packets\<close>

type_synonym pid = u16

definition TS_PACKET_LEN :: nat where "TS_PACKET_LEN = 188"
definition SYNC_BYTE :: u8 where "SYNC_BYTE = 0x47"
definition PAT_PID :: pid where "PAT_PID = 0"
definition NULL_PID :: pid where "NULL_PID = 0x1FFF"

definition pid_from_raw :: "u16 \<Rightarrow> pid" where
  "pid_from_raw raw = raw AND 0x1FFF"

datatype video_codec = H264 | Hevc | Vp8 | Vp9

datatype stream_type = H264Stream | HevcStream | AacAdts | AacLatm | Ac3Stream | LpcmStream | OtherStream u8

definition stream_type_from_u8 :: "u8 \<Rightarrow> stream_type" where
  "stream_type_from_u8 raw =
     (if raw = 0x1B then H264Stream else if raw = 0x24 then HevcStream else if raw = 0x0F then AacAdts
      else if raw = 0x11 then AacLatm else if raw = 0x81 then Ac3Stream else if raw = 0x83 then LpcmStream
      else OtherStream raw)"

fun stream_video :: "stream_type \<Rightarrow> video_codec option" where
  "stream_video H264Stream = Some H264"
| "stream_video HevcStream = Some Hevc"
| "stream_video _ = None"

fun stream_audio :: "stream_type \<Rightarrow> audio_codec option" where
  "stream_audio AacAdts = Some AacCodec"
| "stream_audio AacLatm = Some AacCodec"
| "stream_audio LpcmStream = Some Pcm"
| "stream_audio _ = None"

record ts_header =
  th_pid :: pid
  th_start :: bool
  th_cc :: u8
  th_has_payload :: bool
  th_discontinuity :: bool
  th_offset :: nat

definition ts_parse :: "bytes \<Rightarrow> ts_header option" where
  "ts_parse pkt =
     (if length pkt < TS_PACKET_LEN \<or> pkt ! 0 \<noteq> SYNC_BYTE \<or> pkt ! 1 AND 0x80 \<noteq> 0 then None
      else let control = drop_bit 4 (pkt ! 3) AND 0x03;
               adaptation = (control AND 2 \<noteq> 0);
               len = unat (pkt ! 4);
               offset = (if adaptation then 5 + len else 4) in
        if offset > TS_PACKET_LEN then None
        else Some \<lparr>th_pid = pid_from_raw (from_be16 (pkt ! 1 AND 0x1F) (pkt ! 2)),
                   th_start = (pkt ! 1 AND 0x40 \<noteq> 0), th_cc = pkt ! 3 AND 0x0F,
                   th_has_payload = (control AND 1 \<noteq> 0),
                   th_discontinuity = (adaptation \<and> 0 < len \<and> pkt ! 5 AND 0x80 \<noteq> 0), th_offset = offset\<rparr>)"

section \<open>Time\<close>

definition PTS_HZ :: u64 where "PTS_HZ = 90000"
definition PTS_MODULUS :: u64 where "PTS_MODULUS = 0x200000000"
definition PTS_WRAP_THRESHOLD :: u64 where "PTS_WRAP_THRESHOLD = 0x100000000"
definition PTS_RESTART_THRESHOLD :: u64 where "PTS_RESTART_THRESHOLD = 180000"

record stream_ticks =
  tk_previous :: u64
  tk_wraps :: u64

definition ticks_new :: stream_ticks where
  "ticks_new = \<lparr>tk_previous = 0, tk_wraps = 0\<rparr>"

definition extend_ticks :: "u64 \<Rightarrow> stream_ticks \<Rightarrow> u64 \<times> stream_ticks" where
  "extend_ticks pts t =
     (let wraps = (if tk_previous t > pts \<and> tk_previous t - pts > PTS_WRAP_THRESHOLD
                   then sat_add (tk_wraps t) 1 else tk_wraps t) in
      (sat_add pts (sat_mul wraps PTS_MODULUS), \<lparr>tk_previous = pts, tk_wraps = wraps\<rparr>))"

record pts_origin =
  po_first :: "u64 option"
  po_previous :: u64
  po_carried :: u64
  po_ticks :: "(pid, stream_ticks) tbl"

definition origin_new :: pts_origin where
  "origin_new = \<lparr>po_first = None, po_previous = 0, po_carried = 0, po_ticks = []\<rparr>"

definition extend_of :: "pid \<Rightarrow> u64 \<Rightarrow> (pid, stream_ticks) tbl \<Rightarrow> u64 \<times> (pid, stream_ticks) tbl" where
  "extend_of p pts t =
     (let (e, s) = extend_ticks pts (case tbl_get t p of None \<Rightarrow> ticks_new | Some s \<Rightarrow> s) in (e, tbl_put p s t))"

definition ticks_nanos :: "u64 \<Rightarrow> duration" where
  "ticks_nanos t = unat (sat_mul t 1000000000 div PTS_HZ)"

definition resolve :: "pid \<Rightarrow> u64 \<Rightarrow> pts_origin \<Rightarrow> duration \<times> pts_origin" where
  "resolve p pts po =
     (let (extended, ticks) = extend_of p pts (po_ticks po);
          first = (case po_first po of None \<Rightarrow> extended | Some f \<Rightarrow> f) in
      if po_previous po > extended \<and> po_previous po - extended > PTS_RESTART_THRESHOLD
      then let carried = sat_add (po_carried po) (sat_sub (po_previous po) first);
               (extended, ticks) = extend_of p pts [] in
        (ticks_nanos (sat_add carried (sat_sub extended extended)),
         \<lparr>po_first = Some extended, po_previous = extended, po_carried = carried, po_ticks = ticks\<rparr>)
      else (ticks_nanos (sat_add (po_carried po) (sat_sub extended first)),
            po\<lparr>po_first := Some first, po_previous := extended, po_ticks := ticks\<rparr>))"

section \<open>Packetised elementary streams\<close>

definition read_timestamp :: "bytes \<Rightarrow> u64 option" where
  "read_timestamp b =
     (if length b \<noteq> 5 \<or> b ! 0 AND 1 = 0 \<or> b ! 2 AND 1 = 0 \<or> b ! 4 AND 1 = 0 then None
      else Some (push_bit 30 (ucast (drop_bit 1 (b ! 0) AND 0x07))
                 OR push_bit 15 (push_bit 7 (ucast (b ! 1)) OR ucast (drop_bit 1 (b ! 2)))
                 OR (push_bit 7 (ucast (b ! 3)) OR ucast (drop_bit 1 (b ! 4)))))"

definition start_code :: bytes where "start_code = [0, 0, 1]"

definition pes_declared_len :: "bytes \<Rightarrow> nat option" where
  "pes_declared_len payload =
     (if length payload < 6 \<or> take 3 payload \<noteq> start_code then None
      else let len = unat (from_be16 (payload ! 4) (payload ! 5)) in if len = 0 then None else Some (len + 6))"

record pes_packet =
  pes_pts :: "u64 option"
  pes_payload :: bytes

definition pes_parse :: "bytes \<Rightarrow> pes_packet option" where
  "pes_parse raw =
     (if length raw < 9 \<or> take 3 raw \<noteq> start_code \<or> raw ! 6 AND 0xC0 \<noteq> 0x80 then None
      else let flags = drop_bit 6 (raw ! 7) AND 0x03; n = unat (raw ! 8) in
        case get_range 9 (9 + n) raw of
          None \<Rightarrow> None
        | Some optional \<Rightarrow>
            if flags AND 2 \<noteq> 0
            then (case get_range 0 5 optional of
                    None \<Rightarrow> None
                  | Some b \<Rightarrow> Some \<lparr>pes_pts = read_timestamp b, pes_payload = drop (9 + n) raw\<rparr>)
            else Some \<lparr>pes_pts = None, pes_payload = drop (9 + n) raw\<rparr>)"

fun idr_nal :: "video_codec \<Rightarrow> u8 \<Rightarrow> bool" where
  "idr_nal H264 nal = (nal AND 0x1F = 5)"
| "idr_nal Hevc nal = (let t = drop_bit 1 (nal AND 0x7E) in 16 \<le> t \<and> t \<le> 21)"
| "idr_nal Vp8 nal = False"
| "idr_nal Vp9 nal = False"

fun idr_scan :: "video_codec \<Rightarrow> nat \<Rightarrow> bytes \<Rightarrow> bool" where
  "idr_scan c zeros [] = False"
| "idr_scan c zeros (b # bs) =
     (if b = 0 then idr_scan c (Suc zeros) bs
      else if b = 1 \<and> 2 \<le> zeros
      then (case bs of [] \<Rightarrow> False | nal # rest \<Rightarrow> if idr_nal c nal then True else idr_scan c 0 rest)
      else idr_scan c 0 bs)"

definition annex_b_has_idr :: "bytes \<Rightarrow> video_codec \<Rightarrow> bool" where
  "annex_b_has_idr data c = idr_scan c 0 data"

record media_frame =
  mf_video :: "video_codec option"
  mf_audio :: "audio_codec option"
  mf_pts :: duration
  mf_keyframe :: bool
  mf_data :: bytes

section \<open>The demultiplexer\<close>

record stream_state =
  ss_type :: stream_type
  ss_pending :: bytes
  ss_declared :: "nat option"
  ss_last_cc :: "u8 option"
  ss_damaged :: bool

definition stream_new :: "stream_type \<Rightarrow> stream_state" where
  "stream_new t = \<lparr>ss_type = t, ss_pending = [], ss_declared = None, ss_last_cc = None, ss_damaged = False\<rparr>"

record ts_demux =
  td_pmt :: "pid option"
  td_streams :: "(pid, stream_state) tbl"
  td_origin :: pts_origin
  td_partial :: bytes
  td_resyncs :: u64
  td_video_gaps :: u64
  td_audio_gaps :: u64

definition demux_new :: ts_demux where
  "demux_new =
     \<lparr>td_pmt = None, td_streams = [], td_origin = origin_new, td_partial = [], td_resyncs = 0, td_video_gaps = 0,
      td_audio_gaps = 0\<rparr>"

definition section_of :: "bytes \<Rightarrow> bool \<Rightarrow> bytes option" where
  "section_of payload start =
     (if \<not> start then None else case payload of [] \<Rightarrow> None | p # _ \<Rightarrow> get_from (1 + unat p) payload)"

definition section_body :: "bytes \<Rightarrow> bytes option" where
  "section_body sec =
     (if length sec < 3 then None
      else case get_range 3 (3 + unat (from_be16 (sec ! 1 AND 0x0F) (sec ! 2))) sec of
        None \<Rightarrow> None
      | Some body \<Rightarrow> if length body < 4 then None else Some (take (length body - 4) body))"

text \<open>The first entry of the program loop that names a program.\<close>

fun pat_program :: "bytes \<Rightarrow> pid option" where
  "pat_program (a # b # c # d # rest) =
     (if from_be16 a b \<noteq> 0 then Some (pid_from_raw (from_be16 c d)) else pat_program rest)"
| "pat_program _ = None"

definition table_body :: "u8 \<Rightarrow> bytes \<Rightarrow> bool \<Rightarrow> bytes option" where
  "table_body table_id payload start =
     (case section_of payload start of
        None \<Rightarrow> None
      | Some sec \<Rightarrow> (case sec of [] \<Rightarrow> None | t # _ \<Rightarrow> if t \<noteq> table_id then None else section_body sec))"

definition handle_pat :: "bytes \<Rightarrow> bool \<Rightarrow> ts_demux \<Rightarrow> ts_demux" where
  "handle_pat payload start d =
     (case table_body 0x00 payload start of
        None \<Rightarrow> d
      | Some body \<Rightarrow>
          (case get_from 5 body of
             None \<Rightarrow> d
           | Some entries \<Rightarrow>
               (case pat_program entries of
                  None \<Rightarrow> d
                | Some p \<Rightarrow> if td_pmt d \<noteq> Some p then d\<lparr>td_pmt := Some p, td_streams := []\<rparr> else d)))"

function pmt_entries :: "bytes \<Rightarrow> (pid \<times> stream_type) list" where
  "pmt_entries rest =
     (if length rest < 5 then []
      else let t = stream_type_from_u8 (rest ! 0);
               p = pid_from_raw (from_be16 (rest ! 1 AND 0x1F) (rest ! 2));
               n = unat (from_be16 (rest ! 3 AND 0x0F) (rest ! 4)) in
        case get_from (5 + n) rest of
          None \<Rightarrow> []
        | Some next \<Rightarrow> if length next < 4 then [(p, t)] else (p, t) # pmt_entries next)"
  by pat_completeness auto
termination by (relation "measure length") (auto simp: get_from_def split: if_splits)

declare pmt_entries.simps [simp del]

definition add_stream :: "pid \<times> stream_type \<Rightarrow> (pid, stream_state) tbl \<Rightarrow> (pid, stream_state) tbl" where
  "add_stream e t =
     (case e of (p, s) \<Rightarrow>
        if stream_video s = None \<and> stream_audio s = None then t
        else if tbl_get t p \<noteq> None then t else tbl_put p (stream_new s) t)"

definition handle_pmt :: "bytes \<Rightarrow> bool \<Rightarrow> ts_demux \<Rightarrow> ts_demux" where
  "handle_pmt payload start d =
     (case table_body 0x02 payload start of
        None \<Rightarrow> d
      | Some body \<Rightarrow>
          (case get_range 7 9 body of
             None \<Rightarrow> d
           | Some il \<Rightarrow>
               (case get_from (9 + unat (from_be16 (il ! 0 AND 0x0F) (il ! 1))) body of
                  None \<Rightarrow> d
                | Some rest \<Rightarrow> d\<lparr>td_streams := fold add_stream (pmt_entries rest) (td_streams d)\<rparr>)))"

text \<open>A method that may emit frames returns them before the new state.\<close>

definition frame_of :: "pid \<Rightarrow> stream_type \<Rightarrow> bytes \<Rightarrow> pts_origin \<Rightarrow> media_frame option \<times> pts_origin" where
  "frame_of p t raw po =
     (case pes_parse raw of
        None \<Rightarrow> (None, po)
      | Some pes \<Rightarrow>
          if pes_payload pes = [] then (None, po)
          else let (pts, po) = (case pes_pts pes of None \<Rightarrow> (0, po) | Some v \<Rightarrow> resolve p v po) in
            (Some \<lparr>mf_video = stream_video t, mf_audio = stream_audio t, mf_pts = pts,
                   mf_keyframe = (case stream_video t of None \<Rightarrow> False | Some c \<Rightarrow> annex_b_has_idr (pes_payload pes) c),
                   mf_data = pes_payload pes\<rparr>, po))"

definition complete_pes :: "pid \<Rightarrow> ts_demux \<Rightarrow> media_frame list \<times> ts_demux" where
  "complete_pes p d =
     (case tbl_get (td_streams d) p of
        None \<Rightarrow> ([], d)
      | Some s \<Rightarrow>
          if ss_pending s = [] then ([], d)
          else let d = d\<lparr>td_streams := tbl_put p (s\<lparr>ss_pending := [], ss_damaged := False, ss_declared := None\<rparr>) (td_streams d)\<rparr> in
            if ss_damaged s then ([], d)
            else let (f, po) = frame_of p (ss_type s) (ss_pending s) (td_origin d) in
              (case f of None \<Rightarrow> [] | Some f \<Rightarrow> [f], d\<lparr>td_origin := po\<rparr>))"

text \<open>The continuity check, with the counter of the plane that lost something.\<close>

definition cc_lost :: "ts_header \<Rightarrow> stream_state \<Rightarrow> bool" where
  "cc_lost h s \<longleftrightarrow>
     (case ss_last_cc s of None \<Rightarrow> False | Some cc \<Rightarrow> (cc + 1) AND 0x0F \<noteq> th_cc h) \<and> \<not> th_discontinuity h"

definition note_gap :: "stream_type \<Rightarrow> ts_demux \<Rightarrow> ts_demux" where
  "note_gap t d =
     (if stream_video t \<noteq> None then d\<lparr>td_video_gaps := sat_add (td_video_gaps d) 1\<rparr>
      else if stream_audio t \<noteq> None then d\<lparr>td_audio_gaps := sat_add (td_audio_gaps d) 1\<rparr> else d)"

definition put_stream :: "pid \<Rightarrow> stream_state \<Rightarrow> ts_demux \<Rightarrow> ts_demux" where
  "put_stream p s d = d\<lparr>td_streams := tbl_put p s (td_streams d)\<rparr>"

definition is_complete :: "stream_state \<Rightarrow> bool" where
  "is_complete s \<longleftrightarrow> (case ss_declared s of None \<Rightarrow> False | Some n \<Rightarrow> n \<le> length (ss_pending s))"

text \<open>
  The three parts of \<open>handle_pes\<close>: the counter is noted, the payload is taken, which says whether there
  is anything to look at afterwards, and a packet that has reached its declared length is finished.
\<close>

definition note_counter :: "ts_header \<Rightarrow> stream_state \<Rightarrow> ts_demux \<Rightarrow> ts_demux" where
  "note_counter h s d =
     (let d = put_stream (th_pid h) (s\<lparr>ss_last_cc := Some (th_cc h), ss_damaged := (ss_damaged s \<or> cc_lost h s)\<rparr>) d in
      if cc_lost h s then note_gap (ss_type s) d else d)"

definition take_payload :: "ts_header \<Rightarrow> bytes \<Rightarrow> bool \<Rightarrow> ts_demux \<Rightarrow> media_frame list \<times> ts_demux \<times> bool" where
  "take_payload h payload lost d =
     (if th_start h
      then let (out, d) = complete_pes (th_pid h) d in
        (case tbl_get (td_streams d) (th_pid h) of
           None \<Rightarrow> (out, d, False)
         | Some s \<Rightarrow> (out, put_stream (th_pid h)
             (s\<lparr>ss_damaged := lost, ss_declared := pes_declared_len payload, ss_pending := ss_pending s @ payload\<rparr>) d, True))
      else (case tbl_get (td_streams d) (th_pid h) of
           None \<Rightarrow> ([], d, False)
         | Some s \<Rightarrow> if ss_pending s = [] then ([], d, False)
             else ([], put_stream (th_pid h) (s\<lparr>ss_pending := ss_pending s @ payload\<rparr>) d, True)))"

definition finish_declared :: "pid \<Rightarrow> ts_demux \<Rightarrow> media_frame list \<times> ts_demux" where
  "finish_declared p d =
     (case tbl_get (td_streams d) p of
        None \<Rightarrow> ([], d)
      | Some s \<Rightarrow> if is_complete s then complete_pes p d else ([], d))"

definition handle_pes :: "ts_header \<Rightarrow> bytes \<Rightarrow> ts_demux \<Rightarrow> media_frame list \<times> ts_demux" where
  "handle_pes h payload d =
     (case tbl_get (td_streams d) (th_pid h) of
        None \<Rightarrow> ([], d)
      | Some s \<Rightarrow>
          (case take_payload h payload (cc_lost h s) (note_counter h s d) of
             (out, d, taken) \<Rightarrow>
               if taken then (let (rest, d) = finish_declared (th_pid h) d in (out @ rest, d)) else (out, d)))"

definition handle_packet :: "bytes \<Rightarrow> ts_demux \<Rightarrow> media_frame list \<times> ts_demux" where
  "handle_packet packet d =
     (case ts_parse packet of
        None \<Rightarrow> ([], d\<lparr>td_resyncs := sat_add (td_resyncs d) 1\<rparr>)
      | Some h \<Rightarrow>
          let payload = drop (th_offset h) packet in
          if th_pid h = NULL_PID \<or> \<not> th_has_payload h then ([], d)
          else if th_pid h = PAT_PID then ([], handle_pat payload (th_start h) d)
          else if Some (th_pid h) = td_pmt d then ([], handle_pmt payload (th_start h) d)
          else if tbl_get (td_streams d) (th_pid h) \<noteq> None then handle_pes h payload d
          else ([], d))"

text \<open>The loop of \<open>push\<close>: skip to a sync byte, or take a packet.\<close>

definition skip_len :: "bytes \<Rightarrow> nat" where
  "skip_len buf = 1 + length (takeWhile (\<lambda>b. b \<noteq> SYNC_BYTE) (tl buf))"

function ts_loop :: "bytes \<Rightarrow> ts_demux \<Rightarrow> media_frame list \<times> ts_demux" where
  "ts_loop buf d =
     (if length buf < TS_PACKET_LEN then ([], d\<lparr>td_partial := buf\<rparr>)
      else if buf ! 0 \<noteq> SYNC_BYTE
      then ts_loop (drop (skip_len buf) buf) (d\<lparr>td_resyncs := sat_add (td_resyncs d) 1\<rparr>)
      else let (out, d) = handle_packet (take TS_PACKET_LEN buf) d;
               (rest, d) = ts_loop (drop TS_PACKET_LEN buf) d in (out @ rest, d))"
  by pat_completeness auto
termination by (relation "measure (\<lambda>(buf, _). length buf)") (auto simp: TS_PACKET_LEN_def skip_len_def)

declare ts_loop.simps [simp del]

definition ts_push :: "bytes \<Rightarrow> ts_demux \<Rightarrow> media_frame list \<times> ts_demux" where
  "ts_push data d = ts_loop (td_partial d @ data) d"

fun flush_pids :: "pid list \<Rightarrow> ts_demux \<Rightarrow> media_frame list \<times> ts_demux" where
  "flush_pids [] d = ([], d)"
| "flush_pids (p # ps) d =
     (let (out, d) = complete_pes p d; (rest, d) = flush_pids ps d in (out @ rest, d))"

definition ts_flush :: "ts_demux \<Rightarrow> media_frame list \<times> ts_demux" where
  "ts_flush d = flush_pids (map fst (td_streams d)) d"

section \<open>Behind RTP\<close>

definition MP2T_PAYLOAD_TYPE :: u8 where "MP2T_PAYLOAD_TYPE = 33"
definition REORDER_DEPTH :: nat where "REORDER_DEPTH = 8"

record media_receiver =
  mr_reorder :: reorder
  mr_demux :: ts_demux
  mr_foreign :: u64
  mr_late :: u64
  mr_duplicate :: u64

definition receiver_new :: media_receiver where
  "receiver_new =
     \<lparr>mr_reorder = reorder_new REORDER_DEPTH, mr_demux = demux_new, mr_foreign = 0, mr_late = 0, mr_duplicate = 0\<rparr>"

fun demux_payloads :: "rtp_packet list \<Rightarrow> ts_demux \<Rightarrow> media_frame list \<times> ts_demux" where
  "demux_payloads [] d = ([], d)"
| "demux_payloads (p # ps) d =
     (let (out, d) = ts_push (rp_payload p) d; (rest, d) = demux_payloads ps d in (out @ rest, d))"

definition push_datagram :: "bytes \<Rightarrow> media_receiver \<Rightarrow> media_frame list \<times> media_receiver" where
  "push_datagram dg m =
     (case rtp_parse dg of
        Inl _ \<Rightarrow> ([], m\<lparr>mr_foreign := sat_add (mr_foreign m) 1\<rparr>)
      | Inr packet \<Rightarrow>
          if rh_payload_type (rp_header packet) \<noteq> MP2T_PAYLOAD_TYPE
          then ([], m\<lparr>mr_foreign := sat_add (mr_foreign m) 1\<rparr>)
          else case push packet (mr_reorder m) of
            (Inl Late, rb) \<Rightarrow> ([], m\<lparr>mr_reorder := rb, mr_late := sat_add (mr_late m) 1\<rparr>)
          | (Inl Duplicate, rb) \<Rightarrow> ([], m\<lparr>mr_reorder := rb, mr_duplicate := sat_add (mr_duplicate m) 1\<rparr>)
          | (Inr _, rb) \<Rightarrow>
              let (ps, rb) = drain rb; (out, d) = demux_payloads ps (mr_demux m) in
              (out, m\<lparr>mr_reorder := rb, mr_demux := d\<rparr>))"

definition receiver_flush :: "media_receiver \<Rightarrow> media_frame list \<times> media_receiver" where
  "receiver_flush m = (let (out, d) = ts_flush (mr_demux m) in (out, m\<lparr>mr_demux := d\<rparr>))"

section \<open>Any split of the bytes\<close>

text \<open>
  The packets a buffer holds, and what is left: whole packets from each sync byte on. A buffer
  without its leading junk holds the same.
\<close>

abbreviation synced :: "bytes \<Rightarrow> bytes" where
  "synced buf \<equiv> dropWhile (\<lambda>b. b \<noteq> SYNC_BYTE) buf"

function packets_in :: "bytes \<Rightarrow> bytes list \<times> bytes" where
  "packets_in buf =
     (let b = synced buf in
      if length b < TS_PACKET_LEN then ([], b)
      else let (ps, rest) = packets_in (drop TS_PACKET_LEN b) in (take TS_PACKET_LEN b # ps, rest))"
  by pat_completeness auto
termination
proof (relation "measure length")
  fix buf b :: bytes
  assume "b = synced buf" "\<not> length b < TS_PACKET_LEN"
  moreover have "length (synced buf) \<le> length buf" by (rule length_dropWhile_le)
  ultimately show "(drop TS_PACKET_LEN b, buf) \<in> measure length" by (simp add: TS_PACKET_LEN_def)
qed simp

declare packets_in.simps [simp del]

lemma packets_in_synced: "packets_in (synced buf) = packets_in buf"
  by (subst (1 2) packets_in.simps) (simp add: dropWhile_idem)

fun handle_packets :: "bytes list \<Rightarrow> ts_demux \<Rightarrow> media_frame list \<times> ts_demux" where
  "handle_packets [] d = ([], d)"
| "handle_packets (p # ps) d =
     (let (out, d) = handle_packet p d; (rest, d) = handle_packets ps d in (out @ rest, d))"

lemma handle_packets_append:
  "handle_packets (ps @ qs) d =
     (let (out, d) = handle_packets ps d; (rest, d) = handle_packets qs d in (out @ rest, d))"
  by (induction ps arbitrary: d) (simp_all add: case_prod_beta Let_def)

text \<open>The demultiplexer without its buffer and its count of resynchronisations.\<close>

definition bare :: "ts_demux \<Rightarrow> ts_demux" where
  "bare d = d\<lparr>td_partial := [], td_resyncs := 0\<rparr>"

definition rebuffered :: "bytes \<Rightarrow> u64 \<Rightarrow> ts_demux \<Rightarrow> ts_demux" where
  "rebuffered b r d = d\<lparr>td_partial := b, td_resyncs := r\<rparr>"

lemma bare_rebuffered [simp]: "bare (rebuffered b r d) = bare d" "rebuffered b r (bare d) = rebuffered b r d"
  by (simp_all add: bare_def rebuffered_def)

lemma rebuffered_eq: "d = rebuffered (td_partial d) (td_resyncs d) (bare d)"
  by (simp add: bare_def rebuffered_def)

lemma rebuffered_fields [simp]:
  "td_pmt (rebuffered b r d) = td_pmt d" "td_streams (rebuffered b r d) = td_streams d"
  "td_origin (rebuffered b r d) = td_origin d"
  by (simp_all add: rebuffered_def)

lemma complete_rebuffered:
  "complete_pes p (rebuffered b r d) = (fst (complete_pes p d), rebuffered b r (snd (complete_pes p d)))"
  by (simp add: complete_pes_def rebuffered_def case_prod_beta Let_def split: option.split)

lemma put_rebuffered: "put_stream p s (rebuffered b r d) = rebuffered b r (put_stream p s d)"
  by (simp add: put_stream_def rebuffered_def)

lemma note_rebuffered: "note_gap t (rebuffered b r d) = rebuffered b r (note_gap t d)"
  by (simp add: note_gap_def rebuffered_def)

lemma counter_rebuffered: "note_counter h s (rebuffered b r d) = rebuffered b r (note_counter h s d)"
  by (simp add: note_counter_def put_rebuffered note_rebuffered Let_def)

lemma take_rebuffered:
  "take_payload h payload lost (rebuffered b r d) =
     (fst (take_payload h payload lost d), rebuffered b r (fst (snd (take_payload h payload lost d))),
      snd (snd (take_payload h payload lost d)))"
  by (simp add: take_payload_def complete_rebuffered put_rebuffered case_prod_beta Let_def split: option.split)

lemma finish_rebuffered:
  "finish_declared p (rebuffered b r d) = (fst (finish_declared p d), rebuffered b r (snd (finish_declared p d)))"
  by (simp add: finish_declared_def complete_rebuffered split: option.split)

lemma pes_rebuffered:
  "handle_pes h payload (rebuffered b r d) = (fst (handle_pes h payload d), rebuffered b r (snd (handle_pes h payload d)))"
  by (simp add: handle_pes_def counter_rebuffered take_rebuffered finish_rebuffered case_prod_beta Let_def split: option.split)

lemma tables_rebuffered:
  "handle_pat payload start (rebuffered b r d) = rebuffered b r (handle_pat payload start d)"
  "handle_pmt payload start (rebuffered b r d) = rebuffered b r (handle_pmt payload start d)"
  by (simp_all add: handle_pat_def handle_pmt_def rebuffered_def split: option.split)

lemma packet_rebuffered:
  "fst (handle_packet p (rebuffered b r d)) = fst (handle_packet p d)"
  "bare (snd (handle_packet p (rebuffered b r d))) = bare (snd (handle_packet p d))"
  by (auto simp: handle_packet_def pes_rebuffered tables_rebuffered Let_def split: option.split)
    (simp add: bare_def rebuffered_def)

lemma packet_bare:
  "fst (handle_packet p (bare d)) = fst (handle_packet p d)"
  "bare (snd (handle_packet p (bare d))) = bare (snd (handle_packet p d))"
  using packet_rebuffered [of p "[]" 0 d] by (simp_all add: rebuffered_def bare_def)

lemma packets_bare:
  "bare d = bare e \<Longrightarrow> fst (handle_packets ps d) = fst (handle_packets ps e)
     \<and> bare (snd (handle_packets ps d)) = bare (snd (handle_packets ps e))"
proof (induction ps arbitrary: d e)
  case (Cons p ps)
  have "fst (handle_packet p d) = fst (handle_packet p e)" "bare (snd (handle_packet p d)) = bare (snd (handle_packet p e))"
    using packet_bare [of p d] packet_bare [of p e] Cons.prems by simp_all
  then show ?case using Cons.IH [of "snd (handle_packet p d)" "snd (handle_packet p e)"]
    by (simp add: case_prod_beta Let_def)
qed simp

lemma loop_packets:
  "fst (ts_loop buf d) = fst (handle_packets (fst (packets_in buf)) d)
   \<and> bare (snd (ts_loop buf d)) = bare (snd (handle_packets (fst (packets_in buf)) d))
   \<and> synced (td_partial (snd (ts_loop buf d))) = snd (packets_in buf)"
proof (induction buf d rule: ts_loop.induct)
  case (1 buf d)
  have short: "length (synced buf) \<le> length buf" by (rule length_dropWhile_le)
  show ?case
  proof (cases "length buf < TS_PACKET_LEN")
    case True
    then have "packets_in buf = ([], synced buf)" using short by (subst packets_in.simps) simp
    then show ?thesis using True by (subst (1 2 3) ts_loop.simps) (simp add: bare_def)
  next
    case False
    then obtain a bs where buf: "buf = a # bs" by (cases buf) (simp_all add: TS_PACKET_LEN_def)
    show ?thesis
    proof (cases "a = SYNC_BYTE")
      case True
      then have s: "synced buf = buf" by (simp add: buf)
      let ?p = "take TS_PACKET_LEN buf" and ?t = "drop TS_PACKET_LEN buf"
      have p: "packets_in buf = (?p # fst (packets_in ?t), snd (packets_in ?t))"
        using False s by (subst packets_in.simps) (simp add: case_prod_beta Let_def)
      have l: "ts_loop buf d = (fst (handle_packet ?p d) @ fst (ts_loop ?t (snd (handle_packet ?p d))),
          snd (ts_loop ?t (snd (handle_packet ?p d))))"
        using False True by (subst ts_loop.simps) (simp add: buf case_prod_beta Let_def)
      have "\<not> buf ! 0 \<noteq> SYNC_BYTE" using True by (simp add: buf)
      from "1.IH"(2) [OF False this, of "handle_packet ?p d" "fst (handle_packet ?p d)" "snd (handle_packet ?p d)"]
      show ?thesis by (simp add: p l case_prod_beta Let_def)
    next
      case junk: False
      let ?d = "d\<lparr>td_resyncs := sat_add (td_resyncs d) 1\<rparr>"
      have l: "ts_loop buf d = ts_loop (drop (skip_len buf) buf) ?d"
        using False junk by (subst ts_loop.simps) (simp add: buf)
      have "drop (skip_len buf) buf = synced buf"
        using junk by (simp add: buf skip_len_def dropWhile_eq_drop)
      then have p: "packets_in (drop (skip_len buf) buf) = packets_in buf" by (simp add: packets_in_synced)
      have b: "bare ?d = bare d" by (simp add: bare_def)
      have "buf ! 0 \<noteq> SYNC_BYTE" using junk by (simp add: buf)
      from "1.IH"(1) [OF False this] show ?thesis
        using packets_bare [OF b, of "fst (packets_in buf)"] by (simp add: l p)
    qed
  qed
qed

lemma synced_append:
  "synced (xs @ ys) = (if synced xs = [] then synced ys else synced xs @ ys)"
  by (induction xs) auto

lemma packets_append:
  "packets_in (xs @ ys) =
     (fst (packets_in xs) @ fst (packets_in (snd (packets_in xs) @ ys)), snd (packets_in (snd (packets_in xs) @ ys)))"
proof (induction xs rule: packets_in.induct)
  case (1 xs)
  show ?case
  proof (cases "length (synced xs) < TS_PACKET_LEN")
    case True
    then have p: "packets_in xs = ([], synced xs)" by (subst packets_in.simps) simp
    have "packets_in (synced xs @ ys) = packets_in (xs @ ys)"
      by (metis packets_in_synced synced_append append_Nil dropWhile_idem)
    then show ?thesis by (simp add: p)
  next
    case False
    let ?b = "synced xs"
    have ne: "?b \<noteq> []"
    proof
      assume "?b = []"
      then have "length ?b = 0" by (simp only: list.size)
      then show False using False unfolding TS_PACKET_LEN_def by linarith
    qed
    have p: "packets_in xs = (take TS_PACKET_LEN ?b # fst (packets_in (drop TS_PACKET_LEN ?b)),
        snd (packets_in (drop TS_PACKET_LEN ?b)))"
      using False by (subst packets_in.simps) (simp add: case_prod_beta Let_def)
    have q: "packets_in (xs @ ys) = (take TS_PACKET_LEN ?b # fst (packets_in (drop TS_PACKET_LEN ?b @ ys)),
        snd (packets_in (drop TS_PACKET_LEN ?b @ ys)))"
    proof -
      have "synced (xs @ ys) = synced xs @ ys" using ne by (metis synced_append)
      then show ?thesis using False by (subst packets_in.simps) (simp add: case_prod_beta Let_def)
    qed
    show ?thesis using 1 [OF refl False] by (simp add: p q)
  qed
qed

text \<open>
  Two states that differ in their counts of resynchronisations and in what they hold in front of the first
  sync byte, which is skipped whatever comes behind it.
\<close>

definition alike :: "ts_demux \<Rightarrow> ts_demux \<Rightarrow> bool" where
  "alike d e \<longleftrightarrow> bare d = bare e \<and> synced (td_partial d) = synced (td_partial e)"

lemma packets_in_tail: "synced xs = synced ys \<Longrightarrow> packets_in (xs @ zs) = packets_in (ys @ zs)"
proof -
  assume "synced xs = synced ys"
  then have "synced (xs @ zs) = synced (ys @ zs)" unfolding synced_append by (rule arg_cong)
  then have "packets_in (synced (xs @ zs)) = packets_in (synced (ys @ zs))" by (rule arg_cong)
  then show ?thesis unfolding packets_in_synced .
qed

lemma push_alike:
  "alike d e \<Longrightarrow> fst (ts_push zs d) = fst (ts_push zs e) \<and> alike (snd (ts_push zs d)) (snd (ts_push zs e))"
proof -
  assume a: "alike d e"
  have "packets_in (td_partial d @ zs) = packets_in (td_partial e @ zs)"
    by (rule packets_in_tail) (use a in \<open>simp add: alike_def\<close>)
  then show ?thesis
    using loop_packets [of "td_partial d @ zs" d] loop_packets [of "td_partial e @ zs" e]
      packets_bare [of d e "fst (packets_in (td_partial e @ zs))"] a
    by (simp add: ts_push_def alike_def)
qed

lemma flush_rebuffered: "fst (flush_pids ps (rebuffered b r d)) = fst (flush_pids ps d)"
  by (induction ps arbitrary: d) (simp_all add: complete_rebuffered case_prod_beta Let_def)

lemma flush_alike: "alike d e \<Longrightarrow> fst (ts_flush d) = fst (ts_flush e)"
proof -
  assume "alike d e"
  then have b: "bare d = bare e" by (simp add: alike_def)
  have r: "fst (flush_pids ps x) = fst (flush_pids ps (bare x))" for ps x
    by (subst rebuffered_eq [of x]) (rule flush_rebuffered)
  have "fst (flush_pids ps d) = fst (flush_pids ps e)" for ps
    using r [of ps d] r [of ps e] b by simp
  moreover have "td_streams d = td_streams e"
    using b by (metis rebuffered_eq rebuffered_fields(2))
  ultimately show ?thesis by (simp add: ts_flush_def)
qed

lemma push_split:
  "fst (ts_push (xs @ ys) d) = fst (ts_push xs d) @ fst (ts_push ys (snd (ts_push xs d)))
   \<and> alike (snd (ts_push (xs @ ys) d)) (snd (ts_push ys (snd (ts_push xs d))))"
proof -
  let ?buf = "td_partial d @ xs" and ?e = "snd (ts_push xs d)"
  let ?ps = "fst (packets_in ?buf)" and ?rest = "snd (packets_in ?buf)"
  have e: "fst (ts_push xs d) = fst (handle_packets ?ps d)" "bare ?e = bare (snd (handle_packets ?ps d))"
    "synced (td_partial ?e) = ?rest"
    using loop_packets [of ?buf d] by (simp_all add: ts_push_def)
  have a: "packets_in (?buf @ ys) = (?ps @ fst (packets_in (?rest @ ys)), snd (packets_in (?rest @ ys)))"
    by (rule packets_append)
  have "packets_in (?rest @ ys) = packets_in (td_partial ?e @ ys)"
    unfolding e(3) [symmetric]
    by (metis packets_in_synced synced_append append_Nil dropWhile_idem)
  then show ?thesis
    using loop_packets [of "?buf @ ys" d] loop_packets [of "td_partial ?e @ ys" ?e] packets_bare [OF e(2), of "fst (packets_in (?rest @ ys))"]
    by (simp add: ts_push_def a [simplified] e [unfolded ts_push_def] handle_packets_append alike_def case_prod_beta Let_def)
qed

fun push_all :: "bytes list \<Rightarrow> ts_demux \<Rightarrow> media_frame list \<times> ts_demux" where
  "push_all [] d = ([], d)"
| "push_all (b # bs) d =
     (let (out, d) = ts_push b d; (rest, d) = push_all bs d in (out @ rest, d))"

lemma push_concat:
  "fst (push_all bs (snd (ts_push b d))) = fst (ts_push (concat bs) (snd (ts_push b d)))
   \<and> alike (snd (push_all bs (snd (ts_push b d)))) (snd (ts_push (concat bs) (snd (ts_push b d))))"
proof (induction bs arbitrary: b d)
  case Nil
  show ?case using push_split [of b "[]" d] by (simp add: alike_def)
next
  case (Cons c bs)
  let ?d = "snd (ts_push b d)"
  show ?case
    using Cons.IH [of c ?d] push_split [of c "concat bs" ?d] by (auto simp: alike_def case_prod_beta Let_def)
qed

text \<open>
  C12. However the bytes of a transport stream are split into buffers, the demultiplexer
  emits the same frames. It may end with another count of resynchronisations and with other bytes held in front
  of the first sync byte, which are skipped whatever comes behind them; everything else in its state
  is the same, and whatever is pushed next, and a flush, give the same frames.
\<close>

theorem push_any_split:
  "fst (push_all (b # bs) d) = fst (ts_push (concat (b # bs)) d)
   \<and> (let split_up = snd (push_all (b # bs) d); at_once = snd (ts_push (concat (b # bs)) d) in
        bare split_up = bare at_once \<and> synced (td_partial split_up) = synced (td_partial at_once)
        \<and> fst (ts_push next_bytes split_up) = fst (ts_push next_bytes at_once)
        \<and> fst (ts_flush split_up) = fst (ts_flush at_once))"
proof -
  let ?s = "snd (push_all (b # bs) d)" and ?a = "snd (ts_push (concat (b # bs)) d)"
  have "fst (push_all (b # bs) d) = fst (ts_push (concat (b # bs)) d) \<and> alike ?s ?a"
    using push_concat [of bs b d] push_split [of b "concat bs" d]
    by (auto simp: alike_def case_prod_beta Let_def)
  then show ?thesis using push_alike [of ?s ?a next_bytes] flush_alike [of ?s ?a]
    unfolding Let_def by (simp add: alike_def)
qed

end
