(* ===== verification/Mpegts_Clock.thy ===== *)
theory Mpegts_Clock
  imports Mpegts
begin

text \<open>
  Times and keyframes of the transport stream: what the clock of \<^verbatim>\<open>ts.rs\<close> says across wraps,
  restarts and reordering, the layout of a timestamp, and the search for a keyframe.
\<close>

section \<open>The clock\<close>

fun resolve_all :: "(pid \<times> u64) list \<Rightarrow> pts_origin \<Rightarrow> duration list \<times> pts_origin" where
  "resolve_all [] po = ([], po)"
| "resolve_all ((p, pts) # rest) po =
     (let (t, po) = resolve p pts po; (ts, po) = resolve_all rest po in (t # ts, po))"

lemma unat_sat_mul: "unat (sat_mul a b) = min (unat a * unat b) (2 ^ 64 - 1)"
  using unsigned_less [of a] unsigned_less [of b]
  by (auto simp: sat_mul_def unat_mult_lem [THEN iffD1] unsigned_minus_1_eq_mask mask_eq_exp_minus_1)

lemma unat_ticks_nanos: "ticks_nanos t = min (unat t * 1000000000) (2 ^ 64 - 1) div 90000"
  by (simp add: ticks_nanos_def unat_div unat_sat_mul PTS_HZ_def)

lemma ticks_nanos_step:
  assumes "unat a \<le> unat b + 180000"
  shows "ticks_nanos a \<le> ticks_nanos b + from_secs 2"
proof -
  let ?m = "2 ^ 64 - 1 :: nat"
  have "min (unat a * 1000000000) ?m \<le> min (unat b * 1000000000) ?m + 90000 * 2000000000"
    using assms by (auto simp: min_def)
  then have "min (unat a * 1000000000) ?m div 90000 \<le> (min (unat b * 1000000000) ?m + 90000 * 2000000000) div 90000"
    by (rule div_le_mono)
  then show ?thesis by (simp add: unat_ticks_nanos from_secs_def)
qed

lemma ticks_nanos_mono: "unat a \<le> unat b \<Longrightarrow> ticks_nanos a \<le> ticks_nanos b"
  unfolding unat_ticks_nanos by (intro div_le_mono) (auto simp: min_def)

text \<open>The time of the last timestamp that was resolved.\<close>

definition elapsed_ticks :: "pts_origin \<Rightarrow> u64" where
  "elapsed_ticks po =
     (case po_first po of None \<Rightarrow> 0 | Some f \<Rightarrow> sat_add (po_carried po) (sat_sub (po_previous po) f))"

lemma resolve_elapsed:
  "fst (resolve p pts po) = ticks_nanos (elapsed_ticks (snd (resolve p pts po)))"
  by (auto simp: resolve_def elapsed_ticks_def case_prod_beta Let_def)

lemma sat_sub_self [simp]: "sat_sub a a = 0"
  by (simp add: sat_sub_def)

lemma sat_add_0 [simp]: "sat_add a 0 = (a :: 'a :: len word)"
  using unsigned_less [of a] by (simp add: sat_add_def)

lemma resolve_step:
  "ticks_nanos (elapsed_ticks po) \<le> fst (resolve p pts po) + from_secs 2"
proof (cases "po_first po")
  case None
  then have "ticks_nanos (elapsed_ticks po) = 0" by (simp add: elapsed_ticks_def unat_ticks_nanos)
  then show ?thesis by simp
next
  case (Some f)
  obtain e t where e: "extend_of p pts (po_ticks po) = (e, t)" by (cases "extend_of p pts (po_ticks po)")
  have el: "elapsed_ticks po = sat_add (po_carried po) (sat_sub (po_previous po) f)" using Some by (simp add: elapsed_ticks_def)
  show ?thesis
  proof (cases "po_previous po > e \<and> po_previous po - e > PTS_RESTART_THRESHOLD")
    case True
    then have "fst (resolve p pts po) = ticks_nanos (elapsed_ticks po)"
      by (simp add: resolve_def e Some el case_prod_beta Let_def)
    then show ?thesis by simp
  next
    case False
    have r: "fst (resolve p pts po) = ticks_nanos (sat_add (po_carried po) (sat_sub e f))"
      unfolding resolve_def e prod.case Let_def Some option.case if_not_P [OF False] by simp
    have "unat (po_previous po) \<le> unat e + 180000"
    proof (cases "po_previous po > e")
      case True
      then have "\<not> PTS_RESTART_THRESHOLD < po_previous po - e" using False by blast
      then have "unat (po_previous po - e) \<le> 180000"
        by (simp add: PTS_RESTART_THRESHOLD_def word_less_nat_alt not_less)
      moreover have "unat (po_previous po - e) = unat (po_previous po) - unat e"
        using True by (simp add: unat_sub word_less_nat_alt word_le_nat_alt)
      ultimately show ?thesis by linarith
    qed (simp add: word_less_nat_alt not_less)
    then have "unat (elapsed_ticks po) \<le> unat (sat_add (po_carried po) (sat_sub e f)) + 180000"
      unfolding el unat_sat_add unat_sat_sub by (simp add: min_def) linarith
    then show ?thesis unfolding r by (rule ticks_nanos_step)
  qed
qed

text \<open>
  What a frame is stamped with: the packets completed on their streams, with the timestamp of those
  that carry one. A packet without one is given time zero.
\<close>

fun pes_times :: "(pid \<times> u64 option) list \<Rightarrow> pts_origin \<Rightarrow> duration list \<times> pts_origin" where
  "pes_times [] po = ([], po)"
| "pes_times ((p, None) # rest) po = (let (ts, po) = pes_times rest po in (0 # ts, po))"
| "pes_times ((p, Some v) # rest) po =
     (let (t, po) = resolve p v po; (ts, po) = pes_times rest po in (t # ts, po))"

lemma pes_times_append:
  "pes_times (xs @ ys) po = (let (ts, po) = pes_times xs po; (us, po) = pes_times ys po in (ts @ us, po))"
proof (induction xs arbitrary: po)
  case (Cons x xs)
  obtain p v where x: "x = (p, v)" by (cases x)
  show ?case using Cons.IH by (cases v) (simp_all add: x case_prod_beta Let_def)
qed simp

definition timed :: "media_frame list \<Rightarrow> ts_demux \<Rightarrow> ts_demux \<Rightarrow> bool" where
  "timed out d e \<longleftrightarrow> (\<exists>zs. (map mf_pts out, td_origin e) = pes_times zs (td_origin d))"

lemma timed_nil: "td_origin e = td_origin d \<Longrightarrow> timed [] d e"
  by (auto simp: timed_def intro!: exI [of _ "[]"])

lemma timed_trans: "\<lbrakk>timed out d e; timed rest e f\<rbrakk> \<Longrightarrow> timed (out @ rest) d f"
proof -
  assume "timed out d e" "timed rest e f"
  then obtain zs ws where "(map mf_pts out, td_origin e) = pes_times zs (td_origin d)"
    "(map mf_pts rest, td_origin f) = pes_times ws (td_origin e)" by (auto simp: timed_def)
  then have "(map mf_pts (out @ rest), td_origin f) = pes_times (zs @ ws) (td_origin d)"
    by (simp add: pes_times_append split: prod.splits) (metis Pair_inject)
  then show ?thesis unfolding timed_def by blast
qed

lemma timed_step: "\<lbrakk>timed out d e; td_origin f = td_origin e\<rbrakk> \<Longrightarrow> timed out d f"
  by (simp add: timed_def)

lemma timed_frame:
  assumes "td_origin e = snd (frame_of p t raw (td_origin d))"
  shows "timed (case fst (frame_of p t raw (td_origin d)) of None \<Rightarrow> [] | Some f \<Rightarrow> [f]) d e"
proof (cases "fst (frame_of p t raw (td_origin d))")
  case None
  then have "snd (frame_of p t raw (td_origin d)) = td_origin d"
    by (auto simp: frame_of_def case_prod_beta Let_def split: option.splits if_splits)
  then show ?thesis using None assms by (simp add: timed_nil)
next
  case (Some g)
  then obtain pes where pes: "pes_parse raw = Some pes" "pes_payload pes \<noteq> []"
    by (auto simp: frame_of_def split: option.splits if_splits)
  have "([mf_pts g], td_origin e) = pes_times [(p, pes_pts pes)] (td_origin d)"
    using assms Some pes by (cases "pes_pts pes") (auto simp: frame_of_def case_prod_beta Let_def)
  then show ?thesis using Some unfolding timed_def by auto
qed

lemma complete_timed: "timed (fst (complete_pes p d)) d (snd (complete_pes p d))"
proof (cases "tbl_get (td_streams d) p")
  case (Some s)
  let ?t = "tbl_put p (s\<lparr>ss_pending := [], ss_damaged := False, ss_declared := None\<rparr>) (td_streams d)"
  have "timed (case fst (frame_of p (ss_type s) (ss_pending s) (td_origin d)) of None \<Rightarrow> [] | Some f \<Rightarrow> [f]) d
      (d\<lparr>td_streams := ?t, td_origin := snd (frame_of p (ss_type s) (ss_pending s) (td_origin d))\<rparr>)"
    by (rule timed_frame) simp
  then show ?thesis using Some by (simp add: complete_pes_def case_prod_beta Let_def timed_nil)
qed (simp add: complete_pes_def timed_nil)

lemma origin_kept [simp]:
  "td_origin (put_stream p s d) = td_origin d" "td_origin (note_counter h s d) = td_origin d"
  "td_origin (handle_pat payload start d) = td_origin d" "td_origin (handle_pmt payload start d) = td_origin d"
  by (simp_all add: put_stream_def note_counter_def note_gap_def handle_pat_def handle_pmt_def Let_def split: option.split)

lemma take_timed: "timed (fst (take_payload h payload lost d)) d (fst (snd (take_payload h payload lost d)))"
  using complete_timed [of "th_pid h" d]
  by (auto simp: take_payload_def case_prod_beta Let_def intro: timed_nil timed_step split: option.split)

lemma finish_timed: "timed (fst (finish_declared p d)) d (snd (finish_declared p d))"
  by (auto simp: finish_declared_def complete_timed intro: timed_nil split: option.split)

lemma pes_timed: "timed (fst (handle_pes h payload d)) d (snd (handle_pes h payload d))"
proof (cases "tbl_get (td_streams d) (th_pid h)")
  case (Some s)
  have "timed (fst (take_payload h payload l (note_counter h s d))) d (fst (snd (take_payload h payload l (note_counter h s d))))" for l
    using take_timed [of h payload l "note_counter h s d"] by (simp add: timed_def)
  then show ?thesis using Some finish_timed timed_trans
    by (fastforce simp: handle_pes_def case_prod_beta Let_def)
qed (simp add: handle_pes_def timed_nil)

lemma packet_timed: "timed (fst (handle_packet p d)) d (snd (handle_packet p d))"
  by (auto simp: handle_packet_def Let_def pes_timed intro!: timed_nil split: option.split)

lemma loop_timed: "timed (fst (ts_loop buf d)) d (snd (ts_loop buf d))"
proof (induction buf d rule: ts_loop.induct)
  case (1 buf d)
  show ?case
  proof (cases "length buf < TS_PACKET_LEN")
    case True
    then show ?thesis by (subst (1 2) ts_loop.simps) (simp add: timed_nil)
  next
    case False
    show ?thesis
    proof (cases "buf ! 0 \<noteq> SYNC_BYTE")
      case True
      have "timed out (d\<lparr>td_resyncs := r\<rparr>) e = timed out d e" for out r e by (simp add: timed_def)
      then show ?thesis using "1.IH"(1) [OF False True] False True by (subst (1 2) ts_loop.simps) simp
    next
      case sync: False
      let ?p = "take TS_PACKET_LEN buf"
      have "timed (fst (ts_loop (drop TS_PACKET_LEN buf) (snd (handle_packet ?p d)))) (snd (handle_packet ?p d))
          (snd (ts_loop (drop TS_PACKET_LEN buf) (snd (handle_packet ?p d))))"
        by (rule "1.IH"(2) [OF False sync refl prod.collapse])
      then show ?thesis using timed_trans [OF packet_timed] False sync
        by (subst (1 2) ts_loop.simps) (simp add: case_prod_beta Let_def)
    qed
  qed
qed

lemma push_all_timed: "timed (fst (push_all bs d)) d (snd (push_all bs d))"
proof (induction bs arbitrary: d)
  case (Cons b bs)
  have "timed (fst (ts_push b d)) d (snd (ts_push b d))" unfolding ts_push_def by (rule loop_timed)
  then show ?case using timed_trans Cons.IH [of "snd (ts_push b d)"] by (simp add: case_prod_beta Let_def)
qed (simp add: timed_nil)

lemma flush_timed: "timed (fst (ts_flush d)) d (snd (ts_flush d))"
proof -
  have "timed (fst (flush_pids ps d)) d (snd (flush_pids ps d))" for ps
  proof (induction ps arbitrary: d)
    case (Cons p ps)
    show ?case using timed_trans [OF complete_timed Cons.IH] by (simp add: case_prod_beta Let_def)
  qed (simp add: timed_nil)
  then show ?thesis by (simp add: ts_flush_def)
qed

abbreviation no_leap :: "duration \<Rightarrow> duration \<Rightarrow> bool" where
  "no_leap a b \<equiv> a \<le> b + from_secs 2"

lemma stamped_times:
  "successively no_leap (ticks_nanos (elapsed_ticks po) # filter (\<lambda>t. t \<noteq> 0) (fst (pes_times zs po)))
   \<or> (no_leap (ticks_nanos (elapsed_ticks po)) 0 \<and> successively no_leap (filter (\<lambda>t. t \<noteq> 0) (fst (pes_times zs po))))"
proof (induction zs po rule: pes_times.induct)
  case (3 p v rest po)
  obtain t q where r: "resolve p v po = (t, q)" by (cases "resolve p v po")
  have t: "t = ticks_nanos (elapsed_ticks q)" "no_leap (ticks_nanos (elapsed_ticks po)) t"
    using resolve_elapsed [of p v po] resolve_step [of po p v] by (simp_all add: r)
  let ?ts = "filter (\<lambda>t. t \<noteq> 0) (fst (pes_times rest q))"
  have IH: "successively no_leap (t # ?ts) \<or> (no_leap t 0 \<and> successively no_leap ?ts)"
    using 3 [OF refl r [symmetric]] t(1) by simp
  then have s: "successively no_leap ?ts" "?ts = [] \<or> no_leap t (hd ?ts)"
    by (auto simp: successively_Cons)
  have "filter (\<lambda>t. t \<noteq> 0) (fst (pes_times ((p, Some v) # rest) po)) = (if t = 0 then ?ts else t # ?ts)"
    by (simp add: r case_prod_beta)
  then show ?case using s t(2) by (auto simp: successively_Cons)
qed (simp_all add: case_prod_beta Let_def)

text \<open>
  C14. Whatever bytes are pushed, in whatever buffers, and flushed at the end: of the frames whose
  time is not zero, none is more than two seconds before the one before it, on whatever streams
  they are. A frame whose packet carries no timestamp is emitted with time zero (\<open>frame_of\<close>), whatever
  the time of the frame before it; this is the one leap back there is.
\<close>

theorem time_never_leaps_back:
  "successively no_leap (filter (\<lambda>t. t \<noteq> 0) (map mf_pts
     (let (out, d) = push_all buffers demux_new in out @ fst (ts_flush d))))"
proof -
  let ?d = "snd (push_all buffers demux_new)"
  obtain zs e where "(map mf_pts (fst (push_all buffers demux_new) @ fst (ts_flush ?d)), e) = pes_times zs origin_new"
    using timed_trans [OF push_all_timed flush_timed, of buffers demux_new]
    by (auto simp: timed_def demux_new_def)
  then have "map mf_pts (let (out, d) = push_all buffers demux_new in out @ fst (ts_flush d)) = fst (pes_times zs origin_new)"
    by (metis case_prod_beta fst_conv)
  then show ?thesis using stamped_times [of origin_new zs] by (auto simp: successively_Cons)
qed

section \<open>The clock of the source\<close>

abbreviation lap :: nat where "lap \<equiv> 0x200000000"

definition at_tick :: "nat \<Rightarrow> stream_ticks" where
  "at_tick x = \<lparr>tk_previous = of_nat (x mod lap), tk_wraps = of_nat (x div lap)\<rparr>"

text \<open>A next timestamp: less than half a lap on, or behind by no more than that in the same lap.\<close>

definition near :: "nat \<Rightarrow> nat \<Rightarrow> bool" where
  "near x y \<longleftrightarrow> (x \<le> y \<and> y < x + 0x100000000) \<or> (y < x \<and> x \<le> y + 0x100000000 \<and> y div lap = x div lap)"

lemma unat_of_nat64: "n < 2 ^ 64 \<Longrightarrow> unat (of_nat n :: u64) = n"
  by (simp add: unat_of_nat take_bit_eq_mod)

lemma sat_ticks:
  assumes "y < 2 ^ 63"
  shows "sat_add (of_nat (y mod lap)) (sat_mul (of_nat (y div lap)) PTS_MODULUS) = (of_nat y :: u64)"
proof -
  have b: "y mod lap < 2 ^ 64" "y div lap < 2 ^ 64" "y < 2 ^ 64" "y div lap * lap < 2 ^ 64" and e: "y mod lap + y div lap * lap = y"
    using assms by simp_all
  have m: "unat (sat_mul (of_nat (y div lap)) PTS_MODULUS) = y div lap * lap"
    using b(2,4) by (simp add: unat_sat_mul unat_of_nat64 PTS_MODULUS_def)
  show ?thesis
    by (rule word_unat_eq_iff [THEN iffD2]) (use b e m in \<open>simp add: unat_sat_add unat_of_nat64\<close>)
qed

lemma lap_step:
  assumes "near x y"
  shows "(if x mod lap > y mod lap \<and> x mod lap - y mod lap > 0x100000000 then x div lap + 1 else x div lap) = y div lap"
proof -
  obtain q a r b where d: "x div lap = q" "x mod lap = a" "y div lap = r" "y mod lap = b" by simp
  have x: "x = q * lap + a" "y = r * lap + b" unfolding d [symmetric] by simp_all
  have ab: "a < lap" "b < lap" unfolding d [symmetric] by simp_all
  have n: "(x \<le> y \<and> y < x + 0x100000000) \<or> (y < x \<and> x \<le> y + 0x100000000 \<and> r = q)"
    using assms unfolding near_def d .
  have "r = q \<and> \<not> (b < a \<and> 0x100000000 < a - b) \<or> r = q + 1 \<and> b < a \<and> 0x100000000 < a - b"
  proof (cases "r = q")
    case True
    then show ?thesis using n x by linarith
  next
    case False
    then have y: "x \<le> y" "y < x + 0x100000000" using n by blast+
    have "q < r" using False y(1) x ab by (cases "r < q") linarith+
    moreover have "r < q + 2" using y(2) x ab by linarith
    ultimately have "r = q + 1" by linarith
    then show ?thesis using y(2) x ab by linarith
  qed
  then show ?thesis unfolding d by auto
qed

lemma extend_at:
  assumes "near x y" "x < 2 ^ 63" "y < 2 ^ 63"
  shows "extend_ticks (of_nat (y mod lap)) (at_tick x) = (of_nat y, at_tick y)"
proof -
  have b: "x mod lap < 2 ^ 64" "y mod lap < 2 ^ 64" by simp_all
  have ql: "x = x div lap * lap + x mod lap" "y = y div lap * lap + y mod lap" by simp_all
  have r: "x mod lap < lap" "y mod lap < lap" by simp_all
  have cond: "of_nat (x mod lap) > (of_nat (y mod lap) :: u64)
      \<and> of_nat (x mod lap) - (of_nat (y mod lap) :: u64) > PTS_WRAP_THRESHOLD
      \<longleftrightarrow> x mod lap > y mod lap \<and> x mod lap - y mod lap > 0x100000000"
  proof (cases "x mod lap > y mod lap")
    case True
    then have "of_nat (x mod lap) - (of_nat (y mod lap) :: u64) = of_nat (x mod lap - y mod lap)"
      by (simp add: of_nat_diff)
    moreover have "unat (of_nat (x mod lap - y mod lap) :: u64) = x mod lap - y mod lap"
      using b(1) by (intro unat_of_nat64) linarith
    ultimately show ?thesis using True b by (simp add: word_less_nat_alt unat_of_nat64 PTS_WRAP_THRESHOLD_def)
  next
    case False
    then show ?thesis using b by (simp add: word_less_nat_alt unat_of_nat64)
  qed
  have w: "(if x mod lap > y mod lap \<and> x mod lap - y mod lap > 0x100000000 then x div lap + 1 else x div lap) = y div lap"
    by (rule lap_step [OF assms(1)])
  have "unat (of_nat (x div lap) :: u64) + 1 < 2 ^ 64" using assms(2) by (simp add: unat_of_nat64)
  then have s: "sat_add (of_nat (x div lap)) 1 = (of_nat (x div lap + 1) :: u64)"
    by (simp add: sat_add_def)
  have "(if of_nat (x mod lap) > (of_nat (y mod lap) :: u64)
        \<and> of_nat (x mod lap) - (of_nat (y mod lap) :: u64) > PTS_WRAP_THRESHOLD
      then sat_add (of_nat (x div lap)) 1 else of_nat (x div lap)) = (of_nat (y div lap) :: u64)"
    unfolding cond s w [symmetric] by simp
  then show ?thesis
    by (simp only: extend_ticks_def at_tick_def Let_def stream_ticks.select_convs sat_ticks [OF assms(3)])
qed

text \<open>
  The timestamps of a program that neither restarts nor jumps: each stream starts in its first
  lap and moves on from its own last one, and the planes are at most two seconds apart. \<open>at\<close> holds the
  last true position of each stream.
\<close>

fun program_ticks :: "(pid \<Rightarrow> nat option) \<Rightarrow> nat \<Rightarrow> (pid \<times> nat) list \<Rightarrow> bool" where
  "program_ticks at prev [] = True"
| "program_ticks at prev ((p, y) # rest) =
     ((case at p of None \<Rightarrow> y < lap | Some x \<Rightarrow> near x y) \<and> prev \<le> y + 180000 \<and> y < 2 ^ 63
      \<and> program_ticks (at(p \<mapsto> y)) y rest)"

lemma program_ticks_bound: "program_ticks at prev ys \<Longrightarrow> \<forall>(p, y) \<in> set ys. y < 2 ^ 63"
  by (induction at prev ys rule: program_ticks.induct) auto

definition on_the_wire :: "pid \<times> nat \<Rightarrow> pid \<times> u64" where
  "on_the_wire e = (fst e, of_nat (snd e mod lap))"

lemma extend_new: "y < lap \<Longrightarrow> extend_ticks (of_nat (y mod lap)) ticks_new = (of_nat y, at_tick y)"
  using sat_ticks [of y] by (simp add: extend_ticks_def ticks_new_def at_tick_def word_less_nat_alt Let_def)

lemma extend_follows:
  assumes "\<forall>p. tbl_get t p = map_option at_tick (at p)"
    and "case at p of None \<Rightarrow> y < lap | Some x \<Rightarrow> near x y \<and> x < 2 ^ 63" and "y < 2 ^ 63"
  shows "extend_of p (of_nat (y mod lap)) t = (of_nat y, tbl_put p (at_tick y) t)"
proof (cases "at p")
  case None
  then show ?thesis using assms(1) assms(2) extend_new [of y] by (simp add: extend_of_def)
next
  case (Some x)
  then have n: "near x y" "x < 2 ^ 63" using assms(2) by simp_all
  have "tbl_get t p = Some (at_tick x)" using assms(1) Some by simp
  then show ?thesis using extend_at [OF n assms(3)] by (simp add: extend_of_def)
qed

lemma sat_add_0_left: "sat_add 0 a = (a :: u64)"
proof -
  have "unat a < 2 ^ 64" using unsigned_less [of a] by simp
  then show ?thesis by (simp add: sat_add_def)
qed

lemma resolve_follows:
  assumes "\<forall>p. tbl_get (po_ticks po) p = map_option at_tick (at p)"
    and "case at p of None \<Rightarrow> y < lap | Some x \<Rightarrow> near x y \<and> x < 2 ^ 63"
    and "po_first po = Some (of_nat x0)" "po_carried po = 0" "po_previous po = of_nat prev"
    and "prev < 2 ^ 63" "y < 2 ^ 63" "x0 < 2 ^ 63" "prev \<le> y + 180000"
  shows "resolve p (of_nat (y mod lap)) po =
      (ticks_nanos (of_nat (y - x0)), po\<lparr>po_previous := of_nat y, po_ticks := tbl_put p (at_tick y) (po_ticks po)\<rparr>)"
proof -
  have b: "unat (of_nat prev :: u64) = prev" "unat (of_nat y :: u64) = y" "unat (of_nat x0 :: u64) = x0"
    using assms(6-8) by (simp_all add: unat_of_nat64)
  have no: "\<not> ((of_nat prev :: u64) > of_nat y \<and> of_nat prev - (of_nat y :: u64) > PTS_RESTART_THRESHOLD)"
  proof (cases "prev \<le> y")
    case True
    then show ?thesis by (simp add: word_less_nat_alt b)
  next
    case False
    then have "of_nat prev - (of_nat y :: u64) = of_nat (prev - y)" by (simp add: of_nat_diff)
    then have "unat (of_nat prev - (of_nat y :: u64)) = prev - y"
      using assms(6) by (simp add: unat_of_nat64)
    moreover have "\<not> 180000 < prev - y" using assms(9) by linarith
    ultimately show ?thesis by (simp add: word_less_nat_alt PTS_RESTART_THRESHOLD_def)
  qed
  have s: "sat_sub (of_nat y) (of_nat x0) = (of_nat (y - x0) :: u64)"
  proof (rule word_unat_eq_iff [THEN iffD2])
    have "unat (of_nat (y - x0) :: u64) = y - x0" using assms(7) by (intro unat_of_nat64) simp
    then show "unat (sat_sub (of_nat y) (of_nat x0) :: u64) = unat (of_nat (y - x0) :: u64)"
      by (simp add: unat_sat_sub b)
  qed
  have z: "sat_add 0 (of_nat (y - x0)) = (of_nat (y - x0) :: u64)"
    by (rule sat_add_0_left)
  show ?thesis
    unfolding resolve_def extend_follows [OF assms(1,2,7)] prod.case Let_def assms(3-5) option.case if_not_P [OF no] s z
    using assms(3) by simp
qed

lemma resolve_all_follows:
  "\<lbrakk>\<forall>p. tbl_get (po_ticks po) p = map_option at_tick (at p); \<forall>p x. at p = Some x \<longrightarrow> x < 2 ^ 63;
    po_first po = Some (of_nat x0); po_carried po = 0; po_previous po = of_nat prev; prev < 2 ^ 63; x0 < 2 ^ 63;
    program_ticks at prev ys\<rbrakk>
   \<Longrightarrow> fst (resolve_all (map on_the_wire ys) po) = map (\<lambda>(p, y). ticks_nanos (of_nat (y - x0))) ys"
proof (induction ys arbitrary: at prev po)
  case (Cons e ys)
  obtain p y where e: "e = (p, y)" by (cases e)
  have k: "case at p of None \<Rightarrow> y < lap | Some x \<Rightarrow> near x y \<and> x < 2 ^ 63"
    "prev \<le> y + 180000" "y < 2 ^ 63" "program_ticks (at(p \<mapsto> y)) y ys"
    using Cons.prems(2,8) by (auto simp: e split: option.splits)
  let ?po = "po\<lparr>po_previous := of_nat y, po_ticks := tbl_put p (at_tick y) (po_ticks po)\<rparr>"
  have r: "resolve p (of_nat (y mod lap)) po = (ticks_nanos (of_nat (y - x0)), ?po)"
    by (rule resolve_follows [OF Cons.prems(1) k(1) Cons.prems(3-6) k(3) Cons.prems(7) k(2)])
  have "fst (resolve_all (map on_the_wire ys) ?po) = map (\<lambda>(p, y). ticks_nanos (of_nat (y - x0))) ys"
  proof (rule Cons.IH [where at = "at(p \<mapsto> y)" and prev = y])
    show "\<forall>q. tbl_get (po_ticks ?po) q = map_option at_tick ((at(p \<mapsto> y)) q)"
      using Cons.prems(1) by (simp add: table_simps)
    show "\<forall>q x. (at(p \<mapsto> y)) q = Some x \<longrightarrow> x < 2 ^ 63" using Cons.prems(2) k(3) by simp
    show "program_ticks (at(p \<mapsto> y)) y ys" by (rule k(4))
  qed (use Cons.prems k in simp_all)
  moreover have "on_the_wire e = (p, of_nat (y mod lap))" by (simp add: e on_the_wire_def)
  ultimately show ?case by (simp add: e r case_prod_beta Let_def)
qed simp

text \<open>
  C13. The timestamps are those of a program whose true positions \<open>program_ticks\<close> describes: each stream starts in
  the first lap of the 33-bit counter (one that starts later is not covered), moves less than half a lap
  at a time, never back across a lap's end, and no timestamp is more than two seconds behind the one before
  it, whichever the stream; positions stay below 2 to the 63rd. Then each timestamp is resolved to
  the nanoseconds since the first one on the source's clock, across any number of wraps; to zero when it lies
  before the first one; and, the product of ticks with a thousand million being held to 64 bits, to one and
  the same time from 18446744074 ticks (57 hours) on.
\<close>

theorem clock_follows_source:
  "program_ticks (\<lambda>_. None) x0 ((p0, x0) # ys) \<Longrightarrow>
     fst (resolve_all (map on_the_wire ((p0, x0) # ys)) origin_new)
       = map (\<lambda>(p, y). min ((y - x0) * 1000000000) (2 ^ 64 - 1) div 90000) ((p0, x0) # ys)"
proof -
  assume pt: "program_ticks (\<lambda>_. None) x0 ((p0, x0) # ys)"
  then have x0: "x0 < lap" and ys: "program_ticks ((\<lambda>_. None)(p0 \<mapsto> x0)) x0 ys" by simp_all
  let ?po = "\<lparr>po_first = Some (of_nat x0), po_previous = of_nat x0, po_carried = 0, po_ticks = [(p0, at_tick x0)]\<rparr>"
  have e: "extend_of p0 (of_nat (x0 mod lap)) [] = (of_nat x0, [(p0, at_tick x0)])"
    using extend_new [OF x0] by (simp add: extend_of_def)
  have r: "resolve p0 (of_nat (x0 mod lap)) origin_new = (ticks_nanos (of_nat (x0 - x0)), ?po)"
    by (simp add: resolve_def origin_new_def e)
  have "fst (resolve_all (map on_the_wire ys) ?po) = map (\<lambda>(p, y). ticks_nanos (of_nat (y - x0))) ys"
    by (rule resolve_all_follows [where at = "(\<lambda>_. None)(p0 \<mapsto> x0)" and prev = x0]) (use x0 ys in auto)
  moreover have "on_the_wire (p0, x0) = (p0, of_nat (x0 mod lap))" by (simp add: on_the_wire_def)
  ultimately have "fst (resolve_all (map on_the_wire ((p0, x0) # ys)) origin_new)
      = map (\<lambda>(p, y). ticks_nanos (of_nat (y - x0))) ((p0, x0) # ys)"
    by (simp add: r case_prod_beta Let_def)
  moreover have "\<forall>(p, y) \<in> set ((p0, x0) # ys). ticks_nanos (of_nat (y - x0)) = min ((y - x0) * 1000000000) (2 ^ 64 - 1) div 90000"
    using program_ticks_bound [OF pt] by (fastforce simp: unat_ticks_nanos unat_of_nat64)
  ultimately show ?thesis by (simp add: case_prod_beta)
qed

text \<open>
  The product with a thousand million saturates before it is divided: from
  18446744074 ticks (57 hours) on, every frame is given the same time.
\<close>

theorem clock_freezes:
  "18446744074 \<le> unat t \<Longrightarrow> ticks_nanos t = 204963823041217"
  by (simp add: unat_ticks_nanos)


text \<open>
  A timestamp out of order across the wrap, as that of a B-frame may be,
  is counted as a lap of its own, so that the stream is a whole lap (26.5 hours) ahead afterwards.
\<close>

theorem reordering_at_wrap_gains_lap:
  "let (a, s) = extend_ticks 5 (at_tick (lap - 3)); (b, s) = extend_ticks (of_nat (lap - 1)) s; (c, s) = extend_ticks 8 s in
     (a, b, c) = (of_nat (lap + 5), of_nat (lap + lap - 1), of_nat (lap + lap + 8))"
  by (simp add: extend_ticks_def at_tick_def PTS_WRAP_THRESHOLD_def PTS_MODULUS_def sat_add_def sat_mul_def)

section \<open>Timestamps and keyframes\<close>

text \<open>The layout of ISO/IEC 13818-1: a tag and three chunks of 3, 15 and 15 bits with marker bits.\<close>

definition write_timestamp :: "u8 \<Rightarrow> u64 \<Rightarrow> bytes" where
  "write_timestamp tag t =
     [(push_bit 4 tag OR push_bit 1 (ucast (drop_bit 30 t) AND 0x07)) OR 1,
      ucast (drop_bit 22 t), push_bit 1 (ucast (drop_bit 15 t)) OR 1,
      ucast (drop_bit 7 t), push_bit 1 (ucast t) OR 1]"

lemma marker_bit: "(x OR 1) AND 1 \<noteq> (0 :: u8)"
proof -
  have "bit ((x OR 1) AND 1) 0" by (simp add: bit_simps)
  then show ?thesis by auto
qed

lemma bit_seven: "bit (7 :: nat) k \<longleftrightarrow> k < 3" "bit (7 :: int) k \<longleftrightarrow> k < 3"
proof -
  have m: "(7 :: nat) = mask 3" "(7 :: int) = mask 3" by (simp_all add: mask_eq_exp_minus_1)
  show "bit (7 :: nat) k \<longleftrightarrow> k < 3" "bit (7 :: int) k \<longleftrightarrow> k < 3" unfolding m bit_mask_iff by auto
qed

text \<open>
  A timestamp of 33 bits written as a PES header lays it out is read back.
\<close>

theorem timestamp_read_back: "t < PTS_MODULUS \<Longrightarrow> read_timestamp (write_timestamp tag t) = Some t"
proof -
  assume t: "t < PTS_MODULUS"
  have r: "read_timestamp [b0, b1, b2, b3, b4] =
      Some (push_bit 30 (ucast (drop_bit 1 b0 AND 0x07))
            OR push_bit 15 (push_bit 7 (ucast b1) OR ucast (drop_bit 1 b2)) OR (push_bit 7 (ucast b3) OR ucast (drop_bit 1 b4)))"
    if "b0 AND 1 \<noteq> 0" "b2 AND 1 \<noteq> 0" "b4 AND 1 \<noteq> 0" for b0 b1 b2 b3 b4 :: u8
    using that by (simp add: read_timestamp_def)
  have small: "\<not> bit t n" if "33 \<le> n" for n
    using bit_below [of t 33 n] t that by (auto simp: PTS_MODULUS_def word_less_nat_alt)
  have "push_bit 30 (ucast (drop_bit 1 ((push_bit 4 tag OR push_bit 1 (ucast (drop_bit 30 t) AND 0x07)) OR 1) AND 0x07 :: u8))
      OR push_bit 15 (push_bit 7 (ucast (ucast (drop_bit 22 t) :: u8)) OR ucast (drop_bit 1 (push_bit 1 (ucast (drop_bit 15 t)) OR 1 :: u8)))
      OR (push_bit 7 (ucast (ucast (drop_bit 7 t) :: u8)) OR ucast (drop_bit 1 (push_bit 1 (ucast t) OR 1 :: u8))) = t"
    (is "?l = t")
  proof (rule bit_word_eqI)
    fix n
    assume n: "n < LENGTH(64)"
    consider "n < 7" | "7 \<le> n" "n < 15" | "15 \<le> n" "n < 22" | "22 \<le> n" "n < 30" | "30 \<le> n" "n < 33" | "33 \<le> n" by linarith
    then show "bit ?l n = bit t n"
      using n small [of n] by cases (auto simp: bit_simps bit_seven bit_1_iff simp del: One_nat_def push_bit_Suc drop_bit_Suc)
  qed
  then show ?thesis by (simp only: write_timestamp_def r [OF marker_bit marker_bit marker_bit])
qed

text \<open>A start code somewhere in the data, and one with the header of a keyframe behind it.\<close>

definition start_code_at :: "bytes \<Rightarrow> nat \<Rightarrow> bool" where
  "start_code_at bs i \<longleftrightarrow> i + 2 < length bs \<and> bs ! i = 0 \<and> bs ! (i + 1) = 0 \<and> bs ! (i + 2) = 1"

definition keyframe_at :: "video_codec \<Rightarrow> bytes \<Rightarrow> nat \<Rightarrow> bool" where
  "keyframe_at c bs i \<longleftrightarrow> start_code_at bs i \<and> i + 3 < length bs \<and> idr_nal c (bs ! (i + 3))"

text \<open>Another start code ends right before position \<open>i\<close>: its unit would have no header.\<close>

definition glued :: "bytes \<Rightarrow> nat \<Rightarrow> bool" where
  "glued bs i \<longleftrightarrow> (\<exists>j. i = j + 3 \<and> start_code_at bs j)"

definition free_keyframe :: "video_codec \<Rightarrow> bytes \<Rightarrow> bool" where
  "free_keyframe c bs \<longleftrightarrow> (\<exists>i. keyframe_at c bs i \<and> \<not> glued bs i)"

lemma start_code_Suc [simp]: "start_code_at (x # xs) (Suc i) = start_code_at xs i"
  by (simp add: start_code_at_def)

lemma keyframe_at_Suc [simp]: "keyframe_at c (x # xs) (Suc i) = keyframe_at c xs i"
  by (simp add: keyframe_at_def add.commute [of i])

lemma keyframe_Cons:
  "(\<exists>i. keyframe_at c (x # xs) i) \<longleftrightarrow> keyframe_at c (x # xs) 0 \<or> (\<exists>i. keyframe_at c xs i)"
  by (metis keyframe_at_Suc not0_implies_Suc)

lemma keyframe_Nil [simp]: "\<not> keyframe_at c [] i"
  by (simp add: keyframe_at_def)

lemma start_code_first:
  "start_code_at (x # xs) 0 \<longleftrightarrow> (\<exists>rest. x = 0 \<and> xs = 0 # 1 # rest)"
  by (cases xs; cases "tl xs") (auto simp: start_code_at_def)

lemma keyframe_first:
  "keyframe_at c (x # xs) 0 \<longleftrightarrow> (\<exists>nal rest. x = 0 \<and> xs = 0 # 1 # nal # rest \<and> idr_nal c nal)"
  by (cases xs; cases "tl xs"; cases "tl (tl xs)") (auto simp: keyframe_at_def start_code_at_def)

lemma glued_Suc: "glued xs i \<Longrightarrow> glued (x # xs) (Suc i)"
  unfolding glued_def by (metis add_Suc start_code_Suc)

lemma free_keyframe_Cons: "free_keyframe c (x # xs) \<Longrightarrow> keyframe_at c (x # xs) 0 \<or> free_keyframe c xs"
  unfolding free_keyframe_def by (metis glued_Suc keyframe_at_Suc not0_implies_Suc)

lemma free_keyframe_code:
  assumes "free_keyframe c (0 # 0 # 1 # nal # rest)"
  shows "idr_nal c nal \<or> free_keyframe c rest"
proof -
  obtain i where k: "keyframe_at c (0 # 0 # 1 # nal # rest) i" and g: "\<not> glued (0 # 0 # 1 # nal # rest) i"
    using assms by (auto simp: free_keyframe_def)
  have "start_code_at (0 # 0 # 1 # nal # rest) 0" by (simp add: start_code_first)
  then have "i \<noteq> 3" using g by (auto simp: glued_def)
  moreover have "i \<noteq> 1" "i \<noteq> 2" using k by (auto simp: keyframe_at_def start_code_at_def)
  ultimately consider "i = 0" | j where "i = Suc (Suc (Suc (Suc j)))"
    by (cases i; cases "i - 1"; cases "i - 2"; cases "i - 3") auto
  then show ?thesis
  proof cases
    case 1
    then show ?thesis using k by (simp add: keyframe_first)
  next
    case 2
    then have "keyframe_at c rest j" "\<not> glued rest j" using k g glued_Suc by auto
    then show ?thesis unfolding free_keyframe_def by blast
  qed
qed

lemma idr_scan_sound: "idr_scan c z bs \<Longrightarrow> \<exists>i. keyframe_at c (replicate (min z 2) 0 @ bs) i"
proof (induction c z bs rule: idr_scan.induct)
  case (2 c z b bs)
  have shift: "\<exists>i. keyframe_at c (xs @ ys) i" if "\<exists>i. keyframe_at c ys i" for xs ys
    using that by (induction xs) (auto simp: keyframe_Cons)
  consider "b = 0" | "b = 1" "2 \<le> z" | "b \<noteq> 0" "\<not> (b = 1 \<and> 2 \<le> z)" by linarith
  then show ?case
  proof cases
    case one: 1
    have "\<exists>i. keyframe_at c (replicate (min (Suc z) 2) 0 @ bs) i" using 2(1) 2(4) one by simp
    moreover have "\<exists>ys. replicate (min z 2) 0 @ b # bs = ys @ replicate (min (Suc z) 2) 0 @ bs"
      using one by (cases z; cases "z - 1") (auto simp: numeral_2_eq_2)
    ultimately show ?thesis using shift by metis
  next
    case two: 2
    have r: "replicate (min z 2) 0 @ b # bs = 0 # 0 # 1 # bs" using two by (simp add: numeral_2_eq_2)
    show ?thesis
    proof (cases bs)
      case Nil
      then show ?thesis using 2(4) two by simp
    next
      case (Cons nal rest)
      have "idr_nal c nal \<or> (\<exists>i. keyframe_at c rest i)" using 2(2) 2(4) two Cons by (auto split: if_splits)
      then have "\<exists>i. keyframe_at c (0 # 0 # 1 # nal # rest) i" by (auto simp: keyframe_Cons keyframe_first)
      then show ?thesis using r by (simp only: Cons)
    qed
  next
    case three: 3
    then have "\<exists>i. keyframe_at c bs i" using 2(3) 2(4) by (auto split: if_splits)
    then have "\<exists>i. keyframe_at c (b # bs) i" by (auto simp: keyframe_Cons)
    then show ?thesis by (rule shift)
  qed
qed simp

lemma idr_scan_complete: "free_keyframe c (replicate (min z 2) 0 @ bs) \<Longrightarrow> idr_scan c z bs"
proof (induction c z bs rule: idr_scan.induct)
  case (1 c z)
  have "\<not> i + 3 < min z 2" for i by simp
  then show ?case using 1 by (simp add: free_keyframe_def keyframe_at_def)
next
  case (2 c z b bs)
  consider "b = 0" "z < 2" | "b = 0" "2 \<le> z" | "b = 1" "2 \<le> z" | "b \<noteq> 0" "\<not> (b = 1 \<and> 2 \<le> z)" by linarith
  then show ?case
  proof cases
    case one: 1
    then have "z = 0 \<or> z = 1" by linarith
    then have r: "replicate (min z 2) 0 @ b # bs = replicate (min (Suc z) 2) 0 @ bs"
      using one(1) by (auto simp: numeral_2_eq_2)
    show ?thesis using 2(1) [OF one(1)] 2(4) one(1) unfolding r by simp
  next
    case two: 2
    have r: "replicate (min z 2) 0 @ b # bs = 0 # 0 # 0 # bs" "replicate (min (Suc z) 2) 0 @ bs = 0 # 0 # bs"
      using two by (simp_all add: numeral_2_eq_2)
    have "free_keyframe c (0 # 0 # bs)" using free_keyframe_Cons 2(4) unfolding r by (fastforce simp: keyframe_first)
    then show ?thesis using 2(1) two(1) unfolding r by simp
  next
    case three: 3
    have r: "replicate (min z 2) 0 @ b # bs = 0 # 0 # 1 # bs" using three by (simp add: numeral_2_eq_2)
    show ?thesis
    proof (cases bs)
      case Nil
      have "\<not> keyframe_at c (0 # 0 # 1 # []) i" for i by (simp add: keyframe_at_def start_code_at_def)
      then show ?thesis using 2(4) [unfolded r] by (simp add: Nil free_keyframe_def)
    next
      case (Cons nal rest)
      then have "idr_nal c nal \<or> free_keyframe c rest" using free_keyframe_code 2(4) [unfolded r] by blast
      then show ?thesis using three 2(2) Cons by auto
    qed
  next
    case four: 4
    consider "min z 2 = 0" | "min z 2 = 1" "z < 2" | "min z 2 = 2" "2 \<le> z" by linarith
    then have "free_keyframe c bs"
    proof cases
      case 1
      then show ?thesis using 2(4) four free_keyframe_Cons [of c b bs] by (auto simp: keyframe_first)
    next
      case 2
      then show ?thesis using "2.prems" four free_keyframe_Cons [of c 0 "b # bs"] free_keyframe_Cons [of c b bs]
        by (auto simp: keyframe_first)
    next
      case 3
      then show ?thesis
        using "2.prems" four free_keyframe_Cons [of c 0 "0 # b # bs"] free_keyframe_Cons [of c 0 "b # bs"] free_keyframe_Cons [of c b bs]
        by (auto simp: keyframe_first numeral_2_eq_2)
    qed
    then show ?thesis using 2(3) four by auto
  qed
qed

text \<open>
  C15. A buffer that counts as a keyframe holds a start code that is followed by the header of a
  keyframe's unit. Conversely, every such start code makes it count, unless another start code ends right
  before it: then the scan takes the first zero of the second code for the header of the first.
\<close>

theorem keyframe_search_exact:
  "(annex_b_has_idr bs c \<longrightarrow> (\<exists>i. keyframe_at c bs i)) \<and> (free_keyframe c bs \<longrightarrow> annex_b_has_idr bs c)"
  using idr_scan_sound [of c 0 bs] idr_scan_complete [of c 0 bs] by (simp add: annex_b_has_idr_def)

text \<open>Of two start codes in a row the second is not seen.\<close>

theorem glued_keyframe_missed: "\<not> annex_b_has_idr [0, 0, 1, 0, 0, 1, 0x65] H264 \<and> keyframe_at H264 [0, 0, 1, 0, 0, 1, 0x65] 3"
  by (simp add: annex_b_has_idr_def keyframe_at_def start_code_at_def)

section \<open>Witnesses\<close>

theorem clock_follows_source_witness:
  "fst (resolve_all (map on_the_wire [(256, lap - 3), (256, lap + 89997)]) origin_new) = [0, 1000000000]"
  using clock_follows_source [of "lap - 3" 256 "[(256, lap + 89997)]"]
  by (simp add: near_def unat_ticks_nanos unat_of_nat64)

theorem clock_freezes_witness: "ticks_nanos 18446744074 = ticks_nanos 18446745074"
  using clock_freezes [of 18446744074] clock_freezes [of 18446745074] by simp

theorem timestamp_read_back_witness: "read_timestamp (write_timestamp 2 0x123456789) = Some 0x123456789"
  using timestamp_read_back [of "0x123456789" 2] by (simp add: PTS_MODULUS_def)

theorem keyframe_search_exact_witness:
  "annex_b_has_idr [9, 0, 0, 0, 1, 0x65, 1] H264 \<and> \<not> annex_b_has_idr [0, 0, 1, 0x41, 0] H264"
proof -
  have "keyframe_at H264 [9, 0, 0, 0, 1, 0x65, 1] 2" "\<not> glued [9, 0, 0, 0, 1, 0x65, 1] 2"
    by (simp_all add: keyframe_at_def start_code_at_def glued_def)
  then have "annex_b_has_idr [9, 0, 0, 0, 1, 0x65, 1] H264"
    using keyframe_search_exact [of "[9, 0, 0, 0, 1, 0x65, 1]" H264] by (auto simp: free_keyframe_def)
  moreover have "\<not> keyframe_at H264 [0, 0, 1, 0x41, 0] i" for i
    by (cases i; cases "i - 1") (auto simp: keyframe_at_def start_code_at_def)
  then have "\<not> annex_b_has_idr [0, 0, 1, 0x41, 0] H264"
    using keyframe_search_exact [of "[0, 0, 1, 0x41, 0]" H264] by auto
  ultimately show ?thesis by simp
qed

end
