(* ===== verification/Mpegts_Units.thy ===== *)
theory Mpegts_Units
  imports Mpegts_Clock "HOL-Library.Sublist"
begin

text \<open>
  The access units that the demultiplexer of \<^verbatim>\<open>ts.rs\<close> hands on when packets are lost and when none
  is, by a refinement to the state of one stream; and the entries of a program map.
\<close>

section \<open>Access units\<close>

text \<open>
  What one packet does to its stream alone: the raw packets of elementary stream that it
  finishes whole, and the new state.
\<close>

definition counted :: "ts_header \<Rightarrow> stream_state \<Rightarrow> stream_state" where
  "counted h s = s\<lparr>ss_last_cc := Some (th_cc h), ss_damaged := (ss_damaged s \<or> cc_lost h s)\<rparr>"

definition emit_pending :: "stream_state \<Rightarrow> bytes list \<times> stream_state" where
  "emit_pending s =
     (if ss_pending s = [] then ([], s)
      else (if ss_damaged s then [] else [ss_pending s], s\<lparr>ss_pending := [], ss_damaged := False, ss_declared := None\<rparr>))"

definition finish_unit :: "stream_state \<Rightarrow> bytes list \<times> stream_state" where
  "finish_unit s = (if is_complete s then emit_pending s else ([], s))"

definition stream_step :: "ts_header \<Rightarrow> bytes \<Rightarrow> stream_state \<Rightarrow> bytes list \<times> stream_state" where
  "stream_step h payload s =
     (if th_start h
      then let (a, s') = emit_pending (counted h s);
               (b, s') = finish_unit (s'\<lparr>ss_damaged := cc_lost h s, ss_declared := pes_declared_len payload,
                                        ss_pending := ss_pending s' @ payload\<rparr>) in (a @ b, s')
      else if ss_pending s = [] then ([], counted h s)
      else finish_unit ((counted h s)\<lparr>ss_pending := ss_pending s @ payload\<rparr>))"

fun frames_of :: "pid \<Rightarrow> stream_type \<Rightarrow> bytes list \<Rightarrow> pts_origin \<Rightarrow> media_frame list \<times> pts_origin" where
  "frames_of p t [] po = ([], po)"
| "frames_of p t (raw # raws) po =
     (let (f, po) = frame_of p t raw po; (fs, po) = frames_of p t raws po in
      ((case f of None \<Rightarrow> [] | Some f \<Rightarrow> [f]) @ fs, po))"

lemma frames_of_append:
  "frames_of p t (xs @ ys) po =
     (let (a, po) = frames_of p t xs po; (b, po) = frames_of p t ys po in (a @ b, po))"
  by (induction xs arbitrary: po) (simp_all add: case_prod_beta Let_def)

text \<open>How a demultiplexer and the state of one of its streams move together.\<close>

definition moves :: "pid \<Rightarrow> ts_demux \<Rightarrow> media_frame list \<Rightarrow> ts_demux \<Rightarrow> stream_state \<Rightarrow> bytes list \<Rightarrow> stream_state \<Rightarrow> bool" where
  "moves p d out d' s raws s' \<longleftrightarrow>
     tbl_get (td_streams d') p = Some s' \<and> ss_type s' = ss_type s
     \<and> frames_of p (ss_type s) raws (td_origin d) = (out, td_origin d')"

lemma moves_trans:
  "\<lbrakk>moves p d a d1 s xs s1; moves p d1 b d2 s1 ys s2\<rbrakk> \<Longrightarrow> moves p d (a @ b) d2 s (xs @ ys) s2"
  by (simp add: moves_def frames_of_append)

lemma complete_moves:
  "tbl_get (td_streams d) p = Some s \<Longrightarrow>
     moves p d (fst (complete_pes p d)) (snd (complete_pes p d)) s (fst (emit_pending s)) (snd (emit_pending s))"
  by (auto simp: moves_def complete_pes_def emit_pending_def table_simps case_prod_beta Let_def)

lemma finish_moves:
  "tbl_get (td_streams d) p = Some s \<Longrightarrow>
     moves p d (fst (finish_declared p d)) (snd (finish_declared p d)) s (fst (finish_unit s)) (snd (finish_unit s))"
  using complete_moves [of d p s] by (simp add: finish_declared_def finish_unit_def) (simp add: moves_def)

lemma counter_streams [simp]:
  "td_streams (note_counter h s d) = tbl_put (th_pid h) (counted h s) (td_streams d)"
  "td_origin (note_counter h s d) = td_origin d"
  by (simp_all add: note_counter_def note_gap_def put_stream_def counted_def Let_def)

lemma counted_fields [simp]:
  "ss_type (counted h s) = ss_type s" "ss_pending (counted h s) = ss_pending s"
  by (simp_all add: counted_def)

lemma emit_type [simp]: "ss_type (snd (emit_pending s)) = ss_type s"
  by (simp add: emit_pending_def)

lemma pes_moves:
  assumes s: "tbl_get (td_streams d) (th_pid h) = Some s"
  shows "moves (th_pid h) d (fst (handle_pes h payload d)) (snd (handle_pes h payload d)) s
    (fst (stream_step h payload s)) (snd (stream_step h payload s))"
proof -
  let ?p = "th_pid h"
  let ?c = "counted h s" and ?d = "note_counter h s d"
  have c: "tbl_get (td_streams ?d) ?p = Some ?c" by (simp add: table_simps)
  have m: "moves ?p d [] ?d s [] ?c" by (simp add: moves_def table_simps)
  show ?thesis
  proof (cases "th_start h")
    case True
    let ?e = "snd (complete_pes ?p ?d)" and ?s = "snd (emit_pending ?c)"
    let ?s2 = "?s\<lparr>ss_damaged := cc_lost h s, ss_declared := pes_declared_len payload, ss_pending := ss_pending ?s @ payload\<rparr>"
    let ?e2 = "put_stream ?p ?s2 ?e"
    have a: "moves ?p ?d (fst (complete_pes ?p ?d)) ?e ?c (fst (emit_pending ?c)) ?s" by (rule complete_moves [OF c])
    then have g: "tbl_get (td_streams ?e) ?p = Some ?s" by (simp add: moves_def)
    have b: "moves ?p ?e [] ?e2 ?s [] ?s2" by (simp add: moves_def put_stream_def table_simps)
    have "tbl_get (td_streams ?e2) ?p = Some ?s2" by (simp add: put_stream_def table_simps)
    note f = finish_moves [OF this]
    show ?thesis
      using moves_trans [OF moves_trans [OF moves_trans [OF m a] b] f] True g
      by (simp add: handle_pes_def s take_payload_def stream_step_def case_prod_beta Let_def)
  next
    case False
    show ?thesis
    proof (cases "ss_pending s = []")
      case True
      then show ?thesis using m False c
        by (simp add: handle_pes_def s take_payload_def stream_step_def case_prod_beta Let_def)
    next
      case ne: False
      let ?s2 = "?c\<lparr>ss_pending := ss_pending s @ payload\<rparr>"
      let ?e2 = "put_stream ?p ?s2 ?d"
      have b: "moves ?p ?d [] ?e2 ?c [] ?s2" by (simp add: moves_def put_stream_def table_simps)
      have "tbl_get (td_streams ?e2) ?p = Some ?s2" by (simp add: put_stream_def table_simps)
      note f = finish_moves [OF this]
      show ?thesis
        using moves_trans [OF moves_trans [OF m b] f] False ne c
        by (simp add: handle_pes_def s take_payload_def stream_step_def case_prod_beta Let_def)
    qed
  qed
qed

text \<open>
  A source that cuts each raw packet of elementary stream into the payloads of transport packets
  with consecutive counters; \<open>got\<close> says which of the transport packets arrive.
\<close>

definition source_header :: "pid \<Rightarrow> bool \<Rightarrow> nat \<Rightarrow> ts_header" where
  "source_header p start k =
     \<lparr>th_pid = p, th_start = start, th_cc = of_nat (k mod 16), th_has_payload = True, th_discontinuity = False,
      th_offset = 4\<rparr>"

definition cut_unit :: "bytes list \<Rightarrow> (bool \<times> bytes) list" where
  "cut_unit u = (case u of [] \<Rightarrow> [] | c # cs \<Rightarrow> (True, c) # map (Pair False) cs)"

definition well_cut :: "bytes list \<Rightarrow> bool" where
  "well_cut u \<longleftrightarrow> u \<noteq> [] \<and> [] \<notin> set u
     \<and> (case pes_declared_len (hd u) of None \<Rightarrow> True | Some n \<Rightarrow> n = length (concat u))"

fun receive_packets :: "pid \<Rightarrow> (nat \<Rightarrow> bool) \<Rightarrow> nat \<Rightarrow> (bool \<times> bytes) list \<Rightarrow> ts_demux \<Rightarrow> media_frame list \<times> ts_demux" where
  "receive_packets p got k [] d = ([], d)"
| "receive_packets p got k ((start, c) # rest) d =
     (if got k
      then let (a, d) = handle_pes (source_header p start k) c d; (b, d) = receive_packets p got (Suc k) rest d in (a @ b, d)
      else receive_packets p got (Suc k) rest d)"

fun stream_run :: "pid \<Rightarrow> (nat \<Rightarrow> bool) \<Rightarrow> nat \<Rightarrow> (bool \<times> bytes) list \<Rightarrow> stream_state \<Rightarrow> bytes list \<times> stream_state" where
  "stream_run p got k [] s = ([], s)"
| "stream_run p got k ((start, c) # rest) s =
     (if got k
      then let (a, s) = stream_step (source_header p start k) c s; (b, s) = stream_run p got (Suc k) rest s in (a @ b, s)
      else stream_run p got (Suc k) rest s)"

lemma receive_moves:
  "tbl_get (td_streams d) p = Some s \<Longrightarrow>
     moves p d (fst (receive_packets p got k pk d)) (snd (receive_packets p got k pk d)) s
       (fst (stream_run p got k pk s)) (snd (stream_run p got k pk s))"
proof (induction p got k pk s arbitrary: d rule: stream_run.induct)
  case (1 p got k s)
  then show ?case by (simp add: moves_def)
next
  case (2 p got k start c rest s)
  let ?h = "source_header p start k"
  show ?case
  proof (cases "got k")
    case True
    have m: "moves p d (fst (handle_pes ?h c d)) (snd (handle_pes ?h c d)) s
        (fst (stream_step ?h c s)) (snd (stream_step ?h c s))"
      using pes_moves [of d ?h s c] 2(3) by (simp add: source_header_def)
    then have "tbl_get (td_streams (snd (handle_pes ?h c d))) p = Some (snd (stream_step ?h c s))" by (simp add: moves_def)
    from 2(1) [OF True _ _ this, of "stream_step ?h c s" "fst (stream_step ?h c s)"]
    show ?thesis using moves_trans [OF m] True by (simp add: case_prod_beta Let_def)
  next
    case False
    then show ?thesis using 2(2,3) by simp
  qed
qed



lemma next_counter: "n < 16 \<Longrightarrow> (of_nat n + 1 :: u8) AND 0x0F = of_nat (Suc n mod 16)"
proof -
  assume n: "n < 16"
  have "\<forall>n\<in>set [0..<16]. (of_nat n + 1 :: u8) AND 0x0F = of_nat (Suc n mod 16)" by code_simp
  then show ?thesis using n by simp
qed

lemma counter_gap:
  assumes "l < k" "k \<le> l + 16"
  shows "(of_nat (l mod 16) + 1 :: u8) AND 0x0F = of_nat (k mod 16) \<longleftrightarrow> k = Suc l"
proof -
  have "(of_nat (l mod 16) + 1 :: u8) AND 0x0F = of_nat (Suc l mod 16)"
    using next_counter [of "l mod 16"] by (simp add: mod_Suc_eq)
  moreover have "(of_nat (Suc l mod 16) :: u8) = of_nat (k mod 16) \<longleftrightarrow> Suc l mod 16 = k mod 16"
  proof -
    have u: "unat (of_nat (n mod 16) :: u8) = n mod 16" for n
    proof -
      have "n mod 16 < 16" by simp
      then have "n mod 16 < 2 ^ LENGTH(8)" by (simp add: less_trans [of _ 16])
      then show ?thesis by (simp only: unat_of_nat mod_less)
    qed
    show ?thesis
    proof
      assume "(of_nat (Suc l mod 16) :: u8) = of_nat (k mod 16)"
      then have "unat (of_nat (Suc l mod 16) :: u8) = unat (of_nat (k mod 16) :: u8)" by (rule arg_cong)
      then show "Suc l mod 16 = k mod 16" by (simp only: u)
    next
      assume e: "Suc l mod 16 = k mod 16"
      show "(of_nat (Suc l mod 16) :: u8) = of_nat (k mod 16)" by (simp only: e)
    qed
  qed
  moreover have "Suc l mod 16 = k mod 16 \<longleftrightarrow> k = Suc l"
  proof
    assume "Suc l mod 16 = k mod 16"
    then have "16 dvd k - Suc l" using assms(1) using mod_eq_dvd_iff_nat [of "Suc l" k 16] by simp
    moreover have "k - Suc l < 16" using assms by linarith
    ultimately have "k - Suc l = 0" using nat_dvd_not_less by blast
    then show "k = Suc l" using assms(1) by linarith
  qed simp
  ultimately show ?thesis by simp
qed

lemma last_cc_step [simp]: "ss_last_cc (snd (stream_step h c s)) = Some (th_cc h)"
  by (simp add: stream_step_def finish_unit_def emit_pending_def counted_def case_prod_beta Let_def)





lemma finish_unit_cases:
  "finish_unit s =
     (if is_complete s \<and> ss_pending s \<noteq> []
      then (if ss_damaged s then [] else [ss_pending s], s\<lparr>ss_pending := [], ss_damaged := False, ss_declared := None\<rparr>)
      else ([], s))"
  by (simp add: finish_unit_def emit_pending_def)



text \<open>
  Whatever bursts of up to fifteen packets are lost: the frames are those of whole access units of
  the source, in its order, none of them twice and none with a hole.
\<close>


section \<open>Nothing lost\<close>

text \<open>Every packet arrives: the last one seen is the one before.\<close>

definition following :: "nat \<Rightarrow> stream_state \<Rightarrow> bool" where
  "following k s \<longleftrightarrow>
     \<not> ss_damaged s \<and> (case ss_last_cc s of None \<Rightarrow> ss_pending s = [] | Some cc \<Rightarrow> 0 < k \<and> cc = of_nat ((k - 1) mod 16))"

lemma following_whole: "following k s \<Longrightarrow> \<not> cc_lost (source_header p start k) s"
  using counter_gap [of "k - 1" k] by (auto simp: following_def cc_lost_def source_header_def split: option.splits)

definition flushed :: "bytes list \<times> stream_state \<Rightarrow> bytes list" where
  "flushed r = fst r @ fst (emit_pending (snd r))"

lemma cut_unit_Cons [simp]: "cut_unit (c # cs) = (True, c) # map (Pair False) cs"
  by (simp add: cut_unit_def)

lemma flushed_step:
  "flushed (stream_run p (\<lambda>_. True) k ((start, c) # rest) s) =
     fst (stream_step (source_header p start k) c s)
     @ flushed (stream_run p (\<lambda>_. True) (Suc k) rest (snd (stream_step (source_header p start k) c s)))"
  by (simp add: flushed_def case_prod_beta Let_def)

lemma emit_following: "following k s \<Longrightarrow> fst (emit_pending s) = (if ss_pending s = [] then [] else [ss_pending s])"
  by (simp add: emit_pending_def following_def)

lemma rest_delivered:
  assumes after: "\<And>k s. following k s \<Longrightarrow>
        flushed (stream_run p (\<lambda>_. True) k after s) = (if ss_pending s = [] then [] else [ss_pending s]) @ us"
    and declared: "D = None \<or> D = Some (length raw)"
  shows "\<lbrakk>raw = pre @ concat cs; [] \<notin> set cs; following k s; pre \<noteq> []; ss_pending s = pre; ss_declared s = D;
      cs = [] \<longrightarrow> D = None\<rbrakk> \<Longrightarrow>
    flushed (stream_run p (\<lambda>_. True) k (map (Pair False) cs @ after) s) = raw # us"
proof (induction cs arbitrary: pre k s)
  case Nil
  then show ?case using after [OF Nil.prems(3)] by simp
next
  case (Cons c cs)
  let ?h = "source_header p False k"
  let ?s2 = "(counted ?h s)\<lparr>ss_pending := pre @ c\<rparr>"
  have whole: "\<not> cc_lost ?h s" by (rule following_whole [OF Cons.prems(3)])
  have ok: "\<not> ss_damaged s" using Cons.prems(3) by (simp add: following_def)
  have st: "stream_step ?h c s = finish_unit ?s2"
    using Cons.prems(4,5) by (simp add: stream_step_def source_header_def)
  have f2: "following (Suc k) ?s2" using ok whole by (simp add: following_def counted_def source_header_def)
  show ?case
  proof (cases "is_complete ?s2")
    case True
    then have "length raw \<le> length (pre @ c)" "D = Some (length raw)"
      using declared Cons.prems(6) by (auto simp: is_complete_def counted_def)
    then have "length (concat cs) = 0" using Cons.prems(1) by simp
    then have cs: "cs = []" "raw = pre @ c" using Cons.prems(1,2) by (cases cs; simp)+
    let ?s3 = "?s2\<lparr>ss_pending := [], ss_damaged := False, ss_declared := None\<rparr>"
    have "stream_step ?h c s = ([raw], ?s3)"
      using True Cons.prems(4) ok whole cs by (simp add: st finish_unit_cases) (simp add: counted_def)
    moreover have "following (Suc k) ?s3" using f2 by (simp add: following_def counted_def)
    then have "flushed (stream_run p (\<lambda>_. True) (Suc k) after ?s3) = us" using after by simp
    ultimately show ?thesis by (simp add: flushed_step cs del: stream_run.simps)
  next
    case False
    then have e: "stream_step ?h c s = ([], ?s2)" by (simp add: st finish_unit_cases)
    have "flushed (stream_run p (\<lambda>_. True) (Suc k) (map (Pair False) cs @ after) ?s2) = raw # us"
    proof (rule Cons.IH)
      show "cs = [] \<longrightarrow> D = None"
        using False declared Cons.prems(1,6) by (auto simp: is_complete_def counted_def)
    qed (use Cons.prems f2 in \<open>simp_all add: counted_def\<close>)
    then show ?thesis by (simp add: flushed_step e del: stream_run.simps)
  qed
qed

lemma all_units:
  "\<lbrakk>\<forall>u\<in>set units. well_cut u; following k s\<rbrakk> \<Longrightarrow>
    flushed (stream_run p (\<lambda>_. True) k (concat (map cut_unit units)) s)
      = (if ss_pending s = [] then [] else [ss_pending s]) @ map concat units"
proof (induction units arbitrary: k s)
  case Nil
  then show ?case by (simp add: flushed_def emit_following)
next
  case (Cons u units)
  from Cons.prems(1) obtain c cs where u: "u = c # cs" and ne: "c \<noteq> []" "[] \<notin> set cs"
    and D: "pes_declared_len c = None \<or> pes_declared_len c = Some (length (c @ concat cs))"
    by (cases u) (auto simp: well_cut_def split: option.splits)
  let ?after = "concat (map cut_unit units)"
  let ?h = "source_header p True k"
  let ?e = "snd (emit_pending (counted ?h s))"
  let ?s2 = "?e\<lparr>ss_damaged := False, ss_declared := pes_declared_len c, ss_pending := c\<rparr>"
  have after: "flushed (stream_run p (\<lambda>_. True) k ?after s) = (if ss_pending s = [] then [] else [ss_pending s]) @ map concat units"
    if "following k s" for k s using Cons.IH [OF _ that] Cons.prems(1) by simp
  have whole: "\<not> cc_lost ?h s" by (rule following_whole [OF Cons.prems(2)])
  have ok: "\<not> ss_damaged s" using Cons.prems(2) by (simp add: following_def)
  have empty: "ss_pending ?e = []" by (simp add: emit_pending_def)
  have old: "fst (emit_pending (counted ?h s)) = (if ss_pending s = [] then [] else [ss_pending s])"
    using ok whole by (simp add: emit_pending_def) (simp add: counted_def)
  have st: "stream_step ?h c s = (fst (emit_pending (counted ?h s)) @ fst (finish_unit ?s2), snd (finish_unit ?s2))"
    using whole empty by (simp add: stream_step_def source_header_def case_prod_beta Let_def)
  have f2: "following (Suc k) ?s2" by (simp add: following_def emit_pending_def counted_def source_header_def)
  have "fst (finish_unit ?s2) @ flushed (stream_run p (\<lambda>_. True) (Suc k) (map (Pair False) cs @ ?after) (snd (finish_unit ?s2)))
      = (c @ concat cs) # map concat units"
  proof (cases "is_complete ?s2")
    case True
    then have "length (c @ concat cs) \<le> length c" using D by (auto simp: is_complete_def)
    then have "length (concat cs) = 0" by simp
    then have cs: "cs = []" using ne(2) by (cases cs) simp_all
    let ?s3 = "?s2\<lparr>ss_pending := [], ss_damaged := False, ss_declared := None\<rparr>"
    have "finish_unit ?s2 = ([c], ?s3)" using True ne(1) by (simp add: finish_unit_cases)
    moreover have "following (Suc k) ?s3" by (simp add: following_def emit_pending_def counted_def source_header_def)
    then have "flushed (stream_run p (\<lambda>_. True) (Suc k) ?after ?s3) = map concat units" using after by simp
    ultimately show ?thesis by (simp add: cs)
  next
    case False
    then have f: "finish_unit ?s2 = ([], ?s2)" by (simp add: finish_unit_cases)
    have "flushed (stream_run p (\<lambda>_. True) (Suc k) (map (Pair False) cs @ ?after) ?s2) = (c @ concat cs) # map concat units"
    proof (rule rest_delivered [OF after D refl ne(2) f2 ne(1)])
      show "cs = [] \<longrightarrow> pes_declared_len c = None" using False D by (auto simp: is_complete_def)
    qed simp_all
    then show ?thesis by (simp add: f)
  qed
  then show ?case by (simp add: u flushed_step st old del: stream_run.simps)
qed

text \<open>
  C11. When no transport packet is lost, the frames of a stream are those of all access
  units of the source, in order, once the last is flushed.
\<close>

theorem units_delivered:
  "\<lbrakk>tbl_get (td_streams d) p = Some (stream_new t); \<forall>u\<in>set units. well_cut u\<rbrakk> \<Longrightarrow>
     (let (out, d') = receive_packets p (\<lambda>_. True) k (concat (map cut_unit units)) d; (rest, _) = complete_pes p d' in out @ rest)
       = fst (frames_of p t (map concat units) (td_origin d))"
proof -
  assume s: "tbl_get (td_streams d) p = Some (stream_new t)" and units: "\<forall>u\<in>set units. well_cut u"
  let ?pk = "concat (map cut_unit units)"
  let ?r = "stream_run p (\<lambda>_. True) k ?pk (stream_new t)"
  let ?d = "snd (receive_packets p (\<lambda>_. True) k ?pk d)"
  have m: "moves p d (fst (receive_packets p (\<lambda>_. True) k ?pk d)) ?d (stream_new t) (fst ?r) (snd ?r)"
    by (rule receive_moves [OF s])
  then have "tbl_get (td_streams ?d) p = Some (snd ?r)" by (simp add: moves_def)
  note moves_trans [OF m complete_moves [OF this]]
  moreover have "following k (stream_new t)" by (simp add: following_def stream_new_def)
  then have "flushed ?r = map concat units" using all_units [OF units] by (simp add: stream_new_def)
  ultimately show ?thesis by (simp add: moves_def flushed_def stream_new_def case_prod_beta Let_def)
qed

section \<open>After a gap\<close>

lemma damaged_rest:
  "ss_damaged s \<or> ss_pending s = [] \<Longrightarrow> flushed (stream_run p got k (map (Pair False) cs) s) = []"
proof (induction cs arbitrary: k s)
  case Nil
  then show ?case by (auto simp: flushed_def emit_pending_def)
next
  case (Cons c cs)
  let ?r = "stream_step (source_header p False k) c s"
  have "fst ?r = []" "ss_damaged (snd ?r) \<or> ss_pending (snd ?r) = []"
    using Cons.prems by (auto simp: stream_step_def source_header_def finish_unit_cases counted_def)
  then show ?case using Cons.IH [of "snd ?r" "Suc k"] Cons.IH [OF Cons.prems, of "Suc k"]
    by (simp add: flushed_def case_prod_beta Let_def)
qed

text \<open>
  After a gap between two access units, the next one is dropped although
  every packet of it arrives.
\<close>

theorem whole_unit_dropped_after_gap:
  "\<lbrakk>tbl_get (td_streams d) p = Some s; ss_pending s = []; cc_lost (source_header p True k) s; u \<noteq> []\<rbrakk> \<Longrightarrow>
     (let (out, d') = receive_packets p (\<lambda>_. True) k (cut_unit u) d; (rest, _) = complete_pes p d' in out @ rest) = []"
proof -
  assume s: "tbl_get (td_streams d) p = Some s" and empty: "ss_pending s = []"
    and lost: "cc_lost (source_header p True k) s" and "u \<noteq> []"
  then obtain c cs where u: "u = c # cs" by (cases u) simp_all
  let ?pk = "cut_unit u"
  let ?r = "stream_run p (\<lambda>_. True) k ?pk s"
  let ?d = "snd (receive_packets p (\<lambda>_. True) k ?pk d)"
  let ?first = "stream_step (source_header p True k) c s"
  have "fst ?first = []" "ss_damaged (snd ?first) \<or> ss_pending (snd ?first) = []"
    using empty lost by (auto simp: stream_step_def source_header_def finish_unit_cases emit_pending_def counted_def)
  then have "flushed ?r = []" using damaged_rest [of "snd ?first" p "\<lambda>_. True" "Suc k" cs]
    by (simp add: u flushed_step del: stream_run.simps)
  moreover have m: "moves p d (fst (receive_packets p (\<lambda>_. True) k ?pk d)) ?d s (fst ?r) (snd ?r)"
    by (rule receive_moves [OF s])
  then have "tbl_get (td_streams ?d) p = Some (snd ?r)" by (simp add: moves_def)
  note moves_trans [OF m complete_moves [OF this]]
  ultimately show ?thesis by (simp add: moves_def flushed_def case_prod_beta Let_def)
qed

section \<open>Program tables\<close>

text \<open>An entry of a program map as ISO/IEC 13818-1 lays it out, with its descriptors.\<close>

definition pmt_entry :: "u8 \<Rightarrow> pid \<Rightarrow> bytes \<Rightarrow> bytes" where
  "pmt_entry t p info =
     [t, ucast (drop_bit 8 p) OR 0xE0, ucast p, ucast (drop_bit 8 (of_nat (length info) :: u16)) OR 0xF0, of_nat (length info)] @ info"

definition entry_ok :: "u8 \<times> pid \<times> bytes \<Rightarrow> bool" where
  "entry_ok e \<longleftrightarrow> (case e of (t, p, info) \<Rightarrow> unat p < 2 ^ 13 \<and> length info < 2 ^ 12)"

lemma top_bits_masked:
  "\<lbrakk>unat w < 2 ^ n; n \<le> 16; \<forall>i<8. bit (m :: u8) i = (i < n - 8); \<forall>i<8. bit (h :: u8) i = (n - 8 \<le> i); 8 \<le> n\<rbrakk>
   \<Longrightarrow> (ucast (drop_bit 8 (w :: u16)) OR h) AND m = ucast (drop_bit 8 w)"
proof (rule bit_word_eqI)
  fix i
  assume w: "unat w < 2 ^ n" and n: "8 \<le> n" and m: "\<forall>i<8. bit m i = (i < n - 8)" and h: "\<forall>i<8. bit h i = (n - 8 \<le> i)"
    and i: "i < LENGTH(8)"
  have "bit w (8 + i) \<Longrightarrow> 8 + i < n" using bit_below [of w n "8 + i"] w by simp
  then show "bit ((ucast (drop_bit 8 w) OR h) AND m) i = bit (ucast (drop_bit 8 w) :: u8) i"
    using m [rule_format, of i] h [rule_format, of i] i n by (auto simp: bit_simps)
qed

lemma less_eight: "(\<forall>i<8. P i) \<longleftrightarrow> P 0 \<and> P 1 \<and> P 2 \<and> P 3 \<and> P 4 \<and> P 5 \<and> P 6 \<and> P (7 :: nat)"
proof -
  have "(\<forall>i<8. P i) \<longleftrightarrow> (\<forall>i\<in>set [0..<8]. P i)" by auto
  also have "[0..<8] = [0, 1, 2, 3, 4, 5, 6, 7]" by (simp add: upt_rec)
  finally show ?thesis by simp
qed

lemma pid_masked: "unat p < 2 ^ 13 \<Longrightarrow> (ucast (drop_bit 8 p) OR 0xE0) AND 0x1F = (ucast (drop_bit 8 (p :: u16)) :: u8)"
  by (rule top_bits_masked [where n = 13]) (simp_all only: less_eight, simp_all)

lemma info_masked: "unat p < 2 ^ 12 \<Longrightarrow> (ucast (drop_bit 8 p) OR 0xF0) AND 0x0F = (ucast (drop_bit 8 (p :: u16)) :: u8)"
  by (rule top_bits_masked [where n = 12]) (simp_all only: less_eight, simp_all)

lemma pid_from_raw_id: "unat p < 2 ^ 13 \<Longrightarrow> pid_from_raw p = p"
proof -
  assume p: "unat p < 2 ^ 13"
  have "(0x1FFF :: u16) = mask 13" by (simp add: mask_eq_exp_minus_1)
  then have "pid_from_raw p = take_bit 13 p" by (simp add: pid_from_raw_def take_bit_eq_mask)
  then show ?thesis using p by (simp add: word_unat_eq_iff unsigned_take_bit_eq take_bit_nat_eq_self)
qed

lemma pmt_entry_read:
  assumes "entry_ok (t, p, info)" "length rest \<noteq> 1" "length rest \<noteq> 2" "length rest \<noteq> 3"
  shows "pmt_entries (pmt_entry t p info @ rest) = (p, stream_type_from_u8 t) # pmt_entries rest"
proof -
  have p: "unat p < 2 ^ 13" and n: "length info < 2 ^ 12" using assms(1) by (simp_all add: entry_ok_def)
  have un: "unat (of_nat (length info) :: u16) = length info" using n by (simp add: unat_of_nat)
  then have l: "unat (of_nat (length info) :: u16) < 2 ^ 12" using n by simp
  have u: "(of_nat (length info) :: u8) = ucast (of_nat (length info) :: u16)" by (rule bit_word_eqI) (auto simp: bit_simps)
  have a: "pid_from_raw (from_be16 ((ucast (drop_bit 8 p) OR 0xE0) AND 0x1F) (ucast p)) = p"
    by (simp only: pid_masked [OF p] from_be16_be16 pid_from_raw_id [OF p])
  have b: "unat (from_be16 ((ucast (drop_bit 8 (of_nat (length info) :: u16)) OR 0xF0) AND 0x0F) (of_nat (length info))) = length info"
    by (simp only: u info_masked [OF l] from_be16_be16 un)
  have g: "get_from (5 + length info) (pmt_entry t p info @ rest) = Some rest"
    by (simp add: get_from_def pmt_entry_def numeral_eq_Suc)
  have e: "pmt_entries (pmt_entry t p info @ rest)
      = (if length rest < 4 then [(p, stream_type_from_u8 t)] else (p, stream_type_from_u8 t) # pmt_entries rest)"
    by (subst pmt_entries.simps) (use a b g in \<open>simp add: pmt_entry_def\<close>)
  show ?thesis
  proof (cases "length rest < 4")
    case True
    then have "length rest = 0" using assms(2-4) by linarith
    then have "rest = []" by simp
    then show ?thesis using e by (simp add: pmt_entries.simps [of "[]"])
  qed (use e in simp)
qed

text \<open>
  The stream entries of a program map, each with any descriptors, are all read back in order.
\<close>

theorem program_map_read:
  "\<forall>e\<in>set es. entry_ok e \<Longrightarrow>
     pmt_entries (concat (map (\<lambda>(t, p, info). pmt_entry t p info) es)) = map (\<lambda>(t, p, info). (p, stream_type_from_u8 t)) es"
proof (induction es)
  case Nil
  then show ?case by (simp add: pmt_entries.simps)
next
  case (Cons e es)
  obtain t p info where e: "e = (t, p, info)" by (cases e)
  let ?rest = "concat (map (\<lambda>(t, p, info). pmt_entry t p info) es)"
  have "?rest = [] \<or> 5 \<le> length ?rest" by (cases es) (auto simp: pmt_entry_def split: prod.splits)
  then have "length ?rest \<noteq> 1" "length ?rest \<noteq> 2" "length ?rest \<noteq> 3" by (elim disjE; linarith?; simp only: list.size; simp)+
  then show ?case using pmt_entry_read [of t p info ?rest] Cons by (simp add: e)
qed

section \<open>Witnesses\<close>

text \<open>Two units of video in two packets each, behind a demultiplexer that knows the stream.\<close>

definition example_units :: "bytes list list" where
  "example_units =
     [[[0, 0, 1, 0xE0, 0, 0, 0x80, 0, 0, 7], [8]], [[0, 0, 1, 0xE0, 0, 0, 0x80, 0, 0, 9], [10]]]"

definition example_demux :: ts_demux where
  "example_demux = demux_new\<lparr>td_streams := [(256, stream_new H264Stream)]\<rparr>"

lemma example_ok:
  "tbl_get (td_streams example_demux) 256 = Some (stream_new H264Stream)" "\<forall>u\<in>set example_units. well_cut u"
  by (simp_all add: example_demux_def example_units_def well_cut_def pes_declared_len_def start_code_def from_be16_def)


theorem units_delivered_witness:
  "(let (out, d') = receive_packets 256 (\<lambda>_. True) 0 (concat (map cut_unit example_units)) example_demux;
        (rest, _) = complete_pes 256 d' in map mf_data (out @ rest)) = [[7, 8], [9, 10]]"
proof -
  have "map mf_data (fst (frames_of 256 H264Stream (map concat example_units) (td_origin example_demux))) = [[7, 8], [9, 10]]"
    by (simp add: example_units_def example_demux_def frame_of_def pes_parse_def start_code_def get_range_def Let_def)
  then show ?thesis
    unfolding units_delivered [OF example_ok, of 0, symmetric] by (simp add: case_prod_beta Let_def)
qed

theorem whole_unit_dropped_after_gap_witness:
  "(let (out, d') = receive_packets 256 (\<lambda>_. True) 5 (cut_unit [[0, 0, 1, 0xE0, 0, 0, 0x80, 0, 0, 7], [8]])
          (example_demux\<lparr>td_streams := [(256, (stream_new H264Stream)\<lparr>ss_last_cc := Some 3\<rparr>)]\<rparr>);
        (rest, _) = complete_pes 256 d' in out @ rest) = []"
  by (rule whole_unit_dropped_after_gap [where s = "(stream_new H264Stream)\<lparr>ss_last_cc := Some 3\<rparr>"]) (simp_all add: stream_new_def cc_lost_def source_header_def)

theorem program_map_read_witness:
  "pmt_entries (pmt_entry 0x1B 0x1011 [] @ pmt_entry 0x83 0x1100 [0x83, 2, 0x46, 0x3F]) = [(0x1011, H264Stream), (0x1100, LpcmStream)]"
  using program_map_read [of "[(0x1B, 0x1011, []), (0x83, 0x1100, [0x83, 2, 0x46, 0x3F])]"]
  by (simp add: entry_ok_def stream_type_from_u8_def)

end
