(* ===== verification/Spec2Isabelle.thy ===== *)
theory Spec2Isabelle
  imports Mux_Props Hci_Event Hci_Flow Rtp Session Sdp Avdtp Host_Run Avrcp_Props Obex Acl_Writer Media_Props Wfd_Session Wfd_Ie Mice Uibc Mpegts_Units
begin

text \<open>
  A verification library for the protocol core of castaway, a media receiver written in Rust
  that phones and computers play to over Bluetooth, Miracast and several other protocols.

  \<^bold>\<open>The program.\<close> Adapters speak one protocol each and hand what they receive to a session manager,
  which decides which sender is on screen. The modelled crates are the pure part of this: each is
  a \<open>fn(state, event) -> (state, actions)\<close> that does no I/O, reads no clock and shares no memory, so a
  method of the code is a function here, from its arguments and the state to its outputs and the
  state after it. Asynchronous actors around them own the sockets; they are not modelled, except the
  ACL writer, whose interleaving with its clients is what makes it right or wrong. The cancel of touches is
  split in the two steps between which it gives up its lock.

  \<^bold>\<open>How the parts interact.\<close>
  \<^item> Bluetooth: the bytes of a controller are cut into packets (\<open>Hci_Packet\<close>), whose events drive the host
    (\<open>Host\<close>), which sends commands under the controller's credits (\<open>Hci_Command\<close>, \<open>Hci_Flow\<close>). The data of a
    link carries L2CAP (\<open>L2cap_Pdu\<close>), whose multiplexer (\<open>Mux\<close>) opens and configures channels by signals
    (\<open>Signaling\<close>) and runs one retransmitting engine for each channel that asked for it (\<open>Ertm_Engine\<close>). On
    the channels work service discovery (\<open>Sdp\<close>), stream setup (\<open>Avdtp\<close>), remote control (\<open>Avrcp\<close>), cover art
    (\<open>Obex\<close>) and the media itself (\<open>Media\<close>, which reorders nothing but counts losses). What goes out is
    cut into fragments by the writer task (\<open>Acl_Writer\<close>).
  \<^item> Miracast: a source finds the sink by its information element (\<open>Wfd_Ie\<close>) or by its announcement of
    the infrastructure channel (\<open>Mice\<close>), negotiates a format in the parameter language
    (\<open>Wfd_Video\<close>, \<open>Wfd_Params\<close>) over an RTSP exchange (\<open>Wfd_Session\<close>), and sends a transport stream over RTP (\<open>Rtp\<close>,
    \<open>Mpegts\<close>); touches of the panel go back to it (\<open>Uibc\<close>).
  \<^item> \<open>Session\<close>: the manager that every adapter reports to.

  \<^bold>\<open>The theories and the files they model\<close>, under \<^verbatim>\<open>src/crates\<close>. Definitions carry the names of the
  code's functions and types, with a prefix where several methods share a name.
  \<^item> \<open>Prelude\<close>, \<open>Wire\<close>, \<open>Text\<close>, \<open>Wfd_Text\<close>: machine words, byte fields, saturating arithmetic, results
    (\<open>bindE\<close> is \<open>?\<close>), methods that keep their state when they fail (\<open>bindS\<close>), hash tables as association lists,
    strings as lists of UTF-8 bytes; and the contracts the components are proved against, the locales
    \<open>stream_codec\<close>, \<open>machine\<close> and \<open>simulation\<close>, which are interpreted on the model's own definitions.
  \<^item> \<open>L2cap_Pdu\<close>, \<open>Ertm_Frame\<close>, \<open>Ertm_Engine\<close>, \<open>Ertm_Run\<close>, \<open>Signaling\<close>, \<open>Mux\<close>, \<open>Mux_Invariant\<close>, \<open>Mux_Props\<close>:
    \<^verbatim>\<open>substrate-l2cap\<close>.
  \<^item> \<open>Hci_Packet\<close>, \<open>Hci_Command\<close>, \<open>Hci_Event\<close>, \<open>Hci_Flow\<close>: \<^verbatim>\<open>substrate-hci\<close>. \<open>Host\<close>, \<open>Host_Run\<close>:
    \<^verbatim>\<open>proto-bluetooth-audio/src/host.rs\<close> and \<^verbatim>\<open>substrate-hci/src/eir.rs\<close>.
  \<^item> \<open>Sdp_Element\<close>, \<open>Sdp_Pdu\<close>, \<open>Sdp\<close>: \<^verbatim>\<open>substrate-sdp\<close>.
  \<^item> \<open>A2dp_Codec\<close>, \<open>Avdtp\<close>, \<open>Avrcp\<close>, \<open>Avrcp_Props\<close>, \<open>Image_Listing\<close>, \<open>Obex\<close>, \<open>Acl_Writer\<close>, \<open>Media\<close>, \<open>Media_Props\<close>:
    \<^verbatim>\<open>codec.rs\<close>, \<^verbatim>\<open>avdtp.rs\<close> and \<^verbatim>\<open>sink.rs\<close>, \<^verbatim>\<open>avctp.rs\<close> and \<^verbatim>\<open>avrcp.rs\<close>, \<^verbatim>\<open>obex.rs\<close>, \<^verbatim>\<open>acl.rs\<close>,
    \<^verbatim>\<open>media.rs\<close>, \<^verbatim>\<open>latm.rs\<close> and \<^verbatim>\<open>ldac.rs\<close> of \<^verbatim>\<open>proto-bluetooth-audio\<close>.
  \<^item> \<open>Rtp\<close>: \<^verbatim>\<open>substrate-rtp\<close>. \<open>Session\<close>: \<^verbatim>\<open>core/src/session.rs\<close> with the vocabulary of \<^verbatim>\<open>core\<close>.
  \<^item> \<open>Wfd_Video\<close>, \<open>Wfd_Params\<close>, \<open>Wfd_Session\<close>, \<open>Wfd_Ie\<close>, \<open>Mice\<close>, \<open>Uibc\<close>, \<open>Mpegts\<close>, \<open>Mpegts_Clock\<close>, \<open>Mpegts_Units\<close>:
    \<^verbatim>\<open>video.rs\<close>, \<^verbatim>\<open>params.rs\<close>, \<^verbatim>\<open>session.rs\<close>, \<^verbatim>\<open>ie.rs\<close>, \<^verbatim>\<open>mice.rs\<close>, \<^verbatim>\<open>uibc.rs\<close>, \<^verbatim>\<open>ts.rs\<close> and \<^verbatim>\<open>media.rs\<close> of \<^verbatim>\<open>proto-miracast\<close>.

  \<^bold>\<open>What the theorems show.\<close>
  \<^item> Codecs: what is written is read back, whatever follows it (frames, signals, commands, SDP elements
    and records, AVDTP and AVRCP messages, OBEX packets, WFD parameters, elements and control
    messages), and corruption of a checked frame is detected.
  \<^item> Delivery: an SDU comes out of the segmentation, a query of any number of round trips gives the
    record that was published, an object of any number of chunks arrives, reordering within the
    depth is repaired, and a transport stream that loses packets yields whole access units only.
  \<^item> State machines: invariants that every operation keeps (the multiplexer, the engine's window, the
    AVDTP sink, the host, the manager), with simulations of abstract components (the receive
    half of the engine, the credit pools, the host's tables); commands and requests answered once;
    media started with advertised parameters only; one life of a control channel; touches that fit together for
    the source that decodes them.
  \<^item> Progress: a silent peer, a silent controller and a connection request into silence are each given
    up on after a number of timeouts that is stated; the writer task never sleeps past its work; a
    Miracast handshake ends in playback.
  \<^item> Faults of the code, as theorems about inputs that show them (an SDP integer without a body, levels that
    no source can meet, presentation times that stop or leap, a press that overtakes a cancel, sessions closed
    without a word). Where such a fault limits a property, the text of the property says so.

  \<^bold>\<open>Bounds, loops and fuel.\<close> Recursion is on the data or has a termination proof. The loops of the SDP
  decoder may panic or not end in the code; they take fuel, the length of the body, which each turn
  shortens by at least one, and the depth of nesting is the code's own limit of 16. An SDP exchange runs
  for one round for each byte the answer can have. Counters and lengths keep their width, with the
  wrap-around or saturation of the code; a \<open>Duration\<close> is a natural number of nanoseconds. The rounds and
  timeouts in the liveness theorems are part of their statements.

  \<^bold>\<open>Hash tables.\<close> The order of an association list is the order in which the code iterates; a theorem
  over all tables is a theorem over all orders.

  \<^bold>\<open>Parameters.\<close> The XML reader of image listings and SHA-256 are arguments; the pipeline, the display
  and the remotes are an environment of the session manager; tokio's \<open>Notify\<close> and \<open>Mutex\<close> are modelled by
  their documented behaviour.

  \<^bold>\<open>Not modelled.\<close> Logging and most \<open>Display\<close> texts; conversions of a volume and of touch coordinates
  through \<open>f32\<close>; the actors and transports (Bluetooth adapter, Miracast actors and Wi-Fi Direct
  backend, USB and serial); the AirPlay, Cast, FCast, DLNA, DIAL, Spotify, Matter and GameStream
  receivers; the RTSP text codec, mDNS and SSDP; the media pipeline over FFmpeg and wgpu; the
  application shell, updates and tools; crypto crates, generated code and C bindings. These call
  libraries that are not in the repository or are I/O around them; \<^verbatim>\<open>PROJECT.json\<close> gives the
  reason for each.
\<close>

end
